(* ===== verification/PF_Prelude.thy ===== *)
theory PF_Prelude
  imports Main "HOL-Library.AList"
begin

text \<open>
  Prelude of the PaddleFlow development. It holds what every component shares:
  \<^item> the result discipline of the Go code (\<open>value, err\<close>) as a sum type with a sequencing
    operator \<open>bindE\<close> and an error-stopping loop \<open>foldE\<close>;
  \<^item> the functions of Go's \<open>strings\<close> package that the sources call, on ASCII strings
    (\<open>Split\<close>, \<open>TrimSpace\<close>, \<open>Trim\<close>, \<open>EqualFold\<close>, \<open>ToUpper\<close>, \<open>ToLower\<close>, \<open>Replace\<close>,
    \<open>HasPrefix\<close>, \<open>TrimPrefix\<close>), and decimal numbers (\<open>strconv.Itoa\<close>, \<open>strconv.Atoi\<close>);
  \<^item> Go maps as association lists: a list with distinct keys is one enumeration of the map,
    the order being the order in which \<open>range\<close> happens to visit it. A theorem about all such
    lists is a theorem about every iteration order.
\<close>

named_theorems go_simps \<open>equations of the Go library functions\<close>
named_theorems pf_inv \<open>preservation of component invariants\<close>

section \<open>Results\<close>

type_synonym ('e, 'a) result = "'e + 'a"

definition bindE :: "'e + 'a \<Rightarrow> ('a \<Rightarrow> 'e + 'b) \<Rightarrow> 'e + 'b" where
  "bindE m f = (case m of Inl e \<Rightarrow> Inl e | Inr x \<Rightarrow> f x)"

lemma bindE_Inl [simp]: "bindE (Inl e) f = Inl e"
  by (simp add: bindE_def)

lemma bindE_Inr [simp]: "bindE (Inr x) f = f x"
  by (simp add: bindE_def)

lemma bindE_eq_Inr: "bindE m f = Inr y \<longleftrightarrow> (\<exists>x. m = Inr x \<and> f x = Inr y)"
  by (cases m) auto

lemma bindE_eq_Inl: "bindE m f = Inl e \<longleftrightarrow> m = Inl e \<or> (\<exists>x. m = Inr x \<and> f x = Inl e)"
  by (cases m) auto

lemma bindE_cong [fundef_cong]:
  "m = m' \<Longrightarrow> (\<And>x. m' = Inr x \<Longrightarrow> f x = f' x) \<Longrightarrow> bindE m f = bindE m' f'"
  by (cases m') auto

definition guardE :: "bool \<Rightarrow> 'e \<Rightarrow> 'e + unit" where
  "guardE b e = (if b then Inr () else Inl e)"

lemma guardE_simps [simp]:
  "guardE True e = Inr ()" "guardE False e = Inl e"
  "guardE b e = Inr u \<longleftrightarrow> b" "guardE b e = Inl e' \<longleftrightarrow> \<not> b \<and> e' = e"
  by (auto simp: guardE_def)

text \<open>\<open>for _, x := range xs { if err := f(x); err != nil { return err } }\<close>, threading a state.\<close>

fun foldE :: "('x \<Rightarrow> 's \<Rightarrow> 'e + 's) \<Rightarrow> 'x list \<Rightarrow> 's \<Rightarrow> 'e + 's" where
  "foldE f [] s = Inr s"
| "foldE f (x # xs) s = bindE (f x s) (foldE f xs)"

lemma foldE_inv:
  assumes "foldE f xs s = Inr t" and "P s"
    and "\<And>x s t. x \<in> set xs \<Longrightarrow> P s \<Longrightarrow> f x s = Inr t \<Longrightarrow> P t"
  shows "P t"
  using assms by (induction xs arbitrary: s) (auto simp: bindE_eq_Inr)

lemma foldE_Inl_cases:
  assumes "foldE f xs s = Inl e" and "P s"
    and "\<And>x s t. x \<in> set xs \<Longrightarrow> P s \<Longrightarrow> f x s = Inr t \<Longrightarrow> P t"
  obtains x t where "x \<in> set xs" "P t" "f x t = Inl e"
  using assms by (induction xs arbitrary: s) (auto simp: bindE_eq_Inl, blast+)

lemma foldE_cong [fundef_cong]:
  "xs = ys \<Longrightarrow> s = t \<Longrightarrow> (\<And>x s. x \<in> set ys \<Longrightarrow> f x s = g x s) \<Longrightarrow> foldE f xs s = foldE g ys t"
  by (induction ys arbitrary: xs s t) (auto intro: bindE_cong)

section \<open>Characters\<close>

abbreviation code_point :: "char \<Rightarrow> nat" where
  "code_point c \<equiv> of_char c"

definition is_digit :: "char \<Rightarrow> bool" where
  "is_digit c = (48 \<le> code_point c \<and> code_point c \<le> 57)"

definition is_lower :: "char \<Rightarrow> bool" where
  "is_lower c = (97 \<le> code_point c \<and> code_point c \<le> 122)"

definition is_upper :: "char \<Rightarrow> bool" where
  "is_upper c = (65 \<le> code_point c \<and> code_point c \<le> 90)"

definition is_word :: "char \<Rightarrow> bool" where
  "is_word c = (is_digit c \<or> is_lower c \<or> is_upper c \<or> code_point c = 95)"

text \<open>\<open>unicode.IsSpace\<close> on ASCII (tab, newline, vertical tab, form feed, return, blank), used by
  \<open>strings.TrimSpace\<close>; the class \<open>\s\<close> of package \<open>regexp\<close> leaves the vertical tab out.\<close>

definition is_space :: "char \<Rightarrow> bool" where
  "is_space c = (code_point c = 32 \<or> (9 \<le> code_point c \<and> code_point c \<le> 13))"

definition re_space :: "char \<Rightarrow> bool" where
  "re_space c = (is_space c \<and> code_point c \<noteq> 11)"

definition to_lower_char :: "char \<Rightarrow> char" where
  "to_lower_char c = (if is_upper c then char_of (code_point c + 32) else c)"

definition to_upper_char :: "char \<Rightarrow> char" where
  "to_upper_char c = (if is_lower c then char_of (code_point c - 32) else c)"

lemmas char_defs = is_digit_def is_lower_def is_upper_def is_word_def is_space_def re_space_def
  to_lower_char_def to_upper_char_def

section \<open>Package strings\<close>

definition to_lower :: "string \<Rightarrow> string" where
  "to_lower s = map to_lower_char s"

definition to_upper :: "string \<Rightarrow> string" where
  "to_upper s = map to_upper_char s"

definition equal_fold :: "string \<Rightarrow> string \<Rightarrow> bool" where
  "equal_fold s t = (to_lower s = to_lower t)"

lemma equal_fold_refl [simp]: "equal_fold s s"
  by (simp add: equal_fold_def)

lemma equal_fold_sym: "equal_fold s t = equal_fold t s"
  by (auto simp: equal_fold_def)

lemma equal_fold_trans: "equal_fold s t \<Longrightarrow> equal_fold t u \<Longrightarrow> equal_fold s u"
  by (simp add: equal_fold_def)

fun split_on :: "char \<Rightarrow> string \<Rightarrow> string list" where
  "split_on c [] = [[]]"
| "split_on c (x # xs) =
     (if x = c then [] # split_on c xs
      else case split_on c xs of [] \<Rightarrow> [[x]] | y # ys \<Rightarrow> (x # y) # ys)"

lemma split_on_ne [simp]: "split_on c s \<noteq> []"
  by (cases s) (auto split: list.splits)

lemma split_on_no_sep: "w \<in> set (split_on c s) \<Longrightarrow> c \<notin> set w"
  by (induction s arbitrary: w) (auto split: if_splits list.splits)

lemma split_on_id: "c \<notin> set s \<Longrightarrow> split_on c s = [s]"
  by (induction s) auto

lemma split_on_append: "c \<notin> set s \<Longrightarrow> split_on c (s @ c # t) = s # split_on c t"
  by (induction s) auto

fun join_with :: "char \<Rightarrow> string list \<Rightarrow> string" where
  "join_with c [] = []"
| "join_with c [w] = w"
| "join_with c (w # ws) = w @ c # join_with c ws"

lemma join_with_split_on: "join_with c (split_on c s) = s"
proof (induction s)
  case (Cons x xs)
  then show ?case
    by (cases "split_on c xs"; cases "tl (split_on c xs)") auto
qed simp

lemma split_on_join_with:
  "ws \<noteq> [] \<Longrightarrow> (\<forall>w\<in>set ws. c \<notin> set w) \<Longrightarrow> split_on c (join_with c ws) = ws"
  by (induction c ws rule: join_with.induct) (auto simp: split_on_append split_on_id)

definition trim :: "(char \<Rightarrow> bool) \<Rightarrow> string \<Rightarrow> string" where
  "trim P s = rev (dropWhile P (rev (dropWhile P s)))"

abbreviation trim_space :: "string \<Rightarrow> string" where
  "trim_space s \<equiv> trim is_space s"

abbreviation trim_blank :: "string \<Rightarrow> string" where
  "trim_blank s \<equiv> trim (\<lambda>c. c = CHR '' '') s"

lemma dropWhile_none: "\<forall>c\<in>set s. \<not> P c \<Longrightarrow> dropWhile P s = s"
  by (cases s) auto

lemma trim_id: "\<forall>c\<in>set s. \<not> P c \<Longrightarrow> trim P s = s"
  by (simp add: trim_def dropWhile_none)

lemma set_trim: "set (trim P s) \<subseteq> set s"
  unfolding trim_def by (metis set_dropWhileD set_rev subsetI)

definition has_prefix :: "string \<Rightarrow> string \<Rightarrow> bool" where
  "has_prefix s p = (take (length p) s = p)"

definition trim_prefix :: "string \<Rightarrow> string \<Rightarrow> string" where
  "trim_prefix s p = (if has_prefix s p then drop (length p) s else s)"

text \<open>\<open>strings.Replace(s, old, new, -1)\<close> for a non-empty \<open>old\<close>: every non-overlapping
  occurrence, from the left.\<close>

function replace_all :: "string \<Rightarrow> string \<Rightarrow> string \<Rightarrow> string" where
  "replace_all [] old new = []"
| "replace_all (c # s) old new =
     (if old \<noteq> [] \<and> has_prefix (c # s) old
      then new @ replace_all (drop (length old) (c # s)) old new
      else c # replace_all s old new)"
  by pat_completeness auto
termination
  by (relation "measure (\<lambda>(s, old, new). length s)") auto

lemma replace_all_absent:
  "(\<And>i. \<not> has_prefix (drop i s) old) \<Longrightarrow> replace_all s old new = s"
proof (induction s old new rule: replace_all.induct)
  case (2 c s old new)
  have "\<not> has_prefix (c # s) old" using "2.prems" [of 0] by simp
  moreover have "\<And>i. \<not> has_prefix (drop i s) old"
    using "2.prems" [of "Suc i" for i] by simp
  ultimately show ?case using "2.IH"(2) by simp
qed simp

section \<open>Package strconv\<close>

fun nat_digits :: "nat \<Rightarrow> string" where
  "nat_digits n = (if n < 10 then [char_of (48 + n)] else nat_digits (n div 10) @ [char_of (48 + n mod 10)])"

declare nat_digits.simps [simp del]

definition itoa :: "int \<Rightarrow> string" where
  "itoa i = (if i < 0 then CHR ''-'' # nat_digits (nat (- i)) else nat_digits (nat i))"

definition digits_val :: "string \<Rightarrow> nat" where
  "digits_val s = foldl (\<lambda>n c. 10 * n + (code_point c - 48)) 0 s"

definition parse_nat :: "string \<Rightarrow> nat option" where
  "parse_nat s = (if s \<noteq> [] \<and> list_all is_digit s then Some (digits_val s) else None)"

text \<open>\<open>strconv.Atoi\<close> and \<open>strconv.ParseInt(_, 10, 64)\<close>: an optional sign and at least one digit,
  within the range of a 64-bit integer.\<close>

definition atoi :: "string \<Rightarrow> int option" where
  "atoi s =
     (let (neg, ds) = (case s of [] \<Rightarrow> (False, s)
                       | c # cs \<Rightarrow> if c = CHR ''-'' then (True, cs)
                                   else if c = CHR ''+'' then (False, cs) else (False, s))
      in case parse_nat ds of
           None \<Rightarrow> None
         | Some n \<Rightarrow>
             (let i = (if neg then - int n else int n)
              in if - (2 ^ 63) \<le> i \<and> i < 2 ^ 63 then Some i else None))"

lemma nat_digits_ne [simp]: "nat_digits n \<noteq> []"
  by (subst nat_digits.simps) simp

lemma code_point_digit [simp]: "n < 10 \<Longrightarrow> code_point (char_of (48 + n :: nat)) = 48 + n"
  by (simp add: of_char_of)

lemma nat_digits_digit: "list_all is_digit (nat_digits n)"
proof (induction n rule: nat_digits.induct)
  case (1 n)
  have "is_digit (char_of (48 + n mod 10))" "n < 10 \<Longrightarrow> is_digit (char_of (48 + n))"
    by (auto simp: is_digit_def of_char_of)
  with 1 show ?case
    by (subst nat_digits.simps) simp
qed

lemma digits_val_nat_digits: "digits_val (nat_digits n) = n"
proof (induction n rule: nat_digits.induct)
  case (1 n)
  show ?case
  proof (cases "n < 10")
    case True
    then show ?thesis by (subst nat_digits.simps) (simp add: digits_val_def of_char_of)
  next
    case False
    with 1 have "digits_val (nat_digits (n div 10)) = n div 10" by simp
    with False show ?thesis
      by (subst nat_digits.simps) (simp add: digits_val_def of_char_of)
  qed
qed

lemma nat_digits_hd: "nat_digits n = c # cs \<Longrightarrow> is_digit c"
  using nat_digits_digit [of n] by simp

text \<open>Printing and parsing of 64-bit integers are inverse.\<close>

lemma atoi_itoa:
  assumes "- (2 ^ 63) \<le> i" and "i < 2 ^ 63"
  shows "atoi (itoa i) = Some i"
proof (cases "i < 0")
  case True
  then show ?thesis using assms
    by (simp add: atoi_def itoa_def parse_nat_def nat_digits_digit digits_val_nat_digits)
next
  case False
  obtain c cs where ds: "nat_digits (nat i) = c # cs" by (cases "nat_digits (nat i)") auto
  then have "is_digit c" by (rule nat_digits_hd)
  then have "c \<noteq> CHR ''-''" "c \<noteq> CHR ''+''" by (auto simp: is_digit_def)
  moreover have "parse_nat (c # cs) = Some (nat i)"
    using nat_digits_digit [of "nat i"] digits_val_nat_digits [of "nat i"] ds
    by (simp add: parse_nat_def)
  ultimately show ?thesis using False assms ds by (simp add: atoi_def itoa_def)
qed

section \<open>Association lists as Go maps\<close>

type_synonym 'v gomap = "(string \<times> 'v) list"

abbreviation keys :: "('k \<times> 'v) list \<Rightarrow> 'k list" where
  "keys m \<equiv> map fst m"

definition wf_map :: "('k \<times> 'v) list \<Rightarrow> bool" where
  "wf_map m = distinct (keys m)"

definition mget :: "('k \<times> 'v) list \<Rightarrow> 'k \<Rightarrow> 'v option" where
  "mget m k = map_of m k"

definition mput :: "'k \<Rightarrow> 'v \<Rightarrow> ('k \<times> 'v) list \<Rightarrow> ('k \<times> 'v) list" where
  "mput k v m = AList.update k v m"

definition mdel :: "'k \<Rightarrow> ('k \<times> 'v) list \<Rightarrow> ('k \<times> 'v) list" where
  "mdel k m = AList.delete k m"

text \<open>\<open>m[k]\<close> of a map of strings: the zero value when the key is absent.\<close>

definition mstr :: "(string \<times> string) list \<Rightarrow> string \<Rightarrow> string" where
  "mstr m k = (case mget m k of None \<Rightarrow> [] | Some v \<Rightarrow> v)"

lemma mget_Nil [simp]: "mget [] k = None"
  by (simp add: mget_def)

lemma mget_Cons [simp]: "mget ((k', v) # m) k = (if k = k' then Some v else mget m k)"
  by (simp add: mget_def)

lemma mget_mput [simp]: "mget (mput k v m) k' = (if k' = k then Some v else mget m k')"
  by (simp add: mget_def mput_def update_conv')

lemma mget_mdel [simp]: "mget (mdel k m) k' = (if k' = k then None else mget m k')"
  by (simp add: mget_def mdel_def delete_conv')

lemma mput_mput [simp]: "mput k v (mput k u m) = mput k v m"
  by (induction m) (auto simp: mput_def)

lemma wf_mput [simp]: "wf_map m \<Longrightarrow> wf_map (mput k v m)"
  by (simp add: wf_map_def mput_def distinct_update)

lemma wf_mdel [simp]: "wf_map m \<Longrightarrow> wf_map (mdel k m)"
  by (simp add: wf_map_def mdel_def distinct_delete)

lemma wf_Nil [simp]: "wf_map []"
  by (simp add: wf_map_def)

lemma mget_None: "mget m k = None \<longleftrightarrow> k \<notin> set (keys m)"
  by (simp add: mget_def map_of_eq_None_iff)

lemma mget_in_keys: "mget m k = Some v \<Longrightarrow> k \<in> set (keys m)"
  by (metis mget_None option.distinct(1))

lemma mget_in_set: "mget m k = Some v \<Longrightarrow> (k, v) \<in> set m"
  by (simp add: mget_def map_of_SomeD)

lemma in_set_mget: "wf_map m \<Longrightarrow> (k, v) \<in> set m \<Longrightarrow> mget m k = Some v"
  by (simp add: mget_def wf_map_def)

lemma keys_mput: "set (keys (mput k v m)) = insert k (set (keys m))"
  by (simp add: mput_def dom_update flip: dom_map_of_conv_image_fst) (auto simp: update_conv')

lemma keys_mdel: "set (keys (mdel k m)) = set (keys m) - {k}"
  by (auto simp: mdel_def delete_keys)

lemma keys_mput_same: "mget m k = Some w \<Longrightarrow> keys (mput k v m) = keys m"
  by (induction m) (auto simp: mput_def split: if_splits)

section \<open>Machines\<close>

text \<open>A component with concurrent parts is a function from actions to partial state changes. A run is a
  sequence of enabled actions that satisfy an assumption \<open>ok\<close> about the environment.\<close>

fun run_acts :: "('a \<Rightarrow> 's \<Rightarrow> 's option) \<Rightarrow> 'a list \<Rightarrow> 's \<Rightarrow> 's option" where
  "run_acts step [] s = Some s"
| "run_acts step (a # as) s = (case step a s of None \<Rightarrow> None | Some s' \<Rightarrow> run_acts step as s')"

inductive reached :: "('a \<Rightarrow> 's \<Rightarrow> 's option) \<Rightarrow> ('a \<Rightarrow> bool) \<Rightarrow> 's \<Rightarrow> 's \<Rightarrow> bool"
  for step ok s0 where
  reached_refl: "reached step ok s0 s0"
| reached_step: "reached step ok s0 s \<Longrightarrow> ok a \<Longrightarrow> step a s = Some s' \<Longrightarrow> reached step ok s0 s'"

lemma reached_acts_gen:
  "run_acts step as s = Some s' \<Longrightarrow> list_all ok as \<Longrightarrow> reached step ok s0 s \<Longrightarrow> reached step ok s0 s'"
  by (induction "as" arbitrary: s) (auto split: option.splits intro: reached_step)

lemma reached_acts: "run_acts step as s = Some s' \<Longrightarrow> list_all ok as \<Longrightarrow> reached step ok s s'"
  by (rule reached_acts_gen [OF _ _ reached_refl])

text \<open>A computed option that satisfies a check.\<close>

lemma case_option_obtain:
  assumes "case x of None \<Rightarrow> False | Some y \<Rightarrow> P y"
  obtains y where "x = Some y" and "P y"
  using assms by (cases x) simp_all

text \<open>The interface of an invariant proof: every enabled action keeps the invariant.\<close>

locale step_machine =
  fixes step :: "'a \<Rightarrow> 's \<Rightarrow> 's option" and ok :: "'a \<Rightarrow> bool" and inv :: "'s \<Rightarrow> bool"
  assumes keeps: "inv s \<Longrightarrow> ok a \<Longrightarrow> step a s = Some s' \<Longrightarrow> inv s'"
begin

lemma reached_inv: "reached step ok s0 s \<Longrightarrow> inv s0 \<Longrightarrow> inv s"
  by (induction rule: reached.induct) (auto intro: keeps)

lemma acts_inv: "run_acts step as s = Some s' \<Longrightarrow> list_all ok as \<Longrightarrow> inv s \<Longrightarrow> inv s'"
  using reached_acts reached_inv by metis

end

end
