(* ===== verification/PF_Schema.thy ===== *)
theory PF_Schema
  imports PF_Prelude
begin

text \<open>
  The data types that every part of PaddleFlow exchanges, from \<open>pkg/common/schema\<close> and
  \<open>pkg/apiserver/common\<close>: job and run statuses, the workflow source (the parsed run.yaml), the
  runtime view stored with a run, resource descriptions with their validation, and the name
  checks. A Go string enumeration is a datatype when all its values are constants of the source
  (\<open>StatusJobNone\<close> is the empty string); run and queue statuses stay strings because the code
  compares them case-insensitively.
\<close>

section \<open>Job status (pkg/common/schema/job.go)\<close>

datatype job_status =
    StatusJobNone
  | StatusJobPending | StatusJobRunning | StatusJobFailed | StatusJobSucceeded
  | StatusJobTerminating | StatusJobTerminated | StatusJobCancelled | StatusJobCached

datatype action_on_job = ActUpdate | ActDelete | ActTerminate

text \<open>The state of a Spark application is the string its operator reports.\<close>

type_synonym spark_state = string

definition GetSparkJobStatus :: "spark_state \<Rightarrow> string + job_status" where
  "GetSparkJobStatus state =
     (let status =
        (if state \<in> {'''', ''SUBMITTED''} then StatusJobPending
         else if state \<in> {''RUNNING'', ''SUCCEEDING'', ''FAILING'', ''INVALIDATING'', ''PENDING_RERUN''}
              then StatusJobRunning
         else if state = ''COMPLETED'' then StatusJobSucceeded
         else if state \<in> {''FAILED'', ''SUBMISSION_FAILED'', ''UNKNOWN''} then StatusJobFailed
         else StatusJobNone)
      in if status = StatusJobNone then Inl (''unexpected spark application status '' @ state)
         else Inr status)"

text \<open>The phases of a Volcano job that the switch of \<open>GetVCJobStatus\<close> names; \<open>VCOther\<close> is any
  other value of that string type, the empty one included.\<close>

datatype vc_phase =
    VCPending | VCRunning | VCRestarting | VCCompleting | VCTerminating | VCAborting
  | VCCompleted | VCAborted | VCFailed | VCTerminated | VCOther string

fun vc_phase_status :: "vc_phase \<Rightarrow> job_status" where
  "vc_phase_status VCPending = StatusJobPending"
| "vc_phase_status VCRunning = StatusJobRunning"
| "vc_phase_status VCRestarting = StatusJobRunning"
| "vc_phase_status VCCompleting = StatusJobRunning"
| "vc_phase_status VCTerminating = StatusJobTerminating"
| "vc_phase_status VCAborting = StatusJobTerminating"
| "vc_phase_status VCCompleted = StatusJobSucceeded"
| "vc_phase_status VCAborted = StatusJobTerminated"
| "vc_phase_status VCFailed = StatusJobFailed"
| "vc_phase_status VCTerminated = StatusJobFailed"
| "vc_phase_status (VCOther s) = StatusJobNone"

definition GetVCJobStatus :: "vc_phase \<Rightarrow> string + job_status" where
  "GetVCJobStatus phase =
     (if vc_phase_status phase = StatusJobNone then Inl ''unexpected vcjob status''
      else Inr (vc_phase_status phase))"

text \<open>Neither translation invents a status of its own engine: \<open>cancelled\<close> and \<open>cached\<close> never
  come from Kubernetes.\<close>

lemma GetSparkJobStatus_range:
  "GetSparkJobStatus st = Inr s \<Longrightarrow>
     s \<in> {StatusJobPending, StatusJobRunning, StatusJobSucceeded, StatusJobFailed}"
  by (auto simp: GetSparkJobStatus_def Let_def split: if_splits)

lemma GetVCJobStatus_range:
  "GetVCJobStatus p = Inr s \<Longrightarrow> s \<notin> {StatusJobNone, StatusJobCancelled, StatusJobCached}"
  by (cases p) (auto simp: GetVCJobStatus_def)

section \<open>Workflow source (pkg/common/schema/workflow.go, view.go)\<close>

text \<open>
  A parameter is an \<open>interface{}\<close> filled by the YAML decoder or by a JSON request. \<open>PFloat\<close> holds
  the text that \<open>fmt.Sprintf("%v", _)\<close> prints for it (the code only prints and passes floats on);
  \<open>PInt32\<close> and \<open>PInt64\<close> are the sized integers that \<open>checkDictParam\<close> names besides \<open>int\<close>; \<open>PDict\<close>
  is a \<open>map[interface{}]interface{}\<close>; \<open>POther\<close> is any other dynamic type (booleans, lists,
  string-keyed maps), with the text it prints.
\<close>

datatype pval =
    PNil
  | PStr string
  | PInt int
  | PInt32 int
  | PInt64 int
  | PFloat string
  | PDict "(string \<times> pval) list" string
  | POther string

text \<open>\<open>fmt.Sprintf("%v", v)\<close>.\<close>

fun sprint_v :: "pval \<Rightarrow> string" where
  "sprint_v PNil = ''<nil>''"
| "sprint_v (PStr s) = s"
| "sprint_v (PInt i) = itoa i"
| "sprint_v (PInt32 i) = itoa i"
| "sprint_v (PInt64 i) = itoa i"
| "sprint_v (PFloat s) = s"
| "sprint_v (PDict _ txt) = txt"
| "sprint_v (POther txt) = txt"

record artifacts =
  Input :: "string gomap"
  Output :: "string gomap"

record wf_step =
  Parameters :: "pval gomap"
  Command :: string
  Deps :: string
  Artifacts :: artifacts
  Env :: "string gomap"
  StepImage :: string

definition GetDeps :: "wf_step \<Rightarrow> string list" where
  "GetDeps s =
     filter (\<lambda>dryDep. length dryDep > 0) (map (\<lambda>dep. trim_space dep) (split_on CHR '','' (Deps s)))"

record wf_cache =
  CEnable :: bool
  MaxExpiredTime :: string
  FsScope :: string

text \<open>A step that is null in the YAML is a nil pointer in the map of the source, on which the engine panics: sources with one are
  outside this type.\<close>

record wf_source =
  WName :: string
  DockerEnv :: string
  EntryPoints :: "wf_step gomap"
  WCache :: wf_cache
  Parallelism :: int

record job_view =
  JVJobID :: string
  JVJobName :: string
  JVCommand :: string
  JVParameters :: "string gomap"
  JVEnv :: "string gomap"
  JVStartTime :: string
  JVEndTime :: string
  JVStatus :: job_status
  JVDeps :: string
  JVImage :: string
  JVArtifacts :: artifacts
  JVMessage :: string

type_synonym runtime_view = "job_view gomap"

record log_run_cache_request =
  LcFirstFp :: string
  LcSecondFp :: string
  LcSource :: string
  LcRunID :: string
  LcStep :: string
  LcFsID :: string
  LcFsName :: string
  LcUserName :: string
  LcExpiredTime :: string
  LcStrategy :: string

datatype artifact_type = ArtifactTypeInput | ArtifactTypeOutput

record log_run_artifact_request =
  LaRunID :: string
  LaFsID :: string
  LaFsName :: string
  LaUserName :: string
  LaArtifactPath :: string
  LaStep :: string
  LaType :: artifact_type
  LaArtifactName :: string

lemma GetDeps_nonempty: "d \<in> set (GetDeps s) \<Longrightarrow> d \<noteq> ''''"
  by (auto simp: GetDeps_def)

lemma GetDeps_empty: "Deps s = '''' \<Longrightarrow> GetDeps s = []"
  by (simp add: GetDeps_def trim_def)

text \<open>Dependencies that hold no separator and no blank are read back exactly as written.\<close>

lemma GetDeps_join:
  assumes "Deps s = join_with CHR '','' ds" and "ds \<noteq> []"
    and "\<forall>d\<in>set ds. d \<noteq> [] \<and> CHR '','' \<notin> set d \<and> (\<forall>c\<in>set d. \<not> is_space c)"
  shows "GetDeps s = ds"
proof -
  have "split_on CHR '','' (Deps s) = ds"
    using assms by (simp add: split_on_join_with)
  moreover have "map (\<lambda>d. trim_space d) ds = ds"
    using assms(3) by (intro map_idI) (simp add: trim_id)
  moreover have "filter (\<lambda>d. length d > 0) ds = ds"
    using assms(3) by (intro filter_True) auto
  ultimately show ?thesis by (simp add: GetDeps_def)
qed

section \<open>Run and queue status (pkg/apiserver/common/status.go)\<close>

definition StatusRunInitiating :: string where "StatusRunInitiating = ''initiating''"
definition StatusRunPending :: string where "StatusRunPending = ''pending''"
definition StatusRunRunning :: string where "StatusRunRunning = ''running''"
definition StatusRunSucceeded :: string where "StatusRunSucceeded = ''succeeded''"
definition StatusRunFailed :: string where "StatusRunFailed = ''failed''"
definition StatusRunTerminating :: string where "StatusRunTerminating = ''terminating''"
definition StatusRunTerminated :: string where "StatusRunTerminated = ''terminated''"

definition StatusQueueCreating :: string where "StatusQueueCreating = ''creating''"
definition StatusQueueOpen :: string where "StatusQueueOpen = ''open''"
definition StatusQueueClosing :: string where "StatusQueueClosing = ''closing''"
definition StatusQueueClosed :: string where "StatusQueueClosed = ''closed''"

lemmas run_status_defs = StatusRunInitiating_def StatusRunPending_def StatusRunRunning_def
  StatusRunSucceeded_def StatusRunFailed_def StatusRunTerminating_def StatusRunTerminated_def

lemmas queue_status_defs = StatusQueueCreating_def StatusQueueOpen_def StatusQueueClosing_def
  StatusQueueClosed_def

definition RunFinalStatus :: "string list" where
  "RunFinalStatus = [StatusRunFailed, StatusRunSucceeded, StatusRunTerminated]"

definition RunActiveStatus :: "string list" where
  "RunActiveStatus = [StatusRunPending, StatusRunRunning, StatusRunTerminating, StatusRunInitiating]"

definition IsRunFinalStatus :: "string \<Rightarrow> bool" where
  "IsRunFinalStatus status =
     (equal_fold status StatusRunFailed \<or> equal_fold status StatusRunSucceeded \<or>
      equal_fold status StatusRunTerminated)"

text \<open>The two status lists partition the statuses a run can have.\<close>

lemma run_status_distinct: "distinct (RunFinalStatus @ RunActiveStatus)"
  by (simp add: RunFinalStatus_def RunActiveStatus_def run_status_defs)

lemma IsRunFinalStatus_final: "s \<in> set RunFinalStatus \<Longrightarrow> IsRunFinalStatus s"
  by (auto simp: RunFinalStatus_def IsRunFinalStatus_def)

lemma IsRunFinalStatus_active: "s \<in> set RunActiveStatus \<Longrightarrow> \<not> IsRunFinalStatus s"
  by (auto simp: RunActiveStatus_def IsRunFinalStatus_def run_status_defs equal_fold_def to_lower_def
      to_lower_char_def is_upper_def)

section \<open>Name checks (pkg/apiserver/common/utils.go)\<close>

definition IsRootUser :: "string \<Rightarrow> bool" where
  "IsRootUser userName = equal_fold userName ''root''"

definition IsValidQueueStatus :: "string \<Rightarrow> bool" where
  "IsValidQueueStatus status =
     (equal_fold status StatusQueueCreating \<or> equal_fold status StatusQueueOpen \<or>
      equal_fold status StatusQueueClosing \<or> equal_fold status StatusQueueClosed)"

definition StringInSlice :: "string \<Rightarrow> string list \<Rightarrow> bool" where
  "StringInSlice s strSlice = list_ex (\<lambda>str. s = str) strSlice"

fun remove_dup_loop :: "string list \<Rightarrow> string list \<Rightarrow> string list \<Rightarrow> string list" where
  "remove_dup_loop [] allKeys acc = acc"
| "remove_dup_loop (item # rest) allKeys acc =
     (if item \<in> set allKeys then remove_dup_loop rest allKeys acc
      else remove_dup_loop rest (item # allKeys) (acc @ [item]))"

definition RemoveDuplicateStr :: "string list \<Rightarrow> string list" where
  "RemoveDuplicateStr strSlice = remove_dup_loop strSlice [] []"

definition SplitString :: "string \<Rightarrow> char \<Rightarrow> string list" where
  "SplitString str sep = map (\<lambda>s. trim_space s) (split_on sep str)"

lemma remove_dup_loop_spec:
  assumes "set allKeys = set acc" and "distinct acc"
  shows "distinct (remove_dup_loop xs allKeys acc) \<and>
         set (remove_dup_loop xs allKeys acc) = set acc \<union> set xs"
  using assms by (induction xs allKeys acc rule: remove_dup_loop.induct) auto

text \<open>The regular expressions of the name checks, each anchored at both ends: a first and a last
  character of one class, characters of another between them, and a range of lengths.\<close>

definition name_shape :: "(char \<Rightarrow> bool) \<Rightarrow> (char \<Rightarrow> bool) \<Rightarrow> nat \<Rightarrow> nat \<Rightarrow> string \<Rightarrow> bool" where
  "name_shape edge mid lo hi s =
     (lo + 2 \<le> length s \<and> length s \<le> hi + 2 \<and> edge (hd s) \<and> edge (last s) \<and>
      list_all mid (butlast (tl s)))"

definition is_alnum :: "char \<Rightarrow> bool" where
  "is_alnum c = (is_digit c \<or> is_lower c \<or> is_upper c)"

definition RegPatternQueueName :: "string \<Rightarrow> bool" where
  "RegPatternQueueName =
     name_shape (\<lambda>c. is_lower c \<or> is_digit c) (\<lambda>c. is_lower c \<or> is_digit c \<or> c = CHR ''-'') 0 8"

definition RegPatternUserName :: "string \<Rightarrow> bool" where
  "RegPatternUserName s =
     (4 \<le> length s \<and> length s \<le> 16 \<and> list_all (\<lambda>c. is_alnum c \<or> c = CHR ''-'') s)"

definition RegPatternRunName :: "string \<Rightarrow> bool" where
  "RegPatternRunName = name_shape is_word (\<lambda>c. is_word c \<or> c = CHR ''-'') 1 49"

definition RegPatternClusterName :: "string \<Rightarrow> bool" where
  "RegPatternClusterName = name_shape is_word (\<lambda>c. is_word c \<or> c = CHR ''-'') 0 253"

section \<open>Resources (pkg/common/schema/flavor.go)\<close>

record resource_info =
  Cpu :: string
  Mem :: string
  ScalarResources :: "string gomap"

record flavour = resource_info +
  FName :: string

datatype resource_error =
    CpuNotFoundError
  | MemoryNotFoundError
  | QueueResourceNotMatchError string string
  | InvalidScaleResourceError string

definition resource_suffixes :: "string list" where
  "resource_suffixes =
     ['''', ''n'', ''u'', ''m'', ''k'', ''M'', ''G'', ''T'', ''P'', ''E'',
      ''Ki'', ''Mi'', ''Gi'', ''Ti'', ''Pi'', ''Ei'']"

text \<open>\<open>CheckReg(_, RegPatternResource)\<close>: a positive decimal number without leading zero and an
  optional unit.\<close>

definition RegPatternResource :: "string \<Rightarrow> bool" where
  "RegPatternResource s =
     (case s of [] \<Rightarrow> False
      | c # cs \<Rightarrow> is_digit c \<and> c \<noteq> CHR ''0'' \<and> dropWhile is_digit cs \<in> set resource_suffixes)"

definition isValidScalarResource :: "string \<Rightarrow> string list \<Rightarrow> bool" where
  "isValidScalarResource r scalarResourcesType = list_ex (\<lambda>sr. equal_fold r sr) scalarResourcesType"

definition ValidateResourceInfo :: "'a resource_info_scheme \<Rightarrow> string list \<Rightarrow> resource_error + unit" where
  "ValidateResourceInfo resourceInfo scalarResourcesType =
     (if Cpu resourceInfo = '''' then Inl CpuNotFoundError
      else if Mem resourceInfo = '''' then Inl MemoryNotFoundError
      else if \<not> RegPatternResource (Cpu resourceInfo) \<or> \<not> RegPatternResource (Mem resourceInfo)
           then Inl (QueueResourceNotMatchError (Cpu resourceInfo) (Mem resourceInfo))
      else foldE (\<lambda>k _. guardE (isValidScalarResource k scalarResourcesType) (InvalidScaleResourceError k))
             (keys (ScalarResources resourceInfo)) ())"

lemma foldE_guard_all:
  "foldE (\<lambda>k _. guardE (P k) (E k)) ks () = Inr () \<longleftrightarrow> (\<forall>k\<in>set ks. P k)"
  by (induction ks) (auto simp: bindE_eq_Inr)

lemma ValidateResourceInfo_ok:
  "ValidateResourceInfo ri srt = Inr () \<longleftrightarrow>
     RegPatternResource (Cpu ri) \<and> RegPatternResource (Mem ri) \<and>
     (\<forall>k\<in>set (keys (ScalarResources ri)). isValidScalarResource k srt)"
proof -
  have "\<not> RegPatternResource ''''" by (simp add: RegPatternResource_def)
  then show ?thesis
    by (auto simp: ValidateResourceInfo_def foldE_guard_all)
qed

end
