(* ===== verification/PF_Params.thy ===== *)
theory PF_Params
  imports PF_Schema
begin

text \<open>
  The parameter solver of \<open>pkg/pipeline/common.go\<close>. A step's parameters, artifacts, environment
  and command may hold references \<open>{{ name }}\<close> and \<open>{{ step.name }}\<close>; \<open>StepParamSolver.Solve\<close>
  checks every one of them and, when \<open>needReplace\<close> is set, substitutes the values. References
  to an upstream step are resolved recursively in that step.

  The steps are Go pointers shared between the workflow source, the map of run steps and the
  step objects, so the solver works on a store of steps (\<open>sv_store\<close>) and the set of names its
  \<open>steps\<close> map holds (\<open>sv_names\<close>). A nil dereference is the error \<open>NilDeref\<close>. The recursion through
  upstream steps has no bound in the source: it takes a fuel argument here, and
  \<open>checkParamValue_fuel\<close> shows that a fuel above the step's rank in an acyclic graph is enough.
  \<open>mapstructure.Decode\<close> is third-party code: it is the parameter \<open>dec\<close>.
\<close>

section \<open>Data\<close>

datatype field_type =
  fieldParameters | fieldCommand | fieldEnv | fieldInputArtifacts | fieldOutputArtifacts

datatype param_error =
    NameFormatError field_type string string
  | UnsupportedParamTypeError pval string
  | InvalidDictParamError string
  | UnsupportedDictParamTypeError string string
  | InvalidDictValueError string
  | InvalidParamTypeError pval string
  | UnsupportedPathParamError string string
  | UnsupportedSysParamNameError string
  | UnsupportedRefParamNameError string
  | OutputRefersUpstreamError string string
  | InvalidReferenceError field_type string string string
  | NilDeref
  | OutOfFuel

record dict_param =
  DType :: string
  DDefault :: pval

type_synonym decoder = "pval \<Rightarrow> dict_param option"

record solver =
  sv_store :: "wf_step gomap"
  sv_names :: "string list"
  sv_sys :: "string gomap"
  needReplace :: bool

definition sv_get :: "solver \<Rightarrow> string \<Rightarrow> wf_step option" where
  "sv_get S n = (if n \<in> set (sv_names S) then mget (sv_store S) n else None)"

section \<open>Names and dictionaries\<close>

definition checkName :: "string \<Rightarrow> field_type \<Rightarrow> string \<Rightarrow> param_error + unit" where
  "checkName step fieldType name =
     guardE (name \<noteq> [] \<and> list_all is_word name) (NameFormatError fieldType name step)"

definition StringsContain :: "string list \<Rightarrow> string \<Rightarrow> bool" where
  "StringsContain items item = list_ex (\<lambda>eachItem. eachItem = item) items"

definition is_path_char :: "char \<Rightarrow> bool" where
  "is_path_char c = (is_alnum c \<or> c = CHR ''/'' \<or> c = CHR ''_'' \<or> c = CHR ''-'')"

definition check_typed :: "string \<Rightarrow> string \<Rightarrow> pval \<Rightarrow> param_error + pval" where
  "check_typed ty paramName realVal =
     (if ty = ''string'' then
        (case realVal of PStr _ \<Rightarrow> Inr realVal | _ \<Rightarrow> Inl (InvalidParamTypeError realVal ty))
      else if ty = ''float'' then
        (case realVal of PFloat _ \<Rightarrow> Inr realVal | PInt32 _ \<Rightarrow> Inr realVal | PInt64 _ \<Rightarrow> Inr realVal
         | PInt _ \<Rightarrow> Inr realVal | _ \<Rightarrow> Inl (InvalidParamTypeError realVal ty))
      else if ty = ''path'' then
        (case realVal of
           PStr s \<Rightarrow> (if s \<noteq> [] \<and> list_all is_path_char s then Inr realVal
                     else Inl (UnsupportedPathParamError s paramName))
         | _ \<Rightarrow> Inl (InvalidParamTypeError realVal ty))
      else Inl (UnsupportedDictParamTypeError ty paramName))"

definition checkDictParam :: "dict_param \<Rightarrow> string \<Rightarrow> pval \<Rightarrow> param_error + pval" where
  "checkDictParam dict paramName realVal =
     (if DType dict = '''' then Inl (UnsupportedDictParamTypeError (DType dict) paramName)
      else if realVal = PNil \<or> realVal = PStr '''' then
        (if DDefault dict = PNil \<or> DDefault dict = PStr '''' then Inl (InvalidDictValueError paramName)
         else check_typed (DType dict) paramName (DDefault dict))
      else check_typed (DType dict) paramName realVal)"

definition parseParamName :: "string \<Rightarrow> string \<times> string" where
  "parseParamName paramName =
     (case split_on CHR ''.'' paramName of
        [] \<Rightarrow> ('''', '''')
      | [a] \<Rightarrow> ('''', a)
      | a # b # _ \<Rightarrow> (a, b))"

section \<open>References in a string\<close>

text \<open>
  \<open>FindAllStringSubmatch\<close> for the pattern
  \<open>\{\{(\s)*([a-zA-Z0-9_]*\.?[a-zA-Z0-9_]+)?(\s)*\}\}\<close>: the leftmost matches, without overlap.
  The character classes are disjoint, so matching needs no backtracking. A match gives the whole
  text (\<open>row[0]\<close>) and the name (\<open>row[2]\<close>).
\<close>

definition take_name :: "string \<Rightarrow> string \<times> string" where
  "take_name s =
     (let w1 = takeWhile is_word s; r1 = dropWhile is_word s
      in case r1 of
           [] \<Rightarrow> (w1, r1)
         | c # r2 \<Rightarrow>
             (let w2 = takeWhile is_word r2
              in if c = CHR ''.'' \<and> w2 \<noteq> [] then (w1 @ c # w2, dropWhile is_word r2) else (w1, r1)))"

definition match_ref :: "string \<Rightarrow> (string \<times> string \<times> string) option" where
  "match_ref s =
     (if \<not> has_prefix s ''{{'' then None
      else let (nm, r) = take_name (dropWhile re_space (drop 2 s));
               r' = dropWhile re_space r
           in if has_prefix r' ''}}''
              then Some (take (length s - length (drop 2 r')) s, nm, drop 2 r')
              else None)"

lemma length_dropWhile_le': "length (dropWhile P s) \<le> length s"
  by (rule length_dropWhile_le)

lemma take_name_length: "take_name s = (nm, r) \<Longrightarrow> length r \<le> length s"
proof -
  assume *: "take_name s = (nm, r)"
  have 1: "length (dropWhile is_word s) \<le> length s" by (rule length_dropWhile_le)
  show ?thesis
  proof (cases "dropWhile is_word s")
    case Nil
    with * 1 show ?thesis by (simp add: take_name_def)
  next
    case (Cons c r2)
    have "length (dropWhile is_word r2) \<le> length r2" by (rule length_dropWhile_le)
    have 2: "Suc (length r2) \<le> length s" using length_dropWhile_le [of is_word s] Cons by simp
    have "length (dropWhile is_word r2) \<le> length r2" by (rule length_dropWhile_le)
    with 2 have 3: "length (dropWhile is_word r2) \<le> length s" by linarith
    have "r = dropWhile is_word r2 \<or> r = c # r2"
      using * Cons by (auto simp: take_name_def Let_def split: if_splits)
    with 2 3 show ?thesis by auto
  qed
qed

lemma match_ref_shorter: "match_ref s = Some (r0, nm, rest) \<Longrightarrow> length rest < length s"
proof -
  assume *: "match_ref s = Some (r0, nm, rest)"
  obtain n r where tn: "take_name (dropWhile re_space (drop 2 s)) = (n, r)" by fastforce
  have "length r \<le> length (dropWhile re_space (drop 2 s))" using tn by (rule take_name_length)
  also have "\<dots> \<le> length (drop 2 s)" by (rule length_dropWhile_le)
  finally have "length r \<le> length s" by simp
  moreover have "length (dropWhile re_space r) \<le> length r" by (rule length_dropWhile_le)
  moreover have "s \<noteq> []" using * by (auto simp: match_ref_def has_prefix_def split: if_splits)
  moreover have "rest = drop 2 (dropWhile re_space r)"
    using * tn by (simp add: match_ref_def Let_def split: if_splits)
  ultimately show ?thesis by (cases s) auto
qed

function find_refs :: "string \<Rightarrow> (string \<times> string) list" where
  "find_refs [] = []"
| "find_refs (c # s) =
     (case match_ref (c # s) of
        Some (r0, nm, rest) \<Rightarrow> (r0, nm) # find_refs rest
      | None \<Rightarrow> find_refs s)"
  by pat_completeness auto
termination
  by (relation "measure length") (auto dest: match_ref_shorter)

text \<open>A string without \<open>{{\<close> holds no reference.\<close>

lemma find_refs_none: "(\<And>i. \<not> has_prefix (drop i s) ''{{'') \<Longrightarrow> find_refs s = []"
proof (induction s rule: find_refs.induct)
  case (2 c s)
  have "match_ref (c # s) = None" using "2.prems" [of 0] by (simp add: match_ref_def)
  moreover have "\<not> has_prefix (drop i s) ''{{''" for i using "2.prems" [of "Suc i"] by simp
  ultimately show ?case using "2.IH"(1) by simp
qed simp

section \<open>Checking and resolving a value\<close>

text \<open>The bodies take the recursive call as an argument; \<open>checkParamValue\<close> ties the knot.\<close>

type_synonym checker = "string \<Rightarrow> string \<Rightarrow> pval \<Rightarrow> field_type \<Rightarrow> param_error + pval"

definition refParamExist ::
  "checker \<Rightarrow> solver \<Rightarrow> string \<Rightarrow> string \<Rightarrow> string \<Rightarrow> field_type \<Rightarrow> param_error + pval" where
  "refParamExist chk S currentStep refStep refParamName fieldType =
     (if fieldType = fieldOutputArtifacts then Inl (OutputRefersUpstreamError refStep refParamName)
      else case sv_get S currentStep of
        None \<Rightarrow> Inl (InvalidReferenceError fieldType refStep refParamName currentStep)
      | Some step \<Rightarrow>
          if StringsContain (GetDeps step) refStep then
            (case sv_get S refStep of
               None \<Rightarrow> Inl NilDeref
             | Some ref \<Rightarrow>
                 (case (if fieldType = fieldInputArtifacts
                        then map_option PStr (mget (Output (Artifacts ref)) refParamName)
                        else mget (Parameters ref) refParamName) of
                    Some refParamVal \<Rightarrow> chk refStep refParamName refParamVal fieldType
                  | None \<Rightarrow> Inl (InvalidReferenceError fieldType refStep refParamName currentStep)))
          else Inl (InvalidReferenceError fieldType refStep refParamName currentStep))"

definition local_ref :: "solver \<Rightarrow> string \<Rightarrow> string \<Rightarrow> field_type \<Rightarrow> param_error + string" where
  "local_ref S step refParamName fieldType =
     (case mget (sv_sys S) refParamName of
        Some v \<Rightarrow> Inr v
      | None \<Rightarrow>
          if fieldType = fieldParameters then Inl (UnsupportedSysParamNameError refParamName)
          else case sv_get S step of
            None \<Rightarrow> Inl NilDeref
          | Some st \<Rightarrow>
              (case mget (Parameters st) refParamName of
                 Some v \<Rightarrow> Inr (sprint_v v)
               | None \<Rightarrow>
                   if fieldType \<in> {fieldInputArtifacts, fieldOutputArtifacts, fieldEnv}
                   then Inl (UnsupportedRefParamNameError refParamName)
                   else case mget (Input (Artifacts st)) refParamName of
                     Some v \<Rightarrow> Inr v
                   | None \<Rightarrow>
                       (case mget (Output (Artifacts st)) refParamName of
                          Some v \<Rightarrow> Inr v
                        | None \<Rightarrow> Inl (UnsupportedRefParamNameError refParamName))))"

definition ref_value :: "checker \<Rightarrow> solver \<Rightarrow> string \<Rightarrow> field_type \<Rightarrow> string \<Rightarrow> param_error + string" where
  "ref_value chk S step fieldType nm =
     (let (refStep, refParamName) = parseParamName nm
      in if refStep = '''' then local_ref S step refParamName fieldType
         else bindE (refParamExist chk S step refStep refParamName fieldType)
                (\<lambda>tmpVal2. Inr (sprint_v tmpVal2)))"

definition resolveRefParam ::
  "checker \<Rightarrow> solver \<Rightarrow> string \<Rightarrow> string \<Rightarrow> field_type \<Rightarrow> param_error + pval" where
  "resolveRefParam chk S step param fieldType =
     bindE (foldE (\<lambda>(row0, row2) result.
              bindE (ref_value chk S step fieldType row2)
                (\<lambda>tmpVal. Inr (if needReplace S then replace_all result row0 tmpVal else result)))
              (find_refs param) param)
       (\<lambda>result. Inr (PStr result))"

definition check_body ::
  "decoder \<Rightarrow> checker \<Rightarrow> solver \<Rightarrow> string \<Rightarrow> string \<Rightarrow> pval \<Rightarrow> field_type \<Rightarrow> param_error + pval" where
  "check_body dec chk S step paramName param fieldType =
     (case param of
        PFloat _ \<Rightarrow> Inr param
      | PInt _ \<Rightarrow> Inr param
      | PStr s \<Rightarrow> resolveRefParam chk S step s fieldType
      | PDict _ _ \<Rightarrow>
          (case dec param of
             None \<Rightarrow> Inl (InvalidDictParamError paramName)
           | Some dictParam \<Rightarrow> checkDictParam dictParam paramName PNil)
      | _ \<Rightarrow> Inl (UnsupportedParamTypeError param paramName))"

fun checkParamValue ::
  "decoder \<Rightarrow> nat \<Rightarrow> solver \<Rightarrow> string \<Rightarrow> string \<Rightarrow> pval \<Rightarrow> field_type \<Rightarrow> param_error + pval" where
  "checkParamValue dec 0 S step paramName param fieldType = Inl OutOfFuel"
| "checkParamValue dec (Suc n) S step paramName param fieldType =
     check_body dec (checkParamValue dec n S) S step paramName param fieldType"

section \<open>Solving a step\<close>

definition upd_step :: "string \<Rightarrow> (wf_step \<Rightarrow> wf_step) \<Rightarrow> solver \<Rightarrow> solver" where
  "upd_step n f S =
     (case mget (sv_store S) n of
        None \<Rightarrow> S
      | Some st \<Rightarrow> S\<lparr>sv_store := mput n (f st) (sv_store S)\<rparr>)"

definition set_param :: "string \<Rightarrow> pval \<Rightarrow> wf_step \<Rightarrow> wf_step" where
  "set_param k v st = st\<lparr>Parameters := mput k v (Parameters st)\<rparr>"

definition set_input :: "string \<Rightarrow> string \<Rightarrow> wf_step \<Rightarrow> wf_step" where
  "set_input k v st =
     st\<lparr>Artifacts := (Artifacts st)\<lparr>Input := mput k v (Input (Artifacts st))\<rparr>\<rparr>"

definition set_output :: "string \<Rightarrow> string \<Rightarrow> wf_step \<Rightarrow> wf_step" where
  "set_output k v st =
     st\<lparr>Artifacts := (Artifacts st)\<lparr>Output := mput k v (Output (Artifacts st))\<rparr>\<rparr>"

definition set_env :: "string \<Rightarrow> string \<Rightarrow> wf_step \<Rightarrow> wf_step" where
  "set_env k v st = st\<lparr>Env := mput k v (Env st)\<rparr>"

text \<open>One iteration of each of the four loops of \<open>Solve\<close>: check the name, resolve the value,
  store it.\<close>

definition solve_entry ::
  "decoder \<Rightarrow> nat \<Rightarrow> string \<Rightarrow> field_type \<Rightarrow> (string \<Rightarrow> pval \<Rightarrow> wf_step \<Rightarrow> wf_step) \<Rightarrow>
   string \<times> pval \<Rightarrow> solver \<Rightarrow> param_error + solver" where
  "solve_entry dec fuel currentStep fieldType store kv S =
     bindE (checkName currentStep fieldType (fst kv)) (\<lambda>_.
     bindE (checkParamValue dec fuel S currentStep (fst kv) (snd kv) fieldType) (\<lambda>realVal.
       Inr (upd_step currentStep (store (fst kv) realVal) S)))"

definition strs :: "string gomap \<Rightarrow> pval gomap" where
  "strs m = map (\<lambda>(k, v). (k, PStr v)) m"

definition solve_loop ::
  "decoder \<Rightarrow> nat \<Rightarrow> string \<Rightarrow> field_type \<Rightarrow> (string \<Rightarrow> pval \<Rightarrow> wf_step \<Rightarrow> wf_step) \<Rightarrow>
   (wf_step \<Rightarrow> pval gomap) \<Rightarrow> solver \<Rightarrow> param_error + solver" where
  "solve_loop dec fuel currentStep fieldType store entries S =
     (case sv_get S currentStep of
        None \<Rightarrow> Inl NilDeref
      | Some step \<Rightarrow> foldE (solve_entry dec fuel currentStep fieldType store) (entries step) S)"

definition solve_command :: "decoder \<Rightarrow> nat \<Rightarrow> string \<Rightarrow> solver \<Rightarrow> param_error + solver" where
  "solve_command dec fuel currentStep S =
     (case sv_get S currentStep of
        None \<Rightarrow> Inl NilDeref
      | Some step \<Rightarrow>
          bindE (checkParamValue dec fuel S currentStep ''command'' (PStr (Command step)) fieldCommand)
            (\<lambda>realVal. Inr (upd_step currentStep (\<lambda>st. st\<lparr>Command := sprint_v realVal\<rparr>) S)))"

definition Solve :: "decoder \<Rightarrow> nat \<Rightarrow> solver \<Rightarrow> string \<Rightarrow> param_error + solver" where
  "Solve dec fuel S currentStep =
     bindE (solve_loop dec fuel currentStep fieldParameters set_param Parameters S) (\<lambda>S.
     bindE (solve_loop dec fuel currentStep fieldInputArtifacts (\<lambda>k v. set_input k (sprint_v v))
              (\<lambda>st. strs (Input (Artifacts st))) S) (\<lambda>S.
     bindE (solve_loop dec fuel currentStep fieldOutputArtifacts (\<lambda>k v. set_output k (sprint_v v))
              (\<lambda>st. strs (Output (Artifacts st))) S) (\<lambda>S.
     bindE (solve_loop dec fuel currentStep fieldEnv (\<lambda>k v. set_env k (sprint_v v))
              (\<lambda>st. strs (Env st)) S) (\<lambda>S.
     solve_command dec fuel currentStep S))))"

section \<open>Termination: the fuel that is enough\<close>

text \<open>A rank of the steps that every known dependency lowers: the steps form an acyclic graph.\<close>

definition dep_rank :: "(string \<Rightarrow> nat) \<Rightarrow> solver \<Rightarrow> bool" where
  "dep_rank rk S =
     (\<forall>n st d. sv_get S n = Some st \<longrightarrow> d \<in> set (GetDeps st) \<longrightarrow> d \<in> set (sv_names S) \<longrightarrow> rk d < rk n)"

lemma StringsContain_iff: "StringsContain xs x \<longleftrightarrow> x \<in> set xs"
  by (auto simp: StringsContain_def list_ex_iff)

lemma local_ref_no_fuel: "local_ref S step nm f \<noteq> Inl OutOfFuel"
  by (auto simp: local_ref_def split: option.splits)

lemma check_typed_no_fuel: "check_typed ty n v \<noteq> Inl OutOfFuel"
  by (auto simp: check_typed_def split: pval.splits)

lemma checkDictParam_no_fuel: "checkDictParam d n v \<noteq> Inl OutOfFuel"
  by (auto simp: checkDictParam_def check_typed_no_fuel)

lemma refParamExist_fuel:
  assumes "dep_rank rk S"
    and chk: "\<And>s p v f. rk s < rk cur \<Longrightarrow> chk s p v f \<noteq> Inl OutOfFuel"
  shows "refParamExist chk S cur rs nm f \<noteq> Inl OutOfFuel"
proof -
  have "rk rs < rk cur" if "sv_get S cur = Some st" "rs \<in> set (GetDeps st)" "sv_get S rs = Some r" for st r
    using that assms(1) by (auto simp: dep_rank_def sv_get_def split: if_splits)
  then show ?thesis
    by (auto simp: refParamExist_def StringsContain_iff chk split: option.splits)
qed

lemma resolveRefParam_fuel:
  assumes "dep_rank rk S"
    and "\<And>s p v f. rk s < rk cur \<Longrightarrow> chk s p v f \<noteq> Inl OutOfFuel"
  shows "resolveRefParam chk S cur s f \<noteq> Inl OutOfFuel"
proof -
  have "ref_value chk S cur f nm \<noteq> Inl OutOfFuel" for nm
    using refParamExist_fuel [OF assms] local_ref_no_fuel
    by (auto simp: ref_value_def bindE_eq_Inl split: prod.splits)
  then show ?thesis
    unfolding resolveRefParam_def
    by (auto simp: bindE_eq_Inl elim!: foldE_Inl_cases [where P = "\<lambda>_. True"])
qed

lemma checkParamValue_fuel:
  assumes "dep_rank rk S" and "rk step < n"
  shows "checkParamValue dec n S step pn v f \<noteq> Inl OutOfFuel"
  using assms(2)
proof (induction n arbitrary: step pn v f)
  case (Suc n)
  have "resolveRefParam (checkParamValue dec n S) S step s f \<noteq> Inl OutOfFuel" for s
    by (rule resolveRefParam_fuel [OF assms(1)]) (use Suc in force)
  then show ?case
    by (auto simp: check_body_def checkDictParam_no_fuel split: pval.splits option.splits)
qed simp

section \<open>Checking predicts replacing\<close>

text \<open>Whether a value resolves does not depend on \<open>needReplace\<close>: the same references are looked
  up, only the text that is built differs.\<close>

definition same_outcome :: "'e + 'a \<Rightarrow> 'e + 'b \<Rightarrow> bool" where
  "same_outcome a b = (case a of Inl e \<Rightarrow> b = Inl e | Inr _ \<Rightarrow> (\<exists>y. b = Inr y))"

lemma same_outcome_simps [simp]:
  "same_outcome (Inl e) b \<longleftrightarrow> b = Inl e"
  "same_outcome (Inr x) b \<longleftrightarrow> (\<exists>y. b = Inr y)"
  by (auto simp: same_outcome_def)

lemma same_outcome_refl [simp]: "same_outcome a a"
  by (cases a) auto

lemma same_outcome_bind:
  assumes "same_outcome a b" and "\<And>x y. a = Inr x \<Longrightarrow> b = Inr y \<Longrightarrow> same_outcome (f x) (g y)"
  shows "same_outcome (bindE a f) (bindE b g)"
  using assms by (cases a; cases b) auto

lemma same_outcome_foldE:
  assumes "\<And>x s t. x \<in> set xs \<Longrightarrow> same_outcome (f x s) (g x t)"
  shows "same_outcome (foldE f xs s) (foldE g xs t)"
  using assms by (induction xs arbitrary: s t) (auto intro!: same_outcome_bind)

lemma sv_get_replace [simp]: "sv_get (S\<lparr>needReplace := b\<rparr>) = sv_get S"
  by (intro ext) (simp add: sv_get_def)

lemma local_ref_replace [simp]: "local_ref (S\<lparr>needReplace := b\<rparr>) = local_ref S"
  by (intro ext) (simp add: local_ref_def cong: option.case_cong if_cong)

lemma ref_value_outcome:
  assumes "\<And>s p v f. same_outcome (chk s p v f) (chk' s p v f)"
  shows "same_outcome (ref_value chk S step f nm) (ref_value chk' (S\<lparr>needReplace := b\<rparr>) step f nm)"
  using assms
  by (auto simp: ref_value_def refParamExist_def split: prod.splits option.splits
      intro!: same_outcome_bind)

lemma resolveRefParam_outcome:
  assumes "\<And>s p v f. same_outcome (chk s p v f) (chk' s p v f)"
  shows "same_outcome (resolveRefParam chk S step s f)
           (resolveRefParam chk' (S\<lparr>needReplace := b\<rparr>) step s f)"
  unfolding resolveRefParam_def
  by (intro same_outcome_bind same_outcome_foldE)
     (auto split: prod.splits intro!: same_outcome_bind ref_value_outcome assms)

lemma checkParamValue_outcome:
  "same_outcome (checkParamValue dec n S step p v f)
     (checkParamValue dec n (S\<lparr>needReplace := b\<rparr>) step p v f)"
proof (induction n arbitrary: step p v f)
  case (Suc n)
  then show ?case
    by (auto simp: check_body_def split: pval.splits option.splits intro!: resolveRefParam_outcome)
qed simp

section \<open>Checking changes nothing\<close>

text \<open>Without \<open>needReplace\<close> a resolved value is the value itself, a dictionary excepted: that is
  replaced by its default.\<close>

definition no_dict :: "pval gomap \<Rightarrow> bool" where
  "no_dict m = (\<forall>(k, v) \<in> set m. \<forall>d t. v \<noteq> PDict d t)"

lemma foldE_const: "foldE (\<lambda>x s. bindE (g x) (\<lambda>_. Inr s)) xs s = Inr t \<Longrightarrow> t = s"
  by (induction xs) (auto simp: bindE_eq_Inr)

lemma resolveRefParam_id:
  assumes "\<not> needReplace S" and "resolveRefParam chk S step s f = Inr v"
  shows "v = PStr s"
proof -
  have "(\<lambda>(row0, row2) result. bindE (ref_value chk S step f row2)
          (\<lambda>tmpVal. Inr (if needReplace S then replace_all result row0 tmpVal else result))) =
        (\<lambda>x result. bindE (ref_value chk S step f (snd x)) (\<lambda>_. Inr result))"
    using assms(1) by (auto simp: fun_eq_iff)
  then show ?thesis
    using assms(2) unfolding resolveRefParam_def by (auto simp: bindE_eq_Inr dest: foldE_const)
qed

lemma checkParamValue_id:
  assumes "\<not> needReplace S" and "\<And>d t. v \<noteq> PDict d t"
    and "checkParamValue dec n S step p v f = Inr v'"
  shows "v' = v"
  using assms by (cases n) (auto simp: check_body_def dest: resolveRefParam_id split: pval.splits)

lemma mput_same: "mget m k = Some v \<Longrightarrow> mput k v m = m"
  by (induction m) (auto simp: mput_def split: if_splits)

lemma foldE_fixpoint:
  assumes "\<And>x t. x \<in> set xs \<Longrightarrow> f x s = Inr t \<Longrightarrow> t = s" and "foldE f xs s = Inr t"
  shows "t = s"
  using assms by (induction xs) (auto simp: bindE_eq_Inr)

lemma solve_entry_id:
  assumes "\<not> needReplace S" and "upd_step cur (store k v) S = S" and "\<And>d t. v \<noteq> PDict d t"
    and "solve_entry dec fuel cur f store (k, v) S = Inr S'"
  shows "S' = S"
proof -
  obtain v' where "checkParamValue dec fuel S cur k v f = Inr v'" "S' = upd_step cur (store k v') S"
    using assms(4) by (auto simp: solve_entry_def bindE_eq_Inr)
  moreover from this(1) have "v' = v" by (rule checkParamValue_id [OF assms(1,3)])
  ultimately show ?thesis using assms(2) by simp
qed

lemma solve_loop_id:
  assumes "\<not> needReplace S"
    and same: "\<And>st k v. sv_get S cur = Some st \<Longrightarrow> (k, v) \<in> set (entries st) \<Longrightarrow>
                 store k v st = st \<and> (\<forall>d t. v \<noteq> PDict d t)"
    and "solve_loop dec fuel cur f store entries S = Inr S'"
  shows "S' = S"
proof -
  obtain st where st: "sv_get S cur = Some st"
    and fold: "foldE (solve_entry dec fuel cur f store) (entries st) S = Inr S'"
    using assms(3) by (auto simp: solve_loop_def split: option.splits)
  have m: "mget (sv_store S) cur = Some st" using st by (simp add: sv_get_def split: if_splits)
  show ?thesis
  proof (rule foldE_fixpoint [OF _ fold])
    fix x t
    assume x: "x \<in> set (entries st)" and e: "solve_entry dec fuel cur f store x S = Inr t"
    obtain k v where kv: "x = (k, v)" by (cases x)
    have "store k v st = st" "\<And>d t. v \<noteq> PDict d t" using same [OF st] x kv by auto
    moreover from this(1) have "upd_step cur (store k v) S = S" using m by (simp add: upd_step_def mput_same)
    ultimately show "t = S" using solve_entry_id [OF assms(1)] e kv by metis
  qed
qed

lemma set_store_id:
  "wf_map (Parameters st) \<Longrightarrow> (k, v) \<in> set (Parameters st) \<Longrightarrow> set_param k v st = st"
  "wf_map (Input (Artifacts st)) \<Longrightarrow> (k, s) \<in> set (Input (Artifacts st)) \<Longrightarrow> set_input k s st = st"
  "wf_map (Output (Artifacts st)) \<Longrightarrow> (k, s) \<in> set (Output (Artifacts st)) \<Longrightarrow> set_output k s st = st"
  "wf_map (Env st) \<Longrightarrow> (k, s) \<in> set (Env st) \<Longrightarrow> set_env k s st = st"
  by (simp_all add: set_param_def set_input_def set_output_def set_env_def mput_same in_set_mget)

definition wf_wf_step :: "wf_step \<Rightarrow> bool" where
  "wf_wf_step st =
     (wf_map (Parameters st) \<and> wf_map (Input (Artifacts st)) \<and> wf_map (Output (Artifacts st)) \<and>
      wf_map (Env st))"


section \<open>The steps keep their shape\<close>

text \<open>\<open>Solve\<close> rewrites values only: names, dependencies and images of all steps survive, so an
  acyclic graph stays acyclic while it runs.\<close>

definition keeps_deps :: "(string \<Rightarrow> pval \<Rightarrow> wf_step \<Rightarrow> wf_step) \<Rightarrow> bool" where
  "keeps_deps store = (\<forall>k v st. Deps (store k v st) = Deps st \<and> StepImage (store k v st) = StepImage st)"

lemma keeps_deps_stores [simp]:
  "keeps_deps set_param" "keeps_deps (\<lambda>k v. set_input k (g v))"
  "keeps_deps (\<lambda>k v. set_output k (g v))" "keeps_deps (\<lambda>k v. set_env k (g v))"
  by (simp_all add: keeps_deps_def set_param_def set_input_def set_output_def set_env_def)

definition same_graph :: "solver \<Rightarrow> solver \<Rightarrow> bool" where
  "same_graph S T =
     (sv_names T = sv_names S \<and> keys (sv_store T) = keys (sv_store S) \<and> sv_sys T = sv_sys S \<and>
      needReplace T = needReplace S \<and>
      (\<forall>n. map_option Deps (mget (sv_store T) n) = map_option Deps (mget (sv_store S) n)) \<and>
      (\<forall>n. map_option StepImage (mget (sv_store T) n) = map_option StepImage (mget (sv_store S) n)))"

lemma same_graph_refl [simp]: "same_graph S S"
  by (simp add: same_graph_def)

lemma same_graph_trans: "same_graph S T \<Longrightarrow> same_graph T U \<Longrightarrow> same_graph S U"
  by (simp add: same_graph_def)

lemma upd_step_graph:
  assumes "\<And>st. Deps (f st) = Deps st \<and> StepImage (f st) = StepImage st"
  shows "same_graph S (upd_step n f S)"
  using assms by (auto simp: same_graph_def upd_step_def keys_mput_same split: option.splits)

lemma solve_entry_graph:
  assumes "keeps_deps store" and "solve_entry dec fuel cur f store x S = Inr T"
  shows "same_graph S T"
proof -
  obtain v where "T = upd_step cur (store (fst x) v) S"
    using assms(2) by (auto simp: solve_entry_def bindE_eq_Inr)
  moreover have "same_graph S (upd_step cur (store (fst x) v) S)"
    by (rule upd_step_graph) (use assms(1) in \<open>simp add: keeps_deps_def\<close>)
  ultimately show ?thesis by simp
qed

lemma solve_loop_graph:
  assumes "keeps_deps store" and "solve_loop dec fuel cur f store entries S = Inr S'"
  shows "same_graph S S'"
proof -
  obtain st where fold: "foldE (solve_entry dec fuel cur f store) (entries st) S = Inr S'"
    using assms(2) by (auto simp: solve_loop_def split: option.splits)
  show ?thesis
    by (rule foldE_inv [OF fold, where P = "same_graph S"])
       (use assms(1) in \<open>blast intro: same_graph_refl same_graph_trans solve_entry_graph\<close>)+
qed

lemma solve_command_graph: "solve_command dec fuel cur S = Inr S' \<Longrightarrow> same_graph S S'"
  by (auto simp: solve_command_def bindE_eq_Inr split: option.splits intro: upd_step_graph)

lemma Solve_graph: "Solve dec fuel S cur = Inr S' \<Longrightarrow> same_graph S S'"
  unfolding Solve_def bindE_eq_Inr
  by (elim exE conjE) (blast intro: same_graph_trans keeps_deps_stores solve_command_graph
      dest: solve_loop_graph [rotated])

lemma dep_rank_graph:
  assumes "dep_rank rk S" and "same_graph S T"
  shows "dep_rank rk T"
  unfolding dep_rank_def
proof (intro allI impI)
  fix n st d
  assume a: "sv_get T n = Some st" "d \<in> set (GetDeps st)" "d \<in> set (sv_names T)"
  then have n: "n \<in> set (sv_names S)" "mget (sv_store T) n = Some st"
    using assms(2) by (auto simp: same_graph_def sv_get_def split: if_splits)
  have "map_option Deps (mget (sv_store S) n) = map_option Deps (mget (sv_store T) n)"
    using assms(2) unfolding same_graph_def by metis
  with n obtain st' where "sv_get S n = Some st'" "Deps st' = Deps st"
    by (cases "mget (sv_store S) n") (auto simp: sv_get_def)
  moreover from this(2) have "GetDeps st' = GetDeps st" by (simp add: GetDeps_def)
  ultimately show "rk d < rk n" using a assms by (auto simp: dep_rank_def same_graph_def)
qed

lemma solve_loop_fuel:
  assumes "dep_rank rk S" and "rk cur < fuel" and "keeps_deps store"
  shows "solve_loop dec fuel cur f store entries S \<noteq> Inl OutOfFuel"
proof
  assume "solve_loop dec fuel cur f store entries S = Inl OutOfFuel"
  then obtain st where fold: "foldE (solve_entry dec fuel cur f store) (entries st) S = Inl OutOfFuel"
    by (auto simp: solve_loop_def split: option.splits)
  show False
  proof (rule foldE_Inl_cases [OF fold, where P = "dep_rank rk"])
    show "dep_rank rk S" by fact
  next
    fix x s t
    assume "dep_rank rk s" "solve_entry dec fuel cur f store x s = Inr t"
    then show "dep_rank rk t"
      using assms(3) by (blast intro: dep_rank_graph solve_entry_graph)
  next
    fix x t
    assume "dep_rank rk t" "solve_entry dec fuel cur f store x t = Inl OutOfFuel"
    then show False
      using checkParamValue_fuel [of rk _ cur, OF _ assms(2)]
      by (auto simp: solve_entry_def bindE_eq_Inl checkName_def)
  qed
qed

lemma solve_command_fuel:
  "dep_rank rk S \<Longrightarrow> rk cur < fuel \<Longrightarrow> solve_command dec fuel cur S \<noteq> Inl OutOfFuel"
  by (auto simp: solve_command_def bindE_eq_Inl checkParamValue_fuel split: option.splits)

lemma Solve_fuel:
  assumes "dep_rank rk S" and "rk cur < fuel"
  shows "Solve dec fuel S cur \<noteq> Inl OutOfFuel"
proof -
  have step: "dep_rank rk T" if "solve_loop dec fuel cur f store entries R = Inr T" "dep_rank rk R"
    "keeps_deps store" for R T f store entries
    using that by (blast intro: dep_rank_graph solve_loop_graph)
  have no: "solve_loop dec fuel cur f store entries R \<noteq> Inl OutOfFuel" if "dep_rank rk R" "keeps_deps store"
    for R f store entries
    using solve_loop_fuel [OF that(1) assms(2) that(2)] .
  show ?thesis
    unfolding Solve_def bindE_eq_Inl not_ex de_Morgan_disj de_Morgan_conj
    by (metis assms no step solve_command_fuel keeps_deps_stores)
qed

section \<open>References that were resolved are declared\<close>

lemma foldE_Inr_each: "foldE f xs s = Inr t \<Longrightarrow> x \<in> set xs \<Longrightarrow> \<exists>s1 s2. f x s1 = Inr s2"
  by (induction xs arbitrary: s) (auto simp: bindE_eq_Inr)

lemma resolveRefParam_refs:
  assumes "resolveRefParam chk S cur s f = Inr v" and "(r0, nm) \<in> set (find_refs s)"
  shows "\<exists>w. ref_value chk S cur f nm = Inr w"
  using assms unfolding resolveRefParam_def
  by (fastforce simp: bindE_eq_Inr dest: foldE_Inr_each)

lemma refParamExist_declared:
  assumes "refParamExist chk S cur rs rn f = Inr v"
  shows "f \<noteq> fieldOutputArtifacts \<and>
     (\<exists>st ref. sv_get S cur = Some st \<and> rs \<in> set (GetDeps st) \<and> sv_get S rs = Some ref \<and>
        (if f = fieldInputArtifacts then mget (Output (Artifacts ref)) rn \<noteq> None
         else mget (Parameters ref) rn \<noteq> None))"
  using assms
  by (auto simp: refParamExist_def StringsContain_iff split: option.splits if_splits)

section \<open>Properties\<close>

lemma solve_command_id:
  assumes "\<not> needReplace S" and "solve_command dec fuel cur S = Inr S'"
  shows "S' = S"
proof -
  obtain st v where st: "sv_get S cur = Some st"
    and v: "checkParamValue dec fuel S cur ''command'' (PStr (Command st)) fieldCommand = Inr v"
    and S': "S' = upd_step cur (\<lambda>s. s\<lparr>Command := sprint_v v\<rparr>) S"
    using assms(2) by (auto simp: solve_command_def bindE_eq_Inr split: option.splits)
  have "v = PStr (Command st)" using checkParamValue_id [OF assms(1) _ v] by simp
  moreover have "mget (sv_store S) cur = Some st" using st by (simp add: sv_get_def split: if_splits)
  ultimately show ?thesis using S' by (simp add: upd_step_def mput_same)
qed

lemma strs_mem: "(k, v) \<in> set (strs m) \<Longrightarrow> \<exists>s. v = PStr s \<and> (k, s) \<in> set m"
  by (auto simp: strs_def)

text \<open>
  Without \<open>needReplace\<close>, a successful \<open>Solve\<close> is a check only: no step changes, provided the
  step being checked has no dictionary parameter.
\<close>

theorem Solve_check_changes_nothing:
  assumes check: "\<not> needReplace S" and st: "sv_get S cur = Some st" "wf_wf_step st"
    and nd: "no_dict (Parameters st)" and "Solve dec fuel S cur = Inr S'"
  shows "S' = S"
proof -
  have *: "T = S" if "solve_loop dec fuel cur f store entries S = Inr T"
    and "\<And>k v. (k, v) \<in> set (entries st) \<Longrightarrow> store k v st = st \<and> (\<forall>d t. v \<noteq> PDict d t)"
    for T f store entries
    by (rule solve_loop_id [OF check _ that(1)]) (use st that(2) in auto)
  have dict: "\<forall>d t. v \<noteq> PDict d t" if "(k, v) \<in> set (Parameters st)" for k v
    using nd that by (auto simp: no_dict_def)
  obtain S1 S2 S3 S4 where l:
    "solve_loop dec fuel cur fieldParameters set_param Parameters S = Inr S1"
    "solve_loop dec fuel cur fieldInputArtifacts (\<lambda>k v. set_input k (sprint_v v))
       (\<lambda>st. strs (Input (Artifacts st))) S1 = Inr S2"
    "solve_loop dec fuel cur fieldOutputArtifacts (\<lambda>k v. set_output k (sprint_v v))
       (\<lambda>st. strs (Output (Artifacts st))) S2 = Inr S3"
    "solve_loop dec fuel cur fieldEnv (\<lambda>k v. set_env k (sprint_v v)) (\<lambda>st. strs (Env st)) S3 = Inr S4"
    "solve_command dec fuel cur S4 = Inr S'"
    using assms(5) unfolding Solve_def bindE_eq_Inr by blast
  have 1: "S1 = S" using l(1) by (rule *) (use st dict in \<open>auto simp: set_store_id wf_wf_step_def\<close>)
  have 2: "S2 = S" using l(2) [unfolded 1]
    by (rule *) (use st in \<open>auto simp: set_store_id wf_wf_step_def dest!: strs_mem\<close>)
  have 3: "S3 = S" using l(3) [unfolded 2]
    by (rule *) (use st in \<open>auto simp: set_store_id wf_wf_step_def dest!: strs_mem\<close>)
  have 4: "S4 = S" using l(4) [unfolded 3]
    by (rule *) (use st in \<open>auto simp: set_store_id wf_wf_step_def dest!: strs_mem\<close>)
  show ?thesis using solve_command_id [OF check] l(5) 4 by simp
qed

definition demo_prep :: wf_step where
  "demo_prep =
     \<lparr>Parameters = [(''rows'', PInt 10)], Command = ''prep {{rows}}'', Deps = '''',
      Artifacts = \<lparr>Input = [], Output = [(''data'', ''/out'')]\<rparr>, Env = [], StepImage = ''''\<rparr>"

definition demo_train :: wf_step where
  "demo_train =
     \<lparr>Parameters = [(''n'', PStr ''{{prep.rows}}'')], Command = ''train {{ n }} {{data}}'', Deps = ''prep'',
      Artifacts = \<lparr>Input = [(''data'', ''{{prep.data}}'')], Output = []\<rparr>,
      Env = [(''N'', ''{{n}}'')], StepImage = ''''\<rparr>"

definition demo_solver :: "bool \<Rightarrow> solver" where
  "demo_solver b =
     \<lparr>sv_store = [(''prep'', demo_prep), (''train'', demo_train)], sv_names = [''prep'', ''train''],
      sv_sys = [(''PF_RUN_ID'', ''run-1'')], needReplace = b\<rparr>"

lemma Solve_check_changes_nothing_witness:
  "Solve (\<lambda>v. None) 3 (demo_solver False) ''train'' = Inr (demo_solver False)"
proof -
  have a: "\<not> needReplace (demo_solver False)" "sv_get (demo_solver False) ''train'' = Some demo_train"
    "wf_wf_step demo_train" "no_dict (Parameters demo_train)"
    by (simp_all add: demo_solver_def sv_get_def wf_wf_step_def demo_train_def wf_map_def no_dict_def)
  have "(case Solve (\<lambda>v. None) 3 (demo_solver False) ''train'' of Inr _ \<Rightarrow> True | Inl _ \<Rightarrow> False)"
    by code_simp
  then obtain S' where S': "Solve (\<lambda>v. None) 3 (demo_solver False) ''train'' = Inr S'"
    by (auto split: sum.splits)
  with Solve_check_changes_nothing [OF a S'] show ?thesis by simp
qed

text \<open>
  C31: \<open>Solve\<close> returns on every acyclic set of steps: whenever the known dependencies lower a rank,
  the recursion through upstream references ends within the rank of the step.
\<close>

theorem Solve_terminates:
  assumes "dep_rank rk S" and "rk cur < fuel"
  shows "Solve dec fuel S cur \<noteq> Inl OutOfFuel"
  using assms by (rule Solve_fuel)

lemma Solve_terminates_witness:
  "Solve (\<lambda>v. None) 2 (demo_solver True) ''train'' \<noteq> Inl OutOfFuel \<and>
   map_option Command (sv_get (projr (Solve (\<lambda>v. None) 2 (demo_solver True) ''train'')) ''train'') =
     Some ''train 10 /out''"
proof
  have g: "GetDeps demo_prep = []" "GetDeps demo_train = [''prep'']" by code_simp+
  have "dep_rank (\<lambda>n. if n = ''train'' then 1 else 0) (demo_solver True)"
    unfolding dep_rank_def
    by (auto simp: demo_solver_def sv_get_def g split: if_splits)
  then show "Solve (\<lambda>v. None) 2 (demo_solver True) ''train'' \<noteq> Inl OutOfFuel"
    by (rule Solve_terminates) simp
qed code_simp

text \<open>
  Whether a value resolves, and with which error it does not, is the same when checking and when
  replacing: a workflow that passes the check on the same values is not refused later.
\<close>

theorem checking_predicts_replacing:
  "(\<exists>v. checkParamValue dec n (S\<lparr>needReplace := False\<rparr>) step p x f = Inr v) \<longleftrightarrow>
   (\<exists>v. checkParamValue dec n (S\<lparr>needReplace := True\<rparr>) step p x f = Inr v)"
proof -
  have "same_outcome (checkParamValue dec n (S\<lparr>needReplace := False\<rparr>) step p x f)
      (checkParamValue dec n (S\<lparr>needReplace := True\<rparr>) step p x f)"
    using checkParamValue_outcome [of dec n "S\<lparr>needReplace := False\<rparr>" step p x f True] by simp
  then show ?thesis
    by (cases "checkParamValue dec n (S\<lparr>needReplace := False\<rparr>) step p x f") auto
qed

text \<open>
  A qualified reference \<open>{{step.name}}\<close> resolves only if the step lists that step among its
  dependencies and the dependency declares the name (an output artifact for an input artifact, a
  parameter otherwise); an output artifact never refers to another step.
\<close>

theorem resolved_references_are_declared:
  assumes "checkParamValue dec n S cur p (PStr s) f = Inr v"
    and "(r0, nm) \<in> set (find_refs s)" and "parseParamName nm = (rs, rn)" and "rs \<noteq> ''''"
  shows "f \<noteq> fieldOutputArtifacts \<and>
     (\<exists>st ref. sv_get S cur = Some st \<and> rs \<in> set (GetDeps st) \<and> sv_get S rs = Some ref \<and>
        (if f = fieldInputArtifacts then mget (Output (Artifacts ref)) rn \<noteq> None
         else mget (Parameters ref) rn \<noteq> None))"
proof -
  obtain m where m: "resolveRefParam (checkParamValue dec m S) S cur s f = Inr v"
    using assms(1) by (cases n) (auto simp: check_body_def)
  from resolveRefParam_refs [OF m assms(2)] obtain w
    where "ref_value (checkParamValue dec m S) S cur f nm = Inr w" ..
  then obtain x where "refParamExist (checkParamValue dec m S) S cur rs rn f = Inr x"
    using assms(3,4) by (auto simp: ref_value_def bindE_eq_Inr)
  then show ?thesis by (rule refParamExist_declared)
qed

lemma resolved_references_are_declared_witness:
  "''prep'' \<in> set (GetDeps demo_train) \<and> mget (Parameters demo_prep) ''rows'' \<noteq> None"
proof -
  have 1: "checkParamValue (\<lambda>v. None) 3 (demo_solver True) ''train'' ''n'' (PStr ''{{prep.rows}}'')
      fieldParameters = Inr (PStr ''10'')" by code_simp
  have 2: "find_refs ''{{prep.rows}}'' = [(''{{prep.rows}}'', ''prep.rows'')]" by code_simp
  have 3: "parseParamName ''prep.rows'' = (''prep'', ''rows'')" by code_simp
  have "sv_get (demo_solver True) ''train'' = Some demo_train" "sv_get (demo_solver True) ''prep'' = Some demo_prep"
    by (simp_all add: sv_get_def demo_solver_def)
  with resolved_references_are_declared [OF 1 _ 3] 2 show ?thesis by auto
qed

text \<open>
  A reference to a listed dependency that is not among the steps dereferences a nil step: the
  check that should refuse such a workflow panics instead. \<open>topologicalSort\<close> lets unknown
  dependencies pass, so the check is reached.
\<close>

theorem unknown_dependency_panics:
  assumes "sv_get S cur = Some st" and "rs \<in> set (GetDeps st)" and "sv_get S rs = None"
    and "f \<noteq> fieldOutputArtifacts" and "find_refs s = (r0, nm) # others"
    and "parseParamName nm = (rs, rn)" and "rs \<noteq> ''''"
  shows "checkParamValue dec (Suc n) S cur p (PStr s) f = Inl NilDeref"
proof -
  have "ref_value (checkParamValue dec n S) S cur f nm = Inl NilDeref"
    using assms by (simp add: ref_value_def refParamExist_def StringsContain_iff)
  then show ?thesis using assms(5) by (simp add: check_body_def resolveRefParam_def)
qed

lemma unknown_dependency_panics_witness:
  "checkParamValue (\<lambda>v. None) 1
     \<lparr>sv_store = [(''train'', demo_train)], sv_names = [''train''], sv_sys = [], needReplace = False\<rparr>
     ''train'' ''n'' (PStr ''{{prep.rows}}'') fieldParameters = Inl NilDeref"
proof -
  let ?S = "\<lparr>sv_store = [(''train'', demo_train)], sv_names = [''train''], sv_sys = [], needReplace = False\<rparr>"
  have 1: "sv_get ?S ''train'' = Some demo_train" "sv_get ?S ''prep'' = None"
    by (simp_all add: sv_get_def)
  have 2: "''prep'' \<in> set (GetDeps demo_train)" by code_simp
  have 3: "find_refs ''{{prep.rows}}'' = [(''{{prep.rows}}'', ''prep.rows'')]" by code_simp
  have 4: "parseParamName ''prep.rows'' = (''prep'', ''rows'')" by code_simp
  show ?thesis
    using unknown_dependency_panics [OF 1(1) 2 1(2) _ 3 4, where n = 0 and dec = "\<lambda>v. None"] by simp
qed

end
