(* ===== verification/PF_Graph.thy ===== *)
theory PF_Graph
  imports PF_Schema
begin

text \<open>
  The graph part of \<open>pkg/pipeline/workflow.go\<close>: \<open>topologicalSort\<close> and \<open>getRunSteps\<close>.

  \<open>topologicalSort\<close> sweeps over a Go map while it deletes from it, and Go visits a map in an
  unspecified order that may differ in every sweep. The order is the argument \<open>ord\<close>: \<open>ord k xs\<close>
  lists the keys \<open>xs\<close> in the order of sweep \<open>k\<close>. The theorems hold for every \<open>ord\<close> that
  enumerates the keys (\<open>is_order\<close>).
\<close>

section \<open>topologicalSort\<close>

datatype topo_error = NotAcyclic

type_synonym map_order = "nat \<Rightarrow> string list \<Rightarrow> string list"

definition is_order :: "map_order \<Rightarrow> bool" where
  "is_order ord = (\<forall>k xs. set (ord k xs) = set xs)"

type_synonym unsorted = "string list gomap"

definition add_dep :: "string \<Rightarrow> unsorted \<Rightarrow> string \<Rightarrow> unsorted" where
  "add_dep name U dep =
     (case mget U name of
        Some ds \<Rightarrow> mput name (ds @ [dep]) U
      | None \<Rightarrow> mput name [dep] U)"

definition build_unsorted :: "wf_step gomap \<Rightarrow> unsorted" where
  "build_unsorted entrypoints =
     foldl (\<lambda>U (name, step).
        if length (Deps step) = 0 then mput name [] U
        else foldl (add_dep name) U (GetDeps step)) [] entrypoints"

text \<open>One sweep \<open>for name, parents := range unsorted\<close>: a step none of whose parents is left is
  sorted and deleted at once.\<close>

fun topo_pass :: "string list \<Rightarrow> unsorted \<Rightarrow> string list \<Rightarrow> bool \<Rightarrow> unsorted \<times> string list \<times> bool" where
  "topo_pass [] U sortedSteps ac = (U, sortedSteps, ac)"
| "topo_pass (name # rest) U sortedSteps ac =
     (case mget U name of
        None \<Rightarrow> topo_pass rest U sortedSteps ac
      | Some parents \<Rightarrow>
          if list_all (\<lambda>parent. mget U parent = None) parents
          then topo_pass rest (mdel name U) (sortedSteps @ [name]) True
          else topo_pass rest U sortedSteps ac)"

lemma length_mdel: "mget U n = Some ps \<Longrightarrow> length (mdel n U) < length U"
  unfolding mdel_def mget_def
  by (induction U) (auto split: if_splits simp: AList.delete_eq intro: le_imp_less_Suc)

lemma topo_pass_length:
  "topo_pass ns U acc ac = (U', acc', ac') \<Longrightarrow>
     length U' \<le> length U \<and> (\<not> ac \<longrightarrow> ac' \<longrightarrow> length U' < length U)"
proof (induction ns U acc ac rule: topo_pass.induct)
  case (2 n rest U acc ac)
  then show ?case
    by (fastforce split: option.splits if_splits dest: length_mdel)
qed simp

function topo_loop :: "map_order \<Rightarrow> nat \<Rightarrow> unsorted \<Rightarrow> string list \<Rightarrow> topo_error + string list" where
  "topo_loop ord k U sortedSteps =
     (if U = [] then Inr sortedSteps
      else case topo_pass (ord k (keys U)) U sortedSteps False of
        (U', sortedSteps', ac) \<Rightarrow>
          if ac then topo_loop ord (Suc k) U' sortedSteps' else Inl NotAcyclic)"
  by pat_completeness auto
termination
  by (relation "measure (\<lambda>(ord, k, U, acc). length U)") (auto dest: topo_pass_length [OF sym])

declare topo_loop.simps [simp del]

definition topologicalSort :: "map_order \<Rightarrow> wf_step gomap \<Rightarrow> topo_error + string list" where
  "topologicalSort ord entrypoints = topo_loop ord 0 (build_unsorted entrypoints) []"

subsection \<open>What the sweeps start from\<close>

lemma foldl_add_dep:
  "mget (foldl (add_dep n) U ds) m =
     (if m = n \<and> ds \<noteq> [] then Some (case mget U n of None \<Rightarrow> ds | Some es \<Rightarrow> es @ ds) else mget U m)"
  by (induction ds arbitrary: U) (auto simp: add_dep_def split: option.splits)

lemma wf_foldl_add_dep: "wf_map U \<Longrightarrow> wf_map (foldl (add_dep n) U ds)"
  by (induction ds arbitrary: U) (auto simp: add_dep_def split: option.splits)

definition unsorted_deps :: "wf_step \<Rightarrow> string list option" where
  "unsorted_deps st = (if Deps st = '''' then Some [] else if GetDeps st = [] then None else Some (GetDeps st))"

lemma build_unsorted_gen:
  assumes "wf_map eps" and "\<forall>n\<in>set (keys eps). mget U n = None"
  shows "mget (foldl (\<lambda>U (name, step).
            if length (Deps step) = 0 then mput name [] U else foldl (add_dep name) U (GetDeps step)) U eps) n =
         (case mget eps n of None \<Rightarrow> mget U n | Some st \<Rightarrow> unsorted_deps st)"
  using assms
proof (induction eps arbitrary: U)
  case (Cons x eps)
  obtain m st where x: "x = (m, st)" by (cases x)
  let ?V = "if length (Deps st) = 0 then mput m [] U else foldl (add_dep m) U (GetDeps st)"
  have V: "mget ?V k = (if k = m then unsorted_deps st else mget U k)" for k
    using Cons.prems x by (auto simp: foldl_add_dep unsorted_deps_def)
  have "m \<notin> set (keys eps)" "wf_map eps" using Cons.prems x by (auto simp: wf_map_def)
  then have "mget (foldl (\<lambda>U (name, step).
            if length (Deps step) = 0 then mput name [] U else foldl (add_dep name) U (GetDeps step)) ?V eps) n =
         (case mget eps n of None \<Rightarrow> mget ?V n | Some st \<Rightarrow> unsorted_deps st)"
    using Cons.prems x \<open>m \<notin> set (keys eps)\<close> by (intro Cons.IH) (simp_all only: V, auto)
  moreover have "mget eps m = None" using \<open>m \<notin> set (keys eps)\<close> by (simp add: mget_None)
  ultimately show ?case using x V by (auto split: option.splits)
qed simp

lemma mget_build_unsorted:
  "wf_map eps \<Longrightarrow> mget (build_unsorted eps) n = Option.bind (mget eps n) unsorted_deps"
  unfolding build_unsorted_def by (subst build_unsorted_gen) (auto split: option.splits)

lemma wf_build_unsorted: "wf_map (build_unsorted eps)"
proof -
  have "wf_map (foldl (\<lambda>U (name, step).
     if length (Deps step) = 0 then mput name [] U else foldl (add_dep name) U (GetDeps step)) U eps)"
    if "wf_map U" for U
    using that by (induction eps arbitrary: U) (auto simp: wf_foldl_add_dep)
  then show ?thesis by (simp add: build_unsorted_def)
qed

lemma unsorted_deps_Some: "unsorted_deps st = Some ps \<Longrightarrow> ps = GetDeps st"
  by (auto simp: unsorted_deps_def GetDeps_empty split: if_splits)

subsection \<open>The invariant of the sweeps\<close>

text \<open>Against the initial map \<open>U0\<close>: what was moved out is sorted, what is left is untouched.\<close>

definition topo_inv :: "unsorted \<Rightarrow> unsorted \<Rightarrow> string list \<Rightarrow> bool" where
  "topo_inv U0 U acc =
     (wf_map U \<and> distinct acc \<and> set acc \<subseteq> set (keys U0) \<and>
      (\<forall>n. mget U n = (if n \<in> set acc then None else mget U0 n)) \<and>
      (\<forall>i<length acc. \<forall>ps. mget U0 (acc ! i) = Some ps \<longrightarrow>
         (\<forall>p\<in>set ps. mget U0 p \<noteq> None \<longrightarrow> p \<in> set (take i acc))))"

lemma topo_inv_init: "wf_map U0 \<Longrightarrow> topo_inv U0 U0 []"
  by (simp add: topo_inv_def)

lemma topo_inv_step:
  assumes inv: "topo_inv U0 U acc" and n: "mget U n = Some ps"
    and all: "list_all (\<lambda>p. mget U p = None) ps"
  shows "topo_inv U0 (mdel n U) (acc @ [n])"
proof -
  have U: "\<forall>m. mget U m = (if m \<in> set acc then None else mget U0 m)"
    and rest: "wf_map U" "distinct acc" "set acc \<subseteq> set (keys U0)"
    and sorted: "\<forall>i<length acc. \<forall>ps. mget U0 (acc ! i) = Some ps \<longrightarrow>
         (\<forall>p\<in>set ps. mget U0 p \<noteq> None \<longrightarrow> p \<in> set (take i acc))"
    using inv by (auto simp: topo_inv_def)
  have n0: "mget U0 n = Some ps" "n \<notin> set acc" using U n by (auto split: if_splits)
  have "\<forall>p\<in>set ps. mget U0 p \<noteq> None \<longrightarrow> p \<in> set acc"
    using all U by (auto simp: list_all_iff split: if_splits)
  then have "\<forall>i<length (acc @ [n]). \<forall>ps. mget U0 ((acc @ [n]) ! i) = Some ps \<longrightarrow>
         (\<forall>p\<in>set ps. mget U0 p \<noteq> None \<longrightarrow> p \<in> set (take i (acc @ [n])))"
    using sorted n0 by (auto simp: nth_append less_Suc_eq)
  moreover have "n \<in> set (keys U0)" using n0(1) by (rule mget_in_keys)
  ultimately show ?thesis using U rest n0 by (auto simp: topo_inv_def)
qed

lemma topo_pass_inv:
  "topo_inv U0 U acc \<Longrightarrow> topo_pass ns U acc ac = (U', acc', ac') \<Longrightarrow> topo_inv U0 U' acc'"
  by (induction ns U acc ac rule: topo_pass.induct)
     (auto split: option.splits if_splits dest: topo_inv_step)

lemma topo_pass_stuck:
  "topo_pass ns U acc ac = (U', acc', False) \<Longrightarrow>
     U' = U \<and> acc' = acc \<and> \<not> ac \<and>
     (\<forall>n\<in>set ns. \<forall>ps. mget U n = Some ps \<longrightarrow> (\<exists>p\<in>set ps. mget U p \<noteq> None))"
proof (induction ns U acc ac rule: topo_pass.induct)
  case (2 n rest U acc ac)
  have no_True: "topo_pass ns V a True \<noteq> (W, b, False)" for ns V a W b
    by (induction ns V a True rule: topo_pass.induct) (auto split: option.splits if_splits)
  from 2 show ?case
    by (auto simp: no_True list_all_iff split: option.splits if_splits)
qed simp

lemma topo_loop_Inr:
  assumes "topo_inv U0 U acc" and "topo_loop ord k U acc = Inr s"
  shows "topo_inv U0 [] s"
  using assms
proof (induction ord k U acc rule: topo_loop.induct)
  case (1 ord k U acc)
  show ?case
  proof (cases "U = []")
    case True
    with 1 show ?thesis by (auto simp: topo_loop.simps [of ord k "[]" acc])
  next
    case False
    obtain U' acc' ac where p: "topo_pass (ord k (keys U)) U acc False = (U', acc', ac)"
      by (metis prod_cases3)
    with False 1 show ?thesis
      by (auto simp: topo_loop.simps [of ord k U acc] dest: topo_pass_inv split: if_splits)
  qed
qed

lemma topo_loop_Inl:
  assumes "is_order ord" and "topo_inv U0 U acc" and "topo_loop ord k U acc = Inl e"
  shows "\<exists>C. C \<noteq> {} \<and> (\<forall>n\<in>C. \<exists>ps. mget U0 n = Some ps \<and> (\<exists>p\<in>set ps. p \<in> C))"
  using assms
proof (induction ord k U acc rule: topo_loop.induct)
  case (1 ord k U acc)
  obtain U' acc' ac where p: "topo_pass (ord k (keys U)) U acc False = (U', acc', ac)"
    by (metis prod_cases3)
  have ne: "U \<noteq> []" using 1(4) by (auto simp: topo_loop.simps [of ord k U acc])
  show ?case
  proof (cases ac)
    case True
    with 1 p ne show ?thesis
      by (auto simp: topo_loop.simps [of ord k U acc] dest: topo_pass_inv)
  next
    case False
    let ?C = "set (keys U)"
    have ord: "set (ord k (keys U)) = ?C" using 1(2) by (simp add: is_order_def)
    have "\<forall>n\<in>?C. \<exists>ps. mget U0 n = Some ps \<and> (\<exists>p\<in>set ps. p \<in> ?C)"
    proof
      fix n assume n: "n \<in> ?C"
      then obtain ps where ps: "mget U n = Some ps" by (cases "mget U n") (auto simp: mget_None)
      from p False have "topo_pass (ord k (keys U)) U acc False = (U', acc', False)" by simp
      from topo_pass_stuck [OF this] n ord ps obtain q where "q \<in> set ps" "mget U q \<noteq> None"
        by metis
      moreover have "mget U0 n = Some ps" using 1(3) ps by (auto simp: topo_inv_def split: if_splits)
      ultimately show "\<exists>ps. mget U0 n = Some ps \<and> (\<exists>p\<in>set ps. p \<in> ?C)"
        by (auto simp: mget_None)
    qed
    moreover have "?C \<noteq> {}" using ne by simp
    ultimately show ?thesis by blast
  qed
qed

subsection \<open>The contract: it sorts exactly the acyclic graphs\<close>

definition dep_edges :: "wf_step gomap \<Rightarrow> (string \<times> string) set" where
  "dep_edges eps = {(p, n). \<exists>st. mget eps n = Some st \<and> p \<in> set (GetDeps st) \<and> p \<in> set (keys eps)}"

text \<open>The steps that take part: a step whose \<open>deps\<close> text is not empty but names nothing (a lone
  comma or blank) never enters \<open>unsorted\<close>.\<close>

definition sortable :: "wf_step gomap \<Rightarrow> string set" where
  "sortable eps = {n. \<exists>st. mget eps n = Some st \<and> (Deps st = '''' \<or> GetDeps st \<noteq> [])}"

lemma finite_dep_edges: "finite (dep_edges eps)"
proof (rule finite_subset)
  show "dep_edges eps \<subseteq> set (keys eps) \<times> set (keys eps)"
    by (auto simp: dep_edges_def dest: mget_in_keys)
qed simp

lemma unsorted_dom: "wf_map eps \<Longrightarrow> mget (build_unsorted eps) n \<noteq> None \<longleftrightarrow> n \<in> sortable eps"
  by (cases "mget eps n") (auto simp: mget_build_unsorted sortable_def unsorted_deps_def)

lemma keys_unsorted: "wf_map eps \<Longrightarrow> set (keys (build_unsorted eps)) = sortable eps"
  using unsorted_dom by (auto simp: mget_None)

lemma unsorted_mget:
  "wf_map eps \<Longrightarrow> mget (build_unsorted eps) n = Some ps \<Longrightarrow>
     \<exists>st. mget eps n = Some st \<and> ps = GetDeps st"
  by (auto simp: mget_build_unsorted bind_eq_Some_conv dest: unsorted_deps_Some)

lemma topo_sound:
  assumes wf: "wf_map eps" and s: "topologicalSort ord eps = Inr s"
  shows "distinct s" and "set s = sortable eps"
    and "\<And>i st d. i < length s \<Longrightarrow> mget eps (s ! i) = Some st \<Longrightarrow> d \<in> set (GetDeps st) \<Longrightarrow>
           d \<in> sortable eps \<Longrightarrow> d \<in> set (take i s)"
proof -
  let ?U = "build_unsorted eps"
  have inv: "topo_inv ?U [] s"
    by (rule topo_loop_Inr [OF topo_inv_init [OF wf_build_unsorted]])
       (use s in \<open>simp add: topologicalSort_def\<close>)
  show "distinct s" using inv by (simp add: topo_inv_def)
  have "n \<in> set s \<longleftrightarrow> mget ?U n \<noteq> None" for n
    using inv unfolding topo_inv_def by (metis mget_None mget_Nil subsetD)
  then show set: "set s = sortable eps" using unsorted_dom [OF wf] by blast
  fix i st d
  assume i: "i < length s" and st: "mget eps (s ! i) = Some st" and d: "d \<in> set (GetDeps st)" "d \<in> sortable eps"
  have "mget ?U (s ! i) \<noteq> None" using unsorted_dom [OF wf] set i nth_mem by blast
  then obtain ps where ps: "mget ?U (s ! i) = Some ps" by blast
  then have "ps = GetDeps st" using unsorted_mget [OF wf] st by force
  then show "d \<in> set (take i s)"
    using inv i ps d unsorted_dom [OF wf] by (auto simp: topo_inv_def)
qed

text \<open>The position in the sorted list is a rank that dependencies lower.\<close>

definition topo_rank :: "string list \<Rightarrow> string \<Rightarrow> nat" where
  "topo_rank s n = (if n \<in> set s then Suc (length (takeWhile (\<lambda>x. x \<noteq> n) s)) else 0)"

lemma takeWhile_pos:
  "n \<in> set s \<Longrightarrow> length (takeWhile (\<lambda>x. x \<noteq> n) s) < length s \<and> s ! length (takeWhile (\<lambda>x. x \<noteq> n) s) = n"
  by (induction s) auto

lemma takeWhile_take: "p \<in> set (take i s) \<Longrightarrow> length (takeWhile (\<lambda>x. x \<noteq> p) s) < i"
proof (induction s arbitrary: i)
  case (Cons x s)
  then show ?case by (cases i) auto
qed simp

lemma topo_rank_le: "topo_rank s n \<le> length s"
  using takeWhile_pos [of n s] by (auto simp: topo_rank_def)

lemma topo_rank_dep:
  assumes "wf_map eps" and "topologicalSort ord eps = Inr s"
    and n: "mget eps n = Some st" and p: "p \<in> set (GetDeps st)"
  shows "topo_rank s p < topo_rank s n"
proof -
  have "n \<in> sortable eps" using n p by (auto simp: sortable_def)
  then have ns: "n \<in> set s" using topo_sound(2) [OF assms(1,2)] by simp
  show ?thesis
  proof (cases "p \<in> set s")
    case True
    then have "p \<in> sortable eps" using topo_sound(2) [OF assms(1,2)] by simp
    then have "p \<in> set (take (length (takeWhile (\<lambda>x. x \<noteq> n) s)) s)"
      using topo_sound(3) [OF assms(1,2)] takeWhile_pos [OF ns] n p by metis
    with True ns show ?thesis by (simp add: topo_rank_def takeWhile_take)
  qed (use ns in \<open>simp add: topo_rank_def\<close>)
qed

lemma topo_Inr_acyclic:
  assumes wf: "wf_map eps" and s: "topologicalSort ord eps = Inr s"
  shows "acyclic (dep_edges eps)"
proof -
  have "dep_edges eps \<subseteq> measure (topo_rank s)"
    using topo_rank_dep [OF assms] by (auto simp: dep_edges_def)
  then have "wf (dep_edges eps)" by (rule wf_subset [OF wf_measure])
  then show ?thesis by (rule wf_acyclic)
qed

lemma topo_Inl_cyclic:
  assumes wf: "wf_map eps" and ord: "is_order ord" and e: "topologicalSort ord eps = Inl e"
  shows "\<not> acyclic (dep_edges eps)"
proof (rule notI)
  assume "acyclic (dep_edges eps)"
  then have wfE: "wf (dep_edges eps)" by (rule finite_acyclic_wf [OF finite_dep_edges])
  have l: "topo_loop ord 0 (build_unsorted eps) [] = Inl e"
    using e by (simp only: topologicalSort_def)
  obtain C where C: "C \<noteq> {}"
    and dep0: "\<forall>n\<in>C. \<exists>ps. mget (build_unsorted eps) n = Some ps \<and> (\<exists>p\<in>set ps. p \<in> C)"
    using topo_loop_Inl [OF ord topo_inv_init [OF wf_build_unsorted] l] by (elim exE conjE) (rule that)
  have dep: "\<exists>st. mget eps n = Some st \<and> (\<exists>p\<in>set (GetDeps st). p \<in> C)" if n: "n \<in> C" for n
  proof -
    obtain ps where ps: "mget (build_unsorted eps) n = Some ps" "\<exists>p\<in>set ps. p \<in> C"
      using bspec [OF dep0 n] by (elim exE conjE) (rule that)
    from unsorted_mget [OF wf ps(1)] ps(2) show ?thesis by metis
  qed
  have key: "n \<in> set (keys eps)" if "n \<in> C" for n
    using dep [OF that] by (elim exE conjE) (rule mget_in_keys)
  have edge: "\<exists>p\<in>C. (p, n) \<in> dep_edges eps" if n: "n \<in> C" for n
  proof -
    obtain st p where sp: "mget eps n = Some st" "p \<in> set (GetDeps st)" "p \<in> C"
      using dep [OF n] by (elim exE conjE bexE) (rule that)
    then have "(p, n) \<in> dep_edges eps" using key [OF sp(3)] unfolding dep_edges_def by simp
    with sp(3) show ?thesis by (rule bexI [rotated])
  qed
  obtain c where c: "c \<in> C" using C by auto
  show False
    by (rule wfE_min [OF wfE c]) (use edge in metis)
qed

section \<open>getRunSteps\<close>

text \<open>\<open>recursiveGetRunSteps\<close> fills the map \<open>steps\<close> with the pointers of the entry points themselves,
  so the list of visited names stands for it. The recursion is cut by the visited names; it takes
  one unit of fuel per level and \<open>visit_ok\<close> shows that one more than the number of unvisited
  steps is enough.\<close>

datatype visit_error = VisitFuel

fun recursiveGetRunSteps ::
  "nat \<Rightarrow> wf_step gomap \<Rightarrow> string \<Rightarrow> string list \<Rightarrow> visit_error + string list" where
  "recursiveGetRunSteps 0 eps entry steps = Inl VisitFuel"
| "recursiveGetRunSteps (Suc n) eps entry steps =
     (if entry \<in> set steps then Inr steps
      else case mget eps entry of
        None \<Rightarrow> Inr steps
      | Some step \<Rightarrow> foldE (recursiveGetRunSteps n eps) (GetDeps step) (steps @ [entry]))"

definition getRunSteps :: "wf_step gomap \<Rightarrow> string \<Rightarrow> visit_error + string list" where
  "getRunSteps eps entry =
     (if entry = '''' then Inr (keys eps)
      else recursiveGetRunSteps (Suc (length eps)) eps entry [])"

definition visited_ok :: "wf_step gomap \<Rightarrow> string set \<Rightarrow> string list \<Rightarrow> string list \<Rightarrow> bool" where
  "visited_ok eps from steps steps' =
     (set steps \<subseteq> set steps' \<and> set steps' \<subseteq> set (keys eps) \<and> (distinct steps \<longrightarrow> distinct steps') \<and>
      from \<inter> set (keys eps) \<subseteq> set steps' \<and>
      (\<forall>x\<in>set steps' - set steps. \<forall>d. (d, x) \<in> dep_edges eps \<longrightarrow> d \<in> set steps') \<and>
      (\<forall>x\<in>set steps' - set steps. \<exists>r\<in>from. (x, r) \<in> (dep_edges eps)\<^sup>*))"

lemma visited_ok_refl: "set s \<subseteq> set (keys eps) \<Longrightarrow> from \<inter> set (keys eps) \<subseteq> set s \<Longrightarrow> visited_ok eps from s s"
  by (simp add: visited_ok_def)

lemma visited_ok_trans:
  assumes "visited_ok eps A s t" and "visited_ok eps B t u"
  shows "visited_ok eps (A \<union> B) s u"
proof -
  have sub: "set s \<subseteq> set t" "set t \<subseteq> set u" "set u \<subseteq> set (keys eps)"
    "A \<inter> set (keys eps) \<subseteq> set t" "B \<inter> set (keys eps) \<subseteq> set u" "distinct s \<longrightarrow> distinct u"
    using assms unfolding visited_ok_def by simp_all
  have cl: "d \<in> set u" if "x \<in> set u" "x \<notin> set s" "(d, x) \<in> dep_edges eps" for x d
    using assms that sub unfolding visited_ok_def by (metis DiffI subsetD)
  have re: "\<exists>r\<in>A \<union> B. (x, r) \<in> (dep_edges eps)\<^sup>*" if "x \<in> set u" "x \<notin> set s" for x
    using assms that unfolding visited_ok_def by (metis DiffI UnCI)
  show ?thesis
    unfolding visited_ok_def using sub cl re by (intro conjI) (blast | fast)+
qed

lemma visited_ok_subset: "visited_ok eps A s t \<Longrightarrow> set s \<subseteq> set t \<and> set t \<subseteq> set (keys eps)"
  by (simp add: visited_ok_def)

lemma foldE_visit:
  assumes IH: "\<And>d s. set s \<subseteq> K \<Longrightarrow> card (K - set s) < n \<Longrightarrow>
                 \<exists>t. recursiveGetRunSteps n eps d s = Inr t \<and> visited_ok eps {d} s t"
    and K: "K = set (keys eps)"
  shows "set s \<subseteq> K \<Longrightarrow> card (K - set s) < n \<Longrightarrow>
     \<exists>t. foldE (recursiveGetRunSteps n eps) ds s = Inr t \<and> visited_ok eps (set ds) s t"
proof (induction ds arbitrary: s)
  case Nil
  have "visited_ok eps (set []) s s" using Nil K by (intro visited_ok_refl) simp_all
  then show ?case by simp
next
  case (Cons d ds)
  obtain t where t: "recursiveGetRunSteps n eps d s = Inr t" "visited_ok eps {d} s t"
    using IH [OF Cons.prems] by blast
  have sub: "set s \<subseteq> set t" "set t \<subseteq> K" using visited_ok_subset [OF t(2)] K by auto
  have "card (K - set t) \<le> card (K - set s)" using sub K by (intro card_mono) auto
  then obtain u where u: "foldE (recursiveGetRunSteps n eps) ds t = Inr u" "visited_ok eps (set ds) t u"
    using Cons.IH [of t] sub Cons.prems by auto
  have "visited_ok eps ({d} \<union> set ds) s u" using t(2) u(2) by (rule visited_ok_trans)
  with t u show ?case by simp
qed

lemma dep_edges_rtrancl_keys:
  assumes "(x, r) \<in> (dep_edges eps)\<^sup>*" and "x \<in> set (keys eps)"
  shows "r \<in> set (keys eps)"
  using assms
proof (cases rule: rtranclE)
  case (step y)
  then obtain st where "mget eps r = Some st" unfolding dep_edges_def by blast
  then show ?thesis by (rule mget_in_keys)
qed simp

lemma visit_ok:
  "set s \<subseteq> set (keys eps) \<Longrightarrow> card (set (keys eps) - set s) < n \<Longrightarrow>
     \<exists>t. recursiveGetRunSteps n eps entry s = Inr t \<and> visited_ok eps {entry} s t"
proof (induction n arbitrary: entry s)
  case (Suc n)
  show ?case
  proof (cases "entry \<in> set s \<or> mget eps entry = None")
    case True
    then have "{entry} \<inter> set (keys eps) \<subseteq> set s" using mget_None [of eps entry] by blast
    then have "visited_ok eps {entry} s s" using Suc.prems(1) by (intro visited_ok_refl)
    moreover have "recursiveGetRunSteps (Suc n) eps entry s = Inr s" using True by auto
    ultimately show ?thesis by blast
  next
    case False
    then obtain st where st: "mget eps entry = Some st" and new: "entry \<notin> set s" by auto
    have key: "entry \<in> set (keys eps)" using st by (rule mget_in_keys)
    define s' where "s' = s @ [entry]"
    have s': "set s' = insert entry (set s)" "distinct s \<Longrightarrow> distinct s'"
      using new by (simp_all add: s'_def)
    have "set (keys eps) - set s' = (set (keys eps) - set s) - {entry}" using s' by blast
    moreover have "card ((set (keys eps) - set s) - {entry}) < card (set (keys eps) - set s)"
      using key new by (intro card_Diff1_less) simp_all
    ultimately have c: "set s' \<subseteq> set (keys eps)" "card (set (keys eps) - set s') < n"
      using Suc.prems key s' by simp_all
    have IH: "\<exists>t. recursiveGetRunSteps n eps d s = Inr t \<and> visited_ok eps {d} s t"
      if "set s \<subseteq> set (keys eps)" "card (set (keys eps) - set s) < n" for d s
      using that by (rule Suc.IH)
    obtain t where t: "foldE (recursiveGetRunSteps n eps) (GetDeps st) s' = Inr t"
      and v: "visited_ok eps (set (GetDeps st)) s' t"
      using foldE_visit [OF IH refl c] by blast
    have v1: "set s' \<subseteq> set t" "set t \<subseteq> set (keys eps)" "distinct s' \<longrightarrow> distinct t"
      and v2: "set (GetDeps st) \<inter> set (keys eps) \<subseteq> set t"
      and v3: "\<forall>x\<in>set t - set s'. \<forall>d. (d, x) \<in> dep_edges eps \<longrightarrow> d \<in> set t"
      and v4: "\<forall>x\<in>set t - set s'. \<exists>r\<in>set (GetDeps st). (x, r) \<in> (dep_edges eps)\<^sup>*"
      using v unfolding visited_ok_def by argo+
    have edge: "(d, entry) \<in> dep_edges eps \<longleftrightarrow> d \<in> set (GetDeps st) \<and> d \<in> set (keys eps)" for d
      using st by (simp add: dep_edges_def)
    have cl: "\<forall>x\<in>set t - set s. \<forall>d. (d, x) \<in> dep_edges eps \<longrightarrow> d \<in> set t"
    proof (intro ballI allI impI)
      fix x d
      assume x: "x \<in> set t - set s" and d: "(d, x) \<in> dep_edges eps"
      show "d \<in> set t"
      proof (cases "x = entry")
        case True
        then show ?thesis using d edge v2 by blast
      next
        case False
        then have "x \<in> set t - set s'" using x s'(1) by simp
        with v3 d show ?thesis by blast
      qed
    qed
    have re: "(x, entry) \<in> (dep_edges eps)\<^sup>*" if x: "x \<in> set t - set s" for x
    proof (cases "x = entry")
      case False
      then have "x \<in> set t - set s'" using x s'(1) by simp
      then obtain r where r: "r \<in> set (GetDeps st)" "(x, r) \<in> (dep_edges eps)\<^sup>*"
        using v4 by blast
      have "x \<in> set (keys eps)" using x v1(2) by blast
      then have "r \<in> set (keys eps)" by (rule dep_edges_rtrancl_keys [OF r(2)])
      then have "(r, entry) \<in> dep_edges eps" using edge r(1) by blast
      with r(2) show ?thesis by (rule rtrancl_into_rtrancl)
    qed simp
    have "visited_ok eps {entry} s t"
      unfolding visited_ok_def
    proof (intro conjI)
      show "set s \<subseteq> set t" "{entry} \<inter> set (keys eps) \<subseteq> set t" using v1(1) s'(1) by auto
      show "distinct s \<longrightarrow> distinct t" using v1(3) s'(2) by blast
      show "\<forall>x\<in>set t - set s. \<exists>r\<in>{entry}. (x, r) \<in> (dep_edges eps)\<^sup>*" using re by blast
    qed (fact v1(2) cl)+
    moreover have "recursiveGetRunSteps (Suc n) eps entry s = Inr t"
      using t st new by (simp add: s'_def)
    ultimately show ?thesis by blast
  qed
qed simp

lemma card_keys_le: "card (set (keys eps) - set s) < Suc (length eps)"
proof -
  have "card (set (keys eps) - set s) \<le> card (set (keys eps))" by (intro card_mono) auto
  also have "\<dots> \<le> length (keys eps)" by (rule card_length)
  finally show ?thesis by simp
qed

lemma getRunSteps_ok: "\<exists>s. getRunSteps eps entry = Inr s \<and> set s \<subseteq> set (keys eps)"
proof (cases "entry = ''''")
  case False
  have "\<exists>t. recursiveGetRunSteps (Suc (length eps)) eps entry [] = Inr t \<and> visited_ok eps {entry} [] t"
    by (rule visit_ok [OF _ card_keys_le]) simp
  with False show ?thesis unfolding getRunSteps_def using visited_ok_subset by fastforce
qed (simp add: getRunSteps_def)

lemma getRunSteps_start:
  obtains t where "recursiveGetRunSteps (Suc (length eps)) eps entry [] = Inr t" "set t \<subseteq> set (keys eps)"
    "distinct t" "entry \<in> set (keys eps) \<Longrightarrow> entry \<in> set t"
    "\<And>x d. x \<in> set t \<Longrightarrow> (d, x) \<in> dep_edges eps \<Longrightarrow> d \<in> set t"
    "\<And>x. x \<in> set t \<Longrightarrow> (x, entry) \<in> (dep_edges eps)\<^sup>*"
proof -
  have "\<exists>t. recursiveGetRunSteps (Suc (length eps)) eps entry [] = Inr t \<and> visited_ok eps {entry} [] t"
    by (rule visit_ok [OF _ card_keys_le]) simp
  then obtain t where t: "recursiveGetRunSteps (Suc (length eps)) eps entry [] = Inr t"
    and v: "visited_ok eps {entry} [] t" by (elim exE conjE)
  show ?thesis
  proof (rule that [OF t])
    show "set t \<subseteq> set (keys eps)" "distinct t" using v by (simp_all add: visited_ok_def)
    show "entry \<in> set (keys eps) \<Longrightarrow> entry \<in> set t" using v by (simp add: visited_ok_def)
    show "x \<in> set t \<Longrightarrow> (d, x) \<in> dep_edges eps \<Longrightarrow> d \<in> set t" for x d
      using v by (simp add: visited_ok_def)
    show "x \<in> set t \<Longrightarrow> (x, entry) \<in> (dep_edges eps)\<^sup>*" for x
      using v by (simp add: visited_ok_def)
  qed
qed

lemma getRunSteps_reach:
  assumes "entry \<noteq> ''''" and "mget eps entry \<noteq> None"
  shows "\<exists>s. getRunSteps eps entry = Inr s \<and> distinct s \<and> set s = {x. (x, entry) \<in> (dep_edges eps)\<^sup>*}"
proof -
  obtain t where t: "recursiveGetRunSteps (Suc (length eps)) eps entry [] = Inr t" "distinct t"
    and e: "entry \<in> set (keys eps) \<Longrightarrow> entry \<in> set t"
    and cl: "\<And>x d. x \<in> set t \<Longrightarrow> (d, x) \<in> dep_edges eps \<Longrightarrow> d \<in> set t"
    and re: "\<And>x. x \<in> set t \<Longrightarrow> (x, entry) \<in> (dep_edges eps)\<^sup>*"
    by (rule getRunSteps_start [of eps entry]) (rule that)
  have "entry \<in> set (keys eps)" using assms(2) by (simp only: mget_None not_not)
  then have in_t: "entry \<in> set t" by (rule e)
  have "x \<in> set t" if "(x, entry) \<in> (dep_edges eps)\<^sup>*" for x
    using that by (induction rule: converse_rtrancl_induct) (blast intro: cl in_t)+
  with re have "set t = {x. (x, entry) \<in> (dep_edges eps)\<^sup>*}" by blast
  with t assms(1) show ?thesis by (simp add: getRunSteps_def)
qed

text \<open>The selection is closed: a known dependency of a selected step is selected.\<close>

lemma getRunSteps_closed:
  assumes "getRunSteps eps entry = Inr s" and "x \<in> set s" and "(d, x) \<in> dep_edges eps"
  shows "d \<in> set s"
proof (cases "entry = ''''")
  case True
  then show ?thesis using assms by (auto simp: getRunSteps_def dep_edges_def)
next
  case False
  obtain t where t: "recursiveGetRunSteps (Suc (length eps)) eps entry [] = Inr t"
    and cl: "\<And>x d. x \<in> set t \<Longrightarrow> (d, x) \<in> dep_edges eps \<Longrightarrow> d \<in> set t"
    by (rule getRunSteps_start [of eps entry]) (rule that)
  have "s = t" using assms(1) t False by (simp add: getRunSteps_def)
  with cl assms(2,3) show ?thesis by blast
qed

section \<open>Properties\<close>

text \<open>
  C29: \<open>topologicalSort\<close> accepts a set of steps exactly when the known dependencies among them form
  no cycle, whatever the order in which Go visits its map; the error is returned otherwise, and
  the sweeps always end.
\<close>

theorem topologicalSort_iff_acyclic:
  assumes "wf_map entrypoints" and "is_order ord"
  shows "(\<exists>s. topologicalSort ord entrypoints = Inr s) \<longleftrightarrow> acyclic (dep_edges entrypoints)"
proof (cases "topologicalSort ord entrypoints")
  case (Inl e)
  then show ?thesis using topo_Inl_cyclic [OF assms Inl] by simp
next
  case (Inr s)
  then show ?thesis using topo_Inr_acyclic [OF assms(1) Inr] by simp
qed

definition demo_step :: "string \<Rightarrow> wf_step" where
  "demo_step deps =
     \<lparr>Parameters = [], Command = ''run'', Deps = deps,
      Artifacts = \<lparr>Input = [], Output = []\<rparr>, Env = [], StepImage = ''''\<rparr>"

definition demo_graph :: "wf_step gomap" where
  "demo_graph =
     [(''train'', demo_step ''data, prep''), (''prep'', demo_step ''data''), (''data'', demo_step ''''),
      (''other'', demo_step '''')]"

definition demo_cycle :: "wf_step gomap" where
  "demo_cycle = [(''a'', demo_step ''b''), (''b'', demo_step '' a ''), (''c'', demo_step '''')]"

lemma is_order_id: "is_order (\<lambda>k xs. xs)"
  by (simp add: is_order_def)

lemma topologicalSort_iff_acyclic_witness:
  "acyclic (dep_edges demo_graph) \<and> \<not> acyclic (dep_edges demo_cycle)"
proof -
  have "wf_map demo_graph" "wf_map demo_cycle" by code_simp+
  note iff = this [THEN topologicalSort_iff_acyclic, OF is_order_id]
  have "topologicalSort (\<lambda>k xs. xs) demo_graph = Inr [''data'', ''other'', ''prep'', ''train'']"
    by code_simp
  moreover have "topologicalSort (\<lambda>k xs. xs) demo_cycle = Inl NotAcyclic" by code_simp
  ultimately show ?thesis using iff by simp
qed

text \<open>
  A list that \<open>topologicalSort\<close> returns holds every step that takes part in the sort exactly
  once, and each step comes after all of its dependencies that take part.
\<close>

theorem topologicalSort_sorted:
  assumes "wf_map entrypoints" and "topologicalSort ord entrypoints = Inr s"
  shows "distinct s \<and> set s = sortable entrypoints \<and>
     (\<forall>i<length s. \<forall>d. (d, s ! i) \<in> dep_edges entrypoints \<longrightarrow> d \<in> sortable entrypoints \<longrightarrow>
        d \<in> set (take i s))"
  using topo_sound [OF assms] by (auto simp: dep_edges_def)

lemma topologicalSort_sorted_witness:
  "''data'' \<in> set (take 2 [''data'', ''other'', ''prep'', ''train''])"
proof -
  have m: "wf_map demo_graph" by code_simp
  have s: "topologicalSort (\<lambda>k xs. xs) demo_graph = Inr [''data'', ''other'', ''prep'', ''train'']"
    by code_simp
  have g: "mget demo_graph ''prep'' = Some (demo_step ''data'')" "mget demo_graph ''data'' = Some (demo_step '''')"
    "GetDeps (demo_step ''data'') = [''data'']" "Deps (demo_step '''') = ''''" by code_simp+
  then have e: "(''data'', ''prep'') \<in> dep_edges demo_graph"
    using mget_in_keys [OF g(2)] by (simp add: dep_edges_def)
  have so: "''data'' \<in> sortable demo_graph" using g by (simp add: sortable_def)
  show ?thesis
    using topologicalSort_sorted [OF m s] e so by simp
qed

text \<open>
  A step whose \<open>deps\<close> text is not empty but names no step (a lone comma) is left out of the sorted
  list: the workflow is accepted and the step never runs.
\<close>

theorem topologicalSort_drops_nameless_deps:
  assumes "wf_map entrypoints" and "mget entrypoints n = Some st"
    and "Deps st \<noteq> ''''" and "GetDeps st = []" and "topologicalSort ord entrypoints = Inr s"
  shows "n \<notin> set s"
  using topo_sound(2) [OF assms(1,5)] assms(2-4) by (auto simp: sortable_def)

lemma topologicalSort_drops_nameless_deps_witness:
  "topologicalSort (\<lambda>k xs. xs) [(''a'', demo_step '',''), (''b'', demo_step '''')] = Inr [''b''] \<and>
   ''a'' \<notin> set [''b'']"
proof -
  let ?e = "[(''a'', demo_step '',''), (''b'', demo_step '''')]"
  have s: "topologicalSort (\<lambda>k xs. xs) ?e = Inr [''b'']" by code_simp
  have "wf_map ?e" "mget ?e ''a'' = Some (demo_step '','')" by (simp_all add: wf_map_def)
  moreover have "Deps (demo_step '','') \<noteq> ''''" by code_simp
  moreover have "GetDeps (demo_step '','') = []" by code_simp
  ultimately show ?thesis using topologicalSort_drops_nameless_deps [OF _ _ _ _ s] s by blast
qed

text \<open>
  C30: With an entry, \<open>getRunSteps\<close> selects exactly the steps the entry depends on, directly or not
  (itself included), each once; the recursion returns also on a cyclic graph.
\<close>

theorem getRunSteps_reachable:
  assumes "entry \<noteq> ''''" and "mget entrypoints entry \<noteq> None"
  shows "\<exists>s. getRunSteps entrypoints entry = Inr s \<and> distinct s \<and>
     set s = {x. (x, entry) \<in> (dep_edges entrypoints)\<^sup>*}"
  using assms by (rule getRunSteps_reach)

lemma getRunSteps_reachable_witness:
  "{x. (x, ''prep'') \<in> (dep_edges demo_graph)\<^sup>*} = {''prep'', ''data''} \<and>
   {x. (x, ''a'') \<in> (dep_edges demo_cycle)\<^sup>*} = {''a'', ''b''}"
proof -
  have 1: "getRunSteps demo_graph ''prep'' = Inr [''prep'', ''data'']"
    "getRunSteps demo_cycle ''a'' = Inr [''a'', ''b'']" by code_simp+
  have 2: "mget demo_graph ''prep'' \<noteq> None" "mget demo_cycle ''a'' \<noteq> None" by code_simp+
  show ?thesis
    using getRunSteps_reachable [OF _ 2(1)] getRunSteps_reachable [OF _ 2(2)] 1 by auto
qed

end
