(* ===== verification/PF_Models.thy ===== *)
theory PF_Models
  imports PF_Schema
begin

text \<open>
  The database layer (\<open>pkg/apiserver/models\<close>): the tables \<open>grant\<close>, \<open>queue\<close>, \<open>user\<close> and \<open>job\<close>, and
  the functions of the models package that read and write them. A table is the list of its live
  rows in the order of insertion, so by primary key; a gorm chain is the query its text states (\<open>Where\<close> is a filter,
  \<open>First\<close> and \<open>Last\<close> the first and last match by key, \<open>Find\<close> all in the order of \<open>scan\<close>, \<open>Count\<close> a length, \<open>Limit\<close> a prefix). The database is
  a service: every call may fail, and which ones do is the argument \<open>flt\<close>. A failed call changes
  nothing. Soft deletion (\<open>deleted_at\<close>) hides a row from every query, so a soft-deleted row is
  simply no longer in the list.
\<close>

section \<open>Rows and tables\<close>

type_synonym timestamp = int

record grant_row =
  GrPk :: int
  GrID :: string
  GrUserName :: string
  GrResourceType :: string
  GrResourceID :: string

record queue_row =
  QPk :: int
  QNamespace :: string
  QClusterName :: string
  QName :: string
  QCpu :: string
  QMem :: string
  QScalar :: "string gomap"
  QStatus :: string

record user_row =
  UPk :: int
  UName :: string
  UPassword :: string

record conf =
  ConfName :: string
  ConfEnv :: "string gomap"
  ConfCommand :: string
  ConfImage :: string

record job_row =
  JrID :: string
  JrUserName :: string
  JrType :: string
  JrConfig :: conf
  JrRuntimeInfo :: "string option"
  JrStatus :: job_status
  JrMessage :: string
  JrCreatedAt :: timestamp
  JrActivatedAt :: "timestamp option"
  JrUpdatedAt :: timestamp

record db =
  tGrant :: "grant_row list"
  tQueue :: "queue_row list"
  tUser :: "user_row list"
  tJob :: "job_row list"
  nGrant :: int
  nQueue :: int
  nUser :: int
  dbScan :: "int list"

datatype db_call =
    DbCreateGrant | DbDeleteGrant | DbGetGrant | DbCountGrant | DbDeleteUserGrants | DbDeleteResGrants
  | DbListGrant | DbLastGrant
  | DbGetCluster | DbCreateQueue | DbQueueStatus | DbCloseQueue | DbDeleteQueue | DbDeleteQueueGrants
  | DbCountQueue | DbGetQueue | DbListQueue | DbLastQueue
  | DbCreateUser | DbUpdateUser | DbDeleteUser | DbGetUser | DbListUser | DbLastUser
  | DbGetJob | DbSaveJob | DbCreateJob | DbDeleteJob

type_synonym faults = "db_call \<Rightarrow> bool"

datatype db_error = RecordNotFound | DbFailure | DuplicateKey | InvalidQueueStatus string string

text \<open>A key of an exhausted \<open>bigint\<close> counter cannot be inserted.\<close>

definition next_pk :: "int \<Rightarrow> db_error + int" where
  "next_pk n = (if n + 1 < 2 ^ 63 then Inr (n + 1) else Inl DbFailure)"

lemma next_pk_Inr: "next_pk n = Inr pk \<Longrightarrow> pk = n + 1 \<and> pk < 2 ^ 63"
  by (auto simp: next_pk_def split: if_splits)

text \<open>The first row that matches, as \<open>First(&row)\<close> answers, and the last one.\<close>

definition first_row :: "('r \<Rightarrow> bool) \<Rightarrow> 'r list \<Rightarrow> db_error + 'r" where
  "first_row P rows = (case List.find P rows of None \<Rightarrow> Inl RecordNotFound | Some r \<Rightarrow> Inr r)"

definition last_row :: "('r \<Rightarrow> bool) \<Rightarrow> 'r list \<Rightarrow> db_error + 'r" where
  "last_row P rows = first_row P (rev rows)"

text \<open>Without \<open>Order\<close> the data base answers in an order of its own: \<open>ks\<close> are the keys of the rows that it puts in front, in that
  order; the others follow by key.\<close>

definition place :: "int list \<Rightarrow> int \<Rightarrow> nat" where
  "place ks k = length (takeWhile (\<lambda>x. x \<noteq> k) ks)"

definition scan :: "int list \<Rightarrow> ('r \<Rightarrow> int) \<Rightarrow> 'r list \<Rightarrow> 'r list" where
  "scan ks pk rows = sort_key (\<lambda>r. place ks (pk r)) rows"

definition in_key_order :: "int list \<Rightarrow> bool" where
  "in_key_order ks = (ks = [])"

lemma scan_in_order: "in_key_order ks \<Longrightarrow> scan ks pk rows = rows"
  unfolding scan_def in_key_order_def place_def by (rule sort_key_id_if_sorted) (simp add: sorted_iff_nth_mono)

definition limit_rows :: "int \<Rightarrow> 'r list \<Rightarrow> 'r list" where
  "limit_rows maxKeys rows = (if maxKeys > 0 then take (nat maxKeys) rows else rows)"

lemma first_row_Inr: "first_row P rows = Inr r \<Longrightarrow> r \<in> set rows \<and> P r"
  by (auto simp: first_row_def find_Some_iff split: option.splits)

lemma first_row_Inl: "first_row P rows = Inl e \<longleftrightarrow> e = RecordNotFound \<and> (\<forall>r\<in>set rows. \<not> P r)"
  by (auto simp: first_row_def split: option.splits) (metis find_None_iff option.distinct(1))+

lemma limit_rows_length: "maxKeys > 0 \<Longrightarrow> length (limit_rows maxKeys rows) \<le> nat maxKeys"
  by (simp add: limit_rows_def)

lemma limit_rows_set: "set (limit_rows maxKeys rows) \<subseteq> set rows"
  by (auto simp: limit_rows_def dest: in_set_takeD)

section \<open>Grants (models/grant.go)\<close>

definition grant_matches :: "string \<Rightarrow> string \<Rightarrow> string \<Rightarrow> grant_row \<Rightarrow> bool" where
  "grant_matches userName resourceType resourceID g =
     (GrUserName g = userName \<and> GrResourceType g = resourceType \<and> GrResourceID g = resourceID)"

definition CreateGrant :: "faults \<Rightarrow> grant_row \<Rightarrow> db \<Rightarrow> db_error + db" where
  "CreateGrant flt grant d =
     (if flt DbCreateGrant then Inl DbFailure
      else if GrID grant \<in> GrID ` set (tGrant d) then Inl DuplicateKey
      else bindE (next_pk (nGrant d)) (\<lambda>pk.
             Inr (d\<lparr>tGrant := tGrant d @ [grant\<lparr>GrPk := pk\<rparr>], nGrant := pk\<rparr>)))"

definition DeleteGrant :: "faults \<Rightarrow> string \<Rightarrow> string \<Rightarrow> string \<Rightarrow> db \<Rightarrow> db_error + db" where
  "DeleteGrant flt userName resourceType resourceID d =
     (if flt DbDeleteGrant then Inl DbFailure
      else Inr (d\<lparr>tGrant := filter (\<lambda>g. \<not> grant_matches userName resourceType resourceID g) (tGrant d)\<rparr>))"

definition GetGrant :: "faults \<Rightarrow> string \<Rightarrow> string \<Rightarrow> string \<Rightarrow> db \<Rightarrow> db_error + grant_row" where
  "GetGrant flt userName resourceType resourceID d =
     (if flt DbGetGrant then Inl DbFailure
      else first_row (grant_matches userName resourceType resourceID) (tGrant d))"

definition HasAccessToResource :: "faults \<Rightarrow> string \<Rightarrow> string \<Rightarrow> string \<Rightarrow> db \<Rightarrow> bool" where
  "HasAccessToResource flt ctxUser resourceType resourceID d =
     (if IsRootUser ctxUser then True
      else if flt DbCountGrant then False
      else length (filter (grant_matches ctxUser resourceType resourceID) (tGrant d)) > 0)"

definition DeleteGrantByUserName :: "faults \<Rightarrow> string \<Rightarrow> db \<Rightarrow> db_error + db" where
  "DeleteGrantByUserName flt userName d =
     (if flt DbDeleteUserGrants then Inl DbFailure
      else Inr (d\<lparr>tGrant := filter (\<lambda>g. GrUserName g \<noteq> userName) (tGrant d)\<rparr>))"

definition DeleteGrantByResourceID :: "faults \<Rightarrow> string \<Rightarrow> db \<Rightarrow> db_error + db" where
  "DeleteGrantByResourceID flt resourceID d =
     (if flt DbDeleteResGrants then Inl DbFailure
      else Inr (d\<lparr>tGrant := filter (\<lambda>g. GrResourceID g \<noteq> resourceID) (tGrant d)\<rparr>))"

definition model_ListGrant :: "faults \<Rightarrow> int \<Rightarrow> int \<Rightarrow> string \<Rightarrow> db \<Rightarrow> db_error + grant_row list" where
  "model_ListGrant flt pk maxKeys userName d =
     (if flt DbListGrant then Inl DbFailure
      else Inr (limit_rows maxKeys (scan (dbScan d) GrPk
        (filter (\<lambda>g. pk < GrPk g \<and> (userName = '''' \<or> GrUserName g = userName)) (tGrant d)))))"

definition GetLastGrant :: "faults \<Rightarrow> db \<Rightarrow> db_error + grant_row" where
  "GetLastGrant flt d = (if flt DbLastGrant then Inl DbFailure else last_row (\<lambda>_. True) (tGrant d))"

section \<open>Queues (models/queue.go)\<close>

definition ResourceTypeQueue :: string where "ResourceTypeQueue = ''queue''"
definition ResourceTypeFs :: string where "ResourceTypeFs = ''fs''"

definition GetQueueByName :: "faults \<Rightarrow> string \<Rightarrow> db \<Rightarrow> db_error + queue_row" where
  "GetQueueByName flt queueName d =
     (if flt DbGetQueue then Inl DbFailure else first_row (\<lambda>q. QName q = queueName) (tQueue d))"

definition IsQueueExist :: "faults \<Rightarrow> string \<Rightarrow> db \<Rightarrow> bool" where
  "IsQueueExist flt queueName d =
     (if flt DbCountQueue then False
      else length (filter (\<lambda>q. QName q = queueName) (tQueue d)) > 0)"

definition model_CreateQueue :: "faults \<Rightarrow> (string \<Rightarrow> bool) \<Rightarrow> queue_row \<Rightarrow> db \<Rightarrow> db_error + db" where
  "model_CreateQueue flt clusterExists queue d =
     (if QClusterName queue \<noteq> '''' \<and> flt DbGetCluster then Inl DbFailure
      else if QClusterName queue \<noteq> '''' \<and> \<not> clusterExists (QClusterName queue) then Inl RecordNotFound
      else if flt DbCreateQueue then Inl DbFailure
      else if QName queue \<in> QName ` set (tQueue d) then Inl DuplicateKey
      else bindE (next_pk (nQueue d)) (\<lambda>pk.
             Inr (d\<lparr>tQueue := tQueue d @ [queue\<lparr>QPk := pk\<rparr>], nQueue := pk\<rparr>)))"

definition set_queue_status :: "string \<Rightarrow> string \<Rightarrow> db \<Rightarrow> db" where
  "set_queue_status queueName st d =
     d\<lparr>tQueue := map (\<lambda>q. if QName q = queueName then q\<lparr>QStatus := st\<rparr> else q) (tQueue d)\<rparr>"

definition UpdateQueueStatus :: "faults \<Rightarrow> string \<Rightarrow> string \<Rightarrow> db \<Rightarrow> db_error + db" where
  "UpdateQueueStatus flt queueName queueStatus d =
     (if \<not> IsValidQueueStatus queueStatus then Inl (InvalidQueueStatus queueName queueStatus)
      else if flt DbQueueStatus then Inl DbFailure
      else Inr (set_queue_status queueName (to_lower queueStatus) d))"

definition model_CloseQueue :: "faults \<Rightarrow> string \<Rightarrow> db \<Rightarrow> db_error + db" where
  "model_CloseQueue flt queueName d =
     (if flt DbCloseQueue then Inl DbFailure else Inr (set_queue_status queueName StatusQueueClosed d))"

text \<open>The error of the transaction is dropped: the caller always sees success. A failure of either
  deletion rolls back both.\<close>

definition model_DeleteQueue :: "faults \<Rightarrow> string \<Rightarrow> db \<Rightarrow> db_error + db" where
  "model_DeleteQueue flt queueName d =
     (if flt DbDeleteQueue \<or> flt DbDeleteQueueGrants then Inr d
      else Inr (d\<lparr>tQueue := filter (\<lambda>q. QName q \<noteq> queueName) (tQueue d),
                 tGrant := filter (\<lambda>g. \<not> (GrResourceID g = queueName \<and> GrResourceType g = ResourceTypeQueue))
                             (tGrant d)\<rparr>))"

text \<open>\<open>strings.EqualFold(queueName, "")\<close> holds of the empty string only.\<close>

definition model_ListQueue :: "faults \<Rightarrow> string \<Rightarrow> int \<Rightarrow> int \<Rightarrow> string \<Rightarrow> db \<Rightarrow> db_error + queue_row list" where
  "model_ListQueue flt ctxUser pk maxKeys queueName d =
     (if flt DbListQueue then Inl DbFailure
      else let rows = (if \<not> IsRootUser ctxUser
                       then concat (map (\<lambda>q. map (\<lambda>g. q)
                              (filter (\<lambda>g. GrResourceID g = QName q \<and> GrUserName g = ctxUser) (tGrant d)))
                              (tQueue d))
                       else tQueue d);
               named = filter (\<lambda>q. pk < QPk q \<and> (equal_fold queueName '''' \<or> QName q = queueName)) rows
           in Inr (limit_rows maxKeys (scan (dbScan d) QPk named)))"

definition GetLastQueue :: "faults \<Rightarrow> db \<Rightarrow> db_error + queue_row" where
  "GetLastQueue flt d = (if flt DbLastQueue then Inl DbFailure else last_row (\<lambda>_. True) (tQueue d))"

section \<open>Users (models/user.go)\<close>

definition ROOT :: string where "ROOT = ''root''"

definition model_CreateUser :: "faults \<Rightarrow> user_row \<Rightarrow> db \<Rightarrow> db_error + db" where
  "model_CreateUser flt user d =
     (if flt DbCreateUser then Inl DbFailure
      else if UName user \<in> UName ` set (tUser d) then Inl DuplicateKey
      else bindE (next_pk (nUser d)) (\<lambda>pk.
             Inr (d\<lparr>tUser := tUser d @ [user\<lparr>UPk := pk\<rparr>], nUser := pk\<rparr>)))"

definition model_UpdateUser :: "faults \<Rightarrow> string \<Rightarrow> string \<Rightarrow> db \<Rightarrow> db_error + db" where
  "model_UpdateUser flt userName password d =
     (if flt DbUpdateUser then Inl DbFailure
      else Inr (d\<lparr>tUser := map (\<lambda>u. if UName u = userName then u\<lparr>UPassword := password\<rparr> else u) (tUser d)\<rparr>))"

definition model_ListUser :: "faults \<Rightarrow> int \<Rightarrow> int \<Rightarrow> db \<Rightarrow> db_error + user_row list" where
  "model_ListUser flt pk maxKey d =
     (if flt DbListUser then Inl DbFailure
      else Inr (limit_rows maxKey (scan (dbScan d) UPk (filter (\<lambda>u. UName u \<noteq> ROOT \<and> pk < UPk u) (tUser d)))))"

definition model_DeleteUser :: "faults \<Rightarrow> string \<Rightarrow> db \<Rightarrow> db_error + db" where
  "model_DeleteUser flt userName d =
     (if flt DbDeleteUser then Inl DbFailure
      else Inr (d\<lparr>tUser := filter (\<lambda>u. UName u \<noteq> userName) (tUser d)\<rparr>))"

definition model_GetUserByName :: "faults \<Rightarrow> string \<Rightarrow> db \<Rightarrow> db_error + user_row" where
  "model_GetUserByName flt userName d =
     (if flt DbGetUser then Inl DbFailure else first_row (\<lambda>u. UName u = userName) (tUser d))"

definition GetLastUser :: "faults \<Rightarrow> db \<Rightarrow> db_error + user_row" where
  "GetLastUser flt d = (if flt DbLastUser then Inl DbFailure else last_row (\<lambda>_. True) (tUser d))"

section \<open>Facts about access\<close>

lemma HasAccess_grant:
  assumes "\<not> flt DbCountGrant" and "\<not> IsRootUser u"
  shows "HasAccessToResource flt u rt rid d \<longleftrightarrow> (\<exists>g\<in>set (tGrant d). grant_matches u rt rid g)"
  using assms by (auto simp: HasAccessToResource_def filter_empty_conv)

lemma HasAccess_root [simp]: "IsRootUser u \<Longrightarrow> HasAccessToResource flt u rt rid d"
  by (simp add: HasAccessToResource_def)

lemma CreateGrant_access:
  assumes "CreateGrant flt g d = Inr d'" and "\<not> flt DbCountGrant" and "\<not> IsRootUser u"
  shows "HasAccessToResource flt u rt rid d' \<longleftrightarrow>
     HasAccessToResource flt u rt rid d \<or> grant_matches u rt rid g"
  using assms by (auto simp: CreateGrant_def HasAccess_grant grant_matches_def bindE_eq_Inr split: if_splits)

lemma DeleteGrant_access:
  assumes "DeleteGrant flt u rt rid d = Inr d'" and "\<not> flt DbCountGrant" and "\<not> IsRootUser v"
  shows "HasAccessToResource flt v rt' rid' d' \<longleftrightarrow>
     HasAccessToResource flt v rt' rid' d \<and> (v, rt', rid') \<noteq> (u, rt, rid)"
  using assms by (auto simp: DeleteGrant_def HasAccess_grant grant_matches_def split: if_splits)

lemma DeleteQueue_access:
  assumes "model_DeleteQueue flt q d = Inr d'" and "\<not> flt DbDeleteQueue" and "\<not> flt DbDeleteQueueGrants"
    and "\<not> flt DbCountGrant" and "\<not> IsRootUser v"
  shows "\<not> HasAccessToResource flt v ResourceTypeQueue q d'"
    and "\<not> IsQueueExist flt q d'"
  using assms by (auto simp: model_DeleteQueue_def HasAccess_grant grant_matches_def IsQueueExist_def
      filter_empty_conv)

end
