(* ===== verification/PF_JobConf.thy ===== *)
theory PF_JobConf
  imports PF_Models
begin

text \<open>
  The job service of \<open>pkg/job/job.go\<close>, first part: the validation of a job configuration, the
  resource check that completes it, and the operations on the job table. Configuration values
  travel in the environment map \<open>Env\<close> of \<open>models.Conf\<close>. The flavours come from the server
  configuration (argument \<open>fm\<close>), the file-system service is the argument \<open>fss\<close>.
\<close>

section \<open>Environment keys (pkg/common/schema/job.go)\<close>

abbreviation EnvJobType :: string where "EnvJobType \<equiv> ''PF_JOB_TYPE''"
abbreviation EnvJobQueueName :: string where "EnvJobQueueName \<equiv> ''PF_JOB_QUEUE_NAME''"
abbreviation EnvJobNamespace :: string where "EnvJobNamespace \<equiv> ''PF_JOB_NAMESPACE''"
abbreviation EnvJobUserName :: string where "EnvJobUserName \<equiv> ''PF_USER_NAME''"
abbreviation EnvJobFsID :: string where "EnvJobFsID \<equiv> ''PF_FS_ID''"
abbreviation EnvJobPVCName :: string where "EnvJobPVCName \<equiv> ''PF_JOB_PVC_NAME''"
abbreviation EnvJobPriority :: string where "EnvJobPriority \<equiv> ''PF_JOB_PRIORITY''"
abbreviation EnvJobMode :: string where "EnvJobMode \<equiv> ''PF_JOB_MODE''"
abbreviation EnvJobYamlPath :: string where "EnvJobYamlPath \<equiv> ''PF_JOB_YAML_PATH''"
abbreviation EnvJobPSPort :: string where "EnvJobPSPort \<equiv> ''PF_JOB_PS_PORT''"
abbreviation EnvJobPServerReplicas :: string where "EnvJobPServerReplicas \<equiv> ''PF_JOB_PSERVER_REPLICAS''"
abbreviation EnvJobPServerFlavour :: string where "EnvJobPServerFlavour \<equiv> ''PF_JOB_PSERVER_FLAVOUR''"
abbreviation EnvJobPServerCommand :: string where "EnvJobPServerCommand \<equiv> ''PF_JOB_PSERVER_COMMAND''"
abbreviation EnvJobWorkerReplicas :: string where "EnvJobWorkerReplicas \<equiv> ''PF_JOB_WORKER_REPLICAS''"
abbreviation EnvJobWorkerFlavour :: string where "EnvJobWorkerFlavour \<equiv> ''PF_JOB_WORKER_FLAVOUR''"
abbreviation EnvJobWorkerCommand :: string where "EnvJobWorkerCommand \<equiv> ''PF_JOB_WORKER_COMMAND''"
abbreviation EnvJobReplicas :: string where "EnvJobReplicas \<equiv> ''PF_JOB_REPLICAS''"
abbreviation EnvJobFlavour :: string where "EnvJobFlavour \<equiv> ''PF_JOB_FLAVOUR''"
abbreviation EnvJobSparkMainFile :: string where "EnvJobSparkMainFile \<equiv> ''PF_JOB_SPARK_MAIN_FILE''"
abbreviation EnvJobSparkMainClass :: string where "EnvJobSparkMainClass \<equiv> ''PF_JOB_SPARK_MAIN_CLASS''"
abbreviation EnvJobSparkArguments :: string where "EnvJobSparkArguments \<equiv> ''PF_JOB_SPARK_ARGUMENTS''"
abbreviation EnvJobDriverFlavour :: string where "EnvJobDriverFlavour \<equiv> ''PF_JOB_DRIVER_FLAVOUR''"
abbreviation EnvJobExecutorReplicas :: string where "EnvJobExecutorReplicas \<equiv> ''PF_JOB_EXECUTOR_REPLICAS''"
abbreviation EnvJobExecutorFlavour :: string where "EnvJobExecutorFlavour \<equiv> ''PF_JOB_EXECUTOR_FLAVOUR''"
abbreviation EnvJobModePS :: string where "EnvJobModePS \<equiv> ''PS''"
abbreviation EnvJobModeCollective :: string where "EnvJobModeCollective \<equiv> ''Collective''"
abbreviation EnvJobModePod :: string where "EnvJobModePod \<equiv> ''Pod''"
abbreviation TypeVcJob :: string where "TypeVcJob \<equiv> ''vcjob''"
abbreviation TypeSparkJob :: string where "TypeSparkJob \<equiv> ''spark''"
abbreviation EnvJobVeryLowPriority :: string where "EnvJobVeryLowPriority \<equiv> ''VERY_LOW''"
abbreviation EnvJobLowPriority :: string where "EnvJobLowPriority \<equiv> ''LOW''"
abbreviation EnvJobNormalPriority :: string where "EnvJobNormalPriority \<equiv> ''NORMAL''"
abbreviation EnvJobHighPriority :: string where "EnvJobHighPriority \<equiv> ''HIGH''"
abbreviation EnvJobVeryHighPriority :: string where "EnvJobVeryHighPriority \<equiv> ''VERY_HIGH''"

datatype job_error =
    EmptyJobNameError | EmptyJobImageError | EmptyUserNameError | EmptyQueueNameError
  | NoAccessError string string | EmptyFSIDError | EmptyJobTypeError | EmptyJobModeError
  | InvalidJobModeError string | InvalidJobTypeError string | EmptyJobCommandError
  | EmptyFlavourError | InvalidFlavourError string | AtoiError string | EmptySparkMainFileError
  | QueueNotExistError string | FsNotFoundError string | FsClaimError string
  | InvalidJobPriorityError string | JobIDNotFoundError string | JobDbError
  | UnSupportedOperate string | JobFileNotFound string | JobFileError string | JobYamlError string
  | SubmitError string | TaskShapeError string | NilJobType string | QuantityPanic string

section \<open>Validation\<close>

text \<open>\<open>conf.Env[k]\<close> with its \<open>found\<close> flag.\<close>

definition env_get :: "conf \<Rightarrow> string \<Rightarrow> string option" where
  "env_get c k = mget (ConfEnv c) k"

definition env_str :: "conf \<Rightarrow> string \<Rightarrow> string" where
  "env_str c k = mstr (ConfEnv c) k"

definition set_env_var :: "string \<Rightarrow> string \<Rightarrow> conf \<Rightarrow> conf" where
  "set_env_var k v c = c\<lparr>ConfEnv := mput k v (ConfEnv c)\<rparr>"

definition check_flavour :: "'f gomap \<Rightarrow> string option \<Rightarrow> job_error + unit" where
  "check_flavour fm flavourName =
     (case flavourName of
        None \<Rightarrow> Inl EmptyFlavourError
      | Some f \<Rightarrow> (case mget fm f of None \<Rightarrow> Inl (InvalidFlavourError f) | Some _ \<Rightarrow> Inr ()))"

definition check_replicas :: "string option \<Rightarrow> job_error + unit" where
  "check_replicas replicas =
     (case replicas of
        None \<Rightarrow> Inr ()
      | Some r \<Rightarrow> (case atoi r of None \<Rightarrow> Inl (AtoiError r) | Some _ \<Rightarrow> Inr ()))"

definition validatePodMode :: "'f gomap \<Rightarrow> conf \<Rightarrow> job_error + unit" where
  "validatePodMode fm c =
     (if length (ConfCommand c) = 0 then Inl EmptyJobCommandError
      else check_flavour fm (env_get c EnvJobFlavour))"

definition validatePSMode :: "'f gomap \<Rightarrow> conf \<Rightarrow> job_error + unit" where
  "validatePSMode fm c =
     (if length (env_str c EnvJobPServerCommand) = 0 \<or> length (env_str c EnvJobWorkerCommand) = 0
      then Inl EmptyJobCommandError
      else bindE (check_replicas (env_get c EnvJobPServerReplicas)) (\<lambda>_.
           bindE (check_flavour fm (env_get c EnvJobPServerFlavour)) (\<lambda>_.
           bindE (check_replicas (env_get c EnvJobWorkerReplicas)) (\<lambda>_.
           check_flavour fm (env_get c EnvJobWorkerFlavour)))))"

definition validateCollectiveMode :: "'f gomap \<Rightarrow> conf \<Rightarrow> job_error + unit" where
  "validateCollectiveMode fm c =
     (if length (ConfCommand c) = 0 then Inl EmptyJobCommandError
      else bindE (check_replicas (env_get c EnvJobReplicas)) (\<lambda>_.
           check_flavour fm (env_get c EnvJobFlavour)))"

definition validateSparkMode :: "'f gomap \<Rightarrow> conf \<Rightarrow> job_error + unit" where
  "validateSparkMode fm c =
     (if env_get c EnvJobSparkMainFile = None \<or> env_get c EnvJobSparkMainFile = Some ''''
      then Inl EmptySparkMainFileError
      else bindE (check_flavour fm (env_get c EnvJobDriverFlavour)) (\<lambda>_.
           bindE (check_flavour fm (env_get c EnvJobExecutorFlavour)) (\<lambda>_.
           check_replicas (env_get c EnvJobExecutorReplicas))))"

definition validate_mode :: "'f gomap \<Rightarrow> conf \<Rightarrow> job_error + unit" where
  "validate_mode fm c =
     (case env_get c EnvJobType of
        None \<Rightarrow> Inl EmptyJobTypeError
      | Some jobType \<Rightarrow>
          if jobType = TypeVcJob then
            (case env_get c EnvJobMode of
               None \<Rightarrow> Inl EmptyJobModeError
             | Some mode \<Rightarrow>
                 if mode = EnvJobModePod then validatePodMode fm c
                 else if mode = EnvJobModePS then validatePSMode fm c
                 else if mode = EnvJobModeCollective then validateCollectiveMode fm c
                 else Inl (InvalidJobModeError mode))
          else if jobType = TypeSparkJob then validateSparkMode fm c
          else Inl (InvalidJobTypeError jobType))"

definition ValidateJob :: "faults \<Rightarrow> 'f gomap \<Rightarrow> db \<Rightarrow> conf \<Rightarrow> job_error + unit" where
  "ValidateJob flt fm d c =
     (if length (ConfName c) = 0 then Inl EmptyJobNameError
      else if length (ConfImage c) = 0 then Inl EmptyJobImageError
      else if env_str c EnvJobUserName = '''' then Inl EmptyUserNameError
      else if env_str c EnvJobQueueName = '''' then Inl EmptyQueueNameError
      else if \<not> HasAccessToResource flt (env_str c EnvJobUserName) ResourceTypeQueue
                 (env_str c EnvJobQueueName) d
           then Inl (NoAccessError (env_str c EnvJobUserName) (env_str c EnvJobQueueName))
      else if env_str c EnvJobFsID = '''' then Inl EmptyFSIDError
      else validate_mode fm c)"

section \<open>Resource check\<close>

definition getNamespaceByQueueName :: "faults \<Rightarrow> db \<Rightarrow> string \<Rightarrow> job_error + string" where
  "getNamespaceByQueueName flt d queueName =
     (case GetQueueByName flt queueName d of
        Inl _ \<Rightarrow> Inl (QueueNotExistError queueName)
      | Inr queue \<Rightarrow> Inr (QNamespace queue))"

text \<open>The file-system service: the record of a file system (its type and properties), and the
  creation of claims in a namespace.\<close>

record fs_service =
  GetFsWithID :: "string \<Rightarrow> (string \<times> string gomap) option"
  CreateFileSystemClaims :: "string \<Rightarrow> string \<Rightarrow> bool"

definition createFSClaims :: "fs_service \<Rightarrow> string \<Rightarrow> string \<Rightarrow> job_error + string" where
  "createFSClaims fss namespace fsID =
     (case GetFsWithID fss fsID of
        None \<Rightarrow> Inl (FsNotFoundError fsID)
      | Some (ty, props) \<Rightarrow>
          if ty = ''mock'' then Inr (mstr props ''pvc'')
          else if CreateFileSystemClaims fss namespace fsID then Inr (''pfs-'' @ fsID @ ''-pvc'')
          else Inl (FsClaimError fsID))"

text \<open>The environment map is changed in place, also when a later check fails: the second component
  is the configuration the caller sees.\<close>

definition checkResource ::
  "faults \<Rightarrow> fs_service \<Rightarrow> db \<Rightarrow> conf \<Rightarrow> (job_error + unit) \<times> conf" where
  "checkResource flt fss d c =
     (case getNamespaceByQueueName flt d (env_str c EnvJobQueueName) of
        Inl e \<Rightarrow> (Inl e, c)
      | Inr namespace \<Rightarrow>
          let c1 = set_env_var EnvJobNamespace namespace c
          in case createFSClaims fss namespace (env_str c1 EnvJobFsID) of
               Inl e \<Rightarrow> (Inl e, c1)
             | Inr pvcName \<Rightarrow>
                 let c2 = set_env_var EnvJobPVCName pvcName c1
                 in case env_get c2 EnvJobPriority of
                      None \<Rightarrow> (Inr (), set_env_var EnvJobPriority EnvJobNormalPriority c2)
                    | Some priority \<Rightarrow>
                        if priority \<noteq> EnvJobLowPriority \<and> priority \<noteq> EnvJobNormalPriority \<and>
                           priority \<noteq> EnvJobHighPriority
                        then (Inl (InvalidJobPriorityError priority), c2)
                        else (Inr (), c2))"

definition getPriorityClass :: "string \<Rightarrow> string" where
  "getPriorityClass priority =
     (if priority = EnvJobVeryLowPriority then ''very-low''
      else if priority = EnvJobLowPriority then ''low''
      else if priority = EnvJobNormalPriority then ''normal''
      else if priority = EnvJobHighPriority then ''high''
      else if priority = EnvJobVeryHighPriority then ''very-high''
      else ''normal'')"

section \<open>The job table\<close>

definition GetJobByID :: "faults \<Rightarrow> string \<Rightarrow> db \<Rightarrow> db_error + job_row" where
  "GetJobByID flt jobID d =
     (if flt DbGetJob then Inl DbFailure else first_row (\<lambda>j. JrID j = jobID) (tJob d))"

definition GetJobStatusByID :: "faults \<Rightarrow> string \<Rightarrow> db \<Rightarrow> job_error + job_status" where
  "GetJobStatusByID flt jobID d =
     (case GetJobByID flt jobID d of
        Inl _ \<Rightarrow> Inl (JobIDNotFoundError jobID)
      | Inr job \<Rightarrow> Inr (JrStatus job))"

definition IsImmutableJobStatus :: "job_status \<Rightarrow> bool" where
  "IsImmutableJobStatus status =
     (status = StatusJobSucceeded \<or> status = StatusJobFailed \<or> status = StatusJobTerminated)"

definition save_job :: "string \<Rightarrow> job_row \<Rightarrow> db \<Rightarrow> db" where
  "save_job jobID job d = d\<lparr>tJob := map (\<lambda>j. if JrID j = jobID then job else j) (tJob d)\<rparr>"

definition updated_job ::
  "timestamp \<Rightarrow> job_status \<Rightarrow> string option \<Rightarrow> string \<Rightarrow> job_row \<Rightarrow> job_row" where
  "updated_job now status info message job =
     (let j1 = (if status \<noteq> StatusJobNone \<and> \<not> IsImmutableJobStatus (JrStatus job)
                then job\<lparr>JrStatus := status\<rparr> else job);
          j2 = (case info of Some i \<Rightarrow> j1\<lparr>JrRuntimeInfo := Some i\<rparr> | None \<Rightarrow> j1);
          j3 = (if message \<noteq> '''' then j2\<lparr>JrMessage := message\<rparr> else j2);
          j4 = (if status = StatusJobRunning then j3\<lparr>JrActivatedAt := Some now\<rparr> else j3)
      in j4\<lparr>JrUpdatedAt := now\<rparr>)"

text \<open>When saving fails the code returns the empty status with the error of the earlier, successful
  lookup, that is without an error.\<close>

definition UpdateJob ::
  "faults \<Rightarrow> timestamp \<Rightarrow> string \<Rightarrow> job_status \<Rightarrow> string option \<Rightarrow> string \<Rightarrow> db \<Rightarrow>
   (job_error + job_status) \<times> db" where
  "UpdateJob flt now jobID status info message d =
     (case GetJobByID flt jobID d of
        Inl _ \<Rightarrow> (Inl (JobIDNotFoundError jobID), d)
      | Inr job \<Rightarrow>
          let job' = updated_job now status info message job
          in if flt DbSaveJob then (Inr StatusJobNone, d)
             else (Inr (JrStatus job'), save_job jobID job' d))"

definition DeleteJobByID :: "faults \<Rightarrow> string \<Rightarrow> db \<Rightarrow> db_error + db" where
  "DeleteJobByID flt jobID d =
     (if flt DbDeleteJob then Inl DbFailure
      else Inr (d\<lparr>tJob := filter (\<lambda>j. JrID j \<noteq> jobID) (tJob d)\<rparr>))"

definition persistAndExecuteJob ::
  "faults \<Rightarrow> job_row \<Rightarrow> job_error option \<Rightarrow> db \<Rightarrow> job_error + db" where
  "persistAndExecuteJob flt job execute d =
     (if flt DbCreateJob \<or> JrID job \<in> JrID ` set (tJob d) then Inl JobDbError
      else case execute of
        Some e \<Rightarrow> Inl e
      | None \<Rightarrow> Inr (d\<lparr>tJob := tJob d @ [job]\<rparr>))"

section \<open>Facts\<close>

lemma env_set [simp]:
  "env_get (set_env_var k v c) k' = (if k' = k then Some v else env_get c k')"
  "env_str (set_env_var k v c) k' = (if k' = k then v else env_str c k')"
  by (simp_all add: env_get_def env_str_def set_env_var_def mstr_def)

lemma set_env_conf [simp]:
  "ConfName (set_env_var k v c) = ConfName c" "ConfImage (set_env_var k v c) = ConfImage c"
  "ConfCommand (set_env_var k v c) = ConfCommand c"
  by (simp_all add: set_env_var_def)

lemma check_flavour_ok: "check_flavour fm f = Inr () \<longleftrightarrow> (\<exists>n. f = Some n \<and> mget fm n \<noteq> None)"
  by (auto simp: check_flavour_def split: option.splits)

lemma check_replicas_ok: "check_replicas r = Inr () \<longleftrightarrow> (\<forall>s. r = Some s \<longrightarrow> atoi s \<noteq> None)"
  by (auto simp: check_replicas_def split: option.splits)

lemma ValidateJob_base:
  assumes "ValidateJob flt fm d c = Inr ()"
  shows "ConfName c \<noteq> ''''" "ConfImage c \<noteq> ''''" "env_str c EnvJobUserName \<noteq> ''''"
    "env_str c EnvJobQueueName \<noteq> ''''" "env_str c EnvJobFsID \<noteq> ''''" "validate_mode fm c = Inr ()"
    "HasAccessToResource flt (env_str c EnvJobUserName) ResourceTypeQueue (env_str c EnvJobQueueName) d"
  using assms by (auto simp: ValidateJob_def split: if_splits)

lemma validate_mode_type:
  "validate_mode fm c = Inr () \<Longrightarrow> env_str c EnvJobType = TypeVcJob \<or> env_str c EnvJobType = TypeSparkJob"
  by (auto simp: validate_mode_def env_str_def env_get_def mstr_def split: option.splits if_splits)

lemma checkResource_frame:
  "ConfName (snd (checkResource flt fss d c)) = ConfName c"
  "ConfImage (snd (checkResource flt fss d c)) = ConfImage c"
  "ConfCommand (snd (checkResource flt fss d c)) = ConfCommand c"
  "k \<notin> {EnvJobNamespace, EnvJobPVCName, EnvJobPriority} \<Longrightarrow>
     env_get (snd (checkResource flt fss d c)) k = env_get c k"
  by (auto simp: checkResource_def Let_def split: sum.splits option.splits)

lemma checkResource_ok:
  assumes "checkResource flt fss d c = (Inr (), c')"
  shows "\<exists>q. GetQueueByName flt (env_str c EnvJobQueueName) d = Inr q \<and>
       env_get c' EnvJobNamespace = Some (QNamespace q)"
    and "env_str c' EnvJobPriority \<in> {EnvJobLowPriority, EnvJobNormalPriority, EnvJobHighPriority}"
    and "env_get c' EnvJobPVCName \<noteq> None"
  using assms
  by (auto simp: checkResource_def getNamespaceByQueueName_def Let_def env_str_def env_get_def mstr_def
      set_env_var_def split: sum.splits option.splits if_splits)

lemma updated_job_status:
  "JrStatus (updated_job now st i m j) =
     (if st = StatusJobNone \<or> IsImmutableJobStatus (JrStatus j) then JrStatus j else st)"
  by (auto simp: updated_job_def Let_def split: option.splits)

lemma updated_job_id [simp]: "JrID (updated_job now st i m j) = JrID j"
  by (auto simp: updated_job_def Let_def split: option.splits)

lemma tJob_save [simp]:
  "tJob (save_job jid j d) = map (\<lambda>r. if JrID r = jid then j else r) (tJob d)"
  by (simp add: save_job_def)

definition job_ids_unique :: "db \<Rightarrow> bool" where
  "job_ids_unique d = distinct (map JrID (tJob d))"

lemma GetJobByID_mem: "GetJobByID flt jid d = Inr j \<Longrightarrow> j \<in> set (tJob d) \<and> JrID j = jid"
  by (auto simp: GetJobByID_def dest: first_row_Inr split: if_splits)

lemma save_job_ids:
  "JrID j = jid \<Longrightarrow> map JrID (tJob (save_job jid j d)) = map JrID (tJob d)"
  by (induction "tJob d") auto

lemma UpdateJob_ids: "map JrID (tJob (snd (UpdateJob flt now jid st i m d))) = map JrID (tJob d)"
  by (auto simp: UpdateJob_def Let_def split: sum.splits dest!: GetJobByID_mem intro!: map_idI)

end
