(* ===== verification/PF_JobApp.thy ===== *)
theory PF_JobApp
  imports PF_JobConf
begin

text \<open>
  The job service, second part: how a job description read from YAML is completed from the
  configuration (\<open>pkg/job/vcjob.go\<close>, \<open>pkg/job/sparkjob.go\<close>), submitted and stopped
  (\<open>CreateJob\<close>, \<open>StopJobByID\<close>). A description holds the fields of the Volcano and Spark
  resources that the sources touch. Reading and decoding YAML, the submission to Kubernetes and the
  parser of resource quantities are services: they are arguments of the definitions
  (\<open>job_env\<close>).

  Go copies a \<open>TaskSpec\<close> by value: the copy shares the label map and the containers' array with
  the original, but not the replica count and the volume list. \<open>ps_write_back\<close> is what such a
  copy leaves behind in the original.
\<close>

section \<open>Kubernetes descriptions\<close>

record volume =
  VolName :: string
  VolClaim :: string

record volume_mount =
  VmName :: string
  VmReadOnly :: bool
  VmMountPath :: string

record resources =
  RRequests :: "string gomap"
  RLimits :: "string gomap"

record container =
  CoImage :: string
  CoCommand :: "string list"
  CoResources :: resources
  CoMounts :: "volume_mount list"
  CoEnv :: "(string \<times> string) list"

record task_spec =
  TaskName :: string
  TaskReplicas :: int
  TaskLabels :: "string gomap option"
  TaskContainers :: "container list"
  TaskVolumes :: "volume list"

record vc_job =
  VcName :: string
  VcNamespace :: string
  VcLabels :: "string gomap"
  VcQueue :: string
  VcPriorityClass :: string
  VcScheduler :: string
  VcMinAvailable :: int
  VcTasks :: "task_spec list"

record spark_pod =
  SpCores :: int
  SpCoreLimit :: string
  SpMemory :: string
  SpEnv :: "(string \<times> string) list"
  SpMounts :: "volume_mount list"
  SpGPU :: "(string \<times> int) option"

record spark_app =
  SaName :: string
  SaNamespace :: string
  SaLabels :: "string gomap"
  SaImage :: string
  SaMainFile :: string
  SaMainClass :: "string option"
  SaArguments :: "string list"
  SaScheduler :: string
  SaQueue :: "string option"
  SaPriorityClass :: "string option"
  SaDriver :: spark_pod
  SaDriverPodName :: string
  SaDriverAccount :: "string option"
  SaExecutor :: spark_pod
  SaInstances :: "int option"
  SaVolumes :: "volume list"

record server_config =
  FlavourMap :: "flavour gomap"
  SchedulerName :: string
  DefaultJobYamlDir :: string

record job_env =
  je_fs :: fs_service
  je_exists :: "string \<Rightarrow> bool"
  je_read :: "string \<Rightarrow> string option"
  je_read_fs :: "string \<Rightarrow> string \<Rightarrow> string option"
  je_parse_vc :: "string \<Rightarrow> vc_job option"
  je_parse_spark :: "string \<Rightarrow> spark_app option"
  je_quantity :: "string \<Rightarrow> string option"
  je_submit_vc :: "vc_job \<Rightarrow> bool"
  je_submit_spark :: "spark_app \<Rightarrow> bool"
  je_stop :: "string \<Rightarrow> string \<Rightarrow> string \<Rightarrow> bool"
  je_new_id :: "string \<Rightarrow> string"

definition empty_container :: container where
  "empty_container =
     \<lparr>CoImage = '''', CoCommand = [], CoResources = \<lparr>RRequests = [], RLimits = []\<rparr>, CoMounts = [], CoEnv = []\<rparr>"

definition no_flavour :: flavour where
  "no_flavour = \<lparr>Cpu = '''', Mem = '''', ScalarResources = [], FName = ''''\<rparr>"

text \<open>\<open>FlavourMap[k]\<close>: the zero flavour when the key is absent.\<close>

definition get_flavour :: "server_config \<Rightarrow> string \<Rightarrow> flavour" where
  "get_flavour sc k = (case mget (FlavourMap sc) k of None \<Rightarrow> no_flavour | Some f \<Rightarrow> f)"

section \<open>Helpers of job.go\<close>

abbreviation DefaultFSMountPath :: string where
  "DefaultFSMountPath \<equiv> ''/home/paddleflow/storage/mnt''"

text \<open>The conversion \<open>int32(n)\<close>, and \<open>n, _ := strconv.Atoi(s)\<close>, which leaves 0 for a malformed
  string and the nearest bound for one out of range.\<close>

definition to_int32 :: "int \<Rightarrow> int" where
  "to_int32 i = (i + 2 ^ 31) mod 2 ^ 32 - 2 ^ 31"

definition atoi_value :: "string \<Rightarrow> int" where
  "atoi_value s =
     (case atoi s of
        Some i \<Rightarrow> i
      | None \<Rightarrow>
          (case s of
             [] \<Rightarrow> 0
           | c # cs \<Rightarrow>
               (let ds = (if c = CHR ''-'' \<or> c = CHR ''+'' then cs else s)
                in if parse_nat ds = None then 0
                   else if c = CHR ''-'' then - (2 ^ 63) else 2 ^ 63 - 1)))"

definition fixContainerCommand :: "string \<Rightarrow> string" where
  "fixContainerCommand command =
     ''cd '' @ DefaultFSMountPath @ '';'' @ trim_prefix command ''bash -c''"

fun put_quantities :: "(string \<Rightarrow> string option) \<Rightarrow> (string \<times> string) list \<Rightarrow> string gomap \<Rightarrow> job_error + string gomap" where
  "put_quantities q [] m = Inr m"
| "put_quantities q ((k, v) # rest) m =
     (case q v of None \<Rightarrow> Inl (QuantityPanic v) | Some n \<Rightarrow> put_quantities q rest (mput k n m))"

definition generateResourceRequirements :: "(string \<Rightarrow> string option) \<Rightarrow> flavour \<Rightarrow> job_error + resources" where
  "generateResourceRequirements q fl =
     bindE (put_quantities q ((''cpu'', Cpu fl) # (''memory'', Mem fl) # ScalarResources fl) [])
       (\<lambda>m. Inr \<lparr>RRequests = m, RLimits = m\<rparr>)"

definition generateVolume :: "string \<Rightarrow> string \<Rightarrow> volume" where
  "generateVolume fsID pvcName = \<lparr>VolName = fsID, VolClaim = pvcName\<rparr>"

definition generateVolumeMount :: "string \<Rightarrow> volume_mount" where
  "generateVolumeMount fsID = \<lparr>VmName = fsID, VmReadOnly = False, VmMountPath = DefaultFSMountPath\<rparr>"

definition generateEnvVars :: "conf \<Rightarrow> (string \<times> string) list" where
  "generateEnvVars c = map (\<lambda>(key, value). (key, value)) (ConfEnv c)"

definition appendMountIfAbsent :: "volume_mount list \<Rightarrow> volume_mount \<Rightarrow> volume_mount list" where
  "appendMountIfAbsent vms element =
     (if list_ex (\<lambda>cur. VmName cur = VmName element) vms then vms else vms @ [element])"

definition appendVolumeIfAbsent :: "volume list \<Rightarrow> volume \<Rightarrow> volume list" where
  "appendVolumeIfAbsent vs element =
     (if list_ex (\<lambda>cur. VolName cur = VolName element) vs then vs else vs @ [element])"

section \<open>Reading the template\<close>

definition getVCJobFromDefaultPath :: "server_config \<Rightarrow> conf \<Rightarrow> string" where
  "getVCJobFromDefaultPath sc c =
     DefaultJobYamlDir sc @ ''/'' @ env_str c EnvJobType @ ''_'' @ to_lower (env_str c EnvJobMode) @ ''.yaml''"

definition getSparkJobYamlPath :: "server_config \<Rightarrow> conf \<Rightarrow> string" where
  "getSparkJobYamlPath sc c = DefaultJobYamlDir sc @ ''/'' @ env_str c EnvJobType @ ''.yaml''"

definition getDefaultJobYamlContent :: "job_env \<Rightarrow> string \<Rightarrow> job_error + string" where
  "getDefaultJobYamlContent je path =
     (if \<not> je_exists je path then Inl (JobFileNotFound path)
      else case je_read je path of None \<Rightarrow> Inl (JobFileError path) | Some b \<Rightarrow> Inr b)"

definition getJobYamlContent :: "server_config \<Rightarrow> job_env \<Rightarrow> conf \<Rightarrow> job_error + string" where
  "getJobYamlContent sc je c =
     (case env_get c EnvJobYamlPath of
        None \<Rightarrow>
          (if env_str c EnvJobType = TypeVcJob
           then getDefaultJobYamlContent je (getVCJobFromDefaultPath sc c)
           else if env_str c EnvJobType = TypeSparkJob
           then getDefaultJobYamlContent je (getSparkJobYamlPath sc c)
           else Inl (UnSupportedOperate ''read defaultJob''))
      | Some yamlFilePath \<Rightarrow>
          (case je_read_fs je (env_str c EnvJobFsID) yamlFilePath of
             None \<Rightarrow> Inl (JobFileError yamlFilePath)
           | Some b \<Rightarrow> Inr b))"

definition createJobFromYaml ::
  "(string \<Rightarrow> 'a option) \<Rightarrow> server_config \<Rightarrow> job_env \<Rightarrow> conf \<Rightarrow> job_error + 'a" where
  "createJobFromYaml parse sc je c =
     bindE (getJobYamlContent sc je c)
       (\<lambda>b. case parse b of None \<Rightarrow> Inl (JobYamlError b) | Some j \<Rightarrow> Inr j)"

section \<open>Volcano jobs (vcjob.go)\<close>

abbreviation JobIDLabel :: string where "JobIDLabel \<equiv> ''paddleflow-job-id''"
abbreviation JobOwnerLabel :: string where "JobOwnerLabel \<equiv> ''owner''"
abbreviation JobOwnerValue :: string where "JobOwnerValue \<equiv> ''paddleflow''"

definition fillContainerInTask ::
  "server_config \<Rightarrow> (string \<Rightarrow> string option) \<Rightarrow> conf \<Rightarrow> string \<Rightarrow> string \<Rightarrow> container \<Rightarrow> job_error + container" where
  "fillContainerInTask sc q c flavourKey command co =
     bindE (generateResourceRequirements q (get_flavour sc flavourKey)) (\<lambda>res.
       Inr (co\<lparr>CoImage := ConfImage c,
               CoCommand := [''bash'', ''-c'', fixContainerCommand command],
               CoResources := res,
               CoMounts := appendMountIfAbsent (CoMounts co) (generateVolumeMount (env_str c EnvJobFsID)),
               CoEnv := generateEnvVars c\<rparr>))"

definition label_task :: "string \<Rightarrow> task_spec \<Rightarrow> task_spec" where
  "label_task jobName t =
     t\<lparr>TaskLabels := Some (mput JobIDLabel jobName (case TaskLabels t of None \<Rightarrow> [] | Some m \<Rightarrow> m))\<rparr>"

definition job_volume :: "conf \<Rightarrow> volume" where
  "job_volume c = generateVolume (env_str c EnvJobFsID) (env_str c EnvJobPVCName)"

definition fillTaskInPodMode ::
  "server_config \<Rightarrow> (string \<Rightarrow> string option) \<Rightarrow> conf \<Rightarrow> string \<Rightarrow> task_spec \<Rightarrow> job_error option \<times> task_spec" where
  "fillTaskInPodMode sc q c jobName t =
     (let t1 = (if TaskReplicas t \<le> 0 then t\<lparr>TaskReplicas := 1\<rparr> else t)
      in case TaskContainers t1 of
           [] \<Rightarrow> (Some (TaskShapeError ''task's container is nil''), t1)
         | co # cos \<Rightarrow>
             (let t2 = label_task jobName t1
              in case fillContainerInTask sc q c (env_str c EnvJobFlavour) (ConfCommand c) co of
                   Inl e \<Rightarrow> (Some e, t2)
                 | Inr co' \<Rightarrow>
                     (None, t2\<lparr>TaskContainers := co' # cos,
                               TaskVolumes := appendVolumeIfAbsent (TaskVolumes t2) (job_volume c)\<rparr>)))"

fun fill_pod_tasks ::
  "(task_spec \<Rightarrow> job_error option \<times> task_spec) \<Rightarrow> task_spec list \<Rightarrow> job_error option \<times> task_spec list" where
  "fill_pod_tasks f [] = (None, [])"
| "fill_pod_tasks f (t # ts) =
     (case f t of
        (Some e, t') \<Rightarrow> (Some e, t' # ts)
      | (None, t') \<Rightarrow> (case fill_pod_tasks f ts of (e, ts') \<Rightarrow> (e, t' # ts')))"

definition fillPodJobSpec ::
  "server_config \<Rightarrow> (string \<Rightarrow> string option) \<Rightarrow> conf \<Rightarrow> vc_job \<Rightarrow> job_error option \<times> vc_job" where
  "fillPodJobSpec sc q c j =
     (if VcTasks j = [] then (Some (TaskShapeError ''tasks is nil''), j)
      else case fill_pod_tasks (fillTaskInPodMode sc q c (VcName j)) (VcTasks j) of
        (e, ts) \<Rightarrow> (e, j\<lparr>VcTasks := ts\<rparr>))"

definition fillTaskInPSMode ::
  "server_config \<Rightarrow> (string \<Rightarrow> string option) \<Rightarrow> conf \<Rightarrow> bool \<Rightarrow> string \<Rightarrow> task_spec \<Rightarrow>
   job_error option \<times> task_spec" where
  "fillTaskInPSMode sc q c isMaster jobName t =
     (let psReplicaStr = env_str c (if isMaster then EnvJobPServerReplicas else EnvJobWorkerReplicas);
          flavourStr = env_str c (if isMaster then EnvJobPServerFlavour else EnvJobWorkerFlavour);
          commandEnv = env_str c (if isMaster then EnvJobPServerCommand else EnvJobWorkerCommand)
      in if commandEnv = '''' then (Some (TaskShapeError ''the env [command] is required''), t)
         else
           let t1 = (if psReplicaStr \<noteq> '''' then t\<lparr>TaskReplicas := to_int32 (atoi_value psReplicaStr)\<rparr> else t);
               t2 = (if TaskReplicas t1 \<le> 0 then t1\<lparr>TaskReplicas := 1\<rparr> else t1);
               t3 = label_task jobName t2;
               co = (case TaskContainers t3 of [co] \<Rightarrow> co | _ \<Rightarrow> empty_container)
           in case fillContainerInTask sc q c flavourStr commandEnv co of
                Inl e \<Rightarrow> (Some e, t3)
              | Inr co' \<Rightarrow>
                  (None, t3\<lparr>TaskContainers := [co'],
                            TaskVolumes := appendVolumeIfAbsent (TaskVolumes t3) (job_volume c)\<rparr>))"

text \<open>\<open>psTask := jobSpec.Spec.Tasks[0]\<close> is a copy: after \<open>&psTask\<close> was filled, the original
  shows the label only if its label map existed, and the container only if it had exactly one.\<close>

definition ps_write_back :: "task_spec \<Rightarrow> task_spec \<Rightarrow> task_spec" where
  "ps_write_back orig filled =
     orig\<lparr>TaskLabels := (if TaskLabels orig = None then None else TaskLabels filled),
          TaskContainers := (if length (TaskContainers orig) = 1 then TaskContainers filled
                             else TaskContainers orig)\<rparr>"

definition fillPSJobSpec ::
  "server_config \<Rightarrow> (string \<Rightarrow> string option) \<Rightarrow> conf \<Rightarrow> vc_job \<Rightarrow> job_error option \<times> vc_job \<times> conf" where
  "fillPSJobSpec sc q c0 j =
     (let c = set_env_var EnvJobPSPort ''8001'' c0
      in case VcTasks j of
           [t0, t1] \<Rightarrow>
             (case fillTaskInPSMode sc q c True (VcName j) t0 of
                (Some e, ps) \<Rightarrow> (Some e, j\<lparr>VcTasks := [ps_write_back t0 ps, t1]\<rparr>, c)
              | (None, ps) \<Rightarrow>
                  (case fillTaskInPSMode sc q c False (VcName j) t1 of
                     (Some e, w) \<Rightarrow>
                       (Some e, j\<lparr>VcTasks := [ps_write_back t0 ps, ps_write_back t1 w]\<rparr>, c)
                   | (None, w) \<Rightarrow>
                       (None, j\<lparr>VcTasks := [ps_write_back t0 ps, ps_write_back t1 w],
                                VcMinAvailable := to_int32 (TaskReplicas ps + TaskReplicas w)\<rparr>, c)))
         | _ \<Rightarrow> (Some (TaskShapeError ''must be contain two Tasks''), j, c))"

definition fillTaskInCollectiveMode ::
  "server_config \<Rightarrow> (string \<Rightarrow> string option) \<Rightarrow> conf \<Rightarrow> string \<Rightarrow> task_spec list \<Rightarrow>
   job_error + task_spec list" where
  "fillTaskInCollectiveMode sc q c jobName tasks =
     (case tasks of
        [t] \<Rightarrow>
          (case TaskContainers t of
             [co] \<Rightarrow>
               (let t1 = (case env_get c EnvJobReplicas of
                            None \<Rightarrow> t
                          | Some replicasStr \<Rightarrow> t\<lparr>TaskReplicas := to_int32 (atoi_value replicasStr)\<rparr>);
                    t2 = (if TaskReplicas t1 \<le> 0 then t1\<lparr>TaskReplicas := 2\<rparr> else t1);
                    t3 = label_task jobName t2
                in bindE (fillContainerInTask sc q c (env_str c EnvJobFlavour) (ConfCommand c) co)
                     (\<lambda>co'. Inr [t3\<lparr>TaskContainers := [co'],
                                    TaskVolumes := appendVolumeIfAbsent (TaskVolumes t3) (job_volume c)\<rparr>]))
           | _ \<Rightarrow> Inl (TaskShapeError ''container must be 1''))
      | _ \<Rightarrow> Inl (TaskShapeError ''task must be 1''))"

text \<open>\<open>Tasks, err = fillTaskInCollectiveMode(...)\<close> stores the nil list when there is an error.\<close>

definition fillCollectiveJobSpec ::
  "server_config \<Rightarrow> (string \<Rightarrow> string option) \<Rightarrow> conf \<Rightarrow> vc_job \<Rightarrow> job_error option \<times> vc_job" where
  "fillCollectiveJobSpec sc q c j =
     (let j1 = (case env_get c EnvJobReplicas of
                  None \<Rightarrow> j
                | Some replicasStr \<Rightarrow> j\<lparr>VcMinAvailable := to_int32 (atoi_value replicasStr)\<rparr>)
      in case fillTaskInCollectiveMode sc q c (VcName j1) (VcTasks j1) of
           Inl e \<Rightarrow> (Some e, j1\<lparr>VcTasks := []\<rparr>)
         | Inr ts \<Rightarrow> (None, j1\<lparr>VcTasks := ts\<rparr>))"

definition patchVCJobVariable ::
  "server_config \<Rightarrow> (string \<Rightarrow> string option) \<Rightarrow> string \<Rightarrow> conf \<Rightarrow> vc_job \<Rightarrow> job_error option \<times> vc_job \<times> conf" where
  "patchVCJobVariable sc q jobID c j0 =
     (let j1 = j0\<lparr>VcName := jobID,
                  VcNamespace := (case env_get c EnvJobNamespace of None \<Rightarrow> VcNamespace j0 | Some ns \<Rightarrow> ns),
                  VcLabels := mput JobIDLabel jobID (mput JobOwnerLabel JobOwnerValue (VcLabels j0))\<rparr>;
          j2 = (case env_get c EnvJobQueueName of
                  None \<Rightarrow> j1
                | Some queueName \<Rightarrow>
                    j1\<lparr>VcQueue := queueName,
                       VcPriorityClass := getPriorityClass (env_str c EnvJobPriority)\<rparr>);
          j3 = j2\<lparr>VcScheduler := SchedulerName sc\<rparr>;
          mode = env_str c EnvJobMode
      in if mode = EnvJobModePS then fillPSJobSpec sc q c j3
         else if mode = EnvJobModeCollective
              then (case fillCollectiveJobSpec sc q c j3 of (e, j) \<Rightarrow> (e, j, c))
         else if mode = EnvJobModePod
              then (case fillPodJobSpec sc q c j3 of (e, j) \<Rightarrow> (e, j, c))
         else (None, j3, c))"

section \<open>Spark applications (sparkjob.go)\<close>

definition patchSparkMetaData :: "string \<Rightarrow> conf \<Rightarrow> spark_app \<Rightarrow> spark_app" where
  "patchSparkMetaData jobID c a =
     a\<lparr>SaNamespace := (case env_get c EnvJobNamespace of None \<Rightarrow> SaNamespace a | Some ns \<Rightarrow> ns),
       SaLabels := mput JobIDLabel jobID (mput JobOwnerLabel JobOwnerValue (SaLabels a))\<rparr>"

definition patchSparkSpecDriver :: "conf \<Rightarrow> int \<Rightarrow> flavour \<Rightarrow> spark_app \<Rightarrow> spark_app" where
  "patchSparkSpecDriver c cores fl a =
     a\<lparr>SaDriver := (SaDriver a)\<lparr>SpCores := cores, SpCoreLimit := Cpu fl, SpMemory := Mem fl,
          SpEnv := SpEnv (SaDriver a) @ generateEnvVars c,
          SpMounts := appendMountIfAbsent (SpMounts (SaDriver a)) (generateVolumeMount (env_str c EnvJobFsID))\<rparr>,
       SaDriverPodName := ConfName c,
       SaDriverAccount := (case SaDriverAccount a of None \<Rightarrow> Some TypeSparkJob | Some s \<Rightarrow> Some s)\<rparr>"

definition executor_instances :: "conf \<Rightarrow> int option \<Rightarrow> int option" where
  "executor_instances c inst =
     (let i1 = (case env_get c EnvJobExecutorReplicas of
                  None \<Rightarrow> inst
                | Some replicasStr \<Rightarrow> Some (to_int32 (atoi_value replicasStr)))
      in case i1 of None \<Rightarrow> Some 1 | Some i \<Rightarrow> if i \<le> 0 then Some 1 else Some i)"

text \<open>The environment of the executor is built from the driver's, as the source has it.\<close>

definition patchSparkSpecExecutor :: "conf \<Rightarrow> int \<Rightarrow> flavour \<Rightarrow> spark_app \<Rightarrow> spark_app" where
  "patchSparkSpecExecutor c cores fl a =
     a\<lparr>SaInstances := executor_instances c (SaInstances a),
       SaExecutor := (SaExecutor a)\<lparr>SpCores := cores, SpCoreLimit := Cpu fl, SpMemory := Mem fl,
          SpEnv := SpEnv (SaDriver a) @ generateEnvVars c,
          SpMounts := appendMountIfAbsent (SpMounts (SaExecutor a)) (generateVolumeMount (env_str c EnvJobFsID))\<rparr>\<rparr>"

definition gpu_spec :: "flavour \<Rightarrow> (string \<times> int) option \<Rightarrow> (string \<times> int) option" where
  "gpu_spec fl g =
     (case mget (ScalarResources fl) ''nvidia.com/gpu'' of
        None \<Rightarrow> g
      | Some num \<Rightarrow> Some (''nvidia.com/gpu'', atoi_value num))"

definition fillGPUSpec :: "flavour \<Rightarrow> flavour \<Rightarrow> spark_app \<Rightarrow> spark_app" where
  "fillGPUSpec driverFlavour executorFlavour a =
     a\<lparr>SaDriver := (SaDriver a)\<lparr>SpGPU := gpu_spec driverFlavour (SpGPU (SaDriver a))\<rparr>,
       SaExecutor := (SaExecutor a)\<lparr>SpGPU := gpu_spec executorFlavour (SpGPU (SaExecutor a))\<rparr>\<rparr>"

definition patchSparkSpec :: "server_config \<Rightarrow> conf \<Rightarrow> spark_app \<Rightarrow> spark_app" where
  "patchSparkSpec sc c a =
     (let a1 = a\<lparr>SaImage := ConfImage c, SaMainFile := env_str c EnvJobSparkMainFile,
                 SaMainClass := (case env_get c EnvJobSparkMainClass of None \<Rightarrow> SaMainClass a | Some m \<Rightarrow> Some m),
                 SaArguments := (case env_get c EnvJobSparkArguments of
                                   Some arguments \<Rightarrow> if length arguments > 0 then [arguments] else SaArguments a
                                 | None \<Rightarrow> SaArguments a),
                 SaScheduler := SchedulerName sc\<rparr>;
          a2 = (case env_get c EnvJobQueueName of
                  None \<Rightarrow> a1
                | Some queueName \<Rightarrow>
                    a1\<lparr>SaQueue := Some queueName,
                       SaPriorityClass := Some (getPriorityClass (env_str c EnvJobPriority))\<rparr>);
          driverFlavour = get_flavour sc (env_str c EnvJobDriverFlavour);
          executorFlavour = get_flavour sc (env_str c EnvJobExecutorFlavour);
          a3 = patchSparkSpecDriver c (to_int32 (atoi_value (Cpu driverFlavour))) driverFlavour a2;
          a4 = patchSparkSpecExecutor c (to_int32 (atoi_value (Cpu executorFlavour))) executorFlavour a3
      in fillGPUSpec driverFlavour executorFlavour a4)"

definition patchSparkAppVariable :: "server_config \<Rightarrow> string \<Rightarrow> conf \<Rightarrow> spark_app \<Rightarrow> spark_app" where
  "patchSparkAppVariable sc jobID c a =
     (let a1 = patchSparkSpec sc c (patchSparkMetaData jobID c (a\<lparr>SaName := jobID\<rparr>))
      in a1\<lparr>SaVolumes := appendVolumeIfAbsent (SaVolumes a1) (job_volume c)\<rparr>)"

section \<open>Creating and stopping jobs\<close>

definition new_job_row :: "timestamp \<Rightarrow> string \<Rightarrow> conf \<Rightarrow> job_row" where
  "new_job_row now jobID c =
     \<lparr>JrID = jobID, JrUserName = env_str c EnvJobUserName, JrType = env_str c EnvJobType, JrConfig = c,
      JrRuntimeInfo = None, JrStatus = StatusJobNone, JrMessage = '''', JrCreatedAt = now,
      JrActivatedAt = None, JrUpdatedAt = now\<rparr>"

definition generateJobID :: "job_env \<Rightarrow> string \<Rightarrow> string" where
  "generateJobID je param = je_new_id je (''job-'' @ param)"

text \<open>The error of \<open>patchVCJobVariable\<close> is not looked at: the description is submitted as far as it
  was patched. Only a panic (a quantity that \<open>resource.MustParse\<close> refuses) ends the call.\<close>

fun panic_of :: "job_error option \<Rightarrow> job_error option" where
  "panic_of (Some (QuantityPanic v)) = Some (QuantityPanic v)"
| "panic_of _ = None"

definition VCJob_CreateJob ::
  "faults \<Rightarrow> server_config \<Rightarrow> job_env \<Rightarrow> timestamp \<Rightarrow> conf \<Rightarrow> db \<Rightarrow> (job_error + string) \<times> conf \<times> db" where
  "VCJob_CreateJob flt sc je now c d =
     (let jobID = generateJobID je (ConfName c)
      in case createJobFromYaml (je_parse_vc je) sc je c of
           Inl e \<Rightarrow> (Inl e, c, d)
         | Inr jobApp0 \<Rightarrow>
             (case patchVCJobVariable sc (je_quantity je) jobID c jobApp0 of
                (err, jobApp, c') \<Rightarrow>
                  (case panic_of err of
                     Some p \<Rightarrow> (Inl p, c', d)
                   | None \<Rightarrow>
                       (case persistAndExecuteJob flt (new_job_row now jobID c')
                               (if je_submit_vc je jobApp then None else Some (SubmitError jobID)) d of
                          Inl e \<Rightarrow> (Inl e, c', d)
                        | Inr d' \<Rightarrow> (Inr jobID, c', d')))))"

definition SparkJob_CreateJob ::
  "faults \<Rightarrow> server_config \<Rightarrow> job_env \<Rightarrow> timestamp \<Rightarrow> conf \<Rightarrow> db \<Rightarrow> (job_error + string) \<times> conf \<times> db" where
  "SparkJob_CreateJob flt sc je now c d =
     (let jobID = generateJobID je (ConfName c)
      in case createJobFromYaml (je_parse_spark je) sc je c of
           Inl e \<Rightarrow> (Inl e, c, d)
         | Inr jobApp0 \<Rightarrow>
             (let jobApp = patchSparkAppVariable sc jobID c jobApp0
              in case persistAndExecuteJob flt (new_job_row now jobID c)
                        (if je_submit_spark je jobApp then None else Some (SubmitError jobID)) d of
                   Inl e \<Rightarrow> (Inl e, c, d)
                 | Inr d' \<Rightarrow> (Inr jobID, c, d')))"

definition CreateJob ::
  "faults \<Rightarrow> server_config \<Rightarrow> job_env \<Rightarrow> timestamp \<Rightarrow> conf \<Rightarrow> db \<Rightarrow> (job_error + string) \<times> conf \<times> db" where
  "CreateJob flt sc je now c d =
     (case ValidateJob flt (FlavourMap sc) d c of
        Inl e \<Rightarrow> (Inl e, c, d)
      | Inr _ \<Rightarrow>
          (case checkResource flt (je_fs je) d c of
             (Inl e, c1) \<Rightarrow> (Inl e, c1, d)
           | (Inr _, c1) \<Rightarrow>
               (let jobType = env_str c1 EnvJobType
                in if jobType = TypeVcJob then VCJob_CreateJob flt sc je now c1 d
                   else if jobType = TypeSparkJob then SparkJob_CreateJob flt sc je now c1 d
                   else (Inl (NilJobType jobType), c1, d))))"

text \<open>\<open>StopJobByID\<close> of both job types: the job is read again and deleted in Kubernetes.\<close>

definition stop_job_of :: "string \<Rightarrow> faults \<Rightarrow> job_env \<Rightarrow> string \<Rightarrow> db \<Rightarrow> job_error + unit" where
  "stop_job_of gvk flt je jobID d =
     (case GetJobByID flt jobID d of
        Inl _ \<Rightarrow> Inl JobDbError
      | Inr job \<Rightarrow>
          if je_stop je gvk (env_str (JrConfig job) EnvJobNamespace) (JrID job) then Inr ()
          else Inl (SubmitError jobID))"

definition StopJobByID :: "faults \<Rightarrow> job_env \<Rightarrow> string \<Rightarrow> db \<Rightarrow> job_error + unit" where
  "StopJobByID flt je jobID d =
     (case GetJobByID flt jobID d of
        Inl _ \<Rightarrow> Inl (JobIDNotFoundError jobID)
      | Inr job \<Rightarrow>
          if JrType job = TypeVcJob then stop_job_of ''VCJob'' flt je jobID d
          else if JrType job = TypeSparkJob then stop_job_of ''SparkApplication'' flt je jobID d
          else Inl (NilJobType (JrType job)))"

section \<open>Facts\<close>

lemma to_int32_id: "- (2 ^ 31) \<le> i \<Longrightarrow> i < 2 ^ 31 \<Longrightarrow> to_int32 i = i"
  by (simp add: to_int32_def)

lemma to_int32_range: "- (2 ^ 31) \<le> to_int32 i \<and> to_int32 i < 2 ^ 31"
proof -
  have "0 \<le> (i + 2 ^ 31) mod 2 ^ 32" "(i + 2 ^ 31) mod 2 ^ 32 < 2 ^ 32" by simp_all
  then show ?thesis unfolding to_int32_def by simp
qed

lemma appendVolume_present: "\<exists>v\<in>set (appendVolumeIfAbsent vs e). VolName v = VolName e"
  by (auto simp: appendVolumeIfAbsent_def list_ex_iff)

lemma appendVolume_distinct:
  "distinct (map VolName vs) \<Longrightarrow> distinct (map VolName (appendVolumeIfAbsent vs e))"
  by (auto simp: appendVolumeIfAbsent_def list_ex_iff)

lemma appendVolume_idem: "appendVolumeIfAbsent (appendVolumeIfAbsent vs e) e = appendVolumeIfAbsent vs e"
  by (auto simp: appendVolumeIfAbsent_def list_ex_iff)

lemma appendMount_distinct:
  "distinct (map VmName vs) \<Longrightarrow> distinct (map VmName (appendMountIfAbsent vs e))"
  by (auto simp: appendMountIfAbsent_def list_ex_iff)

lemma label_task_simps [simp]:
  "TaskReplicas (label_task n t) = TaskReplicas t" "TaskName (label_task n t) = TaskName t"
  "TaskContainers (label_task n t) = TaskContainers t" "TaskVolumes (label_task n t) = TaskVolumes t"
  by (simp_all add: label_task_def)

lemma ps_write_back_simps [simp]:
  "TaskReplicas (ps_write_back t t') = TaskReplicas t" "TaskVolumes (ps_write_back t t') = TaskVolumes t"
  by (simp_all add: ps_write_back_def)

lemma persist_Inr:
  assumes "persistAndExecuteJob flt j e d = Inr d'"
  shows "d' = d\<lparr>tJob := tJob d @ [j]\<rparr> \<and> e = None \<and> JrID j \<notin> JrID ` set (tJob d)"
  using assms by (auto simp: persistAndExecuteJob_def split: if_splits option.splits)

lemma fillPSJobSpec_conf: "snd (snd (fillPSJobSpec sc q c j)) = set_env_var EnvJobPSPort ''8001'' c"
  by (simp add: fillPSJobSpec_def Let_def split: list.splits prod.splits option.splits)

lemma patchVCJob_conf:
  "snd (snd (patchVCJobVariable sc q jobID c j)) =
     (if env_str c EnvJobMode = EnvJobModePS then set_env_var EnvJobPSPort ''8001'' c else c)"
  unfolding patchVCJobVariable_def Let_def
  by (cases "env_str c EnvJobMode = EnvJobModePS") (simp_all add: fillPSJobSpec_conf case_prod_unfold)

lemma VCJob_CreateJob_cases:
  obtains e where "VCJob_CreateJob flt sc je now c d = (Inl e, c, d)"
  | e c1 where "VCJob_CreateJob flt sc je now c d = (Inl e, c1, d)"
  | e c1 d1 where "VCJob_CreateJob flt sc je now c d = (Inr (generateJobID je (ConfName c)), c1, d1)"
      "persistAndExecuteJob flt (new_job_row now (generateJobID je (ConfName c)) c1) e d = Inr d1"
      "c1 = (if env_str c EnvJobMode = EnvJobModePS then set_env_var EnvJobPSPort ''8001'' c else c)"
proof (cases "createJobFromYaml (je_parse_vc je) sc je c")
  case (Inl e)
  then show ?thesis by (intro that(1)) (simp add: VCJob_CreateJob_def Let_def)
next
  case (Inr app)
  obtain err app' c1
    where p: "patchVCJobVariable sc (je_quantity je) (generateJobID je (ConfName c)) c app = (err, app', c1)"
    by (rule prod_cases3)
  have c1: "c1 = (if env_str c EnvJobMode = EnvJobModePS then set_env_var EnvJobPSPort ''8001'' c else c)"
    using patchVCJob_conf [of sc "je_quantity je" "generateJobID je (ConfName c)" c app]
    by (simp only: p snd_conv)
  show ?thesis
  proof (cases "panic_of err")
    case (Some q)
    then show ?thesis by (intro that(2)) (simp add: VCJob_CreateJob_def Let_def Inr p)
  next
    case None
    let ?e = "if je_submit_vc je app' then None else Some (SubmitError (generateJobID je (ConfName c)))"
    show ?thesis
    proof (cases "persistAndExecuteJob flt (new_job_row now (generateJobID je (ConfName c)) c1) ?e d")
      case (Inl e)
      then show ?thesis by (intro that(2)) (simp add: VCJob_CreateJob_def Let_def Inr p None)
    next
      case (Inr d1)
      show ?thesis
      proof (rule that(3) [OF _ Inr c1])
        show "VCJob_CreateJob flt sc je now c d = (Inr (generateJobID je (ConfName c)), c1, d1)"
          using Inr \<open>createJobFromYaml (je_parse_vc je) sc je c = Inr app\<close>
          by (simp add: VCJob_CreateJob_def Let_def p None)
      qed
    qed
  qed
qed

lemma VCJob_CreateJob_Inr:
  assumes "VCJob_CreateJob flt sc je now c d = (Inr jobID, c', d')"
  shows "jobID = generateJobID je (ConfName c) \<and> JrID ` set (tJob d) \<inter> {jobID} = {} \<and>
     d' = d\<lparr>tJob := tJob d @ [new_job_row now jobID c']\<rparr> \<and> (c' = c \<or> c' = set_env_var EnvJobPSPort ''8001'' c)"
proof (rule VCJob_CreateJob_cases [of flt sc je now c d])
  fix e c1 d1
  assume v: "VCJob_CreateJob flt sc je now c d = (Inr (generateJobID je (ConfName c)), c1, d1)"
    and r: "persistAndExecuteJob flt (new_job_row now (generateJobID je (ConfName c)) c1) e d = Inr d1"
    and c1: "c1 = (if env_str c EnvJobMode = EnvJobModePS then set_env_var EnvJobPSPort ''8001'' c else c)"
  have "jobID = generateJobID je (ConfName c)" "c' = c1" "d' = d1" using assms v by simp_all
  moreover have "JrID (new_job_row now i c1) = i" for i by (simp add: new_job_row_def)
  ultimately show ?thesis using persist_Inr [OF r] c1 by (metis disjoint_insert(1) inf_bot_right)
qed (use assms in simp_all)

lemma SparkJob_CreateJob_Inr:
  assumes "SparkJob_CreateJob flt sc je now c d = (Inr jobID, c', d')"
  shows "jobID = generateJobID je (ConfName c) \<and> JrID ` set (tJob d) \<inter> {jobID} = {} \<and>
     d' = d\<lparr>tJob := tJob d @ [new_job_row now jobID c']\<rparr> \<and> c' = c"
proof -
  let ?i = "generateJobID je (ConfName c)"
  obtain app where app: "createJobFromYaml (je_parse_spark je) sc je c = Inr app"
    using assms by (cases "createJobFromYaml (je_parse_spark je) sc je c") (simp_all add: SparkJob_CreateJob_def Let_def)
  let ?e = "if je_submit_spark je (patchSparkAppVariable sc ?i c app) then None else Some (SubmitError ?i)"
  obtain d1 where r: "persistAndExecuteJob flt (new_job_row now ?i c) ?e d = Inr d1"
    using assms app
    by (cases "persistAndExecuteJob flt (new_job_row now ?i c) ?e d") (simp_all add: SparkJob_CreateJob_def Let_def)
  then have "jobID = ?i" "c' = c" "d' = d1"
    using assms app unfolding SparkJob_CreateJob_def Let_def by auto
  moreover have "JrID (new_job_row now i c) = i" for i by (simp add: new_job_row_def)
  ultimately show ?thesis using persist_Inr [OF r] by (metis disjoint_insert(1) inf_bot_right)
qed

lemma CreateJob_Inr:
  assumes "CreateJob flt sc je now c d = (Inr jobID, c', d')"
  shows "ValidateJob flt (FlavourMap sc) d c = Inr ()"
    and "jobID = generateJobID je (ConfName c)"
    and "jobID \<notin> JrID ` set (tJob d)"
    and "d' = d\<lparr>tJob := tJob d @ [new_job_row now jobID c']\<rparr>"
    and "\<exists>c1. checkResource flt (je_fs je) d c = (Inr (), c1) \<and>
           (c' = c1 \<or> c' = set_env_var EnvJobPSPort ''8001'' c1)"
proof -
  show v: "ValidateJob flt (FlavourMap sc) d c = Inr ()"
    using assms by (cases "ValidateJob flt (FlavourMap sc) d c") (simp_all add: CreateJob_def)
  obtain r c1 where cr: "checkResource flt (je_fs je) d c = (r, c1)" by (rule prod.exhaust)
  have r: "r = Inr ()" using assms v cr by (cases r) (simp_all add: CreateJob_def)
  have nm: "ConfName c1 = ConfName c" using checkResource_frame(1) [of flt "je_fs je" d c] cr by simp
  have "VCJob_CreateJob flt sc je now c1 d = (Inr jobID, c', d') \<or>
        SparkJob_CreateJob flt sc je now c1 d = (Inr jobID, c', d')"
    using assms cr v r by (simp add: CreateJob_def Let_def split: if_splits)
  then have *: "jobID = generateJobID je (ConfName c) \<and> JrID ` set (tJob d) \<inter> {jobID} = {} \<and>
     d' = d\<lparr>tJob := tJob d @ [new_job_row now jobID c']\<rparr> \<and> (c' = c1 \<or> c' = set_env_var EnvJobPSPort ''8001'' c1)"
    using nm VCJob_CreateJob_Inr SparkJob_CreateJob_Inr by metis
  then show "jobID = generateJobID je (ConfName c)" "jobID \<notin> JrID ` set (tJob d)"
    "d' = d\<lparr>tJob := tJob d @ [new_job_row now jobID c']\<rparr>" by blast+
  show "\<exists>c1. checkResource flt (je_fs je) d c = (Inr (), c1) \<and>
           (c' = c1 \<or> c' = set_env_var EnvJobPSPort ''8001'' c1)"
    using * cr r by blast
qed

lemma SparkJob_CreateJob_Inl: "SparkJob_CreateJob flt sc je now c d = (Inl e, c', d') \<Longrightarrow> d' = d"
  unfolding SparkJob_CreateJob_def Let_def by (simp split: sum.splits)

lemma VCJob_CreateJob_Inl: "VCJob_CreateJob flt sc je now c d = (Inl e, c', d') \<Longrightarrow> d' = d"
  by (rule VCJob_CreateJob_cases [of flt sc je now c d]) simp_all

lemma CreateJob_Inl:
  assumes "CreateJob flt sc je now c d = (Inl e, c', d')"
  shows "d' = d"
proof (cases "ValidateJob flt (FlavourMap sc) d c")
  case Inr
  obtain r c1 where "checkResource flt (je_fs je) d c = (r, c1)" by (rule prod.exhaust)
  with Inr assms show ?thesis
    by (cases r)
       (auto simp: CreateJob_def Let_def dest: SparkJob_CreateJob_Inl VCJob_CreateJob_Inl split: if_splits)
qed (use assms in \<open>simp add: CreateJob_def\<close>)

section \<open>Properties\<close>

text \<open>
  C32: A job that \<open>CreateJob\<close> reports as created was validated: it has a name and an image, and its
  user has access to its queue. Its row is the only change of the database, stored under a
  fresh id with the empty status and with the namespace of its queue; its priority is one of LOW,
  NORMAL and HIGH.
\<close>

theorem CreateJob_created:
  assumes "CreateJob flt sc je now c d = (Inr jobID, c', d')"
  shows "ConfName c \<noteq> '''' \<and> ConfImage c \<noteq> '''' \<and>
     HasAccessToResource flt (env_str c EnvJobUserName) ResourceTypeQueue (env_str c EnvJobQueueName) d \<and>
     jobID \<notin> JrID ` set (tJob d) \<and> tJob d' = tJob d @ [new_job_row now jobID c'] \<and>
     (\<exists>q. GetQueueByName flt (env_str c EnvJobQueueName) d = Inr q \<and>
          env_get c' EnvJobNamespace = Some (QNamespace q)) \<and>
     env_str c' EnvJobPriority \<in> {EnvJobLowPriority, EnvJobNormalPriority, EnvJobHighPriority}"
proof -
  obtain c1 where c1: "checkResource flt (je_fs je) d c = (Inr (), c1)"
    "c' = c1 \<or> c' = set_env_var EnvJobPSPort ''8001'' c1"
    using CreateJob_Inr(5) [OF assms] by (elim exE conjE) (rule that)
  have env: "env_get c' EnvJobNamespace = env_get c1 EnvJobNamespace"
    "env_str c' EnvJobPriority = env_str c1 EnvJobPriority" using c1(2) by auto
  show ?thesis
    using ValidateJob_base(1,2,7) [OF CreateJob_Inr(1) [OF assms]] CreateJob_Inr(3,4) [OF assms]
      checkResource_ok(1,2) [OF c1(1)] env
    by simp
qed

definition demo_flavour :: flavour where
  "demo_flavour = \<lparr>Cpu = ''1'', Mem = ''1Gi'', ScalarResources = [], FName = ''small''\<rparr>"

definition demo_server :: server_config where
  "demo_server = \<lparr>FlavourMap = [(''small'', demo_flavour)], SchedulerName = ''volcano'', DefaultJobYamlDir = ''/y''\<rparr>"

definition demo_task :: "string \<Rightarrow> task_spec" where
  "demo_task n =
     \<lparr>TaskName = n, TaskReplicas = 1, TaskLabels = None, TaskContainers = [empty_container], TaskVolumes = []\<rparr>"

definition demo_vc :: "nat \<Rightarrow> vc_job" where
  "demo_vc n =
     \<lparr>VcName = '''', VcNamespace = '''', VcLabels = [], VcQueue = '''', VcPriorityClass = '''', VcScheduler = '''',
      VcMinAvailable = 0, VcTasks = replicate n (demo_task ''t'')\<rparr>"

definition demo_env :: "nat \<Rightarrow> job_env" where
  "demo_env n =
     \<lparr>je_fs = \<lparr>GetFsWithID = (\<lambda>i. Some (''mock'', [(''pvc'', ''claim'')])), CreateFileSystemClaims = (\<lambda>a b. True)\<rparr>,
      je_exists = (\<lambda>p. True), je_read = (\<lambda>p. Some ''y''), je_read_fs = (\<lambda>f p. None),
      je_parse_vc = (\<lambda>s. Some (demo_vc n)), je_parse_spark = (\<lambda>s. None), je_quantity = Some,
      je_submit_vc = (\<lambda>j. True), je_submit_spark = (\<lambda>a. True), je_stop = (\<lambda>g a b. True),
      je_new_id = (\<lambda>s. s @ ''-1'')\<rparr>"

definition demo_conf :: conf where
  "demo_conf =
     \<lparr>ConfName = ''run-1'',
      ConfEnv = [(EnvJobType, TypeVcJob), (EnvJobMode, EnvJobModePod), (EnvJobUserName, ''alice''),
                 (EnvJobQueueName, ''q''), (EnvJobFsID, ''fs-a''), (EnvJobFlavour, ''small'')],
      ConfCommand = ''ls'', ConfImage = ''img''\<rparr>"

definition demo_db :: db where
  "demo_db =
     \<lparr>tGrant = [\<lparr>GrPk = 1, GrID = ''g1'', GrUserName = ''alice'', GrResourceType = ResourceTypeQueue, GrResourceID = ''q''\<rparr>],
      tQueue = [\<lparr>QPk = 1, QNamespace = ''ns'', QClusterName = '''', QName = ''q'', QCpu = ''4'', QMem = ''4Gi'',
                QScalar = [], QStatus = StatusQueueOpen\<rparr>],
      tUser = [], tJob = [], nGrant = 1, nQueue = 1, nUser = 0, dbScan = []\<rparr>"

definition demo_conf' :: conf where
  "demo_conf' = set_env_var EnvJobPriority EnvJobNormalPriority
     (set_env_var EnvJobPVCName ''claim'' (set_env_var EnvJobNamespace ''ns'' demo_conf))"

lemma CreateJob_created_witness:
  "env_get demo_conf' EnvJobNamespace = Some ''ns'' \<and>
   tJob (demo_db\<lparr>tJob := [new_job_row 5 ''job-run-1-1'' demo_conf']\<rparr>) = tJob demo_db @ [new_job_row 5 ''job-run-1-1'' demo_conf']"
proof -
  have "CreateJob (\<lambda>_. False) demo_server (demo_env 1) 5 demo_conf demo_db =
      (Inr ''job-run-1-1'', demo_conf', demo_db\<lparr>tJob := [new_job_row 5 ''job-run-1-1'' demo_conf']\<rparr>)"
    by code_simp
  from CreateJob_created [OF this] show ?thesis
    by (auto simp: GetQueueByName_def first_row_def demo_db_def demo_conf_def env_str_def mstr_def)
qed

text \<open>
  A call of \<open>CreateJob\<close> that reports an error leaves no job row behind: the transaction of
  \<open>persistAndExecuteJob\<close> is undone when the submission fails.
\<close>

theorem CreateJob_failed_no_row:
  assumes "CreateJob flt sc je now c d = (Inl e, c', d')"
  shows "d' = d"
  using assms by (rule CreateJob_Inl)

lemma CreateJob_failed_no_row_witness:
  "snd (snd (CreateJob (\<lambda>_. False) demo_server ((demo_env 1)\<lparr>je_submit_vc := (\<lambda>j. False)\<rparr>) 5 demo_conf demo_db)) = demo_db"
proof -
  have "CreateJob (\<lambda>_. False) demo_server ((demo_env 1)\<lparr>je_submit_vc := (\<lambda>j. False)\<rparr>) 5 demo_conf demo_db =
      (Inl (SubmitError ''job-run-1-1''), demo_conf', demo_db)"
    by code_simp
  with CreateJob_failed_no_row [OF this] show ?thesis by simp
qed

text \<open>
  A job status that is immutable (succeeded, failed, terminated) is never overwritten by
  \<open>UpdateJob\<close>, and no other job changes.
\<close>

theorem UpdateJob_immutable:
  assumes "j \<in> set (tJob d)" and "IsImmutableJobStatus (JrStatus j)" and "job_ids_unique d"
  shows "\<exists>j'\<in>set (tJob (snd (UpdateJob flt now jobID st info msg d))).
           JrID j' = JrID j \<and> JrStatus j' = JrStatus j"
proof (cases "GetJobByID flt jobID d")
  case (Inl e)
  then show ?thesis using assms(1) by (auto simp: UpdateJob_def)
next
  case (Inr r)
  then have r: "r \<in> set (tJob d)" "JrID r = jobID" using GetJobByID_mem by blast+
  show ?thesis
  proof (cases "flt DbSaveJob \<or> JrID j \<noteq> jobID")
    case True
    then have "j \<in> set (tJob (snd (UpdateJob flt now jobID st info msg d)))"
      using Inr assms(1) by (auto simp: UpdateJob_def Let_def)
    then show ?thesis by blast
  next
    case False
    then have "r = j"
      using r assms(1,3) by (auto simp: job_ids_unique_def distinct_map inj_on_def)
    moreover have "updated_job now st info msg r \<in> set (tJob (snd (UpdateJob flt now jobID st info msg d)))"
      using Inr False r by (auto simp: UpdateJob_def Let_def)
    ultimately show ?thesis using assms(2) by (intro bexI) (auto simp: updated_job_status)
  qed
qed

definition demo_job :: "string \<Rightarrow> job_status \<Rightarrow> job_row" where
  "demo_job i st = (new_job_row 1 i demo_conf)\<lparr>JrStatus := st\<rparr>"

lemma UpdateJob_immutable_witness:
  "\<exists>j'\<in>set (tJob (snd (UpdateJob (\<lambda>_. False) 9 ''a'' StatusJobRunning None ''m''
        (demo_db\<lparr>tJob := [demo_job ''a'' StatusJobFailed, demo_job ''b'' StatusJobRunning]\<rparr>)))).
     JrID j' = ''a'' \<and> JrStatus j' = StatusJobFailed"
proof -
  let ?d = "demo_db\<lparr>tJob := [demo_job ''a'' StatusJobFailed, demo_job ''b'' StatusJobRunning]\<rparr>"
  have "demo_job ''a'' StatusJobFailed \<in> set (tJob ?d)" by simp
  moreover have "IsImmutableJobStatus (JrStatus (demo_job ''a'' StatusJobFailed))"
    by (simp add: IsImmutableJobStatus_def demo_job_def)
  moreover have "job_ids_unique ?d" by (simp add: job_ids_unique_def demo_job_def new_job_row_def)
  ultimately show ?thesis
    using UpdateJob_immutable [of "demo_job ''a'' StatusJobFailed" ?d "\<lambda>_. False" 9 "''a''" StatusJobRunning None "''m''"]
    by (simp add: demo_job_def new_job_row_def)
qed

text \<open>
  In parameter-server mode the configured replica counts and the file-system volume never reach
  the submitted tasks: the code fills copies of the two task specifications. Only the minimum
  of available pods follows the configuration.
\<close>

theorem PS_mode_loses_replicas:
  assumes "fillPSJobSpec sc q c j = (None, j', c')"
  shows "map TaskReplicas (VcTasks j') = map TaskReplicas (VcTasks j) \<and>
     map TaskVolumes (VcTasks j') = map TaskVolumes (VcTasks j)"
proof -
  obtain t0 t1 where "VcTasks j = [t0, t1]"
    using assms by (auto simp: fillPSJobSpec_def Let_def split: list.splits)
  with assms show ?thesis
    by (auto simp: fillPSJobSpec_def Let_def split: prod.splits option.splits)
qed

definition demo_ps_conf :: conf where
  "demo_ps_conf = demo_conf\<lparr>ConfEnv :=
     [(EnvJobPServerCommand, ''ps''), (EnvJobWorkerCommand, ''w''), (EnvJobPServerReplicas, ''3''),
      (EnvJobWorkerReplicas, ''4''), (EnvJobPServerFlavour, ''small''), (EnvJobWorkerFlavour, ''small'')]\<rparr>"

lemma PS_mode_loses_replicas_witness:
  "(let j' = fst (snd (fillPSJobSpec demo_server Some demo_ps_conf (demo_vc 2)))
    in VcMinAvailable j' = 7 \<and> map TaskReplicas (VcTasks j') = [1, 1])"
proof -
  obtain e j' c' where f: "fillPSJobSpec demo_server Some demo_ps_conf (demo_vc 2) = (e, j', c')"
    by (rule prod_cases3)
  have "fst (fillPSJobSpec demo_server Some demo_ps_conf (demo_vc 2)) = None"
    "VcMinAvailable (fst (snd (fillPSJobSpec demo_server Some demo_ps_conf (demo_vc 2)))) = 7"
    by code_simp+
  then have e: "e = None" and m: "VcMinAvailable j' = 7" using f by simp_all
  have "map TaskReplicas (VcTasks (demo_vc 2)) = [1, 1]" by code_simp
  with PS_mode_loses_replicas [OF f [unfolded e]] m f show ?thesis by simp
qed

end
