(* ===== verification/PF_Job.thy ===== *)
theory PF_Job
  imports PF_JobApp
begin

text \<open>
  Jobs and events of the pipeline engine (\<open>pkg/pipeline/job.go\<close>, \<open>pkg/pipeline/event.go\<close>). The Go
  interface \<open>Job\<close> is the locale \<open>job_interface\<close>: its status predicates and the laws that the
  scheduler of \<open>run.go\<close> relies on. \<open>PaddleFlowJob\<close> interprets it.

  \<open>Watch\<close> polls the job table for ever. One iteration is \<open>watch_poll\<close>; \<open>watch_polls\<close> runs it over a
  list of poll results, and the list ends early when the loop breaks. The format of time stamps
  (\<open>time.Format\<close>) is the argument \<open>fmt\<close>.
\<close>

section \<open>Events (event.go)\<close>

datatype wf_event_value =
    WfEventJobUpdate | WfEventRunUpdate | WfEventJobSubmitErr | WfEventJobWatchErr
  | WfEventJobStopErr | WfEventRunSysError | WfEventZero

datatype wf_event_type = WfEventNormal | WfEventWarn | WfEventError

text \<open>The extra map of a job event: status, previous status, job id, and the message when the event
  comes from \<open>Watch\<close>.\<close>

record job_extra =
  ExStatus :: job_status
  ExPreStatus :: job_status
  ExJobID :: string
  ExMessage :: "string option"

record workflow_event =
  EvType :: wf_event_type
  Event :: wf_event_value
  Message :: string
  Extra :: "job_extra option"

definition NewWorkflowEvent :: "wf_event_value \<Rightarrow> string \<Rightarrow> job_extra option \<Rightarrow> workflow_event" where
  "NewWorkflowEvent e msg extra = \<lparr>EvType = WfEventNormal, Event = e, Message = msg, Extra = extra\<rparr>"

definition isJobUpdate :: "workflow_event \<Rightarrow> bool" where
  "isJobUpdate wfe = (Event wfe = WfEventJobUpdate)"

definition isRunUpdate :: "workflow_event \<Rightarrow> bool" where
  "isRunUpdate wfe = (Event wfe = WfEventRunUpdate)"

definition isJobWatchErr :: "workflow_event \<Rightarrow> bool" where
  "isJobWatchErr wfe = (Event wfe = WfEventJobWatchErr)"

definition isJobSubmitErr :: "workflow_event \<Rightarrow> bool" where
  "isJobSubmitErr wfe = (Event wfe = WfEventJobSubmitErr)"

definition isJobStopErr :: "workflow_event \<Rightarrow> bool" where
  "isJobStopErr wfe = (Event wfe = WfEventJobStopErr)"

definition getJobUpdate :: "workflow_event \<Rightarrow> job_extra option \<times> bool" where
  "getJobUpdate wfe = (Extra wfe, isJobUpdate wfe)"

section \<open>Jobs (job.go)\<close>

record base_job =
  JbId :: string
  JbName :: string
  JbCommand :: string
  JbParameters :: "string gomap"
  JbArtifacts :: artifacts
  JbEnv :: "string gomap"
  JbStartTime :: string
  JbEndTime :: string
  JbStatus :: job_status
  JbDeps :: string
  JbMessage :: string

record paddleflow_job = base_job +
  JbImage :: string

definition NewPaddleFlowJob :: "string \<Rightarrow> string \<Rightarrow> string \<Rightarrow> paddleflow_job" where
  "NewPaddleFlowJob name img deps =
     \<lparr>JbId = '''', JbName = name, JbCommand = '''', JbParameters = [], JbArtifacts = \<lparr>Input = [], Output = []\<rparr>,
      JbEnv = [], JbStartTime = '''', JbEndTime = '''', JbStatus = StatusJobNone, JbDeps = deps,
      JbMessage = '''', JbImage = img\<rparr>"

text \<open>A nil map or nil pointer argument is \<open>None\<close>.\<close>

definition job_Update ::
  "string \<Rightarrow> string gomap option \<Rightarrow> string gomap option \<Rightarrow> artifacts option \<Rightarrow>
   paddleflow_job \<Rightarrow> paddleflow_job" where
  "job_Update cmd params envs arts pfj =
     (let j1 = (if cmd \<noteq> '''' then pfj\<lparr>JbCommand := cmd\<rparr> else pfj);
          j2 = (case params of Some p \<Rightarrow> j1\<lparr>JbParameters := p\<rparr> | None \<Rightarrow> j1);
          j3 = (case envs of Some e \<Rightarrow> j2\<lparr>JbEnv := e\<rparr> | None \<Rightarrow> j2)
      in case arts of Some a \<Rightarrow> j3\<lparr>JbArtifacts := a\<rparr> | None \<Rightarrow> j3)"

definition job_conf :: "paddleflow_job \<Rightarrow> conf" where
  "job_conf pfj =
     \<lparr>ConfName = JbName pfj, ConfEnv = JbEnv pfj, ConfCommand = JbCommand pfj, ConfImage = JbImage pfj\<rparr>"

definition job_Validate :: "faults \<Rightarrow> 'f gomap \<Rightarrow> db \<Rightarrow> paddleflow_job \<Rightarrow> job_error + unit" where
  "job_Validate flt fm d pfj = ValidateJob flt fm d (job_conf pfj)"

text \<open>\<open>Start\<close> hands the environment map itself to the job service: what the service adds to it
  stays in the job. The id becomes empty when the creation fails.\<close>

definition job_Start ::
  "faults \<Rightarrow> server_config \<Rightarrow> job_env \<Rightarrow> timestamp \<Rightarrow> db \<Rightarrow> paddleflow_job \<Rightarrow>
   (job_error + string) \<times> paddleflow_job \<times> db" where
  "job_Start flt sc je now d pfj =
     (case CreateJob flt sc je now (job_conf pfj) d of
        (Inl e, c', d') \<Rightarrow> (Inl e, pfj\<lparr>JbId := '''', JbEnv := ConfEnv c'\<rparr>, d')
      | (Inr jobID, c', d') \<Rightarrow> (Inr jobID, pfj\<lparr>JbId := jobID, JbEnv := ConfEnv c'\<rparr>, d'))"

definition job_Stop :: "faults \<Rightarrow> job_env \<Rightarrow> db \<Rightarrow> paddleflow_job \<Rightarrow> job_error + unit" where
  "job_Stop flt je d pfj = StopJobByID flt je (JbId pfj) d"

definition job_Check :: "faults \<Rightarrow> db \<Rightarrow> paddleflow_job \<Rightarrow> job_error + job_status" where
  "job_Check flt d pfj =
     (if JbId pfj = '''' then Inl (JobIDNotFoundError '''') else GetJobStatusByID flt (JbId pfj) d)"

definition Succeeded :: "'a base_job_scheme \<Rightarrow> bool" where
  "Succeeded pfj = (JbStatus pfj = StatusJobSucceeded)"

definition Cached :: "'a base_job_scheme \<Rightarrow> bool" where
  "Cached pfj = (JbStatus pfj = StatusJobCached)"

definition Failed :: "'a base_job_scheme \<Rightarrow> bool" where
  "Failed pfj = (JbStatus pfj = StatusJobFailed)"

definition Terminated :: "'a base_job_scheme \<Rightarrow> bool" where
  "Terminated pfj = (JbStatus pfj = StatusJobTerminated)"

definition NotEnded :: "'a base_job_scheme \<Rightarrow> bool" where
  "NotEnded pfj =
     (JbStatus pfj = StatusJobNone \<or> JbStatus pfj = StatusJobTerminating \<or>
      JbStatus pfj = StatusJobRunning \<or> JbStatus pfj = StatusJobPending)"

definition Started :: "'a base_job_scheme \<Rightarrow> bool" where
  "Started pfj = (JbStatus pfj \<noteq> StatusJobNone)"

lemmas job_predicates = Succeeded_def Cached_def Failed_def Terminated_def NotEnded_def Started_def

section \<open>The Job interface\<close>

text \<open>What the scheduler relies on: an ended job has exactly one verdict, a verdict implies that the
  job was started, and \<open>NotEnded\<close> excludes every verdict.\<close>

locale job_interface =
  fixes succeeded cached failed terminated notEnded started :: "'j \<Rightarrow> bool"
  assumes verdict_started: "succeeded j \<or> cached j \<or> failed j \<or> terminated j \<Longrightarrow> started j"
    and verdict_ended: "succeeded j \<or> cached j \<or> failed j \<or> terminated j \<Longrightarrow> \<not> notEnded j"
    and verdict_unique:
      "succeeded j \<Longrightarrow> \<not> cached j \<and> \<not> failed j \<and> \<not> terminated j"
      "cached j \<Longrightarrow> \<not> failed j \<and> \<not> terminated j"
      "failed j \<Longrightarrow> \<not> terminated j"
    and fresh_not_ended: "\<not> started j \<Longrightarrow> notEnded j"
begin

lemma verdict_ready_excludes:
  "succeeded j \<or> cached j \<Longrightarrow> \<not> failed j \<and> \<not> terminated j"
  using verdict_unique by blast

lemma ended_started: "\<not> notEnded j \<Longrightarrow> started j"
  using fresh_not_ended by blast

lemma count_verdicts:
  "length (filter succeeded js) + length (filter cached js) + length (filter failed js) +
   length (filter terminated js) + length (filter notEnded js) \<le> length js"
proof (induction js)
  case (Cons j js)
  have "of_bool (succeeded j) + of_bool (cached j) + of_bool (failed j) + of_bool (terminated j) +
        of_bool (notEnded j) \<le> (1 :: nat)"
    using verdict_unique [of j] verdict_ended [of j] by (auto simp: of_bool_def)
  with Cons show ?case by (auto split: if_splits)
qed simp

end

interpretation pfj: job_interface Succeeded Cached Failed Terminated NotEnded Started
  by unfold_locales (auto simp: job_predicates)

section \<open>Watch\<close>

text \<open>The answer of \<open>job.GetJobByID\<close> in one iteration: an error text or the row.\<close>

type_synonym poll = "string + job_row"

record watcher =
  WJob :: paddleflow_job
  WTry :: nat

datatype watch_next = WatchOn | WatchBreak | WatchReturn

definition TryMax :: nat where "TryMax = 5"

definition watch_poll ::
  "(timestamp \<Rightarrow> string) \<Rightarrow> poll \<Rightarrow> watcher \<Rightarrow> watch_next \<times> workflow_event list \<times> watcher" where
  "watch_poll fmt p w =
     (let pfj = WJob w
      in if JbId pfj = '''' then
           (WatchReturn,
            [NewWorkflowEvent WfEventJobWatchErr
               ''watch paddleflow job failed, job not started, id is empty!'' None], w)
         else case p of
           Inl err \<Rightarrow>
             if WTry w < TryMax then (WatchOn, [], w\<lparr>WTry := WTry w + 1\<rparr>)
             else (WatchOn,
                   [NewWorkflowEvent WfEventJobWatchErr
                      (''get job by jobid['' @ JbId pfj @ ''] failed: '' @ err) None],
                   w\<lparr>WTry := 0\<rparr>)
         | Inr row \<Rightarrow>
             (let j1 = pfj\<lparr>JbStartTime := fmt (JrCreatedAt row)\<rparr>;
                  changed = (JrStatus row \<noteq> JbStatus j1 \<or> JrMessage row \<noteq> JbMessage j1);
                  evs = (if changed
                         then [NewWorkflowEvent WfEventJobUpdate ''''
                                 (Some \<lparr>ExStatus = JrStatus row, ExPreStatus = JbStatus j1,
                                        ExJobID = JbId j1, ExMessage = Some (JrMessage row)\<rparr>)]
                         else []);
                  j2 = (if changed then j1\<lparr>JbStatus := JrStatus row, JbMessage := JrMessage row\<rparr> else j1)
              in if Succeeded j2 \<or> Terminated j2 \<or> Failed j2
                 then (WatchBreak, evs, \<lparr>WJob = j2\<lparr>JbEndTime := fmt (JrUpdatedAt row)\<rparr>, WTry = 0\<rparr>)
                 else (WatchOn, evs, \<lparr>WJob = j2, WTry = 0\<rparr>)))"

fun watch_polls ::
  "(timestamp \<Rightarrow> string) \<Rightarrow> poll list \<Rightarrow> watcher \<Rightarrow> watch_next \<times> workflow_event list \<times> watcher" where
  "watch_polls fmt [] w = (WatchOn, [], w)"
| "watch_polls fmt (p # ps) w =
     (case watch_poll fmt p w of
        (WatchOn, evs, w') \<Rightarrow>
          (case watch_polls fmt ps w' of (r, evs', w'') \<Rightarrow> (r, evs @ evs', w''))
      | (r, evs, w') \<Rightarrow> (r, evs, w'))"

definition job_Watch :: "(timestamp \<Rightarrow> string) \<Rightarrow> poll list \<Rightarrow> paddleflow_job \<Rightarrow>
  watch_next \<times> workflow_event list \<times> watcher" where
  "job_Watch fmt ps pfj = watch_polls fmt ps \<lparr>WJob = pfj, WTry = 0\<rparr>"

subsection \<open>What the watcher reports\<close>

text \<open>The statuses that the update events carry, each with the status before it.\<close>

definition updates :: "workflow_event list \<Rightarrow> (job_status \<times> job_status) list" where
  "updates evs = concat (map (\<lambda>e. case Extra e of None \<Rightarrow> [] | Some x \<Rightarrow> [(ExPreStatus x, ExStatus x)]) evs)"

fun chained :: "job_status \<Rightarrow> (job_status \<times> job_status) list \<Rightarrow> job_status \<Rightarrow> bool" where
  "chained s [] t = (s = t)"
| "chained s ((a, b) # us) t = (a = s \<and> chained b us t)"

lemma updates_append [simp]: "updates (xs @ ys) = updates xs @ updates ys"
  by (simp add: updates_def)

lemma updates_simps [simp]:
  "updates [] = []"
  "updates [NewWorkflowEvent v m None] = []"
  "updates [NewWorkflowEvent v m (Some x)] = [(ExPreStatus x, ExStatus x)]"
  by (simp_all add: updates_def NewWorkflowEvent_def)

lemma chained_append: "chained s (xs @ ys) u \<longleftrightarrow> (\<exists>t. chained s xs t \<and> chained t ys u)"
  by (induction s xs u rule: chained.induct) auto

lemma watch_poll_facts:
  assumes "watch_poll fmt p w = (r, evs, w')"
  shows "JbId (WJob w') = JbId (WJob w)"
    and "length evs \<le> 1"
    and "chained (JbStatus (WJob w)) (updates evs) (JbStatus (WJob w'))"
    and "r = WatchBreak \<Longrightarrow> Succeeded (WJob w') \<or> Failed (WJob w') \<or> Terminated (WJob w')"
    and "r = WatchOn \<Longrightarrow> p = Inr row \<Longrightarrow>
           \<not> (Succeeded (WJob w') \<or> Failed (WJob w') \<or> Terminated (WJob w'))"
    and "JbId (WJob w) \<noteq> '''' \<Longrightarrow> r \<noteq> WatchReturn"
  using assms
  by (auto simp: watch_poll_def Let_def job_predicates split: if_splits sum.splits)

lemma watch_polls_chain:
  "watch_polls fmt ps w = (r, evs, w') \<Longrightarrow>
     chained (JbStatus (WJob w)) (updates evs) (JbStatus (WJob w'))"
proof (induction ps arbitrary: w evs)
  case (Cons p ps)
  obtain r1 e1 w1 where 1: "watch_poll fmt p w = (r1, e1, w1)" by (rule prod_cases3)
  note c1 = watch_poll_facts(3) [OF 1]
  show ?case
  proof (cases r1)
    case WatchOn
    obtain r2 e2 w2 where 2: "watch_polls fmt ps w1 = (r2, e2, w2)" by (rule prod_cases3)
    have "evs = e1 @ e2" "w' = w2" using Cons.prems 1 2 WatchOn by simp_all
    moreover have "chained (JbStatus (WJob w1)) (updates e2) (JbStatus (WJob w2))"
      using Cons.IH [of w1 e2] Cons.prems 1 2 WatchOn by simp
    ultimately show ?thesis using c1 by (auto simp: chained_append)
  qed (use Cons.prems 1 c1 in auto)
qed simp

lemma watch_polls_break:
  "watch_polls fmt ps w = (WatchBreak, evs, w') \<Longrightarrow>
     Succeeded (WJob w') \<or> Failed (WJob w') \<or> Terminated (WJob w')"
proof (induction ps arbitrary: w evs)
  case (Cons p ps)
  obtain r1 e1 w1 where 1: "watch_poll fmt p w = (r1, e1, w1)" by (rule prod_cases3)
  show ?case
  proof (cases r1)
    case WatchOn
    obtain r2 e2 w2 where 2: "watch_polls fmt ps w1 = (r2, e2, w2)" by (rule prod_cases3)
    with Cons 1 WatchOn show ?thesis by auto
  next
    case WatchBreak
    with Cons.prems 1 watch_poll_facts(4) [OF 1] show ?thesis by auto
  next
    case WatchReturn
    with Cons.prems 1 show ?thesis by auto
  qed
qed simp

lemma watch_errors_step:
  assumes "JbId (WJob w) \<noteq> ''''" and "WTry w \<le> TryMax"
  shows "\<exists>e. length e = (if WTry w = TryMax then 1 else 0) \<and>
     watch_poll fmt (Inl err) w =
       (WatchOn, e, w\<lparr>WTry := (if WTry w = TryMax then 0 else WTry w + 1)\<rparr>)"
  using assms by (auto simp: watch_poll_def Let_def)

text \<open>Six failed polls in a row make one error event.\<close>

lemma watch_errors:
  assumes "JbId (WJob w) \<noteq> ''''" and "WTry w \<le> TryMax"
  shows "\<exists>e w'. watch_polls fmt (map Inl errs) w = (WatchOn, e, w') \<and>
     length e = (length errs + WTry w) div Suc TryMax \<and> WJob w' = WJob w"
  using assms
proof (induction errs arbitrary: w)
  case Nil
  then show ?case by simp
next
  case (Cons err errs)
  let ?w = "w\<lparr>WTry := (if WTry w = TryMax then 0 else WTry w + 1)\<rparr>"
  obtain e1 where e1: "length e1 = (if WTry w = TryMax then 1 else 0)"
    "watch_poll fmt (Inl err) w = (WatchOn, e1, ?w)"
    using watch_errors_step [OF Cons.prems] by blast
  have "JbId (WJob ?w) \<noteq> ''''" "WTry ?w \<le> TryMax" using Cons.prems by auto
  from Cons.IH [OF this] obtain e2 w2 where
    2: "watch_polls fmt (map Inl errs) ?w = (WatchOn, e2, w2)"
    "length e2 = (length errs + WTry ?w) div Suc TryMax" "WJob w2 = WJob ?w" by blast
  have "length (e1 @ e2) = (length (err # errs) + WTry w) div Suc TryMax"
    using e1(1) 2(2) by (auto simp: TryMax_def)
  with 2 e1(2) show ?case by simp
qed

section \<open>Properties\<close>

text \<open>
  The update events of a watcher form one chain: each carries the status that the previous one
  reported, the first starts at the status the job had and the last ends at the status it has.
\<close>

theorem Watch_events_chain:
  assumes "job_Watch fmt ps pfj = (r, evs, w)"
  shows "chained (JbStatus pfj) (updates evs) (JbStatus (WJob w))"
  using watch_polls_chain [OF assms [unfolded job_Watch_def]] by simp

definition demo_row :: "job_status \<Rightarrow> job_row" where
  "demo_row st = (new_job_row 1 ''j'' demo_conf)\<lparr>JrStatus := st\<rparr>"

definition demo_pfj :: paddleflow_job where
  "demo_pfj = (NewPaddleFlowJob ''run-1-a'' ''img'' '''')\<lparr>JbId := ''j''\<rparr>"

definition demo_polls :: "poll list" where
  "demo_polls = [Inr (demo_row StatusJobPending), Inl ''down'', Inr (demo_row StatusJobRunning),
     Inr (demo_row StatusJobRunning), Inr (demo_row StatusJobFailed), Inr (demo_row StatusJobRunning)]"

lemma Watch_events_chain_witness:
  "(case job_Watch itoa demo_polls demo_pfj of
      (r, evs, w) \<Rightarrow> r = WatchBreak \<and> length evs = 3 \<and> chained StatusJobNone (updates evs) StatusJobFailed)"
proof -
  obtain r evs w where w: "job_Watch itoa demo_polls demo_pfj = (r, evs, w)" by (rule prod_cases3)
  have "fst (job_Watch itoa demo_polls demo_pfj) = WatchBreak"
    "length (fst (snd (job_Watch itoa demo_polls demo_pfj))) = 3"
    "JbStatus (WJob (snd (snd (job_Watch itoa demo_polls demo_pfj)))) = StatusJobFailed"
    "JbStatus demo_pfj = StatusJobNone" by code_simp+
  with Watch_events_chain [OF w] w show ?thesis by simp
qed

text \<open>
  While the job service cannot be read, the watcher keeps polling, leaves the job untouched, and
  sends one error event for every six failed polls in a row.
\<close>

theorem Watch_error_rate:
  assumes "JbId pfj \<noteq> ''''"
  shows "\<exists>evs w. job_Watch fmt (map Inl errs) pfj = (WatchOn, evs, w) \<and>
     length evs = length errs div 6 \<and> WJob w = pfj"
proof -
  have "\<exists>e w'. watch_polls fmt (map Inl errs) \<lparr>WJob = pfj, WTry = 0\<rparr> = (WatchOn, e, w') \<and>
     length e = (length errs + WTry \<lparr>WJob = pfj, WTry = 0\<rparr>) div Suc TryMax \<and>
     WJob w' = WJob \<lparr>WJob = pfj, WTry = 0\<rparr>"
    by (rule watch_errors) (use assms in simp_all)
  then show ?thesis by (simp add: job_Watch_def TryMax_def)
qed

lemma Watch_error_rate_witness:
  "\<exists>evs w. job_Watch itoa (map Inl (replicate 13 ''down'')) demo_pfj = (WatchOn, evs, w) \<and>
     length evs = 2 \<and> WJob w = demo_pfj"
  using Watch_error_rate [of demo_pfj itoa "replicate 13 ''down''"]
  by (simp add: demo_pfj_def)

text \<open>
  The watcher ends by itself only when the job succeeded, failed or was terminated, so a job that
  ends as \<open>cancelled\<close> or \<open>cached\<close> would be polled for ever.
\<close>

theorem Watch_break_final:
  assumes "job_Watch fmt ps pfj = (WatchBreak, evs, w)"
  shows "Succeeded (WJob w) \<or> Failed (WJob w) \<or> Terminated (WJob w)"
  using watch_polls_break [OF assms [unfolded job_Watch_def]] .

lemma Watch_break_final_witness:
  "\<not> NotEnded (WJob (snd (snd (job_Watch itoa demo_polls demo_pfj))))"
proof -
  obtain r evs w where w: "job_Watch itoa demo_polls demo_pfj = (r, evs, w)" by (rule prod_cases3)
  have "fst (job_Watch itoa demo_polls demo_pfj) = WatchBreak" by code_simp
  then have "job_Watch itoa demo_polls demo_pfj = (WatchBreak, evs, w)" using w by simp
  from Watch_break_final [OF this] show ?thesis
    using pfj.verdict_ended w by auto
qed

end
