(* ===== verification/PF_Workflow.thy ===== *)
theory PF_Workflow
  imports PF_Graph PF_Params PF_Job
begin

text \<open>
  Building a workflow (\<open>pkg/pipeline/workflow.go\<close> and \<open>NewStep\<close>, \<open>updateJob\<close> of \<open>step.go\<close>): validation
  of the source, replacement of run parameters, check of every step, creation of the step
  objects in topological order, and the restoration of a stored runtime view.

  The run steps are pointers to the steps of the source, so one store, \<open>EntryPoints\<close> of the source,
  holds their contents and \<open>WfRunSteps\<close> their names; the \<open>info\<close> pointer of a step object is its name.
  Two iteration orders of Go maps are arguments: \<open>ord\<close> for the sweeps of \<open>topologicalSort\<close> and
  \<open>ordS\<close> for \<open>checkSteps\<close>; the other loops follow the association lists, which stand for any order.
\<close>

section \<open>Data\<close>

record step =
  StName :: string
  StReady :: bool
  StDone :: bool
  StSubmitted :: bool
  StJob :: paddleflow_job
  StFirstFp :: string
  StSecondFp :: string

record workflow =
  WfRunID :: string
  WfEntry :: string
  WfParams :: "pval gomap"
  WfExtra :: "string gomap"
  WfSource :: wf_source
  WfRunSteps :: "string list"
  WfParallel :: int
  WfSteps :: "step gomap"

datatype workflow_error =
    EntryNotExist string
  | EmptyStepName string
  | NotAcyclicError
  | BadMaxExpiredTime string
  | ParamStepNotFound string string
  | ParamNotInStep string string
  | ParamNotExist string
  | ParamError param_error
  | StepJobError job_error
  | VisitError

definition lift_err :: "('e \<Rightarrow> 'f) \<Rightarrow> 'e + 'a \<Rightarrow> 'f + 'a" where
  "lift_err f m = (case m of Inl e \<Rightarrow> Inl (f e) | Inr x \<Rightarrow> Inr x)"

lemma lift_err_Inr [simp]: "lift_err f m = Inr x \<longleftrightarrow> m = Inr x"
  by (cases m) (auto simp: lift_err_def)

text \<open>The map \<open>runSteps\<close>: the named part of the store.\<close>

definition run_map :: "wf_step gomap \<Rightarrow> string list \<Rightarrow> wf_step gomap" where
  "run_map eps names = filter (\<lambda>(n, st). n \<in> set names) eps"

abbreviation wf_eps :: "workflow \<Rightarrow> wf_step gomap" where
  "wf_eps w \<equiv> EntryPoints (WfSource w)"

definition set_eps :: "wf_step gomap \<Rightarrow> workflow \<Rightarrow> workflow" where
  "set_eps eps w = w\<lparr>WfSource := (WfSource w)\<lparr>EntryPoints := eps\<rparr>\<rparr>"

section \<open>Validation\<close>

definition NewBaseWorkflow ::
  "wf_source \<Rightarrow> string \<Rightarrow> string \<Rightarrow> pval gomap \<Rightarrow> string gomap \<Rightarrow> workflow_error + workflow" where
  "NewBaseWorkflow source runID entry params extra =
     bindE (lift_err (\<lambda>_. VisitError) (getRunSteps (EntryPoints source) entry)) (\<lambda>names.
       Inr \<lparr>WfRunID = runID, WfEntry = entry, WfParams = params, WfExtra = extra, WfSource = source,
            WfRunSteps = names, WfParallel = 0, WfSteps = []\<rparr>)"

definition checkCache :: "workflow \<Rightarrow> workflow_error + workflow" where
  "checkCache w =
     (let c = WCache (WfSource w);
          c1 = (if MaxExpiredTime c = '''' then c\<lparr>MaxExpiredTime := ''-1''\<rparr> else c)
      in case atoi (MaxExpiredTime c1) of
           None \<Rightarrow> Inl (BadMaxExpiredTime (MaxExpiredTime c1))
         | Some _ \<Rightarrow>
             (let c2 = (if FsScope c1 = '''' then c1\<lparr>FsScope := ''/''\<rparr> else c1)
              in Inr (w\<lparr>WfSource := (WfSource w)\<lparr>WCache := c2\<rparr>\<rparr>)))"

definition checkRunYaml :: "map_order \<Rightarrow> workflow \<Rightarrow> workflow_error + workflow" where
  "checkRunYaml ord w =
     (if list_ex (\<lambda>stepName. stepName = '''') (keys (wf_eps w)) then Inl (EmptyStepName (WfRunID w))
      else bindE (lift_err (\<lambda>_. NotAcyclicError) (topologicalSort ord (run_map (wf_eps w) (WfRunSteps w))))
             (\<lambda>_. checkCache w))"

text \<open>\<open>dictParam.From(orgVal)\<close> with the check of the new value when it succeeds.\<close>

definition check_new_value :: "decoder \<Rightarrow> pval \<Rightarrow> string \<Rightarrow> pval \<Rightarrow> workflow_error + unit" where
  "check_new_value dec orgVal paramName val =
     (case dec orgVal of
        None \<Rightarrow> Inr ()
      | Some dictParam \<Rightarrow>
          (case checkDictParam dictParam paramName val of
             Inl e \<Rightarrow> Inl (ParamError e)
           | Inr _ \<Rightarrow> Inr ()))"

fun replace_in_first ::
  "decoder \<Rightarrow> string \<Rightarrow> pval \<Rightarrow> wf_step gomap \<Rightarrow> (workflow_error + wf_step gomap) option" where
  "replace_in_first dec paramName val [] = None"
| "replace_in_first dec paramName val ((n, st) # rest) =
     (case mget (Parameters st) paramName of
        Some orgVal \<Rightarrow>
          Some (bindE (check_new_value dec orgVal paramName val)
                  (\<lambda>_. Inr ((n, set_param paramName val st) # rest)))
      | None \<Rightarrow> map_option (\<lambda>r. bindE r (\<lambda>eps. Inr ((n, st) # eps))) (replace_in_first dec paramName val rest))"

definition replaceRunParam ::
  "decoder \<Rightarrow> string \<Rightarrow> pval \<Rightarrow> wf_step gomap \<Rightarrow> workflow_error + wf_step gomap" where
  "replaceRunParam dec param val eps =
     (let (stepName, paramName) = parseParamName param
      in if length stepName \<noteq> 0 then
           (case mget eps stepName of
              None \<Rightarrow> Inl (ParamStepNotFound stepName param)
            | Some step \<Rightarrow>
                (case mget (Parameters step) paramName of
                   None \<Rightarrow> Inl (ParamNotInStep paramName stepName)
                 | Some orgVal \<Rightarrow>
                     bindE (check_new_value dec orgVal paramName val)
                       (\<lambda>_. Inr (mput stepName (set_param paramName val step) eps))))
         else (case replace_in_first dec paramName val eps of
                 None \<Rightarrow> Inl (ParamNotExist param)
               | Some r \<Rightarrow> r))"

definition checkParams :: "decoder \<Rightarrow> workflow \<Rightarrow> workflow_error + workflow" where
  "checkParams dec w =
     bindE (foldE (\<lambda>(k, v) eps. replaceRunParam dec k v eps) (WfParams w) (wf_eps w))
       (\<lambda>eps. Inr (set_eps eps w))"

definition check_sys_params :: "string gomap" where
  "check_sys_params =
     [(''PF_RUN_ID'', ''''), (''PF_FS_ID'', ''''), (''PF_STEP_NAME'', ''''), (''PF_FS_NAME'', ''''),
      (''PF_USER_NAME'', '''')]"

text \<open>Enough fuel for every acyclic set of steps: see \<open>checkSteps_terminates\<close>.\<close>

definition solve_fuel :: "workflow \<Rightarrow> nat" where
  "solve_fuel w = length (wf_eps w) + 2"

definition checkSteps :: "decoder \<Rightarrow> (string list \<Rightarrow> string list) \<Rightarrow> workflow \<Rightarrow> workflow_error + workflow" where
  "checkSteps dec ordS w =
     bindE (foldE (\<lambda>stepName S. lift_err ParamError (Solve dec (solve_fuel w) S stepName))
              (ordS (WfRunSteps w))
              \<lparr>sv_store = wf_eps w, sv_names = WfRunSteps w, sv_sys = check_sys_params, needReplace = False\<rparr>)
       (\<lambda>S. Inr (set_eps (sv_store S) w))"

definition validate ::
  "decoder \<Rightarrow> map_order \<Rightarrow> (string list \<Rightarrow> string list) \<Rightarrow> workflow \<Rightarrow> workflow_error + workflow" where
  "validate dec ord ordS w =
     (if WfEntry w \<noteq> '''' \<and> mget (wf_eps w) (WfEntry w) = None then Inl (EntryNotExist (WfEntry w))
      else bindE (checkRunYaml ord w) (\<lambda>w1.
           bindE (checkParams dec w1) (\<lambda>w2.
           checkSteps dec ordS w2)))"

section \<open>Step objects\<close>

definition GetInputArtifactEnvName :: "string \<Rightarrow> string" where
  "GetInputArtifactEnvName atfName = ''PF_INPUT_ARTIFACT_'' @ to_upper atfName"

definition GetOutputArtifactEnvName :: "string \<Rightarrow> string" where
  "GetOutputArtifactEnvName atfName = ''PF_OUTPUT_ARTIFACT_'' @ to_upper atfName"

definition step_sys_params :: "workflow \<Rightarrow> string \<Rightarrow> string gomap" where
  "step_sys_params w name =
     [(''PF_RUN_ID'', WfRunID w), (''PF_STEP_NAME'', name), (''PF_FS_ID'', mstr (WfExtra w) ''FsID''),
      (''PF_FS_NAME'', mstr (WfExtra w) ''FsName''), (''PF_USER_NAME'', mstr (WfExtra w) ''UserName'')]"

definition put_all :: "(string \<times> 'v) list \<Rightarrow> 'v gomap \<Rightarrow> 'v gomap" where
  "put_all kvs m = foldl (\<lambda>acc (k, v). mput k v acc) m kvs"

definition job_envs :: "wf_step \<Rightarrow> string gomap \<Rightarrow> string gomap" where
  "job_envs st sysParams =
     put_all (map (\<lambda>(k, v). (GetOutputArtifactEnvName k, v)) (Output (Artifacts st)))
       (put_all (map (\<lambda>(k, v). (GetInputArtifactEnvName k, v)) (Input (Artifacts st)))
          (put_all sysParams (put_all (Env st) [])))"

text \<open>\<open>updateJob\<close>: references are replaced in the store, then the job gets the results. The solver
  sees the step itself and the step objects that exist already.\<close>

definition updateJob :: "decoder \<Rightarrow> string \<Rightarrow> paddleflow_job \<Rightarrow> workflow \<Rightarrow>
  workflow_error + (paddleflow_job \<times> workflow)" where
  "updateJob dec name pfj w =
     (let sysParams = step_sys_params w name
      in bindE (lift_err ParamError (Solve dec (solve_fuel w)
                  \<lparr>sv_store = wf_eps w, sv_names = name # keys (WfSteps w), sv_sys = sysParams,
                   needReplace = True\<rparr> name)) (\<lambda>S.
         (case mget (sv_store S) name of
            None \<Rightarrow> Inl (ParamError NilDeref)
          | Some st \<Rightarrow>
              Inr (job_Update (Command st)
                     (Some (put_all (map (\<lambda>(k, v). (k, sprint_v v)) (Parameters st)) []))
                     (Some (job_envs st sysParams))
                     (Some \<lparr>Input = put_all (Input (Artifacts st)) [], Output = put_all (Output (Artifacts st)) []\<rparr>)
                     pfj,
                   set_eps (sv_store S) w))))"

text \<open>The job service as \<open>NewStep\<close> uses it: the validation of a job.\<close>

type_synonym job_check = "paddleflow_job \<Rightarrow> job_error + unit"

definition NewStep ::
  "decoder \<Rightarrow> job_check \<Rightarrow> string \<Rightarrow> workflow \<Rightarrow> workflow_error + (step \<times> workflow)" where
  "NewStep dec vj name w =
     (case mget (wf_eps w) name of
        None \<Rightarrow> Inl (ParamError NilDeref)
      | Some info \<Rightarrow>
          bindE (updateJob dec name
                   (NewPaddleFlowJob (WfRunID w @ ''-'' @ name) (StepImage info) (Deps info)) w)
            (\<lambda>(pfj, w1).
               case vj pfj of
                 Inl e \<Rightarrow> Inl (StepJobError e)
               | Inr _ \<Rightarrow>
                   Inr (\<lparr>StName = name, StReady = False, StDone = False, StSubmitted = False, StJob = pfj,
                         StFirstFp = '''', StSecondFp = ''''\<rparr>, w1)))"

definition clamp_parallelism :: "int \<Rightarrow> int" where
  "clamp_parallelism parallelism =
     (if parallelism \<le> 0 then 10 else if parallelism > 20 then 20 else parallelism)"

text \<open>One round of the loop that creates the step objects.\<close>

definition add_step :: "decoder \<Rightarrow> job_check \<Rightarrow> string \<Rightarrow> workflow \<Rightarrow> workflow_error + workflow" where
  "add_step dec vj stepName w =
     (case mget (run_map (wf_eps w) (WfRunSteps w)) stepName of
        None \<Rightarrow> Inl (ParamError NilDeref)
      | Some stepInfo \<Rightarrow>
          (let w1 = (if StepImage stepInfo = ''''
                     then set_eps (mput stepName (stepInfo\<lparr>StepImage := DockerEnv (WfSource w)\<rparr>) (wf_eps w)) w
                     else w)
           in bindE (NewStep dec vj stepName w1)
                (\<lambda>(st, w2). Inr (w2\<lparr>WfSteps := mput stepName st (WfSteps w2)\<rparr>))))"

definition newWorkflowRuntime ::
  "decoder \<Rightarrow> job_check \<Rightarrow> map_order \<Rightarrow> workflow \<Rightarrow> workflow_error + workflow" where
  "newWorkflowRuntime dec vj ord w0 =
     (let w = w0\<lparr>WfParallel := clamp_parallelism (Parallelism (WfSource w0)), WfSteps := []\<rparr>
      in bindE (lift_err (\<lambda>_. NotAcyclicError) (topologicalSort ord (run_map (wf_eps w) (WfRunSteps w))))
           (\<lambda>sortedSteps. foldE (add_step dec vj) sortedSteps w))"

definition NewWorkflow ::
  "decoder \<Rightarrow> job_check \<Rightarrow> map_order \<Rightarrow> (string list \<Rightarrow> string list) \<Rightarrow>
   wf_source \<Rightarrow> string \<Rightarrow> string \<Rightarrow> pval gomap \<Rightarrow> string gomap \<Rightarrow> workflow_error + workflow" where
  "NewWorkflow dec vj ord ordS source runID entry params extra =
     bindE (NewBaseWorkflow source runID entry params extra) (\<lambda>w.
     bindE (validate dec ord ordS w) (\<lambda>w1.
     newWorkflowRuntime dec vj ord w1))"

section \<open>Restoring a runtime view\<close>

definition restored_job :: "string \<Rightarrow> job_view \<Rightarrow> paddleflow_job" where
  "restored_job dockerEnv v =
     \<lparr>JbId = JVJobID v, JbName = JVJobName v, JbCommand = JVCommand v, JbParameters = JVParameters v,
      JbArtifacts = \<lparr>Input = [], Output = []\<rparr>, JbEnv = JVEnv v, JbStartTime = JVStartTime v,
      JbEndTime = JVEndTime v, JbStatus = JVStatus v, JbDeps = JVDeps v, JbMessage = '''',
      JbImage = dockerEnv\<rparr>"

definition step_update :: "bool \<Rightarrow> bool \<Rightarrow> paddleflow_job \<Rightarrow> step \<Rightarrow> step" where
  "step_update done submitted job st = st\<lparr>StDone := done, StSubmitted := submitted, StJob := job\<rparr>"

definition restore_step :: "string \<Rightarrow> job_view \<Rightarrow> step \<Rightarrow> step" where
  "restore_step dockerEnv v st =
     (let pfj = restored_job dockerEnv v
      in step_update (\<not> NotEnded pfj) (JVJobID v \<noteq> '''') pfj st)"

definition SetWorkflowRuntime :: "runtime_view \<Rightarrow> workflow \<Rightarrow> workflow" where
  "SetWorkflowRuntime view w =
     w\<lparr>WfSteps := map (\<lambda>(name, st). (name, case mget view name of
                         None \<Rightarrow> st
                       | Some v \<Rightarrow> restore_step (DockerEnv (WfSource w)) v st)) (WfSteps w)\<rparr>"

lemma set_eps_simps [simp]:
  "wf_eps (set_eps eps w) = eps" "WfRunSteps (set_eps eps w) = WfRunSteps w"
  "WfSteps (set_eps eps w) = WfSteps w" "WfParallel (set_eps eps w) = WfParallel w"
  "WfRunID (set_eps eps w) = WfRunID w" "WfExtra (set_eps eps w) = WfExtra w"
  "WfEntry (set_eps eps w) = WfEntry w" "WfParams (set_eps eps w) = WfParams w"
  "DockerEnv (WfSource (set_eps eps w)) = DockerEnv (WfSource w)"
  "Parallelism (WfSource (set_eps eps w)) = Parallelism (WfSource w)"
  "WCache (WfSource (set_eps eps w)) = WCache (WfSource w)"
  by (simp_all add: set_eps_def)

section \<open>The shape of the graph survives\<close>

definition same_deps :: "wf_step gomap \<Rightarrow> wf_step gomap \<Rightarrow> bool" where
  "same_deps eps eps' =
     (keys eps' = keys eps \<and> (\<forall>n. map_option Deps (mget eps' n) = map_option Deps (mget eps n)))"

lemma same_deps_refl [simp]: "same_deps eps eps"
  by (simp add: same_deps_def)

lemma same_deps_trans: "same_deps a b \<Longrightarrow> same_deps b c \<Longrightarrow> same_deps a c"
  by (simp add: same_deps_def)

lemma same_graph_deps: "same_graph S T \<Longrightarrow> same_deps (sv_store S) (sv_store T)"
  by (simp add: same_graph_def same_deps_def)

lemma same_deps_mput:
  assumes "mget eps n = Some st" and "Deps st' = Deps st"
  shows "same_deps eps (mput n st' eps)"
  using assms by (auto simp: same_deps_def keys_mput_same)

lemma replace_in_first_deps:
  "replace_in_first dec p v eps = Some (Inr eps') \<Longrightarrow> same_deps eps eps'"
proof (induction eps arbitrary: eps')
  case (Cons x eps)
  obtain n st where x: "x = (n, st)" by (cases x)
  show ?case
  proof (cases "mget (Parameters st) p")
    case None
    then obtain e where e: "replace_in_first dec p v eps = Some (Inr e)" "eps' = (n, st) # e"
      using Cons.prems x by (auto simp: bindE_eq_Inr)
    then show ?thesis using Cons.IH [OF e(1)] x by (auto simp: same_deps_def)
  next
    case (Some o')
    then have "eps' = (n, set_param p v st) # eps" using Cons.prems x by (auto simp: bindE_eq_Inr)
    then show ?thesis using x by (auto simp: same_deps_def set_param_def)
  qed
qed simp

lemma replaceRunParam_deps:
  assumes "replaceRunParam dec p v eps = Inr eps'"
  shows "same_deps eps eps'"
proof (cases "parseParamName p")
  case (Pair sn pn)
  show ?thesis
  proof (cases "sn = ''''")
    case True
    then show ?thesis using assms Pair
      by (auto simp: replaceRunParam_def split: option.splits dest: replace_in_first_deps)
  next
    case False
    then obtain st where st: "mget eps sn = Some st" "eps' = mput sn (set_param pn v st) eps"
      using assms Pair by (auto simp: replaceRunParam_def bindE_eq_Inr split: option.splits)
    show ?thesis unfolding st(2)
      by (rule same_deps_mput [OF st(1)]) (simp add: set_param_def)
  qed
qed

lemma checkParams_deps:
  assumes "checkParams dec w = Inr w'"
  shows "same_deps (wf_eps w) (wf_eps w')" and "WfRunSteps w' = WfRunSteps w"
proof -
  obtain eps where eps: "foldE (\<lambda>(k, v) eps. replaceRunParam dec k v eps) (WfParams w) (wf_eps w) = Inr eps"
    and w': "w' = set_eps eps w"
    using assms by (auto simp: checkParams_def bindE_eq_Inr)
  have "same_deps (wf_eps w) eps"
    by (rule foldE_inv [OF eps, where P = "same_deps (wf_eps w)"])
       (auto intro: same_deps_trans replaceRunParam_deps)
  then show "same_deps (wf_eps w) (wf_eps w')" "WfRunSteps w' = WfRunSteps w"
    using w' by (simp_all add: set_eps_def)
qed

lemma checkCache_frame:
  assumes "checkCache w = Inr w'"
  shows "wf_eps w' = wf_eps w" "WfRunSteps w' = WfRunSteps w" "WfParams w' = WfParams w"
    "atoi (MaxExpiredTime (WCache (WfSource w'))) \<noteq> None" "FsScope (WCache (WfSource w')) \<noteq> ''''"
  using assms by (auto simp: checkCache_def Let_def split: option.splits if_splits)

section \<open>The solver always has enough fuel\<close>

text \<open>A rank that every dependency of the named steps lowers.\<close>

definition ranked :: "(string \<Rightarrow> nat) \<Rightarrow> wf_step gomap \<Rightarrow> string set \<Rightarrow> bool" where
  "ranked rk eps N = (\<forall>n\<in>N. \<forall>st. mget eps n = Some st \<longrightarrow> (\<forall>d\<in>set (GetDeps st). rk d < rk n))"

lemma mget_run_map: "mget (run_map eps names) n = (if n \<in> set names then mget eps n else None)"
  unfolding run_map_def by (induction eps) auto

lemma wf_run_map: "wf_map eps \<Longrightarrow> wf_map (run_map eps names)"
  unfolding run_map_def wf_map_def by (induction eps) auto

lemma keys_run_map: "set (keys (run_map eps names)) = set (keys eps) \<inter> set names"
  unfolding run_map_def by (induction eps) auto

lemma length_run_map: "length (run_map eps names) \<le> length eps"
  by (simp add: run_map_def)

lemma topo_ranked:
  assumes "wf_map eps" and "topologicalSort ord (run_map eps names) = Inr s"
  shows "ranked (topo_rank s) eps (set names)"
  unfolding ranked_def
proof (intro ballI allI impI)
  fix n st d
  assume "n \<in> set names" "mget eps n = Some st" "d \<in> set (GetDeps st)"
  then show "topo_rank s d < topo_rank s n"
    using topo_rank_dep [OF wf_run_map [OF assms(1)] assms(2)] by (simp add: mget_run_map)
qed

lemma topo_sorted_names:
  assumes "wf_map eps" and "topologicalSort ord (run_map eps names) = Inr s"
  shows "set s \<subseteq> set names \<inter> set (keys eps)" and "length s \<le> length eps"
proof -
  have d: "distinct s" and s: "set s = sortable (run_map eps names)"
    using topo_sound(1,2) [OF wf_run_map [OF assms(1)] assms(2)] by simp_all
  have "sortable (run_map eps names) \<subseteq> set (keys (run_map eps names))"
    unfolding sortable_def by (auto dest: mget_in_keys)
  with s keys_run_map show sub: "set s \<subseteq> set names \<inter> set (keys eps)" by blast
  have "length s = card (set s)" using d by (simp add: distinct_card)
  also have "\<dots> \<le> card (set (keys eps))" using sub by (intro card_mono) auto
  also have "\<dots> \<le> length (keys eps)" by (rule card_length)
  finally show "length s \<le> length eps" by simp
qed

lemma ranked_same_deps:
  assumes "ranked rk eps N" and "same_deps eps eps'"
  shows "ranked rk eps' N"
  unfolding ranked_def
proof (intro ballI allI impI)
  fix n st d
  assume a: "n \<in> N" "mget eps' n = Some st" "d \<in> set (GetDeps st)"
  have "map_option Deps (mget eps' n) = map_option Deps (mget eps n)"
    using assms(2) unfolding same_deps_def by metis
  with a(2) obtain st0 where st0: "mget eps n = Some st0" "Deps st0 = Deps st"
    by (cases "mget eps n") auto
  then have "GetDeps st0 = GetDeps st" by (simp add: GetDeps_def)
  with st0 a assms(1) show "rk d < rk n" unfolding ranked_def by metis
qed

lemma ranked_dep_rank:
  "ranked rk (sv_store S) N \<Longrightarrow> set (sv_names S) \<subseteq> N \<Longrightarrow> dep_rank rk S"
  unfolding ranked_def dep_rank_def sv_get_def by (auto split: if_splits)

lemma foldE_Solve_fuel:
  assumes "dep_rank rk S" and "\<And>n. rk n < fuel"
  shows "foldE (\<lambda>n S. lift_err ParamError (Solve dec fuel S n)) ns S \<noteq> Inl (ParamError OutOfFuel)"
proof
  assume e: "foldE (\<lambda>n S. lift_err ParamError (Solve dec fuel S n)) ns S = Inl (ParamError OutOfFuel)"
  show False
  proof (rule foldE_Inl_cases [OF e, where P = "dep_rank rk"])
    fix n T assume "dep_rank rk T" "lift_err ParamError (Solve dec fuel T n) = Inl (ParamError OutOfFuel)"
    then show False using Solve_fuel [of rk T n fuel dec] assms(2)
      by (auto simp: lift_err_def split: sum.splits)
  next
    fix n T U assume "dep_rank rk T" "lift_err ParamError (Solve dec fuel T n) = Inr U"
    then show "dep_rank rk U" by (auto intro: dep_rank_graph Solve_graph)
  qed (rule assms(1))
qed

lemma checkSteps_terminates:
  assumes "ranked rk (wf_eps w) (set (WfRunSteps w))" and "\<And>n. rk n < solve_fuel w"
  shows "checkSteps dec ordS w \<noteq> Inl (ParamError OutOfFuel)"
proof -
  have "dep_rank rk \<lparr>sv_store = wf_eps w, sv_names = WfRunSteps w, sv_sys = check_sys_params, needReplace = False\<rparr>"
    by (rule ranked_dep_rank [where N = "set (WfRunSteps w)"]) (use assms(1) in simp_all)
  from foldE_Solve_fuel [OF this assms(2)] show ?thesis
    by (auto simp: checkSteps_def bindE_eq_Inl)
qed

lemma checkSteps_deps:
  assumes "checkSteps dec ordS w = Inr w'"
  shows "same_deps (wf_eps w) (wf_eps w')" and "\<exists>eps. w' = set_eps eps w"
proof -
  let ?S0 = "\<lparr>sv_store = wf_eps w, sv_names = WfRunSteps w, sv_sys = check_sys_params, needReplace = False\<rparr>"
  obtain S where S: "foldE (\<lambda>n S. lift_err ParamError (Solve dec (solve_fuel w) S n)) (ordS (WfRunSteps w)) ?S0 = Inr S"
    and w': "w' = set_eps (sv_store S) w"
    using assms by (auto simp: checkSteps_def bindE_eq_Inr)
  have "same_graph ?S0 S"
    by (rule foldE_inv [OF S, where P = "same_graph ?S0"])
       (auto intro: same_graph_trans Solve_graph)
  from same_graph_deps [OF this] show "same_deps (wf_eps w) (wf_eps w')" using w' by simp
  show "\<exists>eps. w' = set_eps eps w" using w' by blast
qed

lemma checkRunYaml_Inr:
  assumes "checkRunYaml ord w = Inr w'"
  shows "checkCache w = Inr w'" and "'''' \<notin> set (keys (wf_eps w))"
    and "\<exists>s. topologicalSort ord (run_map (wf_eps w) (WfRunSteps w)) = Inr s"
  using assms by (auto simp: checkRunYaml_def bindE_eq_Inr list_ex_iff split: if_splits)

lemma validate_Inr:
  assumes "validate dec ord ordS w = Inr w'"
  shows "same_deps (wf_eps w) (wf_eps w')" and "WfRunSteps w' = WfRunSteps w"
    and "'''' \<notin> set (keys (wf_eps w))"
    and "\<exists>s. topologicalSort ord (run_map (wf_eps w) (WfRunSteps w)) = Inr s"
    and "WfEntry w = '''' \<or> mget (wf_eps w) (WfEntry w) \<noteq> None"
proof -
  obtain w1 w2 where 1: "checkRunYaml ord w = Inr w1" and 2: "checkParams dec w1 = Inr w2"
    and 3: "checkSteps dec ordS w2 = Inr w'" and e: "WfEntry w = '''' \<or> mget (wf_eps w) (WfEntry w) \<noteq> None"
    using assms by (auto simp: validate_def bindE_eq_Inr split: if_splits)
  note f = checkCache_frame(1,2) [OF checkRunYaml_Inr(1) [OF 1]]
  show "same_deps (wf_eps w) (wf_eps w')"
    using checkParams_deps(1) [OF 2] checkSteps_deps(1) [OF 3] f by (auto intro: same_deps_trans)
  have "WfRunSteps w' = WfRunSteps w2" using checkSteps_deps(2) [OF 3] by auto
  then show "WfRunSteps w' = WfRunSteps w" using checkParams_deps(2) [OF 2] f by simp
  show "'''' \<notin> set (keys (wf_eps w))" "\<exists>s. topologicalSort ord (run_map (wf_eps w) (WfRunSteps w)) = Inr s"
    using checkRunYaml_Inr(2,3) [OF 1] .
  show "WfEntry w = '''' \<or> mget (wf_eps w) (WfEntry w) \<noteq> None" by (rule e)
qed

section \<open>The step objects\<close>

definition fresh_step :: "job_check \<Rightarrow> string \<Rightarrow> string \<Rightarrow> step \<Rightarrow> bool" where
  "fresh_step vj runID name st =
     (StName st = name \<and> \<not> StReady st \<and> \<not> StDone st \<and> \<not> StSubmitted st \<and> vj (StJob st) = Inr () \<and>
      JbStatus (StJob st) = StatusJobNone \<and> JbId (StJob st) = '''' \<and> JbName (StJob st) = runID @ ''-'' @ name)"

lemma job_Update_frame [simp]:
  "JbStatus (job_Update c p e a j) = JbStatus j" "JbId (job_Update c p e a j) = JbId j"
  "JbName (job_Update c p e a j) = JbName j" "JbImage (job_Update c p e a j) = JbImage j"
  "JbDeps (job_Update c p e a j) = JbDeps j"
  by (simp_all add: job_Update_def Let_def split: option.splits)

lemma updateJob_Inr:
  assumes "updateJob dec name pfj w = Inr (pfj', w')"
  shows "same_deps (wf_eps w) (wf_eps w')" "\<exists>eps. w' = set_eps eps w"
    "JbStatus pfj' = JbStatus pfj" "JbId pfj' = JbId pfj" "JbName pfj' = JbName pfj" "JbImage pfj' = JbImage pfj"
proof -
  let ?S = "\<lparr>sv_store = wf_eps w, sv_names = name # keys (WfSteps w), sv_sys = step_sys_params w name,
     needReplace = True\<rparr>"
  obtain S where S: "Solve dec (solve_fuel w) ?S name = Inr S"
    using assms by (auto simp: updateJob_def Let_def bindE_eq_Inr)
  obtain st where st: "mget (sv_store S) name = Some st"
    using assms S by (auto simp: updateJob_def Let_def lift_err_def split: option.splits)
  have *: "w' = set_eps (sv_store S) w" "\<exists>c p e a. pfj' = job_Update c p e a pfj"
    using assms S st by (auto simp: updateJob_def Let_def lift_err_def)
  show "same_deps (wf_eps w) (wf_eps w')"
    using same_graph_deps [OF Solve_graph [OF S]] * by simp
  show "\<exists>eps. w' = set_eps eps w" using * by blast
  show "JbStatus pfj' = JbStatus pfj" "JbId pfj' = JbId pfj" "JbName pfj' = JbName pfj" "JbImage pfj' = JbImage pfj"
    using *(2) by auto
qed

lemma updateJob_fuel:
  assumes "ranked rk (wf_eps w) (set (name # keys (WfSteps w)))" and "rk name < solve_fuel w"
  shows "updateJob dec name pfj w \<noteq> Inl (ParamError OutOfFuel)"
proof -
  let ?S = "\<lparr>sv_store = wf_eps w, sv_names = name # keys (WfSteps w), sv_sys = step_sys_params w name,
     needReplace = True\<rparr>"
  have "dep_rank rk ?S" by (rule ranked_dep_rank [where N = "set (name # keys (WfSteps w))"]) (use assms in simp_all)
  from Solve_fuel [OF this assms(2)] have "Solve dec (solve_fuel w) ?S name \<noteq> Inl OutOfFuel" .
  then show ?thesis
    by (auto simp: updateJob_def Let_def bindE_eq_Inl lift_err_def split: sum.splits option.splits)
qed

lemma NewStep_Inr:
  assumes "NewStep dec vj name w = Inr (st, w')"
  shows "fresh_step vj (WfRunID w) name st" "same_deps (wf_eps w) (wf_eps w')" "\<exists>eps. w' = set_eps eps w"
proof -
  obtain info where i: "mget (wf_eps w) name = Some info"
    using assms by (auto simp: NewStep_def split: option.splits)
  let ?j = "NewPaddleFlowJob (WfRunID w @ ''-'' @ name) (StepImage info) (Deps info)"
  obtain pfj w1 where u: "updateJob dec name ?j w = Inr (pfj, w1)"
    using assms i by (auto simp: NewStep_def bindE_eq_Inr)
  have v: "vj pfj = Inr ()" and r: "w' = w1" "st = \<lparr>StName = name, StReady = False, StDone = False,
      StSubmitted = False, StJob = pfj, StFirstFp = '''', StSecondFp = ''''\<rparr>"
    using assms i u by (auto simp: NewStep_def split: sum.splits)
  show "fresh_step vj (WfRunID w) name st"
    using updateJob_Inr(3-6) [OF u] v r by (simp add: fresh_step_def NewPaddleFlowJob_def)
  show "same_deps (wf_eps w) (wf_eps w')" "\<exists>eps. w' = set_eps eps w"
    using updateJob_Inr(1,2) [OF u] r by simp_all
qed

definition with_image :: "string \<Rightarrow> wf_step \<Rightarrow> workflow \<Rightarrow> workflow" where
  "with_image n info w =
     (if StepImage info = ''''
      then set_eps (mput n (info\<lparr>StepImage := DockerEnv (WfSource w)\<rparr>) (wf_eps w)) w else w)"

lemma with_image_deps:
  "mget (wf_eps w) n = Some info \<Longrightarrow> same_deps (wf_eps w) (wf_eps (with_image n info w))"
  by (auto simp: with_image_def intro: same_deps_mput)

lemma with_image_frame [simp]:
  "WfRunSteps (with_image n info w) = WfRunSteps w" "WfSteps (with_image n info w) = WfSteps w"
  "WfRunID (with_image n info w) = WfRunID w" "WfParallel (with_image n info w) = WfParallel w"
  by (simp_all add: with_image_def)

lemma add_step_eq:
  "add_step dec vj n w =
     (case mget (run_map (wf_eps w) (WfRunSteps w)) n of
        None \<Rightarrow> Inl (ParamError NilDeref)
      | Some info \<Rightarrow> bindE (NewStep dec vj n (with_image n info w))
          (\<lambda>(st, w2). Inr (w2\<lparr>WfSteps := mput n st (WfSteps w2)\<rparr>)))"
  by (simp add: add_step_def with_image_def Let_def split: option.splits)

lemma add_step_Inr:
  assumes "add_step dec vj n w = Inr w'"
  shows "same_deps (wf_eps w) (wf_eps w')" and "WfRunSteps w' = WfRunSteps w"
    and "WfRunID w' = WfRunID w" and "WfParallel w' = WfParallel w"
    and "\<exists>st. WfSteps w' = mput n st (WfSteps w) \<and> fresh_step vj (WfRunID w) n st"
proof -
  obtain info where i: "mget (run_map (wf_eps w) (WfRunSteps w)) n = Some info"
    using assms by (auto simp: add_step_def split: option.splits)
  then have i': "mget (wf_eps w) n = Some info" by (simp add: mget_run_map split: if_splits)
  obtain st w2 where ns: "NewStep dec vj n (with_image n info w) = Inr (st, w2)"
    and w': "w' = w2\<lparr>WfSteps := mput n st (WfSteps w2)\<rparr>"
    using assms i by (auto simp: add_step_eq bindE_eq_Inr)
  obtain eps where w2: "w2 = set_eps eps (with_image n info w)" using NewStep_Inr(3) [OF ns] by blast
  show "same_deps (wf_eps w) (wf_eps w')"
    using same_deps_trans [OF with_image_deps [OF i'] NewStep_Inr(2) [OF ns]] w' by simp
  show "WfRunSteps w' = WfRunSteps w" "WfRunID w' = WfRunID w" "WfParallel w' = WfParallel w"
    using w' w2 by simp_all
  show "\<exists>st. WfSteps w' = mput n st (WfSteps w) \<and> fresh_step vj (WfRunID w) n st"
    using w' w2 NewStep_Inr(1) [OF ns] by auto
qed

text \<open>The invariant of the loop over the sorted steps.\<close>

definition build_inv :: "job_check \<Rightarrow> wf_step gomap \<Rightarrow> string list \<Rightarrow> workflow \<Rightarrow> workflow \<Rightarrow> bool" where
  "build_inv vj eps s w0 w =
     (same_deps eps (wf_eps w) \<and> WfRunSteps w = WfRunSteps w0 \<and> WfRunID w = WfRunID w0 \<and>
      WfParallel w = WfParallel w0 \<and> wf_map (WfSteps w) \<and> set (keys (WfSteps w)) \<subseteq> set s \<and>
      (\<forall>n st. mget (WfSteps w) n = Some st \<longrightarrow> fresh_step vj (WfRunID w0) n st))"

lemma build_inv_step:
  assumes "build_inv vj eps s w0 w" and "n \<in> set s" and a: "add_step dec vj n w = Inr w'"
  shows "build_inv vj eps s w0 w'"
proof -
  obtain st where st: "WfSteps w' = mput n st (WfSteps w)" "fresh_step vj (WfRunID w) n st"
    using add_step_Inr(5) [OF a] by blast
  have k: "set (keys (WfSteps w')) = insert n (set (keys (WfSteps w)))" using st(1) by (simp only: keys_mput)
  show ?thesis
    using assms(1,2) add_step_Inr(1-4) [OF a] st k unfolding build_inv_def
    by (auto intro: same_deps_trans)
qed

lemma build_keys:
  "foldE (add_step dec vj) ns w = Inr w' \<Longrightarrow>
     set (keys (WfSteps w')) = set ns \<union> set (keys (WfSteps w))"
proof (induction ns arbitrary: w)
  case (Cons n ns)
  then obtain w1 where 1: "add_step dec vj n w = Inr w1" "foldE (add_step dec vj) ns w1 = Inr w'"
    by (auto simp: bindE_eq_Inr)
  obtain st where "WfSteps w1 = mput n st (WfSteps w)" using add_step_Inr(5) [OF 1(1)] by blast
  then have "set (keys (WfSteps w1)) = insert n (set (keys (WfSteps w)))" by (simp only: keys_mput)
  with Cons.IH [OF 1(2)] show ?case by auto
qed simp

lemma NewStep_fuel_error:
  assumes "NewStep dec vj n w = Inl (ParamError OutOfFuel)"
  shows "\<exists>pfj. updateJob dec n pfj w = Inl (ParamError OutOfFuel)"
proof -
  have *: "(case vj pfj of Inl e \<Rightarrow> Inl (StepJobError e) | Inr _ \<Rightarrow> Inr r) \<noteq> Inl (ParamError OutOfFuel)"
    for pfj and r :: "step \<times> workflow"
    by (cases "vj pfj") simp_all
  show ?thesis
    using assms * by (auto simp: NewStep_def bindE_eq_Inl split: option.splits)
qed

lemma add_step_fuel:
  assumes "build_inv vj eps s w0 w" and "n \<in> set s" and "ranked rk eps (set s)"
    and "rk n < length eps + 2"
  shows "add_step dec vj n w \<noteq> Inl (ParamError OutOfFuel)"
proof
  assume e: "add_step dec vj n w = Inl (ParamError OutOfFuel)"
  then obtain info where i: "mget (run_map (wf_eps w) (WfRunSteps w)) n = Some info"
    by (auto simp: add_step_def split: option.splits)
  then have i': "mget (wf_eps w) n = Some info" by (simp add: mget_run_map split: if_splits)
  let ?w = "with_image n info w"
  have deps: "same_deps eps (wf_eps ?w)"
    using assms(1) with_image_deps [OF i'] unfolding build_inv_def by (blast intro: same_deps_trans)
  then have len: "length (wf_eps ?w) = length eps" unfolding same_deps_def by (metis length_map)
  have "ranked rk (wf_eps ?w) (set s)" using ranked_same_deps [OF assms(3) deps] .
  then have "ranked rk (wf_eps ?w) (set (n # keys (WfSteps ?w)))"
    using assms(1,2) unfolding ranked_def build_inv_def by auto
  then have "updateJob dec n pfj ?w \<noteq> Inl (ParamError OutOfFuel)" for pfj
    by (rule updateJob_fuel) (use assms(4) len in \<open>simp add: solve_fuel_def\<close>)
  then have "NewStep dec vj n ?w \<noteq> Inl (ParamError OutOfFuel)"
    using NewStep_fuel_error by blast
  then show False using e i by (auto simp: add_step_eq bindE_eq_Inl)
qed

lemma newWorkflowRuntime_fuel:
  assumes "wf_map (wf_eps w)"
  shows "newWorkflowRuntime dec vj ord w \<noteq> Inl (ParamError OutOfFuel)"
proof
  let ?w = "w\<lparr>WfParallel := clamp_parallelism (Parallelism (WfSource w)), WfSteps := []\<rparr>"
  assume e: "newWorkflowRuntime dec vj ord w = Inl (ParamError OutOfFuel)"
  then obtain s where s: "topologicalSort ord (run_map (wf_eps w) (WfRunSteps w)) = Inr s"
    and f: "foldE (add_step dec vj) s ?w = Inl (ParamError OutOfFuel)"
    by (auto simp: newWorkflowRuntime_def Let_def bindE_eq_Inl lift_err_def split: sum.splits)
  have "ranked (topo_rank s) (wf_eps w) (set (WfRunSteps w))" by (rule topo_ranked [OF assms s])
  then have rk: "ranked (topo_rank s) (wf_eps w) (set s)"
    using topo_sorted_names(1) [OF assms s] unfolding ranked_def by blast
  have le: "topo_rank s n < length (wf_eps w) + 2" for n
    using topo_rank_le [of s n] topo_sorted_names(2) [OF assms s] by simp
  show False
  proof (rule foldE_Inl_cases [OF f, where P = "build_inv vj (wf_eps w) s ?w"])
    show "build_inv vj (wf_eps w) s ?w ?w" by (simp add: build_inv_def)
  next
    fix n a b assume "n \<in> set s" "build_inv vj (wf_eps w) s ?w a" "add_step dec vj n a = Inr b"
    then show "build_inv vj (wf_eps w) s ?w b" by (blast intro: build_inv_step)
  next
    fix n a assume "n \<in> set s" "build_inv vj (wf_eps w) s ?w a" "add_step dec vj n a = Inl (ParamError OutOfFuel)"
    then show False using add_step_fuel rk le by blast
  qed
qed

lemma newWorkflowRuntime_Inr:
  assumes "wf_map (wf_eps w)" and "newWorkflowRuntime dec vj ord w = Inr w'"
  shows "\<exists>s. topologicalSort ord (run_map (wf_eps w) (WfRunSteps w)) = Inr s \<and> set (keys (WfSteps w')) = set s"
    and "WfParallel w' = clamp_parallelism (Parallelism (WfSource w))"
    and "wf_map (WfSteps w')" and "WfRunSteps w' = WfRunSteps w"
    and "mget (WfSteps w') n = Some st \<Longrightarrow> fresh_step vj (WfRunID w) n st"
    and "same_deps (wf_eps w) (wf_eps w')"
proof -
  let ?w = "w\<lparr>WfParallel := clamp_parallelism (Parallelism (WfSource w)), WfSteps := []\<rparr>"
  obtain s where s: "topologicalSort ord (run_map (wf_eps w) (WfRunSteps w)) = Inr s"
    and f: "foldE (add_step dec vj) s ?w = Inr w'"
    using assms(2) by (auto simp: newWorkflowRuntime_def Let_def bindE_eq_Inr)
  have inv: "build_inv vj (wf_eps w) s ?w w'"
    by (rule foldE_inv [OF f]) (auto intro: build_inv_step, simp add: build_inv_def)
  show "\<exists>s. topologicalSort ord (run_map (wf_eps w) (WfRunSteps w)) = Inr s \<and> set (keys (WfSteps w')) = set s"
    using s build_keys [OF f] by auto
  show "WfParallel w' = clamp_parallelism (Parallelism (WfSource w))" "wf_map (WfSteps w')"
    "WfRunSteps w' = WfRunSteps w" "mget (WfSteps w') n = Some st \<Longrightarrow> fresh_step vj (WfRunID w) n st"
    "same_deps (wf_eps w) (wf_eps w')"
    using inv by (simp_all add: build_inv_def)
qed

section \<open>No part of the construction gets stuck\<close>

definition stuck :: "workflow_error \<Rightarrow> bool" where
  "stuck e = (e = ParamError OutOfFuel \<or> e = VisitError)"

lemma lift_err_Inl: "lift_err f m = Inl e \<longleftrightarrow> (\<exists>x. m = Inl x \<and> e = f x)"
  by (cases m) (auto simp: lift_err_def)

lemma checkCache_stuck: "checkCache w = Inl e \<Longrightarrow> \<not> stuck e"
  by (auto simp: checkCache_def Let_def stuck_def split: option.splits)

lemma checkRunYaml_stuck: "checkRunYaml ord w = Inl e \<Longrightarrow> \<not> stuck e"
  using checkCache_stuck
  by (auto simp: checkRunYaml_def bindE_eq_Inl lift_err_Inl split: if_splits) (auto simp: stuck_def)

lemma check_new_value_stuck: "check_new_value dec o' p v = Inl e \<Longrightarrow> \<not> stuck e"
  using checkDictParam_no_fuel
  by (auto simp: check_new_value_def stuck_def split: option.splits sum.splits)

lemma replace_in_first_stuck: "replace_in_first dec p v eps = Some (Inl e) \<Longrightarrow> \<not> stuck e"
  by (induction eps) (auto simp: bindE_eq_Inl check_new_value_stuck split: option.splits)

lemma replaceRunParam_stuck: "replaceRunParam dec p v eps = Inl e \<Longrightarrow> \<not> stuck e"
  using replace_in_first_stuck check_new_value_stuck
  by (auto simp: replaceRunParam_def bindE_eq_Inl split: prod.splits option.splits if_splits)
     (auto simp: stuck_def)

lemma checkParams_stuck: "checkParams dec w = Inl e \<Longrightarrow> \<not> stuck e"
  using replaceRunParam_stuck
  by (auto simp: checkParams_def bindE_eq_Inl elim!: foldE_Inl_cases [where P = "\<lambda>_. True"])

lemma checkSteps_stuck:
  assumes "checkSteps dec ordS w = Inl e" and "stuck e"
  shows "e = ParamError OutOfFuel"
  using assms
  by (auto simp: checkSteps_def bindE_eq_Inl lift_err_Inl stuck_def elim!: foldE_Inl_cases [where P = "\<lambda>_. True"])

lemma validate_stuck:
  assumes wf: "wf_map (wf_eps w)" and v: "validate dec ord ordS w = Inl e"
  shows "\<not> stuck e"
proof
  assume e: "stuck e"
  have "\<not> (WfEntry w \<noteq> '''' \<and> mget (wf_eps w) (WfEntry w) = None)"
    using v e by (auto simp: validate_def stuck_def split: if_splits)
  then obtain w1 w2 where 1: "checkRunYaml ord w = Inr w1" and 2: "checkParams dec w1 = Inr w2"
    and 3: "checkSteps dec ordS w2 = Inl e"
    using v e checkRunYaml_stuck checkParams_stuck
    by (auto simp: validate_def bindE_eq_Inl split: if_splits)
  obtain s where s: "topologicalSort ord (run_map (wf_eps w) (WfRunSteps w)) = Inr s"
    using checkRunYaml_Inr(3) [OF 1] by blast
  have deps: "same_deps (wf_eps w) (wf_eps w2)" and rs: "WfRunSteps w2 = WfRunSteps w"
    using checkParams_deps [OF 2] checkCache_frame(1,2) [OF checkRunYaml_Inr(1) [OF 1]] by simp_all
  have "ranked (topo_rank s) (wf_eps w2) (set (WfRunSteps w2))"
    using ranked_same_deps [OF topo_ranked [OF wf s] deps] rs by simp
  moreover have "length (wf_eps w2) = length (wf_eps w)" using deps unfolding same_deps_def by (metis length_map)
  then have "topo_rank s n < solve_fuel w2" for n
    using topo_rank_le [of s n] topo_sorted_names(2) [OF wf s] by (simp add: solve_fuel_def)
  ultimately show False using checkSteps_terminates 3 checkSteps_stuck [OF 3 e] by blast
qed

lemma NewStep_visit: "NewStep dec vj n w \<noteq> Inl VisitError"
proof -
  have "updateJob dec n j w3 \<noteq> Inl VisitError" for j w3
    by (auto simp: updateJob_def Let_def bindE_eq_Inl lift_err_Inl split: option.splits)
  moreover have "(case vj j of Inl e \<Rightarrow> Inl (StepJobError e) | Inr _ \<Rightarrow> Inr r) \<noteq> Inl VisitError"
    for j and r :: "step \<times> workflow"
    by (cases "vj j") simp_all
  ultimately show ?thesis by (auto simp: NewStep_def bindE_eq_Inl split: option.splits)
qed

lemma newWorkflowRuntime_stuck:
  assumes "wf_map (wf_eps w)" and "newWorkflowRuntime dec vj ord w = Inl e"
  shows "\<not> stuck e"
proof -
  have "add_step dec vj n w2 \<noteq> Inl VisitError" for n w2
    using NewStep_visit by (auto simp: add_step_eq bindE_eq_Inl split: option.splits)
  then have "foldE (add_step dec vj) s w2 \<noteq> Inl VisitError" for s w2
    by (auto elim!: foldE_Inl_cases [where P = "\<lambda>_. True"])
  then have "newWorkflowRuntime dec vj ord w \<noteq> Inl VisitError"
    by (auto simp: newWorkflowRuntime_def Let_def bindE_eq_Inl lift_err_Inl)
  with newWorkflowRuntime_fuel [OF assms(1)] assms(2) show ?thesis unfolding stuck_def by metis
qed

lemma validate_runID: "validate dec ord ordS w = Inr w' \<Longrightarrow> WfRunID w' = WfRunID w"
  by (auto simp: validate_def checkRunYaml_def checkCache_def checkParams_def checkSteps_def bindE_eq_Inr Let_def
      split: if_splits option.splits)

lemma same_deps_graph:
  assumes "same_deps eps eps'"
  shows "dep_edges (run_map eps' N) = dep_edges (run_map eps N)"
    and "sortable (run_map eps' N) = sortable (run_map eps N)"
proof -
  have k: "set (keys (run_map eps' N)) = set (keys (run_map eps N))"
    unfolding keys_run_map using assms by (simp add: same_deps_def)
  have lookup: "\<exists>st'. mget (run_map b N) n = Some st' \<and> Deps st' = Deps st"
    if "same_deps a b" "mget (run_map a N) n = Some st" for a b n st
  proof -
    have "map_option Deps (mget b n) = map_option Deps (mget a n)"
      using that(1) unfolding same_deps_def by metis
    with that(2) show ?thesis by (cases "mget b n") (auto simp: mget_run_map split: if_splits)
  qed
  have converse: "same_deps eps' eps" using assms by (simp add: same_deps_def)
  have gd: "Deps a = Deps b \<Longrightarrow> GetDeps a = GetDeps b" for a b by (simp add: GetDeps_def)
  show "dep_edges (run_map eps' N) = dep_edges (run_map eps N)"
    unfolding dep_edges_def k using lookup [OF assms] lookup [OF converse] gd by (metis (no_types, lifting))
  show "sortable (run_map eps' N) = sortable (run_map eps N)"
    unfolding sortable_def using lookup [OF assms] lookup [OF converse] gd by (metis (no_types, lifting))
qed

lemma replace_in_first_mput:
  "replace_in_first dec p v eps = Some (Inr eps') \<Longrightarrow> wf_map eps \<Longrightarrow>
     \<exists>n st. mget eps n = Some st \<and> mget (Parameters st) p \<noteq> None \<and> eps' = mput n (set_param p v st) eps"
proof (induction eps arbitrary: eps')
  case (Cons x eps)
  obtain m s where x: "x = (m, s)" by (cases x)
  show ?case
  proof (cases "mget (Parameters s) p")
    case None
    then obtain e where e: "replace_in_first dec p v eps = Some (Inr e)" "eps' = (m, s) # e"
      using Cons.prems x by (auto simp: bindE_eq_Inr)
    have "wf_map eps" and new: "m \<notin> set (keys eps)" using Cons.prems(2) x by (simp_all add: wf_map_def)
    with Cons.IH [OF e(1)] obtain n st where n: "mget eps n = Some st" "mget (Parameters st) p \<noteq> None"
      "e = mput n (set_param p v st) eps" by blast
    have "n \<noteq> m" using new mget_in_keys [OF n(1)] by metis
    with n e x show ?thesis by (auto simp: mput_def)
  next
    case (Some o')
    then have "eps' = mput m (set_param p v s) (x # eps)"
      using Cons.prems x by (auto simp: bindE_eq_Inr mput_def)
    with Some x show ?thesis by auto
  qed
qed simp

lemma mget_map_vals: "mget (map (\<lambda>(k, v). (k, f k v)) m) n = map_option (f n) (mget m n)"
  by (induction m) auto

section \<open>Properties\<close>

lemma NewBaseWorkflow_Inr:
  assumes "NewBaseWorkflow source runID entry params extra = Inr w"
  shows "wf_eps w = EntryPoints source" "getRunSteps (EntryPoints source) entry = Inr (WfRunSteps w)"
    "WfEntry w = entry" "WfRunID w = runID" "Parallelism (WfSource w) = Parallelism source"
    "WfSource w = source"
  using assms by (auto simp: NewBaseWorkflow_def bindE_eq_Inr)

text \<open>
  C27: Building a workflow always returns: neither the selection of the run steps nor the resolution of
  references runs out of the recursion bound, for any source, parameters and iteration orders.
  A reference chain cannot loop because the cycle check comes first. (It may return by a panic: \<open>NilDeref\<close> is a result.)
\<close>

theorem NewWorkflow_returns:
  assumes "wf_map (EntryPoints source)"
  shows "NewWorkflow dec vj ord ordS source runID entry params extra \<notin> {Inl (ParamError OutOfFuel), Inl VisitError}"
proof -
  obtain names where "getRunSteps (EntryPoints source) entry = Inr names" using getRunSteps_ok by blast
  then obtain w where w: "NewBaseWorkflow source runID entry params extra = Inr w"
    by (simp add: NewBaseWorkflow_def lift_err_def)
  have wf: "wf_map (wf_eps w)" using assms NewBaseWorkflow_Inr(1) [OF w] by simp
  have "\<not> stuck e" if e: "NewWorkflow dec vj ord ordS source runID entry params extra = Inl e" for e
  proof (cases "validate dec ord ordS w")
    case (Inl e')
    then show ?thesis using e w validate_stuck [OF wf Inl] by (simp add: NewWorkflow_def)
  next
    case (Inr w1)
    have "keys (wf_eps w1) = keys (wf_eps w)" using validate_Inr(1) [OF Inr] by (simp add: same_deps_def)
    then have "wf_map (wf_eps w1)" using wf by (simp add: wf_map_def)
    from newWorkflowRuntime_stuck [OF this] show ?thesis using e w Inr by (simp add: NewWorkflow_def)
  qed
  then show ?thesis by (auto simp: stuck_def)
qed

definition demo_vj :: job_check where
  "demo_vj j = guardE (JbImage j \<noteq> '''') EmptyJobImageError"

definition demo_source :: wf_source where
  "demo_source =
     \<lparr>WName = ''demo'', DockerEnv = ''img'', EntryPoints = [(''train'', demo_train), (''prep'', demo_prep)],
      WCache = \<lparr>CEnable = False, MaxExpiredTime = '''', FsScope = ''''\<rparr>, Parallelism = 50\<rparr>"

definition demo_new :: "workflow_error + workflow" where
  "demo_new = NewWorkflow (\<lambda>v. None) demo_vj (\<lambda>k xs. xs) (\<lambda>xs. xs) demo_source ''run-1'' ''''
     [(''prep.rows'', PInt 7)] [(''FsID'', ''fs-a''), (''UserName'', ''alice'')]"

lemma NewWorkflow_returns_witness: "demo_new \<notin> {Inl (ParamError OutOfFuel), Inl VisitError}"
  unfolding demo_new_def
  by (rule NewWorkflow_returns) (simp add: demo_source_def wf_map_def)

text \<open>
  C28: A workflow that is built has an acyclic set of run steps, one step object for every run step
  that takes part in the sort and none else, each fresh (not submitted, not done, without ready
  signal) with a job that passed validation; its parallelism is between 1 and 20.
\<close>

theorem NewWorkflow_well_formed:
  assumes "wf_map (EntryPoints source)"
    and "NewWorkflow dec vj ord ordS source runID entry params extra = Inr w"
  shows "acyclic (dep_edges (run_map (wf_eps w) (WfRunSteps w))) \<and>
     set (keys (WfSteps w)) = sortable (run_map (wf_eps w) (WfRunSteps w)) \<and>
     (\<forall>n st. mget (WfSteps w) n = Some st \<longrightarrow> fresh_step vj runID n st) \<and>
     1 \<le> WfParallel w \<and> WfParallel w \<le> 20"
proof -
  obtain w0 w1 where 0: "NewBaseWorkflow source runID entry params extra = Inr w0"
    and 1: "validate dec ord ordS w0 = Inr w1" and 2: "newWorkflowRuntime dec vj ord w1 = Inr w"
    using assms(2) by (auto simp: NewWorkflow_def bindE_eq_Inr)
  have "keys (wf_eps w1) = keys (EntryPoints source)"
    using validate_Inr(1) [OF 1] NewBaseWorkflow_Inr(1) [OF 0] by (simp add: same_deps_def)
  then have wf: "wf_map (wf_eps w1)" using assms(1) by (simp add: wf_map_def)
  note n = newWorkflowRuntime_Inr [OF wf 2]
  obtain s where s: "topologicalSort ord (run_map (wf_eps w1) (WfRunSteps w1)) = Inr s"
    and ks: "set (keys (WfSteps w)) = set s" using n(1) by blast
  have same: "dep_edges (run_map (wf_eps w) (WfRunSteps w)) = dep_edges (run_map (wf_eps w1) (WfRunSteps w1))"
    "sortable (run_map (wf_eps w) (WfRunSteps w)) = sortable (run_map (wf_eps w1) (WfRunSteps w1))"
    using same_deps_graph [OF n(6)] n(4) by simp_all
  have "acyclic (dep_edges (run_map (wf_eps w1) (WfRunSteps w1)))"
    by (rule topo_Inr_acyclic [OF wf_run_map [OF wf] s])
  moreover have "set s = sortable (run_map (wf_eps w1) (WfRunSteps w1))"
    using topo_sound(2) [OF wf_run_map [OF wf] s] .
  moreover have "WfRunID w1 = runID" using validate_runID [OF 1] NewBaseWorkflow_Inr(4) [OF 0] by simp
  ultimately show ?thesis
    using same ks n(2,5) by (auto simp: clamp_parallelism_def)
qed

lemma NewWorkflow_well_formed_witness:
  "(case demo_new of Inl _ \<Rightarrow> False
    | Inr w \<Rightarrow> WfParallel w \<le> 20 \<and> map_option (\<lambda>st. JbCommand (StJob st)) (mget (WfSteps w) ''train'') = Some ''train 7 /out'' \<and>
              (\<forall>n st. mget (WfSteps w) n = Some st \<longrightarrow> fresh_step demo_vj ''run-1'' n st))"
proof -
  have ok: "(case demo_new of Inl _ \<Rightarrow> False
    | Inr w \<Rightarrow> map_option (\<lambda>st. JbCommand (StJob st)) (mget (WfSteps w) ''train'') = Some ''train 7 /out'')"
    by code_simp
  then obtain w where w: "demo_new = Inr w" by (auto split: sum.splits)
  have "wf_map (EntryPoints demo_source)" by (simp add: demo_source_def wf_map_def)
  from NewWorkflow_well_formed [OF this w [unfolded demo_new_def]] ok show ?thesis
    unfolding w sum.case by blast
qed

text \<open>
  A run parameter replaces the value of exactly one step: the named one, or the first one the map
  iteration meets that declares the parameter. All other steps, and all other fields, stay.
\<close>

theorem replaceRunParam_one_step:
  assumes "replaceRunParam dec param val eps = Inr eps'" and "wf_map eps"
  shows "\<exists>n st. mget eps n = Some st \<and> mget (Parameters st) (snd (parseParamName param)) \<noteq> None \<and>
     (fst (parseParamName param) \<noteq> '''' \<longrightarrow> n = fst (parseParamName param)) \<and>
     eps' = mput n (set_param (snd (parseParamName param)) val st) eps"
proof (cases "parseParamName param")
  case (Pair sn pn)
  show ?thesis
  proof (cases "sn = ''''")
    case True
    then have "replace_in_first dec pn val eps = Some (Inr eps')"
      using assms(1) Pair by (auto simp: replaceRunParam_def split: option.splits)
    from replace_in_first_mput [OF this assms(2)] show ?thesis using True Pair by auto
  next
    case False
    with assms(1) Pair show ?thesis
      by (auto simp: replaceRunParam_def bindE_eq_Inr split: option.splits)
  qed
qed

lemma replaceRunParam_one_step_witness:
  "replaceRunParam (\<lambda>v. None) ''rows'' (PInt 7) (EntryPoints demo_source) =
     Inr (mput ''prep'' (set_param ''rows'' (PInt 7) demo_prep) (EntryPoints demo_source))"
proof -
  let ?e = "EntryPoints demo_source"
  obtain eps' where e: "replaceRunParam (\<lambda>v. None) ''rows'' (PInt 7) ?e = Inr eps'"
    by (simp add: replaceRunParam_def parseParamName_def demo_source_def demo_train_def demo_prep_def check_new_value_def)
  have p: "parseParamName ''rows'' = ('''', ''rows'')" by code_simp
  have m: "wf_map ?e" by (simp add: demo_source_def wf_map_def)
  obtain n st where n: "mget ?e n = Some st" "mget (Parameters st) ''rows'' \<noteq> None"
    "eps' = mput n (set_param ''rows'' (PInt 7) st) ?e"
    using replaceRunParam_one_step [OF e m] p by auto
  have "n = ''prep'' \<and> st = demo_prep"
    using n(1,2) by (auto simp: demo_source_def demo_train_def split: if_splits)
  with n(3) e show ?thesis by simp
qed

text \<open>
  A step restored from a stored runtime view runs with the image of the workflow: an image that
  the step itself names is lost, and so are the artifacts of the stored job.
\<close>

theorem SetWorkflowRuntime_image:
  assumes "mget (WfSteps w) n = Some st" and "mget view n = Some v"
  shows "\<exists>st'. mget (WfSteps (SetWorkflowRuntime view w)) n = Some st' \<and>
     JbImage (StJob st') = DockerEnv (WfSource w) \<and> JbArtifacts (StJob st') = \<lparr>Input = [], Output = []\<rparr> \<and>
     JbId (StJob st') = JVJobID v \<and> JbStatus (StJob st') = JVStatus v \<and>
     StSubmitted st' = (JVJobID v \<noteq> '''') \<and> StDone st' = (\<not> NotEnded (StJob st'))"
  using assms
  by (simp add: SetWorkflowRuntime_def mget_map_vals restore_step_def step_update_def restored_job_def Let_def
      NotEnded_def)

definition demo_view :: job_view where
  "demo_view =
     \<lparr>JVJobID = ''j-1'', JVJobName = ''run-1-prep'', JVCommand = ''prep 7'', JVParameters = [], JVEnv = [],
      JVStartTime = '''', JVEndTime = '''', JVStatus = StatusJobRunning, JVDeps = '''', JVImage = ''own'',
      JVArtifacts = \<lparr>Input = [], Output = [(''data'', ''/out'')]\<rparr>, JVMessage = ''''\<rparr>"

lemma SetWorkflowRuntime_image_witness:
  "(case demo_new of Inl _ \<Rightarrow> False
    | Inr w \<Rightarrow> map_option (\<lambda>st. (JbImage (StJob st), StDone st)) (mget (WfSteps (SetWorkflowRuntime [(''prep'', demo_view)] w)) ''prep'')
        = Some (''img'', False))"
proof -
  have "(case demo_new of Inl _ \<Rightarrow> False
    | Inr w \<Rightarrow> mget (WfSteps w) ''prep'' \<noteq> None \<and> DockerEnv (WfSource w) = ''img'')" by code_simp
  then obtain w st where w: "demo_new = Inr w" "mget (WfSteps w) ''prep'' = Some st" "DockerEnv (WfSource w) = ''img''"
    by (auto split: sum.splits)
  have v: "mget [(''prep'', demo_view)] ''prep'' = Some demo_view" by simp
  have "JVStatus demo_view = StatusJobRunning" by (simp add: demo_view_def)
  with SetWorkflowRuntime_image [OF w(2) v] show ?thesis
    unfolding w(1,3) sum.case by (auto simp: NotEnded_def w(3))
qed

end
