(* ===== verification/PF_Runtime.thy ===== *)
theory PF_Runtime
  imports PF_Workflow
begin

text \<open>
  The scheduler of a run: \<open>WorkflowRuntime\<close> of \<open>pkg/pipeline/run.go\<close> together with the goroutines of
  the steps (\<open>Execute\<close>, \<open>Watch\<close>, \<open>stopJob\<close> of \<open>step.go\<close>) and of the job watchers.

  A state holds the step objects, the position of every goroutine, the two channels of the runtime
  (the event channel, of which \<open>rtEvents\<close> is the content, and the slot channel \<open>concurrentJobs\<close>,
  of which \<open>rtSlots\<close> is the number of entries), the run status and the context. An action is one
  atomic move of one goroutine; \<open>act\<close> performs it, or is \<open>None\<close> when the goroutine cannot make it
  (a channel is full or empty, or it stands elsewhere). A run is any sequence of actions:
  \<open>reached (act e w) act_ok\<close>. The outcomes of services (polls of the job table, cache lookups, job creation) are
  part of the action. Go evaluates \<open>updateStatus\<close> and \<open>callback\<close> in one goroutine; they are one
  action here, as is each block of plain assignments; every channel operation, every wait and
  the gap between the event and the status of a job watcher are separate actions.
\<close>

section \<open>State\<close>

datatype pc =
    PIdle
  | PExec
  | PSelect
  | PSlot
  | PRun
  | PGo
  | PWatch
  | PSend "workflow_event list"
  | PEnd

text \<open>The goroutine of a step (\<open>PrPc\<close>) and the one of its job watcher: the channel \<open>ch\<close> between
  them (one entry), whether it is closed, the retry counter of the watcher, and the job state it is
  about to store after it has sent an event.\<close>

record proc =
  PrPc :: pc
  PrWatching :: bool
  PrStopper :: bool
  PrChan :: "workflow_event list"
  PrClosed :: bool
  PrTry :: nat
  PrPend :: "(watch_next \<times> watcher) option"

record run_event =
  RuStatus :: string
  RuMessage :: string
  RuView :: runtime_view

datatype boot = BootStart string | BootExec string | BootReady string | BootListen

record rt =
  rtSteps :: "step gomap"
  rtProc :: "string \<Rightarrow> proc"
  rtBoot :: "boot list"
  rtListening :: bool
  rtStatus :: string
  rtCancelled :: bool
  rtStopping :: nat
  rtEvents :: "workflow_event list"
  rtSlots :: nat
  rtCalls :: "run_event list"
  rtCacheLog :: "log_run_cache_request list"
  rtArtLog :: "log_run_artifact_request list"
  rtPanic :: bool

record rt_env =
  reLogArtifact :: "log_run_artifact_request \<Rightarrow> nat \<Rightarrow> bool"
  reUpdateRun :: "run_event \<Rightarrow> nat \<Rightarrow> bool"
  reFormat :: "timestamp \<Rightarrow> string"

definition idle_proc :: proc where
  "idle_proc =
     \<lparr>PrPc = PIdle, PrWatching = False, PrStopper = False, PrChan = [], PrClosed = False, PrTry = 0, PrPend = None\<rparr>"

text \<open>\<open>NewWorkflowRuntime\<close>: both channels have the capacity \<open>WfParallel w\<close>.\<close>

definition NewWorkflowRuntime :: "workflow \<Rightarrow> rt" where
  "NewWorkflowRuntime w =
     \<lparr>rtSteps = WfSteps w, rtProc = (\<lambda>_. idle_proc), rtBoot = [], rtListening = False, rtStatus = '''',
      rtCancelled = False, rtStopping = 0, rtEvents = [], rtSlots = 0, rtCalls = [], rtCacheLog = [],
      rtArtLog = [], rtPanic = False\<rparr>"

definition capacity :: "workflow \<Rightarrow> nat" where
  "capacity w = nat (WfParallel w)"

definition set_step :: "string \<Rightarrow> (step \<Rightarrow> step) \<Rightarrow> rt \<Rightarrow> rt" where
  "set_step n f s =
     (case mget (rtSteps s) n of None \<Rightarrow> s | Some st \<Rightarrow> s\<lparr>rtSteps := mput n (f st) (rtSteps s)\<rparr>)"

definition set_proc :: "string \<Rightarrow> (proc \<Rightarrow> proc) \<Rightarrow> rt \<Rightarrow> rt" where
  "set_proc n f s = s\<lparr>rtProc := (rtProc s)(n := f (rtProc s n))\<rparr>"

definition go_to :: "string \<Rightarrow> pc \<Rightarrow> rt \<Rightarrow> rt" where
  "go_to n p s = set_proc n (\<lambda>q. q\<lparr>PrPc := p\<rparr>) s"

definition pc_of :: "rt \<Rightarrow> string \<Rightarrow> pc" where
  "pc_of s n = PrPc (rtProc s n)"

definition IsCompleted :: "rt \<Rightarrow> bool" where
  "IsCompleted s =
     (rtStatus s = StatusRunSucceeded \<or> rtStatus s = StatusRunFailed \<or> rtStatus s = StatusRunTerminated)"

section \<open>Readiness\<close>

definition ready_deps :: "string \<Rightarrow> string list" where
  "ready_deps deps = filter (\<lambda>ds. length ds > 0) (map (\<lambda>ds. trim_blank ds) (split_on CHR '','' deps))"

text \<open>Every dependency is looked at, so a name that is no step object panics (\<open>None\<close>) whatever the
  others are.\<close>

fun deps_ready :: "step gomap \<Rightarrow> string list \<Rightarrow> bool option" where
  "deps_ready steps [] = Some True"
| "deps_ready steps (ds # rest) =
     (case mget steps ds of
        None \<Rightarrow> None
      | Some st \<Rightarrow>
          map_option (\<lambda>r. (Succeeded (StJob st) \<or> Cached (StJob st)) \<and> r) (deps_ready steps rest))"

definition isDepsReady :: "workflow \<Rightarrow> step gomap \<Rightarrow> string \<Rightarrow> bool option" where
  "isDepsReady w steps n =
     (case mget (wf_eps w) n of
        None \<Rightarrow> None
      | Some info \<Rightarrow> deps_ready steps (ready_deps (Deps info)))"

text \<open>\<open>if wfr.isDepsReady(st) && !st.submitted { st.update(done, true, job); st.ready <- true }\<close>\<close>

definition submit_if_ready :: "workflow \<Rightarrow> string \<Rightarrow> rt \<Rightarrow> rt" where
  "submit_if_ready w n s =
     (case isDepsReady w (rtSteps s) n of
        None \<Rightarrow> s\<lparr>rtPanic := True\<rparr>
      | Some r \<Rightarrow>
          (case mget (rtSteps s) n of
             None \<Rightarrow> s
           | Some st \<Rightarrow>
               if r \<and> \<not> StSubmitted st
               then set_step n (\<lambda>st. (step_update (StDone st) True (StJob st) st)\<lparr>StReady := True\<rparr>) s
               else s))"

section \<open>Start, Restart and Stop\<close>

definition rt_Start :: "string list \<Rightarrow> rt \<Rightarrow> rt" where
  "rt_Start order s = s\<lparr>rtStatus := StatusRunRunning, rtBoot := map BootStart order @ [BootListen]\<rparr>"

definition rt_Restart :: "string list \<Rightarrow> string list \<Rightarrow> rt \<Rightarrow> rt" where
  "rt_Restart order1 order2 s =
     s\<lparr>rtStatus := StatusRunRunning,
       rtBoot := map BootExec order1 @ map BootReady order2 @ [BootListen]\<rparr>"

definition boot_step :: "workflow \<Rightarrow> boot \<Rightarrow> rt \<Rightarrow> rt" where
  "boot_step w b s =
     (case b of
        BootListen \<Rightarrow> s\<lparr>rtListening := True\<rparr>
      | BootStart n \<Rightarrow>
          (case mget (rtSteps s) n of
             None \<Rightarrow> s
           | Some st \<Rightarrow> if StDone st then s else submit_if_ready w n (go_to n PExec s))
      | BootExec n \<Rightarrow>
          (case mget (rtSteps s) n of
             None \<Rightarrow> s
           | Some st \<Rightarrow> if StDone st then s else go_to n PExec s)
      | BootReady n \<Rightarrow>
          (case mget (rtSteps s) n of
             None \<Rightarrow> s
           | Some st \<Rightarrow> if StDone st \<or> StSubmitted st then s else submit_if_ready w n s))"

text \<open>\<open>Stop\<close> looks at the status first and writes it last: two actions, with others between.\<close>

definition stop_check :: "rt \<Rightarrow> rt" where
  "stop_check s = (if IsCompleted s then s else s\<lparr>rtCancelled := True, rtStopping := rtStopping s + 1\<rparr>)"

definition stop_write :: "rt \<Rightarrow> rt" where
  "stop_write s = s\<lparr>rtStatus := StatusRunTerminating, rtStopping := rtStopping s - 1\<rparr>"

section \<open>The listener\<close>

record tally =
  TDone :: nat
  TFailed :: bool
  TTerminated :: bool

text \<open>The loop of \<open>updateStatus\<close> over the step objects.\<close>

fun status_loop :: "workflow \<Rightarrow> string list \<Rightarrow> tally \<Rightarrow> rt \<Rightarrow> tally \<times> rt" where
  "status_loop w [] t s = (t, s)"
| "status_loop w (n # ns) t s =
     (case mget (rtSteps s) n of
        None \<Rightarrow> status_loop w ns t s
      | Some st \<Rightarrow>
          if Succeeded (StJob st) then status_loop w ns (t\<lparr>TDone := TDone t + 1\<rparr>) s
          else if Failed (StJob st) then status_loop w ns (t\<lparr>TDone := TDone t + 1, TFailed := True\<rparr>) s
          else if Terminated (StJob st) then status_loop w ns (t\<lparr>TDone := TDone t + 1, TTerminated := True\<rparr>) s
          else if StDone st then status_loop w ns (t\<lparr>TDone := TDone t + 1\<rparr>) s
          else status_loop w ns t (submit_if_ready w n s))"

definition final_verdict :: "tally \<Rightarrow> string \<Rightarrow> string" where
  "final_verdict t status =
     (if TFailed t then StatusRunFailed
      else if TTerminated t
           then (if status = StatusRunTerminating then StatusRunTerminated else StatusRunFailed)
      else StatusRunSucceeded)"

definition updateStatus :: "workflow \<Rightarrow> rt \<Rightarrow> rt" where
  "updateStatus w s0 =
     (case status_loop w (keys (rtSteps s0)) \<lparr>TDone = 0, TFailed = False, TTerminated = False\<rparr> s0 of
        (t, s) \<Rightarrow>
          if TDone t = length (rtSteps s)
          then s\<lparr>rtStatus := final_verdict t (rtStatus s)\<rparr>
          else if (TFailed t \<or> TTerminated t) \<and> \<not> rtCancelled s
               then s\<lparr>rtCancelled := True\<rparr>
               else s)"

definition job_view_of :: "workflow \<Rightarrow> string \<Rightarrow> step \<Rightarrow> job_view" where
  "job_view_of w name st =
     (let job = StJob st
      in \<lparr>JVJobID = JbId job, JVJobName = JbName job, JVCommand = JbCommand job, JVParameters = JbParameters job,
          JVEnv = JbEnv job, JVStartTime = JbStartTime job, JVEndTime = JbEndTime job, JVStatus = JbStatus job,
          JVDeps = JbDeps job,
          JVImage = (case mget (wf_eps w) name of None \<Rightarrow> '''' | Some info \<Rightarrow> StepImage info),
          JVArtifacts = JbArtifacts job, JVMessage = JbMessage job\<rparr>)"

definition view_of :: "workflow \<Rightarrow> rt \<Rightarrow> runtime_view" where
  "view_of w s = map (\<lambda>(n, st). (n, job_view_of w n st)) (rtSteps s)"

definition callback_message :: "workflow_event \<Rightarrow> string \<Rightarrow> string" where
  "callback_message event status =
     (if isJobStopErr event \<and> status = StatusRunTerminating
      then ''stop runfailed because of '' @ Message event @ ''. please retry it.''
      else if isJobStopErr event
      then ''run has failed. but cannot stop related job because of '' @ Message event @ ''.''
      else if isJobSubmitErr event then ''submit job in run error because of '' @ Message event @ ''.''
      else if isJobWatchErr event then ''watch job in run error because of '' @ Message event @ ''.''
      else '''')"

text \<open>\<open>for i := 0; i < 3; i++ { if ok { break } }\<close>: the number of attempts made.\<close>

definition attempts :: "(nat \<Rightarrow> bool) \<Rightarrow> nat" where
  "attempts ok = (if ok 0 then 1 else if ok 1 then 2 else 3)"

definition rt_callback :: "rt_env \<Rightarrow> workflow \<Rightarrow> workflow_event \<Rightarrow> rt \<Rightarrow> rt" where
  "rt_callback e w event s =
     (let ev = \<lparr>RuStatus = rtStatus s, RuMessage = callback_message event (rtStatus s), RuView = view_of w s\<rparr>
      in s\<lparr>rtCalls := rtCalls s @ replicate (attempts (reUpdateRun e ev)) ev\<rparr>)"

definition processEvent :: "rt_env \<Rightarrow> workflow \<Rightarrow> workflow_event \<Rightarrow> rt \<Rightarrow> rt" where
  "processEvent e w event s =
     (if IsCompleted s then s else rt_callback e w event (updateStatus w s))"

definition listen_one :: "rt_env \<Rightarrow> workflow \<Rightarrow> workflow_event \<Rightarrow> rt \<Rightarrow> rt" where
  "listen_one e w event s =
     (let s1 = processEvent e w event s
      in if IsCompleted s1 then s1\<lparr>rtListening := False\<rparr> else s1)"

section \<open>The goroutine of a step\<close>

definition getJobExtra :: "job_status \<Rightarrow> paddleflow_job \<Rightarrow> job_extra" where
  "getJobExtra status j =
     \<lparr>ExStatus = status, ExPreStatus = JbStatus j, ExJobID = JbId j, ExMessage = None\<rparr>"

definition finish_step :: "string \<Rightarrow> job_status \<Rightarrow> wf_event_value \<Rightarrow> string \<Rightarrow> rt \<Rightarrow> rt" where
  "finish_step n status ev msg s =
     (case mget (rtSteps s) n of
        None \<Rightarrow> s
      | Some st \<Rightarrow>
          go_to n (PSend [NewWorkflowEvent ev msg (Some (getJobExtra status (StJob st)))])
            (set_step n (\<lambda>st. st\<lparr>StJob := (StJob st)\<lparr>JbStatus := status\<rparr>, StDone := True\<rparr>) s))"

definition start_watch :: "string \<Rightarrow> rt \<Rightarrow> rt" where
  "start_watch n s =
     set_proc n (\<lambda>q. q\<lparr>PrPc := PWatch, PrWatching := True, PrStopper := True, PrChan := [], PrClosed := False, PrTry := 0,
                       PrPend := None\<rparr>) s"

definition artifact_request :: "workflow \<Rightarrow> string \<Rightarrow> artifact_type \<Rightarrow> string \<times> string \<Rightarrow> log_run_artifact_request" where
  "artifact_request w name ty kv =
     \<lparr>LaRunID = WfRunID w, LaFsID = mstr (WfExtra w) ''FsID'', LaFsName = mstr (WfExtra w) ''FsName'',
      LaUserName = mstr (WfExtra w) ''UserName'', LaArtifactPath = snd kv, LaStep = name, LaType = ty,
      LaArtifactName = fst kv\<rparr>"

definition log_artifacts :: "rt_env \<Rightarrow> log_run_artifact_request list \<Rightarrow> rt \<Rightarrow> rt" where
  "log_artifacts e reqs s =
     s\<lparr>rtArtLog := rtArtLog s @ concat (map (\<lambda>r. replicate (attempts (reLogArtifact e r)) r) reqs)\<rparr>"

definition logInputArtifact :: "rt_env \<Rightarrow> workflow \<Rightarrow> string \<Rightarrow> rt \<Rightarrow> rt" where
  "logInputArtifact e w n s =
     (case mget (wf_eps w) n of
        None \<Rightarrow> s
      | Some info \<Rightarrow> log_artifacts e (map (artifact_request w n ArtifactTypeInput) (Input (Artifacts info))) s)"

definition logOutputArtifact :: "rt_env \<Rightarrow> workflow \<Rightarrow> string \<Rightarrow> rt \<Rightarrow> rt" where
  "logOutputArtifact e w n s =
     (case mget (wf_eps w) n of
        None \<Rightarrow> s
      | Some info \<Rightarrow> log_artifacts e (map (artifact_request w n ArtifactTypeOutput) (Output (Artifacts info))) s)"

definition cache_request :: "workflow \<Rightarrow> step \<Rightarrow> log_run_cache_request" where
  "cache_request w st =
     \<lparr>LcFirstFp = StFirstFp st, LcSecondFp = StSecondFp st, LcSource = mstr (WfExtra w) ''Source'',
      LcRunID = WfRunID w, LcStep = StName st, LcFsID = mstr (WfExtra w) ''FsID'',
      LcFsName = mstr (WfExtra w) ''FsName'', LcUserName = mstr (WfExtra w) ''UserName'',
      LcExpiredTime = MaxExpiredTime (WCache (WfSource w)), LcStrategy = ''conservative''\<rparr>"

text \<open>The answer of \<open>checkCached\<close>, with the fingerprints it leaves in the step.\<close>

datatype cache_answer = CacheErr string | CacheHit | CacheMiss

datatype start_answer = StartErr string "string gomap" | StartOk string "string gomap"

definition set_fps :: "string \<Rightarrow> string \<times> string \<Rightarrow> rt \<Rightarrow> rt" where
  "set_fps n fps s = set_step n (\<lambda>st. st\<lparr>StFirstFp := fst fps, StSecondFp := snd fps\<rparr>) s"

definition exec_start :: "rt_env \<Rightarrow> workflow \<Rightarrow> string \<Rightarrow> start_answer \<Rightarrow> rt \<Rightarrow> rt" where
  "exec_start e w n a s =
     (case a of
        StartErr msg env \<Rightarrow>
          finish_step n StatusJobFailed WfEventJobSubmitErr msg
            (set_step n (\<lambda>st. st\<lparr>StJob := (StJob st)\<lparr>JbId := '''', JbEnv := env\<rparr>\<rparr>) s)
      | StartOk jobID env \<Rightarrow>
          start_watch n (logInputArtifact e w n
            (set_step n (\<lambda>st. st\<lparr>StJob := (StJob st)\<lparr>JbId := jobID, JbEnv := env\<rparr>\<rparr>) s)))"

definition exec_go ::
  "rt_env \<Rightarrow> workflow \<Rightarrow> string \<Rightarrow> (string \<times> string) \<Rightarrow> cache_answer \<Rightarrow> start_answer \<Rightarrow> rt \<Rightarrow> rt" where
  "exec_go e w n fps ca sa s =
     (if CEnable (WCache (WfSource w)) then
        (let s1 = set_fps n fps s
         in case ca of
              CacheErr msg \<Rightarrow>
                finish_step n StatusJobFailed WfEventJobSubmitErr msg (s1\<lparr>rtSlots := rtSlots s1 - 1\<rparr>)
            | CacheHit \<Rightarrow>
                finish_step n StatusJobCached WfEventJobUpdate ''use cache'' (s1\<lparr>rtSlots := rtSlots s1 - 1\<rparr>)
            | CacheMiss \<Rightarrow> exec_start e w n sa s1)
      else exec_start e w n sa s)"

definition is_end_status :: "job_status \<Rightarrow> bool" where
  "is_end_status st = (st = StatusJobSucceeded \<or> st = StatusJobFailed \<or> st = StatusJobTerminated)"

text \<open>One event received from the job watcher, up to the point where it is forwarded.\<close>

definition watch_event :: "rt_env \<Rightarrow> workflow \<Rightarrow> string \<Rightarrow> workflow_event \<Rightarrow> rt \<Rightarrow> rt" where
  "watch_event e w n ev s =
     (case (if isJobWatchErr ev then None else if isJobUpdate ev then Extra ev else None) of
        None \<Rightarrow> s
      | Some x \<Rightarrow>
          (case mget (rtSteps s) n of
             None \<Rightarrow> s
           | Some st \<Rightarrow>
               (let s1 = (if is_end_status (ExStatus x) then
                            (let s0 = (if CEnable (WCache (WfSource w)) \<and> ExStatus x = StatusJobSucceeded
                                       then s\<lparr>rtCacheLog := rtCacheLog s @ [cache_request w st]\<rparr> else s)
                             in (set_step n (\<lambda>st. st\<lparr>StDone := True\<rparr>) s0)\<lparr>rtSlots := rtSlots s0 - 1\<rparr>)
                          else s)
                in if ExStatus x = StatusJobSucceeded then logOutputArtifact e w n s1 else s1)))"

section \<open>Actions\<close>

datatype act =
    ABoot
  | AExecute string
  | ASelectCtx string
  | ASelectReady string
  | ATakeSlot string
  | ACheckCtx string
  | AGo string "string \<times> string" cache_answer start_answer
  | APoll string poll
  | ACommit string
  | AReceive string
  | AReceiveClosed string
  | ASend string
  | AStopErr string string
  | AStopOk string
  | AListen
  | AStopCheck
  | AStopWrite

definition act_boot :: "workflow \<Rightarrow> rt \<Rightarrow> rt option" where
  "act_boot w s = (case rtBoot s of [] \<Rightarrow> None | b # bs \<Rightarrow> Some (boot_step w b (s\<lparr>rtBoot := bs\<rparr>)))"

definition act_execute :: "workflow \<Rightarrow> string \<Rightarrow> rt \<Rightarrow> rt option" where
  "act_execute w n s =
     (case mget (rtSteps s) n of
        None \<Rightarrow> None
      | Some st \<Rightarrow>
          if pc_of s n \<noteq> PExec then None
          else if Started (StJob st) then
            (if NotEnded (StJob st)
             then (if rtSlots s < capacity w
                   then Some (start_watch n (s\<lparr>rtSlots := rtSlots s + 1\<rparr>)) else None)
             else Some (go_to n PEnd s))
          else Some (go_to n PSelect s))"

definition act_select_ctx :: "string \<Rightarrow> rt \<Rightarrow> rt option" where
  "act_select_ctx n s =
     (if pc_of s n = PSelect \<and> rtCancelled s \<and> n \<in> set (keys (rtSteps s))
      then Some (finish_step n StatusJobCancelled WfEventJobUpdate '''' s) else None)"

definition act_select_ready :: "string \<Rightarrow> rt \<Rightarrow> rt option" where
  "act_select_ready n s =
     (case mget (rtSteps s) n of
        None \<Rightarrow> None
      | Some st \<Rightarrow>
          if pc_of s n = PSelect \<and> StReady st
          then Some (go_to n PSlot (set_step n (\<lambda>st. st\<lparr>StReady := False\<rparr>) s)) else None)"

definition act_take_slot :: "workflow \<Rightarrow> string \<Rightarrow> rt \<Rightarrow> rt option" where
  "act_take_slot w n s =
     (if pc_of s n = PSlot \<and> rtSlots s < capacity w
      then Some (go_to n PRun (s\<lparr>rtSlots := rtSlots s + 1\<rparr>)) else None)"

definition act_check_ctx :: "string \<Rightarrow> rt \<Rightarrow> rt option" where
  "act_check_ctx n s =
     (if pc_of s n = PRun \<and> n \<in> set (keys (rtSteps s)) then
        Some (if rtCancelled s
              then finish_step n StatusJobCancelled WfEventJobUpdate '''' (s\<lparr>rtSlots := rtSlots s - 1\<rparr>)
              else go_to n PGo s)
      else None)"

definition act_go ::
  "rt_env \<Rightarrow> workflow \<Rightarrow> string \<Rightarrow> (string \<times> string) \<Rightarrow> cache_answer \<Rightarrow> start_answer \<Rightarrow> rt \<Rightarrow> rt option" where
  "act_go e w n fps ca sa s =
     (if pc_of s n = PGo \<and> n \<in> set (keys (rtSteps s)) then Some (exec_go e w n fps ca sa s) else None)"

text \<open>One iteration of the job watcher. Without an event the new job state is stored at once; with one,
  the event goes into \<open>ch\<close> first and \<open>act_commit\<close> stores the state later.\<close>

definition store_watcher :: "string \<Rightarrow> watch_next \<Rightarrow> watcher \<Rightarrow> rt \<Rightarrow> rt" where
  "store_watcher n r wt s =
     set_proc n (\<lambda>q. q\<lparr>PrTry := WTry wt, PrPend := None, PrWatching := (r = WatchOn),
                       PrClosed := (r \<noteq> WatchOn)\<rparr>)
       (set_step n (\<lambda>st. st\<lparr>StJob := WJob wt\<rparr>) s)"

definition act_poll :: "rt_env \<Rightarrow> string \<Rightarrow> poll \<Rightarrow> rt \<Rightarrow> rt option" where
  "act_poll e n p s =
     (case mget (rtSteps s) n of
        None \<Rightarrow> None
      | Some st \<Rightarrow>
          let q = rtProc s n
          in if PrWatching q \<and> PrPend q = None then
               (case watch_poll (reFormat e) p \<lparr>WJob = StJob st, WTry = PrTry q\<rparr> of
                  (r, [], wt) \<Rightarrow> Some (store_watcher n r wt s)
                | (r, evs, wt) \<Rightarrow>
                    if PrChan q = [] then Some (set_proc n (\<lambda>q. q\<lparr>PrChan := evs, PrPend := Some (r, wt)\<rparr>) s)
                    else None)
             else None)"

definition act_commit :: "string \<Rightarrow> rt \<Rightarrow> rt option" where
  "act_commit n s =
     (case PrPend (rtProc s n) of
        None \<Rightarrow> None
      | Some (r, wt) \<Rightarrow> Some (store_watcher n r wt s))"

definition act_receive :: "rt_env \<Rightarrow> workflow \<Rightarrow> string \<Rightarrow> rt \<Rightarrow> rt option" where
  "act_receive e w n s =
     (if pc_of s n = PWatch then
        (case PrChan (rtProc s n) of
           [] \<Rightarrow> None
         | ev # rest \<Rightarrow>
             Some (set_proc n (\<lambda>q. q\<lparr>PrPc := PSend [ev], PrChan := rest\<rparr>) (watch_event e w n ev s)))
      else None)"

text \<open>Receiving from the closed channel: an error event is sent, then the zero event.\<close>

definition zero_event :: workflow_event where
  "zero_event = \<lparr>EvType = WfEventNormal, Event = WfEventZero, Message = '''', Extra = None\<rparr>"

definition act_receive_closed :: "string \<Rightarrow> rt \<Rightarrow> rt option" where
  "act_receive_closed n s =
     (if pc_of s n = PWatch \<and> PrChan (rtProc s n) = [] \<and> PrClosed (rtProc s n)
      then Some (go_to n (PSend [NewWorkflowEvent WfEventJobWatchErr ''channel already closed'' None, zero_event]) s)
      else None)"

definition act_send :: "workflow \<Rightarrow> string \<Rightarrow> rt \<Rightarrow> rt option" where
  "act_send w n s =
     (case (pc_of s n, mget (rtSteps s) n) of
        (PSend (ev # evs), Some st) \<Rightarrow>
          if length (rtEvents s) < capacity w
          then Some (go_to n (if evs \<noteq> [] then PSend evs else if StDone st then PEnd else PWatch)
                       (s\<lparr>rtEvents := rtEvents s @ [ev]\<rparr>))
          else None
      | _ \<Rightarrow> None)"

definition act_stop_err :: "workflow \<Rightarrow> string \<Rightarrow> string \<Rightarrow> rt \<Rightarrow> rt option" where
  "act_stop_err w n msg s =
     (if rtCancelled s \<and> length (rtEvents s) < capacity w \<and> PrStopper (rtProc s n)
      then Some (s\<lparr>rtEvents := rtEvents s @ [NewWorkflowEvent WfEventJobStopErr msg None]\<rparr>) else None)"

text \<open>A successful \<open>job.Stop()\<close> ends the stopper.\<close>

definition act_stop_ok :: "string \<Rightarrow> rt \<Rightarrow> rt option" where
  "act_stop_ok n s =
     (if rtCancelled s \<and> PrStopper (rtProc s n)
      then Some (set_proc n (\<lambda>q. q\<lparr>PrStopper := False\<rparr>) s) else None)"

definition act_listen :: "rt_env \<Rightarrow> workflow \<Rightarrow> rt \<Rightarrow> rt option" where
  "act_listen e w s =
     (case rtEvents s of
        [] \<Rightarrow> None
      | ev # evs \<Rightarrow> if rtListening s then Some (listen_one e w ev (s\<lparr>rtEvents := evs\<rparr>)) else None)"

fun do_act :: "rt_env \<Rightarrow> workflow \<Rightarrow> act \<Rightarrow> rt \<Rightarrow> rt option" where
  "do_act e w ABoot s = act_boot w s"
| "do_act e w (AExecute n) s = act_execute w n s"
| "do_act e w (ASelectCtx n) s = act_select_ctx n s"
| "do_act e w (ASelectReady n) s = act_select_ready n s"
| "do_act e w (ATakeSlot n) s = act_take_slot w n s"
| "do_act e w (ACheckCtx n) s = act_check_ctx n s"
| "do_act e w (AGo n fps ca sa) s = act_go e w n fps ca sa s"
| "do_act e w (APoll n p) s = act_poll e n p s"
| "do_act e w (ACommit n) s = act_commit n s"
| "do_act e w (AReceive n) s = act_receive e w n s"
| "do_act e w (AReceiveClosed n) s = act_receive_closed n s"
| "do_act e w (ASend n) s = act_send w n s"
| "do_act e w (AStopErr n msg) s = act_stop_err w n msg s"
| "do_act e w (AStopOk n) s = act_stop_ok n s"
| "do_act e w AListen s = act_listen e w s"
| "do_act e w AStopCheck s = Some (stop_check s)"
| "do_act e w AStopWrite s = (if rtStopping s > 0 then Some (stop_write s) else None)"

text \<open>A panic of any goroutine ends the process: no action follows it.\<close>

definition act :: "rt_env \<Rightarrow> workflow \<Rightarrow> act \<Rightarrow> rt \<Rightarrow> rt option" where
  "act e w a s = (if rtPanic s then None else do_act e w a s)"

section \<open>Reachable states\<close>

text \<open>The job table holds only statuses that the cluster reports or the empty one
  (\<open>GetVCJobStatus_range\<close>, \<open>GetSparkJobStatus_range\<close>): a poll never answers \<open>cached\<close> or \<open>cancelled\<close>.\<close>

fun act_ok :: "act \<Rightarrow> bool" where
  "act_ok (APoll n (Inr row)) = (JrStatus row \<noteq> StatusJobCached \<and> JrStatus row \<noteq> StatusJobCancelled)"
| "act_ok _ = True"

section \<open>The invariant\<close>

text \<open>What a step object and its goroutines look like together.\<close>

definition ready_or_cached :: "step \<Rightarrow> bool" where
  "ready_or_cached st = (Succeeded (StJob st) \<or> Cached (StJob st))"

definition step_inv :: "proc \<Rightarrow> step \<Rightarrow> bool" where
  "step_inv q st =
     ((PrPc q \<in> {PIdle, PExec} \<longrightarrow> \<not> PrWatching q \<and> PrPend q = None \<and> (\<not> StDone st \<longrightarrow> NotEnded (StJob st))) \<and>
      (PrPc q \<in> {PSelect, PSlot, PRun, PGo} \<longrightarrow>
         \<not> PrWatching q \<and> PrPend q = None \<and> JbStatus (StJob st) = StatusJobNone) \<and>
      (PrPc q \<in> {PExec, PSelect, PSlot, PRun, PGo, PWatch} \<longrightarrow> \<not> StDone st) \<and>
      PrPc q \<noteq> PSend [] \<and>
      (PrWatching q \<longrightarrow> NotEnded (StJob st)) \<and>
      (\<forall>r wt. PrPend q = Some (r, wt) \<longrightarrow> PrWatching q \<and> (r = WatchOn \<longrightarrow> NotEnded (WJob wt))) \<and>
      (StReady st \<longrightarrow> StSubmitted st) \<and>
      (PrPc q \<in> {PSlot, PRun, PGo} \<longrightarrow> StSubmitted st))"

definition holds_slot :: "proc \<Rightarrow> step \<Rightarrow> bool" where
  "holds_slot q st =
     (case PrPc q of
        PRun \<Rightarrow> True | PGo \<Rightarrow> True | PWatch \<Rightarrow> True | PSend _ \<Rightarrow> \<not> StDone st | _ \<Rightarrow> False)"

definition slot_holders :: "rt \<Rightarrow> string set" where
  "slot_holders s = {n. \<exists>st. mget (rtSteps s) n = Some st \<and> holds_slot (rtProc s n) st}"

definition rt_inv :: "workflow \<Rightarrow> rt \<Rightarrow> bool" where
  "rt_inv w s =
     (wf_map (rtSteps s) \<and>
      (\<forall>n st. mget (rtSteps s) n = Some st \<longrightarrow> step_inv (rtProc s n) st) \<and>
      (\<forall>n. mget (rtSteps s) n = None \<longrightarrow> rtProc s n = idle_proc) \<and>
      (\<forall>n st. mget (rtSteps s) n = Some st \<longrightarrow> StSubmitted st \<longrightarrow> isDepsReady w (rtSteps s) n = Some True) \<and>
      card (slot_holders s) \<le> rtSlots s \<and> rtSlots s \<le> capacity w)"

lemma finite_slot_holders: "finite (slot_holders s)"
proof (rule finite_subset)
  show "slot_holders s \<subseteq> set (keys (rtSteps s))" by (auto simp: slot_holders_def dest: mget_in_keys)
qed simp

text \<open>Readiness only grows when no step loses its success.\<close>

lemma deps_ready_mono:
  assumes "\<And>m st. mget A m = Some st \<Longrightarrow> ready_or_cached st \<Longrightarrow>
             \<exists>st'. mget B m = Some st' \<and> ready_or_cached st'"
  shows "deps_ready A ds = Some True \<Longrightarrow> deps_ready B ds = Some True"
proof (induction ds)
  case (Cons d ds)
  then obtain st where st: "mget A d = Some st" "ready_or_cached st" "deps_ready A ds = Some True"
    by (auto simp: ready_or_cached_def split: option.splits)
  from assms [OF st(1,2)] obtain st' where "mget B d = Some st'" "ready_or_cached st'" by blast
  with Cons.IH [OF st(3)] show ?case by (auto simp: ready_or_cached_def)
qed simp

lemma isDepsReady_mono:
  assumes "\<And>m st. mget A m = Some st \<Longrightarrow> ready_or_cached st \<Longrightarrow>
             \<exists>st'. mget B m = Some st' \<and> ready_or_cached st'"
    and "isDepsReady w A n = Some True"
  shows "isDepsReady w B n = Some True"
  using deps_ready_mono [OF assms(1)] assms(2) by (auto simp: isDepsReady_def split: option.splits)

lemma isDepsReady_deps:
  assumes "isDepsReady w A n = Some True" and "mget (wf_eps w) n = Some info" and "d \<in> set (ready_deps (Deps info))"
  shows "\<exists>st. mget A d = Some st \<and> ready_or_cached st"
proof -
  have "deps_ready A ds = Some True \<Longrightarrow> d \<in> set ds \<Longrightarrow> \<exists>st. mget A d = Some st \<and> ready_or_cached st" for ds
    by (induction ds) (auto simp: ready_or_cached_def split: option.splits)
  with assms show ?thesis by (simp add: isDepsReady_def)
qed

text \<open>The one lemma behind all actions: a move that touches one step.\<close>

lemma rt_inv_local:
  assumes inv: "rt_inv w s" and n: "mget (rtSteps s) n = Some st"
    and steps: "rtSteps s' = mput n st' (rtSteps s)" and proc: "rtProc s' = (rtProc s)(n := q')"
    and loc: "step_inv q' st'"
    and done_ok: "ready_or_cached st \<Longrightarrow> ready_or_cached st'"
    and sub: "StSubmitted st' \<Longrightarrow> StSubmitted st \<or> isDepsReady w (rtSteps s) n = Some True"
    and cap: "rtSlots s' \<le> capacity w"
    and slots: "rtSlots s + of_bool (holds_slot q' st') \<le> rtSlots s' + of_bool (holds_slot (rtProc s n) st)"
  shows "rt_inv w s'"
proof -
  have get: "mget (rtSteps s') m = (if m = n then Some st' else mget (rtSteps s) m)" for m
    by (simp add: steps)
  have ready: "isDepsReady w (rtSteps s') m = Some True" if "isDepsReady w (rtSteps s) m = Some True" for m
  proof (rule isDepsReady_mono [OF _ that])
    fix k t assume "mget (rtSteps s) k = Some t" "ready_or_cached t"
    then show "\<exists>t'. mget (rtSteps s') k = Some t' \<and> ready_or_cached t'"
      using n done_ok by (auto simp: get)
  qed
  have "isDepsReady w (rtSteps s) n = Some True" if "StSubmitted st'"
    using sub [OF that] inv n by (auto simp: rt_inv_def)
  with inv ready have r: "\<forall>m t. mget (rtSteps s') m = Some t \<longrightarrow> StSubmitted t \<longrightarrow> isDepsReady w (rtSteps s') m = Some True"
    by (auto simp: get rt_inv_def)
  have h: "slot_holders s' = (slot_holders s - {n}) \<union> (if holds_slot q' st' then {n} else {})"
    by (auto simp: slot_holders_def get proc split: if_splits)
  have hn: "n \<in> slot_holders s \<longleftrightarrow> holds_slot (rtProc s n) st" using n by (simp add: slot_holders_def)
  have "card (slot_holders s') + of_bool (holds_slot (rtProc s n) st) = card (slot_holders s) + of_bool (holds_slot q' st')"
    using finite_slot_holders [of s] hn
    by (auto simp: h card.insert_remove card_Diff_singleton_if) (metis Suc_pred card_gt_0_iff empty_iff)+
  then have "card (slot_holders s') \<le> rtSlots s'"
    using slots inv by (auto simp: rt_inv_def of_bool_def split: if_splits)
  with inv r loc cap show ?thesis
    by (auto simp: rt_inv_def get proc steps)
qed

section \<open>Every action keeps the invariant\<close>

lemma rt_inv_core:
  assumes "rt_inv w s" and "rtSteps s' = rtSteps s" and "rtProc s' = rtProc s" and "rtSlots s' = rtSlots s"
  shows "rt_inv w s'"
  using assms by (simp add: rt_inv_def slot_holders_def)

lemma rt_inv_step: "rt_inv w s \<Longrightarrow> mget (rtSteps s) n = Some st \<Longrightarrow> step_inv (rtProc s n) st"
  by (simp add: rt_inv_def)

lemma rt_inv_slots: "rt_inv w s \<Longrightarrow> rtSlots s \<le> capacity w"
  by (simp add: rt_inv_def)

lemma rt_inv_unknown: "rt_inv w s \<Longrightarrow> mget (rtSteps s) n = None \<Longrightarrow> rtProc s n = idle_proc"
  by (simp add: rt_inv_def)

text \<open>A goroutine that stands anywhere but at the start belongs to a step.\<close>

lemma pc_known:
  assumes "rt_inv w s" and "pc_of s n \<noteq> PIdle \<or> PrWatching (rtProc s n) \<or> PrPend (rtProc s n) \<noteq> None"
  obtains st where "mget (rtSteps s) n = Some st"
  using assms rt_inv_unknown [OF assms(1), of n]
  by (cases "mget (rtSteps s) n") (auto simp: pc_of_def idle_proc_def)

text \<open>A holder proves that the slot count is positive.\<close>

lemma holder_slot:
  assumes "rt_inv w s" and "mget (rtSteps s) n = Some st" and "holds_slot (rtProc s n) st"
  shows "0 < rtSlots s"
proof -
  have "n \<in> slot_holders s" using assms(2,3) by (simp add: slot_holders_def)
  then have "card (slot_holders s) > 0" using finite_slot_holders card_gt_0_iff by blast
  then show ?thesis using assms(1) by (simp add: rt_inv_def)
qed

lemma set_step_Some: "mget (rtSteps s) n = Some st \<Longrightarrow> set_step n f s = s\<lparr>rtSteps := mput n (f st) (rtSteps s)\<rparr>"
  by (simp add: set_step_def)

lemmas move_simps = set_step_Some set_proc_def go_to_def start_watch_def finish_step_def pc_of_def

text \<open>Moves of the goroutine alone.\<close>

lemma rt_inv_proc:
  assumes "rt_inv w s" and "mget (rtSteps s) n = Some st" and "step_inv q' st"
    and "rtSteps s' = rtSteps s" and "rtProc s' = (rtProc s)(n := q')" and "rtSlots s' \<le> capacity w"
    and "rtSlots s + of_bool (holds_slot q' st) \<le> rtSlots s' + of_bool (holds_slot (rtProc s n) st)"
  shows "rt_inv w s'"
  by (rule rt_inv_local [OF assms(1,2), where st' = st and q' = q']) (use assms in \<open>simp_all add: mput_same\<close>)

lemma rt_inv_go:
  assumes "rt_inv w s" and "mget (rtSteps s) n = Some st" and "step_inv ((rtProc s n)\<lparr>PrPc := p\<rparr>) st"
    and "holds_slot ((rtProc s n)\<lparr>PrPc := p\<rparr>) st \<longrightarrow> holds_slot (rtProc s n) st"
  shows "rt_inv w (go_to n p s)"
  by (rule rt_inv_proc [OF assms(1,2,3)])
     (use assms(4) rt_inv_slots [OF assms(1)] in \<open>auto simp: go_to_def set_proc_def of_bool_def\<close>)

lemma inv_execute:
  assumes inv: "rt_inv w s" and a: "act_execute w n s = Some s'"
  shows "rt_inv w s'"
proof -
  obtain st where st: "mget (rtSteps s) n = Some st" and pc: "PrPc (rtProc s n) = PExec"
    using a by (auto simp: act_execute_def pc_of_def split: option.splits if_splits)
  note si = rt_inv_step [OF inv st]
  consider (watch) "NotEnded (StJob st)" "rtSlots s < capacity w" "s' = start_watch n (s\<lparr>rtSlots := rtSlots s + 1\<rparr>)"
    | (ended) "\<not> NotEnded (StJob st)" "s' = go_to n PEnd s"
    | (fresh) "\<not> Started (StJob st)" "s' = go_to n PSelect s"
    using a st pc by (auto simp: act_execute_def pc_of_def split: if_splits)
  then show ?thesis
  proof cases
    case watch
    show ?thesis
      by (rule rt_inv_proc [OF inv st, where q' = "(rtProc s n)\<lparr>PrPc := PWatch, PrWatching := True,
            PrStopper := True, PrChan := [], PrClosed := False, PrTry := 0, PrPend := None\<rparr>"])
         (use watch si pc in \<open>auto simp: step_inv_def start_watch_def set_proc_def holds_slot_def\<close>)
  next
    case ended
    then show ?thesis using si pc by (intro rt_inv_go [OF inv st, THEN back_subst [of "rt_inv w"]])
      (auto simp: step_inv_def holds_slot_def)
  next
    case fresh
    then have "JbStatus (StJob st) = StatusJobNone" by (simp add: Started_def)
    then show ?thesis unfolding fresh(2)
      by (intro rt_inv_go [OF inv st]) (use si pc in \<open>auto simp: step_inv_def holds_slot_def\<close>)
  qed
qed

text \<open>Ending a step before its job runs: its status was the empty one, so no success is lost.\<close>

lemma inv_finish:
  assumes inv: "rt_inv w s" and st: "mget (rtSteps s) n = Some st"
    and pc: "PrPc (rtProc s n) \<in> {PSelect, PRun, PGo}"
    and st1: "mget (rtSteps s1) n = Some st1" "rtSteps s1 = mput n st1 (rtSteps s)" "rtProc s1 = rtProc s"
    and same: "StSubmitted st1 = StSubmitted st" "StReady st1 = StReady st"
    and slots: "rtSlots s1 \<le> capacity w" "rtSlots s \<le> rtSlots s1 + of_bool (holds_slot (rtProc s n) st)"
    and ne: "status \<noteq> StatusJobNone"
  shows "rt_inv w (finish_step n status ev msg s1)"
proof -
  let ?st = "st1\<lparr>StJob := (StJob st1)\<lparr>JbStatus := status\<rparr>, StDone := True\<rparr>"
  let ?q = "(rtProc s n)\<lparr>PrPc := PSend [NewWorkflowEvent ev msg (Some (getJobExtra status (StJob st1)))]\<rparr>"
  note si = rt_inv_step [OF inv st]
  have nw: "\<not> PrWatching (rtProc s n)" "PrPend (rtProc s n) = None" "JbStatus (StJob st) = StatusJobNone"
    "StReady st \<longrightarrow> StSubmitted st"
    using si pc by (auto simp: step_inv_def)
  show ?thesis
  proof (rule rt_inv_local [OF inv st, where st' = ?st and q' = ?q])
    show "step_inv ?q ?st" using nw same by (simp add: step_inv_def)
    show "ready_or_cached ?st" if "ready_or_cached st"
      using that nw by (simp add: ready_or_cached_def job_predicates)
    show "rtSlots s + of_bool (holds_slot ?q ?st)
        \<le> rtSlots (finish_step n status ev msg s1) + of_bool (holds_slot (rtProc s n) st)"
      using slots(2) st1 by (simp add: move_simps holds_slot_def)
  qed (use st1 same slots in \<open>simp_all add: move_simps\<close>)
qed

lemma inv_select_ctx:
  assumes inv: "rt_inv w s" and a: "act_select_ctx n s = Some s'"
  shows "rt_inv w s'"
proof -
  have pc: "PrPc (rtProc s n) = PSelect" and s': "s' = finish_step n StatusJobCancelled WfEventJobUpdate '''' s"
    using a by (auto simp: act_select_ctx_def pc_of_def split: if_splits)
  then obtain st where st: "mget (rtSteps s) n = Some st" using pc_known [OF inv, of n] by (auto simp: pc_of_def)
  show ?thesis unfolding s'
    by (rule inv_finish [OF inv st _ st]) (use pc st rt_inv_slots [OF inv] in \<open>simp_all add: mput_same\<close>)
qed

lemma inv_select_ready:
  assumes inv: "rt_inv w s" and a: "act_select_ready n s = Some s'"
  shows "rt_inv w s'"
proof -
  obtain st where st: "mget (rtSteps s) n = Some st" and pc: "PrPc (rtProc s n) = PSelect"
    and r: "StReady st" and s': "s' = go_to n PSlot (set_step n (\<lambda>st. st\<lparr>StReady := False\<rparr>) s)"
    using a by (auto simp: act_select_ready_def pc_of_def split: option.splits if_splits)
  show ?thesis
    by (rule rt_inv_local [OF inv st, where st' = "st\<lparr>StReady := False\<rparr>" and q' = "(rtProc s n)\<lparr>PrPc := PSlot\<rparr>"])
       (use rt_inv_step [OF inv st] pc r st rt_inv_slots [OF inv] in
         \<open>auto simp: s' move_simps step_inv_def holds_slot_def ready_or_cached_def\<close>)
qed

lemma inv_take_slot:
  assumes inv: "rt_inv w s" and a: "act_take_slot w n s = Some s'"
  shows "rt_inv w s'"
proof -
  have pc: "PrPc (rtProc s n) = PSlot" and c: "rtSlots s < capacity w"
    and s': "s' = go_to n PRun (s\<lparr>rtSlots := rtSlots s + 1\<rparr>)"
    using a by (auto simp: act_take_slot_def pc_of_def split: if_splits)
  then obtain st where st: "mget (rtSteps s) n = Some st" using pc_known [OF inv, of n] by (auto simp: pc_of_def)
  show ?thesis
    by (rule rt_inv_proc [OF inv st, where q' = "(rtProc s n)\<lparr>PrPc := PRun\<rparr>"])
       (use rt_inv_step [OF inv st] pc c in \<open>auto simp: s' move_simps step_inv_def holds_slot_def\<close>)
qed

lemma inv_check_ctx:
  assumes inv: "rt_inv w s" and a: "act_check_ctx n s = Some s'"
  shows "rt_inv w s'"
proof -
  have pc: "PrPc (rtProc s n) = PRun" using a by (auto simp: act_check_ctx_def pc_of_def split: if_splits)
  then obtain st where st: "mget (rtSteps s) n = Some st" using pc_known [OF inv, of n] by (auto simp: pc_of_def)
  have h: "holds_slot (rtProc s n) st" using pc by (simp add: holds_slot_def)
  show ?thesis
  proof (cases "rtCancelled s")
    case True
    then have s': "s' = finish_step n StatusJobCancelled WfEventJobUpdate '''' (s\<lparr>rtSlots := rtSlots s - 1\<rparr>)"
      using a by (auto simp: act_check_ctx_def split: if_splits)
    show ?thesis unfolding s'
      by (rule inv_finish [OF inv st, where ?st1.0 = st])
         (use pc st h rt_inv_slots [OF inv] in \<open>simp_all add: mput_same\<close>)
  next
    case False
    then have s': "s' = go_to n PGo s" using a by (auto simp: act_check_ctx_def split: if_splits)
    show ?thesis unfolding s'
      by (rule rt_inv_go [OF inv st]) (use rt_inv_step [OF inv st] pc in \<open>auto simp: step_inv_def holds_slot_def\<close>)
  qed
qed

text \<open>Cache answer and job creation.\<close>

lemma log_artifacts_core [simp]:
  "rtSteps (log_artifacts e rs s) = rtSteps s" "rtProc (log_artifacts e rs s) = rtProc s"
  "rtSlots (log_artifacts e rs s) = rtSlots s"
  by (simp_all add: log_artifacts_def)

lemma log_in_out_core [simp]:
  "rtSteps (logInputArtifact e w n s) = rtSteps s" "rtProc (logInputArtifact e w n s) = rtProc s"
  "rtSlots (logInputArtifact e w n s) = rtSlots s"
  "rtSteps (logOutputArtifact e w n s) = rtSteps s" "rtProc (logOutputArtifact e w n s) = rtProc s"
  "rtSlots (logOutputArtifact e w n s) = rtSlots s"
  by (simp_all add: logInputArtifact_def logOutputArtifact_def split: option.splits)

text \<open>A step about to run whose description changed in other fields than status and flags.\<close>

definition same_flags :: "step \<Rightarrow> step \<Rightarrow> bool" where
  "same_flags st st1 =
     (StSubmitted st1 = StSubmitted st \<and> StReady st1 = StReady st \<and> StDone st1 = StDone st \<and>
      JbStatus (StJob st1) = JbStatus (StJob st))"

lemma inv_exec_start:
  assumes inv: "rt_inv w s" and st: "mget (rtSteps s) n = Some st" and pc: "PrPc (rtProc s n) = PGo"
    and st1: "mget (rtSteps s1) n = Some st1" "rtSteps s1 = mput n st1 (rtSteps s)" "rtProc s1 = rtProc s"
      "rtSlots s1 = rtSlots s"
    and same: "same_flags st st1"
  shows "rt_inv w (exec_start e w n sa s1)"
proof -
  note si = rt_inv_step [OF inv st]
  have h: "holds_slot (rtProc s n) st" using pc by (simp add: holds_slot_def)
  show ?thesis
  proof (cases sa)
    case (StartErr msg env)
    have "rt_inv w (finish_step n StatusJobFailed WfEventJobSubmitErr msg
            (set_step n (\<lambda>st. st\<lparr>StJob := (StJob st)\<lparr>JbId := '''', JbEnv := env\<rparr>\<rparr>) s1))"
      by (rule inv_finish [OF inv st, where ?st1.0 = "st1\<lparr>StJob := (StJob st1)\<lparr>JbId := '''', JbEnv := env\<rparr>\<rparr>"])
         (use pc st1 same rt_inv_slots [OF inv] in \<open>simp_all add: set_step_Some same_flags_def\<close>)
    then show ?thesis by (simp add: exec_start_def StartErr)
  next
    case (StartOk jobID env)
    let ?st = "st1\<lparr>StJob := (StJob st1)\<lparr>JbId := jobID, JbEnv := env\<rparr>\<rparr>"
    let ?q = "(rtProc s n)\<lparr>PrPc := PWatch, PrWatching := True, PrStopper := True, PrChan := [],
       PrClosed := False, PrTry := 0, PrPend := None\<rparr>"
    show ?thesis
      by (rule rt_inv_local [OF inv st, where st' = ?st and q' = ?q])
         (use st1 same si pc h rt_inv_slots [OF inv] in
           \<open>auto simp: exec_start_def StartOk start_watch_def set_proc_def set_step_Some step_inv_def same_flags_def
              holds_slot_def ready_or_cached_def job_predicates\<close>)
  qed
qed

lemma inv_go:
  assumes inv: "rt_inv w s" and a: "act_go e w n fps ca sa s = Some s'"
  shows "rt_inv w s'"
proof -
  have pc: "PrPc (rtProc s n) = PGo" and s': "s' = exec_go e w n fps ca sa s"
    using a by (auto simp: act_go_def pc_of_def split: if_splits)
  then obtain st where st: "mget (rtSteps s) n = Some st" using pc_known [OF inv, of n] by (auto simp: pc_of_def)
  let ?st1 = "st\<lparr>StFirstFp := fst fps, StSecondFp := snd fps\<rparr>"
  let ?s1 = "set_fps n fps s"
  have s1: "mget (rtSteps ?s1) n = Some ?st1" "rtSteps ?s1 = mput n ?st1 (rtSteps s)" "rtProc ?s1 = rtProc s"
    "rtSlots ?s1 = rtSlots s"
    using st by (simp_all add: set_fps_def set_step_Some)
  have h: "holds_slot (rtProc s n) st" using pc by (simp add: holds_slot_def)
  have fin: "rt_inv w (finish_step n status ev msg (?s1\<lparr>rtSlots := rtSlots ?s1 - 1\<rparr>))"
    if "status \<noteq> StatusJobNone" for status ev msg
    by (rule inv_finish [OF inv st, where ?st1.0 = ?st1])
       (use pc s1 h that rt_inv_slots [OF inv] in simp_all)
  show ?thesis
  proof (cases "CEnable (WCache (WfSource w))")
    case False
    have "rt_inv w (exec_start e w n sa s)"
      by (rule inv_exec_start [OF inv st pc st]) (use st in \<open>simp_all add: mput_same same_flags_def\<close>)
    with False s' show ?thesis by (simp add: exec_go_def)
  next
    case True
    have "rt_inv w (exec_start e w n sa ?s1)"
      by (rule inv_exec_start [OF inv st pc s1]) (simp add: same_flags_def)
    with True s' fin show ?thesis by (cases ca) (simp_all add: exec_go_def Let_def)
  qed
qed

text \<open>The job watcher.\<close>

lemma watch_poll_status:
  assumes "watch_poll fmt p wt = (r, evs, wt')" and "NotEnded (WJob wt)"
    and "\<forall>row. p = Inr row \<longrightarrow> JrStatus row \<noteq> StatusJobCached \<and> JrStatus row \<noteq> StatusJobCancelled"
  shows "r = WatchOn \<Longrightarrow> NotEnded (WJob wt')"
  using assms
  by (cases "case p of Inl _ \<Rightarrow> StatusJobNone | Inr row \<Rightarrow> JrStatus row")
     (auto simp: watch_poll_def Let_def job_predicates split: if_splits sum.splits)

lemma inv_store:
  assumes inv: "rt_inv w s" and st: "mget (rtSteps s) n = Some st" and wt: "PrWatching (rtProc s n)"
    and on: "r = WatchOn \<longrightarrow> NotEnded (WJob wt')"
  shows "rt_inv w (store_watcher n r wt' s)"
proof -
  note si = rt_inv_step [OF inv st]
  have ne: "NotEnded (StJob st)" and pc: "PrPc (rtProc s n) \<notin> {PIdle, PExec, PSelect, PSlot, PRun, PGo}"
    using si wt by (auto simp: step_inv_def)
  have nr: "\<not> ready_or_cached st" using ne pfj.verdict_ended by (auto simp: ready_or_cached_def)
  show ?thesis
    by (rule rt_inv_local [OF inv st, where st' = "st\<lparr>StJob := WJob wt'\<rparr>" and
          q' = "(rtProc s n)\<lparr>PrTry := WTry wt', PrPend := None, PrWatching := (r = WatchOn), PrClosed := (r \<noteq> WatchOn)\<rparr>"])
       (use si on pc nr st rt_inv_slots [OF inv] in
         \<open>auto simp: store_watcher_def set_proc_def set_step_Some step_inv_def holds_slot_def split: pc.splits\<close>)
qed

lemma inv_poll:
  assumes inv: "rt_inv w s" and ok: "act_ok (APoll n p)" and a: "act_poll e n p s = Some s'"
  shows "rt_inv w s'"
proof -
  obtain st where st: "mget (rtSteps s) n = Some st" and wt: "PrWatching (rtProc s n)" "PrPend (rtProc s n) = None"
    using a by (auto simp: act_poll_def Let_def split: option.splits if_splits)
  note si = rt_inv_step [OF inv st]
  have ne: "NotEnded (StJob st)" using si wt by (simp add: step_inv_def)
  obtain r evs wt' where p: "watch_poll (reFormat e) p \<lparr>WJob = StJob st, WTry = PrTry (rtProc s n)\<rparr> = (r, evs, wt')"
    by (rule prod_cases3)
  have row: "\<forall>row. p = Inr row \<longrightarrow> JrStatus row \<noteq> StatusJobCached \<and> JrStatus row \<noteq> StatusJobCancelled"
    using ok by auto
  have on: "r = WatchOn \<longrightarrow> NotEnded (WJob wt')" using watch_poll_status [OF p _ row] ne by simp
  show ?thesis
  proof (cases evs)
    case Nil
    then have "s' = store_watcher n r wt' s" using a st wt p by (simp add: act_poll_def)
    then show ?thesis using inv_store [OF inv st wt(1) on] by simp
  next
    case (Cons ev more_evs)
    then have s': "s' = set_proc n (\<lambda>q. q\<lparr>PrChan := evs, PrPend := Some (r, wt')\<rparr>) s"
      using a st wt p by (auto simp: act_poll_def Let_def split: if_splits)
    show ?thesis
      by (rule rt_inv_proc [OF inv st, where q' = "(rtProc s n)\<lparr>PrChan := evs, PrPend := Some (r, wt')\<rparr>"])
         (use si on wt rt_inv_slots [OF inv] in
           \<open>auto simp: s' set_proc_def step_inv_def holds_slot_def split: pc.splits\<close>)
  qed
qed

lemma inv_commit:
  assumes inv: "rt_inv w s" and a: "act_commit n s = Some s'"
  shows "rt_inv w s'"
proof -
  obtain r wt where pd: "PrPend (rtProc s n) = Some (r, wt)" and s': "s' = store_watcher n r wt s"
    using a by (auto simp: act_commit_def split: option.splits)
  then obtain st where st: "mget (rtSteps s) n = Some st" using pc_known [OF inv, of n] by auto
  have "PrWatching (rtProc s n)" "r = WatchOn \<longrightarrow> NotEnded (WJob wt)"
    using rt_inv_step [OF inv st] pd by (auto simp: step_inv_def)
  then show ?thesis unfolding s' by (rule inv_store [OF inv st])
qed

text \<open>The step goroutine receives from its watcher.\<close>

lemma inv_receive:
  assumes inv: "rt_inv w s" and a: "act_receive e w n s = Some s'"
  shows "rt_inv w s'"
proof -
  obtain ev chan where pc: "PrPc (rtProc s n) = PWatch" and ch: "PrChan (rtProc s n) = ev # chan"
    and s': "s' = set_proc n (\<lambda>q. q\<lparr>PrPc := PSend [ev], PrChan := chan\<rparr>) (watch_event e w n ev s)"
    using a by (auto simp: act_receive_def pc_of_def split: if_splits list.splits)
  then obtain st where st: "mget (rtSteps s) n = Some st" using pc_known [OF inv, of n] by (auto simp: pc_of_def)
  note si = rt_inv_step [OF inv st]
  have h: "holds_slot (rtProc s n) st" using pc by (simp add: holds_slot_def)
  let ?q = "(rtProc s n)\<lparr>PrPc := PSend [ev], PrChan := chan\<rparr>"
  let ?st = "st\<lparr>StDone := True\<rparr>"
  have same: ?thesis if "rtSteps (watch_event e w n ev s) = rtSteps s" "rtProc (watch_event e w n ev s) = rtProc s"
    "rtSlots (watch_event e w n ev s) = rtSlots s"
    by (rule rt_inv_proc [OF inv st, where q' = ?q])
       (use that si pc h rt_inv_slots [OF inv] in \<open>auto simp: s' set_proc_def step_inv_def\<close>)
  have ended: ?thesis if "rtSteps (watch_event e w n ev s) = mput n ?st (rtSteps s)"
    "rtProc (watch_event e w n ev s) = rtProc s" "rtSlots (watch_event e w n ev s) = rtSlots s - 1"
    by (rule rt_inv_local [OF inv st, where st' = ?st and q' = ?q])
       (use that si pc h rt_inv_slots [OF inv] in
         \<open>auto simp: s' set_proc_def step_inv_def holds_slot_def ready_or_cached_def\<close>)
  show ?thesis
  proof (cases "if isJobWatchErr ev then None else if isJobUpdate ev then Extra ev else None")
    case None
    then show ?thesis by (intro same) (simp_all add: watch_event_def)
  next
    case (Some x)
    show ?thesis
    proof (cases "is_end_status (ExStatus x)")
      case True
      then show ?thesis by (intro ended) (simp_all add: watch_event_def Some st set_step_Some Let_def)
    next
      case False
      then show ?thesis by (intro same) (simp_all add: watch_event_def Some st Let_def)
    qed
  qed
qed

lemma inv_receive_closed:
  assumes inv: "rt_inv w s" and a: "act_receive_closed n s = Some s'"
  shows "rt_inv w s'"
proof -
  obtain evs where pc: "PrPc (rtProc s n) = PWatch" and s': "s' = go_to n (PSend evs) s" and ne: "evs \<noteq> []"
    using a by (auto simp: act_receive_closed_def pc_of_def split: if_splits)
  then obtain st where st: "mget (rtSteps s) n = Some st" using pc_known [OF inv, of n] by (auto simp: pc_of_def)
  show ?thesis unfolding s'
    by (rule rt_inv_go [OF inv st]) (use rt_inv_step [OF inv st] pc ne in \<open>auto simp: step_inv_def holds_slot_def\<close>)
qed

lemma inv_send:
  assumes inv: "rt_inv w s" and a: "act_send w n s = Some s'"
  shows "rt_inv w s'"
proof -
  obtain ev evs st where pc: "PrPc (rtProc s n) = PSend (ev # evs)" and st: "mget (rtSteps s) n = Some st"
    and s': "s' = go_to n (if evs \<noteq> [] then PSend evs else if StDone st then PEnd else PWatch)
                (s\<lparr>rtEvents := rtEvents s @ [ev]\<rparr>)"
    using a by (auto simp: act_send_def pc_of_def split: pc.splits list.splits option.splits if_splits)
  have "rt_inv w (s\<lparr>rtEvents := rtEvents s @ [ev]\<rparr>)" by (rule rt_inv_core [OF inv]) simp_all
  then show ?thesis unfolding s'
    by (rule rt_inv_go) (use rt_inv_step [OF inv st] pc st in \<open>auto simp: step_inv_def holds_slot_def\<close>)
qed

lemma inv_stop_ok:
  assumes inv: "rt_inv w s" and a: "act_stop_ok n s = Some s'"
  shows "rt_inv w s'"
proof -
  have s': "s' = set_proc n (\<lambda>q. q\<lparr>PrStopper := False\<rparr>) s" and sp: "PrStopper (rtProc s n)"
    using a by (auto simp: act_stop_ok_def split: if_splits)
  have "rtProc s n \<noteq> idle_proc" using sp by (auto simp: idle_proc_def)
  then obtain st where st: "mget (rtSteps s) n = Some st" using inv by (cases "mget (rtSteps s) n") (auto simp: rt_inv_def)
  show ?thesis
    by (rule rt_inv_proc [OF inv st, where q' = "(rtProc s n)\<lparr>PrStopper := False\<rparr>"])
       (use rt_inv_step [OF inv st] rt_inv_slots [OF inv] in
         \<open>auto simp: s' set_proc_def step_inv_def holds_slot_def split: pc.splits\<close>)
qed

text \<open>The listener and the boot sequence hand out ready signals.\<close>

lemma inv_submit:
  assumes inv: "rt_inv w s"
  shows "rt_inv w (submit_if_ready w n s)"
proof (cases "isDepsReady w (rtSteps s) n")
  case None
  then show ?thesis by (auto simp: submit_if_ready_def intro: rt_inv_core [OF inv])
next
  case (Some r)
  show ?thesis
  proof (cases "\<exists>st. mget (rtSteps s) n = Some st \<and> r \<and> \<not> StSubmitted st")
    case True
    then obtain st where st: "mget (rtSteps s) n = Some st" and r: r and ns: "\<not> StSubmitted st" by blast
    let ?st = "(step_update (StDone st) True (StJob st) st)\<lparr>StReady := True\<rparr>"
    have s': "submit_if_ready w n s = s\<lparr>rtSteps := mput n ?st (rtSteps s)\<rparr>"
      using Some st r ns by (simp add: submit_if_ready_def set_step_Some)
    show ?thesis
      by (rule rt_inv_local [OF inv st, where st' = ?st and q' = "rtProc s n"])
         (use rt_inv_step [OF inv st] Some r ns rt_inv_slots [OF inv] in
           \<open>auto simp: s' step_update_def step_inv_def holds_slot_def ready_or_cached_def split: pc.splits\<close>)
  next
    case False
    then have "submit_if_ready w n s = s" using Some by (auto simp: submit_if_ready_def split: option.splits)
    then show ?thesis using inv by simp
  qed
qed

lemma inv_status_loop: "rt_inv w s \<Longrightarrow> rt_inv w (snd (status_loop w ns t s))"
  by (induction w ns t s rule: status_loop.induct) (simp_all add: inv_submit split: option.splits)

lemma inv_listen_one:
  assumes inv: "rt_inv w s"
  shows "rt_inv w (listen_one e w ev s)"
proof -
  have u: "rt_inv w (updateStatus w s)"
    using inv_status_loop [OF inv, of "keys (rtSteps s)" "\<lparr>TDone = 0, TFailed = False, TTerminated = False\<rparr>"]
    by (auto simp: updateStatus_def split: prod.splits intro: rt_inv_core)
  have "rt_inv w (processEvent e w ev s)"
    using inv u by (auto simp: processEvent_def rt_callback_def Let_def intro: rt_inv_core)
  then show ?thesis by (auto simp: listen_one_def Let_def intro: rt_inv_core)
qed

lemma inv_listen: "rt_inv w s \<Longrightarrow> act_listen e w s = Some s' \<Longrightarrow> rt_inv w s'"
  by (auto simp: act_listen_def split: list.splits if_splits intro!: inv_listen_one intro: rt_inv_core)

text \<open>The boot sequence starts every step goroutine at most once.\<close>

fun boot_names :: "boot list \<Rightarrow> string list" where
  "boot_names [] = []"
| "boot_names (BootStart n # bs) = n # boot_names bs"
| "boot_names (BootExec n # bs) = n # boot_names bs"
| "boot_names (b # bs) = boot_names bs"

definition boot_inv :: "rt \<Rightarrow> bool" where
  "boot_inv s = (distinct (boot_names (rtBoot s)) \<and> (\<forall>n\<in>set (boot_names (rtBoot s)). pc_of s n = PIdle))"

definition keeps_idle :: "rt \<Rightarrow> rt \<Rightarrow> bool" where
  "keeps_idle s s' = (rtBoot s' = rtBoot s \<and> (\<forall>m. pc_of s m = PIdle \<longrightarrow> pc_of s' m = PIdle))"

lemma keeps_idle_boot: "boot_inv s \<Longrightarrow> keeps_idle s s' \<Longrightarrow> boot_inv s'"
  by (auto simp: boot_inv_def keeps_idle_def)

lemma frame_boot [simp]:
  "rtBoot (set_step n f s) = rtBoot s" "rtBoot (set_proc n g s) = rtBoot s" "rtBoot (go_to n p s) = rtBoot s"
  "rtBoot (finish_step n st ev msg s) = rtBoot s" "rtBoot (start_watch n s) = rtBoot s"
  "rtBoot (log_artifacts e rs s) = rtBoot s"
  "rtBoot (logInputArtifact e w n s) = rtBoot s" "rtBoot (logOutputArtifact e w n s) = rtBoot s"
  "rtBoot (set_fps n fps s) = rtBoot s" "rtBoot (store_watcher n r wt s) = rtBoot s"
  "rtBoot (submit_if_ready w n s) = rtBoot s"
  by (simp_all add: set_step_def set_proc_def go_to_def finish_step_def start_watch_def log_artifacts_def
      logInputArtifact_def logOutputArtifact_def set_fps_def store_watcher_def submit_if_ready_def split: option.splits)

lemma frame_proc [simp]:
  "rtProc (set_step n f s) = rtProc s" "rtProc (set_fps n fps s) = rtProc s"
  "rtProc (submit_if_ready w n s) = rtProc s"
  by (simp_all add: set_step_def set_fps_def submit_if_ready_def split: option.splits)

lemma watch_event_frame [simp]:
  "rtBoot (watch_event e w n ev s) = rtBoot s" "rtProc (watch_event e w n ev s) = rtProc s"
  by (simp_all add: watch_event_def Let_def split: option.splits)

lemma keeps_idle_at:
  assumes "rtBoot s' = rtBoot s" and "\<And>m. m \<noteq> n \<Longrightarrow> rtProc s' m = rtProc s m"
    and "pc_of s n = PIdle \<Longrightarrow> pc_of s' n = PIdle"
  shows "keeps_idle s s'"
  using assms unfolding keeps_idle_def pc_of_def by metis

lemma exec_start_frame:
  "rtBoot (exec_start e w n sa s) = rtBoot s"
  "m \<noteq> n \<Longrightarrow> rtProc (exec_start e w n sa s) m = rtProc s m"
  by (cases sa; simp add: exec_start_def finish_step_def start_watch_def go_to_def set_proc_def split: option.splits)+

lemma exec_go_frame:
  "rtBoot (exec_go e w n fps ca sa s) = rtBoot s"
  "m \<noteq> n \<Longrightarrow> rtProc (exec_go e w n fps ca sa s) m = rtProc s m"
  by (cases ca; simp add: exec_go_def Let_def exec_start_frame finish_step_def go_to_def set_proc_def split: option.splits)+

lemma status_loop_frame:
  "rtBoot (snd (status_loop w ns t s)) = rtBoot s \<and> rtProc (snd (status_loop w ns t s)) = rtProc s"
  by (induction w ns t s rule: status_loop.induct) (simp_all split: option.splits)

lemma listen_one_frame:
  "rtBoot (listen_one e w ev s) = rtBoot s" "rtProc (listen_one e w ev s) = rtProc s"
proof -
  have "rtBoot (updateStatus w s) = rtBoot s \<and> rtProc (updateStatus w s) = rtProc s"
    using status_loop_frame [of w "keys (rtSteps s)" "\<lparr>TDone = 0, TFailed = False, TTerminated = False\<rparr>" s]
    by (auto simp: updateStatus_def split: prod.splits)
  then show "rtBoot (listen_one e w ev s) = rtBoot s" "rtProc (listen_one e w ev s) = rtProc s"
    by (simp_all add: listen_one_def processEvent_def rt_callback_def Let_def)
qed

lemma idle_execute: "act_execute w n s = Some s' \<Longrightarrow> keeps_idle s s'"
  by (rule keeps_idle_at [of _ _ n])
     (auto simp: act_execute_def start_watch_def go_to_def set_proc_def pc_of_def split: option.splits if_splits)

lemma idle_finish: "pc_of s n \<noteq> PIdle \<Longrightarrow> rtProc s1 = rtProc s \<Longrightarrow> rtBoot s1 = rtBoot s \<Longrightarrow>
  keeps_idle s (finish_step n st ev msg s1)"
  by (rule keeps_idle_at [of _ _ n])
     (auto simp: finish_step_def go_to_def set_proc_def pc_of_def split: option.splits)

lemma idle_moves:
  "act_select_ctx n s = Some s' \<Longrightarrow> keeps_idle s s'"
  "act_check_ctx n s = Some s' \<Longrightarrow> keeps_idle s s'"
proof -
  show "keeps_idle s s'" if "act_select_ctx n s = Some s'"
    using that by (auto simp: act_select_ctx_def split: if_splits intro: idle_finish)
  have "keeps_idle s (go_to n PGo s)" if "pc_of s n = PRun"
    by (rule keeps_idle_at [of _ _ n]) (use that in \<open>auto simp: go_to_def set_proc_def\<close>)
  then show "keeps_idle s s'" if "act_check_ctx n s = Some s'"
    using that by (auto simp: act_check_ctx_def split: if_splits intro: idle_finish)
qed

lemma idle_others:
  "act_select_ready n s = Some s' \<Longrightarrow> keeps_idle s s'"
  "act_take_slot w n s = Some s' \<Longrightarrow> keeps_idle s s'"
  "act_go e w n fps ca sa s = Some s' \<Longrightarrow> keeps_idle s s'"
  "act_commit n s = Some s' \<Longrightarrow> keeps_idle s s'"
  "act_receive e w n s = Some s' \<Longrightarrow> keeps_idle s s'"
  "act_receive_closed n s = Some s' \<Longrightarrow> keeps_idle s s'"
  "act_stop_ok n s = Some s' \<Longrightarrow> keeps_idle s s'"
  by (rule keeps_idle_at [of _ _ n];
      auto simp: act_select_ready_def act_take_slot_def act_go_def act_commit_def act_receive_def
        act_receive_closed_def act_stop_ok_def exec_go_frame store_watcher_def go_to_def set_proc_def pc_of_def
        split: option.splits if_splits list.splits)+

lemma idle_send: "act_send w n s = Some s' \<Longrightarrow> keeps_idle s s'"
  by (rule keeps_idle_at [of _ _ n])
     (auto simp: act_send_def go_to_def set_proc_def pc_of_def split: pc.splits list.splits option.splits if_splits)

lemma idle_poll: "act_poll e n p s = Some s' \<Longrightarrow> keeps_idle s s'"
  by (rule keeps_idle_at [of _ _ n])
     (auto simp: act_poll_def Let_def store_watcher_def set_proc_def pc_of_def
       split: option.splits if_splits prod.splits list.splits)

lemma idle_same: "rtBoot s' = rtBoot s \<Longrightarrow> rtProc s' = rtProc s \<Longrightarrow> keeps_idle s s'"
  by (simp add: keeps_idle_def pc_of_def)

lemma keeps_idle_act:
  assumes "do_act e w a s = Some s'" and "a \<noteq> ABoot"
  shows "keeps_idle s s'"
proof (cases a)
  case (AStopErr n msg)
  then show ?thesis using assms by (intro idle_same) (auto simp: act_stop_err_def split: if_splits)
next
  case AListen
  then show ?thesis using assms
    by (intro idle_same) (auto simp: act_listen_def listen_one_frame split: list.splits if_splits)
next
  case AStopCheck
  then show ?thesis using assms by (intro idle_same) (auto simp: stop_check_def)
next
  case AStopWrite
  then show ?thesis using assms by (intro idle_same) (auto simp: stop_write_def split: if_splits)
qed (use assms idle_execute idle_moves idle_others idle_send idle_poll in auto)

lemma inv_boot:
  assumes inv: "rt_inv w s" and b: "boot_inv s" and a: "act_boot w s = Some s'"
  shows "rt_inv w s' \<and> boot_inv s'"
proof -
  obtain b bs where bs: "rtBoot s = b # bs" and s': "s' = boot_step w b (s\<lparr>rtBoot := bs\<rparr>)"
    using a by (auto simp: act_boot_def split: list.splits)
  let ?s = "s\<lparr>rtBoot := bs\<rparr>"
  have i: "rt_inv w ?s" by (rule rt_inv_core [OF inv]) simp_all
  have bi: "boot_inv ?s" using b bs by (cases b) (auto simp: boot_inv_def pc_of_def)
  have exec: "rt_inv w (go_to n PExec ?s) \<and> boot_inv (go_to n PExec ?s)"
    if "mget (rtSteps s) n = Some st" "\<not> StDone st" "b = BootStart n \<or> b = BootExec n" for n st
  proof
    have pc: "PrPc (rtProc s n) = PIdle" using b bs that(3) by (auto simp: boot_inv_def pc_of_def)
    show "rt_inv w (go_to n PExec ?s)"
      by (rule rt_inv_go [OF i]) (use that rt_inv_step [OF inv that(1)] pc in \<open>auto simp: step_inv_def holds_slot_def\<close>)
    show "boot_inv (go_to n PExec ?s)"
      using b bs that(3) by (auto simp: boot_inv_def pc_of_def go_to_def set_proc_def)
  qed
  have sub: "rt_inv w (submit_if_ready w n u) \<and> boot_inv (submit_if_ready w n u)" if "rt_inv w u \<and> boot_inv u" for n u
    using that inv_submit keeps_idle_boot [OF _ idle_same [of "submit_if_ready w n u" u]] by simp
  show ?thesis
  proof (cases b)
    case (BootStart n)
    then show ?thesis using s' i bi exec [of n] sub by (auto simp: boot_step_def split: option.splits)
  next
    case (BootExec n)
    then show ?thesis using s' i bi exec [of n] by (auto simp: boot_step_def split: option.splits)
  next
    case (BootReady n)
    then show ?thesis using s' i bi sub by (auto simp: boot_step_def split: option.splits)
  next
    case BootListen
    have "rt_inv w (?s\<lparr>rtListening := True\<rparr>)" by (rule rt_inv_core [OF i]) simp_all
    moreover have "boot_inv (?s\<lparr>rtListening := True\<rparr>)" using bi by (simp add: boot_inv_def pc_of_def)
    ultimately show ?thesis using s' BootListen by (simp add: boot_step_def)
  qed
qed

definition run_inv :: "workflow \<Rightarrow> rt \<Rightarrow> bool" where
  "run_inv w s = (rt_inv w s \<and> boot_inv s)"

lemma run_inv_act:
  assumes "run_inv w s" and "act_ok a" and "act e w a s = Some s'"
  shows "run_inv w s'"
proof -
  have i: "rt_inv w s" and b: "boot_inv s" and d: "do_act e w a s = Some s'"
    using assms by (auto simp: run_inv_def act_def split: if_splits)
  show ?thesis
  proof (cases "a = ABoot")
    case True
    then show ?thesis using inv_boot [OF i b] d by (simp add: run_inv_def)
  next
    case False
    have "rt_inv w s'"
    proof (cases a)
      case (APoll n p)
      then show ?thesis using d assms(2) i inv_poll by simp
    next
      case (AStopErr n msg)
      then show ?thesis using d by (auto simp: act_stop_err_def split: if_splits intro: rt_inv_core [OF i])
    next
      case AStopCheck
      then show ?thesis using d i by (auto simp: stop_check_def intro: rt_inv_core [OF i])
    next
      case AStopWrite
      then show ?thesis using d by (auto simp: stop_write_def split: if_splits intro: rt_inv_core [OF i])
    next
      case (AExecute n)
      then show ?thesis using d inv_execute [OF i] by simp
    next
      case (ASelectCtx n)
      then show ?thesis using d inv_select_ctx [OF i] by simp
    next
      case (ASelectReady n)
      then show ?thesis using d inv_select_ready [OF i] by simp
    next
      case (ATakeSlot n)
      then show ?thesis using d inv_take_slot [OF i] by simp
    next
      case (ACheckCtx n)
      then show ?thesis using d inv_check_ctx [OF i] by simp
    next
      case (AGo n fps ca sa)
      then show ?thesis using d inv_go [OF i] by simp
    next
      case (ACommit n)
      then show ?thesis using d inv_commit [OF i] by simp
    next
      case (AReceive n)
      then show ?thesis using d inv_receive [OF i] by simp
    next
      case (AReceiveClosed n)
      then show ?thesis using d inv_receive_closed [OF i] by simp
    next
      case (ASend n)
      then show ?thesis using d inv_send [OF i] by simp
    next
      case (AStopOk n)
      then show ?thesis using d inv_stop_ok [OF i] by simp
    next
      case AListen
      then show ?thesis using d inv_listen [OF i] by simp
    qed (use False in simp)
    with keeps_idle_boot [OF b keeps_idle_act [OF d False]] show ?thesis by (simp add: run_inv_def)
  qed
qed

interpretation runtime: step_machine "act e w" act_ok "run_inv w" for e w
  by unfold_locales (rule run_inv_act)

section \<open>Initial states\<close>

text \<open>Step objects a scheduler may start from: fresh ones, or ones restored from a stored view whose
  submitted steps had their dependencies done.\<close>

definition startable :: "workflow \<Rightarrow> bool" where
  "startable w =
     (wf_map (WfSteps w) \<and>
      (\<forall>n st. mget (WfSteps w) n = Some st \<longrightarrow>
         (\<not> StDone st \<longrightarrow> NotEnded (StJob st)) \<and> \<not> StReady st \<and>
         (StSubmitted st \<longrightarrow> isDepsReady w (WfSteps w) n = Some True)))"

lemma fresh_startable:
  assumes "wf_map (WfSteps w)" and "\<And>n st. mget (WfSteps w) n = Some st \<Longrightarrow> fresh_step vj r n st"
  shows "startable w"
  unfolding startable_def
proof (intro conjI allI impI)
  fix n st
  assume st: "mget (WfSteps w) n = Some st"
  have f: "fresh_step vj r n st" using assms(2) [OF st] .
  then show "NotEnded (StJob st)" by (simp add: fresh_step_def NotEnded_def)
  show "\<not> StReady st" using f by (simp add: fresh_step_def)
  assume "StSubmitted st"
  with f show "isDepsReady w (WfSteps w) n = Some True" by (simp add: fresh_step_def)
qed (rule assms(1))

lemma boot_names_maps [simp]:
  "boot_names (xs @ ys) = boot_names xs @ boot_names ys"
  "boot_names (map BootStart ns) = ns" "boot_names (map BootExec ns) = ns" "boot_names (map BootReady ns) = []"
  by (induction xs rule: boot_names.induct; simp) (induction ns; simp)+

lemma rt_inv_new:
  assumes "startable w"
  shows "rt_inv w (NewWorkflowRuntime w)"
proof -
  have "slot_holders (NewWorkflowRuntime w) = {}"
    by (auto simp: slot_holders_def NewWorkflowRuntime_def holds_slot_def idle_proc_def)
  then show ?thesis using assms
    by (auto simp: rt_inv_def NewWorkflowRuntime_def startable_def step_inv_def idle_proc_def)
qed

lemma run_inv_Start:
  assumes "startable w" and "distinct order"
  shows "run_inv w (rt_Start order (NewWorkflowRuntime w))"
proof -
  have "rt_inv w (rt_Start order (NewWorkflowRuntime w))"
    by (rule rt_inv_core [OF rt_inv_new [OF assms(1)]]) (simp_all add: rt_Start_def)
  then show ?thesis using assms(2)
    by (simp add: run_inv_def boot_inv_def rt_Start_def pc_of_def NewWorkflowRuntime_def idle_proc_def)
qed

lemma run_inv_Restart:
  assumes "startable w" and "distinct order1"
  shows "run_inv w (rt_Restart order1 order2 (NewWorkflowRuntime w))"
proof -
  have "rt_inv w (rt_Restart order1 order2 (NewWorkflowRuntime w))"
    by (rule rt_inv_core [OF rt_inv_new [OF assms(1)]]) (simp_all add: rt_Restart_def)
  then show ?thesis using assms(2)
    by (simp add: run_inv_def boot_inv_def rt_Restart_def pc_of_def NewWorkflowRuntime_def idle_proc_def)
qed

section \<open>The verdict of updateStatus\<close>

definition settled :: "step \<Rightarrow> bool" where
  "settled st = (Succeeded (StJob st) \<or> Failed (StJob st) \<or> Terminated (StJob st) \<or> StDone st)"

text \<open>The loop changes flags only, so what it counts is the state before it.\<close>

definition same_verdict :: "rt \<Rightarrow> rt \<Rightarrow> bool" where
  "same_verdict s s' =
     (keys (rtSteps s') = keys (rtSteps s) \<and> rtStatus s' = rtStatus s \<and> rtCancelled s' = rtCancelled s \<and>
      (\<forall>n. map_option StJob (mget (rtSteps s') n) = map_option StJob (mget (rtSteps s) n) \<and>
           map_option StDone (mget (rtSteps s') n) = map_option StDone (mget (rtSteps s) n)))"

lemma same_verdict_refl [simp]: "same_verdict s s"
  by (simp add: same_verdict_def)

lemma same_verdict_trans: "same_verdict a b \<Longrightarrow> same_verdict b c \<Longrightarrow> same_verdict a c"
  by (simp add: same_verdict_def)

lemma submit_same_verdict: "same_verdict s (submit_if_ready w n s)"
  by (auto simp: submit_if_ready_def same_verdict_def set_step_Some step_update_def keys_mput_same
      split: option.splits)

lemma same_verdict_step:
  assumes "same_verdict s s'" and "mget (rtSteps s) n = Some st"
  shows "\<exists>st'. mget (rtSteps s') n = Some st' \<and> StJob st' = StJob st \<and> StDone st' = StDone st"
proof -
  have "map_option StJob (mget (rtSteps s') n) = Some (StJob st)"
    "map_option StDone (mget (rtSteps s') n) = Some (StDone st)"
    using assms unfolding same_verdict_def by (metis option.map(2))+
  then show ?thesis by auto
qed

definition tally_of :: "(string \<Rightarrow> step) \<Rightarrow> string list \<Rightarrow> tally \<Rightarrow> tally" where
  "tally_of g ns t =
     \<lparr>TDone = TDone t + length (filter (\<lambda>n. settled (g n)) ns),
      TFailed = (TFailed t \<or> (\<exists>n\<in>set ns. Failed (StJob (g n)))),
      TTerminated = (TTerminated t \<or> (\<exists>n\<in>set ns. Terminated (StJob (g n))))\<rparr>"

lemma tally_of_Nil [simp]: "tally_of g [] t = t"
  by (simp add: tally_of_def)

lemma status_loop_tally:
  assumes "same_verdict s0 s" and "\<And>n. n \<in> set ns \<Longrightarrow> mget (rtSteps s0) n = Some (g n)"
  shows "fst (status_loop w ns t s) = tally_of g ns t \<and> same_verdict s0 (snd (status_loop w ns t s))"
  using assms
proof (induction ns arbitrary: t s)
  case (Cons n ns)
  have "mget (rtSteps s0) n = Some (g n)" using Cons.prems(2) by simp
  from same_verdict_step [OF Cons.prems(1) this] obtain st where
    st: "mget (rtSteps s) n = Some st" "StJob st = StJob (g n)" "StDone st = StDone (g n)" by blast
  have sub: "same_verdict s0 (submit_if_ready w n s)"
    using Cons.prems(1) submit_same_verdict by (rule same_verdict_trans)
  have rest: "\<And>m. m \<in> set ns \<Longrightarrow> mget (rtSteps s0) m = Some (g m)" using Cons.prems(2) by simp
  note IH = Cons.IH [OF Cons.prems(1) rest] Cons.IH [OF sub rest]
  show ?case
    using st IH pfj.verdict_unique(1,3) [of "StJob (g n)"] by (auto simp: tally_of_def settled_def)
qed simp

definition step_at :: "rt \<Rightarrow> string \<Rightarrow> step" where
  "step_at s n = the (mget (rtSteps s) n)"

lemma step_at_key: "n \<in> set (keys (rtSteps s)) \<Longrightarrow> mget (rtSteps s) n = Some (step_at s n)"
  using mget_None [of "rtSteps s" n] by (cases "mget (rtSteps s) n") (auto simp: step_at_def)

definition all_settled :: "rt \<Rightarrow> bool" where
  "all_settled s = (\<forall>n\<in>set (keys (rtSteps s)). settled (step_at s n))"

definition any_failed :: "rt \<Rightarrow> bool" where
  "any_failed s = (\<exists>n\<in>set (keys (rtSteps s)). Failed (StJob (step_at s n)))"

definition any_terminated :: "rt \<Rightarrow> bool" where
  "any_terminated s = (\<exists>n\<in>set (keys (rtSteps s)). Terminated (StJob (step_at s n)))"

lemma updateStatus_exact:
  "rtStatus (updateStatus w s) =
     (if all_settled s
      then (if any_failed s then StatusRunFailed
            else if any_terminated s
                 then (if rtStatus s = StatusRunTerminating then StatusRunTerminated else StatusRunFailed)
            else StatusRunSucceeded)
      else rtStatus s) \<and>
   rtCancelled (updateStatus w s) =
     (rtCancelled s \<or> (\<not> all_settled s \<and> (any_failed s \<or> any_terminated s)))"
proof -
  let ?ns = "keys (rtSteps s)"
  let ?t0 = "\<lparr>TDone = 0, TFailed = False, TTerminated = False\<rparr>"
  obtain t s1 where l: "status_loop w ?ns ?t0 s = (t, s1)" by (rule prod.exhaust)
  have "fst (status_loop w ?ns ?t0 s) = tally_of (step_at s) ?ns ?t0 \<and> same_verdict s (snd (status_loop w ?ns ?t0 s))"
    by (rule status_loop_tally) (simp_all only: same_verdict_refl step_at_key)
  then have t: "t = tally_of (step_at s) ?ns ?t0" and v: "same_verdict s s1" by (simp_all only: l fst_conv snd_conv)
  have len: "length (rtSteps s1) = length ?ns" using v by (metis length_map same_verdict_def)
  have "TDone t = length (filter (\<lambda>n. settled (step_at s n)) ?ns)" using t by (simp add: tally_of_def)
  then have "TDone t = length (rtSteps s1) \<longleftrightarrow> all_settled s"
    unfolding all_settled_def len by (metis filter_True length_filter_less nat_neq_iff)
  moreover have "TFailed t = any_failed s" "TTerminated t = any_terminated s"
    using t by (auto simp: tally_of_def any_failed_def any_terminated_def)
  moreover have "rtStatus s1 = rtStatus s" "rtCancelled s1 = rtCancelled s" using v by (simp_all add: same_verdict_def)
  ultimately show ?thesis
    by (auto simp: updateStatus_def l final_verdict_def)
qed

section \<open>States in which nothing can move\<close>

text \<open>No goroutine but a caller of \<open>Stop\<close> can make a move.\<close>

definition proc_blocked :: "workflow \<Rightarrow> rt \<Rightarrow> string \<Rightarrow> step \<Rightarrow> bool" where
  "proc_blocked w s n st =
     (let q = rtProc s n
      in (PrPc q = PEnd \<or> PrPc q = PIdle \<or> (PrPc q = PSlot \<and> capacity w \<le> rtSlots s) \<or>
          (PrPc q = PSelect \<and> \<not> StReady st \<and> \<not> rtCancelled s)) \<and>
         \<not> PrWatching q \<and> PrPend q = None \<and> (rtCancelled s \<longrightarrow> \<not> PrStopper q))"

definition quiet :: "workflow \<Rightarrow> rt \<Rightarrow> bool" where
  "quiet w s =
     (rtBoot s = [] \<and> rtEvents s = [] \<and> list_all (\<lambda>(n, st). proc_blocked w s n st) (rtSteps s))"

lemma quiet_blocked:
  assumes "run_inv w s" and "quiet w s" and "a \<notin> {AStopCheck, AStopWrite}"
  shows "act e w a s = None"
proof -
  have p: "proc_blocked w s n st" if "mget (rtSteps s) n = Some st" for n st
    using assms(2) mget_in_set [OF that] by (auto simp: quiet_def list_all_iff)
  have i: "rtProc s n = idle_proc" if "mget (rtSteps s) n = None" for n
    using assms(1) that by (simp add: run_inv_def rt_inv_def)
  have b: "PrPc (rtProc s n) \<in> {PEnd, PIdle, PSlot, PSelect} \<and> \<not> PrWatching (rtProc s n) \<and>
      PrPend (rtProc s n) = None \<and> (PrPc (rtProc s n) = PSlot \<longrightarrow> capacity w \<le> rtSlots s) \<and>
      (PrPc (rtProc s n) = PSelect \<longrightarrow> \<not> rtCancelled s) \<and> (rtCancelled s \<longrightarrow> \<not> PrStopper (rtProc s n))" for n
    using p [of n] i [of n] by (cases "mget (rtSteps s) n") (auto simp: proc_blocked_def idle_proc_def Let_def)
  have r: "\<not> (PrPc (rtProc s n) = PSelect \<and> StReady st)" if "mget (rtSteps s) n = Some st" for n st
    using p [OF that] by (auto simp: proc_blocked_def Let_def)
  have "do_act e w a s = None"
  proof (cases a)
    case ABoot
    then show ?thesis using assms(2) by (simp add: act_boot_def quiet_def)
  next
    case (AExecute n)
    then show ?thesis using b [of n] by (auto simp: act_execute_def pc_of_def split: option.splits)
  next
    case (ASelectCtx n)
    then show ?thesis using b [of n] by (auto simp: act_select_ctx_def pc_of_def)
  next
    case (ASelectReady n)
    then show ?thesis using r [of n] by (auto simp: act_select_ready_def pc_of_def split: option.splits)
  next
    case (ATakeSlot n)
    then show ?thesis using b [of n] by (auto simp: act_take_slot_def pc_of_def)
  next
    case (ACheckCtx n)
    then show ?thesis using b [of n] by (auto simp: act_check_ctx_def pc_of_def)
  next
    case (AGo n fps ca sa)
    then show ?thesis using b [of n] by (auto simp: act_go_def pc_of_def)
  next
    case (APoll n q)
    then show ?thesis using b [of n] by (auto simp: act_poll_def Let_def split: option.splits)
  next
    case (ACommit n)
    then show ?thesis using b [of n] by (simp add: act_commit_def)
  next
    case (AReceive n)
    then show ?thesis using b [of n] by (auto simp: act_receive_def pc_of_def)
  next
    case (AReceiveClosed n)
    then show ?thesis using b [of n] by (auto simp: act_receive_closed_def pc_of_def)
  next
    case (ASend n)
    then show ?thesis using b [of n] by (auto simp: act_send_def pc_of_def split: pc.splits)
  next
    case (AStopErr n msg)
    then show ?thesis using b [of n] by (simp add: act_stop_err_def)
  next
    case (AStopOk n)
    then show ?thesis using b [of n] by (simp add: act_stop_ok_def)
  next
    case AListen
    then show ?thesis using assms(2) by (simp add: act_listen_def quiet_def)
  qed (use assms(3) in simp_all)
  then show ?thesis by (simp add: act_def)
qed

section \<open>Properties\<close>

text \<open>
  C2: At no time do more jobs hold a slot (they are being created or watched) than the parallelism of
  the workflow allows, whatever the interleaving of steps, watchers, listener and stops.
\<close>

theorem running_jobs_bounded:
  assumes "startable w" and "distinct order"
    and "reached (act e w) act_ok (rt_Start order (NewWorkflowRuntime w)) s"
  shows "card (slot_holders s) \<le> rtSlots s \<and> int (rtSlots s) \<le> max 0 (WfParallel w)"
proof -
  have "run_inv w s" by (rule runtime.reached_inv [OF assms(3) run_inv_Start [OF assms(1,2)]])
  then show ?thesis by (auto simp: run_inv_def rt_inv_def capacity_def)
qed

definition demo_info :: "string \<Rightarrow> wf_step" where
  "demo_info deps =
     \<lparr>Parameters = [], Command = ''run'', Deps = deps, Artifacts = \<lparr>Input = [], Output = []\<rparr>, Env = [],
      StepImage = ''img''\<rparr>"

definition demo_wf :: "int \<Rightarrow> wf_step gomap \<Rightarrow> workflow" where
  "demo_wf par eps = projr (NewWorkflow (\<lambda>v. None) demo_vj (\<lambda>k xs. xs) (\<lambda>xs. xs)
     \<lparr>WName = ''demo'', DockerEnv = ''img'', EntryPoints = eps,
      WCache = \<lparr>CEnable = False, MaxExpiredTime = '''', FsScope = ''''\<rparr>, Parallelism = par\<rparr> ''run-1'' '''' [] [])"

definition demo_rte :: rt_env where
  "demo_rte = \<lparr>reLogArtifact = (\<lambda>r k. True), reUpdateRun = (\<lambda>r k. True), reFormat = itoa\<rparr>"

definition one_step :: workflow where "one_step = demo_wf 1 [(''a'', demo_info '''')]"
definition two_steps :: workflow where
  "two_steps = demo_wf 1 [(''a'', demo_info ''''), (''b'', demo_info '''')]"
definition chain_steps :: workflow where
  "chain_steps = demo_wf 2 [(''a'', demo_info ''''), (''b'', demo_info ''a'')]"

definition fresh_flags :: "step \<Rightarrow> bool" where
  "fresh_flags st =
     (\<not> StDone st \<and> \<not> StReady st \<and> \<not> StSubmitted st \<and> JbStatus (StJob st) = StatusJobNone)"

lemma startable_fresh_flags:
  assumes "wf_map (WfSteps w)" and "list_all (\<lambda>(n, st). fresh_flags st) (WfSteps w)"
  shows "startable w"
  unfolding startable_def
proof (intro conjI allI impI)
  fix n st assume "mget (WfSteps w) n = Some st"
  then have "fresh_flags st" using assms(2) mget_in_set [of "WfSteps w" n st] by (auto simp: list_all_iff)
  then show "NotEnded (StJob st)" "\<not> StReady st" "StSubmitted st \<Longrightarrow> isDepsReady w (WfSteps w) n = Some True"
    by (simp_all add: fresh_flags_def NotEnded_def)
qed (rule assms(1))

lemma demo_startable: "startable one_step" "startable two_steps" "startable chain_steps"
  by (rule startable_fresh_flags; code_simp)+

definition begin_run :: "act list" where
  "begin_run = [ABoot, ABoot, ABoot]"

definition job_begins :: "string \<Rightarrow> act list" where
  "job_begins n = [AExecute n, ASelectReady n, ATakeSlot n, ACheckCtx n, AGo n ('''', '''') CacheMiss (StartOk ''j'' [])]"

definition the_state :: "workflow \<Rightarrow> string list \<Rightarrow> act list \<Rightarrow> rt option" where
  "the_state w order as = run_acts (act demo_rte w) as (rt_Start order (NewWorkflowRuntime w))"

lemma the_state_reached:
  assumes "the_state w order as = Some s" and "list_all act_ok as"
  shows "reached (act demo_rte w) act_ok (rt_Start order (NewWorkflowRuntime w)) s"
  using assms unfolding the_state_def by (rule reached_acts)

lemma the_state_obs:
  assumes "(case the_state w order as of None \<Rightarrow> False | Some s \<Rightarrow> P s)" and "list_all act_ok as"
  obtains s where "reached (act demo_rte w) act_ok (rt_Start order (NewWorkflowRuntime w)) s" "P s"
  using assms the_state_reached [OF _ assms(2)] by (auto split: option.splits)

lemma running_jobs_bounded_witness:
  "\<exists>s. reached (act demo_rte two_steps) act_ok (rt_Start [''a'', ''b''] (NewWorkflowRuntime two_steps)) s \<and>
     rtSlots s = 1 \<and> card (slot_holders s) \<le> 1"
proof -
  have "(case the_state two_steps [''a'', ''b''] (begin_run @ job_begins ''a'') of None \<Rightarrow> False
       | Some s \<Rightarrow> rtSlots s = 1)" by code_simp
  moreover have "list_all act_ok (begin_run @ job_begins ''a'')" by code_simp
  ultimately obtain s where s: "reached (act demo_rte two_steps) act_ok
      (rt_Start [''a'', ''b''] (NewWorkflowRuntime two_steps)) s" "rtSlots s = 1"
    by (rule the_state_obs)
  with running_jobs_bounded [OF demo_startable(2) _ s(1)] show ?thesis by auto
qed

text \<open>
  C1: A step gets its ready signal, and its job is created, only when all the dependencies it names
  have succeeded or were taken from the cache, and they stay so: in every reachable state, after
  \<open>Start\<close> or \<open>Restart\<close>, every submitted step has only such dependencies.
\<close>

theorem submitted_steps_have_done_deps:
  assumes "startable w" and "distinct order"
    and "reached (act e w) act_ok (rt_Start order (NewWorkflowRuntime w)) s \<or>
         reached (act e w) act_ok (rt_Restart order order2 (NewWorkflowRuntime w)) s"
    and "mget (rtSteps s) n = Some st" and "StSubmitted st \<or> pc_of s n \<in> {PSlot, PRun, PGo}"
    and "mget (wf_eps w) n = Some info" and "d \<in> set (ready_deps (Deps info))"
  shows "\<exists>sd. mget (rtSteps s) d = Some sd \<and> (Succeeded (StJob sd) \<or> Cached (StJob sd))"
proof -
  have inv: "rt_inv w s"
    using assms(3) runtime.reached_inv [OF _ run_inv_Start [OF assms(1,2)]]
      runtime.reached_inv [OF _ run_inv_Restart [OF assms(1,2)]]
    by (auto simp: run_inv_def)
  then have "StSubmitted st" using assms(4,5) by (auto simp: rt_inv_def step_inv_def pc_of_def)
  then have "isDepsReady w (rtSteps s) n = Some True" using inv assms(4) by (simp add: rt_inv_def)
  from isDepsReady_deps [OF this assms(6,7)] show ?thesis by (simp add: ready_or_cached_def)
qed

definition job_ends :: "string \<Rightarrow> job_status \<Rightarrow> act list" where
  "job_ends n st = [APoll n (Inr (demo_row st)), ACommit n, AReceive n, ASend n, AListen]"

lemma submitted_steps_have_done_deps_witness:
  "\<exists>s. reached (act demo_rte chain_steps) act_ok (rt_Start [''b'', ''a''] (NewWorkflowRuntime chain_steps)) s \<and>
     pc_of s ''b'' = PGo \<and>
     (\<exists>sd. mget (rtSteps s) ''a'' = Some sd \<and> (Succeeded (StJob sd) \<or> Cached (StJob sd)))"
proof -
  let ?as = "begin_run @ job_begins ''a'' @ job_ends ''a'' StatusJobSucceeded @
     [AExecute ''b'', ASelectReady ''b'', ATakeSlot ''b'', ACheckCtx ''b'']"
  have "(case the_state chain_steps [''b'', ''a''] ?as of None \<Rightarrow> False
       | Some s \<Rightarrow> pc_of s ''b'' = PGo \<and> mget (rtSteps s) ''b'' \<noteq> None)" by code_simp
  moreover have "list_all act_ok ?as" by code_simp
  ultimately obtain s where s: "reached (act demo_rte chain_steps) act_ok
      (rt_Start [''b'', ''a''] (NewWorkflowRuntime chain_steps)) s" "pc_of s ''b'' = PGo \<and> mget (rtSteps s) ''b'' \<noteq> None"
    by (rule the_state_obs)
  then obtain st where st: "mget (rtSteps s) ''b'' = Some st" by auto
  have "(case mget (wf_eps chain_steps) ''b'' of None \<Rightarrow> False | Some i \<Rightarrow> ready_deps (Deps i) = [''a''])" by code_simp
  then obtain i where i: "mget (wf_eps chain_steps) ''b'' = Some i" "ready_deps (Deps i) = [''a'']"
    by (auto split: option.splits)
  show ?thesis
    using submitted_steps_have_done_deps [OF demo_startable(3) _ disjI1 [OF s(1)] st _ i(1)] s i(2) by auto
qed

text \<open>
  C5: What \<open>updateStatus\<close> decides, exactly. The run ends when every step succeeded, failed, was
  terminated, or is marked done; it fails if any failed, or if any was terminated without a stop
  request; it is terminated if any was terminated after a stop request; it succeeds otherwise. If it
  goes on and a step failed or was terminated, the context is cancelled.
\<close>

theorem updateStatus_verdict:
  "rtStatus (updateStatus w s) =
     (if all_settled s
      then (if any_failed s then StatusRunFailed
            else if any_terminated s
                 then (if rtStatus s = StatusRunTerminating then StatusRunTerminated else StatusRunFailed)
            else StatusRunSucceeded)
      else rtStatus s) \<and>
   rtCancelled (updateStatus w s) =
     (rtCancelled s \<or> (\<not> all_settled s \<and> (any_failed s \<or> any_terminated s)))"
  by (rule updateStatus_exact)

end
