(* ===== verification/PF_RunTraces.thy ===== *)
theory PF_RunTraces
  imports PF_Runtime
begin

text \<open>
  What can happen to a run over time: which status changes are possible, how a run gets stuck, and
  executions of small workflows that show where the order of two goroutines decides the outcome.
\<close>

section \<open>Status frames\<close>

lemma status_frames [simp]:
  "rtStatus (set_step n f s) = rtStatus s" "rtStatus (set_proc n g s) = rtStatus s"
  "rtStatus (go_to n p s) = rtStatus s" "rtStatus (finish_step n st ev msg s) = rtStatus s"
  "rtStatus (start_watch n s) = rtStatus s" "rtStatus (log_artifacts e rs s) = rtStatus s"
  "rtStatus (logInputArtifact e w n s) = rtStatus s" "rtStatus (logOutputArtifact e w n s) = rtStatus s"
  "rtStatus (set_fps n fps s) = rtStatus s" "rtStatus (store_watcher n r wt s) = rtStatus s"
  "rtStatus (submit_if_ready w n s) = rtStatus s"
  by (simp_all add: set_step_def set_proc_def go_to_def finish_step_def start_watch_def log_artifacts_def
      logInputArtifact_def logOutputArtifact_def set_fps_def store_watcher_def submit_if_ready_def split: option.splits)

lemma status_notify [simp]: "rtStatus (listen_one e w ev s) = rtStatus s" if "IsCompleted s"
  using that by (simp add: listen_one_def processEvent_def IsCompleted_def)

lemma status_boot [simp]: "rtStatus (boot_step w b s) = rtStatus s"
  by (simp add: boot_step_def split: boot.splits option.splits)

lemma status_exec_go [simp]: "rtStatus (exec_go e w n fps ca sa s) = rtStatus s"
  by (simp add: exec_go_def exec_start_def Let_def split: cache_answer.splits start_answer.splits)

lemma status_watch_event [simp]: "rtStatus (watch_event e w n ev s) = rtStatus s"
  by (simp add: watch_event_def Let_def split: option.splits)

lemmas act_defs = act_boot_def act_execute_def act_select_ctx_def act_select_ready_def act_take_slot_def
  act_check_ctx_def act_go_def act_poll_def act_commit_def act_receive_def act_receive_closed_def
  act_send_def act_stop_err_def act_stop_ok_def act_listen_def

text \<open>
  C3: A run that has ended keeps its status: no job event, no step and no listener turn changes
  succeeded, failed or terminated. Only the delayed write of a \<open>Stop\<close> call can.
\<close>

theorem final_status_sticky:
  assumes "IsCompleted s" and "act e w a s = Some s'" and "a \<noteq> AStopWrite"
  shows "rtStatus s' = rtStatus s"
proof -
  have "do_act e w a s = Some s'" using assms(2) by (simp add: act_def split: if_splits)
  then show ?thesis using assms(1,3)
    by (cases a)
      (auto simp: act_defs stop_check_def Let_def IsCompleted_def split: list.splits option.splits if_splits prod.splits pc.splits)
qed

lemma final_status_sticky_witness:
  "\<exists>s s'. IsCompleted s \<and> act demo_rte one_step (AExecute ''a'') s = Some s' \<and> rtStatus s' = StatusRunSucceeded"
proof -
  let ?s = "(go_to ''a'' PExec (NewWorkflowRuntime one_step))\<lparr>rtStatus := StatusRunSucceeded\<rparr>"
  have a: "act demo_rte one_step (AExecute ''a'') ?s \<noteq> None" by code_simp
  have c: "IsCompleted ?s" by (simp add: IsCompleted_def)
  from a obtain s' where s': "act demo_rte one_step (AExecute ''a'') ?s = Some s'" by blast
  have "rtStatus s' = StatusRunSucceeded" using final_status_sticky [OF c s'] by simp
  with c s' show ?thesis by blast
qed

section \<open>A hung run stays hung\<close>

text \<open>Every goroutine is blocked, the context is cancelled and the run has not ended: nothing that
  can still happen, further calls of \<open>Stop\<close> included, ends it.\<close>

definition hung :: "workflow \<Rightarrow> rt \<Rightarrow> bool" where
  "hung w s = (quiet w s \<and> rtCancelled s \<and> \<not> IsCompleted s)"

lemma quiet_cong:
  assumes "rtBoot s' = rtBoot s" "rtEvents s' = rtEvents s" "rtSteps s' = rtSteps s" "rtProc s' = rtProc s"
    "rtSlots s' = rtSlots s" "rtCancelled s' = rtCancelled s"
  shows "quiet w s' = quiet w s"
  unfolding quiet_def proc_blocked_def assms ..

lemma hung_stop_check:
  assumes "hung w s"
  shows "hung w (stop_check s)"
proof -
  have "quiet w (stop_check s) = quiet w s"
    by (rule quiet_cong) (use assms in \<open>simp_all add: hung_def stop_check_def\<close>)
  then show ?thesis using assms by (simp add: hung_def stop_check_def IsCompleted_def)
qed

lemma hung_stop_write:
  assumes "hung w s"
  shows "hung w (stop_write s)"
proof -
  have "quiet w (stop_write s) = quiet w s"
    by (rule quiet_cong) (simp_all add: stop_write_def)
  then show ?thesis using assms
    by (simp add: hung_def stop_write_def IsCompleted_def StatusRunTerminating_def StatusRunSucceeded_def
        StatusRunFailed_def StatusRunTerminated_def)
qed

interpretation hanging: step_machine "act e w" act_ok "\<lambda>s. run_inv w s \<and> hung w s" for e w
proof
  fix s a s'
  assume i: "run_inv w s \<and> hung w s" and ok: "act_ok a" and s': "act e w a s = Some s'"
  have "run_inv w s'" using runtime.keeps [OF _ ok s'] i by blast
  moreover have "a = AStopCheck \<or> a = AStopWrite"
    using quiet_blocked [of w s a e] i s' by (auto simp: hung_def)
  then have "hung w s'"
    using s' i by (auto simp: act_def hung_stop_check hung_stop_write split: if_splits)
  ultimately show "run_inv w s' \<and> hung w s'" ..
qed

section \<open>Orders that decide the outcome\<close>

definition begin_one :: "act list" where
  "begin_one = [ABoot, ABoot]"

lemmas run_inv_reached = runtime.reached_inv [OF _ run_inv_Start]

lemma slot_holders_none: "list_all (\<lambda>(n, st). \<not> holds_slot (rtProc s n) st) (rtSteps s) \<Longrightarrow> slot_holders s = {}"
  by (auto simp: slot_holders_def list_all_iff dest!: mget_in_set)

text \<open>
  C7: A failed submission hangs a run of parallelism one: \<open>Execute\<close> takes a slot, \<open>job.Start\<close> fails
  and the slot is never given back, so the next ready step waits for it for ever. From that state no
  sequence of actions, further stops included, ends the run.
\<close>

theorem leaked_slot_hangs_run:
  "\<exists>s. reached (act demo_rte two_steps) act_ok (rt_Start [''a'', ''b''] (NewWorkflowRuntime two_steps)) s \<and>
     slot_holders s = {} \<and> rtSlots s = 1 \<and> pc_of s ''b'' = PSlot \<and>
     (\<forall>s'. reached (act demo_rte two_steps) act_ok s s' \<longrightarrow> \<not> IsCompleted s')"
proof -
  let ?as = "begin_run @ [AExecute ''a'', AExecute ''b'', ASelectReady ''b'', ASelectReady ''a'',
     ATakeSlot ''a'', ACheckCtx ''a'', AGo ''a'' ('''', '''') CacheMiss (StartErr ''quota'' []), ASend ''a'', AListen]"
  have "(case the_state two_steps [''a'', ''b''] ?as of None \<Rightarrow> False
       | Some s \<Rightarrow> hung two_steps s \<and> rtSlots s = 1 \<and> pc_of s ''b'' = PSlot \<and>
           list_all (\<lambda>(n, st). \<not> holds_slot (rtProc s n) st) (rtSteps s))" by code_simp
  moreover have "list_all act_ok ?as" by code_simp
  ultimately obtain s where s: "reached (act demo_rte two_steps) act_ok
      (rt_Start [''a'', ''b''] (NewWorkflowRuntime two_steps)) s"
    "hung two_steps s \<and> rtSlots s = 1 \<and> pc_of s ''b'' = PSlot \<and>
       list_all (\<lambda>(n, st). \<not> holds_slot (rtProc s n) st) (rtSteps s)"
    by (rule the_state_obs)
  note h = s(2) [THEN conjunct1] and r = s(2) [THEN conjunct2, THEN conjunct1] s(2) [THEN conjunct2, THEN conjunct2, THEN conjunct1]
    and no = s(2) [THEN conjunct2, THEN conjunct2, THEN conjunct2]
  have inv: "run_inv two_steps s" by (rule run_inv_reached [OF s(1) demo_startable(2)]) simp
  have "\<not> IsCompleted s'" if "reached (act demo_rte two_steps) act_ok s s'" for s'
    using hanging.reached_inv [OF that conjI [OF inv h]] by (simp add: hung_def)
  with s(1) slot_holders_none [OF no] r show ?thesis by blast
qed

lemma leaked_slot_hangs_run_witness:
  "\<exists>s. reached (act demo_rte two_steps) act_ok (rt_Start [''a'', ''b''] (NewWorkflowRuntime two_steps)) s \<and>
     pc_of s ''b'' = PSlot \<and> \<not> IsCompleted s"
proof -
  from leaked_slot_hangs_run obtain s where
    s: "reached (act demo_rte two_steps) act_ok (rt_Start [''a'', ''b''] (NewWorkflowRuntime two_steps)) s"
      "pc_of s ''b'' = PSlot"
      "\<forall>s'. reached (act demo_rte two_steps) act_ok s s' \<longrightarrow> \<not> IsCompleted s'"
    by (elim exE conjE) (rule that)
  from s(3) have "\<not> IsCompleted s" by (rule allE [where x = s]) (erule mp, rule reached_refl)
  with s(1,2) show ?thesis by (intro exI [of _ s] conjI)
qed

lemma the_state_ex:
  "(case the_state w order as of None \<Rightarrow> False | Some s \<Rightarrow> P s) \<Longrightarrow> list_all act_ok as \<Longrightarrow>
     \<exists>s. reached (act demo_rte w) act_ok (rt_Start order (NewWorkflowRuntime w)) s \<and> P s"
  by (erule the_state_obs) (assumption, blast)

lemma the_state_act_ex:
  assumes "(case the_state w order as of None \<Rightarrow> False
     | Some s \<Rightarrow> (case act demo_rte w a s of None \<Rightarrow> False | Some s' \<Rightarrow> Q s s'))" and "list_all act_ok as"
  shows "\<exists>s s'. reached (act demo_rte w) act_ok (rt_Start order (NewWorkflowRuntime w)) s \<and>
     act demo_rte w a s = Some s' \<and> Q s s'"
proof -
  obtain s where s: "reached (act demo_rte w) act_ok (rt_Start order (NewWorkflowRuntime w)) s"
    "(case act demo_rte w a s of None \<Rightarrow> False | Some s' \<Rightarrow> Q s s')"
    using assms by (rule the_state_obs)
  then show ?thesis by (cases "act demo_rte w a s") auto
qed

text \<open>
  The verdict of a run can be wrong: the watcher sends its event before it stores the status, so
  the listener may count the last job as done and not failed. Then the run is reported as succeeded,
  and ends so, although its only job failed.
\<close>

theorem late_status_hides_failure:
  "\<exists>s. reached (act demo_rte one_step) act_ok (rt_Start [''a''] (NewWorkflowRuntime one_step)) s \<and>
     IsCompleted s \<and> rtStatus s = StatusRunSucceeded \<and>
     RuStatus (last (rtCalls s)) = StatusRunSucceeded \<and> any_failed s"
proof -
  let ?as = "begin_one @ job_begins ''a'' @ [APoll ''a'' (Inr (demo_row StatusJobFailed)), AReceive ''a'',
     ASend ''a'', AListen, ACommit ''a'']"
  have "(case the_state one_step [''a''] ?as of None \<Rightarrow> False
       | Some s \<Rightarrow> IsCompleted s \<and> rtStatus s = StatusRunSucceeded \<and>
           RuStatus (last (rtCalls s)) = StatusRunSucceeded \<and> any_failed s)" by code_simp
  moreover have "list_all act_ok ?as" by code_simp
  ultimately show ?thesis by (rule the_state_ex)
qed

text \<open>
  A wake-up can be lost: when the listener looks at the steps before the watcher of the parent has
  stored its success, the child is not made ready, and no further event comes. Everything the child
  waits for has succeeded, it waits for its ready signal, and no goroutine can move any more.
\<close>

theorem lost_wakeup:
  "\<exists>s. reached (act demo_rte chain_steps) act_ok (rt_Start [''a'', ''b''] (NewWorkflowRuntime chain_steps)) s \<and>
     rtStatus s = StatusRunRunning \<and> pc_of s ''b'' = PSelect \<and>
     isDepsReady chain_steps (rtSteps s) ''b'' = Some True \<and>
     (\<forall>a. a \<notin> {AStopCheck, AStopWrite} \<longrightarrow> act demo_rte chain_steps a s = None)"
proof -
  let ?as = "begin_run @ job_begins ''a'' @ [APoll ''a'' (Inr (demo_row StatusJobSucceeded)), AReceive ''a'',
     ASend ''a'', AListen, ACommit ''a'', AExecute ''b'']"
  let ?P = "\<lambda>s. rtStatus s = StatusRunRunning \<and> pc_of s ''b'' = PSelect \<and>
     isDepsReady chain_steps (rtSteps s) ''b'' = Some True"
  have "(case the_state chain_steps [''a'', ''b''] ?as of None \<Rightarrow> False
       | Some s \<Rightarrow> quiet chain_steps s \<and> ?P s)" by code_simp
  moreover have "list_all act_ok ?as" by code_simp
  ultimately obtain s where s: "reached (act demo_rte chain_steps) act_ok
      (rt_Start [''a'', ''b''] (NewWorkflowRuntime chain_steps)) s" "quiet chain_steps s \<and> ?P s"
    by (rule the_state_obs)
  have inv: "run_inv chain_steps s" by (rule run_inv_reached [OF s(1) demo_startable(3)]) simp
  have "act demo_rte chain_steps a s = None" if "a \<notin> {AStopCheck, AStopWrite}" for a
    by (rule quiet_blocked [OF inv s(2) [THEN conjunct1] that])
  with s show ?thesis by blast
qed

lemma lost_wakeup_witness:
  "\<exists>s. reached (act demo_rte chain_steps) act_ok (rt_Start [''a'', ''b''] (NewWorkflowRuntime chain_steps)) s \<and>
     pc_of s ''b'' = PSelect \<and> act demo_rte chain_steps AListen s = None"
proof -
  from lost_wakeup obtain s where
    s: "reached (act demo_rte chain_steps) act_ok (rt_Start [''a'', ''b''] (NewWorkflowRuntime chain_steps)) s"
      "pc_of s ''b'' = PSelect" "\<forall>a. a \<notin> {AStopCheck, AStopWrite} \<longrightarrow> act demo_rte chain_steps a s = None"
    by (elim exE conjE) (rule that)
  from s(3) have "act demo_rte chain_steps AListen s = None" by simp
  with s(1,2) show ?thesis by (intro exI [of _ s] conjI)
qed

text \<open>
  C8: \<open>Stop\<close> races with the end of the run: it checks the status first and writes it last, so a run
  that ended between is set from succeeded back to terminating; and a stop whose steps had not begun
  ends in succeeded, not in terminated.
\<close>

theorem stop_races:
  "(\<exists>s s'. reached (act demo_rte one_step) act_ok (rt_Start [''a''] (NewWorkflowRuntime one_step)) s \<and>
      act demo_rte one_step AStopWrite s = Some s' \<and>
      rtStatus s = StatusRunSucceeded \<and> \<not> rtListening s \<and> rtStatus s' = StatusRunTerminating) \<and>
   (\<exists>s s'. reached (act demo_rte one_step) act_ok (rt_Start [''a''] (NewWorkflowRuntime one_step)) s \<and>
      act demo_rte one_step AListen s = Some s' \<and>
      rtStatus s = StatusRunTerminating \<and> rtStatus s' = StatusRunSucceeded \<and>
      map (\<lambda>(n, st). JbStatus (StJob st)) (rtSteps s') = [StatusJobCancelled])"
    (is "?overwritten \<and> ?succeeds")
proof
  let ?as = "begin_one @ job_begins ''a'' @ AStopCheck # job_ends ''a'' StatusJobSucceeded"
  have "(case the_state one_step [''a''] ?as of None \<Rightarrow> False
       | Some s \<Rightarrow> (case act demo_rte one_step AStopWrite s of None \<Rightarrow> False
            | Some s' \<Rightarrow> rtStatus s = StatusRunSucceeded \<and> \<not> rtListening s \<and> rtStatus s' = StatusRunTerminating))"
    by code_simp
  moreover have "list_all act_ok ?as" by code_simp
  ultimately show ?overwritten by (rule the_state_act_ex)
next
  let ?as = "begin_one @ [AExecute ''a'', AStopCheck, AStopWrite, ASelectCtx ''a'', ASend ''a'']"
  have "(case the_state one_step [''a''] ?as of None \<Rightarrow> False
       | Some s \<Rightarrow> (case act demo_rte one_step AListen s of None \<Rightarrow> False
            | Some s' \<Rightarrow> rtStatus s = StatusRunTerminating \<and> rtStatus s' = StatusRunSucceeded \<and>
                map (\<lambda>(n, st). JbStatus (StJob st)) (rtSteps s') = [StatusJobCancelled]))" by code_simp
  moreover have "list_all act_ok ?as" by code_simp
  ultimately show ?succeeds by (rule the_state_act_ex)
qed

end
