(* ===== verification/PF_Encrypt.thy ===== *)
theory PF_Encrypt
  imports PF_Prelude
begin

text \<open>
  The page markers of the list operations (\<open>pkg/apiserver/common/encrypt.go\<close>): the primary key of
  the last row, printed, padded, encrypted in CBC mode and written in hexadecimal. The block cipher
  (\<open>crypto/aes\<close> under the fixed key) is the pair of arguments \<open>enc\<close>, \<open>dec\<close>; what is assumed of it is
  \<open>cipher_ok\<close>. Bytes are characters.
\<close>

section \<open>Padding\<close>

datatype marker_error =
    MarkerNull | OrigNull | HexError | NotFullBlocks | BadPadding | MarkerNotANumber

definition BlockSize :: nat where
  "BlockSize = 16"

definition PKCS7Padding :: "string \<Rightarrow> nat \<Rightarrow> string" where
  "PKCS7Padding ciphertext blocksize =
     (let padding = blocksize - length ciphertext mod blocksize
      in ciphertext @ replicate padding (char_of padding))"

text \<open>The last byte is read without a check that there is one; the padding bytes are not compared.\<close>

definition PKCS7UnPadding :: "string \<Rightarrow> marker_error + string" where
  "PKCS7UnPadding origData =
     (if origData = [] then Inl NotFullBlocks
      else (let unpadding = code_point (last origData)
            in if length origData < unpadding then Inl BadPadding
               else Inr (take (length origData - unpadding) origData)))"

lemma PKCS7Padding_length: "0 < n \<Longrightarrow> n dvd length (PKCS7Padding s n) \<and> PKCS7Padding s n \<noteq> []"
proof -
  assume n: "0 < n"
  have "length s = n * (length s div n) + length s mod n" "length s mod n < n" using n by simp_all
  then have "length s + (n - length s mod n) = n * (length s div n) + n" by linarith
  then have "length s + (n - length s mod n) = n * (length s div n + 1)" by simp
  moreover have "0 < n - length s mod n" using n by simp
  ultimately show ?thesis by (auto simp: PKCS7Padding_def Let_def)
qed

lemma PKCS7_roundtrip: "0 < n \<Longrightarrow> n < 256 \<Longrightarrow> PKCS7UnPadding (PKCS7Padding s n) = Inr s"
proof -
  assume n: "0 < n" "n < 256"
  define p where "p = n - length s mod n"
  have p: "0 < p" "p < 256" using n by (auto simp: p_def)
  then have l: "last (PKCS7Padding s n) = char_of p"
    by (simp add: PKCS7Padding_def Let_def flip: p_def)
  have c: "code_point (char_of p :: char) = p" using p by (simp add: of_char_of)
  show ?thesis
    using p l c by (auto simp: PKCS7UnPadding_def PKCS7Padding_def Let_def simp flip: p_def)
qed

section \<open>CBC mode\<close>

type_synonym block_cipher = "string \<Rightarrow> string"

definition xor_byte :: "char \<Rightarrow> char \<Rightarrow> char" where
  "xor_byte c d = char_of (Bit_Operations.xor (code_point c) (code_point d))"

definition xor_bytes :: "string \<Rightarrow> string \<Rightarrow> string" where
  "xor_bytes s t = map2 xor_byte s t"

fun cbc_encrypt :: "block_cipher \<Rightarrow> string \<Rightarrow> string list \<Rightarrow> string list" where
  "cbc_encrypt enc iv [] = []"
| "cbc_encrypt enc iv (b # bs) = (let c = enc (xor_bytes b iv) in c # cbc_encrypt enc c bs)"

fun cbc_decrypt :: "block_cipher \<Rightarrow> string \<Rightarrow> string list \<Rightarrow> string list" where
  "cbc_decrypt dec iv [] = []"
| "cbc_decrypt dec iv (c # cs) = xor_bytes (dec c) iv # cbc_decrypt dec c cs"

fun blocks_of :: "nat \<Rightarrow> string \<Rightarrow> string list" where
  "blocks_of n s = (if n = 0 \<or> s = [] then [] else take n s # blocks_of n (drop n s))"

declare blocks_of.simps [simp del]

text \<open>What \<open>crypto/aes\<close> promises: on blocks of 16 bytes, decryption inverts encryption.\<close>

definition cipher_ok :: "block_cipher \<Rightarrow> block_cipher \<Rightarrow> bool" where
  "cipher_ok enc dec =
     (\<forall>b. length b = BlockSize \<longrightarrow> length (enc b) = BlockSize \<and> dec (enc b) = b)"

lemma xor_nat_less:
  assumes "a < 2 ^ k" "b < 2 ^ k"
  shows "Bit_Operations.xor a b < (2 :: nat) ^ k"
proof -
  have "take_bit k (Bit_Operations.xor a b) = Bit_Operations.xor a b"
    using assms by (simp add: take_bit_nat_eq_self)
  then show ?thesis by (simp only: take_bit_nat_eq_self_iff)
qed

lemma xor_byte_xor [simp]: "xor_byte (xor_byte c d) d = c"
proof -
  have "Bit_Operations.xor (code_point c) (code_point d) < 2 ^ 8"
    using nat_of_char_less_256 [of c] nat_of_char_less_256 [of d]
    by (intro xor_nat_less) simp_all
  then have "code_point (char_of (Bit_Operations.xor (code_point c) (code_point d)) :: char) =
      Bit_Operations.xor (code_point c) (code_point d)"
    by (simp add: of_char_of)
  then show ?thesis by (simp add: xor_byte_def xor.assoc)
qed

lemma xor_bytes_xor: "length s = length t \<Longrightarrow> xor_bytes (xor_bytes s t) t = s"
  by (induction s t rule: list_induct2) (simp_all add: xor_bytes_def)

lemma length_xor_bytes [simp]: "length (xor_bytes s t) = min (length s) (length t)"
  by (simp add: xor_bytes_def)

lemma cbc_roundtrip:
  assumes "cipher_ok enc dec" and "length iv = BlockSize" and "\<forall>b\<in>set bs. length b = BlockSize"
  shows "cbc_decrypt dec iv (cbc_encrypt enc iv bs) = bs \<and>
     (\<forall>c\<in>set (cbc_encrypt enc iv bs). length c = BlockSize)"
  using assms(2,3)
proof (induction bs arbitrary: iv)
  case (Cons b bs)
  have b: "length (xor_bytes b iv) = BlockSize" using Cons.prems by simp
  then have e: "length (enc (xor_bytes b iv)) = BlockSize" "dec (enc (xor_bytes b iv)) = xor_bytes b iv"
    using assms(1) by (simp_all add: cipher_ok_def)
  then show ?case using Cons.IH [OF e(1)] Cons.prems by (simp add: Let_def xor_bytes_xor)
qed simp

lemma blocks_of_Nil [simp]: "blocks_of n [] = []"
  by (simp add: blocks_of.simps [of n "[]"])

lemma blocks_of_step: "0 < n \<Longrightarrow> s \<noteq> [] \<Longrightarrow> blocks_of n s = take n s # blocks_of n (drop n s)"
  by (simp add: blocks_of.simps [of n s])

lemma concat_blocks_of: "0 < n \<Longrightarrow> concat (blocks_of n s) = s"
proof (induction n s rule: blocks_of.induct)
  case (1 n s)
  then show ?case by (cases "s = []") (simp_all add: blocks_of_step)
qed

lemma blocks_of_length: "0 < n \<Longrightarrow> n dvd length s \<Longrightarrow> \<forall>b\<in>set (blocks_of n s). length b = n"
proof (induction n s rule: blocks_of.induct)
  case (1 n s)
  show ?case
  proof (cases "s = []")
    case False
    note n = "1.prems"
    from n False have le: "n \<le> length s" by (auto dest: dvd_imp_le)
    have "n dvd length (drop n s)" using n(2) by (simp only: length_drop dvd_diff_nat dvd_refl)
    with "1.IH" n(1) False have "\<forall>b\<in>set (blocks_of n (drop n s)). length b = n" by blast
    moreover have "length (take n s) = n" using le by simp
    ultimately show ?thesis using blocks_of_step [OF n(1) False] by simp
  qed simp
qed

lemma blocks_of_concat: "0 < n \<Longrightarrow> \<forall>b\<in>set bs. length b = n \<Longrightarrow> blocks_of n (concat bs) = bs"
proof (induction bs)
  case (Cons b bs)
  then have "b \<noteq> []" by auto
  with Cons show ?case by (simp add: blocks_of_step)
qed simp

lemma length_concat_const: "\<forall>c\<in>set cs. length c = n \<Longrightarrow> length (concat cs) = n * length cs"
  by (induction cs) simp_all

section \<open>Hexadecimal\<close>

definition hex_char :: "nat \<Rightarrow> char" where
  "hex_char n = char_of (if n < 10 then 48 + n else 87 + n)"

definition unhex :: "char \<Rightarrow> nat option" where
  "unhex c =
     (if is_digit c then Some (code_point c - 48)
      else if 97 \<le> code_point c \<and> code_point c \<le> 102 then Some (code_point c - 87)
      else if 65 \<le> code_point c \<and> code_point c \<le> 70 then Some (code_point c - 55)
      else None)"

definition hex_EncodeToString :: "string \<Rightarrow> string" where
  "hex_EncodeToString s = concat (map (\<lambda>c. [hex_char (code_point c div 16), hex_char (code_point c mod 16)]) s)"

text \<open>The recursive equations, for evaluation.\<close>

lemma hex_EncodeToString_rec [code]:
  "hex_EncodeToString [] = []"
  "hex_EncodeToString (c # s) = hex_char (code_point c div 16) # hex_char (code_point c mod 16) # hex_EncodeToString s"
  by (simp_all add: hex_EncodeToString_def)

fun hex_DecodeString :: "string \<Rightarrow> marker_error + string" where
  "hex_DecodeString [] = Inr []"
| "hex_DecodeString [c] = Inl HexError"
| "hex_DecodeString (c # d # s) =
     (case (unhex c, unhex d) of
        (Some h, Some l) \<Rightarrow> bindE (hex_DecodeString s) (\<lambda>r. Inr (char_of (16 * h + l) # r))
      | _ \<Rightarrow> Inl HexError)"

lemma unhex_hex_char [simp]:
  assumes "n < 16"
  shows "unhex (hex_char n) = Some n"
proof -
  have "code_point (hex_char n) = (if n < 10 then 48 + n else 87 + n)"
    using assms by (simp add: hex_char_def of_char_of)
  then show ?thesis using assms by (simp add: unhex_def is_digit_def)
qed

lemma hex_roundtrip: "hex_DecodeString (hex_EncodeToString s) = Inr s"
proof (induction s)
  case (Cons c s)
  have "code_point c div 16 < 16" using nat_of_char_less_256 [of c] by (simp add: less_mult_imp_div_less)
  with Cons show ?case by (simp add: hex_EncodeToString_def)
qed (simp add: hex_EncodeToString_def)

section \<open>Markers\<close>

definition AESEncryptKey :: string where
  "AESEncryptKey = ''paddleflow123456''"

definition AesEncrypt :: "block_cipher \<Rightarrow> string \<Rightarrow> string \<Rightarrow> marker_error + string" where
  "AesEncrypt enc orig key =
     (if orig = '''' then Inl OrigNull
      else Inr (hex_EncodeToString
        (concat (cbc_encrypt enc (take BlockSize key) (blocks_of BlockSize (PKCS7Padding orig BlockSize))))))"

text \<open>\<open>CryptBlocks\<close> panics (\<open>NotFullBlocks\<close>) unless the length is a multiple of the block size.\<close>

definition AesDecrypt :: "block_cipher \<Rightarrow> string \<Rightarrow> string \<Rightarrow> marker_error + string" where
  "AesDecrypt dec encrypted key =
     bindE (hex_DecodeString encrypted) (\<lambda>bytes.
       if length bytes mod BlockSize \<noteq> 0 then Inl NotFullBlocks
       else PKCS7UnPadding (concat (cbc_decrypt dec (take BlockSize key) (blocks_of BlockSize bytes))))"

definition EncryptPk :: "block_cipher \<Rightarrow> int \<Rightarrow> marker_error + string" where
  "EncryptPk enc pk = AesEncrypt enc (itoa pk) AESEncryptKey"

definition DecryptPk :: "block_cipher \<Rightarrow> string \<Rightarrow> marker_error + int" where
  "DecryptPk dec data =
     (if data = '''' then Inl MarkerNull
      else bindE (AesDecrypt dec data AESEncryptKey) (\<lambda>plainText.
             case atoi plainText of None \<Rightarrow> Inl MarkerNotANumber | Some pk \<Rightarrow> Inr pk))"

lemma itoa_ne [simp]: "itoa i \<noteq> []"
  by (simp add: itoa_def)

lemma AesDecrypt_AesEncrypt:
  assumes "cipher_ok enc dec" and "orig \<noteq> []" and "length key = BlockSize"
  shows "\<exists>m. AesEncrypt enc orig key = Inr m \<and> m \<noteq> [] \<and> AesDecrypt dec m key = Inr orig"
proof -
  let ?p = "PKCS7Padding orig BlockSize"
  let ?bs = "blocks_of BlockSize ?p"
  let ?cs = "cbc_encrypt enc (take BlockSize key) ?bs"
  have n: "0 < BlockSize" "BlockSize < 256" by (simp_all add: BlockSize_def)
  have p: "BlockSize dvd length ?p" "?p \<noteq> []" using PKCS7Padding_length [OF n(1)] by auto
  have bs: "\<forall>b\<in>set ?bs. length b = BlockSize" using blocks_of_length [OF n(1) p(1)] .
  have iv: "length (take BlockSize key) = BlockSize" using assms(3) by simp
  have cs: "cbc_decrypt dec (take BlockSize key) ?cs = ?bs" "\<forall>c\<in>set ?cs. length c = BlockSize"
    using cbc_roundtrip [OF assms(1) iv bs] by simp_all
  have "length (concat ?cs) = BlockSize * length ?cs" by (rule length_concat_const [OF cs(2)])
  then have m: "length (concat ?cs) mod BlockSize = 0" by simp
  have "?bs \<noteq> []" using p(2) concat_blocks_of [OF n(1), of ?p] by (metis concat.simps(1))
  then have "concat ?cs \<noteq> []"
    using cs(2) n(1) by (cases ?bs) (auto simp: Let_def)
  then have "hex_EncodeToString (concat ?cs) \<noteq> []" by (cases "concat ?cs") (simp_all add: hex_EncodeToString_def)
  then show ?thesis
    using assms(2) m cs n
    by (simp add: AesEncrypt_def AesDecrypt_def hex_roundtrip blocks_of_concat concat_blocks_of PKCS7_roundtrip)
qed

lemma marker_roundtrip:
  assumes "cipher_ok enc dec" and "- (2 ^ 63) \<le> pk" and "pk < 2 ^ 63"
  shows "\<exists>m. EncryptPk enc pk = Inr m \<and> m \<noteq> '''' \<and> DecryptPk dec m = Inr pk"
proof -
  have "length AESEncryptKey = BlockSize" by (simp add: AESEncryptKey_def BlockSize_def)
  from AesDecrypt_AesEncrypt [OF assms(1) itoa_ne this, of pk] obtain m where
    m: "AesEncrypt enc (itoa pk) AESEncryptKey = Inr m" "m \<noteq> []" "AesDecrypt dec m AESEncryptKey = Inr (itoa pk)"
    by (elim exE conjE) (rule that)
  show ?thesis unfolding EncryptPk_def DecryptPk_def m(1)
    by (rule exI [of _ m]) (simp only: m(2,3) if_False bindE_Inr atoi_itoa [OF assms(2,3)] option.case simp_thms)
qed

section \<open>Properties\<close>

text \<open>
  C36: A marker is read back as the key it was made from: for every 64-bit key, \<open>EncryptPk\<close> gives a
  non-empty text, and \<open>DecryptPk\<close> of it is that key, if the block cipher inverts itself.
\<close>

theorem DecryptPk_EncryptPk:
  assumes "cipher_ok enc dec" and "- (2 ^ 63) \<le> pk" and "pk < 2 ^ 63"
  shows "\<exists>m. EncryptPk enc pk = Inr m \<and> m \<noteq> '''' \<and> DecryptPk dec m = Inr pk"
  using assms by (rule marker_roundtrip)

definition demo_cipher :: block_cipher where
  "demo_cipher b = rev b"

lemma DecryptPk_EncryptPk_witness:
  "\<exists>m. EncryptPk demo_cipher (- 42) = Inr m \<and> m \<noteq> '''' \<and> DecryptPk demo_cipher m = Inr (- 42)"
proof -
  have "cipher_ok demo_cipher demo_cipher" by (simp add: cipher_ok_def demo_cipher_def)
  then show ?thesis by (rule DecryptPk_EncryptPk) simp_all
qed

end
