(* ===== verification/PF_Paging.thy ===== *)
theory PF_Paging
  imports PF_Models PF_Encrypt
begin

text \<open>
  The page protocol that every list operation of the API server follows (\<open>ListRun\<close>, \<open>ListRunCache\<close>,
  \<open>ListArtifactEvent\<close>, \<open>ListPipeline\<close>, \<open>ListQueue\<close>, \<open>ListGrant\<close>, \<open>ListUser\<close>): decode the marker,
  read at most \<open>maxKeys\<close> rows above that key, and hand out the key of the last row as the next marker
  unless it is the last key of the whole table. \<open>paged_table\<close> is what a table has to offer for it; its
  lemma says that following the markers lists every row exactly once. The queries name no order, so
  that the data base answers them in the order of the primary key is an assumption (\<open>in_key_order\<close>).
\<close>

section \<open>Tables ordered by key\<close>

definition pk_table :: "('r \<Rightarrow> int) \<Rightarrow> 'r list \<Rightarrow> bool" where
  "pk_table pk rows = (sorted_wrt (\<lambda>a b. pk a < pk b) rows \<and> (\<forall>r\<in>set rows. 0 < pk r \<and> pk r < 2 ^ 63))"

lemma pk_table_Nil [simp]: "pk_table pk []"
  by (simp add: pk_table_def)

lemma pk_table_filter: "pk_table pk rows \<Longrightarrow> pk_table pk (filter P rows)"
  by (auto simp: pk_table_def sorted_wrt_filter)

lemma pk_table_snoc:
  "pk_table pk rows \<Longrightarrow> (\<forall>r\<in>set rows. pk r < pk x) \<Longrightarrow> 0 < pk x \<Longrightarrow> pk x < 2 ^ 63 \<Longrightarrow> pk_table pk (rows @ [x])"
  by (simp add: pk_table_def sorted_wrt_append)

lemma pk_table_map: "pk_table pk rows \<Longrightarrow> (\<And>r. pk (f r) = pk r) \<Longrightarrow> pk_table pk (map f rows)"
  by (simp add: pk_table_def sorted_wrt_map)

text \<open>The rows of \<open>Where("pk > ?", pk)\<close> and more conditions, as they stand in the table; \<open>scan\<close> brings them into the order of the answer.\<close>

definition rows_after :: "('r \<Rightarrow> int) \<Rightarrow> ('r \<Rightarrow> bool) \<Rightarrow> int \<Rightarrow> 'r list \<Rightarrow> 'r list" where
  "rows_after pk keep k rows = filter (\<lambda>r. k < pk r \<and> keep r) rows"

lemma rows_after_0: "pk_table pk rows \<Longrightarrow> rows_after pk keep 0 rows = filter keep rows"
  by (auto simp: rows_after_def pk_table_def intro!: filter_cong)

lemma rows_after_last:
  assumes t: "pk_table pk rows" and r: "rows_after pk keep k rows = p @ q" "p \<noteq> []"
  shows "rows_after pk keep (pk (last p)) rows = q"
proof -
  let ?l = "pk (last p)"
  have s: "sorted_wrt (\<lambda>a b. pk a < pk b) (p @ q)"
    using pk_table_filter [OF t, of "\<lambda>r. k < pk r \<and> keep r"] unfolding r(1) [symmetric] rows_after_def
    by (simp only: pk_table_def)
  have last: "last p \<in> set p" using r(2) by simp
  have "p = butlast p @ [last p]" using r(2) by simp
  moreover have "sorted_wrt (\<lambda>a b. pk a < pk b) p" using s by (simp add: sorted_wrt_append)
  ultimately have "sorted_wrt (\<lambda>a b. pk a < pk b) (butlast p @ [last p])" by simp
  then have "\<forall>x\<in>set (butlast p). pk x < ?l" by (simp add: sorted_wrt_append)
  moreover have "set p = insert (last p) (set (butlast p))"
    using r(2) by (metis append_butlast_last_id set_append list.set(1,2) Un_insert_right sup_bot.right_neutral)
  ultimately have p: "\<forall>x\<in>set p. pk x \<le> ?l" by auto
  have q: "\<forall>x\<in>set q. ?l < pk x" using s last by (simp add: sorted_wrt_append)
  have "last p \<in> set (rows_after pk keep k rows)" using last r(1) by simp
  then have k: "k < ?l" by (simp add: rows_after_def)
  have "rows_after pk keep ?l rows = filter (\<lambda>x. ?l < pk x) (rows_after pk keep k rows)"
    unfolding rows_after_def filter_filter by (rule filter_cong) (use k in auto)
  also have "\<dots> = filter (\<lambda>x. ?l < pk x) p @ filter (\<lambda>x. ?l < pk x) q" unfolding r(1) by simp
  also have "filter (\<lambda>x. ?l < pk x) p = []" using p by (simp add: filter_empty_conv not_less)
  also have "filter (\<lambda>x. ?l < pk x) q = q" using q by (simp add: filter_id_conv)
  finally show ?thesis by simp
qed

section \<open>One page\<close>

record 'r page =
  PgRows :: "'r list"
  PgNext :: "string option"

text \<open>\<open>pk\<close> is 0 without a marker.\<close>

definition decode_marker :: "block_cipher \<Rightarrow> string \<Rightarrow> marker_error + int" where
  "decode_marker dec marker = (if marker \<noteq> '''' then DecryptPk dec marker else Inr 0)"

text \<open>The marker of the next page: none after an empty page or when the last row of the page is the
  last row of the table (\<open>lastPk\<close>, 0 when it could not be read).\<close>

definition next_marker :: "block_cipher \<Rightarrow> ('r \<Rightarrow> int) \<Rightarrow> int \<Rightarrow> 'r list \<Rightarrow> marker_error + string option" where
  "next_marker enc pk lastPk rows =
     (if rows = [] then Inr None
      else if lastPk = pk (last rows) then Inr None
      else bindE (EncryptPk enc (pk (last rows))) (\<lambda>m. Inr (Some m)))"

definition list_page ::
  "block_cipher \<Rightarrow> block_cipher \<Rightarrow> ('r \<Rightarrow> int) \<Rightarrow> (int \<Rightarrow> 'r list) \<Rightarrow> int \<Rightarrow> string \<Rightarrow> marker_error + 'r page" where
  "list_page enc dec pk query lastPk marker =
     bindE (decode_marker dec marker) (\<lambda>k.
     bindE (next_marker enc pk lastPk (query k)) (\<lambda>next.
       Inr \<lparr>PgRows = query k, PgNext = next\<rparr>))"

text \<open>A client that follows the markers; \<open>None\<close> when \<open>n\<close> requests were not enough or one failed.\<close>

fun collect_pages :: "nat \<Rightarrow> (string \<Rightarrow> 'e + 'r page) \<Rightarrow> string \<Rightarrow> 'r list option" where
  "collect_pages 0 get marker = None"
| "collect_pages (Suc n) get marker =
     (case get marker of
        Inl e \<Rightarrow> None
      | Inr p \<Rightarrow>
          (case PgNext p of
             None \<Rightarrow> Some (PgRows p)
           | Some m \<Rightarrow> map_option (\<lambda>rs. PgRows p @ rs) (collect_pages n get m)))"

section \<open>The interface of a listed table\<close>

text \<open>\<open>tab\<close> is the table in a state, \<open>query\<close> the model function that reads a page of it, \<open>lastpk\<close> the
  last key it reports, \<open>keep\<close> the filters of the request, \<open>inv\<close> the invariant of the state.\<close>

locale paged_table =
  fixes tab :: "'s \<Rightarrow> 'r list" and pk :: "'r \<Rightarrow> int" and inv :: "'s \<Rightarrow> bool"
    and query :: "'s \<Rightarrow> ('r \<Rightarrow> bool) \<Rightarrow> int \<Rightarrow> int \<Rightarrow> 'r list" and lastpk :: "'s \<Rightarrow> int"
  assumes table: "inv s \<Longrightarrow> pk_table pk (tab s)"
    and query: "inv s \<Longrightarrow> query s keep maxKeys k = limit_rows maxKeys (rows_after pk keep k (tab s))"
    and lastpk: "inv s \<Longrightarrow> tab s \<noteq> [] \<Longrightarrow> lastpk s = pk (last (tab s))"
begin

abbreviation rest where
  "rest s keep k \<equiv> rows_after pk keep k (tab s)"

lemma page_split:
  assumes "inv s"
  obtains q where "rest s keep k = query s keep maxKeys k @ q" "0 < maxKeys \<or> q = []"
proof -
  have "query s keep maxKeys k = (if 0 < maxKeys then take (nat maxKeys) (rest s keep k) else rest s keep k)"
    by (simp add: query [OF assms] limit_rows_def)
  then show thesis
    using that [of "if 0 < maxKeys then drop (nat maxKeys) (rest s keep k) else []"] by auto
qed

lemma page_empty: "inv s \<Longrightarrow> query s keep maxKeys k = [] \<Longrightarrow> rest s keep k = []"
  by (cases "0 < maxKeys") (auto simp: query limit_rows_def)

lemma after_last: "inv s \<Longrightarrow> rest s keep (lastpk s) = []"
proof -
  assume i: "inv s"
  show ?thesis
  proof (cases "tab s = []")
    case True
    then show ?thesis by (simp add: rows_after_def)
  next
    case False
    have "rows_after pk (\<lambda>_. True) 0 (tab s) = tab s @ []"
      using rows_after_0 [OF table [OF i], of "\<lambda>_. True"] by simp
    from rows_after_last [OF table [OF i] this False]
    have "rows_after pk (\<lambda>_. True) (lastpk s) (tab s) = []" by (simp add: lastpk [OF i False])
    then show ?thesis by (auto simp: rows_after_def filter_empty_conv)
  qed
qed

lemma collect_complete:
  assumes c: "cipher_ok enc dec" and i: "inv s" and "length (rest s keep k) < n"
    and m: "decode_marker dec marker = Inr k"
  shows "collect_pages n (list_page enc dec pk (query s keep maxKeys) (lastpk s)) marker = Some (rest s keep k)"
  using assms(3) m
proof (induction n arbitrary: k marker)
  case (Suc n)
  let ?q = "query s keep maxKeys k"
  from page_split [OF i, of keep k maxKeys] obtain q where q: "rest s keep k = ?q @ q" by blast
  consider "?q = []" | "?q \<noteq> []" "lastpk s = pk (last ?q)" | "?q \<noteq> []" "lastpk s \<noteq> pk (last ?q)" by blast
  then show ?case
  proof cases
    case 1
    then show ?thesis using page_empty [OF i 1] by (simp add: list_page_def Suc.prems(2) next_marker_def)
  next
    case 2
    have "rest s keep (lastpk s) = q" using rows_after_last [OF table [OF i] q 2(1)] 2(2) by simp
    then have "q = []" using after_last [OF i] by simp
    then show ?thesis using q 2 by (simp add: list_page_def Suc.prems(2) next_marker_def)
  next
    case 3
    have "last ?q \<in> set (rest s keep k)" unfolding q using 3(1) by simp
    then have "last ?q \<in> set (tab s)" by (simp add: rows_after_def)
    then have b: "0 < pk (last ?q)" "pk (last ?q) < 2 ^ 63" using table [OF i] by (auto simp: pk_table_def)
    obtain m' where m': "EncryptPk enc (pk (last ?q)) = Inr m'" "m' \<noteq> ''''" "DecryptPk dec m' = Inr (pk (last ?q))"
      using marker_roundtrip [OF c _ b(2)] b(1) by fastforce
    have r: "rest s keep (pk (last ?q)) = q" by (rule rows_after_last [OF table [OF i] q 3(1)])
    have "length q < n" using Suc.prems(1) q 3(1) by (cases ?q) auto
    then have "collect_pages n (list_page enc dec pk (query s keep maxKeys) (lastpk s)) m' = Some q"
      using Suc.IH [of "pk (last ?q)" m'] r m' by (simp add: decode_marker_def)
    moreover have "list_page enc dec pk (query s keep maxKeys) (lastpk s) marker = Inr \<lparr>PgRows = ?q, PgNext = Some m'\<rparr>"
      using 3 m'(1) Suc.prems(2) by (simp add: list_page_def next_marker_def)
    ultimately show ?thesis using q by simp
  qed
qed simp

lemma pages_complete:
  assumes "cipher_ok enc dec" and "inv s"
  shows "collect_pages (length (filter keep (tab s)) + 1)
     (list_page enc dec pk (query s keep maxKeys) (lastpk s)) '''' = Some (filter keep (tab s))"
  using collect_complete [OF assms, of keep 0 "length (filter keep (tab s)) + 1" "''''"]
    rows_after_0 [OF table [OF assms(2)], of keep]
  by (simp add: decode_marker_def)

end

end
