(* ===== verification/PF_RunModels.thy ===== *)
theory PF_RunModels
  imports PF_Schema PF_Paging
begin

text \<open>
  The tables of the run service (\<open>pkg/apiserver/models\<close>): \<open>run\<close>, \<open>run_cache\<close>, \<open>artifact_event\<close>,
  \<open>pipeline\<close> and \<open>image\<close>. A table is the list of its rows in key order with the counter of its
  auto-increment key. Every call of the database can fail (\<open>flt\<close>); a failed transaction changes
  nothing but the counter. The JSON columns (\<open>ParamRaw\<close>, \<open>RuntimeRaw\<close>) are kept as the values they
  encode, \<open>None\<close> for the empty column. \<open>now\<close> is the clock. The invariant \<open>run_db_ok\<close> says that keys
  are unique, ordered and below the counter.
\<close>

section \<open>Rows\<close>

record run_row =
  RnPk :: int
  RnID :: string
  RnName :: string
  RnSource :: string
  RnUserName :: string
  RnFsID :: string
  RnFsName :: string
  RnDescription :: string
  RnParam :: "pval gomap option"
  RnRunYaml :: string
  RnRuntime :: "runtime_view option"
  RnImageUrl :: string
  RnEntry :: string
  RnMessage :: string
  RnStatus :: string
  RnCreatedAt :: int
  RnActivatedAt :: "int option"
  RnUpdatedAt :: int

record cache_row =
  CaPk :: int
  CaID :: string
  CaFirstFp :: string
  CaSecondFp :: string
  CaRunID :: string
  CaSource :: string
  CaStep :: string
  CaFsID :: string
  CaFsName :: string
  CaUserName :: string
  CaExpiredTime :: string
  CaStrategy :: string
  CaCustom :: string
  CaCreatedAt :: int
  CaUpdatedAt :: int

record artifact_row =
  ArPk :: int
  ArMd5 :: string
  ArRunID :: string
  ArFsID :: string
  ArFsName :: string
  ArUserName :: string
  ArArtifactPath :: string
  ArStep :: string
  ArType :: string
  ArArtifactName :: string
  ArMeta :: string
  ArCreatedAt :: int
  ArUpdatedAt :: int

record pipeline_row =
  PpPk :: int
  PpID :: string
  PpName :: string
  PpFsID :: string
  PpFsName :: string
  PpUserName :: string
  PpYaml :: string
  PpMd5 :: string
  PpCreatedAt :: int
  PpUpdatedAt :: int

record image_row =
  ImPk :: int
  ImID :: string
  ImImageID :: string
  ImFsID :: string
  ImSource :: string
  ImUrl :: string

record run_db =
  rdRuns :: "run_row list"
  rdRunPk :: int
  rdCaches :: "cache_row list"
  rdCachePk :: int
  rdArts :: "artifact_row list"
  rdArtPk :: int
  rdPpls :: "pipeline_row list"
  rdPplPk :: int
  rdImages :: "image_row list"
  rdImagePk :: int
  rdScan :: "int list"

datatype run_call =
    RcCreateRun | RcBackfillRun | RcUpdateRunStatus | RcUpdateRun | RcDeleteRun | RcGetRun | RcListRun | RcLastRun
  | RcListByStatus | RcCreateCache | RcBackfillCache | RcCacheByFp | RcUpdateCache | RcGetCache | RcDeleteCache | RcListCache
  | RcLastCache | RcCreateArt | RcGetArt | RcUpdateArt | RcDeleteArt | RcListArt | RcLastArt | RcCreatePpl
  | RcBackfillPpl | RcGetPpl | RcPplByMd5 | RcListPpl | RcLastPpl | RcDeletePpl | RcCreateImage | RcListImage
  | RcGetImage | RcUpdateImage

type_synonym run_faults = "run_call \<Rightarrow> bool"

section \<open>Helpers of the query builder\<close>

text \<open>\<open>fmt.Sprintf("%06d", pk)\<close>.\<close>

definition pad6 :: "int \<Rightarrow> string" where
  "pad6 pk = (let ds = itoa pk in replicate (6 - length ds) CHR ''0'' @ ds)"


text \<open>\<open>Where("c IN (?)", filter)\<close>, left out for an empty filter; \<open>Where(&T{C: v})\<close>, left out for
  the zero value; \<open>Updates(T{C: v})\<close>, which writes the fields that are not zero.\<close>

definition in_filter :: "string list \<Rightarrow> string \<Rightarrow> bool" where
  "in_filter fs x = (fs = [] \<or> x \<in> set fs)"

definition eq_nonzero :: "string \<Rightarrow> string \<Rightarrow> bool" where
  "eq_nonzero v x = (v = '''' \<or> x = v)"

definition new_or :: "string \<Rightarrow> string \<Rightarrow> string" where
  "new_or v old = (if v \<noteq> '''' then v else old)"

definition new_some :: "'v option \<Rightarrow> 'v option \<Rightarrow> 'v option" where
  "new_some v old = (if v \<noteq> None then v else old)"

definition last_pk :: "('r \<Rightarrow> int) \<Rightarrow> bool \<Rightarrow> 'r list \<Rightarrow> int" where
  "last_pk pk failed rows = (if failed \<or> rows = [] then 0 else pk (last rows))"

section \<open>Runs (models/run.go)\<close>

definition PrefixRun :: string where "PrefixRun = ''run-''"

definition model_CreateRun :: "run_faults \<Rightarrow> int \<Rightarrow> run_row \<Rightarrow> run_db \<Rightarrow> run_db \<times> (db_error + run_row)" where
  "model_CreateRun flt now run d =
     (if flt RcCreateRun then (d, Inl DbFailure)
      else case next_pk (rdRunPk d) of
        Inl e \<Rightarrow> (d, Inl e)
      | Inr pk \<Rightarrow>
          (let d1 = d\<lparr>rdRunPk := pk\<rparr>;
               run' = run\<lparr>RnPk := pk, RnID := PrefixRun @ pad6 pk, RnCreatedAt := now, RnUpdatedAt := now\<rparr>
           in if flt RcBackfillRun then (d1, Inl DbFailure)
              else (d1\<lparr>rdRuns := rdRuns d @ [run']\<rparr>, Inr run')))"

definition model_UpdateRunStatus :: "run_faults \<Rightarrow> int \<Rightarrow> string \<Rightarrow> string \<Rightarrow> run_db \<Rightarrow> db_error + run_db" where
  "model_UpdateRunStatus flt now runID status d =
     (if flt RcUpdateRunStatus then Inl DbFailure
      else Inr (d\<lparr>rdRuns := map (\<lambda>r. if RnID r = runID then r\<lparr>RnStatus := status, RnUpdatedAt := now\<rparr> else r) (rdRuns d)\<rparr>))"

definition run_updates :: "int \<Rightarrow> 'a run_row_scheme \<Rightarrow> run_row \<Rightarrow> run_row" where
  "run_updates now u r =
     r\<lparr>RnID := new_or (RnID u) (RnID r), RnName := new_or (RnName u) (RnName r), RnSource := new_or (RnSource u) (RnSource r),
       RnUserName := new_or (RnUserName u) (RnUserName r), RnFsID := new_or (RnFsID u) (RnFsID r),
       RnFsName := new_or (RnFsName u) (RnFsName r), RnDescription := new_or (RnDescription u) (RnDescription r),
       RnParam := new_some (RnParam u) (RnParam r), RnRunYaml := new_or (RnRunYaml u) (RnRunYaml r),
       RnRuntime := new_some (RnRuntime u) (RnRuntime r), RnImageUrl := new_or (RnImageUrl u) (RnImageUrl r),
       RnEntry := new_or (RnEntry u) (RnEntry r), RnMessage := new_or (RnMessage u) (RnMessage r),
       RnStatus := new_or (RnStatus u) (RnStatus r), RnActivatedAt := new_some (RnActivatedAt u) (RnActivatedAt r),
       RnUpdatedAt := now\<rparr>"

definition model_UpdateRun :: "run_faults \<Rightarrow> int \<Rightarrow> string \<Rightarrow> 'a run_row_scheme \<Rightarrow> run_db \<Rightarrow> db_error + run_db" where
  "model_UpdateRun flt now runID u d =
     (if flt RcUpdateRun then Inl DbFailure
      else Inr (d\<lparr>rdRuns := map (\<lambda>r. if RnID r = runID then run_updates now u r else r) (rdRuns d)\<rparr>))"

definition model_DeleteRun :: "run_faults \<Rightarrow> string \<Rightarrow> run_db \<Rightarrow> db_error + run_db" where
  "model_DeleteRun flt runID d =
     (if flt RcDeleteRun then Inl DbFailure
      else Inr (d\<lparr>rdRuns := filter (\<lambda>r. RnID r \<noteq> runID) (rdRuns d)\<rparr>))"

definition model_GetRunByID :: "run_faults \<Rightarrow> string \<Rightarrow> run_db \<Rightarrow> db_error + run_row" where
  "model_GetRunByID flt runID d =
     (if flt RcGetRun then Inl DbFailure else first_row (\<lambda>r. RnID r = runID) (rdRuns d))"

definition run_keep :: "string list \<Rightarrow> string list \<Rightarrow> string list \<Rightarrow> string list \<Rightarrow> run_row \<Rightarrow> bool" where
  "run_keep users fss runs names r =
     (in_filter users (RnUserName r) \<and> in_filter fss (RnFsName r) \<and> in_filter runs (RnID r) \<and> in_filter names (RnName r))"

definition model_ListRun :: "run_faults \<Rightarrow> run_db \<Rightarrow> (run_row \<Rightarrow> bool) \<Rightarrow> int \<Rightarrow> int \<Rightarrow> db_error + run_row list" where
  "model_ListRun flt d keep maxKeys pk =
     (if flt RcListRun then Inl DbFailure else Inr (limit_rows maxKeys (scan (rdScan d) RnPk (rows_after RnPk keep pk (rdRuns d)))))"

text \<open>\<open>GetLastRun\<close>, of which only the key is used: the zero row after an error.\<close>

definition GetLastRun :: "run_faults \<Rightarrow> run_db \<Rightarrow> int" where
  "GetLastRun flt d = last_pk RnPk (flt RcLastRun) (rdRuns d)"

definition ListRunsByStatus :: "run_faults \<Rightarrow> string list \<Rightarrow> run_db \<Rightarrow> db_error + run_row list" where
  "ListRunsByStatus flt statusList d =
     (if flt RcListByStatus then Inl DbFailure else Inr (filter (\<lambda>r. RnStatus r \<in> set statusList) (rdRuns d)))"

section \<open>Run caches (models/cache.go)\<close>

definition PrefixCache :: string where "PrefixCache = ''cch-''"

definition default_to :: "string \<Rightarrow> string \<Rightarrow> string" where
  "default_to dflt v = (if v = '''' then dflt else v)"

text \<open>The column defaults \<open>-1\<close> and \<open>conservative\<close> replace empty values on insertion.\<close>

definition CreateRunCache :: "run_faults \<Rightarrow> int \<Rightarrow> cache_row \<Rightarrow> run_db \<Rightarrow> run_db \<times> (db_error + string)" where
  "CreateRunCache flt now c d =
     (if flt RcCreateCache then (d, Inl DbFailure)
      else case next_pk (rdCachePk d) of
        Inl e \<Rightarrow> (d, Inl e)
      | Inr pk \<Rightarrow>
          (let d1 = d\<lparr>rdCachePk := pk\<rparr>;
               c' = c\<lparr>CaPk := pk, CaID := PrefixCache @ pad6 pk, CaCreatedAt := now, CaUpdatedAt := now,
                      CaExpiredTime := default_to ''-1'' (CaExpiredTime c),
                      CaStrategy := default_to ''conservative'' (CaStrategy c)\<rparr>
           in if flt RcBackfillCache then (d1, Inl DbFailure)
              else (d1\<lparr>rdCaches := rdCaches d @ [c']\<rparr>, Inr (CaID c'))))"

text \<open>\<open>Order("created_at DESC")\<close>.\<close>

definition ListRunCacheByFirstFp ::
  "run_faults \<Rightarrow> string \<Rightarrow> string \<Rightarrow> string \<Rightarrow> string \<Rightarrow> run_db \<Rightarrow> db_error + cache_row list" where
  "ListRunCacheByFirstFp flt firstFp fsID step source d =
     (if flt RcCacheByFp then Inl DbFailure
      else Inr (sort_key (\<lambda>c. - CaCreatedAt c)
        (filter (\<lambda>c. eq_nonzero firstFp (CaFirstFp c) \<and> eq_nonzero fsID (CaFsID c) \<and> eq_nonzero step (CaStep c) \<and>
                    eq_nonzero source (CaSource c)) (rdCaches d))))"

definition cache_updates :: "int \<Rightarrow> cache_row \<Rightarrow> cache_row \<Rightarrow> cache_row" where
  "cache_updates now u c =
     c\<lparr>CaID := new_or (CaID u) (CaID c), CaFirstFp := new_or (CaFirstFp u) (CaFirstFp c),
       CaSecondFp := new_or (CaSecondFp u) (CaSecondFp c), CaRunID := new_or (CaRunID u) (CaRunID c),
       CaSource := new_or (CaSource u) (CaSource c), CaStep := new_or (CaStep u) (CaStep c),
       CaFsID := new_or (CaFsID u) (CaFsID c), CaFsName := new_or (CaFsName u) (CaFsName c),
       CaUserName := new_or (CaUserName u) (CaUserName c), CaExpiredTime := new_or (CaExpiredTime u) (CaExpiredTime c),
       CaStrategy := new_or (CaStrategy u) (CaStrategy c), CaCustom := new_or (CaCustom u) (CaCustom c),
       CaUpdatedAt := now\<rparr>"

definition UpdateCache :: "run_faults \<Rightarrow> int \<Rightarrow> string \<Rightarrow> cache_row \<Rightarrow> run_db \<Rightarrow> db_error + run_db" where
  "UpdateCache flt now cacheID u d =
     (if flt RcUpdateCache then Inl DbFailure
      else Inr (d\<lparr>rdCaches := map (\<lambda>c. if CaID c = cacheID then cache_updates now u c else c) (rdCaches d)\<rparr>))"

definition model_GetRunCache :: "run_faults \<Rightarrow> string \<Rightarrow> run_db \<Rightarrow> db_error + cache_row" where
  "model_GetRunCache flt cacheID d =
     (if flt RcGetCache then Inl DbFailure else first_row (\<lambda>c. CaID c = cacheID) (rdCaches d))"

definition model_DeleteRunCache :: "run_faults \<Rightarrow> string \<Rightarrow> run_db \<Rightarrow> db_error + run_db" where
  "model_DeleteRunCache flt cacheID d =
     (if flt RcDeleteCache then Inl DbFailure
      else Inr (d\<lparr>rdCaches := filter (\<lambda>c. CaID c \<noteq> cacheID) (rdCaches d)\<rparr>))"

definition cache_keep :: "string list \<Rightarrow> string list \<Rightarrow> string list \<Rightarrow> cache_row \<Rightarrow> bool" where
  "cache_keep users fss runs c = (in_filter users (CaUserName c) \<and> in_filter fss (CaFsName c) \<and> in_filter runs (CaRunID c))"

definition model_ListRunCache :: "run_faults \<Rightarrow> run_db \<Rightarrow> (cache_row \<Rightarrow> bool) \<Rightarrow> int \<Rightarrow> int \<Rightarrow> db_error + cache_row list" where
  "model_ListRunCache flt d keep maxKeys pk =
     (if flt RcListCache then Inl DbFailure else Inr (limit_rows maxKeys (scan (rdScan d) CaPk (rows_after CaPk keep pk (rdCaches d)))))"

definition GetLastRunCache :: "run_faults \<Rightarrow> run_db \<Rightarrow> int" where
  "GetLastRunCache flt d = last_pk CaPk (flt RcLastCache) (rdCaches d)"

section \<open>Artifact events (models/artifact.go)\<close>

definition CreateArtifactEvent :: "run_faults \<Rightarrow> int \<Rightarrow> artifact_row \<Rightarrow> run_db \<Rightarrow> run_db \<times> (db_error + unit)" where
  "CreateArtifactEvent flt now a d =
     (if flt RcCreateArt then (d, Inl DbFailure)
      else case next_pk (rdArtPk d) of
        Inl e \<Rightarrow> (d, Inl e)
      | Inr pk \<Rightarrow>
          (d\<lparr>rdArtPk := pk, rdArts := rdArts d @ [a\<lparr>ArPk := pk, ArCreatedAt := now, ArUpdatedAt := now\<rparr>]\<rparr>, Inr ()))"

definition CountArtifactEvent :: "run_faults \<Rightarrow> string \<Rightarrow> string \<Rightarrow> run_db \<Rightarrow> db_error + nat" where
  "CountArtifactEvent flt fsID path d =
     (if flt RcGetArt then Inl DbFailure
      else Inr (length (filter (\<lambda>a. eq_nonzero fsID (ArFsID a) \<and> eq_nonzero path (ArArtifactPath a)) (rdArts d))))"

definition GetArtifactEvent :: "run_faults \<Rightarrow> string \<Rightarrow> string \<Rightarrow> string \<Rightarrow> run_db \<Rightarrow> db_error + artifact_row" where
  "GetArtifactEvent flt runID fsID path d =
     (if flt RcGetArt then Inl DbFailure
      else last_row (\<lambda>a. eq_nonzero runID (ArRunID a) \<and> eq_nonzero fsID (ArFsID a) \<and> eq_nonzero path (ArArtifactPath a)) (rdArts d))"

definition artifact_updates :: "int \<Rightarrow> artifact_row \<Rightarrow> artifact_row \<Rightarrow> artifact_row" where
  "artifact_updates now u a =
     a\<lparr>ArMd5 := new_or (ArMd5 u) (ArMd5 a), ArRunID := new_or (ArRunID u) (ArRunID a), ArFsID := new_or (ArFsID u) (ArFsID a),
       ArFsName := new_or (ArFsName u) (ArFsName a), ArUserName := new_or (ArUserName u) (ArUserName a),
       ArArtifactPath := new_or (ArArtifactPath u) (ArArtifactPath a), ArStep := new_or (ArStep u) (ArStep a),
       ArType := new_or (ArType u) (ArType a), ArArtifactName := new_or (ArArtifactName u) (ArArtifactName a),
       ArMeta := new_or (ArMeta u) (ArMeta a), ArUpdatedAt := now\<rparr>"

definition UpdateArtifactEvent :: "run_faults \<Rightarrow> int \<Rightarrow> string \<Rightarrow> string \<Rightarrow> artifact_row \<Rightarrow> run_db \<Rightarrow> db_error + run_db" where
  "UpdateArtifactEvent flt now fsID path u d =
     (if flt RcUpdateArt then Inl DbFailure
      else Inr (d\<lparr>rdArts := map (\<lambda>a. if ArFsID a = fsID \<and> ArArtifactPath a = path then artifact_updates now u a else a) (rdArts d)\<rparr>))"

text \<open>Empty arguments drop their condition; without any condition the query builder refuses to delete.\<close>

definition model_DeleteArtifactEvent ::
  "run_faults \<Rightarrow> string \<Rightarrow> string \<Rightarrow> string \<Rightarrow> string \<Rightarrow> run_db \<Rightarrow> db_error + run_db" where
  "model_DeleteArtifactEvent flt username fsname runID path d =
     (if flt RcDeleteArt \<or> (username = '''' \<and> fsname = '''' \<and> runID = '''' \<and> path = '''') then Inl DbFailure
      else Inr (d\<lparr>rdArts := filter (\<lambda>a. \<not> (eq_nonzero username (ArUserName a) \<and> eq_nonzero fsname (ArFsName a) \<and>
                                        eq_nonzero runID (ArRunID a) \<and> eq_nonzero path (ArArtifactPath a))) (rdArts d)\<rparr>))"

definition artifact_keep :: "string list \<Rightarrow> string list \<Rightarrow> string list \<Rightarrow> string list \<Rightarrow> string list \<Rightarrow> artifact_row \<Rightarrow> bool" where
  "artifact_keep users fss runs types paths a =
     (in_filter users (ArUserName a) \<and> in_filter fss (ArFsName a) \<and> in_filter runs (ArRunID a) \<and>
      in_filter types (ArType a) \<and> in_filter paths (ArArtifactPath a))"

definition model_ListArtifactEvent ::
  "run_faults \<Rightarrow> run_db \<Rightarrow> (artifact_row \<Rightarrow> bool) \<Rightarrow> int \<Rightarrow> int \<Rightarrow> db_error + artifact_row list" where
  "model_ListArtifactEvent flt d keep maxKeys pk =
     (if flt RcListArt then Inl DbFailure else Inr (limit_rows maxKeys (scan (rdScan d) ArPk (rows_after ArPk keep pk (rdArts d)))))"

definition GetLastArtifactEvent :: "run_faults \<Rightarrow> run_db \<Rightarrow> int" where
  "GetLastArtifactEvent flt d = last_pk ArPk (flt RcLastArt) (rdArts d)"

section \<open>Pipelines (models/pipeline.go)\<close>

definition PrefixPipeline :: string where "PrefixPipeline = ''ppl-''"

text \<open>The unique indexes: name and content are unique within a file system.\<close>

definition model_CreatePipeline ::
  "run_faults \<Rightarrow> int \<Rightarrow> pipeline_row \<Rightarrow> run_db \<Rightarrow> run_db \<times> (db_error + string)" where
  "model_CreatePipeline flt now p d =
     (if flt RcCreatePpl then (d, Inl DbFailure)
      else if \<exists>q\<in>set (rdPpls d). PpFsID q = PpFsID p \<and> (PpName q = PpName p \<or> PpMd5 q = PpMd5 p) then (d, Inl DuplicateKey)
      else case next_pk (rdPplPk d) of
        Inl e \<Rightarrow> (d, Inl e)
      | Inr pk \<Rightarrow>
          (let d1 = d\<lparr>rdPplPk := pk\<rparr>;
               p' = p\<lparr>PpPk := pk, PpID := PrefixPipeline @ pad6 pk, PpCreatedAt := now, PpUpdatedAt := now\<rparr>
           in if flt RcBackfillPpl then (d1, Inl DbFailure)
              else (d1\<lparr>rdPpls := rdPpls d @ [p']\<rparr>, Inr (PpID p'))))"

definition GetPipelineByMd5AndFs :: "run_faults \<Rightarrow> string \<Rightarrow> string \<Rightarrow> run_db \<Rightarrow> db_error + pipeline_row" where
  "GetPipelineByMd5AndFs flt md5 fsID d =
     (if flt RcPplByMd5 then Inl DbFailure
      else last_row (\<lambda>p. eq_nonzero fsID (PpFsID p) \<and> eq_nonzero md5 (PpMd5 p)) (rdPpls d))"

definition model_GetPipelineByID :: "run_faults \<Rightarrow> string \<Rightarrow> run_db \<Rightarrow> db_error + pipeline_row" where
  "model_GetPipelineByID flt pplID d =
     (if flt RcGetPpl then Inl DbFailure else last_row (\<lambda>p. eq_nonzero pplID (PpID p)) (rdPpls d))"

definition ppl_keep :: "string list \<Rightarrow> string list \<Rightarrow> string list \<Rightarrow> pipeline_row \<Rightarrow> bool" where
  "ppl_keep users fss names p = (in_filter users (PpUserName p) \<and> in_filter fss (PpFsName p) \<and> in_filter names (PpName p))"

definition model_ListPipeline :: "run_faults \<Rightarrow> run_db \<Rightarrow> (pipeline_row \<Rightarrow> bool) \<Rightarrow> int \<Rightarrow> int \<Rightarrow> db_error + pipeline_row list" where
  "model_ListPipeline flt d keep maxKeys pk =
     (if flt RcListPpl then Inl DbFailure else Inr (limit_rows maxKeys (scan (rdScan d) PpPk (rows_after PpPk keep pk (rdPpls d)))))"

definition GetLastPipeline :: "run_faults \<Rightarrow> run_db \<Rightarrow> int" where
  "GetLastPipeline flt d = last_pk PpPk (flt RcLastPpl) (rdPpls d)"

definition HardDeletePipeline :: "run_faults \<Rightarrow> string \<Rightarrow> run_db \<Rightarrow> db_error + run_db" where
  "HardDeletePipeline flt pplID d =
     (if flt RcDeletePpl then Inl DbFailure else Inr (d\<lparr>rdPpls := filter (\<lambda>p. PpID p \<noteq> pplID) (rdPpls d)\<rparr>))"

section \<open>Images (models/image.go)\<close>

definition no_image :: image_row where
  "no_image = \<lparr>ImPk = 0, ImID = '''', ImImageID = '''', ImFsID = '''', ImSource = '''', ImUrl = ''''\<rparr>"

definition CreateImage :: "run_faults \<Rightarrow> image_row \<Rightarrow> run_db \<Rightarrow> run_db \<times> (db_error + unit)" where
  "CreateImage flt im d =
     (if flt RcCreateImage then (d, Inl DbFailure)
      else if \<exists>i\<in>set (rdImages d). ImID i = ImID im then (d, Inl DuplicateKey)
      else case next_pk (rdImagePk d) of
        Inl e \<Rightarrow> (d, Inl e)
      | Inr pk \<Rightarrow> (d\<lparr>rdImagePk := pk, rdImages := rdImages d @ [im\<lparr>ImPk := pk\<rparr>]\<rparr>, Inr ()))"

definition ListImageIDsByFsID :: "run_faults \<Rightarrow> string \<Rightarrow> run_db \<Rightarrow> db_error + string list" where
  "ListImageIDsByFsID flt fsID d =
     (if flt RcListImage then Inl DbFailure else Inr (map ImImageID (filter (\<lambda>i. ImFsID i = fsID) (rdImages d))))"

text \<open>\<open>Find\<close> into a struct reports no error when there is no row: the zero image comes back.\<close>

definition GetImage :: "run_faults \<Rightarrow> string \<Rightarrow> run_db \<Rightarrow> db_error + image_row" where
  "GetImage flt PFImageID d =
     (if flt RcGetImage then Inl DbFailure
      else Inr (case List.find (\<lambda>i. ImID i = PFImageID) (rdImages d) of None \<Rightarrow> no_image | Some i \<Rightarrow> i))"

text \<open>The condition \<open>"id ="\<close> has no placeholder: the statement is not SQL and always fails.\<close>

definition GetUrlByPFImageID :: "run_faults \<Rightarrow> string \<Rightarrow> run_db \<Rightarrow> db_error + string" where
  "GetUrlByPFImageID flt PFImageID d = Inl DbFailure"

definition UpdateImage :: "run_faults \<Rightarrow> string \<Rightarrow> image_row \<Rightarrow> run_db \<Rightarrow> db_error + run_db" where
  "UpdateImage flt PFImageID u d =
     (if flt RcUpdateImage then Inl DbFailure
      else Inr (d\<lparr>rdImages := map (\<lambda>i. if ImID i = PFImageID
         then i\<lparr>ImID := new_or (ImID u) (ImID i), ImImageID := new_or (ImImageID u) (ImImageID i),
                ImFsID := new_or (ImFsID u) (ImFsID i), ImSource := new_or (ImSource u) (ImSource i),
                ImUrl := new_or (ImUrl u) (ImUrl i)\<rparr> else i) (rdImages d)\<rparr>))"

section \<open>The invariant of the tables\<close>

definition auto_table :: "('r \<Rightarrow> int) \<Rightarrow> int \<Rightarrow> 'r list \<Rightarrow> bool" where
  "auto_table pk cnt rows = (pk_table pk rows \<and> 0 \<le> cnt \<and> cnt < 2 ^ 63 \<and> (\<forall>r\<in>set rows. pk r \<le> cnt))"

lemma auto_table_pk: "auto_table pk cnt rows \<Longrightarrow> pk_table pk rows"
  by (simp add: auto_table_def)


lemma auto_table_next: "auto_table pk cnt rows \<Longrightarrow> next_pk cnt = Inr n \<Longrightarrow> auto_table pk n rows"
  by (frule next_pk_Inr) (auto simp: auto_table_def)

lemma auto_table_insert:
  "auto_table pk cnt rows \<Longrightarrow> next_pk cnt = Inr n \<Longrightarrow> pk r = n \<Longrightarrow> auto_table pk n (rows @ [r])"
  by (frule next_pk_Inr) (auto simp: auto_table_def intro!: pk_table_snoc)

lemma auto_table_filter: "auto_table pk cnt rows \<Longrightarrow> auto_table pk cnt (filter P rows)"
  by (simp add: auto_table_def pk_table_filter)

lemma auto_table_map: "auto_table pk cnt rows \<Longrightarrow> (\<And>r. pk (f r) = pk r) \<Longrightarrow> auto_table pk cnt (map f rows)"
  by (simp add: auto_table_def pk_table_map)

lemma last_pk_last: "rows \<noteq> [] \<Longrightarrow> last_pk pk False rows = pk (last rows)"
  by (simp add: last_pk_def)

text \<open>The identifier of a row is its printed key, so no two rows share one.\<close>

lemma pad6_inj:
  assumes "0 \<le> a" "0 \<le> b" "pad6 a = pad6 b"
  shows "a = b"
proof -
  have v: "digits_val (pad6 i) = nat i" if "0 \<le> i" for i
  proof -
    have z: "digits_val (replicate n CHR ''0'' @ ds) = digits_val ds" for n ds
      by (induction n) (simp_all add: digits_val_def)
    show ?thesis using that by (simp add: pad6_def Let_def z itoa_def digits_val_nat_digits)
  qed
  from v [OF assms(1)] v [OF assms(2)] assms show ?thesis by simp
qed

definition id_table :: "('r \<Rightarrow> int) \<Rightarrow> ('r \<Rightarrow> string) \<Rightarrow> string \<Rightarrow> 'r list \<Rightarrow> bool" where
  "id_table pk ident prefix rows = (\<forall>r\<in>set rows. ident r = prefix @ pad6 (pk r))"

lemma pk_table_inj:
  assumes "pk_table pk rows" "r \<in> set rows" "r' \<in> set rows" "pk r = pk r'"
  shows "r = r'"
proof -
  have "sorted_wrt (\<lambda>a b. pk a < pk b) rows" using assms(1) by (simp add: pk_table_def)
  then show ?thesis using assms(2-4) by (induction rows) auto
qed

lemma id_table_unique:
  assumes "pk_table pk rows" "id_table pk ident prefix rows" "r \<in> set rows" "r' \<in> set rows" "ident r = ident r'"
  shows "r = r'"
proof -
  have "0 < pk r" "0 < pk r'" using assms(1,3,4) by (auto simp: pk_table_def)
  moreover have "pad6 (pk r) = pad6 (pk r')" using assms(2-5) by (auto simp: id_table_def)
  ultimately have "pk r = pk r'" using pad6_inj by simp
  then show ?thesis using pk_table_inj [OF assms(1,3,4)] by simp
qed

definition run_db_ok :: "run_db \<Rightarrow> bool" where
  "run_db_ok d =
     (auto_table RnPk (rdRunPk d) (rdRuns d) \<and> id_table RnPk RnID PrefixRun (rdRuns d) \<and>
      auto_table CaPk (rdCachePk d) (rdCaches d) \<and> id_table CaPk CaID PrefixCache (rdCaches d) \<and>
      auto_table ArPk (rdArtPk d) (rdArts d) \<and>
      auto_table PpPk (rdPplPk d) (rdPpls d) \<and> id_table PpPk PpID PrefixPipeline (rdPpls d))"

lemma id_table_snoc: "id_table pk ident prefix rows \<Longrightarrow> ident r = prefix @ pad6 (pk r) \<Longrightarrow> id_table pk ident prefix (rows @ [r])"
  by (auto simp: id_table_def)

lemma id_table_filter: "id_table pk ident prefix rows \<Longrightarrow> id_table pk ident prefix (filter P rows)"
  by (auto simp: id_table_def)

lemma id_table_map:
  "id_table pk ident prefix rows \<Longrightarrow> (\<And>r. r \<in> set rows \<Longrightarrow> pk (f r) = pk r \<and> ident (f r) = ident r) \<Longrightarrow>
     id_table pk ident prefix (map f rows)"
  by (auto simp: id_table_def)

lemma run_db_ok_CreateRun: "run_db_ok d \<Longrightarrow> model_CreateRun flt now run d = (d', r) \<Longrightarrow> run_db_ok d'"
  by (auto simp: run_db_ok_def model_CreateRun_def Let_def split: if_splits sum.splits
      intro: auto_table_next)
    (erule (1) auto_table_insert, simp, erule id_table_snoc, simp)

lemma run_db_ok_UpdateRunStatus: "run_db_ok d \<Longrightarrow> model_UpdateRunStatus flt now i st d = Inr d' \<Longrightarrow> run_db_ok d'"
  by (auto simp: run_db_ok_def model_UpdateRunStatus_def split: if_splits intro!: auto_table_map id_table_map)

lemma run_db_ok_UpdateRun:
  "run_db_ok d \<Longrightarrow> RnID u \<in> {'''', i} \<Longrightarrow> model_UpdateRun flt now i u d = Inr d' \<Longrightarrow> run_db_ok d'"
  by (auto simp: run_db_ok_def model_UpdateRun_def run_updates_def new_or_def split: if_splits
      intro!: auto_table_map id_table_map)

lemma run_db_ok_DeleteRun: "run_db_ok d \<Longrightarrow> model_DeleteRun flt i d = Inr d' \<Longrightarrow> run_db_ok d'"
  by (auto simp: run_db_ok_def model_DeleteRun_def split: if_splits intro!: auto_table_filter id_table_filter)

lemma run_db_ok_CreateRunCache: "run_db_ok d \<Longrightarrow> CreateRunCache flt now c d = (d', r) \<Longrightarrow> run_db_ok d'"
  by (auto simp: run_db_ok_def CreateRunCache_def Let_def split: if_splits sum.splits
      intro: auto_table_next)
    (erule (1) auto_table_insert, simp, erule id_table_snoc, simp)

lemma run_db_ok_DeleteRunCache: "run_db_ok d \<Longrightarrow> model_DeleteRunCache flt i d = Inr d' \<Longrightarrow> run_db_ok d'"
  by (auto simp: run_db_ok_def model_DeleteRunCache_def split: if_splits intro!: auto_table_filter id_table_filter)

lemma run_db_ok_CreateArtifactEvent: "run_db_ok d \<Longrightarrow> CreateArtifactEvent flt now a d = (d', r) \<Longrightarrow> run_db_ok d'"
  by (auto simp: run_db_ok_def CreateArtifactEvent_def split: if_splits sum.splits)
    (erule (1) auto_table_insert, simp)

lemma run_db_ok_DeleteArtifactEvent: "run_db_ok d \<Longrightarrow> model_DeleteArtifactEvent flt u f r p d = Inr d' \<Longrightarrow> run_db_ok d'"
  by (auto simp: run_db_ok_def model_DeleteArtifactEvent_def split: if_splits intro!: auto_table_filter)

lemma run_db_ok_CreatePipeline: "run_db_ok d \<Longrightarrow> model_CreatePipeline flt now p d = (d', r) \<Longrightarrow> run_db_ok d'"
  by (auto simp: run_db_ok_def model_CreatePipeline_def Let_def split: if_splits sum.splits
      intro: auto_table_next)
    (erule (1) auto_table_insert, simp, erule id_table_snoc, simp)

lemma run_db_ok_HardDeletePipeline: "run_db_ok d \<Longrightarrow> HardDeletePipeline flt i d = Inr d' \<Longrightarrow> run_db_ok d'"
  by (auto simp: run_db_ok_def HardDeletePipeline_def split: if_splits intro!: auto_table_filter id_table_filter)

definition empty_run_db :: run_db where
  "empty_run_db =
     \<lparr>rdRuns = [], rdRunPk = 0, rdCaches = [], rdCachePk = 0, rdArts = [], rdArtPk = 0, rdPpls = [], rdPplPk = 0,
      rdImages = [], rdImagePk = 0, rdScan = []\<rparr>"

lemma run_db_ok_empty: "run_db_ok empty_run_db"
  by (simp add: run_db_ok_def empty_run_db_def auto_table_def id_table_def)

end
