(* ===== verification/PF_Track.thy ===== *)
theory PF_Track
  imports PF_RunModels
begin

text \<open>
  Run caches and artifact events (\<open>pkg/apiserver/controller/run/track.go\<close> and the delete handler of
  \<open>router/v1/track.go\<close>): the callbacks of the workflow engine that record them, and the operations of
  the API. A failed operation returns the error code it leaves in the request context, empty when it
  sets none. \<open>rows_or_nil\<close> is what the list operations do with an error of the table: they go on
  with no rows.
\<close>

type_synonym code = string

definition AccessDenied :: code where "AccessDenied = ''AccessDenied''"
definition ActionNotAllowed :: code where "ActionNotAllowed = ''ActionNotAllowed''"
definition InternalError :: code where "InternalError = ''InternalError''"
definition InvalidMarker :: code where "InvalidMarker = ''InvalidMarker''"
definition InvalidURI :: code where "InvalidURI = ''InvalidURI''"
definition InvalidNamePattern :: code where "InvalidNamePattern = ''InvalidNamePattern''"
definition panic_code :: code where "panic_code = ''panic''"
definition RunCacheNotFound :: code where "RunCacheNotFound = ''RunCacheNotFound''"
definition ArtifactEventNotFound :: code where "ArtifactEventNotFound = ''ArtifactEventNotFound''"

definition user_filter :: "string \<Rightarrow> string list \<Rightarrow> string list" where
  "user_filter user fs = (if \<not> IsRootUser user then [user] else fs)"

definition owns :: "string \<Rightarrow> string \<Rightarrow> bool" where
  "owns user owner = (IsRootUser user \<or> user = owner)"

definition rows_or_nil :: "db_error + 'r list \<Rightarrow> 'r list" where
  "rows_or_nil r = (case r of Inl e \<Rightarrow> [] | Inr rs \<Rightarrow> rs)"

text \<open>\<open>DecryptPk\<close> errors are \<open>InvalidMarker\<close> (its panic aborts the request), \<open>EncryptPk\<close> errors
  \<open>InternalError\<close>.\<close>

definition marker_code :: "marker_error \<Rightarrow> code" where
  "marker_code e = (if e = OrigNull then InternalError else InvalidMarker)"

definition page_result :: "marker_error + 'r page \<Rightarrow> code + 'r page" where
  "page_result r = (case r of Inl e \<Rightarrow> Inl (marker_code e) | Inr p \<Rightarrow> Inr p)"

section \<open>What the engine records\<close>

definition logCacheReqToModel :: "log_run_cache_request \<Rightarrow> cache_row" where
  "logCacheReqToModel req =
     \<lparr>CaPk = 0, CaID = '''', CaFirstFp = LcFirstFp req, CaSecondFp = LcSecondFp req, CaRunID = LcRunID req,
      CaSource = LcSource req, CaStep = LcStep req, CaFsID = LcFsID req, CaFsName = LcFsName req,
      CaUserName = LcUserName req, CaExpiredTime = LcExpiredTime req, CaStrategy = LcStrategy req, CaCustom = '''',
      CaCreatedAt = 0, CaUpdatedAt = 0\<rparr>"

fun artifact_type_name :: "artifact_type \<Rightarrow> string" where
  "artifact_type_name ArtifactTypeInput = ''input''"
| "artifact_type_name ArtifactTypeOutput = ''output''"

text \<open>The engine leaves \<open>Md5\<close> and \<open>Meta\<close> of its requests empty.\<close>

definition logArtifactReqToModel :: "log_run_artifact_request \<Rightarrow> artifact_row" where
  "logArtifactReqToModel req =
     \<lparr>ArPk = 0, ArMd5 = '''', ArRunID = LaRunID req, ArFsID = LaFsID req, ArFsName = LaFsName req,
      ArUserName = LaUserName req, ArArtifactPath = LaArtifactPath req, ArStep = LaStep req,
      ArType = artifact_type_name (LaType req), ArArtifactName = LaArtifactName req, ArMeta = '''',
      ArCreatedAt = 0, ArUpdatedAt = 0\<rparr>"

definition LogCache :: "run_faults \<Rightarrow> int \<Rightarrow> log_run_cache_request \<Rightarrow> run_db \<Rightarrow> run_db \<times> (db_error + string)" where
  "LogCache flt now req d = CreateRunCache flt now (logCacheReqToModel req) d"

definition ListCacheByFirstFp ::
  "run_faults \<Rightarrow> string \<Rightarrow> string \<Rightarrow> string \<Rightarrow> string \<Rightarrow> run_db \<Rightarrow> db_error + cache_row list" where
  "ListCacheByFirstFp flt firstFp fsID step source d = ListRunCacheByFirstFp flt firstFp fsID step source d"

definition LogArtifactEvent :: "run_faults \<Rightarrow> int \<Rightarrow> log_run_artifact_request \<Rightarrow> run_db \<Rightarrow> run_db \<times> (db_error + unit)" where
  "LogArtifactEvent flt now req d = CreateArtifactEvent flt now (logArtifactReqToModel req) d"

section \<open>Run caches\<close>

definition ctl_GetRunCache :: "run_faults \<Rightarrow> string \<Rightarrow> string \<Rightarrow> run_db \<Rightarrow> code + cache_row" where
  "ctl_GetRunCache flt user cacheID d =
     (case model_GetRunCache flt cacheID d of
        Inl e \<Rightarrow> Inl (if e = RecordNotFound then RunCacheNotFound else InternalError)
      | Inr c \<Rightarrow> if owns user (CaUserName c) then Inr c else Inl AccessDenied)"

definition ctl_ListRunCache ::
  "run_faults \<Rightarrow> block_cipher \<Rightarrow> block_cipher \<Rightarrow> string \<Rightarrow> int \<Rightarrow> string list \<Rightarrow> string list \<Rightarrow> string list \<Rightarrow> run_db \<Rightarrow>
   string \<Rightarrow> code + cache_row page" where
  "ctl_ListRunCache flt enc dec user maxKeys userFilter fsFilter runFilter d marker =
     page_result (list_page enc dec CaPk
       (\<lambda>pk. rows_or_nil (model_ListRunCache flt d (cache_keep (user_filter user userFilter) fsFilter runFilter) maxKeys pk))
       (GetLastRunCache flt d) marker)"

definition ctl_DeleteRunCache :: "run_faults \<Rightarrow> string \<Rightarrow> string \<Rightarrow> run_db \<Rightarrow> code + run_db" where
  "ctl_DeleteRunCache flt user cacheID d =
     (case model_GetRunCache flt cacheID d of
        Inl e \<Rightarrow> Inl (if e = RecordNotFound then RunCacheNotFound else InternalError)
      | Inr c \<Rightarrow>
          if \<not> owns user (CaUserName c) then Inl AccessDenied
          else (case model_DeleteRunCache flt cacheID d of Inl e \<Rightarrow> Inl InternalError | Inr d' \<Rightarrow> Inr d'))"

section \<open>Artifact events\<close>

definition ctl_DeleteArtifactEvent ::
  "run_faults \<Rightarrow> string \<Rightarrow> string \<Rightarrow> string \<Rightarrow> string \<Rightarrow> run_db \<Rightarrow> code + run_db" where
  "ctl_DeleteArtifactEvent flt username fsname runID path d =
     (case model_DeleteArtifactEvent flt username fsname runID path d of
        Inl e \<Rightarrow> Inl (if e = RecordNotFound then ArtifactEventNotFound else InternalError)
      | Inr d' \<Rightarrow> Inr d')"

text \<open>The handler of the route checks the query and chooses the user.\<close>

definition deleteArtifactEvent ::
  "run_faults \<Rightarrow> string \<Rightarrow> string \<Rightarrow> string \<Rightarrow> string \<Rightarrow> string \<Rightarrow> run_db \<Rightarrow> code + run_db" where
  "deleteArtifactEvent flt user username fsname runID path d =
     (if fsname = '''' \<or> runID = '''' \<or> path = '''' then Inl InvalidURI
      else ctl_DeleteArtifactEvent flt
             (if \<not> IsRootUser user then user else if username = '''' then user else username) fsname runID path d)"

definition ctl_ListArtifactEvent ::
  "run_faults \<Rightarrow> block_cipher \<Rightarrow> block_cipher \<Rightarrow> string \<Rightarrow> int \<Rightarrow> string list \<Rightarrow> string list \<Rightarrow> string list \<Rightarrow> string list \<Rightarrow>
   string list \<Rightarrow> run_db \<Rightarrow> string \<Rightarrow> code + artifact_row page" where
  "ctl_ListArtifactEvent flt enc dec user maxKeys userFilter fsFilter runFilter typeFilter pathFilter d marker =
     page_result (list_page enc dec ArPk
       (\<lambda>pk. rows_or_nil (model_ListArtifactEvent flt d
          (artifact_keep (user_filter user userFilter) fsFilter runFilter typeFilter pathFilter) maxKeys pk))
       (GetLastArtifactEvent flt d) marker)"

section \<open>The tables behind the page protocol\<close>

lemma rows_or_nil_Inr [simp]: "rows_or_nil (Inr rs) = rs" "rows_or_nil (Inl e) = []"
  by (simp_all add: rows_or_nil_def)

lemma collect_page_result [simp]:
  "collect_pages n (\<lambda>m. page_result (f m)) marker = collect_pages n f marker"
  by (induction n arbitrary: marker) (auto simp: page_result_def split: sum.splits option.splits)

interpretation caches: paged_table rdCaches CaPk "\<lambda>d. run_db_ok d \<and> in_key_order (rdScan d) \<and> \<not> flt RcListCache \<and> \<not> flt RcLastCache"
    "\<lambda>d keep maxKeys pk. rows_or_nil (model_ListRunCache flt d keep maxKeys pk)" "GetLastRunCache flt" for flt
  by unfold_locales
    (auto simp: run_db_ok_def auto_table_pk scan_in_order model_ListRunCache_def GetLastRunCache_def last_pk_last)

interpretation artifacts: paged_table rdArts ArPk "\<lambda>d. run_db_ok d \<and> in_key_order (rdScan d) \<and> \<not> flt RcListArt \<and> \<not> flt RcLastArt"
    "\<lambda>d keep maxKeys pk. rows_or_nil (model_ListArtifactEvent flt d keep maxKeys pk)" "GetLastArtifactEvent flt" for flt
  by unfold_locales
    (auto simp: run_db_ok_def auto_table_pk scan_in_order model_ListArtifactEvent_def GetLastArtifactEvent_def last_pk_last)

text \<open>Only the own rows of a user other than root pass the filters.\<close>

lemma user_filter_own: "\<not> IsRootUser user \<Longrightarrow> in_filter (user_filter user fs) x = (x = user)"
  by (auto simp: in_filter_def user_filter_def)

end
