(* ===== verification/PF_Json.thy ===== *)
theory PF_Json
  imports PF_Prelude "HOL-Library.List_Lexorder" "HOL-Library.Char_ord"
begin

text \<open>
  What the sources use of \<open>encoding/json\<close>: the text \<open>json.Marshal\<close> writes for strings, for maps from
  strings to strings (keys sorted), and for structs with \<open>omitempty\<close> maps. Strings are ASCII; the
  escapes are those of the Go encoder with HTML escaping on. The text determines the value: it can
  be read back from any position, so no two different values share it.
\<close>

section \<open>Strings\<close>

definition hex_digit :: "nat \<Rightarrow> char" where
  "hex_digit n = char_of (if n < 10 then 48 + n else 87 + n)"

definition hex_value :: "char \<Rightarrow> nat" where
  "hex_value c = (if is_digit c then code_point c - 48 else code_point c - 87)"

lemma hex_value_digit [simp]: "n < 16 \<Longrightarrow> hex_value (hex_digit n) = n"
  by (auto simp: hex_value_def hex_digit_def is_digit_def of_char_of)

text \<open>\<open>htmlSafeSet\<close> leaves the printable characters alone but the quote, the backslash, and \<open><\<close>, \<open>>\<close>,
  \<open>&\<close>; newline, return and tab have a short escape.\<close>

definition esc_plain :: "char \<Rightarrow> bool" where
  "esc_plain c = (32 \<le> code_point c \<and> code_point c \<notin> {34, 38, 60, 62, 92})"

definition json_char :: "char \<Rightarrow> string" where
  "json_char c =
     (if esc_plain c then [c]
      else if code_point c = 34 \<or> code_point c = 92 then [CHR 0x5C, c]
      else if code_point c = 10 then [CHR 0x5C, CHR ''n'']
      else if code_point c = 13 then [CHR 0x5C, CHR ''r'']
      else if code_point c = 9 then [CHR 0x5C, CHR ''t'']
      else [CHR 0x5C, CHR ''u'', CHR ''0'', CHR ''0'', hex_digit (code_point c div 16), hex_digit (code_point c mod 16)])"

definition quote_mark :: char where
  "quote_mark = CHR 0x22"

definition json_string :: "string \<Rightarrow> string" where
  "json_string s = quote_mark # concat (map json_char s) @ [quote_mark]"

text \<open>The reader of one encoded character.\<close>

definition unjson_char :: "string \<Rightarrow> (char \<times> string) option" where
  "unjson_char s =
     (case s of
        [] \<Rightarrow> None
      | c # r \<Rightarrow>
          if c \<noteq> CHR 0x5C then (if c = quote_mark then None else Some (c, r))
          else case r of
              [] \<Rightarrow> None
            | d # r' \<Rightarrow>
                if code_point d = 34 \<or> code_point d = 92 then Some (d, r')
                else if d = CHR ''n'' then Some (char_of (10 :: nat), r')
                else if d = CHR ''r'' then Some (char_of (13 :: nat), r')
                else if d = CHR ''t'' then Some (char_of (9 :: nat), r')
                else (case r' of
                        z0 # z1 # h # l # r'' \<Rightarrow> Some (char_of (16 * hex_value h + hex_value l), r'')
                      | _ \<Rightarrow> None))"

lemma code_point_less: "code_point c < 256"
  by (rule nat_of_char_less_256)

lemma code_point_eq: "code_point c = n \<Longrightarrow> c = char_of n"
  by (metis char_of_char)

lemma unjson_char_json_char: "unjson_char (json_char c @ r) = Some (c, r)"
proof -
  have d: "16 * (code_point c div 16) + code_point c mod 16 = code_point c" by simp
  have h: "code_point c div 16 < 16" using code_point_less [of c] by (simp add: less_mult_imp_div_less)
  consider "esc_plain c" | "\<not> esc_plain c" "code_point c = 34 \<or> code_point c = 92"
    | "\<not> esc_plain c" "code_point c = 10" | "\<not> esc_plain c" "code_point c = 13" | "\<not> esc_plain c" "code_point c = 9"
    | "\<not> esc_plain c" "code_point c \<notin> {34, 92, 10, 13, 9}" by blast
  then show ?thesis
  proof cases
    case 1
    then have "c \<noteq> CHR 0x5C" "c \<noteq> quote_mark" by (auto simp: esc_plain_def quote_mark_def)
    with 1 show ?thesis by (simp add: json_char_def unjson_char_def)
  next
    case 6
    then show ?thesis using h by (simp add: json_char_def unjson_char_def d)
  qed (auto simp: json_char_def unjson_char_def dest: code_point_eq)
qed

lemma json_char_not_quote: "unjson_char (quote_mark # r) = None"
  by (simp add: unjson_char_def quote_mark_def)

lemma json_string_read: "json_string s @ r = json_string s' @ r' \<Longrightarrow> s = s' \<and> r = r'"
proof (induction s arbitrary: s')
  case Nil
  show ?case
  proof (cases s')
    case Nil
    with Nil.prems show ?thesis by (simp add: json_string_def)
  next
    case (Cons c cs)
    with Nil.prems have "quote_mark # r = json_char c @ concat (map json_char cs) @ quote_mark # r'"
      by (simp add: json_string_def)
    then show ?thesis by (metis json_char_not_quote option.distinct(1) unjson_char_json_char)
  qed
next
  case (Cons c s)
  show ?case
  proof (cases s')
    case Nil
    with Cons.prems have "quote_mark # r' = json_char c @ concat (map json_char s) @ quote_mark # r"
      by (simp add: json_string_def)
    then show ?thesis by (metis json_char_not_quote option.distinct(1) unjson_char_json_char)
  next
    case (Cons c' cs)
    with Cons.prems have "json_char c @ concat (map json_char s) @ quote_mark # r =
        json_char c' @ concat (map json_char cs) @ quote_mark # r'"
      by (simp add: json_string_def)
    then have "c = c'" "concat (map json_char s) @ quote_mark # r = concat (map json_char cs) @ quote_mark # r'"
      by (metis Pair_inject option.inject unjson_char_json_char)+
    with Cons Cons.IH [of cs] show ?thesis by (simp add: json_string_def)
  qed
qed

lemma json_string_not_brace [simp]:
  "json_string s @ r \<noteq> CHR ''}'' # r'" "CHR ''}'' # r' \<noteq> json_string s @ r"
  by (simp_all add: json_string_def quote_mark_def)

section \<open>Maps\<close>

text \<open>The keys are written in increasing order, whatever the order of the Go map.\<close>

definition sorted_entries :: "string gomap \<Rightarrow> string gomap" where
  "sorted_entries m = sort_key fst m"

fun json_entries :: "string gomap \<Rightarrow> string" where
  "json_entries [] = []"
| "json_entries [(k, v)] = json_string k @ CHR '':'' # json_string v"
| "json_entries ((k, v) # e # es) = json_string k @ CHR '':'' # json_string v @ CHR '','' # json_entries (e # es)"

definition json_map :: "string gomap \<Rightarrow> string" where
  "json_map m = CHR ''{'' # json_entries (sorted_entries m) @ [CHR ''}'']"

lemma json_entries_read:
  "json_entries es @ CHR ''}'' # r = json_entries es' @ CHR ''}'' # r' \<Longrightarrow> es = es' \<and> r = r'"
proof (induction es arbitrary: es' rule: json_entries.induct)
  case 1
  then show ?case by (cases es' rule: json_entries.cases) auto
next
  case (2 k v)
  then show ?case by (cases es' rule: json_entries.cases) (auto dest!: json_string_read)
next
  case (3 k v e es)
  show ?case
  proof (cases es' rule: json_entries.cases)
    case 1
    with "3.prems" show ?thesis by simp
  next
    case (2 k' v')
    with "3.prems" show ?thesis by (auto dest!: json_string_read)
  next
    case (3 k' v' e' es'')
    with "3.prems" have "k = k'" "v = v'"
      "json_entries (e # es) @ CHR ''}'' # r = json_entries (e' # es'') @ CHR ''}'' # r'"
      by (auto dest!: json_string_read)
    with 3 "3.IH" [of "e' # es''"] show ?thesis by simp
  qed
qed

lemma json_map_read: "json_map m @ r = json_map m' @ r' \<Longrightarrow> sorted_entries m = sorted_entries m' \<and> r = r'"
  by (simp add: json_map_def json_entries_read)

text \<open>Two enumerations of one map are written alike, and only those.\<close>

lemma sorted_entries_set [simp]: "set (sorted_entries m) = set m"
  by (simp add: sorted_entries_def)

lemma sorted_entries_eq:
  assumes "wf_map m" and "set m = set m'" and "wf_map m'"
  shows "sorted_entries m = sorted_entries m'"
proof -
  have d: "distinct (map fst (sorted_entries m))" "distinct (map fst (sorted_entries m'))"
    using assms by (simp_all add: sorted_entries_def wf_map_def distinct_map)
  show ?thesis
    by (rule map_sorted_distinct_set_unique [of fst])
      (use assms d in \<open>auto simp: sorted_entries_def inj_on_def wf_map_def distinct_map\<close>)
qed

section \<open>Structs\<close>

text \<open>A field of a struct: its name and its value; an empty map with \<open>omitempty\<close> leaves no field.\<close>

definition json_field :: "string \<Rightarrow> string \<Rightarrow> string" where
  "json_field name txt = json_string name @ CHR '':'' # txt"

definition omit_empty :: "string \<Rightarrow> string gomap \<Rightarrow> string list" where
  "omit_empty name m = (if m = [] then [] else [json_field name (json_map m)])"

fun json_object :: "string list \<Rightarrow> string" where
  "json_object fs = CHR ''{'' # join_with CHR '','' fs @ [CHR ''}'']"

end
