(* ===== verification/PF_StepCache.thy ===== *)
theory PF_StepCache
  imports PF_Track PF_Json PF_Runtime
begin

text \<open>
  The step cache: the fingerprints of \<open>pkg/pipeline/cache.go\<close>, \<open>checkCached\<close> of
  \<open>pkg/pipeline/step.go\<close>, and the retry of \<open>handler.NewFsHandlerWithServer\<close>. The file system client
  (modification times, connection attempts) and SHA-256 are fields of \<open>cache_env\<close>; the cache records
  are the table of \<open>PF_RunModels\<close>, reached through the callbacks of \<open>PF_Track\<close>. Times are in
  nanoseconds.
\<close>

section \<open>Cache keys (cache.go)\<close>

record first_cache_key =
  FkDockerEnv :: string
  FkStepName :: string
  FkCommand :: string
  FkEnv :: "string gomap"
  FkParameters :: "string gomap"
  FkInput :: "string gomap"
  FkOutput :: "string gomap"

record second_cache_key =
  SkInput :: "string gomap"
  SkFsScope :: "string gomap"

definition SysParamNameList :: "string list" where
  "SysParamNameList =
     [''PF_RUN_ID'', ''PF_FS_ID'', ''PF_JOB_ID'', ''PF_STEP_NAME'', ''PF_FS_NAME'', ''PF_USER_ID'', ''PF_USER_NAME'']"

definition generateFirstCacheKey :: "step \<Rightarrow> first_cache_key" where
  "generateFirstCacheKey st =
     (let job = StJob st
      in \<lparr>FkDockerEnv = JbImage job, FkStepName = StName st, FkCommand = JbCommand job,
          FkEnv = filter (\<lambda>(name, v). name \<notin> set SysParamNameList) (JbEnv job),
          FkParameters = JbParameters job, FkInput = Input (JbArtifacts job), FkOutput = Output (JbArtifacts job)\<rparr>)"

record cache_env =
  ceConnect :: "nat \<Rightarrow> string option"
  ceModTime :: "string \<Rightarrow> string + int"
  ceSha :: "string \<Rightarrow> string"
  ceNow :: int

definition maxRetryCount :: nat where "maxRetryCount = 3"

text \<open>\<open>ceConnect e i\<close> is the error of attempt \<open>i\<close>, \<open>None\<close> for a client; the last error is reported.\<close>

fun connect_loop :: "(nat \<Rightarrow> string option) \<Rightarrow> nat \<Rightarrow> string option \<Rightarrow> nat \<Rightarrow> string option" where
  "connect_loop conn i err 0 = err"
| "connect_loop conn i err (Suc n) =
     (case conn i of None \<Rightarrow> None | Some e \<Rightarrow> connect_loop conn (i + 1) (Some e) n)"

definition NewFsHandlerWithServer :: "cache_env \<Rightarrow> string + unit" where
  "NewFsHandlerWithServer e =
     (case connect_loop (ceConnect e) 0 None maxRetryCount of None \<Rightarrow> Inr () | Some err \<Rightarrow> Inl err)"

definition mod_time_entry :: "cache_env \<Rightarrow> string \<Rightarrow> string \<Rightarrow> string gomap \<Rightarrow> string + string gomap" where
  "mod_time_entry e name path m = bindE (ceModTime e path) (\<lambda>mtime. Inr (mput name (itoa mtime) m))"

definition getFsScopeModTime :: "cache_env \<Rightarrow> wf_cache \<Rightarrow> string + string gomap" where
  "getFsScopeModTime e cfg =
     (let scope = trim_space (FsScope cfg);
          scope' = (if scope = '''' then ''/'' else scope)
      in foldE (\<lambda>p m. let path = trim_space p in if path = '''' then Inr m else mod_time_entry e path path m)
           (split_on CHR '','' scope') [])"

definition getInputArtifactModTime :: "cache_env \<Rightarrow> step \<Rightarrow> string + string gomap" where
  "getInputArtifactModTime e st =
     foldE (\<lambda>(n, p) m.
         let name = trim_space n; path = trim_space p
         in if name = '''' \<or> path = ''''
            then Inl (''the input artifact['' @ name @ ''] is illegal, name or path of it is empty'')
            else mod_time_entry e name path m)
       (Input (JbArtifacts (StJob st))) []"

definition generateSecondCacheKey :: "cache_env \<Rightarrow> wf_cache \<Rightarrow> step \<Rightarrow> string + second_cache_key" where
  "generateSecondCacheKey e cfg st =
     bindE (getFsScopeModTime e cfg) (\<lambda>fs.
     bindE (getInputArtifactModTime e st) (\<lambda>inArt.
       Inr \<lparr>SkInput = inArt, SkFsScope = fs\<rparr>))"

section \<open>Fingerprints\<close>

definition json_first :: "first_cache_key \<Rightarrow> string" where
  "json_first k =
     json_object
       ([json_field ''DockerEnv'' (json_string (FkDockerEnv k)), json_field ''StepName'' (json_string (FkStepName k)),
         json_field ''Command'' (json_string (FkCommand k))] @
        omit_empty ''Env'' (FkEnv k) @ omit_empty ''Parameters'' (FkParameters k) @
        omit_empty ''InputArtifacts'' (FkInput k) @ omit_empty ''OutputArtifacts'' (FkOutput k))"

definition json_second :: "second_cache_key \<Rightarrow> string" where
  "json_second k =
     json_object (omit_empty ''InputArtifactsModTime'' (SkInput k) @ omit_empty ''FsScopeModTime'' (SkFsScope k))"

definition calculateFingerprint :: "cache_env \<Rightarrow> string \<Rightarrow> string" where
  "calculateFingerprint e formatted = ceSha e formatted"

definition CalculateFirstFingerprint :: "cache_env \<Rightarrow> step \<Rightarrow> string" where
  "CalculateFirstFingerprint e st = calculateFingerprint e (json_first (generateFirstCacheKey st))"

definition CalculateSecondFingerprint :: "cache_env \<Rightarrow> wf_cache \<Rightarrow> step \<Rightarrow> string + string" where
  "CalculateSecondFingerprint e cfg st =
     bindE (generateSecondCacheKey e cfg st) (\<lambda>k. Inr (calculateFingerprint e (json_second k)))"

section \<open>checkCached (step.go)\<close>

definition wrap64 :: "int \<Rightarrow> int" where
  "wrap64 i = (i + 2 ^ 63) mod 2 ^ 64 - 2 ^ 63"

definition Second :: int where "Second = 1000000000"

text \<open>\<open>time.Second * time.Duration(n)\<close> wraps at 64 bits; a text that is no number counts as 0.\<close>

definition cache_valid :: "cache_env \<Rightarrow> cache_row \<Rightarrow> bool" where
  "cache_valid e c =
     (CaExpiredTime c = ''-1'' \<or>
      ceNow e < CaUpdatedAt c + wrap64 (Second * atoi_value (CaExpiredTime c)))"

definition find_cache :: "cache_env \<Rightarrow> string \<Rightarrow> cache_row list \<Rightarrow> cache_row option" where
  "find_cache e secondFp rows = List.find (\<lambda>c. secondFp = CaSecondFp c \<and> cache_valid e c) rows"

text \<open>The fingerprints that are left in the step, and the answer.\<close>

definition checkCached ::
  "cache_env \<Rightarrow> run_faults \<Rightarrow> run_db \<Rightarrow> workflow \<Rightarrow> step \<Rightarrow> (string \<times> string) \<times> cache_answer" where
  "checkCached e flt d w st =
     (let cfg = WCache (WfSource w)
      in case NewFsHandlerWithServer e of
           Inl err \<Rightarrow> ((StFirstFp st, StSecondFp st), CacheErr err)
         | Inr _ \<Rightarrow>
             (let fp1 = CalculateFirstFingerprint e st
              in case ListCacheByFirstFp flt fp1 (mstr (WfExtra w) ''FsID'') (StName st) (mstr (WfExtra w) ''Source'') d of
                   Inl _ \<Rightarrow> ((fp1, StSecondFp st), CacheErr ''list cache failed'')
                 | Inr rows \<Rightarrow>
                     (case CalculateSecondFingerprint e cfg st of
                        Inl err \<Rightarrow> ((fp1, ''''), CacheErr err)
                      | Inr fp2 \<Rightarrow>
                          ((fp1, fp2), if find_cache e fp2 rows \<noteq> None then CacheHit else CacheMiss))))"

section \<open>Reading a key back\<close>

text \<open>After the leading fields, an object is a sequence of optional fields, each with its comma.\<close>

definition opt_field :: "string \<Rightarrow> string gomap \<Rightarrow> string" where
  "opt_field name m = (if m = [] then [] else CHR '','' # json_string name @ CHR '':'' # json_map m)"

definition starts_field :: "string \<Rightarrow> string \<Rightarrow> bool" where
  "starts_field name r = (\<exists>x. r = CHR '','' # json_string name @ x)"

lemma join_with_Cons: "fs \<noteq> [] \<Longrightarrow> join_with c (f # fs) = f @ c # join_with c fs"
  by (cases fs) simp_all

lemma join_with_concat: "join_with c (f # fs) = f @ concat (map ((#) c) fs)"
  by (induction fs arbitrary: f) (simp_all add: join_with_Cons)

lemma concat_omit_empty: "concat (map ((#) CHR '','') (omit_empty name m)) = opt_field name m"
  by (simp add: omit_empty_def opt_field_def json_field_def)

lemma json_map_ne: "m \<noteq> [] \<Longrightarrow> sorted_entries m \<noteq> []"
  by (metis set_empty sorted_entries_set)

lemma sorted_entries_Nil [simp]: "sorted_entries [] = []"
  by (simp add: sorted_entries_def)

lemma starts_field_opt: "starts_field n (opt_field n' m @ r) \<Longrightarrow> n \<noteq> n' \<Longrightarrow> starts_field n r"
  by (auto simp: starts_field_def opt_field_def split: if_splits dest: json_string_read)

lemma starts_field_end [simp]: "\<not> starts_field n [CHR ''}'']"
  by (simp add: starts_field_def)

lemma opt_field_read:
  assumes "opt_field n m @ r = opt_field n m' @ r'" and "\<not> starts_field n r" "\<not> starts_field n r'"
  shows "sorted_entries m = sorted_entries m' \<and> r = r'"
proof (cases "m = [] \<or> m' = []")
  case True
  have "starts_field n (opt_field n x @ y)" if "x \<noteq> []" for x y
    using that by (auto simp: starts_field_def opt_field_def)
  with True assms have "m = []" "m' = []" by (metis append_Nil opt_field_def)+
  with assms(1) show ?thesis by (simp add: opt_field_def)
next
  case False
  then have "json_map m @ r = json_map m' @ r'" using assms(1) by (simp add: opt_field_def)
  then show ?thesis by (rule json_map_read)
qed

definition field_names :: "string list" where
  "field_names = [''Env'', ''Parameters'', ''InputArtifacts'', ''OutputArtifacts'', ''InputArtifactsModTime'', ''FsScopeModTime'']"

lemma json_first_text:
  "json_first k =
     CHR ''{'' # json_field ''DockerEnv'' (json_string (FkDockerEnv k)) @
     CHR '','' # json_field ''StepName'' (json_string (FkStepName k)) @
     CHR '','' # json_field ''Command'' (json_string (FkCommand k)) @
     opt_field ''Env'' (FkEnv k) @ opt_field ''Parameters'' (FkParameters k) @
     opt_field ''InputArtifacts'' (FkInput k) @ opt_field ''OutputArtifacts'' (FkOutput k) @ [CHR ''}'']"
  by (simp add: json_first_def join_with_concat concat_omit_empty)

text \<open>The text of the first key determines every field of it.\<close>

lemma json_first_read:
  assumes "json_first k = json_first k'"
  shows "FkDockerEnv k = FkDockerEnv k' \<and> FkStepName k = FkStepName k' \<and> FkCommand k = FkCommand k' \<and>
     sorted_entries (FkEnv k) = sorted_entries (FkEnv k') \<and>
     sorted_entries (FkParameters k) = sorted_entries (FkParameters k') \<and>
     sorted_entries (FkInput k) = sorted_entries (FkInput k') \<and>
     sorted_entries (FkOutput k) = sorted_entries (FkOutput k')"
proof -
  let ?o = "\<lambda>k. opt_field ''OutputArtifacts'' (FkOutput k) @ [CHR ''}'']"
  let ?i = "\<lambda>k. opt_field ''InputArtifacts'' (FkInput k) @ ?o k"
  let ?p = "\<lambda>k. opt_field ''Parameters'' (FkParameters k) @ ?i k"
  let ?e = "\<lambda>k. opt_field ''Env'' (FkEnv k) @ ?p k"
  have no: "\<not> starts_field ''Env'' (?p k)" "\<not> starts_field ''Parameters'' (?i k)"
    "\<not> starts_field ''InputArtifacts'' (?o k)" for k
    by (auto dest!: starts_field_opt)
  have d: "json_string (FkDockerEnv k) @ CHR '','' # json_field ''StepName'' (json_string (FkStepName k)) @
        CHR '','' # json_field ''Command'' (json_string (FkCommand k)) @ ?e k =
      json_string (FkDockerEnv k') @ CHR '','' # json_field ''StepName'' (json_string (FkStepName k')) @
        CHR '','' # json_field ''Command'' (json_string (FkCommand k')) @ ?e k'"
    using assms by (simp add: json_first_text json_field_def)
  note d1 = json_string_read [OF d]
  then have "json_string (FkStepName k) @ CHR '','' # json_field ''Command'' (json_string (FkCommand k)) @ ?e k =
      json_string (FkStepName k') @ CHR '','' # json_field ''Command'' (json_string (FkCommand k')) @ ?e k'"
    by (simp add: json_field_def)
  note d2 = json_string_read [OF this]
  then have "json_string (FkCommand k) @ ?e k = json_string (FkCommand k') @ ?e k'" by (simp add: json_field_def)
  note d3 = json_string_read [OF this]
  note e = opt_field_read [OF d3 [THEN conjunct2] no(1) no(1)]
  note p = opt_field_read [OF e [THEN conjunct2] no(2) no(2)]
  note i = opt_field_read [OF p [THEN conjunct2] no(3) no(3)]
  note o = opt_field_read [OF i [THEN conjunct2] starts_field_end starts_field_end]
  from d1 d2 d3 e p i o show ?thesis by blast
qed

lemma set_mget: "wf_map m \<Longrightarrow> set m = {p. mget m (fst p) = Some (snd p)}"
  using in_set_mget mget_in_set by fastforce

lemma mget_eq_set: "wf_map m \<Longrightarrow> wf_map m' \<Longrightarrow> mget m = mget m' \<Longrightarrow> set m = set m'"
  by (simp only: set_mget)

lemma sorted_entries_iff:
  assumes "wf_map m" "wf_map m'"
  shows "sorted_entries m = sorted_entries m' \<longleftrightarrow> mget m = mget m'"
proof
  assume "sorted_entries m = sorted_entries m'"
  then have "set m = set m'" by (metis sorted_entries_set)
  then show "mget m = mget m'" using assms unfolding mget_def wf_map_def by (simp add: map_of_inject_set)
next
  assume "mget m = mget m'"
  then show "sorted_entries m = sorted_entries m'"
    by (intro sorted_entries_eq [OF assms(1) _ assms(2)] mget_eq_set [OF assms])
qed

definition same_key :: "first_cache_key \<Rightarrow> first_cache_key \<Rightarrow> bool" where
  "same_key k k' =
     (FkDockerEnv k = FkDockerEnv k' \<and> FkStepName k = FkStepName k' \<and> FkCommand k = FkCommand k' \<and>
      mget (FkEnv k) = mget (FkEnv k') \<and> mget (FkParameters k) = mget (FkParameters k') \<and>
      mget (FkInput k) = mget (FkInput k') \<and> mget (FkOutput k) = mget (FkOutput k'))"

definition wf_job_maps :: "step \<Rightarrow> bool" where
  "wf_job_maps st =
     (wf_map (JbEnv (StJob st)) \<and> wf_map (JbParameters (StJob st)) \<and>
      wf_map (Input (JbArtifacts (StJob st))) \<and> wf_map (Output (JbArtifacts (StJob st))))"

lemma wf_map_filter: "wf_map m \<Longrightarrow> wf_map (filter P m)"
  by (simp add: wf_map_def distinct_map_filter)

lemma wf_first_key:
  assumes "wf_job_maps st" and "k = generateFirstCacheKey st"
  shows "wf_map (FkEnv k)" "wf_map (FkParameters k)" "wf_map (FkInput k)" "wf_map (FkOutput k)"
  using assms by (simp_all add: wf_job_maps_def generateFirstCacheKey_def Let_def wf_map_filter)

lemma empty_sorted_entries: "sorted_entries m = [] \<longleftrightarrow> m = []"
  using json_map_ne [of m] by (cases "m = []") simp_all

lemma opt_field_cong: "sorted_entries m = sorted_entries m' \<Longrightarrow> opt_field n m = opt_field n m'"
  unfolding opt_field_def json_map_def by (metis empty_sorted_entries)

section \<open>Properties\<close>

text \<open>
  C33: The first fingerprint identifies what the step computes: two steps get the same one exactly when
  image, name, command, parameters, artifacts and the environment without the system variables
  agree as maps, whatever the order of the Go maps, unless SHA-256 collides on the two keys.
\<close>

theorem first_fingerprint_exact:
  assumes "wf_job_maps st" and "wf_job_maps st'"
    and "ceSha e (json_first (generateFirstCacheKey st)) = ceSha e (json_first (generateFirstCacheKey st')) \<Longrightarrow>
         json_first (generateFirstCacheKey st) = json_first (generateFirstCacheKey st')"
  shows "CalculateFirstFingerprint e st = CalculateFirstFingerprint e st' \<longleftrightarrow>
     same_key (generateFirstCacheKey st) (generateFirstCacheKey st')"
proof -
  let ?k = "generateFirstCacheKey st" and ?k' = "generateFirstCacheKey st'"
  note wf = wf_first_key [OF assms(1) refl] wf_first_key [OF assms(2) refl]
  note maps = sorted_entries_iff [OF wf(1) wf(5)] sorted_entries_iff [OF wf(2) wf(6)]
    sorted_entries_iff [OF wf(3) wf(7)] sorted_entries_iff [OF wf(4) wf(8)]
  have "CalculateFirstFingerprint e st = CalculateFirstFingerprint e st' \<longleftrightarrow> json_first ?k = json_first ?k'"
    unfolding CalculateFirstFingerprint_def calculateFingerprint_def
    by (rule iffI [OF assms(3)]) (assumption, erule arg_cong)
  also have "\<dots> \<longleftrightarrow> same_key ?k ?k'"
  proof
    assume "json_first ?k = json_first ?k'"
    from json_first_read [OF this] show "same_key ?k ?k'" by (simp add: same_key_def maps)
  next
    assume s: "same_key ?k ?k'"
    then have "sorted_entries (FkEnv ?k) = sorted_entries (FkEnv ?k')" "sorted_entries (FkParameters ?k) = sorted_entries (FkParameters ?k')"
      "sorted_entries (FkInput ?k) = sorted_entries (FkInput ?k')" "sorted_entries (FkOutput ?k) = sorted_entries (FkOutput ?k')"
      by (simp_all add: same_key_def maps)
    note this [THEN opt_field_cong]
    moreover have "FkDockerEnv ?k = FkDockerEnv ?k'" "FkStepName ?k = FkStepName ?k'" "FkCommand ?k = FkCommand ?k'"
      using s by (simp_all add: same_key_def)
    ultimately show "json_first ?k = json_first ?k'" by (simp only: json_first_text)
  qed
  finally show ?thesis .
qed

definition demo_cache_step :: "string gomap \<Rightarrow> string \<Rightarrow> step" where
  "demo_cache_step env runID =
     \<lparr>StName = ''train'', StReady = False, StDone = False, StSubmitted = False,
      StJob = (NewPaddleFlowJob (runID @ ''-train'') ''img'' '''')
        \<lparr>JbCommand := ''run'', JbEnv := (''PF_RUN_ID'', runID) # env\<rparr>,
      StFirstFp = '''', StSecondFp = ''''\<rparr>"

definition demo_cache_env :: cache_env where
  "demo_cache_env = \<lparr>ceConnect = (\<lambda>i. None), ceModTime = (\<lambda>p. Inr 7), ceSha = (\<lambda>x. x), ceNow = 100\<rparr>"

lemma first_fingerprint_exact_witness:
  "CalculateFirstFingerprint demo_cache_env (demo_cache_step [(''A'', ''1''), (''B'', ''2'')] ''run-1'') =
   CalculateFirstFingerprint demo_cache_env (demo_cache_step [(''B'', ''2''), (''A'', ''1'')] ''run-2'')"
proof -
  let ?s = "demo_cache_step [(''A'', ''1''), (''B'', ''2'')] ''run-1''"
  let ?t = "demo_cache_step [(''B'', ''2''), (''A'', ''1'')] ''run-2''"
  have wf: "wf_job_maps ?s" "wf_job_maps ?t"
    by (simp_all add: wf_job_maps_def wf_map_def demo_cache_step_def NewPaddleFlowJob_def)
  have key: "same_key (generateFirstCacheKey ?s) (generateFirstCacheKey ?t)"
    by (simp add: same_key_def generateFirstCacheKey_def demo_cache_step_def NewPaddleFlowJob_def SysParamNameList_def fun_eq_iff)
  have "CalculateFirstFingerprint demo_cache_env ?s = CalculateFirstFingerprint demo_cache_env ?t \<longleftrightarrow>
      same_key (generateFirstCacheKey ?s) (generateFirstCacheKey ?t)"
    by (rule first_fingerprint_exact [OF wf]) (simp add: demo_cache_env_def)
  with key show ?thesis by simp
qed

lemma find_cache_hit:
  "find_cache e fp rows \<noteq> None \<longleftrightarrow> (\<exists>c\<in>set rows. CaSecondFp c = fp \<and> cache_valid e c)"
  by (auto simp: find_cache_def find_None_iff)

lemma checkCached_hit:
  "snd (checkCached e flt d w st) = CacheHit \<longleftrightarrow>
     NewFsHandlerWithServer e = Inr () \<and> \<not> flt RcCacheByFp \<and>
     (\<exists>fp2. CalculateSecondFingerprint e (WCache (WfSource w)) st = Inr fp2 \<and>
       (\<exists>c\<in>set (rdCaches d).
          eq_nonzero (CalculateFirstFingerprint e st) (CaFirstFp c) \<and> eq_nonzero (mstr (WfExtra w) ''FsID'') (CaFsID c) \<and>
          eq_nonzero (StName st) (CaStep c) \<and> eq_nonzero (mstr (WfExtra w) ''Source'') (CaSource c) \<and>
          CaSecondFp c = fp2 \<and> cache_valid e c))"
proof -
  have eq: "snd (checkCached e flt d w st) = CacheHit \<longleftrightarrow>
     NewFsHandlerWithServer e = Inr () \<and>
     (\<exists>rows. ListCacheByFirstFp flt (CalculateFirstFingerprint e st) (mstr (WfExtra w) ''FsID'') (StName st)
         (mstr (WfExtra w) ''Source'') d = Inr rows \<and>
       (\<exists>fp2. CalculateSecondFingerprint e (WCache (WfSource w)) st = Inr fp2 \<and> find_cache e fp2 rows \<noteq> None))"
    by (simp add: checkCached_def Let_def split: sum.split)
  show ?thesis
    unfolding eq find_cache_hit by (auto simp: ListCacheByFirstFp_def ListRunCacheByFirstFp_def)
qed

text \<open>
  A step is taken from the cache exactly when the file system client connects, the cache table can
  be read, the second fingerprint can be computed, and some record of the same first fingerprint,
  file system, step and source has that second fingerprint and has not expired. An empty file
  system or source matches every record.
\<close>

theorem checkCached_hit_iff:
  "snd (checkCached e flt d w st) = CacheHit \<longleftrightarrow>
     NewFsHandlerWithServer e = Inr () \<and> \<not> flt RcCacheByFp \<and>
     (\<exists>fp2. CalculateSecondFingerprint e (WCache (WfSource w)) st = Inr fp2 \<and>
       (\<exists>c\<in>set (rdCaches d).
          eq_nonzero (CalculateFirstFingerprint e st) (CaFirstFp c) \<and> eq_nonzero (mstr (WfExtra w) ''FsID'') (CaFsID c) \<and>
          eq_nonzero (StName st) (CaStep c) \<and> eq_nonzero (mstr (WfExtra w) ''Source'') (CaSource c) \<and>
          CaSecondFp c = fp2 \<and> cache_valid e c))"
  by (rule checkCached_hit)

definition demo_cache_wf :: workflow where
  "demo_cache_wf =
     \<lparr>WfRunID = ''run-1'', WfEntry = '''', WfParams = [], WfExtra = [(''Source'', ''ppl''), (''FsID'', ''fs-1'')],
      WfSource = \<lparr>WName = ''demo'', DockerEnv = ''img'', EntryPoints = [],
        WCache = \<lparr>CEnable = True, MaxExpiredTime = ''-1'', FsScope = ''/data''\<rparr>, Parallelism = 1\<rparr>,
      WfRunSteps = [], WfParallel = 1, WfSteps = []\<rparr>"


text \<open>The step of another run with both fingerprints computed.\<close>

definition demo_logged_step :: step where
  "demo_logged_step = (demo_cache_step [] ''run-1'')
     \<lparr>StFirstFp := CalculateFirstFingerprint demo_cache_env (demo_cache_step [] ''run-1''),
      StSecondFp := projr (CalculateSecondFingerprint demo_cache_env (WCache (WfSource demo_cache_wf)) (demo_cache_step [] ''run-1''))\<rparr>"

text \<open>
  The expiry of a cache record is computed in 64-bit nanoseconds: a record that may be used for \<open>n\<close>
  seconds is used for that long while \<open>n\<close> is at most 9223372036, and from there on the product wraps
  and the record counts as expired some 292 years before it should.
\<close>

lemma cache_expiry_wraps:
  assumes "CaExpiredTime c = itoa n" and "0 \<le> n" and "n \<le> 27670116110"
  shows "cache_valid e c \<longleftrightarrow>
     ceNow e < CaUpdatedAt c + 1000000000 * n - (if 9223372036 < n then 2 ^ 64 else 0)"
proof -
  have a: "atoi_value (itoa n) = n" using assms(2,3) by (simp add: atoi_value_def atoi_itoa)
  have ne: "itoa n \<noteq> ''-1''"
  proof
    assume "itoa n = ''-1''"
    moreover have "atoi ''-1'' = Some (- 1)" by code_simp
    ultimately have "atoi (itoa n) = Some (- 1)" by simp
    then show False using assms(2,3) by (simp add: atoi_itoa)
  qed
  have "wrap64 (Second * n) = 1000000000 * n - (if 9223372036 < n then 2 ^ 64 else 0)"
  proof (cases "9223372036 < n")
    case False
    then have "(1000000000 * n + 2 ^ 63) mod 2 ^ 64 = 1000000000 * n + 2 ^ 63"
      using assms(2) by (intro mod_pos_pos_trivial) simp_all
    then show ?thesis using False by (simp add: wrap64_def Second_def)
  next
    case True
    have "(1000000000 * n + 2 ^ 63) mod 2 ^ 64 = (1000000000 * n + 2 ^ 63 - 2 ^ 64) mod (2 ^ 64 :: int)"
      by (simp only: mod_diff_eq [symmetric, of _ "2 ^ 64"] mod_self diff_0_right mod_mod_trivial)
    also have "\<dots> = 1000000000 * n + 2 ^ 63 - 2 ^ 64"
      using True assms(3) by (intro mod_pos_pos_trivial) simp_all
    finally show ?thesis using True by (simp add: wrap64_def Second_def)
  qed
  then show ?thesis by (simp add: cache_valid_def assms(1) a ne add_diff_eq)
qed






lemma cache_expiry_wraps_witness:
  "\<not> cache_valid demo_cache_env ((logCacheReqToModel (cache_request demo_cache_wf demo_logged_step))
     \<lparr>CaExpiredTime := itoa 9223372037\<rparr>)"
  by (subst cache_expiry_wraps [where n = 9223372037])
    (simp_all add: demo_cache_env_def logCacheReqToModel_def)

end
