(* ===== verification/PF_RunCtl.thy ===== *)
theory PF_RunCtl
  imports PF_Track PF_Runtime
begin

text \<open>
  The run controller (\<open>pkg/apiserver/controller/run/run.go\<close> and \<open>callbacks.go\<close>, with the checks of
  \<open>router/v1/run.go\<close>). Its state \<open>run_sys\<close> is the database, the workflow objects with their runtimes
  (\<open>rsStore\<close>, indexed by address), the map \<open>wfMap\<close> from run IDs to addresses, the tasks handed to the
  image handler, the callbacks it has spawned, and the status writes that \<open>handleImageAndStartWf\<close> still
  has to make: it starts the workflow first and writes \<open>pending\<close> afterwards, and goroutines of the
  workflow run in between. The handlers of the API are functions on that state; those that start
  a workflow end with \<open>finish_writes\<close>. YAML decoding, base64, MD5, file reading and the texts of errors
  are fields of \<open>run_env\<close>, and so are the orders in which Go walks its maps.
\<close>

section \<open>State\<close>

definition RunNotFound :: code where "RunNotFound = ''RunNotFound''"
definition MalformedYaml :: code where "MalformedYaml = ''MalformedYaml''"
definition IOOperationFailure :: code where "IOOperationFailure = ''IOOperationFailure''"

record create_run_request =
  CrFsName :: string
  CrUserName :: string
  CrName :: string
  CrDescription :: string
  CrEntry :: string
  CrParameters :: "pval gomap option"
  CrDockerEnv :: string
  CrRunYamlRaw :: string
  CrPipelineID :: string
  CrRunYamlPath :: string

record run_env =
  reYaml :: "string \<Rightarrow> string + wf_source"
  reBase64 :: "string \<Rightarrow> string + string"
  reMd5 :: "string \<Rightarrow> string"
  reReadFs :: "string \<Rightarrow> string \<Rightarrow> string + string"
  reDecode :: decoder
  reJobCheck :: "timestamp \<Rightarrow> job_check"
  reOrder :: map_order
  reNames :: "string list \<Rightarrow> string list"
  reIter :: "nat \<Rightarrow> string list \<Rightarrow> string list"
  reWfErr :: "workflow_error \<Rightarrow> string"
  reDbErr :: "db_error \<Rightarrow> string"
  reTime :: "timestamp \<Rightarrow> string"

record image_task =
  ItRunID :: string
  ItFsID :: string
  ItDockerEnv :: string
  ItImageIDs :: "string list"

record image_info =
  IiRunID :: string
  IiFsID :: string
  IiSource :: string
  IiImageID :: string
  IiUrl :: string
  IiUrlUpdated :: bool
  IiPFImageID :: string

record run_sys =
  rsDb :: run_db
  rsStore :: "(workflow \<times> rt) list"
  rsMap :: "nat gomap"
  rsTasks :: "image_task list"
  rsImgStopped :: bool
  rsCbs :: "(image_info \<times> string option) list"
  rsWrites :: "(string \<times> string) list"

definition no_run :: run_row where
  "no_run =
     \<lparr>RnPk = 0, RnID = '''', RnName = '''', RnSource = '''', RnUserName = '''', RnFsID = '''', RnFsName = '''',
      RnDescription = '''', RnParam = None, RnRunYaml = '''', RnRuntime = None, RnImageUrl = '''', RnEntry = '''',
      RnMessage = '''', RnStatus = '''', RnCreatedAt = 0, RnActivatedAt = None, RnUpdatedAt = 0\<rparr>"

text \<open>\<open>fs.ID\<close> of \<open>pkg/fs/server/utils/fs\<close>.\<close>

definition fs_ID :: "string \<Rightarrow> string \<Rightarrow> string" where
  "fs_ID userName fsName = ''fs-'' @ userName @ ''-'' @ fsName"

section \<open>Building a workflow\<close>

definition runYamlAndReqToWfs :: "run_env \<Rightarrow> string \<Rightarrow> create_run_request \<Rightarrow> code + wf_source" where
  "runYamlAndReqToWfs e runYaml req =
     (case reYaml e runYaml of
        Inl err \<Rightarrow> Inl MalformedYaml
      | Inr wfs \<Rightarrow>
          (let wfs1 = (if CrName req \<noteq> '''' then wfs\<lparr>WName := CrName req\<rparr> else wfs)
           in Inr (if CrDockerEnv req \<noteq> '''' then wfs1\<lparr>DockerEnv := CrDockerEnv req\<rparr> else wfs1)))"

definition DefaultRunYamlPath :: string where "DefaultRunYamlPath = ''./run.yaml''"

text \<open>The source of a run and its YAML text; a failed decoding and a failed look-up set no code.\<close>

definition run_source_text ::
  "run_env \<Rightarrow> run_faults \<Rightarrow> string \<Rightarrow> create_run_request \<Rightarrow> string \<Rightarrow> run_db \<Rightarrow> code + string \<times> string" where
  "run_source_text e flt user req fsID d =
     (if CrRunYamlRaw req \<noteq> '''' then
        (case reBase64 e (CrRunYamlRaw req) of
           Inl err \<Rightarrow> Inl ''''
         | Inr sDec \<Rightarrow> Inr (reMd5 e sDec, sDec))
      else if CrPipelineID req \<noteq> '''' then
        (case model_GetPipelineByID flt (CrPipelineID req) d of
           Inl err \<Rightarrow> Inl ''''
         | Inr ppl \<Rightarrow>
             if \<not> IsRootUser user \<and> PpUserName ppl \<noteq> user then Inl AccessDenied
             else Inr (PpID ppl, PpYaml ppl))
      else
        (let path = (if CrRunYamlPath req = '''' then DefaultRunYamlPath else CrRunYamlPath req)
         in case reReadFs e fsID path of
              Inl err \<Rightarrow> Inl IOOperationFailure
            | Inr text \<Rightarrow> Inr (path, text)))"

definition buildWorkflowSource ::
  "run_env \<Rightarrow> run_faults \<Rightarrow> string \<Rightarrow> create_run_request \<Rightarrow> string \<Rightarrow> run_db \<Rightarrow> code + wf_source \<times> string \<times> string" where
  "buildWorkflowSource e flt user req fsID d =
     bindE (run_source_text e flt user req fsID d) (\<lambda>(source, runYaml).
     bindE (runYamlAndReqToWfs e runYaml req) (\<lambda>wfs. Inr (wfs, source, runYaml)))"

text \<open>A new object is recorded in \<open>wfMap\<close> only for a run that has an ID.\<close>

definition run_workflow :: "run_env \<Rightarrow> timestamp \<Rightarrow> run_row \<Rightarrow> wf_source \<Rightarrow> workflow_error + workflow" where
  "run_workflow e now run wfs =
     NewWorkflow (reDecode e) (reJobCheck e now) (reOrder e) (reNames e) wfs (RnID run) (RnEntry run)
       (case RnParam run of None \<Rightarrow> [] | Some ps \<Rightarrow> ps)
       [(''Source'', RnSource run), (''FsID'', RnFsID run), (''UserName'', RnUserName run), (''FsName'', RnFsName run)]"

definition store_workflow :: "string \<Rightarrow> workflow \<Rightarrow> run_sys \<Rightarrow> run_sys" where
  "store_workflow rid w s =
     (if rid \<noteq> ''''
      then s\<lparr>rsStore := rsStore s @ [(w, NewWorkflowRuntime w)], rsMap := mput rid (length (rsStore s)) (rsMap s)\<rparr>
      else s\<lparr>rsStore := rsStore s @ [(w, NewWorkflowRuntime w)]\<rparr>)"

definition newWorkflowByRun :: "run_env \<Rightarrow> timestamp \<Rightarrow> run_row \<Rightarrow> wf_source \<Rightarrow> run_sys \<Rightarrow> run_sys \<times> (workflow_error + nat)" where
  "newWorkflowByRun e now run wfs s =
     (case run_workflow e now run wfs of
        Inl err \<Rightarrow> (s, Inl err)
      | Inr w \<Rightarrow> (store_workflow (RnID run) w s, Inr (length (rsStore s))))"

section \<open>Starting a workflow\<close>

definition set_object :: "nat \<Rightarrow> (workflow \<times> rt \<Rightarrow> workflow \<times> rt) \<Rightarrow> run_sys \<Rightarrow> run_sys" where
  "set_object p f s = (if p < length (rsStore s) then s\<lparr>rsStore := (rsStore s)[p := f (rsStore s ! p)]\<rparr> else s)"

definition wf_Start :: "run_env \<Rightarrow> nat \<Rightarrow> run_sys \<Rightarrow> run_sys" where
  "wf_Start e p = set_object p (\<lambda>(w, r). (w, rt_Start (reIter e 0 (keys (rtSteps r))) r))"

text \<open>\<open>SetWorkflowRuntime\<close> and \<open>Restart\<close>. The former reports no error.\<close>

definition wf_Restart :: "run_env \<Rightarrow> runtime_view \<Rightarrow> nat \<Rightarrow> run_sys \<Rightarrow> run_sys" where
  "wf_Restart e view p =
     set_object p (\<lambda>(w, r).
       (let w' = SetWorkflowRuntime view w
        in (w', rt_Restart (reIter e 1 (keys (WfSteps w'))) (reIter e 2 (keys (WfSteps w'))) (r\<lparr>rtSteps := WfSteps w'\<rparr>))))"

definition has_suffix :: "string \<Rightarrow> string \<Rightarrow> bool" where
  "has_suffix s suf = (length suf \<le> length s \<and> drop (length s - length suf) s = suf)"

datatype docker_env_type = TarFile | RegistryUrl

definition classifyEnvType :: "string \<Rightarrow> docker_env_type" where
  "classifyEnvType dockerEnv = (if has_suffix dockerEnv ''.tar'' then TarFile else RegistryUrl)"

definition NeedHandleImage :: "string \<Rightarrow> bool" where
  "NeedHandleImage dockerEnv = (case classifyEnvType dockerEnv of TarFile \<Rightarrow> True | RegistryUrl \<Rightarrow> False)"

text \<open>Handing a task to a stopped image handler panics; the recovery spawns the callback with an
  error. Either way the caller sees success.\<close>

definition blank_info :: "string \<Rightarrow> string \<Rightarrow> string \<Rightarrow> image_info" where
  "blank_info runID fsID source =
     \<lparr>IiRunID = runID, IiFsID = fsID, IiSource = source, IiImageID = '''', IiUrl = '''', IiUrlUpdated = False,
      IiPFImageID = ''''\<rparr>"

definition HandleTarImage :: "image_task \<Rightarrow> run_sys \<Rightarrow> run_sys" where
  "HandleTarImage t s =
     (if rsImgStopped s
      then s\<lparr>rsCbs := rsCbs s @ [(blank_info (ItRunID t) (ItFsID t) (ItDockerEnv t),
                                 Some ''handler tar image failed: send on closed channel'')]\<rparr>
      else s\<lparr>rsTasks := rsTasks s @ [t]\<rparr>)"

definition HandleUrlImage :: "image_task \<Rightarrow> run_sys \<Rightarrow> run_sys" where
  "HandleUrlImage t s =
     s\<lparr>rsCbs := rsCbs s @ [((blank_info (ItRunID t) (ItFsID t) (ItDockerEnv t))\<lparr>IiUrl := ItDockerEnv t\<rparr>, None)]\<rparr>"

definition HandleImage :: "image_task \<Rightarrow> run_sys \<Rightarrow> run_sys" where
  "HandleImage t s =
     (case classifyEnvType (ItDockerEnv t) of TarFile \<Rightarrow> HandleTarImage t s | RegistryUrl \<Rightarrow> HandleUrlImage t s)"

definition updateRunStatusAndMsg ::
  "run_faults \<Rightarrow> int \<Rightarrow> string \<Rightarrow> string \<Rightarrow> string \<Rightarrow> run_sys \<Rightarrow> run_sys \<times> (db_error + unit)" where
  "updateRunStatusAndMsg flt now runID status msg s =
     (case model_UpdateRun flt now runID (no_run\<lparr>RnStatus := status, RnMessage := msg\<rparr>) (rsDb s) of
        Inl err \<Rightarrow> (s, Inl err)
      | Inr d \<Rightarrow> (s\<lparr>rsDb := d\<rparr>, Inr ()))"

text \<open>Up to the start of the workflow; the write that follows is left in \<open>rsWrites\<close>.\<close>

definition handleImageAndStartWf ::
  "run_env \<Rightarrow> run_faults \<Rightarrow> int \<Rightarrow> run_row \<Rightarrow> wf_source \<Rightarrow> bool \<Rightarrow> run_sys \<Rightarrow> run_sys \<times> (db_error + unit)" where
  "handleImageAndStartWf e flt now run wfs isResume s =
     (if \<not> NeedHandleImage (DockerEnv wfs) then
        (case newWorkflowByRun e now run wfs s of
           (s1, Inl err) \<Rightarrow> updateRunStatusAndMsg flt now (RnID run) StatusRunFailed (reWfErr e err) s1
         | (s1, Inr p) \<Rightarrow>
             (let s2 = (if \<not> isResume then wf_Start e p s1
                        else wf_Restart e (case RnRuntime run of None \<Rightarrow> [] | Some v \<Rightarrow> v) p s1)
              in (s2\<lparr>rsWrites := rsWrites s2 @ [(RnID run, DockerEnv wfs)]\<rparr>, Inr ())))
      else
        (case ListImageIDsByFsID flt (RnFsID run) (rsDb s) of
           Inl err \<Rightarrow> updateRunStatusAndMsg flt now (RnID run) StatusRunFailed (reDbErr e err) s
         | Inr imageIDs \<Rightarrow>
             (HandleImage \<lparr>ItRunID = RnID run, ItFsID = RnFsID run, ItDockerEnv = DockerEnv wfs, ItImageIDs = imageIDs\<rparr> s,
              Inr ())))"

text \<open>\<open>models.UpdateRun(run.ID, models.Run{ImageUrl: ..., Status: pending})\<close>.\<close>

definition write_pending :: "run_faults \<Rightarrow> int \<Rightarrow> run_sys \<Rightarrow> run_sys" where
  "write_pending flt now s =
     (case rsWrites s of
        [] \<Rightarrow> s
      | (runID, url) # rest \<Rightarrow>
          (let s1 = s\<lparr>rsWrites := rest\<rparr>
           in case model_UpdateRun flt now runID (no_run\<lparr>RnImageUrl := url, RnStatus := StatusRunPending\<rparr>) (rsDb s) of
                Inl err \<Rightarrow> s1
              | Inr d \<Rightarrow> s1\<lparr>rsDb := d\<rparr>))"

section \<open>The handlers of the API\<close>

text \<open>The row that \<open>CreateRun\<close> prepares. \<open>Encode\<close> cannot fail: the parameters come from JSON.\<close>

definition run_to_create :: "string \<Rightarrow> create_run_request \<Rightarrow> string \<Rightarrow> wf_source \<Rightarrow> string \<Rightarrow> string \<Rightarrow> run_row" where
  "run_to_create user req fsID wfs source runYaml =
     no_run\<lparr>RnName := WName wfs, RnSource := source, RnUserName := user, RnFsName := CrFsName req, RnFsID := fsID,
       RnDescription := CrDescription req, RnParam := CrParameters req, RnRunYaml := runYaml, RnEntry := CrEntry req,
       RnStatus := StatusRunInitiating\<rparr>"

definition request_fs :: "string \<Rightarrow> create_run_request \<Rightarrow> string" where
  "request_fs user req =
     (if IsRootUser user \<and> CrUserName req \<noteq> '''' then fs_ID (CrUserName req) (CrFsName req)
      else fs_ID user (CrFsName req))"

text \<open>What is checked before the row is written: the source, the name and the workflow itself, which is
  built once for an empty run ID. A panic of the construction aborts the request.\<close>

definition prepare_run ::
  "run_env \<Rightarrow> run_faults \<Rightarrow> timestamp \<Rightarrow> string \<Rightarrow> create_run_request \<Rightarrow> run_sys \<Rightarrow> run_sys \<times> (code + run_row)" where
  "prepare_run e flt now user req s =
     (case buildWorkflowSource e flt user req (request_fs user req) (rsDb s) of
        Inl c \<Rightarrow> (s, Inl c)
      | Inr (wfs, source, runYaml) \<Rightarrow>
          if WName wfs \<noteq> '''' \<and> \<not> RegPatternRunName (WName wfs) then (s, Inl InvalidNamePattern)
          else (let run = run_to_create user req (request_fs user req) wfs source runYaml
                in case newWorkflowByRun e now run wfs s of
                     (s1, Inl err) \<Rightarrow> (s1, Inl (if err = ParamError NilDeref then panic_code else MalformedYaml))
                   | (s1, Inr p) \<Rightarrow> (s1, Inr run)))"

definition CreateRun_begin ::
  "run_env \<Rightarrow> run_faults \<Rightarrow> int \<Rightarrow> string \<Rightarrow> create_run_request \<Rightarrow> run_sys \<Rightarrow> run_sys \<times> (code + string)" where
  "CreateRun_begin e flt now user req s =
     (case prepare_run e flt now user req s of
        (s1, Inl c) \<Rightarrow> (s1, Inl c)
      | (s1, Inr run) \<Rightarrow>
          (case model_CreateRun flt now run (rsDb s1) of
             (d, Inl err) \<Rightarrow> (s1\<lparr>rsDb := d\<rparr>, Inl InternalError)
           | (d, Inr run') \<Rightarrow>
               (case runYamlAndReqToWfs e (RnRunYaml run') req of
                  Inl c \<Rightarrow> (s1\<lparr>rsDb := d\<rparr>, Inl c)
                | Inr wfs' \<Rightarrow>
                    (fst (handleImageAndStartWf e flt now run' wfs' False (s1\<lparr>rsDb := d\<rparr>)), Inr (RnID run')))))"

definition CreateRun ::
  "run_env \<Rightarrow> run_faults \<Rightarrow> int \<Rightarrow> string \<Rightarrow> create_run_request \<Rightarrow> run_sys \<Rightarrow> run_sys \<times> (code + string)" where
  "CreateRun e flt now user req s =
     (case CreateRun_begin e flt now user req s of (s1, r) \<Rightarrow> (write_pending flt now s1, r))"

text \<open>The route: the file system must be named and, for users other than root, granted.\<close>

definition createRun ::
  "run_env \<Rightarrow> run_faults \<Rightarrow> faults \<Rightarrow> db \<Rightarrow> int \<Rightarrow> string \<Rightarrow> create_run_request \<Rightarrow> run_sys \<Rightarrow> run_sys \<times> (code + string)" where
  "createRun e flt gflt g now user req s =
     (if CrFsName req = '''' then (s, Inl '''')
      else if \<not> IsRootUser user \<and> \<not> HasAccessToResource gflt user ResourceTypeFs (fs_ID user (CrFsName req)) g
      then (s, Inl AccessDenied)
      else CreateRun e flt now user req s)"

record run_brief =
  BrID :: string
  BrName :: string
  BrSource :: string
  BrUserName :: string
  BrFsName :: string
  BrMessage :: string
  BrStatus :: string
  BrCreateTime :: string
  BrActivateTime :: string

definition modelToListResp :: "run_env \<Rightarrow> run_row \<Rightarrow> run_brief" where
  "modelToListResp e r =
     \<lparr>BrID = RnID r, BrName = RnName r, BrSource = RnSource r, BrUserName = RnUserName r, BrFsName = RnFsName r,
      BrMessage = RnMessage r, BrStatus = RnStatus r, BrCreateTime = reTime e (RnCreatedAt r),
      BrActivateTime = (case RnActivatedAt r of None \<Rightarrow> '''' | Some t \<Rightarrow> reTime e t)\<rparr>"

definition map_page :: "('r \<Rightarrow> 'b) \<Rightarrow> 'c + 'r page \<Rightarrow> 'c + 'b page" where
  "map_page f r = (case r of Inl c \<Rightarrow> Inl c | Inr p \<Rightarrow> Inr \<lparr>PgRows = map f (PgRows p), PgNext = PgNext p\<rparr>)"

definition isLastRunPk :: "run_faults \<Rightarrow> run_db \<Rightarrow> int \<Rightarrow> bool" where
  "isLastRunPk flt d pk = (GetLastRun flt d = pk)"

definition ListRun ::
  "run_env \<Rightarrow> run_faults \<Rightarrow> block_cipher \<Rightarrow> block_cipher \<Rightarrow> string \<Rightarrow> int \<Rightarrow> string list \<Rightarrow> string list \<Rightarrow> string list \<Rightarrow>
   string list \<Rightarrow> run_db \<Rightarrow> string \<Rightarrow> code + run_brief page" where
  "ListRun e flt enc dec user maxKeys userFilter fsFilter runFilter nameFilter d marker =
     map_page (modelToListResp e) (page_result (list_page enc dec RnPk
       (\<lambda>pk. rows_or_nil (model_ListRun flt d (run_keep (user_filter user userFilter) fsFilter runFilter nameFilter) maxKeys pk))
       (GetLastRun flt d) marker))"

text \<open>The query of the route: \<open>maxKeys\<close> between 1 and 1000, 50 by default; comma-separated filters.\<close>

definition DefaultMaxKeys :: int where "DefaultMaxKeys = 50"
definition ListPageMax :: int where "ListPageMax = 1000"

definition query_max_keys :: "string \<Rightarrow> code + int" where
  "query_max_keys limitCustom =
     (if limitCustom = '''' then Inr DefaultMaxKeys
      else case atoi limitCustom of
             None \<Rightarrow> Inl InvalidURI
           | Some n \<Rightarrow> if n \<le> 0 \<or> n > ListPageMax then Inl InvalidURI else Inr n)"

definition query_filter :: "string \<Rightarrow> string list" where
  "query_filter q = (if q \<noteq> '''' then split_on CHR '','' q else [])"

definition listRun ::
  "run_env \<Rightarrow> run_faults \<Rightarrow> block_cipher \<Rightarrow> block_cipher \<Rightarrow> string \<Rightarrow> string \<Rightarrow> string \<Rightarrow> string \<Rightarrow> string \<Rightarrow> string \<Rightarrow>
   run_db \<Rightarrow> string \<Rightarrow> code + run_brief page" where
  "listRun e flt enc dec user limitCustom userNames fsNames runIDs names d marker =
     bindE (query_max_keys limitCustom) (\<lambda>maxKeys.
       ListRun e flt enc dec user maxKeys (query_filter userNames) (query_filter fsNames) (query_filter runIDs)
         (query_filter names) d marker)"

definition GetRunByID :: "run_faults \<Rightarrow> string \<Rightarrow> string \<Rightarrow> run_db \<Rightarrow> code + run_row" where
  "GetRunByID flt user runID d =
     (case model_GetRunByID flt runID d of
        Inl err \<Rightarrow> Inl RunNotFound
      | Inr run \<Rightarrow> if \<not> IsRootUser user \<and> user \<noteq> RnUserName run then Inl AccessDenied else Inr run)"

definition wf_Stop :: "nat \<Rightarrow> run_sys \<Rightarrow> run_sys" where
  "wf_Stop p = set_object p (\<lambda>(w, r). (w, if IsCompleted r then r else stop_write (stop_check r)))"

definition StopRun :: "run_faults \<Rightarrow> int \<Rightarrow> string \<Rightarrow> string \<Rightarrow> run_sys \<Rightarrow> run_sys \<times> (code + unit)" where
  "StopRun flt now user runID s =
     (case GetRunByID flt user runID (rsDb s) of
        Inl c \<Rightarrow> (s, Inl c)
      | Inr run \<Rightarrow>
          if RnStatus run = StatusRunTerminating \<or> IsRunFinalStatus (RnStatus run) then (s, Inl ActionNotAllowed)
          else case mget (rsMap s) runID of
            None \<Rightarrow> (s, Inl InternalError)
          | Some p \<Rightarrow>
              (case model_UpdateRunStatus flt now runID StatusRunTerminating (rsDb s) of
                 Inl err \<Rightarrow> (s, Inl InternalError)
               | Inr d \<Rightarrow> (wf_Stop p (s\<lparr>rsDb := d\<rparr>), Inr ())))"

text \<open>The loop of \<open>resetRunSteps\<close> over the map of job views; a running or terminating job stops it.\<close>

definition reset_view :: "job_view \<Rightarrow> job_view" where
  "reset_view v =
     (if JVStatus v = StatusJobCancelled \<or> JVStatus v = StatusJobFailed \<or> JVStatus v = StatusJobTerminated
      then v\<lparr>JVJobID := '''', JVStatus := StatusJobNone, JVStartTime := '''', JVEndTime := ''''\<rparr> else v)"

definition bad_view :: "job_view \<Rightarrow> bool" where
  "bad_view v = (JVStatus v = StatusJobRunning \<or> JVStatus v = StatusJobTerminating)"

definition reset_views :: "runtime_view \<Rightarrow> code + runtime_view" where
  "reset_views view =
     (if list_ex (\<lambda>(n, v). bad_view v) view then Inl InternalError else Inr (map (\<lambda>(n, v). (n, reset_view v)) view))"

definition resetRunSteps :: "run_faults \<Rightarrow> int \<Rightarrow> run_row \<Rightarrow> run_db \<Rightarrow> code + run_row \<times> run_db" where
  "resetRunSteps flt now run d =
     bindE (case RnRuntime run of None \<Rightarrow> Inr None | Some view \<Rightarrow> bindE (reset_views view) (\<lambda>v. Inr (Some v))) (\<lambda>rt.
       (let run' = run\<lparr>RnRuntime := rt\<rparr>
        in case model_UpdateRun flt now (RnID run) run' d of
             Inl err \<Rightarrow> Inl InternalError
           | Inr d' \<Rightarrow> Inr (run', d')))"

text \<open>The stored image, if there is one, replaces the one of the YAML text. Only a YAML error is returned.\<close>

definition resumeRun :: "run_env \<Rightarrow> run_faults \<Rightarrow> int \<Rightarrow> run_row \<Rightarrow> run_sys \<Rightarrow> run_sys \<times> (string + unit)" where
  "resumeRun e flt now run s =
     (case reYaml e (RnRunYaml run) of
        Inl err \<Rightarrow> (s, Inl err)
      | Inr wfs \<Rightarrow>
          (fst (handleImageAndStartWf e flt now run
                  (if RnImageUrl run \<noteq> '''' then wfs\<lparr>DockerEnv := RnImageUrl run\<rparr> else wfs) True s), Inr ()))"

text \<open>\<open>flt1\<close> holds for the write of the reset steps, \<open>flt2\<close> for what follows.\<close>

definition RetryRun_begin ::
  "run_env \<Rightarrow> run_faults \<Rightarrow> run_faults \<Rightarrow> int \<Rightarrow> string \<Rightarrow> string \<Rightarrow> run_sys \<Rightarrow> run_sys \<times> (code + unit)" where
  "RetryRun_begin e flt1 flt2 now user runID s =
     (case GetRunByID flt1 user runID (rsDb s) of
        Inl c \<Rightarrow> (s, Inl c)
      | Inr run \<Rightarrow>
          if \<not> (RnStatus run = StatusRunFailed \<or> RnStatus run = StatusRunTerminated) then (s, Inl ActionNotAllowed)
          else case resetRunSteps flt1 now run (rsDb s) of
            Inl c \<Rightarrow> (s, Inl c)
          | Inr (run', d) \<Rightarrow> (fst (resumeRun e flt2 now run' (s\<lparr>rsDb := d\<rparr>)), Inr ()))"

definition RetryRun ::
  "run_env \<Rightarrow> run_faults \<Rightarrow> run_faults \<Rightarrow> int \<Rightarrow> string \<Rightarrow> string \<Rightarrow> run_sys \<Rightarrow> run_sys \<times> (code + unit)" where
  "RetryRun e flt1 flt2 now user runID s =
     (case RetryRun_begin e flt1 flt2 now user runID s of (s1, r) \<Rightarrow> (write_pending flt2 now s1, r))"

definition updateRun ::
  "run_env \<Rightarrow> run_faults \<Rightarrow> run_faults \<Rightarrow> int \<Rightarrow> string \<Rightarrow> string \<Rightarrow> string \<Rightarrow> run_sys \<Rightarrow> run_sys \<times> (code + unit)" where
  "updateRun e flt1 flt2 now user action runID s =
     (if action = ''stop'' then StopRun flt1 now user runID s
      else if action = ''retry'' then RetryRun e flt1 flt2 now user runID s
      else (s, Inl InvalidURI))"

definition DeleteRun :: "run_faults \<Rightarrow> string \<Rightarrow> string \<Rightarrow> run_sys \<Rightarrow> run_sys \<times> (code + unit)" where
  "DeleteRun flt user runID s =
     (case model_GetRunByID flt runID (rsDb s) of
        Inl err \<Rightarrow> (s, Inl (if err = RecordNotFound then RunNotFound else InternalError))
      | Inr run \<Rightarrow>
          if \<not> IsRootUser user \<and> user \<noteq> RnUserName run then (s, Inl AccessDenied)
          else if \<not> IsRunFinalStatus (RnStatus run) then (s, Inl ActionNotAllowed)
          else (case model_DeleteRun flt runID (rsDb s) of
                  Inl err \<Rightarrow> (s, Inl InternalError)
                | Inr d \<Rightarrow> (s\<lparr>rsDb := d\<rparr>, Inr ())))"

section \<open>Callbacks (callbacks.go)\<close>

text \<open>An event as the callback receives it; \<open>None\<close> is a value of another type.\<close>

record callback_event =
  CbEvent :: wf_event_value
  CbRunID :: string
  CbStatus :: string
  CbRuntime :: "runtime_view option"
  CbMessage :: string

definition drop_finished :: "string \<Rightarrow> string \<Rightarrow> run_sys \<Rightarrow> run_sys" where
  "drop_finished rid status s = (if IsRunFinalStatus status then s\<lparr>rsMap := mdel rid (rsMap s)\<rparr> else s)"

text \<open>The columns an event writes: only the first message of a run is kept, and the run counts as
  activated when it leaves \<open>pending\<close>.\<close>

definition event_row :: "int \<Rightarrow> string \<Rightarrow> runtime_view \<Rightarrow> string \<Rightarrow> run_row \<Rightarrow> run_row" where
  "event_row now status view message prevRun =
     no_run\<lparr>RnStatus := status, RnRuntime := Some view,
       RnMessage := (if RnMessage prevRun \<noteq> '''' then '''' else message),
       RnActivatedAt := (if RnStatus prevRun = StatusRunPending then Some now else None)\<rparr>"

definition UpdateRunByWfEvent ::
  "run_faults \<Rightarrow> int \<Rightarrow> string \<Rightarrow> callback_event option \<Rightarrow> run_sys \<Rightarrow> run_sys \<times> bool" where
  "UpdateRunByWfEvent flt now rid event s =
     (case event of
        None \<Rightarrow> (s, False)
      | Some ev \<Rightarrow>
          if CbEvent ev \<noteq> WfEventRunUpdate then (s, False)
          else if rid \<noteq> CbRunID ev then (s, False)
          else
            (let s1 = drop_finished rid (CbStatus ev) s
             in case CbRuntime ev of
                  None \<Rightarrow> (s1, False)
                | Some view \<Rightarrow>
                    (case model_GetRunByID flt rid (rsDb s1) of
                       Inl err \<Rightarrow> (s1, False)
                     | Inr prevRun \<Rightarrow>
                         (case model_UpdateRun flt now rid (event_row now (CbStatus ev) view (CbMessage ev) prevRun) (rsDb s1) of
                            Inl err \<Rightarrow> (s1, False)
                          | Inr d \<Rightarrow> (s1\<lparr>rsDb := d\<rparr>, True)))))"

text \<open>What the runtime of a workflow sends.\<close>

definition engine_event :: "workflow \<Rightarrow> run_event \<Rightarrow> callback_event" where
  "engine_event w ev =
     \<lparr>CbEvent = WfEventRunUpdate, CbRunID = WfRunID w, CbStatus = RuStatus ev, CbRuntime = Some (RuView ev),
      CbMessage = RuMessage ev\<rparr>"

definition startWfWithImageUrl ::
  "run_env \<Rightarrow> run_faults \<Rightarrow> int \<Rightarrow> string \<Rightarrow> string \<Rightarrow> run_sys \<Rightarrow> run_sys" where
  "startWfWithImageUrl e flt now runID imageUrl s =
     (case model_GetRunByID flt runID (rsDb s) of
        Inl err \<Rightarrow> fst (updateRunStatusAndMsg flt now runID StatusRunFailed (reDbErr e err) s)
      | Inr run \<Rightarrow>
          (case reYaml e (RnRunYaml run) of
             Inl err \<Rightarrow> fst (updateRunStatusAndMsg flt now runID StatusRunFailed err s)
           | Inr wfs \<Rightarrow>
               (case newWorkflowByRun e now run (wfs\<lparr>DockerEnv := imageUrl\<rparr>) s of
                  (s1, Inl err) \<Rightarrow> fst (updateRunStatusAndMsg flt now runID StatusRunFailed (reWfErr e err) s1)
                | (s1, Inr p) \<Rightarrow>
                    (let s2 = wf_Start e p s1 in s2\<lparr>rsWrites := rsWrites s2 @ [(RnID run, imageUrl)]\<rparr>))))"

text \<open>\<open>GetImage\<close> never reports a missing row, so \<open>CreateImage\<close> is reached for no image.\<close>

definition record_image :: "run_faults \<Rightarrow> image_info \<Rightarrow> string \<Rightarrow> run_db \<Rightarrow> run_db" where
  "record_image flt info imageUrl d =
     (let image = \<lparr>ImPk = 0, ImID = IiPFImageID info, ImImageID = IiImageID info, ImFsID = IiFsID info,
                   ImSource = IiSource info, ImUrl = imageUrl\<rparr>
      in case GetImage flt (IiPFImageID info) d of
           Inl err \<Rightarrow> if err = RecordNotFound then fst (CreateImage flt image d) else d
         | Inr _ \<Rightarrow> (case UpdateImage flt (IiPFImageID info) image d of Inl err \<Rightarrow> d | Inr d' \<Rightarrow> d'))"

definition on_db :: "(run_db \<Rightarrow> run_db) \<Rightarrow> run_sys \<Rightarrow> run_sys" where
  "on_db f s = s\<lparr>rsDb := f (rsDb s)\<rparr>"

definition handleImageCallbackFunc ::
  "run_env \<Rightarrow> run_faults \<Rightarrow> int \<Rightarrow> image_info \<Rightarrow> string option \<Rightarrow> run_sys \<Rightarrow> run_sys" where
  "handleImageCallbackFunc e flt now info err s =
     (case err of
        Some msg \<Rightarrow> fst (updateRunStatusAndMsg flt now (IiRunID info) StatusRunFailed msg s)
      | None \<Rightarrow>
          (case (if IiUrl info = '''' then GetUrlByPFImageID flt (IiPFImageID info) (rsDb s) else Inr (IiUrl info)) of
             Inl dberr \<Rightarrow> fst (updateRunStatusAndMsg flt now (IiRunID info) StatusRunFailed (reDbErr e dberr) s)
           | Inr imageUrl \<Rightarrow>
               (let s1 = startWfWithImageUrl e flt now (IiRunID info) imageUrl s
                in if IiUrlUpdated info then on_db (record_image flt info imageUrl) s1 else s1)))"

text \<open>\<open>resumeActiveRuns\<close> after a restart of the server, run by run.\<close>

definition resumeActiveRuns ::
  "run_env \<Rightarrow> (nat \<Rightarrow> run_faults) \<Rightarrow> int \<Rightarrow> run_sys \<Rightarrow> run_sys" where
  "resumeActiveRuns e flts now s =
     (case ListRunsByStatus (flts 0) RunActiveStatus (rsDb s) of
        Inl err \<Rightarrow> s
      | Inr runs \<Rightarrow>
          snd (fold (\<lambda>run (i, s1). (i + 1, write_pending (flts i) now (fst (resumeRun e (flts i) now run s1))))
                 runs (1, s)))"

section \<open>The system\<close>

text \<open>
  The controller and the engines together. \<open>REngine p a\<close> is one action of the runtime of object \<open>p\<close>;
  if it calls back, \<open>UpdateRunByWfEvent\<close> is tried up to three times (\<open>flts 0\<close>, \<open>flts 1\<close>, \<open>flts 2\<close>) with
  the new event. Steps record caches and artifacts through the callbacks of \<open>PF_Track\<close>; these calls
  are not replayed here.
\<close>

fun try_update :: "nat \<Rightarrow> nat \<Rightarrow> (nat \<Rightarrow> run_faults) \<Rightarrow> int \<Rightarrow> string \<Rightarrow> callback_event \<Rightarrow> run_sys \<Rightarrow> run_sys" where
  "try_update 0 i flts now rid ev s = s"
| "try_update (Suc n) i flts now rid ev s =
     (case UpdateRunByWfEvent (flts i) now rid (Some ev) s of
        (s1, ok) \<Rightarrow> if ok then s1 else try_update n (i + 1) flts now rid ev s1)"

definition engine_answers :: "(nat \<Rightarrow> run_faults) \<Rightarrow> int \<Rightarrow> workflow \<Rightarrow> run_sys \<Rightarrow> rt_env \<Rightarrow> rt_env" where
  "engine_answers flts now w s re =
     re\<lparr>reUpdateRun := (\<lambda>ev i. snd (UpdateRunByWfEvent (flts i) now (WfRunID w) (Some (engine_event w ev)) s))\<rparr>"

definition engine_step :: "rt_env \<Rightarrow> (nat \<Rightarrow> run_faults) \<Rightarrow> int \<Rightarrow> nat \<Rightarrow> act \<Rightarrow> run_sys \<Rightarrow> run_sys option" where
  "engine_step re flts now p a s =
     (if p < length (rsStore s) then
        (case rsStore s ! p of
           (w, r) \<Rightarrow>
             (case act (engine_answers flts now w s re) w a r of
                None \<Rightarrow> None
              | Some r' \<Rightarrow>
                  (let s1 = s\<lparr>rsStore := (rsStore s)[p := (w, r')]\<rparr>
                   in Some (case drop (length (rtCalls r)) (rtCalls r') of
                              [] \<Rightarrow> s1
                            | ev # _ \<Rightarrow> try_update 3 0 flts now (WfRunID w) (engine_event w ev) s1))))
      else None)"

datatype run_act =
    RCreate string create_run_request
  | RStop string string
  | RRetry string string
  | RDelete string string
  | RWrite
  | RImageDone image_info "string option"
  | RCallback
  | REngine nat act

text \<open>The faults and the time of a step are part of it.\<close>

definition run_step :: "run_env \<Rightarrow> rt_env \<Rightarrow> (nat \<Rightarrow> run_faults) \<times> int \<times> run_act \<Rightarrow> run_sys \<Rightarrow> run_sys option" where
  "run_step e re step s =
     (case step of
        (flts, now, a) \<Rightarrow>
          (case a of
             RCreate user req \<Rightarrow> Some (fst (CreateRun_begin e (flts 0) now user req s))
           | RStop user rid \<Rightarrow> Some (fst (StopRun (flts 0) now user rid s))
           | RRetry user rid \<Rightarrow> Some (fst (RetryRun_begin e (flts 0) (flts 1) now user rid s))
           | RDelete user rid \<Rightarrow> Some (fst (DeleteRun (flts 0) user rid s))
           | RWrite \<Rightarrow> if rsWrites s = [] then None else Some (write_pending (flts 0) now s)
           | RImageDone info err \<Rightarrow> Some (s\<lparr>rsCbs := rsCbs s @ [(info, err)]\<rparr>)
           | RCallback \<Rightarrow>
               (case rsCbs s of
                  [] \<Rightarrow> None
                | (info, err) # rest \<Rightarrow> Some (handleImageCallbackFunc e (flts 0) now info err (s\<lparr>rsCbs := rest\<rparr>)))
           | REngine p ea \<Rightarrow> engine_step re flts now p ea s))"

section \<open>The invariant of the service\<close>

text \<open>The tables are well-formed, and every entry of \<open>wfMap\<close> points to an object of its own run.\<close>

definition sys_ok :: "run_sys \<Rightarrow> bool" where
  "sys_ok s =
     (run_db_ok (rsDb s) \<and>
      (\<forall>rid p. mget (rsMap s) rid = Some p \<longrightarrow> p < length (rsStore s) \<and> WfRunID (fst (rsStore s ! p)) = rid))"

lemma updateJob_runID: "updateJob dec n job w = Inr (j, w') \<Longrightarrow> WfRunID w' = WfRunID w"
  by (auto simp: updateJob_def bindE_eq_Inr Let_def split: option.splits)

lemma NewStep_runID: "NewStep dec vj n w = Inr (st, w') \<Longrightarrow> WfRunID w' = WfRunID w"
proof -
  assume "NewStep dec vj n w = Inr (st, w')"
  then obtain job j w1 where u: "updateJob dec n job w = Inr (j, w1)"
    and v: "(case vj j of Inl e \<Rightarrow> Inl (StepJobError e)
        | Inr _ \<Rightarrow> Inr (\<lparr>StName = n, StReady = False, StDone = False, StSubmitted = False, StJob = j,
                         StFirstFp = '''', StSecondFp = ''''\<rparr>, w1)) = Inr (st, w')"
    by (auto simp: NewStep_def bindE_eq_Inr split: option.splits)
  from v have "w' = w1" by (cases "vj j") simp_all
  with updateJob_runID [OF u] show ?thesis by simp
qed

lemma add_step_runID: "add_step dec vj n w = Inr w' \<Longrightarrow> WfRunID w' = WfRunID w"
  by (auto simp: add_step_def bindE_eq_Inr Let_def split: option.splits if_splits dest: NewStep_runID)

lemma foldE_runID:
  assumes "foldE (add_step dec vj) ns w = Inr w'"
  shows "WfRunID w' = WfRunID w"
proof (rule foldE_inv [OF assms])
  show "WfRunID w'' = WfRunID w" if "WfRunID w1 = WfRunID w" "add_step dec vj n w1 = Inr w''" for n w1 w''
    using that add_step_runID by simp
qed simp

lemma NewWorkflow_runID:
  assumes "NewWorkflow dec vj ord ordS source rid entry params extra = Inr w"
  shows "WfRunID w = rid"
proof -
  obtain w0 w1 where 0: "NewBaseWorkflow source rid entry params extra = Inr w0"
    and 1: "validate dec ord ordS w0 = Inr w1" and 2: "newWorkflowRuntime dec vj ord w1 = Inr w"
    using assms by (auto simp: NewWorkflow_def bindE_eq_Inr)
  from 2 have "WfRunID w = WfRunID w1"
    by (auto simp: newWorkflowRuntime_def Let_def bindE_eq_Inr dest: foldE_runID)
  with validate_runID [OF 1] NewBaseWorkflow_Inr(4) [OF 0] show ?thesis by simp
qed

lemma SetWorkflowRuntime_runID [simp]: "WfRunID (SetWorkflowRuntime view w) = WfRunID w"
  by (simp add: SetWorkflowRuntime_def)

section \<open>Operations on one run\<close>

text \<open>\<open>touches rid s s'\<close>: no run appears, disappears or changes its owner, all runs but \<open>rid\<close> keep their row
  and their entry in \<open>wfMap\<close>, and the only old object that may change is the one \<open>wfMap\<close> has for \<open>rid\<close>.\<close>

definition owners :: "run_sys \<Rightarrow> (string \<times> string) list" where
  "owners s = map (\<lambda>r. (RnID r, RnUserName r)) (rdRuns (rsDb s))"

definition same_other_rows :: "string \<Rightarrow> run_sys \<Rightarrow> run_sys \<Rightarrow> bool" where
  "same_other_rows rid s s' =
     (filter (\<lambda>r. RnID r \<noteq> rid) (rdRuns (rsDb s')) = filter (\<lambda>r. RnID r \<noteq> rid) (rdRuns (rsDb s)))"

definition same_other_objects :: "string \<Rightarrow> run_sys \<Rightarrow> run_sys \<Rightarrow> bool" where
  "same_other_objects rid s s' =
     (length (rsStore s) \<le> length (rsStore s') \<and>
      (\<forall>p < length (rsStore s). mget (rsMap s) rid \<noteq> Some p \<longrightarrow> rsStore s' ! p = rsStore s ! p) \<and>
      (\<forall>q. mget (rsMap s') rid = Some q \<longrightarrow> mget (rsMap s) rid = Some q \<or> length (rsStore s) \<le> q) \<and>
      (\<forall>rid'. rid' \<noteq> rid \<longrightarrow> mget (rsMap s') rid' = mget (rsMap s) rid'))"

definition touches :: "string \<Rightarrow> run_sys \<Rightarrow> run_sys \<Rightarrow> bool" where
  "touches rid s s' =
     (owners s' = owners s \<and> same_other_rows rid s s' \<and> same_other_objects rid s s' \<and> (sys_ok s \<longrightarrow> sys_ok s'))"

lemma touches_refl [simp]: "touches rid s s"
  by (simp add: touches_def same_other_rows_def same_other_objects_def)

lemma touches_trans: "touches rid s s1 \<Longrightarrow> touches rid s1 s2 \<Longrightarrow> touches rid s s2"
proof -
  assume 1: "touches rid s s1" and 2: "touches rid s1 s2"
  have "same_other_objects rid s s2"
    unfolding same_other_objects_def
  proof (intro conjI allI impI)
    have a: "same_other_objects rid s s1" and b: "same_other_objects rid s1 s2"
      using 1 2 by (simp_all add: touches_def)
    show "length (rsStore s) \<le> length (rsStore s2)" using a b by (simp add: same_other_objects_def)
    show "mget (rsMap s2) i = mget (rsMap s) i" if "i \<noteq> rid" for i
      using a b that by (simp add: same_other_objects_def)
    show "mget (rsMap s) rid = Some q \<or> length (rsStore s) \<le> q" if "mget (rsMap s2) rid = Some q" for q
      using a b that unfolding same_other_objects_def by (meson le_trans)
    show "rsStore s2 ! p = rsStore s ! p" if "p < length (rsStore s)" "mget (rsMap s) rid \<noteq> Some p" for p
    proof -
      have "mget (rsMap s1) rid \<noteq> Some p" using a that unfolding same_other_objects_def by (meson not_le)
      moreover have "p < length (rsStore s1)" using a that(1) by (simp add: same_other_objects_def)
      ultimately have "rsStore s2 ! p = rsStore s1 ! p" using b by (simp add: same_other_objects_def)
      also have "\<dots> = rsStore s ! p" using a that by (simp add: same_other_objects_def)
      finally show ?thesis .
    qed
  qed
  with 1 2 show ?thesis by (simp add: touches_def same_other_rows_def)
qed

text \<open>Fields that are not part of it.\<close>

lemma touches_frame:
  "touches rid s s' \<Longrightarrow> rsDb s'' = rsDb s' \<Longrightarrow> rsStore s'' = rsStore s' \<Longrightarrow> rsMap s'' = rsMap s' \<Longrightarrow> touches rid s s''"
  by (simp add: touches_def owners_def same_other_rows_def same_other_objects_def sys_ok_def)

lemma touches_same:
  "rsDb s' = rsDb s \<Longrightarrow> rsStore s' = rsStore s \<Longrightarrow> rsMap s' = rsMap s \<Longrightarrow> touches rid s s'"
  by (rule touches_frame [OF touches_refl])

lemma filter_map_if:
  "(\<And>r. ident (f r) = ident r) \<Longrightarrow>
     filter (\<lambda>r. ident r \<noteq> i) (map (\<lambda>r. if ident r = i then f r else r) xs) = filter (\<lambda>r. ident r \<noteq> i) xs"
  by (induction xs) auto

lemma touches_UpdateRun:
  assumes u: "model_UpdateRun flt now rid u (rsDb s) = Inr d" and i: "RnID u \<in> {'''', rid}"
    and o: "\<And>r. r \<in> set (rdRuns (rsDb s)) \<Longrightarrow> RnID r = rid \<Longrightarrow> RnUserName u \<in> {'''', RnUserName r}"
  shows "touches rid s (s\<lparr>rsDb := d\<rparr>)"
proof -
  let ?f = "\<lambda>r. if RnID r = rid then run_updates now u r else r"
  have d: "d = (rsDb s)\<lparr>rdRuns := map ?f (rdRuns (rsDb s))\<rparr>"
    using u by (simp add: model_UpdateRun_def split: if_splits)
  have ids: "RnID (run_updates now u r) = RnID r" if "RnID r = rid" for r
    using i that by (auto simp: run_updates_def new_or_def)
  have "owners (s\<lparr>rsDb := d\<rparr>) = owners s"
    using ids o by (auto simp: owners_def d run_updates_def new_or_def)
  moreover have "filter (\<lambda>r. RnID r \<noteq> rid) (map ?f rs) = filter (\<lambda>r. RnID r \<noteq> rid) rs" for rs
    by (induction rs) (use ids in auto)
  then have "same_other_rows rid s (s\<lparr>rsDb := d\<rparr>)" by (simp add: same_other_rows_def d)
  moreover have "sys_ok (s\<lparr>rsDb := d\<rparr>)" if "sys_ok s"
    using that run_db_ok_UpdateRun [OF _ i u] by (simp add: sys_ok_def)
  ultimately show ?thesis by (simp add: touches_def same_other_objects_def)
qed

lemma touches_UpdateRunStatus:
  assumes u: "model_UpdateRunStatus flt now rid st (rsDb s) = Inr d"
  shows "touches rid s (s\<lparr>rsDb := d\<rparr>)"
proof -
  let ?f = "\<lambda>r. if RnID r = rid then r\<lparr>RnStatus := st, RnUpdatedAt := now\<rparr> else r"
  have d: "d = (rsDb s)\<lparr>rdRuns := map ?f (rdRuns (rsDb s))\<rparr>"
    using u by (simp add: model_UpdateRunStatus_def split: if_splits)
  have "filter (\<lambda>r. RnID r \<noteq> rid) (map ?f rs) = filter (\<lambda>r. RnID r \<noteq> rid) rs" for rs
    by (induction rs) auto
  then have "same_other_rows rid s (s\<lparr>rsDb := d\<rparr>)" by (simp add: same_other_rows_def d)
  moreover have "owners (s\<lparr>rsDb := d\<rparr>) = owners s" by (simp add: owners_def d)
  moreover have "sys_ok (s\<lparr>rsDb := d\<rparr>)" if "sys_ok s"
    using that run_db_ok_UpdateRunStatus [OF _ u] by (simp add: sys_ok_def)
  ultimately show ?thesis by (simp add: touches_def same_other_objects_def)
qed

lemma touches_set_object:
  assumes "mget (rsMap s) rid = Some p" and "\<And>w r. WfRunID (fst (f (w, r))) = WfRunID w"
  shows "touches rid s (set_object p f s)"
proof -
  have "WfRunID (fst (f x)) = WfRunID (fst x)" for x using assms(2) by (cases x) simp
  then have ok: "sys_ok (set_object p f s)" if "sys_ok s"
    using that by (simp add: set_object_def sys_ok_def nth_list_update)
  have "same_other_objects rid s (set_object p f s)"
    using assms(1) by (simp add: set_object_def same_other_objects_def nth_list_update)
  with ok show ?thesis by (simp add: touches_def owners_def same_other_rows_def set_object_def)
qed

lemma newWorkflowByRun_Inr:
  assumes "newWorkflowByRun e now run wfs s = (s', Inr p)"
  shows "touches (RnID run) s s'" and "RnID run \<noteq> '''' \<longrightarrow> mget (rsMap s') (RnID run) = Some p"
    and "rsDb s' = rsDb s" "RnID run = '''' \<longrightarrow> rsMap s' = rsMap s"
proof -
  obtain w where w: "run_workflow e now run wfs = Inr w" and s': "s' = store_workflow (RnID run) w s"
    and p: "p = length (rsStore s)"
    using assms by (auto simp: newWorkflowByRun_def split: sum.splits)
  have i: "WfRunID w = RnID run" using w unfolding run_workflow_def by (rule NewWorkflow_runID)
  have ok: "sys_ok s'" if "sys_ok s"
    using that i unfolding s' by (simp add: sys_ok_def store_workflow_def nth_append less_Suc_eq)
  have "same_other_objects (RnID run) s s'"
    unfolding s' store_workflow_def by (simp add: same_other_objects_def nth_append)
  with ok show "touches (RnID run) s s'"
    by (simp add: touches_def owners_def same_other_rows_def s' store_workflow_def)
  show "RnID run \<noteq> '''' \<longrightarrow> mget (rsMap s') (RnID run) = Some p" "rsDb s' = rsDb s" "RnID run = '''' \<longrightarrow> rsMap s' = rsMap s"
    by (simp_all add: s' p store_workflow_def)
qed

lemma newWorkflowByRun_Inl: "newWorkflowByRun e now run wfs s = (s', Inl err) \<Longrightarrow> s' = s"
  by (auto simp: newWorkflowByRun_def split: sum.splits)

lemma newWorkflowByRun_db: "newWorkflowByRun e now run wfs s = (s', r) \<Longrightarrow> rsDb s' = rsDb s"
  by (auto simp: newWorkflowByRun_def store_workflow_def split: sum.splits)

lemma touches_updateRunStatusAndMsg: "touches rid s (fst (updateRunStatusAndMsg flt now rid status msg s))"
proof (cases "model_UpdateRun flt now rid (no_run\<lparr>RnStatus := status, RnMessage := msg\<rparr>) (rsDb s)")
  case (Inr d)
  have "touches rid s (s\<lparr>rsDb := d\<rparr>)" by (rule touches_UpdateRun [OF Inr]) (simp_all add: no_run_def)
  with Inr show ?thesis by (simp add: updateRunStatusAndMsg_def)
qed (simp add: updateRunStatusAndMsg_def)

lemma touches_wf_Start: "mget (rsMap s) rid = Some p \<Longrightarrow> touches rid s (wf_Start e p s)"
  unfolding wf_Start_def by (rule touches_set_object) simp_all

lemma touches_wf_Restart: "mget (rsMap s) rid = Some p \<Longrightarrow> touches rid s (wf_Restart e view p s)"
  unfolding wf_Restart_def by (rule touches_set_object) (simp_all add: Let_def)

lemma touches_wf_Stop: "mget (rsMap s) rid = Some p \<Longrightarrow> touches rid s (wf_Stop p s)"
  unfolding wf_Stop_def by (rule touches_set_object) simp_all

lemma touches_HandleImage: "touches rid s (HandleImage t s)"
  by (rule touches_same)
    (simp_all add: HandleImage_def HandleTarImage_def HandleUrlImage_def split: docker_env_type.split)

lemma touches_handleImageAndStartWf:
  assumes "RnID run \<noteq> ''''"
  shows "touches (RnID run) s (fst (handleImageAndStartWf e flt now run wfs isResume s))"
proof (cases "NeedHandleImage (DockerEnv wfs)")
  case True
  then show ?thesis
    by (simp add: handleImageAndStartWf_def touches_updateRunStatusAndMsg touches_HandleImage split: sum.split)
next
  case False
  obtain s1 r where n: "newWorkflowByRun e now run wfs s = (s1, r)" by fastforce
  show ?thesis
  proof (cases r)
    case (Inl err)
    with n have "s1 = s" by (simp add: newWorkflowByRun_Inl)
    with False n Inl show ?thesis by (simp add: handleImageAndStartWf_def touches_updateRunStatusAndMsg)
  next
    case (Inr p)
    note new = newWorkflowByRun_Inr [OF n [unfolded Inr]]
    have p: "mget (rsMap s1) (RnID run) = Some p" using new(2) assms by simp
    have "touches (RnID run) s (if \<not> isResume then wf_Start e p s1
        else wf_Restart e (case RnRuntime run of None \<Rightarrow> [] | Some v \<Rightarrow> v) p s1)" (is "touches _ _ ?s2")
      using touches_trans [OF new(1) touches_wf_Start [OF p]] touches_trans [OF new(1) touches_wf_Restart [OF p]] by simp
    then have "touches (RnID run) s (?s2\<lparr>rsWrites := rsWrites ?s2 @ [(RnID run, DockerEnv wfs)]\<rparr>)"
      by (rule touches_frame) simp_all
    with False n Inr show ?thesis by (simp add: handleImageAndStartWf_def Let_def)
  qed
qed

text \<open>The row that a look-up by ID finds.\<close>

lemma GetRun_row:
  "model_GetRunByID flt rid d = Inr run \<Longrightarrow> run \<in> set (rdRuns d) \<and> RnID run = rid"
  by (auto simp: model_GetRunByID_def split: if_splits dest: first_row_Inr)

lemma GetRunByID_row:
  "GetRunByID flt user rid d = Inr run \<Longrightarrow> run \<in> set (rdRuns d) \<and> RnID run = rid \<and> owns user (RnUserName run)"
  by (auto simp: GetRunByID_def owns_def split: sum.splits if_splits dest: GetRun_row)

lemma sys_ok_ids: "sys_ok s \<Longrightarrow> run \<in> set (rdRuns (rsDb s)) \<Longrightarrow> RnID run \<noteq> ''''"
  by (auto simp: sys_ok_def run_db_ok_def id_table_def PrefixRun_def)

lemma sys_ok_unique:
  "sys_ok s \<Longrightarrow> r \<in> set (rdRuns (rsDb s)) \<Longrightarrow> r' \<in> set (rdRuns (rsDb s)) \<Longrightarrow> RnID r = RnID r' \<Longrightarrow> r = r'"
  unfolding sys_ok_def run_db_ok_def by (elim conjE) (rule id_table_unique [OF auto_table_pk])

lemma touches_StopRun: "touches rid s (fst (StopRun flt now user rid s))"
proof -
  have "touches rid s (wf_Stop p (s\<lparr>rsDb := d\<rparr>))"
    if "mget (rsMap s) rid = Some p" "model_UpdateRunStatus flt now rid StatusRunTerminating (rsDb s) = Inr d" for p d
    by (rule touches_trans [OF touches_UpdateRunStatus [OF that(2)] touches_wf_Stop]) (simp add: that(1))
  then show ?thesis by (simp add: StopRun_def split: sum.split option.split)
qed

lemma touches_resumeRun:
  "RnID run \<noteq> '''' \<Longrightarrow> touches (RnID run) s (fst (resumeRun e flt now run s))"
  by (simp add: resumeRun_def touches_handleImageAndStartWf split: sum.split)

lemma case_sum_Inr: "(case x of Inl e \<Rightarrow> Inl (g e) | Inr v \<Rightarrow> Inr (f v)) = Inr y \<longleftrightarrow> (\<exists>v. x = Inr v \<and> y = f v)"
  by (cases x) auto

lemma resetRunSteps_Inr:
  assumes "resetRunSteps flt now run d = Inr (run', d')"
  shows "model_UpdateRun flt now (RnID run) run' d = Inr d'"
    and "\<exists>rt. run' = run\<lparr>RnRuntime := rt\<rparr>"
  using assms by (auto simp: resetRunSteps_def bindE_eq_Inr Let_def case_sum_Inr)

lemma touches_RetryRun_begin:
  assumes "sys_ok s"
  shows "touches rid s (fst (RetryRun_begin e flt1 flt2 now user rid s))"
proof -
  have "touches rid s (fst (resumeRun e flt2 now run' (s\<lparr>rsDb := d\<rparr>)))"
    if g: "GetRunByID flt1 user rid (rsDb s) = Inr run" and r: "resetRunSteps flt1 now run (rsDb s) = Inr (run', d)"
    for run run' d
  proof -
    note run = GetRunByID_row [OF g] and u = resetRunSteps_Inr [OF r]
    obtain rt where run': "run' = run\<lparr>RnRuntime := rt\<rparr>" using u(2) by blast
    have i: "RnID run' = rid" "RnID run' \<noteq> ''''" using run run' sys_ok_ids [OF assms] by auto
    have "touches rid s (s\<lparr>rsDb := d\<rparr>)"
    proof (rule touches_UpdateRun)
      show "model_UpdateRun flt1 now rid run' (rsDb s) = Inr d" using u(1) run by simp
      show "RnID run' \<in> {'''', rid}" using i by simp
      fix r assume "r \<in> set (rdRuns (rsDb s))" "RnID r = rid"
      then have "r = run" using sys_ok_unique [OF assms] run by blast
      then show "RnUserName run' \<in> {'''', RnUserName r}" by (simp add: run')
    qed
    then show ?thesis by (rule touches_trans) (use touches_resumeRun [OF i(2)] i(1) in simp)
  qed
  then show ?thesis by (auto simp: RetryRun_begin_def split: sum.split)
qed

lemma touches_map_drop: "touches rid s (s\<lparr>rsMap := mdel rid (rsMap s)\<rparr>)"
  by (simp add: touches_def owners_def same_other_rows_def same_other_objects_def sys_ok_def)

lemma touches_drop_finished: "touches rid s (drop_finished rid status s)"
  by (simp add: drop_finished_def touches_map_drop)

lemma touches_UpdateRunByWfEvent: "touches rid s (fst (UpdateRunByWfEvent flt now rid ev s))"
proof -
  have "touches rid s ((drop_finished rid st s)\<lparr>rsDb := d\<rparr>)"
    if "model_UpdateRun flt now rid (event_row now st view msg prevRun) (rsDb (drop_finished rid st s)) = Inr d"
    for st view msg prevRun d
    by (rule touches_trans [OF touches_drop_finished touches_UpdateRun [OF that]]) (simp_all add: event_row_def no_run_def)
  then show ?thesis
    by (auto simp: UpdateRunByWfEvent_def Let_def touches_drop_finished split: option.split sum.split)
qed

lemma touches_try_update: "touches rid s (try_update n i flts now rid ev s)"
proof (induction n arbitrary: i s)
  case (Suc n)
  obtain s1 ok where u: "UpdateRunByWfEvent (flts i) now rid (Some ev) s = (s1, ok)" by fastforce
  have "touches rid s s1" using touches_UpdateRunByWfEvent [of rid s "flts i" now "Some ev"] u by simp
  then show ?case using u Suc.IH touches_trans by simp
qed simp

lemma touches_startWfWithImageUrl:
  assumes "sys_ok s"
  shows "touches rid s (startWfWithImageUrl e flt now rid imageUrl s)"
proof (cases "rid = ''''")
  case True
  have "model_GetRunByID flt rid (rsDb s) \<noteq> Inr run" for run
    using GetRun_row [of flt rid "rsDb s" run] sys_ok_ids [OF assms] True by blast
  then show ?thesis by (simp add: startWfWithImageUrl_def touches_updateRunStatusAndMsg split: sum.split)
next
  case False
  have "touches rid s ((wf_Start e p s1)\<lparr>rsWrites := ws\<rparr>)"
    if g: "model_GetRunByID flt rid (rsDb s) = Inr run" and n: "newWorkflowByRun e now run wfs s = (s1, Inr p)"
    for run wfs s1 p ws
  proof -
    have i: "RnID run = rid" using GetRun_row [OF g] by simp
    note new = newWorkflowByRun_Inr [OF n, unfolded i]
    have "mget (rsMap s1) rid = Some p" using new(2) False by simp
    from touches_trans [OF new(1) touches_wf_Start [OF this]] show ?thesis by (rule touches_frame) simp_all
  qed
  then show ?thesis
    unfolding startWfWithImageUrl_def Let_def
    by (auto simp: touches_updateRunStatusAndMsg dest!: newWorkflowByRun_Inl split: sum.split prod.split)
qed

lemma touches_record_image: "touches rid s (on_db (record_image flt info url) s)"
proof -
  have "rdRuns (record_image flt info url d) = rdRuns d \<and> (run_db_ok d \<longrightarrow> run_db_ok (record_image flt info url d))" for d
    by (auto simp: record_image_def CreateImage_def UpdateImage_def GetImage_def run_db_ok_def Let_def split: sum.splits if_splits)
  then show ?thesis
    by (simp add: touches_def owners_def same_other_rows_def same_other_objects_def sys_ok_def on_db_def)
qed

lemma touches_handleImageCallbackFunc:
  assumes "sys_ok s"
  shows "touches (IiRunID info) s (handleImageCallbackFunc e flt now info err s)"
proof -
  note start = touches_startWfWithImageUrl [OF assms]
  show ?thesis
    unfolding handleImageCallbackFunc_def Let_def
    using start touches_trans [OF start touches_record_image]
    by (auto simp: touches_updateRunStatusAndMsg split: option.split sum.split)
qed

lemma write_pending_touches: "\<exists>rid. touches rid s (write_pending flt now s)"
proof (cases "rsWrites s")
  case (Cons w rest)
  obtain rid url where w: "w = (rid, url)" by fastforce
  have "touches rid s (s\<lparr>rsWrites := rest, rsDb := d\<rparr>)"
    if "model_UpdateRun flt now rid (no_run\<lparr>RnImageUrl := url, RnStatus := StatusRunPending\<rparr>) (rsDb s) = Inr d" for d
  proof -
    have "touches rid s (s\<lparr>rsDb := d\<rparr>)" by (rule touches_UpdateRun [OF that]) (simp_all add: no_run_def)
    then show ?thesis by (rule touches_frame) simp_all
  qed
  then have "touches rid s (write_pending flt now s)"
    using Cons w by (auto simp: write_pending_def Let_def intro!: touches_same split: sum.split)
  then show ?thesis ..
qed (auto simp: write_pending_def)

section \<open>Every step keeps the invariant\<close>

lemma touches_sys_ok: "touches rid s s' \<Longrightarrow> sys_ok s \<Longrightarrow> sys_ok s'"
  by (simp add: touches_def)

lemma prepare_run_db:
  assumes "prepare_run e flt now user req s = (s', r)"
  shows "rsDb s' = rsDb s" and "rsMap s' = rsMap s" and "\<exists>objs. rsStore s' = rsStore s @ objs"
    and "r = Inr run \<Longrightarrow> RnUserName run = user"
proof -
  have n: "rsDb s1 = rsDb s \<and> rsMap s1 = rsMap s \<and> (\<exists>objs. rsStore s1 = rsStore s @ objs)"
    if "newWorkflowByRun e now (run_to_create user req f wfs src y) wfs s = (s1, q)" for f wfs src y s1 q
    using that by (auto simp: newWorkflowByRun_def store_workflow_def run_to_create_def no_run_def split: sum.splits)
  have "rsDb s' = rsDb s \<and> rsMap s' = rsMap s \<and> (\<exists>objs. rsStore s' = rsStore s @ objs) \<and> (r = Inr run \<longrightarrow> RnUserName run = user)"
    using assms n by (auto simp: prepare_run_def Let_def run_to_create_def split: sum.splits prod.splits if_splits)
  then show "rsDb s' = rsDb s" "rsMap s' = rsMap s" "\<exists>objs. rsStore s' = rsStore s @ objs"
    "r = Inr run \<Longrightarrow> RnUserName run = user" by simp_all
qed

lemma CreateRun_begin_cases:
  assumes "CreateRun_begin e flt now user req s = (s', r)"
  shows "\<exists>s1 d. rsDb s1 = rsDb s \<and> rsMap s1 = rsMap s \<and> (\<exists>objs. rsStore s1 = rsStore s @ objs) \<and>
     (s' = s1 \<or>
      (\<exists>run res. RnUserName run = user \<and> model_CreateRun flt now run (rsDb s) = (d, res) \<and>
         (s' = s1\<lparr>rsDb := d\<rparr> \<or>
          (\<exists>run' wfs. res = Inr run' \<and> s' = fst (handleImageAndStartWf e flt now run' wfs False (s1\<lparr>rsDb := d\<rparr>))))))"
proof -
  obtain s1 q where p: "prepare_run e flt now user req s = (s1, q)" by fastforce
  note pr = prepare_run_db [OF p]
  show ?thesis
  proof (cases q)
    case (Inl c)
    with assms p have "s' = s1" by (simp add: CreateRun_begin_def)
    with pr show ?thesis by blast
  next
    case (Inr run)
    obtain d res where c: "model_CreateRun flt now run (rsDb s1) = (d, res)" by fastforce
    have "s' = s1\<lparr>rsDb := d\<rparr> \<or>
        (\<exists>run' wfs. res = Inr run' \<and> s' = fst (handleImageAndStartWf e flt now run' wfs False (s1\<lparr>rsDb := d\<rparr>)))"
      using assms p Inr c by (auto simp: CreateRun_begin_def split: sum.splits)
    moreover have "RnUserName run = user" using pr(4) Inr by simp
    ultimately show ?thesis using pr(1-3) c by metis
  qed
qed

lemma model_CreateRun_rows:
  assumes "model_CreateRun flt now run d = (d', res)"
  shows "res = Inl err \<Longrightarrow> rdRuns d' = rdRuns d"
    and "res = Inr run' \<Longrightarrow> rdRuns d' = rdRuns d @ [run'] \<and> RnUserName run' = RnUserName run \<and> RnID run' \<noteq> '''' \<and>
           RnPk run' = rdRunPk d + 1 \<and> RnID run' = PrefixRun @ pad6 (rdRunPk d + 1)"
  using assms by (auto simp: model_CreateRun_def Let_def PrefixRun_def dest!: next_pk_Inr split: if_splits sum.splits)

lemma sys_ok_CreateRun_begin:
  assumes ok: "sys_ok s" and c: "CreateRun_begin e flt now user req s = (s', r)"
  shows "sys_ok s'"
proof -
  from CreateRun_begin_cases [OF c] obtain s1 d objs where
    s1: "rsDb s1 = rsDb s" "rsMap s1 = rsMap s" "rsStore s1 = rsStore s @ objs" and
    alt: "s' = s1 \<or> (\<exists>run res. RnUserName run = user \<and> model_CreateRun flt now run (rsDb s) = (d, res) \<and>
         (s' = s1\<lparr>rsDb := d\<rparr> \<or>
          (\<exists>run' wfs. res = Inr run' \<and> s' = fst (handleImageAndStartWf e flt now run' wfs False (s1\<lparr>rsDb := d\<rparr>)))))"
    by blast
  have 1: "sys_ok s1" using ok by (auto simp: sys_ok_def s1 nth_append intro: trans_less_add1)
  from alt show ?thesis
  proof (elim disjE exE conjE)
    fix run res assume m: "model_CreateRun flt now run (rsDb s) = (d, res)"
    have 2: "sys_ok (s1\<lparr>rsDb := d\<rparr>)"
      using 1 run_db_ok_CreateRun [OF _ m] by (simp add: sys_ok_def s1)
    then show ?thesis if "s' = s1\<lparr>rsDb := d\<rparr>" using that by simp
    fix run' wfs
    assume "res = Inr run'" and s': "s' = fst (handleImageAndStartWf e flt now run' wfs False (s1\<lparr>rsDb := d\<rparr>))"
    then have "RnID run' \<noteq> ''''" using model_CreateRun_rows(2) [OF m] by (simp add: PrefixRun_def)
    from touches_sys_ok [OF touches_handleImageAndStartWf [OF this] 2] s' show ?thesis by simp
  qed (use 1 in simp)
qed

lemma DeleteRun_effect:
  "fst (DeleteRun flt user rid s) = s \<or>
   (\<exists>run. run \<in> set (rdRuns (rsDb s)) \<and> RnID run = rid \<and> owns user (RnUserName run) \<and> IsRunFinalStatus (RnStatus run) \<and>
      fst (DeleteRun flt user rid s) = s\<lparr>rsDb := (rsDb s)\<lparr>rdRuns := filter (\<lambda>r. RnID r \<noteq> rid) (rdRuns (rsDb s))\<rparr>\<rparr> \<and>
      model_DeleteRun flt rid (rsDb s) = Inr ((rsDb s)\<lparr>rdRuns := filter (\<lambda>r. RnID r \<noteq> rid) (rdRuns (rsDb s))\<rparr>))"
  by (auto simp: DeleteRun_def model_DeleteRun_def owns_def split: sum.split dest: GetRun_row)

lemma sys_ok_DeleteRun: "sys_ok s \<Longrightarrow> sys_ok (fst (DeleteRun flt user rid s))"
  using DeleteRun_effect [of flt user rid s] run_db_ok_DeleteRun [of "rsDb s" flt rid] by (auto simp: sys_ok_def)

lemma engine_step_effect:
  assumes "engine_step re flts now p a s = Some s'"
  shows "\<exists>w r s1. p < length (rsStore s) \<and> rsStore s ! p = (w, r) \<and> rsDb s1 = rsDb s \<and> rsMap s1 = rsMap s \<and>
     (\<exists>r'. rsStore s1 = (rsStore s)[p := (w, r')]) \<and> touches (WfRunID w) s1 s'"
proof -
  obtain w r where p: "p < length (rsStore s)" "rsStore s ! p = (w, r)"
    using assms by (auto simp: engine_step_def split: if_splits prod.splits)
  obtain r' where "s' = (case drop (length (rtCalls r)) (rtCalls r') of [] \<Rightarrow> s\<lparr>rsStore := (rsStore s)[p := (w, r')]\<rparr>
      | ev # _ \<Rightarrow> try_update 3 0 flts now (WfRunID w) (engine_event w ev) (s\<lparr>rsStore := (rsStore s)[p := (w, r')]\<rparr>))"
    using assms p by (auto simp: engine_step_def Let_def split: option.splits)
  then have "touches (WfRunID w) (s\<lparr>rsStore := (rsStore s)[p := (w, r')]\<rparr>) s'"
    by (auto simp: touches_try_update split: list.splits)
  with p show ?thesis by (intro exI [of _ w] exI [of _ r] exI [of _ "s\<lparr>rsStore := (rsStore s)[p := (w, r')]\<rparr>"]) auto
qed

lemma sys_ok_engine_step:
  assumes "sys_ok s" and "engine_step re flts now p a s = Some s'"
  shows "sys_ok s'"
proof -
  obtain w r s1 r' where e: "p < length (rsStore s)" "rsStore s ! p = (w, r)" "rsDb s1 = rsDb s" "rsMap s1 = rsMap s"
    "rsStore s1 = (rsStore s)[p := (w, r')]" "touches (WfRunID w) s1 s'"
    using engine_step_effect [OF assms(2)] by blast
  have "WfRunID (fst ((rsStore s)[p := (w, r')] ! q)) = WfRunID (fst (rsStore s ! q))" if "q < length (rsStore s)" for q
    using that e(1,2) by (cases "q = p") simp_all
  then have "sys_ok s1" using assms(1) by (simp add: sys_ok_def e(3-5))
  with touches_sys_ok [OF e(6)] show ?thesis by simp
qed

lemma sys_ok_frame: "sys_ok s \<Longrightarrow> rsDb s' = rsDb s \<Longrightarrow> rsStore s' = rsStore s \<Longrightarrow> rsMap s' = rsMap s \<Longrightarrow> sys_ok s'"
  by (simp add: sys_ok_def)

lemma sys_ok_run_step:
  assumes ok: "sys_ok s" and step: "run_step e re x s = Some s'"
  shows "sys_ok s'"
proof -
  obtain flts now a where x: "x = (flts, now, a)" by (cases x)
  show ?thesis
  proof (cases a)
    case (RCreate user req)
    then have "s' = fst (CreateRun_begin e (flts 0) now user req s)" using step x by (simp add: run_step_def)
    then show ?thesis using sys_ok_CreateRun_begin [OF ok] by (metis prod.collapse)
  next
    case (RStop user rid)
    then show ?thesis using step x touches_sys_ok [OF touches_StopRun ok] by (auto simp: run_step_def)
  next
    case (RRetry user rid)
    then show ?thesis using step x touches_sys_ok [OF touches_RetryRun_begin [OF ok] ok] by (auto simp: run_step_def)
  next
    case (RDelete user rid)
    then show ?thesis using step x sys_ok_DeleteRun [OF ok] by (auto simp: run_step_def)
  next
    case RWrite
    then show ?thesis using step x write_pending_touches [of s "flts 0" now] touches_sys_ok ok
      by (auto simp: run_step_def split: if_splits)
  next
    case (RImageDone info err)
    then show ?thesis using step x ok by (auto simp: run_step_def sys_ok_def)
  next
    case RCallback
    then obtain info err rest where c: "rsCbs s = (info, err) # rest"
      "s' = handleImageCallbackFunc e (flts 0) now info err (s\<lparr>rsCbs := rest\<rparr>)"
      using step x by (auto simp: run_step_def split: list.splits)
    have "sys_ok (s\<lparr>rsCbs := rest\<rparr>)" using ok by (simp add: sys_ok_def)
    from touches_sys_ok [OF touches_handleImageCallbackFunc [OF this] this] c(2) show ?thesis by simp
  next
    case (REngine p ea)
    then show ?thesis using step x sys_ok_engine_step [OF ok] by (simp add: run_step_def)
  qed
qed

interpretation run_service: step_machine "run_step e re" "\<lambda>_. True" sys_ok for e re
  by unfold_locales (rule sys_ok_run_step)

definition fresh_sys :: "run_db \<Rightarrow> run_sys" where
  "fresh_sys d =
     \<lparr>rsDb = d, rsStore = [], rsMap = [], rsTasks = [], rsImgStopped = False, rsCbs = [], rsWrites = []\<rparr>"

lemma sys_ok_fresh: "run_db_ok d \<Longrightarrow> sys_ok (fresh_sys d)"
  by (simp add: sys_ok_def fresh_sys_def)

lemma pk_sorted_distinct: "sorted_wrt (\<lambda>a b. pk a < (pk b :: int)) rows \<Longrightarrow> distinct rows"
  by (induction rows) auto

text \<open>
  C6: However requests, engine actions, image callbacks, delayed writes and database failures interleave,
  the tables of the run service stay well-formed: keys and run IDs are unique, and every entry of
  \<open>wfMap\<close> points to a workflow object of that run.
\<close>

theorem run_service_invariant:
  assumes "run_db_ok d" and "reached (run_step e re) (\<lambda>_. True) (fresh_sys d) s"
  shows "run_db_ok (rsDb s) \<and> distinct (map RnID (rdRuns (rsDb s))) \<and>
     (\<forall>rid p. mget (rsMap s) rid = Some p \<longrightarrow> p < length (rsStore s) \<and> WfRunID (fst (rsStore s ! p)) = rid)"
proof -
  have ok: "sys_ok s" by (rule run_service.reached_inv [OF assms(2) sys_ok_fresh [OF assms(1)]])
  have "distinct (rdRuns (rsDb s))"
  proof -
    have "sorted_wrt (\<lambda>a b. RnPk a < RnPk b) (rdRuns (rsDb s))"
      using ok by (simp add: sys_ok_def run_db_ok_def auto_table_def pk_table_def)
    then show ?thesis by (rule pk_sorted_distinct)
  qed
  then have "distinct (map RnID (rdRuns (rsDb s)))"
    unfolding distinct_map inj_on_def using sys_ok_unique [OF ok] by blast
  with ok show ?thesis by (simp add: sys_ok_def)
qed

section \<open>Access\<close>

text \<open>What a user must not change: the rows of other users, and the workflow objects of their runs.\<close>

definition foreign_same :: "string \<Rightarrow> run_sys \<Rightarrow> run_sys \<Rightarrow> bool" where
  "foreign_same user s s' =
     (filter (\<lambda>r. RnUserName r \<noteq> user) (rdRuns (rsDb s')) = filter (\<lambda>r. RnUserName r \<noteq> user) (rdRuns (rsDb s)) \<and>
      (\<forall>r \<in> set (rdRuns (rsDb s)). \<forall>p. RnUserName r \<noteq> user \<longrightarrow> mget (rsMap s) (RnID r) = Some p \<longrightarrow>
         mget (rsMap s') (RnID r) = Some p \<and> rsStore s' ! p = rsStore s ! p))"

lemma foreign_same_refl [simp]: "foreign_same user s s"
  by (simp add: foreign_same_def)

lemma filter_split_id:
  assumes "\<And>r. r \<in> set rs \<Longrightarrow> ident r = i \<Longrightarrow> \<not> P r"
  shows "filter P rs = filter P (filter (\<lambda>r. ident r \<noteq> i) rs)"
  unfolding filter_filter by (rule filter_cong) (use assms in auto)

lemma touches_foreign:
  assumes ok: "sys_ok s" and t: "touches rid s s'"
    and own: "\<And>r. r \<in> set (rdRuns (rsDb s)) \<Longrightarrow> RnID r = rid \<Longrightarrow> RnUserName r = user"
  shows "foreign_same user s s'"
proof -
  have o: "owners s' = owners s" and same: "filter (\<lambda>r. RnID r \<noteq> rid) (rdRuns (rsDb s')) = filter (\<lambda>r. RnID r \<noteq> rid) (rdRuns (rsDb s))"
    using t by (simp_all add: touches_def same_other_rows_def)
  have own': "RnUserName r = user" if "r \<in> set (rdRuns (rsDb s'))" "RnID r = rid" for r
  proof -
    have "(rid, RnUserName r) \<in> set (owners s')" using that by (auto simp: owners_def)
    then show ?thesis unfolding o using own by (auto simp: owners_def)
  qed
  have "filter (\<lambda>r. RnUserName r \<noteq> user) (rdRuns (rsDb s')) = filter (\<lambda>r. RnUserName r \<noteq> user) (filter (\<lambda>r. RnID r \<noteq> rid) (rdRuns (rsDb s')))"
    by (rule filter_split_id) (use own' in simp)
  also have "\<dots> = filter (\<lambda>r. RnUserName r \<noteq> user) (rdRuns (rsDb s))"
    unfolding same by (rule filter_split_id [symmetric]) (use own in simp)
  finally have rows: "filter (\<lambda>r. RnUserName r \<noteq> user) (rdRuns (rsDb s')) = filter (\<lambda>r. RnUserName r \<noteq> user) (rdRuns (rsDb s))" .
  have "mget (rsMap s') (RnID r) = Some p \<and> rsStore s' ! p = rsStore s ! p"
    if r: "r \<in> set (rdRuns (rsDb s))" "RnUserName r \<noteq> user" and p: "mget (rsMap s) (RnID r) = Some p" for r p
  proof -
    have ne: "RnID r \<noteq> rid" using own r by blast
    have "mget (rsMap s) rid \<noteq> Some p" using ok p ne unfolding sys_ok_def by metis
    moreover have "p < length (rsStore s)" using ok p by (simp add: sys_ok_def)
    ultimately show ?thesis using t ne p by (simp add: touches_def same_other_objects_def)
  qed
  with rows show ?thesis by (simp add: foreign_same_def)
qed

definition request_of :: "string \<Rightarrow> run_act \<Rightarrow> bool" where
  "request_of user a =
     (case a of RCreate u _ \<Rightarrow> u = user | RStop u _ \<Rightarrow> u = user | RRetry u _ \<Rightarrow> u = user | RDelete u _ \<Rightarrow> u = user | _ \<Rightarrow> False)"

lemma StopRun_noop: "(\<nexists>run. GetRunByID flt user rid (rsDb s) = Inr run) \<Longrightarrow> fst (StopRun flt now user rid s) = s"
  by (auto simp: StopRun_def split: sum.split)

lemma RetryRun_noop:
  "(\<nexists>run. GetRunByID flt1 user rid (rsDb s) = Inr run) \<Longrightarrow> fst (RetryRun_begin e flt1 flt2 now user rid s) = s"
  by (auto simp: RetryRun_begin_def split: sum.split)

lemma own_run:
  assumes "sys_ok s" and "\<not> IsRootUser user" and "GetRunByID flt user rid (rsDb s) = Inr run"
    and "r \<in> set (rdRuns (rsDb s))" "RnID r = rid"
  shows "RnUserName r = user"
  using GetRunByID_row [OF assms(3)] sys_ok_unique [OF assms(1,4), of run] assms(2,5) by (auto simp: owns_def)

definition run_ids :: "run_sys \<Rightarrow> string set" where
  "run_ids s = set (map RnID (rdRuns (rsDb s)))"

lemma touches_ids: "touches rid s s' \<Longrightarrow> run_ids s' = run_ids s"
proof -
  assume "touches rid s s'"
  then have "map fst (owners s') = map fst (owners s)" by (simp add: touches_def)
  then show ?thesis by (simp add: owners_def comp_def run_ids_def)
qed

lemma CreateRun_begin_foreign:
  assumes ok: "sys_ok s" and c: "CreateRun_begin e flt now user req s = (s', r)"
  shows "foreign_same user s s' \<and> run_ids s \<subseteq> run_ids s'"
proof -
  from CreateRun_begin_cases [OF c] obtain s1 d objs where
    s1: "rsDb s1 = rsDb s" "rsMap s1 = rsMap s" "rsStore s1 = rsStore s @ objs" and
    alt: "s' = s1 \<or> (\<exists>run res. RnUserName run = user \<and> model_CreateRun flt now run (rsDb s) = (d, res) \<and>
         (s' = s1\<lparr>rsDb := d\<rparr> \<or>
          (\<exists>run' wfs. res = Inr run' \<and> s' = fst (handleImageAndStartWf e flt now run' wfs False (s1\<lparr>rsDb := d\<rparr>)))))"
    by blast
  have 1: "sys_ok s1" using ok by (auto simp: sys_ok_def s1 nth_append intro: trans_less_add1)
  have st: "rsStore s1 ! p = rsStore s ! p" if "mget (rsMap s) i = Some p" for i p
    using that ok by (simp add: s1 nth_append sys_ok_def)
  from alt show ?thesis
  proof (elim disjE exE conjE)
    assume "s' = s1"
    then show ?thesis using st by (simp add: s1(1,2) foreign_same_def run_ids_def)
  next
    fix run res assume u: "RnUserName run = user" and m: "model_CreateRun flt now run (rsDb s) = (d, res)"
    have rows: "foreign_same user s (s1\<lparr>rsDb := d\<rparr>) \<and> run_ids s \<subseteq> run_ids (s1\<lparr>rsDb := d\<rparr>)"
      using model_CreateRun_rows [OF m] u st by (cases res) (auto simp: foreign_same_def run_ids_def s1(1,2))
    then show ?thesis if "s' = s1\<lparr>rsDb := d\<rparr>" using that by simp
    fix run' wfs
    assume r: "res = Inr run'" and s': "s' = fst (handleImageAndStartWf e flt now run' wfs False (s1\<lparr>rsDb := d\<rparr>))"
    note new = model_CreateRun_rows(2) [OF m r]
    have ne: "RnID run' \<noteq> ''''" using new by (simp add: PrefixRun_def)
    have ok2: "sys_ok (s1\<lparr>rsDb := d\<rparr>)" using 1 run_db_ok_CreateRun [OF _ m] by (simp add: sys_ok_def s1(1,2))
    note t = touches_handleImageAndStartWf [OF ne, of "s1\<lparr>rsDb := d\<rparr>" e flt now wfs False, folded s']
    have own: "RnUserName q = user" if "q \<in> set (rdRuns (rsDb (s1\<lparr>rsDb := d\<rparr>)))" "RnID q = RnID run'" for q
      using sys_ok_unique [OF ok2, of q run'] that new u by simp
    have sub: "set (rdRuns (rsDb s)) \<subseteq> set (rdRuns (rsDb (s1\<lparr>rsDb := d\<rparr>)))" using new by auto
    have "foreign_same user s s'"
      using touches_foreign [OF ok2 t own] rows sub st unfolding foreign_same_def by (auto simp: s1(2))
    with rows touches_ids [OF t] show ?thesis by simp
  qed
qed

lemma DeleteRun_foreign:
  assumes ok: "sys_ok s" and nr: "\<not> IsRootUser user"
  shows "foreign_same user s (fst (DeleteRun flt user rid s))"
  using DeleteRun_effect [of flt user rid s]
proof (elim disjE exE conjE)
  fix run assume run: "run \<in> set (rdRuns (rsDb s))" "RnID run = rid" "owns user (RnUserName run)"
    and s': "fst (DeleteRun flt user rid s) = s\<lparr>rsDb := (rsDb s)\<lparr>rdRuns := filter (\<lambda>r. RnID r \<noteq> rid) (rdRuns (rsDb s))\<rparr>\<rparr>"
  have "RnUserName r = user" if "r \<in> set (rdRuns (rsDb s))" "RnID r = rid" for r
    using sys_ok_unique [OF ok that(1) run(1)] that run nr by (simp add: owns_def)
  then have "filter (\<lambda>r. RnUserName r \<noteq> user) (filter (\<lambda>r. RnID r \<noteq> rid) (rdRuns (rsDb s))) = filter (\<lambda>r. RnUserName r \<noteq> user) (rdRuns (rsDb s))"
    by (intro filter_split_id [symmetric]) auto
  then show ?thesis unfolding s' by (simp add: foreign_same_def)
qed simp

text \<open>
  C4: A user other than root can only act on own runs: whatever such a user asks for - create, stop, retry
  or delete, for any ID - the rows of all other users and the workflows of their runs stay as they were.
\<close>

theorem requests_keep_foreign_runs:
  assumes "sys_ok s" and "\<not> IsRootUser user" and "request_of user a" and "run_step e re (flts, now, a) s = Some s'"
  shows "filter (\<lambda>r. RnUserName r \<noteq> user) (rdRuns (rsDb s')) = filter (\<lambda>r. RnUserName r \<noteq> user) (rdRuns (rsDb s)) \<and>
     (\<forall>r \<in> set (rdRuns (rsDb s)). \<forall>p. RnUserName r \<noteq> user \<longrightarrow> mget (rsMap s) (RnID r) = Some p \<longrightarrow>
        mget (rsMap s') (RnID r) = Some p \<and> rsStore s' ! p = rsStore s ! p)"
proof -
  have "foreign_same user s s'"
  proof (cases a)
    case (RCreate u req)
    then have "CreateRun_begin e (flts 0) now user req s = (s', snd (CreateRun_begin e (flts 0) now user req s))"
      using assms(3,4) by (simp add: run_step_def request_of_def prod_eq_iff)
    from CreateRun_begin_foreign [OF assms(1) this] show ?thesis by simp
  next
    case (RStop u rid)
    then have s': "s' = fst (StopRun (flts 0) now user rid s)" using assms(3,4) by (simp add: run_step_def request_of_def)
    show ?thesis
    proof (cases "\<exists>run. GetRunByID (flts 0) user rid (rsDb s) = Inr run")
      case True
      then show ?thesis unfolding s' by (elim exE, intro touches_foreign [OF assms(1) touches_StopRun] own_run [OF assms(1,2)])
    qed (simp add: s' StopRun_noop)
  next
    case (RRetry u rid)
    then have s': "s' = fst (RetryRun_begin e (flts 0) (flts 1) now user rid s)" using assms(3,4) by (simp add: run_step_def request_of_def)
    show ?thesis
    proof (cases "\<exists>run. GetRunByID (flts 0) user rid (rsDb s) = Inr run")
      case True
      then show ?thesis unfolding s'
        by (elim exE, intro touches_foreign [OF assms(1) touches_RetryRun_begin [OF assms(1)]] own_run [OF assms(1,2)])
    qed (simp add: s' RetryRun_noop)
  next
    case (RDelete u rid)
    then show ?thesis using assms DeleteRun_foreign by (auto simp: run_step_def request_of_def)
  qed (use assms(3) in \<open>simp_all add: request_of_def\<close>)
  then show ?thesis by (simp add: foreign_same_def)
qed

section \<open>Deletion\<close>

lemma run_step_ids:
  assumes ok: "sys_ok s" and step: "run_step e re (flts, now, a) s = Some s'" and a: "\<And>user rid. a \<noteq> RDelete user rid"
  shows "run_ids s \<subseteq> run_ids s'"
proof (cases a)
  case (RCreate user req)
  then have "CreateRun_begin e (flts 0) now user req s = (s', snd (CreateRun_begin e (flts 0) now user req s))"
    using step by (simp add: run_step_def prod_eq_iff)
  from CreateRun_begin_foreign [OF ok this] show ?thesis by simp
next
  case (RStop user rid)
  then show ?thesis using step touches_ids [OF touches_StopRun] by (auto simp: run_step_def)
next
  case (RRetry user rid)
  then show ?thesis using step touches_ids [OF touches_RetryRun_begin [OF ok]] by (auto simp: run_step_def)
next
  case RWrite
  then show ?thesis using step write_pending_touches [of s "flts 0" now] touches_ids
    by (auto simp: run_step_def split: if_splits)
next
  case (RImageDone info err)
  then show ?thesis using step by (auto simp: run_step_def run_ids_def)
next
  case RCallback
  then obtain info err rest where c: "s' = handleImageCallbackFunc e (flts 0) now info err (s\<lparr>rsCbs := rest\<rparr>)"
    using step by (auto simp: run_step_def split: list.splits)
  have "sys_ok (s\<lparr>rsCbs := rest\<rparr>)" using ok by (simp add: sys_ok_def)
  from touches_ids [OF touches_handleImageCallbackFunc [OF this]] c show ?thesis by (simp add: run_ids_def)
next
  case (REngine p ea)
  then have "engine_step re flts now p ea s = Some s'" using step by (simp add: run_step_def)
  from engine_step_effect [OF this] obtain w :: workflow and s1 where s1: "rsDb s1 = rsDb s" "touches (WfRunID w) s1 s'" by blast
  from touches_ids [OF s1(2)] s1(1) show ?thesis by (simp add: run_ids_def)
qed (use a in blast)

text \<open>
  C9: Only finished runs disappear: if a step of the service removes the row of a run, then it is a
  \<open>DeleteRun\<close> for that run, by its owner or by root, and the run had failed, succeeded or been terminated.
\<close>

theorem only_final_runs_vanish:
  assumes "sys_ok s" and "run_step e re (flts, now, a) s = Some s'"
    and "r \<in> set (rdRuns (rsDb s))" and "RnID r \<notin> set (map RnID (rdRuns (rsDb s')))"
  shows "\<exists>user. a = RDelete user (RnID r) \<and> owns user (RnUserName r) \<and> IsRunFinalStatus (RnStatus r)"
proof -
  have "RnID r \<in> run_ids s" "RnID r \<notin> run_ids s'" using assms(3,4) by (simp_all add: run_ids_def)
  then obtain user rid where a: "a = RDelete user rid" using run_step_ids [OF assms(1,2)] by blast
  then have s': "s' = fst (DeleteRun (flts 0) user rid s)" using assms(2) by (simp add: run_step_def)
  have "s' \<noteq> s" using \<open>RnID r \<in> run_ids s\<close> \<open>RnID r \<notin> run_ids s'\<close> by auto
  with DeleteRun_effect [of "flts 0" user rid s] s' obtain run where run: "run \<in> set (rdRuns (rsDb s))" "RnID run = rid"
    "owns user (RnUserName run)" "IsRunFinalStatus (RnStatus run)"
    and e: "s' = s\<lparr>rsDb := (rsDb s)\<lparr>rdRuns := filter (\<lambda>r. RnID r \<noteq> rid) (rdRuns (rsDb s))\<rparr>\<rparr>" by auto
  have "RnID r = rid" using assms(3,4) unfolding e by auto
  then have "r = run" using sys_ok_unique [OF assms(1,3) run(1)] run(2) by simp
  with a run show ?thesis by simp
qed

section \<open>Engine events\<close>

lemma unique_map_row:
  assumes "r \<in> set rows" and "RnID r = rid" and "RnID (f r) = rid"
  shows "f r \<in> set (map (\<lambda>r. if RnID r = rid then f r else r) rows)"
  using assms by force

text \<open>
  C10: What an event of the engine does to its run: an accepted event stores the status and the runtime view,
  keeps the first message the run ever had, sets the activation time exactly when the run was pending,
  and a final status takes the workflow out of \<open>wfMap\<close>. No other run is touched.
\<close>

theorem accepted_event_effect:
  assumes "sys_ok s" and "RuStatus ev \<noteq> ''''"
    and "UpdateRunByWfEvent flt now (WfRunID w) (Some (engine_event w ev)) s = (s', True)"
  shows "\<exists>r r'. r \<in> set (rdRuns (rsDb s)) \<and> r' \<in> set (rdRuns (rsDb s')) \<and> RnID r = WfRunID w \<and> RnID r' = WfRunID w \<and>
     RnStatus r' = RuStatus ev \<and> RnRuntime r' = Some (RuView ev) \<and>
     RnMessage r' = (if RnMessage r \<noteq> '''' then RnMessage r else RuMessage ev) \<and>
     RnActivatedAt r' = (if RnStatus r = StatusRunPending then Some now else RnActivatedAt r) \<and>
     (IsRunFinalStatus (RuStatus ev) \<longrightarrow> mget (rsMap s') (WfRunID w) = None) \<and>
     filter (\<lambda>q. RnID q \<noteq> WfRunID w) (rdRuns (rsDb s')) = filter (\<lambda>q. RnID q \<noteq> WfRunID w) (rdRuns (rsDb s))"
proof -
  let ?rid = "WfRunID w" and ?s1 = "drop_finished (WfRunID w) (RuStatus ev) s"
  let ?u = "\<lambda>prev. event_row now (RuStatus ev) (RuView ev) (RuMessage ev) prev"
  have db: "rsDb ?s1 = rsDb s" by (simp add: drop_finished_def)
  obtain r d where g: "model_GetRunByID flt ?rid (rsDb s) = Inr r"
    and u: "model_UpdateRun flt now ?rid (?u r) (rsDb s) = Inr d" and s': "s' = ?s1\<lparr>rsDb := d\<rparr>"
    using assms(3) by (auto simp: UpdateRunByWfEvent_def engine_event_def Let_def db split: sum.splits)
  note row = GetRun_row [OF g]
  let ?f = "run_updates now (?u r)"
  have d: "rdRuns d = map (\<lambda>q. if RnID q = ?rid then ?f q else q) (rdRuns (rsDb s))"
    using u by (auto simp: model_UpdateRun_def split: if_splits)
  have id: "RnID (?f q) = RnID q" for q by (simp add: run_updates_def event_row_def no_run_def new_or_def)
  have r': "?f r \<in> set (rdRuns (rsDb s'))"
    unfolding s' using unique_map_row [of r _ ?rid ?f] row id d by simp
  have "filter (\<lambda>q. RnID q \<noteq> ?rid) (rdRuns (rsDb s')) = filter (\<lambda>q. RnID q \<noteq> ?rid) (rdRuns (rsDb s))"
    unfolding s' by (simp add: d filter_map_if [where ident = RnID and f = ?f, OF id])
  moreover have "IsRunFinalStatus (RuStatus ev) \<longrightarrow> mget (rsMap s') ?rid = None" by (simp add: s' drop_finished_def)
  moreover have "RnStatus (?f r) = RuStatus ev \<and> RnRuntime (?f r) = Some (RuView ev) \<and>
     RnMessage (?f r) = (if RnMessage r \<noteq> '''' then RnMessage r else RuMessage ev) \<and>
     RnActivatedAt (?f r) = (if RnStatus r = StatusRunPending then Some now else RnActivatedAt r)"
    using assms(2) by (simp add: run_updates_def event_row_def no_run_def new_or_def new_some_def)
  ultimately show ?thesis using row r' id [of r] by (intro exI [of _ r] exI [of _ "?f r"]) simp
qed

section \<open>Listing\<close>

lemma collect_map_page:
  "collect_pages n (\<lambda>m. map_page f (g m)) marker = map_option (map f) (collect_pages n g marker)"
proof (induction n arbitrary: marker)
  case (Suc n)
  show ?case
  proof (cases "g marker")
    case (Inr p)
    then show ?thesis using Suc.IH
      by (cases "PgNext p"; cases "collect_pages n g (the (PgNext p))") (simp_all add: map_page_def)
  qed (simp add: map_page_def)
qed simp

interpretation runs: paged_table rdRuns RnPk "\<lambda>d. run_db_ok d \<and> in_key_order (rdScan d) \<and> \<not> flt RcListRun \<and> \<not> flt RcLastRun"
    "\<lambda>d keep maxKeys pk. rows_or_nil (model_ListRun flt d keep maxKeys pk)" "GetLastRun flt" for flt
  by unfold_locales
    (auto simp: run_db_ok_def auto_table_pk scan_in_order model_ListRun_def GetLastRun_def last_pk_last)

text \<open>
  C11: When the data base answers its queries, which name no order, in the order of the primary key (\<open>in_key_order\<close>), following
  the markers of \<open>ListRun\<close> shows every run that matches the filters exactly once, in the
  order of creation, for every page size, and to a user other than root only own runs.
\<close>

theorem ListRun_pages_complete:
  assumes "cipher_ok enc dec" and "run_db_ok d" and "in_key_order (rdScan d)" and "\<not> flt RcListRun" and "\<not> flt RcLastRun"
  shows "let rows = filter (run_keep (user_filter user uf) ff rf nf) (rdRuns d)
     in collect_pages (length rows + 1) (ListRun e flt enc dec user maxKeys uf ff rf nf d) '''' =
          Some (map (modelToListResp e) rows) \<and>
        (\<not> IsRootUser user \<longrightarrow> (\<forall>r\<in>set rows. RnUserName r = user))"
proof -
  let ?keep = "run_keep (user_filter user uf) ff rf nf"
  have "collect_pages (length (filter ?keep (rdRuns d)) + 1)
      (list_page enc dec RnPk (\<lambda>pk. rows_or_nil (model_ListRun flt d ?keep maxKeys pk)) (GetLastRun flt d)) '''' =
      Some (filter ?keep (rdRuns d))"
    by (rule runs.pages_complete [OF assms(1)]) (use assms in simp)
  then show ?thesis
    by (simp add: Let_def ListRun_def [abs_def] collect_map_page run_keep_def user_filter_own)
qed

section \<open>Retrying\<close>

lemma reset_views_Inr:
  assumes "reset_views view = Inr view'"
  shows "mget view' n = map_option reset_view (mget view n)" and "mget view n = Some v \<Longrightarrow> \<not> bad_view v"
proof -
  have "view' = map (\<lambda>(n, v). (n, reset_view v)) view" and b: "\<not> list_ex (\<lambda>(n, v). bad_view v) view"
    using assms by (auto simp: reset_views_def split: if_splits)
  then show "mget view' n = map_option reset_view (mget view n)" by (simp add: mget_def map_of_map)
  show "\<not> bad_view v" if "mget view n = Some v"
    using b mget_in_set [OF that] by (auto simp: list_ex_iff)
qed


lemma SetWorkflowRuntime_step:
  assumes "mget (WfSteps (SetWorkflowRuntime view w)) n = Some st" and "mget view n = Some v"
  shows "StDone st = (\<not> NotEnded (restored_job (DockerEnv (WfSource w)) v)) \<and> StSubmitted st = (JVJobID v \<noteq> '''') \<and>
     JbStatus (StJob st) = JVStatus v"
  using assms
  by (auto simp: SetWorkflowRuntime_def mget_map_vals restore_step_def step_update_def Let_def restored_job_def)

definition finished_view :: "job_view \<Rightarrow> bool" where
  "finished_view v = (JVStatus v = StatusJobSucceeded \<or> JVStatus v = StatusJobCached)"

lemma reset_view_status:
  assumes "\<not> bad_view v"
  shows "(\<not> NotEnded (restored_job img (reset_view v))) = finished_view v"
  using assms by (cases "JVStatus v") (simp_all add: reset_view_def bad_view_def finished_view_def NotEnded_def restored_job_def)

text \<open>
  Retrying a run repeats exactly what did not succeed: the run had failed or been terminated, it gets a
  new workflow object whose runtime is restarted, and a step of it with a stored job is done if and only if
  that job succeeded or was taken from the cache; the jobs that failed, were cancelled or were terminated
  have lost their IDs and start anew.
\<close>

theorem RetryRun_repeats_failures:
  assumes "sys_ok s" and "GetRunByID flt1 user rid (rsDb s) = Inr run" and "RnRuntime run = Some view"
    and "RetryRun_begin e flt1 flt2 now user rid s = (s', Inr ())"
    and "reYaml e (RnRunYaml run) = Inr wfs" and "\<not> NeedHandleImage (RnImageUrl run)" and "RnImageUrl run \<noteq> ''''"
    and "run_workflow e now run (wfs\<lparr>DockerEnv := RnImageUrl run\<rparr>) = Inr w"
  shows "(RnStatus run = StatusRunFailed \<or> RnStatus run = StatusRunTerminated) \<and>
     (\<exists>p w' rt. mget (rsMap s') rid = Some p \<and> length (rsStore s) \<le> p \<and> rsStore s' ! p = (w', rt) \<and>
        rtStatus rt = StatusRunRunning \<and>
        (\<forall>n st v. mget (rtSteps rt) n = Some st \<longrightarrow> mget view n = Some v \<longrightarrow>
           StDone st = finished_view v \<and> (\<not> finished_view v \<and> JVStatus v \<in> {StatusJobFailed, StatusJobCancelled, StatusJobTerminated} \<longrightarrow>
             \<not> StSubmitted st \<and> JbStatus (StJob st) = StatusJobNone)))"
proof -
  note row = GetRunByID_row [OF assms(2)]
  have st: "RnStatus run = StatusRunFailed \<or> RnStatus run = StatusRunTerminated"
    using assms(2,4) by (auto simp: RetryRun_begin_def split: if_splits)
  obtain run' d where r: "resetRunSteps flt1 now run (rsDb s) = Inr (run', d)"
    and s': "s' = fst (resumeRun e flt2 now run' (s\<lparr>rsDb := d\<rparr>))"
    using assms(2,4) st by (auto simp: RetryRun_begin_def split: sum.splits)
  obtain view' where view': "reset_views view = Inr view'" and run': "run' = run\<lparr>RnRuntime := Some view'\<rparr>"
    using r assms(3) by (auto simp: resetRunSteps_def bindE_eq_Inr Let_def case_sum_Inr)
  let ?wfs = "wfs\<lparr>DockerEnv := RnImageUrl run\<rparr>" and ?s1 = "s\<lparr>rsDb := d\<rparr>" and ?p = "length (rsStore s)"
  have ne: "rid \<noteq> ''''" using sys_ok_ids [OF assms(1)] row by auto
  have wf: "run_workflow e now run' ?wfs = Inr w" using assms(8) by (simp add: run_workflow_def run')
  have "s' = fst (handleImageAndStartWf e flt2 now run' ?wfs True ?s1)"
    using assms(5,7) by (simp add: s' resumeRun_def run')
  also have "\<dots> = (let s2 = wf_Restart e view' ?p (store_workflow rid w ?s1) in s2\<lparr>rsWrites := rsWrites s2 @ [(rid, RnImageUrl run)]\<rparr>)"
    using assms(6) row wf by (simp add: handleImageAndStartWf_def newWorkflowByRun_def Let_def run')
  finally have e: "s' = \<dots>" .
  let ?w' = "SetWorkflowRuntime view' w"
  let ?rt = "rt_Restart (reIter e 1 (keys (WfSteps ?w'))) (reIter e 2 (keys (WfSteps ?w'))) ((NewWorkflowRuntime w)\<lparr>rtSteps := WfSteps ?w'\<rparr>)"
  have store: "rsStore s' ! ?p = (?w', ?rt)" "mget (rsMap s') rid = Some ?p"
    unfolding e using ne by (simp_all add: Let_def store_workflow_def wf_Restart_def set_object_def)
  have steps: "StDone st = finished_view v \<and> (\<not> finished_view v \<and> JVStatus v \<in> {StatusJobFailed, StatusJobCancelled, StatusJobTerminated} \<longrightarrow>
             \<not> StSubmitted st \<and> JbStatus (StJob st) = StatusJobNone)"
    if n: "mget (rtSteps ?rt) n = Some st" and v: "mget view n = Some v" for n st v
  proof -
    have "mget view' n = Some (reset_view v)" using reset_views_Inr(1) [OF view'] v by simp
    moreover have "mget (WfSteps ?w') n = Some st" using n by (simp add: rt_Restart_def)
    ultimately have "StDone st = (\<not> NotEnded (restored_job (DockerEnv (WfSource w)) (reset_view v))) \<and>
        StSubmitted st = (JVJobID (reset_view v) \<noteq> '''') \<and> JbStatus (StJob st) = JVStatus (reset_view v)"
      by (rule SetWorkflowRuntime_step [rotated])
    with reset_view_status [OF reset_views_Inr(2) [OF view' v]] show ?thesis by (auto simp: reset_view_def)
  qed
  have "rtStatus ?rt = StatusRunRunning" by (simp add: rt_Restart_def)
  with st store steps show ?thesis by blast
qed

section \<open>A finished run that stays pending\<close>

text \<open>A run without an entry in \<open>wfMap\<close> whose row says \<open>pending\<close> is out of reach of every request.\<close>

lemma lost_run_unreachable:
  assumes "mget (rsMap s) rid = None" and "\<forall>r\<in>set (rdRuns (rsDb s)). RnID r = rid \<longrightarrow> RnStatus r = StatusRunPending"
  shows "fst (StopRun flt now user rid s) = s" and "fst (RetryRun_begin e flt1 flt2 now user rid s) = s"
    and "fst (DeleteRun flt user rid s) = s"
proof -
  have p: "RnStatus run = StatusRunPending" if "GetRunByID f user rid (rsDb s) = Inr run" for f run
    using GetRunByID_row [OF that] assms(2) by simp
  have "\<not> IsRunFinalStatus StatusRunPending"
    by (rule IsRunFinalStatus_active) (simp add: RunActiveStatus_def)
  then have nf: "RnStatus r = StatusRunPending \<Longrightarrow> \<not> IsRunFinalStatus (RnStatus r)" for r :: run_row by simp
  show "fst (StopRun flt now user rid s) = s"
    by (auto simp: StopRun_def assms(1) split: sum.split)
  show "fst (RetryRun_begin e flt1 flt2 now user rid s) = s"
    by (auto simp: RetryRun_begin_def run_status_defs split: sum.split dest!: p)
  show "fst (DeleteRun flt user rid s) = s"
    using DeleteRun_effect [of flt user rid s] assms(2) nf by blast
qed

definition demo_run_env :: run_env where
  "demo_run_env =
     \<lparr>reYaml = (\<lambda>_. Inr \<lparr>WName = ''demo'', DockerEnv = ''img'', EntryPoints = [(''a'', demo_info '''')],
        WCache = \<lparr>CEnable = False, MaxExpiredTime = '''', FsScope = ''''\<rparr>, Parallelism = 1\<rparr>),
      reBase64 = Inr, reMd5 = (\<lambda>x. x), reReadFs = (\<lambda>_ _. Inr ''yaml''), reDecode = (\<lambda>v. None), reJobCheck = (\<lambda>_. demo_vj),
      reOrder = (\<lambda>k xs. xs), reNames = (\<lambda>xs. xs), reIter = (\<lambda>k xs. xs), reWfErr = (\<lambda>_. ''workflow''),
      reDbErr = (\<lambda>_. ''db''), reTime = itoa\<rparr>"

definition demo_request :: create_run_request where
  "demo_request =
     \<lparr>CrFsName = ''data'', CrUserName = '''', CrName = '''', CrDescription = '''', CrEntry = '''', CrParameters = None,
      CrDockerEnv = '''', CrRunYamlRaw = '''', CrPipelineID = '''', CrRunYamlPath = ''''\<rparr>"

definition calm :: "run_act \<Rightarrow> (nat \<Rightarrow> run_faults) \<times> int \<times> run_act" where
  "calm a = (\<lambda>_ _. False, 1, a)"

definition demo_trace :: "run_act list" where
  "demo_trace =
     RCreate ''alice'' demo_request #
     map (REngine 1) [ABoot, ABoot, AExecute ''a'', ASelectReady ''a'', ATakeSlot ''a'', ACheckCtx ''a'',
       AGo ''a'' ('''', '''') CacheMiss (StartErr ''quota'' []), ASend ''a'', AListen] @ [RWrite]"

definition demo_end :: "run_sys option" where
  "demo_end = run_acts (run_step demo_run_env demo_rte) (map calm demo_trace) (fresh_sys empty_run_db)"

definition overwritten :: "run_sys \<Rightarrow> bool" where
  "overwritten s =
     (rsWrites s = [] \<and> rsMap s = [] \<and>
      map (\<lambda>r. (RnID r, RnStatus r, RnMessage r)) (rdRuns (rsDb s)) =
        [(''run-000001'', StatusRunPending, ''submit job in run error because of quota.'')] \<and>
      rtStatus (snd (rsStore s ! 1)) = StatusRunFailed)"

lemma case_option_ex: "(case x of None \<Rightarrow> False | Some s \<Rightarrow> P s) \<Longrightarrow> \<exists>s. x = Some s \<and> P s"
  by (cases x) simp_all

lemma demo_end_overwritten: "case demo_end of None \<Rightarrow> False | Some s \<Rightarrow> overwritten s"
  by code_simp

lemma demo_end_reached:
  "demo_end = Some s \<Longrightarrow> reached (run_step demo_run_env demo_rte) (\<lambda>_. True) (fresh_sys empty_run_db) s"
  unfolding demo_end_def by (erule reached_acts) (simp add: list_all_iff)

text \<open>
  \<open>handleImageAndStartWf\<close> starts the workflow before it writes \<open>pending\<close>: a run whose job cannot be
  submitted may end as failed before that write, which then replaces the final status. The run is left
  pending without a workflow object, and no request of any user, stop, retry or delete, changes anything
  about it.
\<close>

theorem pending_overwrites_final_status:
  "\<exists>s. reached (run_step demo_run_env demo_rte) (\<lambda>_. True) (fresh_sys empty_run_db) s \<and> rsWrites s = [] \<and>
     map (\<lambda>r. (RnID r, RnStatus r)) (rdRuns (rsDb s)) = [(''run-000001'', StatusRunPending)] \<and>
     rtStatus (snd (rsStore s ! 1)) = StatusRunFailed \<and>
     (\<forall>user flt1 flt2 now e. fst (StopRun flt1 now user ''run-000001'' s) = s \<and>
        fst (RetryRun e flt1 flt2 now user ''run-000001'' s) = s \<and> fst (DeleteRun flt1 user ''run-000001'' s) = s)"
proof -
  obtain s where s: "demo_end = Some s" and o: "overwritten s"
    using case_option_ex [OF demo_end_overwritten] by (elim exE conjE)
  have rows: "map (\<lambda>r. (RnID r, RnStatus r, RnMessage r)) (rdRuns (rsDb s)) =
      [(''run-000001'', StatusRunPending, ''submit job in run error because of quota.'')]"
    and m: "rsMap s = []" and w: "rsWrites s = []" and f: "rtStatus (snd (rsStore s ! 1)) = StatusRunFailed"
    using o by (simp_all only: overwritten_def)
  then obtain r where r: "rdRuns (rsDb s) = [r]" "RnID r = ''run-000001''" "RnStatus r = StatusRunPending" by auto
  note lost = lost_run_unreachable [of s "''run-000001''"]
  have "fst (RetryRun e flt1 flt2 now user ''run-000001'' s) = s" for e flt1 flt2 now user
    using lost(2) [of e flt1 flt2 now user] r m w
    by (cases "RetryRun_begin e flt1 flt2 now user ''run-000001'' s") (simp add: RetryRun_def write_pending_def)
  moreover have "fst (StopRun flt1 now user ''run-000001'' s) = s" "fst (DeleteRun flt1 user ''run-000001'' s) = s" for flt1 now user
    using lost(1,3) r m by simp_all
  ultimately show ?thesis using demo_end_reached [OF s] r w f by (intro exI [of _ s]) simp
qed

section \<open>Witnesses\<close>

definition demo_run_row :: "int \<Rightarrow> string \<Rightarrow> string \<Rightarrow> run_row" where
  "demo_run_row k user status =
     no_run\<lparr>RnPk := k, RnID := PrefixRun @ pad6 k, RnUserName := user, RnStatus := status, RnImageUrl := ''img'',
       RnFsName := ''data'', RnRuntime := Some [(''a'', demo_view\<lparr>JVStatus := StatusJobFailed\<rparr>)]\<rparr>"

definition demo_two :: run_sys where
  "demo_two = fresh_sys (empty_run_db\<lparr>rdRuns := [demo_run_row 1 ''alice'' StatusRunFailed, demo_run_row 2 ''bob'' StatusRunPending],
     rdRunPk := 2\<rparr>)"


lemma demo_two_ok: "sys_ok demo_two"
proof -
  have "run_db_ok (rsDb demo_two)" by code_simp
  then show ?thesis using sys_ok_fresh by (simp add: demo_two_def fresh_sys_def)
qed

lemma demo_delete:
  "run_step demo_run_env demo_rte (\<lambda>_ _. False, 1, RDelete ''alice'' ''run-000001'') demo_two =
     Some (demo_two\<lparr>rsDb := (rsDb demo_two)\<lparr>rdRuns := [demo_run_row 2 ''bob'' StatusRunPending]\<rparr>\<rparr>)"
proof -
  have "model_GetRunByID (\<lambda>_. False) ''run-000001'' (rsDb demo_two) = Inr (demo_run_row 1 ''alice'' StatusRunFailed)"
    "model_DeleteRun (\<lambda>_. False) ''run-000001'' (rsDb demo_two) =
       Inr ((rsDb demo_two)\<lparr>rdRuns := [demo_run_row 2 ''bob'' StatusRunPending]\<rparr>)"
    "RnUserName (demo_run_row 1 ''alice'' StatusRunFailed) = ''alice''"
    "IsRunFinalStatus (RnStatus (demo_run_row 1 ''alice'' StatusRunFailed))"
    by code_simp+
  then show ?thesis by (simp add: run_step_def DeleteRun_def)
qed

lemma run_service_invariant_witness:
  "\<exists>s. reached (run_step demo_run_env demo_rte) (\<lambda>_. True) (fresh_sys empty_run_db) s \<and> overwritten s \<and>
     distinct (map RnID (rdRuns (rsDb s)))"
proof -
  obtain s where s: "demo_end = Some s" and o: "overwritten s"
    using case_option_ex [OF demo_end_overwritten] by (elim exE conjE)
  note r = demo_end_reached [OF s]
  from run_service_invariant [OF run_db_ok_empty r] r o show ?thesis by blast
qed

lemma requests_keep_foreign_runs_witness:
  "\<exists>s'. run_step demo_run_env demo_rte (\<lambda>_ _. False, 1, RDelete ''alice'' ''run-000001'') demo_two = Some s' \<and>
     filter (\<lambda>r. RnUserName r \<noteq> ''alice'') (rdRuns (rsDb s')) = filter (\<lambda>r. RnUserName r \<noteq> ''alice'') (rdRuns (rsDb demo_two))"
proof -
  have "\<not> IsRootUser ''alice''" "request_of ''alice'' (RDelete ''alice'' ''run-000001'')"
    by (simp_all add: IsRootUser_def equal_fold_def to_lower_def to_lower_char_def is_upper_def request_of_def)
  from requests_keep_foreign_runs [OF demo_two_ok this demo_delete] demo_delete show ?thesis by blast
qed

lemma only_final_runs_vanish_witness:
  "\<exists>user. RDelete ''alice'' ''run-000001'' = RDelete user (RnID (demo_run_row 1 ''alice'' StatusRunFailed)) \<and>
     owns user (RnUserName (demo_run_row 1 ''alice'' StatusRunFailed)) \<and>
     IsRunFinalStatus (RnStatus (demo_run_row 1 ''alice'' StatusRunFailed))"
proof (rule only_final_runs_vanish [OF demo_two_ok demo_delete])
  show "demo_run_row 1 ''alice'' StatusRunFailed \<in> set (rdRuns (rsDb demo_two))"
    by (simp add: demo_two_def fresh_sys_def)
  show "RnID (demo_run_row 1 ''alice'' StatusRunFailed) \<notin> set (map RnID (rdRuns (rsDb
      (demo_two\<lparr>rsDb := (rsDb demo_two)\<lparr>rdRuns := [demo_run_row 2 ''bob'' StatusRunPending]\<rparr>\<rparr>))))"
    by code_simp
qed

definition demo_event :: run_event where
  "demo_event = \<lparr>RuStatus = StatusRunSucceeded, RuMessage = ''done'', RuView = []\<rparr>"

lemma accepted_event_effect_witness:
  "let w = one_step\<lparr>WfRunID := ''run-000002''\<rparr>; s' = fst (UpdateRunByWfEvent (\<lambda>_. False) 9 ''run-000002'' (Some (engine_event w demo_event)) demo_two)
   in \<exists>r'\<in>set (rdRuns (rsDb s')). RnStatus r' = StatusRunSucceeded \<and> RnMessage r' = ''done'' \<and> RnActivatedAt r' = Some 9"
proof -
  let ?w = "one_step\<lparr>WfRunID := ''run-000002''\<rparr>"
  let ?u = "UpdateRunByWfEvent (\<lambda>_. False) 9 (WfRunID ?w) (Some (engine_event ?w demo_event)) demo_two"
  have "snd (UpdateRunByWfEvent (\<lambda>_. False) 9 ''run-000002'' (Some (engine_event (one_step\<lparr>WfRunID := ''run-000002''\<rparr>) demo_event)) demo_two)"
    by code_simp
  then have u: "?u = (fst ?u, True)" by (simp add: prod_eq_iff)
  have st: "RuStatus demo_event \<noteq> ''''" by (simp add: demo_event_def StatusRunSucceeded_def)
  from accepted_event_effect [OF demo_two_ok st u] obtain r r' where r: "r \<in> set (rdRuns (rsDb demo_two))" "RnID r = ''run-000002''"
    and r': "r' \<in> set (rdRuns (rsDb (fst ?u)))" "RnStatus r' = RuStatus demo_event"
      "RnMessage r' = (if RnMessage r \<noteq> '''' then RnMessage r else RuMessage demo_event)"
      "RnActivatedAt r' = (if RnStatus r = StatusRunPending then Some 9 else RnActivatedAt r)"
    by auto
  have "list_all (\<lambda>r. RnID r = ''run-000002'' \<longrightarrow> RnMessage r = '''' \<and> RnStatus r = StatusRunPending) (rdRuns (rsDb demo_two))"
    by code_simp
  then have "RnMessage r = ''''" "RnStatus r = StatusRunPending" using r by (auto simp: list_all_iff)
  with r' show ?thesis by (auto simp: Let_def demo_event_def)
qed

lemma demo_two_scan: "rdScan (rsDb demo_two) = []"
  by code_simp

lemma ListRun_pages_complete_witness:
  "collect_pages 2 (ListRun demo_run_env (\<lambda>_. False) demo_cipher demo_cipher ''alice'' 1 [] [] [] [] (rsDb demo_two)) '''' =
     Some [modelToListResp demo_run_env (demo_run_row 1 ''alice'' StatusRunFailed)]"
proof -
  have "cipher_ok demo_cipher demo_cipher" by (simp add: cipher_ok_def demo_cipher_def)
  moreover have "run_db_ok (rsDb demo_two)" using demo_two_ok by (simp add: sys_ok_def)
  moreover have "rdScan (rsDb demo_two) = []" by (rule demo_two_scan)
  then have "in_key_order (rdScan (rsDb demo_two))" by (simp add: in_key_order_def)
  moreover have "filter (run_keep (user_filter ''alice'' []) [] [] []) (rdRuns (rsDb demo_two)) = [demo_run_row 1 ''alice'' StatusRunFailed]"
    by code_simp
  ultimately show ?thesis
    using ListRun_pages_complete [of demo_cipher demo_cipher "rsDb demo_two" "\<lambda>_. False" "''alice''" "[]" "[]" "[]" "[]" demo_run_env 1]
    by (simp add: numeral_2_eq_2 Let_def del: collect_pages.simps)
qed

text \<open>A data base that answers with the newest run first: the first page of one run is taken for the last.\<close>

lemma unordered_pages_lose_runs:
  "map RnID (filter (run_keep [] [] [] []) (rdRuns (rsDb demo_two))) = [''run-000001'', ''run-000002'']"
  "collect_pages 3 (ListRun demo_run_env (\<lambda>_. False) demo_cipher demo_cipher ''root'' 1 [] [] [] [] ((rsDb demo_two)\<lparr>rdScan := [2]\<rparr>)) '''' =
     Some [modelToListResp demo_run_env (demo_run_row 2 ''bob'' StatusRunPending)]"
  by code_simp+

lemma RetryRun_repeats_failures_witness:
  "\<exists>p w rt. mget (rsMap (fst (RetryRun_begin demo_run_env (\<lambda>_. False) (\<lambda>_. False) 5 ''alice'' ''run-000001'' demo_two))) ''run-000001'' = Some p \<and>
     rsStore (fst (RetryRun_begin demo_run_env (\<lambda>_. False) (\<lambda>_. False) 5 ''alice'' ''run-000001'' demo_two)) ! p = (w, rt) \<and>
     rtStatus rt = StatusRunRunning"
proof -
  let ?r = "demo_run_row 1 ''alice'' StatusRunFailed" and ?b = "RetryRun_begin demo_run_env (\<lambda>_. False) (\<lambda>_. False) 5 ''alice'' ''run-000001'' demo_two"
  have g: "GetRunByID (\<lambda>_. False) ''alice'' ''run-000001'' (rsDb demo_two) = Inr ?r" by code_simp
  have v: "RnRuntime ?r = Some [(''a'', demo_view\<lparr>JVStatus := StatusJobFailed\<rparr>)]" by (simp add: demo_run_row_def)
  have "snd (RetryRun_begin demo_run_env (\<lambda>_. False) (\<lambda>_. False) 5 ''alice'' ''run-000001'' demo_two) = Inr ()" by code_simp
  then have b: "?b = (fst ?b, Inr ())" by (simp add: prod_eq_iff)
  obtain wfs where y: "reYaml demo_run_env (RnRunYaml ?r) = Inr wfs" by (simp add: demo_run_env_def)
  have i: "\<not> NeedHandleImage (RnImageUrl ?r)" "RnImageUrl ?r \<noteq> ''''"
    by (simp_all add: demo_run_row_def NeedHandleImage_def classifyEnvType_def has_suffix_def)
  have "case reYaml demo_run_env (RnRunYaml ?r) of Inl _ \<Rightarrow> False
    | Inr wfs \<Rightarrow> (case run_workflow demo_run_env 5 ?r (wfs\<lparr>DockerEnv := RnImageUrl ?r\<rparr>) of Inl _ \<Rightarrow> False | Inr w \<Rightarrow> True)"
    by code_simp
  then obtain w where w: "run_workflow demo_run_env 5 ?r (wfs\<lparr>DockerEnv := RnImageUrl ?r\<rparr>) = Inr w"
    using y by (auto split: sum.splits)
  from RetryRun_repeats_failures [OF demo_two_ok g v b y i w] show ?thesis by blast
qed

end
