(* ===== verification/PF_Admin.thy ===== *)
theory PF_Admin
  imports PF_Track
begin

text \<open>
  The administration of queues, grants and users: \<open>pkg/apiserver/controller/queue\<close> (\<open>queue.go\<close>,
  \<open>vcqueue.go\<close>), \<open>controller/grant/grant.go\<close> and \<open>controller/user/user.go\<close> on top of the tables of
  \<open>PF_Models\<close>. The Volcano client is a service: each call may fail with an error text (\<open>aeVc\<close>), and the
  requests it accepted are logged in the state. bcrypt, the UUID generator, the quantity parser of
  Kubernetes and the cluster table are fields of \<open>admin_env\<close>. An operation returns the new state and
  the error code it leaves in the context, or its result. A panic of \<open>resource.MustParse\<close> ends
  the request where it happens.
\<close>

definition OnlyRootAllowed :: code where "OnlyRootAllowed = ''OnlyRootAllowed''"
definition QueueNameNotFound :: code where "QueueNameNotFound = ''QueueNameNotFound''"
definition NamespaceNotFound :: code where "NamespaceNotFound = ''NamespaceNotFound''"
definition QueueNameDuplicated :: code where "QueueNameDuplicated = ''QueueNameDuplicated''"
definition QueueResourceNotMatch :: code where "QueueResourceNotMatch = ''QueueResourceNotMatch''"
definition QueueIsNotClosed :: code where "QueueIsNotClosed = ''QueueIsNotClosed''"
definition UserNotExist :: code where "UserNotExist = ''UserNotExist''"
definition UserPasswordWeak :: code where "UserPasswordWeak = ''UserPasswordWeak''"
definition UserNameDuplicated :: code where "UserNameDuplicated = ''UserNameDuplicated''"
definition AuthFailed :: code where "AuthFailed = ''AuthFailed''"
definition GrantRootActionNotSupport :: code where "GrantRootActionNotSupport = ''GrantRootActionNotSupport''"
definition GrantResourceTypeNotFound :: code where "GrantResourceTypeNotFound = ''GrantResourceTypeNotFound''"
definition GrantAlreadyExist :: code where "GrantAlreadyExist = ''GrantAlreadyExist''"
definition GrantNotFound :: code where "GrantNotFound = ''GrantNotFound''"

datatype vc_request =
    VcCreateQueue string "(string \<times> string) list"
  | VcDeleteQueue string
  | VcCommand string string

record admin_env =
  aeScalars :: "string list"
  aeQuantity :: "string \<Rightarrow> bool"
  aeCluster :: "string \<Rightarrow> bool"
  aeVc :: "vc_request \<Rightarrow> string option"
  aeGetQueue :: "string \<Rightarrow> string option"
  aeHash :: "string \<Rightarrow> string + string"
  aeCompare :: "string \<Rightarrow> string \<Rightarrow> bool"

record admin =
  aDb :: db
  aVc :: "vc_request list"

section \<open>Volcano queues (vcqueue.go)\<close>

text \<open>\<open>vcq.client...\<close>: the error of the service, or the logged request.\<close>

definition vc_call :: "admin_env \<Rightarrow> vc_request \<Rightarrow> admin \<Rightarrow> admin \<times> (string + unit)" where
  "vc_call e r s = (case aeVc e r of Some err \<Rightarrow> (s, Inl err) | None \<Rightarrow> (s\<lparr>aVc := aVc s @ [r]\<rparr>, Inr ()))"

text \<open>\<open>None\<close> is the panic of \<open>MustParse\<close>.\<close>

definition VCQueue_CreateQueue :: "admin_env \<Rightarrow> queue_row \<Rightarrow> admin \<Rightarrow> (admin \<times> (string + unit)) option" where
  "VCQueue_CreateQueue e q s =
     (let amounts = [(''cpu'', QCpu q), (''memory'', QMem q)] @ QScalar q
      in if list_all (\<lambda>(k, v). aeQuantity e v) amounts then Some (vc_call e (VcCreateQueue (QName q) amounts) s)
         else None)"

definition VCQueue_DeleteQueue :: "admin_env \<Rightarrow> queue_row \<Rightarrow> admin \<Rightarrow> admin \<times> (string + unit)" where
  "VCQueue_DeleteQueue e q s = vc_call e (VcDeleteQueue (QName q)) s"

definition executeQueueAction :: "admin_env \<Rightarrow> queue_row \<Rightarrow> string \<Rightarrow> admin \<Rightarrow> admin \<times> (string + unit)" where
  "executeQueueAction e q action s =
     (case aeGetQueue e (QName q) of
        Some err \<Rightarrow> (s, Inl err)
      | None \<Rightarrow> vc_call e (VcCommand (QName q) action) s)"

definition VCQueue_CloseQueue :: "admin_env \<Rightarrow> queue_row \<Rightarrow> admin \<Rightarrow> admin \<times> (string + unit)" where
  "VCQueue_CloseQueue e q s = executeQueueAction e q ''CloseQueue'' s"

definition VCQueue_OpenQueue :: "admin_env \<Rightarrow> queue_row \<Rightarrow> admin \<Rightarrow> admin \<times> (string + unit)" where
  "VCQueue_OpenQueue e q s = executeQueueAction e q ''OpenQueue'' s"

section \<open>Queues (queue.go)\<close>

record queue_info =
  QiNamespace :: string
  QiClusterName :: string
  QiName :: string
  QiCpu :: string
  QiMem :: string
  QiScalar :: "string gomap"

definition defaultQueueName :: string where "defaultQueueName = ''default''"

text \<open>The checks before the row is written; a rejected resource list sets no code.\<close>

definition check_queue :: "admin_env \<Rightarrow> faults \<Rightarrow> string \<Rightarrow> queue_info \<Rightarrow> db \<Rightarrow> code + unit" where
  "check_queue e flt user q d =
     (if \<not> IsRootUser user then Inl OnlyRootAllowed
      else if QiName q = '''' then Inl QueueNameNotFound
      else if QiNamespace q = '''' then Inl NamespaceNotFound
      else if \<not> RegPatternQueueName (QiName q) then Inl InvalidNamePattern
      else if equal_fold (QiName q) defaultQueueName \<or> IsQueueExist flt (QiName q) d then Inl QueueNameDuplicated
      else case ValidateResourceInfo \<lparr>Cpu = QiCpu q, Mem = QiMem q, ScalarResources = QiScalar q\<rparr> (aeScalars e) of
             Inl err \<Rightarrow> Inl ''''
           | Inr _ \<Rightarrow> Inr ())"

definition queue_of :: "queue_info \<Rightarrow> queue_row" where
  "queue_of q =
     \<lparr>QPk = 0, QNamespace = QiNamespace q, QClusterName = QiClusterName q, QName = QiName q, QCpu = QiCpu q,
      QMem = QiMem q, QScalar = QiScalar q, QStatus = StatusQueueCreating\<rparr>"

definition db_or :: "db_error + db \<Rightarrow> db \<Rightarrow> db" where
  "db_or r d = (case r of Inl _ \<Rightarrow> d | Inr d' \<Rightarrow> d')"

text \<open>The error of the last status update is dropped; so is the one of the roll-back.\<close>

definition CreateQueue :: "admin_env \<Rightarrow> faults \<Rightarrow> string \<Rightarrow> queue_info \<Rightarrow> admin \<Rightarrow> admin \<times> (code + string)" where
  "CreateQueue e flt user q s =
     (case check_queue e flt user q (aDb s) of
        Inl c \<Rightarrow> (s, Inl c)
      | Inr _ \<Rightarrow>
          (case model_CreateQueue flt (aeCluster e) (queue_of q) (aDb s) of
             Inl err \<Rightarrow> (s, Inl (if err = DuplicateKey then QueueNameDuplicated else InternalError))
           | Inr d \<Rightarrow>
               (case VCQueue_CreateQueue e (queue_of q) (s\<lparr>aDb := d\<rparr>) of
                  None \<Rightarrow> (s\<lparr>aDb := d\<rparr>, Inl panic_code)
                | Some (s1, Inl err) \<Rightarrow>
                    (s1\<lparr>aDb := db_or (model_DeleteQueue flt (QiName q) d) d\<rparr>, Inl QueueResourceNotMatch)
                | Some (s1, Inr _) \<Rightarrow>
                    (s1\<lparr>aDb := db_or (UpdateQueueStatus flt (QiName q) StatusQueueOpen d) d\<rparr>, Inr (QiName q)))))"

definition ctl_GetQueueByName :: "faults \<Rightarrow> string \<Rightarrow> string \<Rightarrow> admin \<Rightarrow> code + queue_row" where
  "ctl_GetQueueByName flt user queueName s =
     (if \<not> HasAccessToResource flt user ResourceTypeQueue queueName (aDb s) then Inl ActionNotAllowed
      else case GetQueueByName flt queueName (aDb s) of
             Inl err \<Rightarrow> Inl QueueNameNotFound
           | Inr q \<Rightarrow> Inr q)"

definition CloseQueue :: "admin_env \<Rightarrow> faults \<Rightarrow> string \<Rightarrow> string \<Rightarrow> admin \<Rightarrow> admin \<times> (code + unit)" where
  "CloseQueue e flt user queueName s =
     (if \<not> IsRootUser user then (s, Inl OnlyRootAllowed)
      else case GetQueueByName flt queueName (aDb s) of
        Inl err \<Rightarrow> (s, Inl QueueNameNotFound)
      | Inr q \<Rightarrow>
          (case VCQueue_CloseQueue e q s of
             (s1, Inl err) \<Rightarrow> (s1, Inl InternalError)
           | (s1, Inr _) \<Rightarrow>
               (case model_CloseQueue flt queueName (aDb s1) of
                  Inl err \<Rightarrow> (s1, Inl InternalError)
                | Inr d \<Rightarrow> (s1\<lparr>aDb := d\<rparr>, Inr ()))))"

definition DeleteQueue :: "admin_env \<Rightarrow> faults \<Rightarrow> string \<Rightarrow> string \<Rightarrow> admin \<Rightarrow> admin \<times> (code + unit)" where
  "DeleteQueue e flt user queueName s =
     (if \<not> IsRootUser user then (s, Inl OnlyRootAllowed)
      else case GetQueueByName flt queueName (aDb s) of
        Inl err \<Rightarrow> (s, Inl QueueNameNotFound)
      | Inr q \<Rightarrow>
          if QStatus q \<noteq> StatusQueueClosed then (s, Inl QueueIsNotClosed)
          else (case VCQueue_DeleteQueue e q s of
             (s1, Inl err) \<Rightarrow> (s1, Inl InternalError)
           | (s1, Inr _) \<Rightarrow>
               (case model_DeleteQueue flt queueName (aDb s1) of
                  Inl err \<Rightarrow> (s1, Inl InternalError)
                | Inr d \<Rightarrow> (s1\<lparr>aDb := d\<rparr>, Inr ()))))"

text \<open>The key of the last row, 0 after an error.\<close>

definition pk_or_0 :: "('r \<Rightarrow> int) \<Rightarrow> db_error + 'r \<Rightarrow> int" where
  "pk_or_0 pk r = (case r of Inl _ \<Rightarrow> 0 | Inr x \<Rightarrow> pk x)"

definition ListQueue ::
  "faults \<Rightarrow> block_cipher \<Rightarrow> block_cipher \<Rightarrow> string \<Rightarrow> int \<Rightarrow> string \<Rightarrow> db \<Rightarrow> string \<Rightarrow> code + queue_row page" where
  "ListQueue flt enc dec user maxKeys name d marker =
     page_result (list_page enc dec QPk (\<lambda>pk. rows_or_nil (model_ListQueue flt user pk maxKeys name d))
       (pk_or_0 QPk (GetLastQueue flt d)) marker)"

section \<open>Grants (grant.go)\<close>

definition ResourceTypeUser :: string where "ResourceTypeUser = ''user''"

definition checkQueue :: "faults \<Rightarrow> string \<Rightarrow> db \<Rightarrow> code + unit" where
  "checkQueue flt queueName d = (case GetQueueByName flt queueName d of Inl _ \<Rightarrow> Inl QueueNameNotFound | Inr _ \<Rightarrow> Inr ())"

definition checkUser :: "faults \<Rightarrow> string \<Rightarrow> db \<Rightarrow> code + unit" where
  "checkUser flt userName d = (case model_GetUserByName flt userName d of Inl _ \<Rightarrow> Inl UserNotExist | Inr _ \<Rightarrow> Inr ())"

definition checkFuncs :: "faults \<Rightarrow> string \<Rightarrow> (string \<Rightarrow> db \<Rightarrow> code + unit) option" where
  "checkFuncs flt resourceType =
     (if resourceType = ResourceTypeQueue then Some (checkQueue flt)
      else if resourceType = ResourceTypeUser then Some (checkUser flt) else None)"

text \<open>What creation and deletion of a grant have in common.\<close>

definition check_grant :: "faults \<Rightarrow> string \<Rightarrow> string \<Rightarrow> string \<Rightarrow> string \<Rightarrow> db \<Rightarrow> code + unit" where
  "check_grant flt user userName resourceType resourceID d =
     (if \<not> IsRootUser user then Inl OnlyRootAllowed
      else if IsRootUser userName then Inl GrantRootActionNotSupport
      else case checkFuncs flt resourceType of
        None \<Rightarrow> Inl GrantResourceTypeNotFound
      | Some check \<Rightarrow> bindE (check resourceID d) (\<lambda>_. checkUser flt userName d))"

text \<open>\<open>uuid\<close> is the generated ID. A duplicated ID is reported with the code of queues.\<close>

definition ctl_CreateGrant ::
  "faults \<Rightarrow> string \<Rightarrow> string \<Rightarrow> string \<Rightarrow> string \<Rightarrow> string \<Rightarrow> admin \<Rightarrow> admin \<times> (code + string)" where
  "ctl_CreateGrant flt uuid user userName resourceType resourceID s =
     (case check_grant flt user userName resourceType resourceID (aDb s) of
        Inl c \<Rightarrow> (s, Inl c)
      | Inr _ \<Rightarrow>
          (case GetGrant flt userName resourceType resourceID (aDb s) of
             Inr g \<Rightarrow> (s, Inl GrantAlreadyExist)
           | Inl _ \<Rightarrow>
               (case CreateGrant flt \<lparr>GrPk = 0, GrID = uuid, GrUserName = userName, GrResourceType = resourceType,
                                     GrResourceID = resourceID\<rparr> (aDb s) of
                  Inl err \<Rightarrow> (s, Inl (if err = DuplicateKey then QueueNameDuplicated else InternalError))
                | Inr d \<Rightarrow> (s\<lparr>aDb := d\<rparr>, Inr uuid))))"

definition ctl_DeleteGrant :: "faults \<Rightarrow> string \<Rightarrow> string \<Rightarrow> string \<Rightarrow> string \<Rightarrow> admin \<Rightarrow> admin \<times> (code + unit)" where
  "ctl_DeleteGrant flt user userName resourceID resourceType s =
     (case check_grant flt user userName resourceType resourceID (aDb s) of
        Inl c \<Rightarrow> (s, Inl c)
      | Inr _ \<Rightarrow>
          (case GetGrant flt userName resourceType resourceID (aDb s) of
             Inl err \<Rightarrow> (s, Inl GrantNotFound)
           | Inr g \<Rightarrow>
               (case DeleteGrant flt userName resourceType resourceID (aDb s) of
                  Inl err \<Rightarrow> (s, Inl GrantNotFound)
                | Inr d \<Rightarrow> (s\<lparr>aDb := d\<rparr>, Inr ()))))"

definition ListGrant ::
  "faults \<Rightarrow> block_cipher \<Rightarrow> block_cipher \<Rightarrow> string \<Rightarrow> int \<Rightarrow> string \<Rightarrow> db \<Rightarrow> string \<Rightarrow> code + grant_row page" where
  "ListGrant flt enc dec user maxKeys userName d marker =
     (if \<not> IsRootUser user then Inl OnlyRootAllowed
      else page_result (list_page enc dec GrPk (\<lambda>pk. rows_or_nil (model_ListGrant flt pk maxKeys userName d))
             (pk_or_0 GrPk (GetLastGrant flt d)) marker))"

section \<open>Users (user.go)\<close>

definition CheckPasswordLever :: "string \<Rightarrow> bool" where
  "CheckPasswordLever ps = (\<not> length ps < 6 \<and> list_ex is_digit ps \<and> list_ex is_lower ps)"

definition EncodePassWord :: "admin_env \<Rightarrow> string \<Rightarrow> string + string" where
  "EncodePassWord e password = aeHash e password"

definition Login :: "admin_env \<Rightarrow> faults \<Rightarrow> string \<Rightarrow> string \<Rightarrow> bool \<Rightarrow> db \<Rightarrow> code + user_row" where
  "Login e flt userName password passwordEncoded d =
     (case model_GetUserByName flt userName d of
        Inl err \<Rightarrow> Inl UserNotExist
      | Inr u \<Rightarrow>
          if (if passwordEncoded then UPassword u = password else aeCompare e (UPassword u) password)
          then Inr u else Inl AuthFailed)"

definition CreateUser :: "admin_env \<Rightarrow> faults \<Rightarrow> string \<Rightarrow> string \<Rightarrow> string \<Rightarrow> admin \<Rightarrow> admin \<times> (code + string)" where
  "CreateUser e flt user userName password s =
     (if \<not> RegPatternUserName userName then (s, Inl InvalidNamePattern)
      else if \<not> CheckPasswordLever password then (s, Inl UserPasswordWeak)
      else if \<not> IsRootUser user then (s, Inl OnlyRootAllowed)
      else case EncodePassWord e password of
        Inl err \<Rightarrow> (s, Inl InternalError)
      | Inr pd \<Rightarrow>
          (case model_CreateUser flt \<lparr>UPk = 0, UName = userName, UPassword = pd\<rparr> (aDb s) of
             Inl err \<Rightarrow> (s, Inl (if err = DuplicateKey then UserNameDuplicated else InternalError))
           | Inr d \<Rightarrow> (s\<lparr>aDb := d\<rparr>, Inr userName)))"

definition UpdateUser :: "admin_env \<Rightarrow> faults \<Rightarrow> string \<Rightarrow> string \<Rightarrow> string \<Rightarrow> admin \<Rightarrow> admin \<times> (code + unit)" where
  "UpdateUser e flt user userName password s =
     (if \<not> CheckPasswordLever password then (s, Inl UserPasswordWeak)
      else case EncodePassWord e password of
        Inl err \<Rightarrow> (s, Inl InternalError)
      | Inr newPassword \<Rightarrow>
          (case model_GetUserByName flt userName (aDb s) of
             Inl err \<Rightarrow> (s, Inl UserNotExist)
           | Inr _ \<Rightarrow>
               if \<not> IsRootUser user \<and> \<not> equal_fold user userName then (s, Inl AccessDenied)
               else (case model_UpdateUser flt userName newPassword (aDb s) of
                       Inl err \<Rightarrow> (s, Inl UserNotExist)
                     | Inr d \<Rightarrow> (s\<lparr>aDb := d\<rparr>, Inr ()))))"

text \<open>The user goes first, the grants afterwards, in two transactions.\<close>

definition DeleteUser :: "faults \<Rightarrow> string \<Rightarrow> string \<Rightarrow> admin \<Rightarrow> admin \<times> (code + unit)" where
  "DeleteUser flt user userName s =
     (if \<not> IsRootUser user then (s, Inl AccessDenied)
      else case model_GetUserByName flt userName (aDb s) of
        Inl err \<Rightarrow> (s, Inl UserNotExist)
      | Inr u \<Rightarrow>
          if IsRootUser (UName u) then (s, Inl AccessDenied)
          else (case model_DeleteUser flt userName (aDb s) of
             Inl err \<Rightarrow> (s, Inl InternalError)
           | Inr d \<Rightarrow>
               (case DeleteGrantByUserName flt userName d of
                  Inl err \<Rightarrow> (s\<lparr>aDb := d\<rparr>, Inl InternalError)
                | Inr d' \<Rightarrow> (s\<lparr>aDb := d'\<rparr>, Inr ()))))"

text \<open>Unlike the other lists, this one reports a failed query.\<close>

definition ListUser ::
  "faults \<Rightarrow> block_cipher \<Rightarrow> block_cipher \<Rightarrow> string \<Rightarrow> int \<Rightarrow> db \<Rightarrow> string \<Rightarrow> code + user_row page" where
  "ListUser flt enc dec user maxKeys d marker =
     (if \<not> IsRootUser user then Inl AccessDenied
      else case decode_marker dec marker of
        Inl err \<Rightarrow> Inl (marker_code err)
      | Inr pk \<Rightarrow>
          (case model_ListUser flt pk maxKeys d of
             Inl err \<Rightarrow> Inl InternalError
           | Inr rows \<Rightarrow>
               page_result (bindE (next_marker enc UPk (pk_or_0 UPk (GetLastUser flt d)) rows)
                 (\<lambda>next. Inr \<lparr>PgRows = rows, PgNext = next\<rparr>))))"

definition ctl_GetUserByName :: "faults \<Rightarrow> string \<Rightarrow> string \<Rightarrow> db \<Rightarrow> code + user_row" where
  "ctl_GetUserByName flt user userName d =
     (if \<not> IsRootUser user then Inl AccessDenied
      else case model_GetUserByName flt userName d of Inl err \<Rightarrow> Inl UserNotExist | Inr u \<Rightarrow> Inr u)"

section \<open>The administration as a machine\<close>

datatype admin_act =
    AaCreateQueue queue_info
  | AaCloseQueue string
  | AaDeleteQueue string
  | AaCreateGrant string string string string
  | AaDeleteGrant string string string
  | AaCreateUser string string
  | AaUpdateUser string string
  | AaDeleteUser string

fun admin_do :: "admin_env \<Rightarrow> faults \<Rightarrow> string \<Rightarrow> admin_act \<Rightarrow> admin \<Rightarrow> admin" where
  "admin_do e flt user (AaCreateQueue q) s = fst (CreateQueue e flt user q s)"
| "admin_do e flt user (AaCloseQueue n) s = fst (CloseQueue e flt user n s)"
| "admin_do e flt user (AaDeleteQueue n) s = fst (DeleteQueue e flt user n s)"
| "admin_do e flt user (AaCreateGrant uuid u rt rid) s = fst (ctl_CreateGrant flt uuid user u rt rid s)"
| "admin_do e flt user (AaDeleteGrant u rid rt) s = fst (ctl_DeleteGrant flt user u rid rt s)"
| "admin_do e flt user (AaCreateUser u p) s = fst (CreateUser e flt user u p s)"
| "admin_do e flt user (AaUpdateUser u p) s = fst (UpdateUser e flt user u p s)"
| "admin_do e flt user (AaDeleteUser u) s = fst (DeleteUser flt user u s)"

definition admin_step :: "admin_env \<Rightarrow> faults \<times> string \<times> admin_act \<Rightarrow> admin \<Rightarrow> admin option" where
  "admin_step e x s = (case x of (flt, user, a) \<Rightarrow> Some (admin_do e flt user a s))"

section \<open>The invariant of the tables\<close>

definition db_ok :: "db \<Rightarrow> bool" where
  "db_ok d =
     (auto_table GrPk (nGrant d) (tGrant d) \<and> distinct (map GrID (tGrant d)) \<and>
      auto_table QPk (nQueue d) (tQueue d) \<and> distinct (map QName (tQueue d)) \<and>
      auto_table UPk (nUser d) (tUser d) \<and> distinct (map UName (tUser d)) \<and>
      (\<forall>q\<in>set (tQueue d). QStatus q \<in> {StatusQueueCreating, StatusQueueOpen, StatusQueueClosed}))"

lemma distinct_map_filter': "distinct (map f xs) \<Longrightarrow> distinct (map f (filter P xs))"
  by (rule distinct_map_filter)

lemma db_ok_model_CreateQueue:
  "db_ok d \<Longrightarrow> QStatus q = StatusQueueCreating \<Longrightarrow> model_CreateQueue flt c q d = Inr d' \<Longrightarrow> db_ok d'"
  by (auto simp: db_ok_def model_CreateQueue_def bindE_eq_Inr split: if_splits) (erule (1) auto_table_insert, simp)+

lemma map_set_status:
  "map QName (map (\<lambda>q. if QName q = n then q\<lparr>QStatus := st\<rparr> else q) qs) = map QName qs"
  by simp

lemma db_ok_set_status:
  "db_ok d \<Longrightarrow> st \<in> {StatusQueueCreating, StatusQueueOpen, StatusQueueClosed} \<Longrightarrow> db_ok (set_queue_status n st d)"
  by (auto simp: db_ok_def set_queue_status_def comp_def if_distrib [of QName] cong: if_cong intro!: auto_table_map)

lemma db_ok_UpdateQueueStatus:
  "db_ok d \<Longrightarrow> st \<in> {StatusQueueCreating, StatusQueueOpen, StatusQueueClosed} \<Longrightarrow> UpdateQueueStatus flt n st d = Inr d' \<Longrightarrow> db_ok d'"
  by (auto simp: UpdateQueueStatus_def queue_status_defs to_lower_def to_lower_char_def is_upper_def split: if_splits
      intro: db_ok_set_status [unfolded queue_status_defs])

lemma db_ok_model_CloseQueue: "db_ok d \<Longrightarrow> model_CloseQueue flt n d = Inr d' \<Longrightarrow> db_ok d'"
  by (auto simp: model_CloseQueue_def split: if_splits intro: db_ok_set_status)

lemma db_ok_model_DeleteQueue: "db_ok d \<Longrightarrow> model_DeleteQueue flt n d = Inr d' \<Longrightarrow> db_ok d'"
  by (auto simp: db_ok_def model_DeleteQueue_def split: if_splits intro: auto_table_filter distinct_map_filter)

lemma db_ok_CreateGrant: "db_ok d \<Longrightarrow> CreateGrant flt g d = Inr d' \<Longrightarrow> db_ok d'"
  by (auto simp: db_ok_def CreateGrant_def bindE_eq_Inr split: if_splits) (erule (1) auto_table_insert, simp)+

lemma db_ok_DeleteGrant: "db_ok d \<Longrightarrow> DeleteGrant flt u rt rid d = Inr d' \<Longrightarrow> db_ok d'"
  by (auto simp: db_ok_def DeleteGrant_def split: if_splits intro: auto_table_filter distinct_map_filter)

lemma db_ok_model_CreateUser: "db_ok d \<Longrightarrow> model_CreateUser flt u d = Inr d' \<Longrightarrow> db_ok d'"
  by (auto simp: db_ok_def model_CreateUser_def bindE_eq_Inr split: if_splits) (erule (1) auto_table_insert, simp)+

lemma db_ok_model_UpdateUser: "db_ok d \<Longrightarrow> model_UpdateUser flt u p d = Inr d' \<Longrightarrow> db_ok d'"
  by (auto simp: db_ok_def model_UpdateUser_def comp_def if_distrib [of UName] split: if_splits cong: if_cong intro!: auto_table_map)

lemma db_ok_model_DeleteUser: "db_ok d \<Longrightarrow> model_DeleteUser flt u d = Inr d' \<Longrightarrow> db_ok d'"
  by (auto simp: db_ok_def model_DeleteUser_def split: if_splits intro: auto_table_filter distinct_map_filter)

lemma db_ok_DeleteGrantByUserName: "db_ok d \<Longrightarrow> DeleteGrantByUserName flt u d = Inr d' \<Longrightarrow> db_ok d'"
  by (auto simp: db_ok_def DeleteGrantByUserName_def split: if_splits intro: auto_table_filter distinct_map_filter)

lemma db_ok_db_or: "db_ok d \<Longrightarrow> (\<And>d'. r = Inr d' \<Longrightarrow> db_ok d') \<Longrightarrow> db_ok (db_or r d)"
  by (simp add: db_or_def split: sum.split)

lemma vc_call_db [simp]: "vc_call e r s = (s1, x) \<Longrightarrow> aDb s1 = aDb s"
  by (auto simp: vc_call_def split: option.splits)

lemma executeQueueAction_db [simp]: "executeQueueAction e q a s = (s1, x) \<Longrightarrow> aDb s1 = aDb s"
  by (auto simp: executeQueueAction_def split: option.splits)

lemma VCQueue_CreateQueue_db [simp]: "VCQueue_CreateQueue e q s = Some (s1, x) \<Longrightarrow> aDb s1 = aDb s"
  by (auto simp: VCQueue_CreateQueue_def Let_def split: if_splits)

lemmas db_ok_ops = db_ok_model_CreateQueue db_ok_UpdateQueueStatus db_ok_model_CloseQueue db_ok_model_DeleteQueue
  db_ok_CreateGrant db_ok_DeleteGrant db_ok_model_CreateUser db_ok_model_UpdateUser db_ok_model_DeleteUser
  db_ok_DeleteGrantByUserName

lemma db_ok_admin_do: "db_ok (aDb s) \<Longrightarrow> db_ok (aDb (admin_do e flt user a s))"
proof (cases a)
  case (AaCreateQueue q)
  assume ok: "db_ok (aDb s)"
  have "db_ok d" if "model_CreateQueue flt (aeCluster e) (queue_of q) (aDb s) = Inr d" for d
    by (rule db_ok_model_CreateQueue [OF ok _ that]) (simp add: queue_of_def)
  with ok show ?thesis
    by (auto simp: AaCreateQueue CreateQueue_def split: sum.splits option.splits prod.splits
        intro!: db_ok_db_or elim: db_ok_model_DeleteQueue db_ok_UpdateQueueStatus)
next
  case (AaCloseQueue n)
  assume "db_ok (aDb s)"
  then show ?thesis
    by (auto simp: AaCloseQueue CloseQueue_def VCQueue_CloseQueue_def split: sum.splits prod.splits
        elim: db_ok_model_CloseQueue)
next
  case (AaDeleteQueue n)
  assume "db_ok (aDb s)"
  then show ?thesis
    by (auto simp: AaDeleteQueue DeleteQueue_def VCQueue_DeleteQueue_def split: sum.splits prod.splits
        elim: db_ok_model_DeleteQueue)
next
  case (AaDeleteUser u)
  assume "db_ok (aDb s)"
  then show ?thesis
    by (auto simp: AaDeleteUser DeleteUser_def split: sum.splits intro: db_ok_model_DeleteUser db_ok_DeleteGrantByUserName)
qed (auto simp: ctl_CreateGrant_def ctl_DeleteGrant_def CreateUser_def UpdateUser_def split: sum.splits intro: db_ok_ops)

interpretation administration: step_machine "admin_step e" "\<lambda>_. True" "\<lambda>s. db_ok (aDb s)" for e
  by unfold_locales (auto simp: admin_step_def db_ok_admin_do split: prod.splits)

text \<open>
  Whatever requests and database failures occur, the administration keeps its tables well-formed: keys
  grow and are unique, queue names, user names and grant IDs are unique, and a queue is creating,
  open or closed.
\<close>

theorem admin_tables_well_formed:
  assumes "db_ok (aDb s0)" and "reached (admin_step e) (\<lambda>_. True) s0 s"
  shows "distinct (map QName (tQueue (aDb s))) \<and> distinct (map UName (tUser (aDb s))) \<and>
     distinct (map GrID (tGrant (aDb s))) \<and> pk_table QPk (tQueue (aDb s)) \<and> pk_table UPk (tUser (aDb s)) \<and>
     pk_table GrPk (tGrant (aDb s)) \<and>
     (\<forall>q\<in>set (tQueue (aDb s)). QStatus q \<in> {StatusQueueCreating, StatusQueueOpen, StatusQueueClosed})"
  using administration.reached_inv [OF assms(2,1)] by (auto simp: db_ok_def dest: auto_table_pk)

section \<open>Rights\<close>

text \<open>The user table without the passwords of the users that \<open>user\<close> may update.\<close>

definition others_passwords :: "string \<Rightarrow> db \<Rightarrow> (int \<times> string \<times> string option) list" where
  "others_passwords user d =
     map (\<lambda>u. (UPk u, UName u, if equal_fold user (UName u) then None else Some (UPassword u))) (tUser d)"

lemma model_UpdateUser_others:
  "model_UpdateUser flt n p d = Inr d' \<Longrightarrow> equal_fold user n \<Longrightarrow>
     others_passwords user d' = others_passwords user d \<and> tQueue d' = tQueue d \<and> tGrant d' = tGrant d"
  by (auto simp: model_UpdateUser_def others_passwords_def split: if_splits)

text \<open>
  C35: A user other than root changes nothing by administrative requests except passwords, and those only of
  users whose name equals the own one up to case (who need not be the same user): no queue, no grant, no other user and no
  request to Volcano.
\<close>

theorem only_root_administrates:
  assumes "\<not> IsRootUser user" and "s' = admin_do e flt user a s"
  shows "tQueue (aDb s') = tQueue (aDb s) \<and> tGrant (aDb s') = tGrant (aDb s) \<and> aVc s' = aVc s \<and>
     others_passwords user (aDb s') = others_passwords user (aDb s)"
  unfolding assms(2)
  by (cases a)
    (use assms(1) model_UpdateUser_others [of flt _ _ "aDb s" _ user] in \<open>auto simp: CreateQueue_def check_queue_def CloseQueue_def
       DeleteQueue_def ctl_CreateGrant_def ctl_DeleteGrant_def check_grant_def CreateUser_def UpdateUser_def
       DeleteUser_def split: sum.split\<close>)

section \<open>The life of a queue\<close>

definition queue_names :: "db \<Rightarrow> string set" where
  "queue_names d = set (map QName (tQueue d))"

lemma queue_names_simps:
  "queue_names (set_queue_status n st d) = queue_names d"
  "model_CreateUser flt u d = Inr d' \<Longrightarrow> queue_names d' = queue_names d"
  "model_UpdateUser flt n p d = Inr d' \<Longrightarrow> queue_names d' = queue_names d"
  "model_DeleteUser flt n d = Inr d' \<Longrightarrow> queue_names d' = queue_names d"
  "DeleteGrantByUserName flt n d = Inr d' \<Longrightarrow> queue_names d' = queue_names d"
  "CreateGrant flt g d = Inr d' \<Longrightarrow> queue_names d' = queue_names d"
  "DeleteGrant flt n rt rid d = Inr d' \<Longrightarrow> queue_names d' = queue_names d"
  by (auto simp: queue_names_def set_queue_status_def model_CreateUser_def model_UpdateUser_def model_DeleteUser_def
      DeleteGrantByUserName_def CreateGrant_def DeleteGrant_def bindE_eq_Inr split: if_splits)

lemma queue_names_CreateQueue:
  "queue_names (aDb s) \<subseteq> queue_names (aDb (fst (CreateQueue e flt user q s)))"
proof -
  have new: "queue_names (aDb s) \<subseteq> queue_names (db_or (model_DeleteQueue flt (QiName q) d) d) \<and>
      queue_names (aDb s) \<subseteq> queue_names (db_or (UpdateQueueStatus flt (QiName q) StatusQueueOpen d) d) \<and>
      queue_names (aDb s) \<subseteq> queue_names d"
    if "model_CreateQueue flt (aeCluster e) (queue_of q) (aDb s) = Inr d" for d
  proof -
    have t: "set (tQueue (aDb s)) \<subseteq> set (tQueue d)" "QiName q \<notin> QName ` set (tQueue (aDb s))"
      using that by (auto simp: model_CreateQueue_def bindE_eq_Inr queue_of_def split: if_splits)
    have "queue_names (db_or (UpdateQueueStatus flt (QiName q) StatusQueueOpen d) d) = queue_names d"
      by (simp add: db_or_def UpdateQueueStatus_def queue_names_simps)
    moreover have "queue_names (aDb s) \<subseteq> queue_names d" using t(1) by (auto simp: queue_names_def)
    moreover have "queue_names (aDb s) \<subseteq> queue_names (db_or (model_DeleteQueue flt (QiName q) d) d)"
    proof -
      have "set (tQueue (aDb s)) \<subseteq> set (filter (\<lambda>r. QName r \<noteq> QiName q) (tQueue d))" using t by (auto simp: image_iff)
      from image_mono [OF this, of QName] image_mono [OF t(1), of QName] show ?thesis
        by (simp add: db_or_def model_DeleteQueue_def queue_names_def)
    qed
    ultimately show ?thesis by simp
  qed
  show ?thesis
  proof (cases "check_queue e flt user q (aDb s)")
    case (Inr u)
    show ?thesis
    proof (cases "model_CreateQueue flt (aeCluster e) (queue_of q) (aDb s)")
      case (Inr d)
      with new [OF Inr] \<open>check_queue e flt user q (aDb s) = Inr u\<close> show ?thesis
        by (simp add: CreateQueue_def split: option.split prod.split sum.split)
    qed (simp add: CreateQueue_def Inr)
  qed (simp add: CreateQueue_def)
qed

lemma queue_names_keep:
  assumes "\<And>n. a \<noteq> AaDeleteQueue n"
  shows "queue_names (aDb s) \<subseteq> queue_names (aDb (admin_do e flt user a s))"
proof (cases a)
  case (AaCreateQueue i)
  then show ?thesis by (simp add: queue_names_CreateQueue)
next
  case (AaCloseQueue n)
  have "queue_names (aDb s) \<subseteq> queue_names d" if "model_CloseQueue flt n (aDb s) = Inr d" for d
    using that by (auto simp: model_CloseQueue_def queue_names_simps split: if_splits)
  then show ?thesis
    by (auto simp: AaCloseQueue CloseQueue_def VCQueue_CloseQueue_def dest!: executeQueueAction_db split: sum.split prod.split)
next
  case (AaDeleteUser n)
  then show ?thesis by (simp add: DeleteUser_def queue_names_simps split: sum.split)
qed (use assms in \<open>simp_all add: ctl_CreateGrant_def ctl_DeleteGrant_def CreateUser_def UpdateUser_def
        queue_names_simps split: sum.split\<close>)

lemma GetQueue_row: "GetQueueByName flt n d = Inr q \<Longrightarrow> q \<in> set (tQueue d) \<and> QName q = n"
  by (auto simp: GetQueueByName_def split: if_splits dest: first_row_Inr)

lemma DeleteQueue_changes:
  assumes "aDb (fst (DeleteQueue e flt user n s)) \<noteq> aDb s"
  shows "\<exists>r d. GetQueueByName flt n (aDb s) = Inr r \<and> IsRootUser user \<and> QStatus r = StatusQueueClosed \<and>
     model_DeleteQueue flt n (aDb s) = Inr d \<and>
     fst (DeleteQueue e flt user n s) = s\<lparr>aVc := aVc s @ [VcDeleteQueue (QName r)], aDb := d\<rparr>"
proof (cases "GetQueueByName flt n (aDb s)")
  case (Inr r)
  have c: "IsRootUser user"
  proof (rule ccontr)
    assume "\<not> IsRootUser user"
    then show False using assms by (simp add: DeleteQueue_def)
  qed
  have st: "QStatus r = StatusQueueClosed"
  proof (rule ccontr)
    assume "QStatus r \<noteq> StatusQueueClosed"
    then show False using assms Inr c by (simp add: DeleteQueue_def)
  qed
  have v: "aeVc e (VcDeleteQueue (QName r)) = None"
  proof (rule ccontr)
    assume "aeVc e (VcDeleteQueue (QName r)) \<noteq> None"
    then show False using assms Inr c st by (auto simp: DeleteQueue_def VCQueue_DeleteQueue_def vc_call_def)
  qed
  obtain d where "model_DeleteQueue flt n (aDb s) = Inr d"
    by (cases "model_DeleteQueue flt n (aDb s)") (auto simp: model_DeleteQueue_def split: if_splits)
  with c st v Inr show ?thesis by (simp add: DeleteQueue_def VCQueue_DeleteQueue_def vc_call_def)
qed (use assms in \<open>simp add: DeleteQueue_def split: if_splits\<close>)

text \<open>
  A queue disappears in one way only: root deletes it after it was closed, Volcano has accepted the
  deletion, and every grant on the queue goes with it.
\<close>

theorem queue_removal:
  assumes "db_ok (aDb s)" and "s' = admin_do e flt user a s"
    and "q \<in> set (tQueue (aDb s))" and "QName q \<notin> set (map QName (tQueue (aDb s')))"
  shows "a = AaDeleteQueue (QName q) \<and> IsRootUser user \<and> QStatus q = StatusQueueClosed \<and>
     aVc s' = aVc s @ [VcDeleteQueue (QName q)] \<and>
     (\<forall>g\<in>set (tGrant (aDb s')). \<not> (GrResourceType g = ResourceTypeQueue \<and> GrResourceID g = QName q))"
proof -
  have q: "QName q \<in> queue_names (aDb s)" "QName q \<notin> queue_names (aDb (admin_do e flt user a s))"
    using assms by (simp_all add: queue_names_def)
  then obtain n where a: "a = AaDeleteQueue n" using queue_names_keep [of a s e flt user] by blast
  have ne: "aDb s' \<noteq> aDb s" using q assms(2) by auto
  then obtain r d where r: "GetQueueByName flt n (aDb s) = Inr r" "IsRootUser user" "QStatus r = StatusQueueClosed"
    and d: "model_DeleteQueue flt n (aDb s) = Inr d" and s': "s' = s\<lparr>aVc := aVc s @ [VcDeleteQueue (QName r)], aDb := d\<rparr>"
    using DeleteQueue_changes [of e flt user n s] assms(2) a by auto
  note row = GetQueue_row [OF r(1)]
  have "QName q = n" and g: "\<forall>g\<in>set (tGrant d). \<not> (GrResourceType g = ResourceTypeQueue \<and> GrResourceID g = n)"
    using assms(3,4) d by (auto simp: s' model_DeleteQueue_def split: if_splits)
  moreover have "q = r"
    using assms(1,3) row \<open>QName q = n\<close> unfolding db_ok_def distinct_map inj_on_def by blast
  ultimately show ?thesis using a r row s' by simp
qed

text \<open>
  A panic of \<open>MustParse\<close>, which no check of \<open>CreateQueue\<close> excludes for scalar resources, leaves the
  queue behind in status creating. It can then neither be created again nor deleted, and it cannot be
  closed, which deletion requires, because Volcano does not know it.
\<close>

theorem bad_quantity_strands_queue:
  assumes "check_queue e flt user q (aDb s) = Inr ()"
    and "model_CreateQueue flt (aeCluster e) (queue_of q) (aDb s) = Inr d"
    and "\<not> list_all (\<lambda>(k, v). aeQuantity e v) (QiScalar q)"
    and "aeGetQueue e (QiName q) \<noteq> None" and "\<not> flt2 DbCountQueue" and "\<not> flt2 DbGetQueue"
  shows "CreateQueue e flt user q s = (s\<lparr>aDb := d\<rparr>, Inl panic_code) \<and>
     (\<exists>r\<in>set (tQueue d). QName r = QiName q \<and> QStatus r = StatusQueueCreating) \<and>
     fst (CreateQueue e flt2 user q (s\<lparr>aDb := d\<rparr>)) = s\<lparr>aDb := d\<rparr> \<and>
     fst (CloseQueue e flt2 user (QiName q) (s\<lparr>aDb := d\<rparr>)) = s\<lparr>aDb := d\<rparr> \<and>
     fst (DeleteQueue e flt2 user (QiName q) (s\<lparr>aDb := d\<rparr>)) = s\<lparr>aDb := d\<rparr>"
proof -
  obtain pk where d: "tQueue d = tQueue (aDb s) @ [(queue_of q)\<lparr>QPk := pk\<rparr>]" and new: "QiName q \<notin> QName ` set (tQueue (aDb s))"
    using assms(2) by (auto simp: model_CreateQueue_def bindE_eq_Inr queue_of_def split: if_splits)
  let ?s = "s\<lparr>aDb := d\<rparr>" and ?r = "(queue_of q)\<lparr>QPk := pk\<rparr>"
  have r: "QName ?r = QiName q" "QStatus ?r = StatusQueueCreating" by (simp_all add: queue_of_def)
  have "List.find (\<lambda>x. QName x = QiName q) (tQueue d) = Some ?r"
  proof -
    have "List.find (\<lambda>x. QName x = QiName q) (xs @ [?r]) = Some ?r" if "QiName q \<notin> QName ` set xs" for xs
      using that r(1) by (induction xs) auto
    then show ?thesis using new d by simp
  qed
  then have g: "GetQueueByName flt2 (QiName q) d = Inr ?r" using assms(6) by (simp add: GetQueueByName_def first_row_def)
  have "CreateQueue e flt user q s = (?s, Inl panic_code)"
    using assms(1-3) by (auto simp: CreateQueue_def VCQueue_CreateQueue_def Let_def queue_of_def)
  moreover have "IsQueueExist flt2 (QiName q) d" using assms(5) d r by (simp add: IsQueueExist_def)
  then have "fst (CreateQueue e flt2 user q ?s) = ?s"
    by (auto simp: CreateQueue_def check_queue_def)
  moreover have "fst (CloseQueue e flt2 user (QiName q) ?s) = ?s"
    using g r(1) assms(4) by (auto simp: CloseQueue_def VCQueue_CloseQueue_def executeQueueAction_def)
  moreover have "fst (DeleteQueue e flt2 user (QiName q) ?s) = ?s"
    using g r(2) by (simp add: DeleteQueue_def queue_status_defs)
  ultimately show ?thesis using d r by (intro conjI bexI [of _ ?r]) simp_all
qed

section \<open>Grants\<close>

text \<open>Every grant belongs to an existing user, and a grant on a queue to an existing queue.\<close>

definition grants_sound :: "db \<Rightarrow> bool" where
  "grants_sound d =
     (\<forall>g\<in>set (tGrant d). GrUserName g \<in> UName ` set (tUser d) \<and>
        (GrResourceType g = ResourceTypeQueue \<longrightarrow> GrResourceID g \<in> QName ` set (tQueue d)))"

lemma grants_sound_mono:
  assumes "grants_sound d" and "set (tGrant d') \<subseteq> set (tGrant d)"
    and "UName ` set (tUser d) \<subseteq> UName ` set (tUser d')" and "QName ` set (tQueue d) \<subseteq> QName ` set (tQueue d')"
  shows "grants_sound d'"
  using assms unfolding grants_sound_def by blast

lemma grants_sound_DeleteQueue:
  assumes "grants_sound d" and "model_DeleteQueue flt n d = Inr d'"
  shows "grants_sound d'"
proof (cases "flt DbDeleteQueue \<or> flt DbDeleteQueueGrants")
  case False
  then have d': "tQueue d' = filter (\<lambda>q. QName q \<noteq> n) (tQueue d)" "tUser d' = tUser d"
    "tGrant d' = filter (\<lambda>g. \<not> (GrResourceID g = n \<and> GrResourceType g = ResourceTypeQueue)) (tGrant d)"
    using assms(2) by (auto simp: model_DeleteQueue_def)
  show ?thesis using assms(1) unfolding grants_sound_def d' by (auto simp: image_iff)
qed (use assms in \<open>simp add: model_DeleteQueue_def\<close>)

lemma grants_sound_set_status: "grants_sound d \<Longrightarrow> grants_sound (set_queue_status n st d)"
proof -
  assume s: "grants_sound d"
  have "map QName (tQueue (set_queue_status n st d)) = map QName (tQueue d)" by (simp add: set_queue_status_def)
  from arg_cong [OF this, of set] s show ?thesis by (simp add: grants_sound_def set_queue_status_def del: map_map)
qed

lemma grants_sound_CreateUser: "grants_sound d \<Longrightarrow> model_CreateUser flt u d = Inr d' \<Longrightarrow> grants_sound d'"
  by (erule grants_sound_mono) (auto simp: model_CreateUser_def bindE_eq_Inr split: if_splits)

lemma grants_sound_UpdateUser:
  "grants_sound d \<Longrightarrow> model_UpdateUser flt u p d = Inr d' \<Longrightarrow> grants_sound d'"
proof -
  assume s: "grants_sound d" and u: "model_UpdateUser flt u p d = Inr d'"
  have "map UName (tUser d') = map UName (tUser d)" and g: "tGrant d' = tGrant d" "tQueue d' = tQueue d"
    using u by (auto simp: model_UpdateUser_def split: if_splits)
  from arg_cong [OF this(1), of set] s show ?thesis by (simp add: grants_sound_def g)
qed

lemma grants_sound_CreateQueue: "grants_sound d \<Longrightarrow> model_CreateQueue flt c q d = Inr d' \<Longrightarrow> grants_sound d'"
  by (erule grants_sound_mono) (auto simp: model_CreateQueue_def bindE_eq_Inr split: if_splits)

lemma grants_sound_DeleteGrant: "grants_sound d \<Longrightarrow> DeleteGrant flt u rt rid d = Inr d' \<Longrightarrow> grants_sound d'"
  by (erule grants_sound_mono) (auto simp: DeleteGrant_def split: if_splits)

lemma checkQueue_name: "checkQueue flt n d = Inr x \<Longrightarrow> n \<in> QName ` set (tQueue d)"
  by (auto simp: checkQueue_def split: sum.splits dest!: GetQueue_row)

lemma checkUser_name: "checkUser flt n d = Inr x \<Longrightarrow> n \<in> UName ` set (tUser d)"
  by (auto simp: checkUser_def model_GetUserByName_def split: sum.splits if_splits dest!: first_row_Inr)

lemma check_grant_sound:
  "check_grant flt user u rt rid d = Inr x \<Longrightarrow>
     u \<in> UName ` set (tUser d) \<and> (rt = ResourceTypeQueue \<longrightarrow> rid \<in> QName ` set (tQueue d))"
  by (auto simp: check_grant_def checkFuncs_def bindE_eq_Inr split: if_splits dest: checkUser_name checkQueue_name)

lemma grants_sound_ctl_CreateGrant:
  assumes "grants_sound (aDb s)"
  shows "grants_sound (aDb (fst (ctl_CreateGrant flt uuid user u rt rid s)))"
proof -
  have "grants_sound d"
    if k: "check_grant flt user u rt rid (aDb s) = Inr x"
      and c: "CreateGrant flt \<lparr>GrPk = 0, GrID = uuid, GrUserName = u, GrResourceType = rt, GrResourceID = rid\<rparr> (aDb s) = Inr d" for x d
  proof -
    obtain pk where d: "d = (aDb s)\<lparr>tGrant := tGrant (aDb s) @ [\<lparr>GrPk = pk, GrID = uuid, GrUserName = u,
        GrResourceType = rt, GrResourceID = rid\<rparr>], nGrant := pk\<rparr>"
      using c by (auto simp: CreateGrant_def bindE_eq_Inr split: if_splits)
    show ?thesis using assms check_grant_sound [OF k] unfolding grants_sound_def d by auto
  qed
  with assms show ?thesis by (auto simp: ctl_CreateGrant_def split: sum.split)
qed

lemma grants_sound_DeleteUser:
  assumes "grants_sound (aDb s)" and "\<not> flt DbDeleteUserGrants"
  shows "grants_sound (aDb (fst (DeleteUser flt user u s)))"
proof -
  have "grants_sound d'" if "model_DeleteUser flt u (aDb s) = Inr d" "DeleteGrantByUserName flt u d = Inr d'" for d d'
  proof -
    have d': "tUser d' = filter (\<lambda>x. UName x \<noteq> u) (tUser (aDb s))" "tQueue d' = tQueue (aDb s)"
      "tGrant d' = filter (\<lambda>g. GrUserName g \<noteq> u) (tGrant (aDb s))"
      using that by (auto simp: model_DeleteUser_def DeleteGrantByUserName_def split: if_splits)
    show ?thesis using assms(1) unfolding grants_sound_def d' by (auto simp: image_iff)
  qed
  moreover have "\<exists>d'. DeleteGrantByUserName flt u d = Inr d'" for d using assms(2) by (simp add: DeleteGrantByUserName_def)
  ultimately show ?thesis using assms(1)
    by (auto simp: DeleteUser_def split: sum.split) (metis sum.distinct(1))
qed

lemma grants_sound_admin_do:
  assumes "grants_sound (aDb s)" and "\<not> flt DbDeleteUserGrants"
  shows "grants_sound (aDb (admin_do e flt user a s))"
proof (cases a)
  case (AaCreateQueue q)
  have "grants_sound (db_or (model_DeleteQueue flt (QiName q) d) d) \<and>
      grants_sound (db_or (UpdateQueueStatus flt (QiName q) StatusQueueOpen d) d) \<and> grants_sound d"
    if "model_CreateQueue flt (aeCluster e) (queue_of q) (aDb s) = Inr d" for d
    using grants_sound_CreateQueue [OF assms(1) that] grants_sound_DeleteQueue [of d flt "QiName q"] grants_sound_set_status
    by (simp add: db_or_def UpdateQueueStatus_def split: sum.split)
  with assms(1) show ?thesis
    by (auto simp: AaCreateQueue CreateQueue_def split: sum.split option.split prod.split dest!: VCQueue_CreateQueue_db)
next
  case (AaCloseQueue n)
  have "grants_sound d" if "model_CloseQueue flt n (aDb s) = Inr d" for d
    using that grants_sound_set_status [OF assms(1)] by (auto simp: model_CloseQueue_def split: if_splits)
  then show ?thesis using assms(1)
    by (auto simp: AaCloseQueue CloseQueue_def VCQueue_CloseQueue_def dest!: executeQueueAction_db split: sum.split prod.split)
next
  case (AaDeleteQueue n)
  then show ?thesis
    using assms(1) DeleteQueue_changes [of e flt user n s] grants_sound_DeleteQueue [OF assms(1)]
    by (cases "aDb (fst (DeleteQueue e flt user n s)) = aDb s") auto
next
  case (AaCreateGrant uuid u rt rid)
  then show ?thesis using grants_sound_ctl_CreateGrant [OF assms(1)] by simp
next
  case (AaDeleteUser u)
  then show ?thesis using grants_sound_DeleteUser [of s flt, OF assms] by simp
qed (use assms(1) in \<open>auto simp: ctl_DeleteGrant_def CreateUser_def UpdateUser_def split: sum.split
       elim: grants_sound_DeleteGrant grants_sound_CreateUser grants_sound_UpdateUser\<close>)

text \<open>The environment in which the deletion of the grants of a user does not fail.\<close>

definition user_grants_go :: "faults \<times> string \<times> admin_act \<Rightarrow> bool" where
  "user_grants_go x = (\<not> fst x DbDeleteUserGrants)"

interpretation sound_grants: step_machine "admin_step e" user_grants_go "\<lambda>s. grants_sound (aDb s)" for e
  by unfold_locales (auto simp: admin_step_def user_grants_go_def grants_sound_admin_do split: prod.splits)

text \<open>
  As long as the deletion of the grants of a deleted user does not fail, access follows the tables: a
  user other than root who has access to a queue exists, and so does the queue.
\<close>

theorem access_needs_user_and_queue:
  assumes "grants_sound (aDb s0)" and "reached (admin_step e) user_grants_go s0 s"
    and "HasAccessToResource flt user ResourceTypeQueue name (aDb s)" and "\<not> IsRootUser user"
  shows "user \<in> set (map UName (tUser (aDb s))) \<and> name \<in> set (map QName (tQueue (aDb s)))"
proof -
  have s: "grants_sound (aDb s)" by (rule sound_grants.reached_inv [OF assms(2,1)])
  obtain g where "g \<in> set (tGrant (aDb s))" "grant_matches user ResourceTypeQueue name g"
    using assms(3,4) by (auto simp: HasAccessToResource_def filter_empty_conv split: if_splits)
  with s show ?thesis by (auto simp: grants_sound_def grant_matches_def)
qed

definition demo_admin_env :: admin_env where
  "demo_admin_env =
     \<lparr>aeScalars = [''nvidia.com/gpu''], aeQuantity = RegPatternResource, aeCluster = (\<lambda>_. False), aeVc = (\<lambda>_. None),
      aeGetQueue = (\<lambda>_. Some ''not found''), aeHash = (\<lambda>p. Inr (''#'' @ p)), aeCompare = (\<lambda>h p. h = ''#'' @ p)\<rparr>"

definition empty_admin :: admin where
  "empty_admin = \<lparr>aDb = \<lparr>tGrant = [], tQueue = [], tUser = [], tJob = [], nGrant = 0, nQueue = 0, nUser = 0, dbScan = []\<rparr>, aVc = []\<rparr>"

definition demo_queue :: queue_info where
  "demo_queue = \<lparr>QiNamespace = ''ns'', QiClusterName = '''', QiName = ''gpu-a'', QiCpu = ''4'', QiMem = ''8Gi'', QiScalar = []\<rparr>"

definition no_faults :: faults where "no_faults = (\<lambda>_. False)"

definition setup_trace :: "(faults \<times> string \<times> admin_act) list" where
  "setup_trace =
     [(no_faults, ''root'', AaCreateUser ''bobby'' ''secret1''), (no_faults, ''root'', AaCreateQueue demo_queue),
      (no_faults, ''root'', AaCreateGrant ''g-1'' ''bobby'' ResourceTypeQueue ''gpu-a'')]"

definition leak_trace :: "(faults \<times> string \<times> admin_act) list" where
  "leak_trace = setup_trace @
     [((\<lambda>c. c = DbDeleteUserGrants), ''root'', AaDeleteUser ''bobby''), (no_faults, ''root'', AaCreateUser ''bobby'' ''other99'')]"

definition recreated :: "admin \<Rightarrow> admin" where
  "recreated s1 = admin_do demo_admin_env no_faults ''root'' (AaCreateUser ''bobby'' ''other99'') s1"

definition inherits :: "admin \<Rightarrow> bool" where
  "inherits s1 =
     (''bobby'' \<notin> set (map UName (tUser (aDb s1))) \<and> HasAccessToResource no_faults ''bobby'' ResourceTypeQueue ''gpu-a'' (aDb s1) \<and>
      map UPassword (tUser (aDb (recreated s1))) = [''#other99''] \<and>
      HasAccessToResource no_faults ''bobby'' ResourceTypeQueue ''gpu-a'' (aDb (recreated s1)))"

lemma leak_trace_inherits:
  "case run_acts (admin_step demo_admin_env) (butlast leak_trace) empty_admin of None \<Rightarrow> False | Some s1 \<Rightarrow> inherits s1"
  by code_simp

text \<open>
  \<open>DeleteUser\<close> removes the user and the grants of the user in two transactions. If the second fails,
  the grants survive, and whoever gets the name next inherits them: after the failure the account
  does not exist although it has access, and a new account of that name has the access of the old.
\<close>

theorem deleted_user_leaves_access:
  "\<exists>s1 s2. reached (admin_step demo_admin_env) (\<lambda>_. True) empty_admin s1 \<and>
     ''bobby'' \<notin> set (map UName (tUser (aDb s1))) \<and> HasAccessToResource no_faults ''bobby'' ResourceTypeQueue ''gpu-a'' (aDb s1) \<and>
     admin_step demo_admin_env (no_faults, ''root'', AaCreateUser ''bobby'' ''other99'') s1 = Some s2 \<and>
     map UPassword (tUser (aDb s2)) = [''#other99''] \<and>
     HasAccessToResource no_faults ''bobby'' ResourceTypeQueue ''gpu-a'' (aDb s2)"
proof -
  obtain s1 where s1: "run_acts (admin_step demo_admin_env) (butlast leak_trace) empty_admin = Some s1" and i: "inherits s1"
    using leak_trace_inherits by (rule case_option_obtain)
  have r: "reached (admin_step demo_admin_env) (\<lambda>_. True) empty_admin s1"
    by (rule reached_acts [OF s1]) (simp add: list_all_iff)
  have "admin_step demo_admin_env (no_faults, ''root'', AaCreateUser ''bobby'' ''other99'') s1 = Some (recreated s1)"
    by (simp only: admin_step_def prod.case recreated_def)
  with r i [unfolded inherits_def] show ?thesis
    by (intro exI [of _ s1] exI [of _ "recreated s1"] conjI) (elim conjE; assumption)+
qed

section \<open>Lists\<close>

lemma last_row_True: "rows \<noteq> [] \<Longrightarrow> last_row (\<lambda>_. True) rows = Inr (last rows)"
  by (cases rows rule: rev_cases) (simp_all add: last_row_def first_row_def)

text \<open>The query of \<open>ListQueue\<close> in the form of the page protocol.\<close>

definition sees_queue :: "string \<Rightarrow> string \<Rightarrow> db \<Rightarrow> queue_row \<Rightarrow> bool" where
  "sees_queue user name d q =
     ((IsRootUser user \<or> list_ex (\<lambda>g. GrResourceID g = QName q \<and> GrUserName g = user) (tGrant d)) \<and>
      (name = '''' \<or> QName q = name))"

definition one_grant_each :: "string \<Rightarrow> db \<Rightarrow> bool" where
  "one_grant_each user d =
     list_all (\<lambda>q. length (filter (\<lambda>g. GrResourceID g = QName q \<and> GrUserName g = user) (tGrant d)) \<le> 1) (tQueue d)"

lemma concat_single:
  assumes "\<forall>q\<in>set qs. length (filter (P q) gs) \<le> 1"
  shows "concat (map (\<lambda>q. map (\<lambda>g. q) (filter (P q) gs)) qs) = filter (\<lambda>q. list_ex (P q) gs) qs"
  using assms
proof (induction qs)
  case (Cons q qs)
  have "map (\<lambda>g. q) (filter (P q) gs) = (if list_ex (P q) gs then [q] else [])"
  proof (cases "filter (P q) gs")
    case Nil
    then show ?thesis by (simp add: filter_empty_conv list_ex_iff)
  next
    case (Cons a as)
    then have "as = []" using Cons.prems by (cases as) simp_all
    moreover have "a \<in> set (filter (P q) gs)" using Cons by simp
    then have "list_ex (P q) gs" by (auto simp: list_ex_iff)
    ultimately show ?thesis using Cons by simp
  qed
  with Cons show ?case by simp
qed simp

lemma equal_fold_empty: "equal_fold s '''' = (s = '''')"
  by (simp add: equal_fold_def to_lower_def)

lemma model_ListQueue_page:
  assumes "one_grant_each user d" and "\<not> flt DbListQueue"
  shows "rows_or_nil (model_ListQueue flt user pk maxKeys name d) =
     limit_rows maxKeys (scan (dbScan d) QPk (rows_after QPk (sees_queue user name d) pk (tQueue d)))"
proof -
  have "concat (map (\<lambda>q. map (\<lambda>g. q) (filter (\<lambda>g. GrResourceID g = QName q \<and> GrUserName g = user) (tGrant d))) (tQueue d)) =
      filter (\<lambda>q. list_ex (\<lambda>g. GrResourceID g = QName q \<and> GrUserName g = user) (tGrant d)) (tQueue d)"
    by (rule concat_single) (use assms(1) in \<open>simp add: one_grant_each_def list_all_iff\<close>)
  then show ?thesis using assms(2)
    by (simp add: model_ListQueue_def Let_def rows_after_def sees_queue_def equal_fold_empty conj_commute conj_left_commute)
qed

interpretation queues: paged_table tQueue QPk "\<lambda>d. db_ok d \<and> in_key_order (dbScan d) \<and> \<not> flt DbLastQueue"
    "\<lambda>d keep maxKeys pk. limit_rows maxKeys (scan (dbScan d) QPk (rows_after QPk keep pk (tQueue d)))" "\<lambda>d. pk_or_0 QPk (GetLastQueue flt d)" for flt
  by unfold_locales (auto simp: db_ok_def auto_table_pk scan_in_order GetLastQueue_def last_row_True pk_or_0_def)

interpretation grants: paged_table tGrant GrPk "\<lambda>d. db_ok d \<and> in_key_order (dbScan d) \<and> \<not> flt DbLastGrant"
    "\<lambda>d keep maxKeys pk. limit_rows maxKeys (scan (dbScan d) GrPk (rows_after GrPk keep pk (tGrant d)))" "\<lambda>d. pk_or_0 GrPk (GetLastGrant flt d)" for flt
  by unfold_locales (auto simp: db_ok_def auto_table_pk scan_in_order GetLastGrant_def last_row_True pk_or_0_def)

interpretation users: paged_table tUser UPk "\<lambda>d. db_ok d \<and> in_key_order (dbScan d) \<and> \<not> flt DbLastUser"
    "\<lambda>d keep maxKeys pk. limit_rows maxKeys (scan (dbScan d) UPk (rows_after UPk keep pk (tUser d)))" "\<lambda>d. pk_or_0 UPk (GetLastUser flt d)" for flt
  by unfold_locales (auto simp: db_ok_def auto_table_pk scan_in_order GetLastUser_def last_row_True pk_or_0_def)

lemma ListGrant_complete:
  assumes "cipher_ok enc dec" and "db_ok d" and "\<not> flt DbListGrant" and "\<not> flt DbLastGrant" and "IsRootUser user" and "in_key_order (dbScan d)"
  shows "let rows = filter (\<lambda>g. name = '''' \<or> GrUserName g = name) (tGrant d)
     in collect_pages (length rows + 1) (ListGrant flt enc dec user maxKeys name d) '''' = Some rows"
proof -
  have q: "rows_or_nil (model_ListGrant flt pk maxKeys name d) =
      limit_rows maxKeys (scan (dbScan d) GrPk (rows_after GrPk (\<lambda>g. name = '''' \<or> GrUserName g = name) pk (tGrant d)))" for pk
    using assms(3) by (simp add: model_ListGrant_def rows_after_def)
  have "ListGrant flt enc dec user maxKeys name d = (\<lambda>m. page_result (list_page enc dec GrPk
      (\<lambda>pk. limit_rows maxKeys (scan (dbScan d) GrPk (rows_after GrPk (\<lambda>g. name = '''' \<or> GrUserName g = name) pk (tGrant d))))
      (pk_or_0 GrPk (GetLastGrant flt d)) m))"
    using assms(5) by (intro ext) (simp add: ListGrant_def q)
  then show ?thesis
    using grants.pages_complete [of enc dec d flt "\<lambda>g. name = '''' \<or> GrUserName g = name" maxKeys] assms
    by (simp add: Let_def)
qed

text \<open>
  Following the markers of \<open>ListQueue\<close> shows, for every page size, each queue exactly once in the order
  of creation: to root all queues, to any other user the queues named by one of the user's grants,
  whatever type of resource that grant is for.
\<close>

theorem ListQueue_pages_complete:
  assumes "cipher_ok enc dec" and "db_ok d" and "one_grant_each user d" and "\<not> flt DbListQueue" and "\<not> flt DbLastQueue" and "in_key_order (dbScan d)"
  shows "let rows = filter (sees_queue user name d) (tQueue d)
     in collect_pages (length rows + 1) (ListQueue flt enc dec user maxKeys name d) '''' = Some rows"
proof -
  have "ListQueue flt enc dec user maxKeys name d = (\<lambda>m. page_result (list_page enc dec QPk
      (\<lambda>pk. limit_rows maxKeys (scan (dbScan d) QPk (rows_after QPk (sees_queue user name d) pk (tQueue d))))
      (pk_or_0 QPk (GetLastQueue flt d)) m))"
    by (intro ext) (simp add: ListQueue_def model_ListQueue_page [of user d flt, OF assms(3,4)])
  then show ?thesis
    using queues.pages_complete [of enc dec d flt "sees_queue user name d" maxKeys] assms by (simp add: Let_def)
qed

section \<open>Names that differ in case\<close>

definition case_trace :: "(faults \<times> string \<times> admin_act) list" where
  "case_trace =
     [(no_faults, ''root'', AaCreateUser ''Bobby'' ''secret1''), (no_faults, ''root'', AaCreateUser ''bobby'' ''other99''),
      (no_faults, ''bobby'', AaUpdateUser ''Bobby'' ''stolen7'')]"

definition stolen :: "admin \<Rightarrow> bool" where
  "stolen s =
     (map UName (tUser (aDb s)) = [''Bobby'', ''bobby''] \<and>
      Login demo_admin_env no_faults ''Bobby'' ''secret1'' False (aDb s) = Inl AuthFailed \<and>
      (case Login demo_admin_env no_faults ''Bobby'' ''stolen7'' False (aDb s) of Inl _ \<Rightarrow> False | Inr u \<Rightarrow> UName u = ''Bobby''))"

lemma case_trace_stolen:
  "case run_acts (admin_step demo_admin_env) case_trace empty_admin of None \<Rightarrow> False | Some s \<Rightarrow> stolen s"
  by code_simp

text \<open>
  User names are case-sensitive, but \<open>UpdateUser\<close> compares them with \<open>EqualFold\<close>: the user bobby can
  set the password of the user Bobby and log in under that name.
\<close>

theorem password_of_other_case:
  "\<exists>s. reached (admin_step demo_admin_env) (\<lambda>_. True) empty_admin s \<and> map UName (tUser (aDb s)) = [''Bobby'', ''bobby''] \<and>
     Login demo_admin_env no_faults ''Bobby'' ''secret1'' False (aDb s) = Inl AuthFailed \<and>
     (case Login demo_admin_env no_faults ''Bobby'' ''stolen7'' False (aDb s) of Inl _ \<Rightarrow> False | Inr u \<Rightarrow> UName u = ''Bobby'')"
proof -
  obtain s where s: "run_acts (admin_step demo_admin_env) case_trace empty_admin = Some s" and t: "stolen s"
    using case_trace_stolen by (rule case_option_obtain)
  have "reached (admin_step demo_admin_env) (\<lambda>_. True) empty_admin s"
    by (rule reached_acts [OF s]) (simp add: list_all_iff)
  with t [unfolded stolen_def] show ?thesis by (intro exI [of _ s] conjI) (elim conjE; assumption)+
qed

section \<open>Witnesses\<close>

definition set_up :: admin where
  "set_up = the (run_acts (admin_step demo_admin_env) setup_trace empty_admin)"

lemma set_up_reached:
  assumes "\<And>x. x \<in> set setup_trace \<Longrightarrow> ok x"
  shows "reached (admin_step demo_admin_env) ok empty_admin set_up"
proof -
  have "run_acts (admin_step demo_admin_env) setup_trace empty_admin = Some set_up"
    by (simp add: set_up_def setup_trace_def admin_step_def)
  then show ?thesis by (rule reached_acts) (use assms in \<open>simp add: list_all_iff\<close>)
qed

lemma empty_admin_ok: "db_ok (aDb empty_admin)" "grants_sound (aDb empty_admin)"
  by (simp_all add: empty_admin_def db_ok_def auto_table_def grants_sound_def)

lemma set_up_ok: "db_ok (aDb set_up)"
  using administration.reached_inv [OF set_up_reached empty_admin_ok(1)] by simp

lemma admin_tables_well_formed_witness: "distinct (map QName (tQueue (aDb set_up)))"
  using admin_tables_well_formed [OF empty_admin_ok(1) set_up_reached] by simp

lemma alice_not_root: "\<not> IsRootUser ''alice''" "\<not> IsRootUser ''bobby''"
  by (simp_all add: IsRootUser_def equal_fold_def to_lower_def to_lower_char_def is_upper_def)

lemma only_root_administrates_witness:
  "tQueue (aDb (admin_do demo_admin_env no_faults ''alice'' (AaDeleteQueue ''gpu-a'') set_up)) = tQueue (aDb set_up)"
  by (rule only_root_administrates [OF alice_not_root(1) refl, THEN conjunct1])

lemma access_needs_user_and_queue_witness:
  "''bobby'' \<in> set (map UName (tUser (aDb set_up))) \<and> ''gpu-a'' \<in> set (map QName (tQueue (aDb set_up)))"
proof (rule access_needs_user_and_queue [OF empty_admin_ok(2) set_up_reached _ alice_not_root(2)])
  show "user_grants_go x" if "x \<in> set setup_trace" for x
    using that by (auto simp: setup_trace_def user_grants_go_def no_faults_def)
  show "HasAccessToResource no_faults ''bobby'' ResourceTypeQueue ''gpu-a'' (aDb set_up)" by code_simp
qed

lemma queue_removal_witness:
  "\<exists>n. aVc (admin_do demo_admin_env no_faults ''root'' (AaDeleteQueue ''gpu-a'') (set_up\<lparr>aDb := set_queue_status ''gpu-a'' StatusQueueClosed (aDb set_up)\<rparr>)) =
     aVc set_up @ [VcDeleteQueue n]"
proof -
  let ?s = "set_up\<lparr>aDb := set_queue_status ''gpu-a'' StatusQueueClosed (aDb set_up)\<rparr>"
  have ok: "db_ok (aDb ?s)" using db_ok_set_status [OF set_up_ok] by simp
  have "map QName (tQueue (aDb (set_up\<lparr>aDb := set_queue_status ''gpu-a'' StatusQueueClosed (aDb set_up)\<rparr>))) = [''gpu-a''] \<and>
     tQueue (aDb (admin_do demo_admin_env no_faults ''root'' (AaDeleteQueue ''gpu-a'') (set_up\<lparr>aDb := set_queue_status ''gpu-a'' StatusQueueClosed (aDb set_up)\<rparr>))) = []"
    by code_simp
  then obtain q where q: "q \<in> set (tQueue (aDb ?s))"
    "QName q \<notin> set (map QName (tQueue (aDb (admin_do demo_admin_env no_faults ''root'' (AaDeleteQueue ''gpu-a'') ?s))))" by force
  from queue_removal [OF ok refl q] have "aVc (admin_do demo_admin_env no_faults ''root'' (AaDeleteQueue ''gpu-a'') ?s) =
      aVc ?s @ [VcDeleteQueue (QName q)]" by (elim conjE)
  also have "aVc ?s = aVc set_up" by simp
  finally have removed: "aVc (admin_do demo_admin_env no_faults ''root'' (AaDeleteQueue ''gpu-a'') ?s) =
      aVc set_up @ [VcDeleteQueue (QName q)]" .
  then show ?thesis by (intro exI [of _ "QName q"])
qed

definition bad_queue :: queue_info where
  "bad_queue = \<lparr>QiNamespace = ''ns'', QiClusterName = '''', QiName = ''gpu-b'', QiCpu = ''4'', QiMem = ''8Gi'',
     QiScalar = [(''nvidia.com/gpu'', ''two'')]\<rparr>"

lemma bad_quantity_strands_queue_witness:
  "\<exists>d. CreateQueue demo_admin_env no_faults ''root'' bad_queue empty_admin = (empty_admin\<lparr>aDb := d\<rparr>, Inl panic_code)"
proof -
  have c: "check_queue demo_admin_env no_faults ''root'' bad_queue (aDb empty_admin) = Inr ()" by code_simp
  have "case model_CreateQueue no_faults (aeCluster demo_admin_env) (queue_of bad_queue) (aDb empty_admin) of Inl _ \<Rightarrow> False | Inr _ \<Rightarrow> True"
    by code_simp
  then obtain d where d: "model_CreateQueue no_faults (aeCluster demo_admin_env) (queue_of bad_queue) (aDb empty_admin) = Inr d"
    by (cases "model_CreateQueue no_faults (aeCluster demo_admin_env) (queue_of bad_queue) (aDb empty_admin)") simp_all
  have q: "\<not> list_all (\<lambda>(k, v). aeQuantity demo_admin_env v) (QiScalar bad_queue)" by code_simp
  have g: "aeGetQueue demo_admin_env (QiName bad_queue) \<noteq> None" by (simp add: demo_admin_env_def)
  have f: "\<not> no_faults DbCountQueue" "\<not> no_faults DbGetQueue" by (simp_all add: no_faults_def)
  from bad_quantity_strands_queue [OF c d q g f] show ?thesis by blast
qed

lemma ListQueue_pages_complete_witness:
  "collect_pages 2 (ListQueue no_faults (\<lambda>b. rev b) (\<lambda>b. rev b) ''bobby'' 1 '''' (aDb set_up)) '''' = Some (tQueue (aDb set_up))"
proof -
  have c: "cipher_ok (\<lambda>b. rev b) (\<lambda>b. rev b)" by (simp add: cipher_ok_def)
  have "filter (sees_queue ''bobby'' '''' (aDb set_up)) (tQueue (aDb set_up)) = tQueue (aDb set_up) \<and> length (tQueue (aDb set_up)) = 1 \<and>
    one_grant_each ''bobby'' (aDb set_up)" by code_simp
  moreover have "dbScan (aDb set_up) = []" by code_simp
  ultimately show ?thesis
    using ListQueue_pages_complete [OF c set_up_ok, of "''bobby''" no_faults "''''" 1]
    by (simp add: no_faults_def in_key_order_def numeral_2_eq_2 Let_def del: collect_pages.simps)
qed

end
