(* ===== verification/PF_Path.thy ===== *)
theory PF_Path
  imports PF_Prelude
begin

text \<open>
  What the file system client uses of package \<open>path\<close>: \<open>Clean\<close>, \<open>Join\<close>, \<open>Dir\<close> and \<open>Base\<close>. A path is
  rewritten component by component, which is what the loop of the library does; \<open>abs_path\<close> writes an
  absolute path from its components, and a list of components is \<open>normal\<close> when \<open>Clean\<close> leaves it alone.
\<close>

section \<open>Clean and Join\<close>

abbreviation slash :: char where
  "slash \<equiv> CHR 0x2F"

definition path_comps :: "string \<Rightarrow> string list" where
  "path_comps s = filter (\<lambda>w. w \<noteq> '''' \<and> w \<noteq> ''.'') (split_on slash s)"

text \<open>The output as a stack: \<open>..\<close> removes the last component, stays at the top of a relative path, and
  vanishes at the root.\<close>

definition clean_comp :: "bool \<Rightarrow> string list \<Rightarrow> string \<Rightarrow> string list" where
  "clean_comp rooted out w =
     (if w = ''..''
      then (case out of [] \<Rightarrow> if rooted then [] else [w] | v # vs \<Rightarrow> if v = ''..'' then w # out else vs)
      else w # out)"

definition clean_comps :: "bool \<Rightarrow> string \<Rightarrow> string list" where
  "clean_comps rooted s = rev (foldl (clean_comp rooted) [] (path_comps s))"

definition path_Clean :: "string \<Rightarrow> string" where
  "path_Clean s =
     (if s = '''' then ''.''
      else if hd s = slash then slash # join_with slash (clean_comps True s)
      else if clean_comps False s = [] then ''.''
      else join_with slash (clean_comps False s))"

definition path_Join :: "string list \<Rightarrow> string" where
  "path_Join elems =
     (if list_all (\<lambda>e. e = '''') elems then '''' else path_Clean (join_with slash (filter (\<lambda>e. e \<noteq> '''') elems)))"

text \<open>\<open>Split\<close> cuts after the last slash.\<close>

definition path_Dir :: "string \<Rightarrow> string" where
  "path_Dir s = path_Clean (rev (dropWhile (\<lambda>c. c \<noteq> slash) (rev s)))"

definition path_Base :: "string \<Rightarrow> string" where
  "path_Base s =
     (if s = '''' then ''.''
      else let t = rev (dropWhile (\<lambda>c. c = slash) (rev s))
           in if t = '''' then [slash] else rev (takeWhile (\<lambda>c. c \<noteq> slash) (rev t)))"

section \<open>Absolute paths\<close>

definition proper_name :: "string \<Rightarrow> bool" where
  "proper_name w = (w \<noteq> '''' \<and> w \<noteq> ''.'' \<and> w \<noteq> ''..'' \<and> slash \<notin> set w)"

lemma proper_name_dots [simp]: "\<not> proper_name ''..''" "\<not> proper_name ''.''" "\<not> proper_name ''''"
  by (simp_all add: proper_name_def)

abbreviation normal :: "string list \<Rightarrow> bool" where
  "normal ws \<equiv> list_all proper_name ws"

definition abs_path :: "string list \<Rightarrow> string" where
  "abs_path ws = slash # join_with slash ws"

definition segs :: "string list \<Rightarrow> string" where
  "segs ws = concat (map (Cons slash) ws)"

lemma segs_simps [simp]:
  "segs [] = ''''" "segs (w # ws) = slash # w @ segs ws" "segs (ws @ vs) = segs ws @ segs vs"
  by (simp_all add: segs_def)

lemma abs_path_Nil [simp]: "abs_path [] = [slash]"
  by (simp add: abs_path_def)

lemma abs_path_segs: "ws \<noteq> [] \<Longrightarrow> abs_path ws = segs ws"
  unfolding abs_path_def
  by (induction slash ws rule: join_with.induct) simp_all

lemma split_on_sep: "split_on c (s @ c # t) = split_on c s @ split_on c t"
proof (induction s)
  case (Cons x s)
  then show ?case by (cases "split_on c s") simp_all
qed simp

lemma split_on_segs: "normal ws \<Longrightarrow> split_on slash (segs ws) = [] # ws"
proof (induction ws rule: rev_induct)
  case (snoc w ws)
  then have "split_on slash (segs ws @ slash # w) = ([] # ws) @ split_on slash w"
    by (simp add: split_on_sep)
  moreover have "split_on slash w = [w]"
    using snoc.prems by (intro split_on_id) (simp add: proper_name_def)
  ultimately show ?case by simp
qed simp

lemma path_comps_segs: "normal ws \<Longrightarrow> path_comps (segs ws) = ws"
  unfolding path_comps_def split_on_segs
  by (auto simp: filter_id_conv list_all_iff proper_name_def split_on_segs)

lemma path_comps_abs: "normal ws \<Longrightarrow> path_comps (abs_path ws) = ws"
  by (cases "ws = []") (simp_all add: abs_path_segs path_comps_segs, simp add: path_comps_def)

lemma foldl_clean_normal: "normal ws \<Longrightarrow> foldl (clean_comp rooted) out ws = rev ws @ out"
  by (induction ws arbitrary: out) (simp_all add: clean_comp_def proper_name_def)

lemma clean_comps_abs: "normal ws \<Longrightarrow> clean_comps rooted (abs_path ws) = ws"
  by (simp add: clean_comps_def path_comps_abs foldl_clean_normal)

lemma path_Clean_abs: "normal ws \<Longrightarrow> path_Clean (abs_path ws) = abs_path ws"
  by (simp add: path_Clean_def clean_comps_abs) (simp add: abs_path_def)

lemma abs_path_inj: "normal ws \<Longrightarrow> normal vs \<Longrightarrow> abs_path ws = abs_path vs \<Longrightarrow> ws = vs"
  by (metis path_comps_abs)

text \<open>The result of \<open>Clean\<close> on a rooted path is an absolute path of normal components.\<close>

lemma set_path_comps: "w \<in> set (path_comps s) \<Longrightarrow> w \<noteq> '''' \<and> w \<noteq> ''.'' \<and> slash \<notin> set w"
  by (auto simp: path_comps_def dest: split_on_no_sep)

lemma foldl_clean_rooted:
  assumes "normal out" and "\<And>w. w \<in> set ws \<Longrightarrow> w \<noteq> '''' \<and> w \<noteq> ''.'' \<and> slash \<notin> set w"
  shows "normal (foldl (clean_comp True) out ws)"
  using assms
proof (induction ws arbitrary: out)
  case (Cons w ws)
  have "normal (clean_comp True out w)"
    using Cons.prems(1) Cons.prems(2) [of w]
    by (cases out) (auto simp: clean_comp_def proper_name_def [of w])
  then show ?case using Cons by simp
qed simp

lemma normal_clean_comps: "normal (clean_comps True s)"
  unfolding clean_comps_def list_all_rev
  by (rule foldl_clean_rooted) (simp, erule set_path_comps)

lemma path_Clean_rooted: "path_Clean (slash # s) = abs_path (clean_comps True (slash # s))"
  by (simp add: path_Clean_def abs_path_def)

lemma path_Clean_idem: "path_Clean (path_Clean (slash # s)) = path_Clean (slash # s)"
  unfolding path_Clean_rooted by (rule path_Clean_abs [OF normal_clean_comps])

text \<open>Joining a name to an absolute path appends it.\<close>

lemma path_Join_abs:
  assumes "normal ws" and "proper_name w"
  shows "path_Join [abs_path ws, w] = abs_path (ws @ [w])"
proof -
  have w: "w \<noteq> ''''" "normal (ws @ [w])" using assms by (simp_all add: proper_name_def)
  have "path_comps (abs_path ws @ slash # w) = path_comps (abs_path ws) @ path_comps w"
    unfolding path_comps_def split_on_sep by simp
  also have "\<dots> = ws @ [w]"
    using assms by (simp add: path_comps_abs) (simp add: path_comps_def proper_name_def split_on_id)
  finally have comps: "clean_comps True (abs_path ws @ slash # w) = ws @ [w]"
    using foldl_clean_normal [OF w(2), of True "[]"] by (simp add: clean_comps_def del: foldl_append)
  have "path_Join [abs_path ws, w] = path_Clean (abs_path ws @ slash # w)"
    using w(1) by (simp add: path_Join_def abs_path_def)
  also have "\<dots> = slash # join_with slash (clean_comps True (abs_path ws @ slash # w))"
    by (simp add: path_Clean_def abs_path_def)
  finally show ?thesis unfolding comps by (simp add: abs_path_def)
qed

section \<open>Prefixes\<close>

text \<open>A path lies below a directory when its components extend those of the directory.\<close>

lemma segs_below:
  assumes "normal ks" and "normal ts"
  shows "segs ts = segs ks @ slash # r \<longleftrightarrow> (\<exists>rest. rest \<noteq> [] \<and> ts = ks @ rest \<and> r = join_with slash rest)"
proof
  assume eq: "segs ts = segs ks @ slash # r"
  have "[] # ts = split_on slash (segs ks) @ split_on slash r"
    using split_on_segs [OF assms(2)] unfolding eq split_on_sep by simp
  then have "ts = ks @ split_on slash r" using split_on_segs [OF assms(1)] by simp
  then show "\<exists>rest. rest \<noteq> [] \<and> ts = ks @ rest \<and> r = join_with slash rest"
    by (intro exI [of _ "split_on slash r"]) (simp add: join_with_split_on)
next
  assume "\<exists>rest. rest \<noteq> [] \<and> ts = ks @ rest \<and> r = join_with slash rest"
  then obtain rest where rest: "rest \<noteq> []" "ts = ks @ rest" "r = join_with slash rest" by blast
  have "segs rest = slash # join_with slash rest" using abs_path_segs [OF rest(1)] by (simp add: abs_path_def)
  with rest show "segs ts = segs ks @ slash # r" by simp
qed

end
