(* ===== verification/PF_Inode.thy ===== *)
theory PF_Inode
  imports PF_Path
begin

text \<open>
  The inode table of the file system client (\<open>pkg/fs/client/meta/inode.go\<close>). An \<open>Inode\<close> object is known
  by its number, since every object is entered into \<open>handles\<close> when it is made and never leaves it; the
  pointer \<open>parent\<close> is the number of the parent, and a nil map of children is \<open>None\<close>. A result \<open>None\<close> of an
  operation is a panic: a nil node, or an assignment to a nil map. Node numbers do not wrap.
\<close>

type_synonym ino = nat

record inode =
  NdName :: string
  NdParent :: "ino option"
  NdChild :: "ino gomap option"

record inode_handle =
  IhNodes :: "(ino \<times> inode) list"
  IhNext :: nat

section \<open>Operations\<close>

definition NewInodeHandle :: inode_handle where
  "NewInodeHandle = \<lparr>IhNodes = [], IhNext = 1\<rparr>"

definition rootInodeID :: ino where "rootInodeID = 1"

definition toInode :: "inode_handle \<Rightarrow> ino \<Rightarrow> inode option" where
  "toInode h i = mget (IhNodes h) i"

definition set_node :: "ino \<Rightarrow> inode \<Rightarrow> inode_handle \<Rightarrow> inode_handle" where
  "set_node i nd h = h\<lparr>IhNodes := mput i nd (IhNodes h)\<rparr>"

definition InitRootNode :: "inode_handle \<Rightarrow> inode_handle" where
  "InitRootNode h =
     (if toInode h rootInodeID = None
      then (set_node rootInodeID \<lparr>NdName = '''', NdParent = None, NdChild = Some []\<rparr> h)\<lparr>IhNext := IhNext h + 1\<rparr>
      else h)"

definition NewInode :: "string \<Rightarrow> bool \<Rightarrow> inode_handle \<Rightarrow> inode_handle \<times> ino" where
  "NewInode name isDir h =
     ((set_node (IhNext h) \<lparr>NdName = name, NdParent = None, NdChild = (if isDir then Some [] else None)\<rparr> h)
        \<lparr>IhNext := IhNext h + 1\<rparr>, IhNext h)"

text \<open>The loop from a node up to the root; the fuel is spent only if the parents run in a circle.\<close>

fun path_up :: "nat \<Rightarrow> inode_handle \<Rightarrow> inode \<Rightarrow> string list option" where
  "path_up 0 h nd = None"
| "path_up (Suc n) h nd =
     (case NdParent nd of
        None \<Rightarrow> Some []
      | Some p \<Rightarrow>
          (case toInode h p of
             None \<Rightarrow> None
           | Some pn \<Rightarrow> map_option (\<lambda>ws. ws @ [NdName nd]) (path_up n h pn)))"

definition InodeToPath :: "inode_handle \<Rightarrow> inode \<Rightarrow> string option" where
  "InodeToPath h nd =
     (if NdParent nd = None then Some [slash] else map_option segs (path_up (IhNext h + 1) h nd))"

definition ParentInodeToPath :: "inode_handle \<Rightarrow> inode \<Rightarrow> string \<Rightarrow> string option" where
  "ParentInodeToPath h parent name = map_option (\<lambda>p. path_Join [p, name]) (InodeToPath h parent)"

definition InoToPath :: "inode_handle \<Rightarrow> ino \<Rightarrow> string option" where
  "InoToPath h i = (case toInode h i of None \<Rightarrow> None | Some nd \<Rightarrow> InodeToPath h nd)"

text \<open>A component that is not known is skipped.\<close>

definition path_step :: "inode_handle \<Rightarrow> ino \<Rightarrow> string \<Rightarrow> ino" where
  "path_step h parent name =
     (if name = '''' then parent
      else case toInode h parent of
        None \<Rightarrow> parent
      | Some nd \<Rightarrow> (case NdChild nd of
            None \<Rightarrow> parent
          | Some cs \<Rightarrow> (case mget cs name of None \<Rightarrow> parent | Some n \<Rightarrow> n)))"

definition PathToInode :: "inode_handle \<Rightarrow> string \<Rightarrow> ino" where
  "PathToInode h path = foldl (path_step h) rootInodeID (split_on slash path)"

definition AddChild :: "ino \<Rightarrow> string \<Rightarrow> ino \<Rightarrow> inode_handle \<Rightarrow> inode_handle option" where
  "AddChild n name c h =
     (case (toInode h n, toInode h c) of
        (Some nd, Some cn) \<Rightarrow>
          (case NdChild nd of
             None \<Rightarrow> None
           | Some cs \<Rightarrow>
               Some (set_node c (cn\<lparr>NdParent := Some n\<rparr>) (set_node n (nd\<lparr>NdChild := Some (mput name c cs)\<rparr>) h)))
      | _ \<Rightarrow> None)"

definition NewChild :: "ino \<Rightarrow> string \<Rightarrow> bool \<Rightarrow> inode_handle \<Rightarrow> (inode_handle \<times> ino) option" where
  "NewChild n name isDir h =
     (if toInode h n = None then None
      else case NewInode name isDir h of (h1, c) \<Rightarrow> map_option (\<lambda>h2. (h2, c)) (AddChild n name c h1))"

definition child_of :: "inode_handle \<Rightarrow> ino \<Rightarrow> string \<Rightarrow> ino option" where
  "child_of h n name =
     (case toInode h n of None \<Rightarrow> None | Some nd \<Rightarrow> (case NdChild nd of None \<Rightarrow> None | Some cs \<Rightarrow> mget cs name))"

definition GetChild :: "inode_handle \<Rightarrow> ino \<Rightarrow> string \<Rightarrow> ino" where
  "GetChild h n name = (case child_of h n name of None \<Rightarrow> 0 | Some c \<Rightarrow> c)"

definition RmChild :: "ino \<Rightarrow> string \<Rightarrow> inode_handle \<Rightarrow> (inode_handle \<times> ino) option" where
  "RmChild n name h =
     (case toInode h n of
        None \<Rightarrow> None
      | Some nd \<Rightarrow>
          (case child_of h n name of
             None \<Rightarrow> Some (h, 0)
           | Some c \<Rightarrow>
               (if c = 0 then Some (h, 0)
                else (let h1 = set_node n (nd\<lparr>NdChild := map_option (mdel name) (NdChild nd)\<rparr>) h
                      in case toInode h1 c of
                           None \<Rightarrow> None
                         | Some cn \<Rightarrow> Some (set_node c (cn\<lparr>NdParent := None\<rparr>) h1, c)))))"

definition IsDir :: "inode \<Rightarrow> bool" where
  "IsDir nd = (NdChild nd \<noteq> None)"

section \<open>The shape of the table\<close>

text \<open>Parents are older than their children, and an entry of a directory names a node that names the
  directory as its parent. The converse need not hold: \<open>Rename\<close> puts a new node over the entry of an old
  one.\<close>

definition node_ok :: "inode_handle \<Rightarrow> ino \<Rightarrow> inode \<Rightarrow> bool" where
  "node_ok h i nd =
     ((case NdParent nd of None \<Rightarrow> True | Some p \<Rightarrow> p < i \<and> toInode h p \<noteq> None) \<and>
      (case NdChild nd of None \<Rightarrow> True | Some cs \<Rightarrow>
         wf_map cs \<and> (\<forall>k c. mget cs k = Some c \<longrightarrow>
           (\<exists>cn. toInode h c = Some cn \<and> NdName cn = k \<and> NdParent cn = Some i))))"

definition tree_ok :: "inode_handle \<Rightarrow> bool" where
  "tree_ok h =
     ((\<forall>i nd. toInode h i = Some nd \<longrightarrow> 1 \<le> i \<and> i < IhNext h \<and> node_ok h i nd) \<and>
      (\<exists>nd. toInode h rootInodeID = Some nd \<and> NdChild nd \<noteq> None))"

lemma toInode_set [simp]: "toInode (set_node i nd h) j = (if j = i then Some nd else toInode h j)"
  by (simp add: toInode_def set_node_def)

lemma IhNext_set [simp]: "IhNext (set_node i nd h) = IhNext h"
  by (simp add: set_node_def)

lemma toInode_next [simp]: "toInode (h\<lparr>IhNext := n\<rparr>) i = toInode h i"
  by (simp add: toInode_def)

lemma tree_okD:
  assumes "tree_ok h" and "toInode h i = Some nd"
  shows "1 \<le> i" "i < IhNext h" "NdParent nd = Some p \<Longrightarrow> p < i \<and> (\<exists>pn. toInode h p = Some pn)"
    "NdChild nd = Some cs \<Longrightarrow> wf_map cs"
    "NdChild nd = Some cs \<Longrightarrow> mget cs k = Some c \<Longrightarrow> \<exists>cn. toInode h c = Some cn \<and> NdName cn = k \<and> NdParent cn = Some i"
proof -
  have "1 \<le> i \<and> i < IhNext h \<and> node_ok h i nd" using assms unfolding tree_ok_def by blast
  then show "1 \<le> i" "i < IhNext h" "NdParent nd = Some p \<Longrightarrow> p < i \<and> (\<exists>pn. toInode h p = Some pn)"
    "NdChild nd = Some cs \<Longrightarrow> wf_map cs"
    "NdChild nd = Some cs \<Longrightarrow> mget cs k = Some c \<Longrightarrow> \<exists>cn. toInode h c = Some cn \<and> NdName cn = k \<and> NdParent cn = Some i"
    by (simp_all add: node_ok_def)
qed

lemma child_ofD:
  assumes "tree_ok h" and "child_of h n k = Some c"
  shows "n < c" "\<exists>cn. toInode h c = Some cn \<and> NdName cn = k \<and> NdParent cn = Some n"
proof -
  obtain nd cs where nd: "toInode h n = Some nd" "NdChild nd = Some cs" "mget cs k = Some c"
    using assms(2) by (auto simp: child_of_def split: option.splits)
  show 2: "\<exists>cn. toInode h c = Some cn \<and> NdName cn = k \<and> NdParent cn = Some n"
    using tree_okD(5) [OF assms(1) nd] .
  then show "n < c" using tree_okD(3) [OF assms(1)] by blast
qed

lemma tree_okI:
  assumes "\<And>i nd. toInode h i = Some nd \<Longrightarrow> 1 \<le> i \<and> i < IhNext h"
    and "\<And>i nd p. toInode h i = Some nd \<Longrightarrow> NdParent nd = Some p \<Longrightarrow> p < i \<and> toInode h p \<noteq> None"
    and "\<And>i nd cs. toInode h i = Some nd \<Longrightarrow> NdChild nd = Some cs \<Longrightarrow> wf_map cs"
    and "\<And>i nd cs k c. toInode h i = Some nd \<Longrightarrow> NdChild nd = Some cs \<Longrightarrow> mget cs k = Some c \<Longrightarrow>
           \<exists>cn. toInode h c = Some cn \<and> NdName cn = k \<and> NdParent cn = Some i"
    and "\<exists>nd. toInode h rootInodeID = Some nd \<and> NdChild nd \<noteq> None"
  shows "tree_ok h"
  unfolding tree_ok_def node_ok_def using assms
  by (intro conjI allI impI) (auto split: option.split)

lemma tree_ok_init: "tree_ok (InitRootNode NewInodeHandle)"
  by (auto simp: tree_ok_def node_ok_def InitRootNode_def NewInodeHandle_def rootInodeID_def toInode_def set_node_def
      mput_def split: if_splits)

section \<open>Every operation keeps the shape\<close>

lemma tree_ok_NewInode:
  assumes "tree_ok h" and "NewInode name isDir h = (h', c)"
  shows "tree_ok h'" "c = IhNext h" "toInode h c = None"
    "toInode h' i = (if i = c then Some \<lparr>NdName = name, NdParent = None, NdChild = (if isDir then Some [] else None)\<rparr> else toInode h i)"
proof -
  have c: "c = IhNext h" and h': "h' = (set_node (IhNext h) \<lparr>NdName = name, NdParent = None, NdChild = (if isDir then Some [] else None)\<rparr> h)
        \<lparr>IhNext := IhNext h + 1\<rparr>" using assms(2) [symmetric] by (simp_all add: NewInode_def)
  show "c = IhNext h" by (rule c)
  show new: "toInode h c = None" using tree_okD(2) [OF assms(1), of c] c by (cases "toInode h c") auto
  show get: "toInode h' i = (if i = c then Some \<lparr>NdName = name, NdParent = None, NdChild = (if isDir then Some [] else None)\<rparr> else toInode h i)" for i
    by (simp add: h' c)
  have "NdChild nd = Some cs \<Longrightarrow> toInode h i = Some nd \<Longrightarrow> mget cs k = Some d \<Longrightarrow> d \<noteq> c" for i nd cs k d
    using tree_okD(5) [OF assms(1)] new by fastforce
  moreover have "NdParent nd = Some p \<Longrightarrow> toInode h i = Some nd \<Longrightarrow> p \<noteq> c" for i nd p
    using tree_okD(3) [OF assms(1)] new by fastforce
  moreover have "rootInodeID \<noteq> c" using assms(1) new by (auto simp: tree_ok_def)
  moreover have "1 \<le> IhNext h" using assms(1) tree_okD(1,2) [OF assms(1)] by (fastforce simp: tree_ok_def)
  ultimately show "tree_ok h'"
    using tree_okD [OF assms(1)] assms(1) [unfolded tree_ok_def, THEN conjunct2]
    by (intro tree_okI) (fastforce simp: get h' c less_Suc_eq split: if_splits)+
qed

lemma AddChild_Some:
  assumes "AddChild n name c h = Some h'"
  obtains nd cs cn where "toInode h n = Some nd" "NdChild nd = Some cs" "toInode h c = Some cn"
    "h' = set_node c (cn\<lparr>NdParent := Some n\<rparr>) (set_node n (nd\<lparr>NdChild := Some (mput name c cs)\<rparr>) h)"
  using assms by (auto simp: AddChild_def split: option.splits)

lemma tree_ok_AddChild:
  assumes "tree_ok h" and "AddChild n name c h = Some h'" and "toInode h c = Some cn" and "NdName cn = name"
    and "NdParent cn = None \<or> NdParent cn = Some n" and "n < c"
  shows "tree_ok h'"
proof -
  obtain nd cs cn' where nd: "toInode h n = Some nd" "NdChild nd = Some cs" and c': "toInode h c = Some cn'"
    and "h' = set_node c (cn'\<lparr>NdParent := Some n\<rparr>) (set_node n (nd\<lparr>NdChild := Some (mput name c cs)\<rparr>) h)"
    using AddChild_Some [OF assms(2)] .
  then have h': "h' = set_node c (cn\<lparr>NdParent := Some n\<rparr>) (set_node n (nd\<lparr>NdChild := Some (mput name c cs)\<rparr>) h)"
    using assms(3) by simp
  have get_c: "toInode h' c = Some (cn\<lparr>NdParent := Some n\<rparr>)" and get_n: "toInode h' n = Some (nd\<lparr>NdChild := Some (mput name c cs)\<rparr>)"
    and get: "i \<noteq> c \<Longrightarrow> i \<noteq> n \<Longrightarrow> toInode h' i = toInode h i" for i using h' assms(6) by simp_all
  have known: "toInode h' i \<noteq> None \<longleftrightarrow> toInode h i \<noteq> None" for i
    using get_c get_n get [of i] assms(3) nd(1) by (cases "i = c"; cases "i = n") simp_all
  have entry: "i = n \<and> k = name" if "toInode h i = Some md" "NdChild md = Some ds" "mget ds k = Some c" for i md ds k
    using tree_okD(5) [OF assms(1) that] assms(3-5) by auto
  have keep: "\<exists>dn. toInode h' d = Some dn \<and> NdName dn = k \<and> NdParent dn = Some i"
    if old: "toInode h i = Some md" "NdChild md = Some ds" "mget ds k = Some d" and ne: "\<not> (i = n \<and> k = name)" for i md ds k d
  proof -
    obtain dn where dn: "toInode h d = Some dn" "NdName dn = k" "NdParent dn = Some i"
      using tree_okD(5) [OF assms(1) old] by blast
    have "d \<noteq> c" using entry [OF old(1,2)] old(3) ne by blast
    then show ?thesis using get [of d] get_n dn nd(1) by (cases "d = n") simp_all
  qed
  show ?thesis
  proof (rule tree_okI)
    fix i md assume "toInode h' i = Some md"
    then obtain md0 where "toInode h i = Some md0" using known [of i] by auto
    then show "1 \<le> i \<and> i < IhNext h'" using tree_okD(1,2) [OF assms(1)] h' by simp
  next
    fix i md p assume md: "toInode h' i = Some md" "NdParent md = Some p"
    show "p < i \<and> toInode h' p \<noteq> None"
    proof (cases "i = c")
      case True
      then have "p = n" using md get_c by auto
      with True show ?thesis using assms(6) get_n by simp
    next
      case False
      then obtain md0 where md0: "toInode h i = Some md0" "NdParent md0 = Some p"
        using md get_n get [of i] nd(1) by (cases "i = n") auto
      then show ?thesis using tree_okD(3) [OF assms(1) md0] known [of p] by simp
    qed
  next
    fix i md ds assume md: "toInode h' i = Some md" "NdChild md = Some ds"
    show "wf_map ds"
    proof (cases "i = n")
      case True
      then show ?thesis using md get_n tree_okD(4) [OF assms(1) nd] by auto
    next
      case False
      then obtain md0 where md0: "toInode h i = Some md0" "NdChild md0 = Some ds"
        using md get_c get [of i] assms(3) by (cases "i = c") auto
      then show ?thesis by (rule tree_okD(4) [OF assms(1)])
    qed
  next
    fix i md ds k d assume md: "toInode h' i = Some md" "NdChild md = Some ds" "mget ds k = Some d"
    show "\<exists>dn. toInode h' d = Some dn \<and> NdName dn = k \<and> NdParent dn = Some i"
    proof (cases "i = n")
      case True
      then have ds: "ds = mput name c cs" using md get_n by auto
      show ?thesis
      proof (cases "k = name")
        case True
        then have "d = c" using md(3) ds by simp
        then show ?thesis using get_c assms(4) True \<open>i = n\<close> by simp
      next
        case False
        then have "mget cs k = Some d" using md(3) ds by simp
        then show ?thesis using keep [OF nd, of k d] False \<open>i = n\<close> by simp
      qed
    next
      case False
      then obtain md0 where md0: "toInode h i = Some md0" "NdChild md0 = Some ds"
        using md get_c get [of i] assms(3) by (cases "i = c") auto
      then show ?thesis using keep [OF md0 md(3)] False by blast
    qed
  next
    obtain r where r: "toInode h rootInodeID = Some r" "NdChild r \<noteq> None" using assms(1) [unfolded tree_ok_def, THEN conjunct2] by blast
    show "\<exists>nd. toInode h' rootInodeID = Some nd \<and> NdChild nd \<noteq> None"
      using r get_c get_n get [of rootInodeID] assms(3) nd by (cases "rootInodeID = c"; cases "rootInodeID = n") simp_all
  qed
qed

lemma NewChild_Some:
  assumes "tree_ok h" and "NewChild n name isDir h = Some (h', c)"
  shows "tree_ok h'" "c = IhNext h" "child_of h' n name = Some c" "n \<noteq> c"
    "i \<noteq> c \<Longrightarrow> i \<noteq> n \<Longrightarrow> toInode h' i = toInode h i"
    "\<exists>nd cs. toInode h n = Some nd \<and> NdChild nd = Some cs \<and> toInode h' n = Some (nd\<lparr>NdChild := Some (mput name c cs)\<rparr>)"
    "toInode h' c = Some \<lparr>NdName = name, NdParent = Some n, NdChild = (if isDir then Some [] else None)\<rparr>"
proof -
  obtain h1 where h1: "NewInode name isDir h = (h1, c)" and h': "AddChild n name c h1 = Some h'" and known: "toInode h n \<noteq> None"
    using assms(2) by (auto simp: NewChild_def split: prod.splits if_splits)
  note new = tree_ok_NewInode [OF assms(1) h1]
  obtain nd cs cn where *: "toInode h1 n = Some nd" "NdChild nd = Some cs" "toInode h1 c = Some cn"
    "h' = set_node c (cn\<lparr>NdParent := Some n\<rparr>) (set_node n (nd\<lparr>NdChild := Some (mput name c cs)\<rparr>) h1)"
    using AddChild_Some [OF h'] .
  have cn: "cn = \<lparr>NdName = name, NdParent = None, NdChild = (if isDir then Some [] else None)\<rparr>" using *(3) new(4) [of c] by simp
  show c: "c = IhNext h" by (rule new(2))
  show nc: "n \<noteq> c" using known new(3) by auto
  have "n < c" using known c tree_okD(2) [OF assms(1), of n] by auto
  then show "tree_ok h'" using tree_ok_AddChild [OF new(1) h' *(3)] cn by simp
  show "child_of h' n name = Some c" using *(4) nc by (simp add: child_of_def)
  show "i \<noteq> c \<Longrightarrow> i \<noteq> n \<Longrightarrow> toInode h' i = toInode h i" for i using *(4) new(4) [of i] by simp
  show "\<exists>nd cs. toInode h n = Some nd \<and> NdChild nd = Some cs \<and> toInode h' n = Some (nd\<lparr>NdChild := Some (mput name c cs)\<rparr>)"
    using * new(4) [of n] nc by simp
  show "toInode h' c = Some \<lparr>NdName = name, NdParent = Some n, NdChild = (if isDir then Some [] else None)\<rparr>"
    using *(4) cn by simp
qed

lemma RmChild_None:
  assumes "toInode h n = Some nd" and "child_of h n name = None"
  shows "RmChild n name h = Some (h, 0)"
  using assms by (simp add: RmChild_def)

text \<open>The removed node loses its parent, and the entry is gone.\<close>

lemma RmChild_Some:
  assumes "tree_ok h" and "child_of h n name = Some c"
  shows "\<exists>nd cs cn. toInode h n = Some nd \<and> NdChild nd = Some cs \<and> toInode h c = Some cn \<and> n \<noteq> c \<and> NdName cn = name \<and>
    RmChild n name h = Some (set_node c (cn\<lparr>NdParent := None\<rparr>) (set_node n (nd\<lparr>NdChild := Some (mdel name cs)\<rparr>) h), c)"
proof -
  obtain nd cs where nd: "toInode h n = Some nd" "NdChild nd = Some cs"
    using assms(2) by (auto simp: child_of_def split: option.splits)
  obtain cn where cn: "toInode h c = Some cn" "NdName cn = name" using child_ofD(2) [OF assms] by blast
  have "n < c" by (rule child_ofD(1) [OF assms])
  then have nc: "n \<noteq> c" "c \<noteq> n" "c \<noteq> 0" by simp_all
  have "RmChild n name h = Some (set_node c (cn\<lparr>NdParent := None\<rparr>) (set_node n (nd\<lparr>NdChild := Some (mdel name cs)\<rparr>) h), c)"
    unfolding RmChild_def using nd cn assms(2) nc by (simp add: Let_def)
  with nd cn nc show ?thesis by blast
qed

lemma tree_ok_RmChild:
  assumes "tree_ok h" and "RmChild n name h = Some (h', c)"
  shows "tree_ok h'"
proof (cases "child_of h n name")
  case None
  then show ?thesis using assms by (auto simp: RmChild_def split: option.splits)
next
  case (Some d)
  obtain nd cs cn where nd: "toInode h n = Some nd" "NdChild nd = Some cs" and cn: "toInode h d = Some cn" and nc: "n \<noteq> d"
    and h': "h' = set_node d (cn\<lparr>NdParent := None\<rparr>) (set_node n (nd\<lparr>NdChild := Some (mdel name cs)\<rparr>) h)"
    using RmChild_Some [OF assms(1) Some] assms(2) by auto
  have get_d: "toInode h' d = Some (cn\<lparr>NdParent := None\<rparr>)" and get_n: "toInode h' n = Some (nd\<lparr>NdChild := Some (mdel name cs)\<rparr>)"
    and get: "i \<noteq> d \<Longrightarrow> i \<noteq> n \<Longrightarrow> toInode h' i = toInode h i" for i using h' nc by simp_all
  have known: "toInode h' i \<noteq> None \<longleftrightarrow> toInode h i \<noteq> None" for i
    using get_d get_n get [of i] cn nd(1) by (cases "i = d"; cases "i = n") simp_all
  have dn: "NdName cn = name" "NdParent cn = Some n" using child_ofD(2) [OF assms(1) Some] cn by auto
  have keep: "\<exists>en. toInode h' e = Some en \<and> NdName en = k \<and> NdParent en = Some i"
    if old: "toInode h i = Some md" "NdChild md = Some ds" "mget ds k = Some e" and ne: "\<not> (i = n \<and> k = name)" for i md ds k e
  proof -
    obtain en where en: "toInode h e = Some en" "NdName en = k" "NdParent en = Some i"
      using tree_okD(5) [OF assms(1) old] by blast
    have "e \<noteq> d" using en dn cn ne by auto
    then show ?thesis using get [of e] get_n en nd(1) by (cases "e = n") simp_all
  qed
  have old: "\<exists>md0. toInode h i = Some md0 \<and> (NdParent md = Some p \<longrightarrow> NdParent md0 = Some p) \<and>
      (i \<noteq> n \<longrightarrow> NdChild md0 = NdChild md)" if "toInode h' i = Some md" for i md p
    using that get_d get_n get [of i] cn nd by (cases "i = d"; cases "i = n") (auto dest!: sym [of "Some _"])
  show ?thesis
  proof (rule tree_okI)
    fix i md assume "toInode h' i = Some md"
    then obtain md0 where "toInode h i = Some md0" using known [of i] by auto
    then show "1 \<le> i \<and> i < IhNext h'" using tree_okD(1,2) [OF assms(1)] h' by simp
  next
    fix i md p assume "toInode h' i = Some md" "NdParent md = Some p"
    then show "p < i \<and> toInode h' p \<noteq> None" using old [of i md p] tree_okD(3) [OF assms(1)] known [of p] by auto
  next
    fix i md ds assume md: "toInode h' i = Some md" "NdChild md = Some ds"
    show "wf_map ds"
      using md get_n tree_okD(4) [OF assms(1) nd] old [OF md(1)] tree_okD(4) [OF assms(1)] by (cases "i = n") auto
  next
    fix i md ds k e assume md: "toInode h' i = Some md" "NdChild md = Some ds" "mget ds k = Some e"
    show "\<exists>en. toInode h' e = Some en \<and> NdName en = k \<and> NdParent en = Some i"
    proof (cases "i = n")
      case True
      then have "ds = mdel name cs" using md get_n by auto
      then have "mget cs k = Some e" "k \<noteq> name" using md(3) by (simp_all split: if_splits)
      then show ?thesis using keep [OF nd] True by blast
    next
      case False
      then obtain md0 where "toInode h i = Some md0" "NdChild md0 = Some ds" using old [OF md(1)] md(2) by auto
      then show ?thesis using keep md(3) False by blast
    qed
  next
    obtain r where r: "toInode h rootInodeID = Some r" "NdChild r \<noteq> None" using assms(1) [unfolded tree_ok_def, THEN conjunct2] by blast
    show "\<exists>nd. toInode h' rootInodeID = Some nd \<and> NdChild nd \<noteq> None"
      using r get_d get_n get [of rootInodeID] cn nd by (cases "rootInodeID = d"; cases "rootInodeID = n") simp_all
  qed
qed

section \<open>Paths\<close>

text \<open>The walk to the root ends: the number of the node bounds its length.\<close>

lemma path_up_fuel:
  assumes "tree_ok h" and "toInode h i = Some nd" and "i < n"
  shows "\<exists>ws. path_up n h nd = Some ws"
  using assms(2,3)
proof (induction n arbitrary: i nd)
  case (Suc n)
  show ?case
  proof (cases "NdParent nd")
    case (Some p)
    then obtain pn where pn: "toInode h p = Some pn" "p < i" using tree_okD(3) [OF assms(1) Suc.prems(1)] by blast
    then obtain ws where "path_up n h pn = Some ws" using Suc.IH [OF pn(1)] Suc.prems(2) by auto
    then show ?thesis using Some pn(1) by simp
  qed simp
qed simp

lemma path_up_more: "path_up n h nd = Some ws \<Longrightarrow> n \<le> m \<Longrightarrow> path_up m h nd = Some ws"
proof (induction n arbitrary: m nd ws)
  case (Suc n)
  then obtain k where k: "m = Suc k" "n \<le> k" by (cases m) auto
  show ?case
  proof (cases "NdParent nd")
    case (Some p)
    then obtain pn vs where "toInode h p = Some pn" "path_up n h pn = Some vs" "ws = vs @ [NdName nd]"
      using Suc.prems(1) by (auto split: option.splits)
    then show ?thesis using Suc.IH [OF _ k(2)] Some k(1) by simp
  qed (use Suc.prems(1) k(1) in simp)
qed simp

definition walk :: "inode_handle \<Rightarrow> ino \<Rightarrow> string list" where
  "walk h i = (case toInode h i of None \<Rightarrow> [] | Some nd \<Rightarrow> the (path_up (IhNext h + 1) h nd))"

lemma walk_simps:
  assumes "tree_ok h" and "toInode h i = Some nd"
  shows "NdParent nd = None \<Longrightarrow> walk h i = []" "NdParent nd = Some p \<Longrightarrow> walk h i = walk h p @ [NdName nd]"
    "InodeToPath h nd = Some (abs_path (walk h i))"
proof -
  show root: "walk h i = []" if "NdParent nd = None" using that assms(2) by (simp add: walk_def)
  have step: "\<exists>ws. path_up (IhNext h + 1) h nd = Some (ws @ [NdName nd]) \<and> walk h p = ws" if p: "NdParent nd = Some p" for p
  proof -
    obtain pn where pn: "toInode h p = Some pn" "p < i" using tree_okD(3) [OF assms p] by blast
    then have "p < IhNext h" using tree_okD(2) [OF assms] by simp
    then obtain ws where ws: "path_up (IhNext h) h pn = Some ws" using path_up_fuel [OF assms(1) pn(1)] by blast
    then have "walk h p = ws" using pn(1) path_up_more [OF ws, of "IhNext h + 1"] by (simp add: walk_def)
    with ws pn(1) p show ?thesis by simp
  qed
  show "walk h i = walk h p @ [NdName nd]" if "NdParent nd = Some p" for p
    using step [OF that] assms(2) by (auto simp: walk_def)
  show "InodeToPath h nd = Some (abs_path (walk h i))"
  proof (cases "NdParent nd")
    case None
    then show ?thesis using root by (simp add: InodeToPath_def)
  next
    case (Some p)
    then obtain ws where "path_up (IhNext h + 1) h nd = Some (ws @ [NdName nd])" using step by blast
    then show ?thesis using Some assms(2) by (simp add: InodeToPath_def walk_def abs_path_segs)
  qed
qed

lemma InoToPath_walk: "tree_ok h \<Longrightarrow> toInode h i = Some nd \<Longrightarrow> InoToPath h i = Some (abs_path (walk h i))"
  by (simp add: InoToPath_def walk_simps(3))

text \<open>A node is attached when entries of directories lead to it from the root.\<close>

inductive attached :: "inode_handle \<Rightarrow> ino \<Rightarrow> bool" for h where
  attached_root: "attached h rootInodeID"
| attached_child: "attached h n \<Longrightarrow> child_of h n k = Some c \<Longrightarrow> attached h c"

definition names_ok :: "inode_handle \<Rightarrow> bool" where
  "names_ok h = (\<forall>n k c. child_of h n k = Some c \<longrightarrow> proper_name k)"

lemma root_walk:
  assumes "tree_ok h"
  shows "walk h rootInodeID = []"
proof -
  obtain r where r: "toInode h rootInodeID = Some r" using assms by (auto simp: tree_ok_def)
  have "NdParent r = None"
    using tree_okD(3) [OF assms r] tree_okD(1) [OF assms] by (cases "NdParent r") (fastforce simp: rootInodeID_def)+
  then show ?thesis using walk_simps(1) [OF assms r] by simp
qed

lemma attached_walk:
  assumes "tree_ok h" and "names_ok h" and "attached h i"
  shows "normal (walk h i) \<and> foldl (path_step h) rootInodeID (walk h i) = i \<and> toInode h i \<noteq> None"
  using assms(3)
proof induction
  case attached_root
  then show ?case using root_walk [OF assms(1)] assms(1) by (auto simp: tree_ok_def)
next
  case (attached_child n k c)
  obtain cn where cn: "toInode h c = Some cn" "NdName cn = k" "NdParent cn = Some n"
    using child_ofD(2) [OF assms(1) attached_child.hyps(2)] by blast
  have w: "walk h c = walk h n @ [k]" using walk_simps(2) [OF assms(1) cn(1,3)] cn(2) by simp
  have k: "proper_name k" using assms(2) attached_child.hyps(2) by (auto simp: names_ok_def)
  then have "path_step h n k = c"
    using attached_child.hyps(2) by (auto simp: path_step_def child_of_def proper_name_def split: option.splits)
  with attached_child.IH w k cn(1) show ?case by simp
qed

lemma path_step_empty: "path_step h i '''' = i"
  by (simp add: path_step_def)

lemma PathToInode_walk:
  assumes "tree_ok h" and "names_ok h" and "attached h i"
  shows "PathToInode h (abs_path (walk h i)) = i"
proof -
  note w = attached_walk [OF assms]
  show ?thesis
  proof (cases "walk h i = []")
    case True
    then show ?thesis using w by (simp add: PathToInode_def path_step_empty)
  next
    case False
    then show ?thesis using w by (simp add: PathToInode_def abs_path_segs split_on_segs path_step_empty)
  qed
qed

section \<open>Entries\<close>

lemma child_of_AddChild:
  assumes "AddChild n name c h = Some h'" and "n \<noteq> c" and "child_of h' i k = Some d"
  shows "i = n \<and> k = name \<and> d = c \<or> child_of h i k = Some d"
proof -
  obtain nd cs cn where *: "toInode h n = Some nd" "NdChild nd = Some cs" "toInode h c = Some cn"
    "h' = set_node c (cn\<lparr>NdParent := Some n\<rparr>) (set_node n (nd\<lparr>NdChild := Some (mput name c cs)\<rparr>) h)"
    using AddChild_Some [OF assms(1)] .
  then show ?thesis using assms(2,3)
    by (cases "i = c"; cases "i = n") (auto simp: child_of_def split: if_splits)
qed

lemma child_of_NewInode:
  assumes "tree_ok h" and "NewInode name isDir h = (h', c)" and "child_of h' i k = Some d"
  shows "child_of h i k = Some d"
  using assms(3) tree_ok_NewInode(3,4) [OF assms(1,2)]
  by (cases "i = c") (auto simp: child_of_def split: if_splits option.splits)

lemma child_of_NewChild:
  assumes "tree_ok h" and "NewChild n name isDir h = Some (h', c)" and "child_of h' i k = Some d"
  shows "i = n \<and> k = name \<and> d = c \<or> child_of h i k = Some d"
proof -
  obtain h1 where h1: "NewInode name isDir h = (h1, c)" and h': "AddChild n name c h1 = Some h'"
    using assms(2) by (auto simp: NewChild_def split: prod.splits if_splits)
  then show ?thesis
    using child_of_AddChild [OF h' NewChild_Some(4) [OF assms(1,2)] assms(3)] child_of_NewInode [OF assms(1) h1] by blast
qed

lemma child_of_RmChild:
  assumes "tree_ok h" and "RmChild n name h = Some (h', c)" and "child_of h' i k = Some d"
  shows "child_of h i k = Some d"
proof (cases "child_of h n name")
  case None
  then show ?thesis using assms(2,3) by (auto simp: RmChild_def split: option.splits)
next
  case (Some e)
  then obtain nd cs cn where "toInode h n = Some nd" "NdChild nd = Some cs" "toInode h e = Some cn" "n \<noteq> e"
    "h' = set_node e (cn\<lparr>NdParent := None\<rparr>) (set_node n (nd\<lparr>NdChild := Some (mdel name cs)\<rparr>) h)"
    using RmChild_Some [OF assms(1) Some] assms(2) by auto
  then show ?thesis using assms(3)
    by (cases "i = e"; cases "i = n") (auto simp: child_of_def split: if_splits)
qed

text \<open>The invariant of the table.\<close>

definition table_ok :: "inode_handle \<Rightarrow> bool" where
  "table_ok h = (tree_ok h \<and> names_ok h)"

lemma table_ok_NewChild: "table_ok h \<Longrightarrow> proper_name name \<Longrightarrow> NewChild n name isDir h = Some (h', c) \<Longrightarrow> table_ok h'"
  unfolding table_ok_def names_ok_def using NewChild_Some(1) child_of_NewChild by blast

lemma table_ok_RmChild: "table_ok h \<Longrightarrow> RmChild n name h = Some (h', c) \<Longrightarrow> table_ok h'"
  unfolding table_ok_def names_ok_def using tree_ok_RmChild child_of_RmChild by blast

lemma table_ok_AddChild_again:
  assumes "table_ok h" and "proper_name name" and "NewChild n name isDir h = Some (h1, c)" and "AddChild n name c h1 = Some h2"
  shows "table_ok h2"
proof -
  have t: "tree_ok h" using assms(1) by (simp add: table_ok_def)
  note new = NewChild_Some [OF t assms(3)]
  have "n < c" using child_ofD(1) [OF new(1,3)] .
  then have "tree_ok h2" using tree_ok_AddChild [OF new(1) assms(4) new(7)] by simp
  moreover have "names_ok h2"
    using table_ok_NewChild [OF assms(1-3)] child_of_AddChild [OF assms(4) new(4)] assms(2)
    unfolding table_ok_def names_ok_def by blast
  ultimately show ?thesis by (simp add: table_ok_def)
qed

lemma table_ok_init: "table_ok (InitRootNode NewInodeHandle)"
proof -
  have "child_of (InitRootNode NewInodeHandle) n k = None" for n k
    by (auto simp: child_of_def InitRootNode_def NewInodeHandle_def rootInodeID_def toInode_def set_node_def mput_def)
  then show ?thesis using tree_ok_init by (simp add: table_ok_def names_ok_def)
qed

end
