(* ===== verification/PF_Meta.thy ===== *)
theory PF_Meta
  imports PF_Inode PF_Encrypt "HOL-Library.Word"
begin

unbundle bit_operations_syntax

text \<open>
  The metadata layer of the file system client (\<open>pkg/fs/client/meta/default.go\<close>): it resolves inodes
  to paths, routes a path to the storage that holds it (the file system itself or a linked one), and
  calls that storage. The storages are the record \<open>ufs_ops\<close> of functions on a world \<open>'w\<close>; a storage is
  named by a number, since the code compares storages by pointer. A result is an error number or a
  value, with the new state; \<open>GO_PANIC\<close> marks a panic.
\<close>

section \<open>Errors (client/utils/error.go)\<close>

datatype errno =
    ENOENT | EACCES | ENOTDIR | EEXIST | ENOSYS | ENOTSUP | EBADF | ERANGE | OtherErrno nat | GO_PANIC

datatype path_cause = ErrNotExist | ErrPermission | OtherCause

text \<open>A Go error as \<open>ToSyscallErrno\<close> tells them apart; the text is that of \<open>Error()\<close>.\<close>

datatype go_error = SysErrno errno | PathError path_cause string | ErrorText string

definition str_contains :: "string \<Rightarrow> string \<Rightarrow> bool" where
  "str_contains s t = list_ex (\<lambda>i. take (length t) (drop i s) = t) [0..<Suc (length s)]"

definition errno_of_text :: "string \<Rightarrow> errno" where
  "errno_of_text s =
     (if str_contains s ''no such file or directory'' then ENOTDIR
      else if str_contains s ''file does not exist'' then ENOENT
      else if str_contains s ''file exists'' then EEXIST
      else if str_contains s ''file already exists'' then EEXIST
      else if str_contains s ''Operation unsupported'' then ENOSYS
      else ENOTSUP)"

fun ToSyscallErrno :: "go_error \<Rightarrow> errno" where
  "ToSyscallErrno (SysErrno e) = e"
| "ToSyscallErrno (PathError c s) =
     (case c of ErrNotExist \<Rightarrow> ENOENT | ErrPermission \<Rightarrow> EACCES | OtherCause \<Rightarrow> errno_of_text s)"
| "ToSyscallErrno (ErrorText s) = errno_of_text s"

section \<open>Permissions (client/utils/user.go)\<close>

type_synonym u32 = "32 word"

text \<open>\<open>groups\<close> is what \<open>user.LookupId\<close> and \<open>GroupIds\<close> answer for a user, \<open>None\<close> for an error of either.\<close>

definition HasAccess :: "(u32 \<Rightarrow> string list option) \<Rightarrow> u32 \<Rightarrow> u32 \<Rightarrow> u32 \<Rightarrow> u32 \<Rightarrow> u32 \<Rightarrow> u32 \<Rightarrow> bool" where
  "HasAccess groups callerUid callerGid fileUid fileGid perm mask0 =
     (if callerUid = 0 then True
      else let mask = mask0 AND 7 in
        if mask = 0 then True
        else if callerUid = fileUid \<and> perm AND push_bit 6 mask \<noteq> 0 then True
        else if callerGid = fileGid \<and> perm AND push_bit 3 mask \<noteq> 0 then True
        else if perm AND mask \<noteq> 0 then True
        else if perm AND push_bit 3 mask = 0 then False
        else case groups callerUid of None \<Rightarrow> False | Some gs \<Rightarrow> itoa (uint fileGid) \<in> set gs)"

section \<open>Attributes\<close>

record stat_t =
  StMode :: u32
  StUid :: u32
  StGid :: u32
  StRdev :: nat
  StNlink :: nat
  StSize :: int
  StBlksize :: int
  StBlocks :: int
  StAtim :: "int \<times> int"
  StMtim :: "int \<times> int"
  StCtim :: "int \<times> int"

text \<open>\<open>Sys\<close> is \<open>None\<close> when it does not hold a \<open>syscall.Stat_t\<close>.\<close>

record file_info =
  FiName :: string
  FiPath :: string
  FiSize :: int
  FiMtime :: nat
  FiIsDir :: bool
  FiMode :: u32
  FiSys :: "stat_t option"

record attr =
  AtDir :: bool
  AtMode :: u32
  AtUid :: u32
  AtGid :: u32
  AtRdev :: nat
  AtAtime :: "int \<times> int"
  AtMtime :: "int \<times> int"
  AtCtime :: "int \<times> int"
  AtNlink :: nat
  AtSize :: int
  AtBlksize :: int
  AtBlock :: int
  AtName :: string
  AtPath :: string

definition no_attr :: attr where
  "no_attr = \<lparr>AtDir = False, AtMode = 0, AtUid = 0, AtGid = 0, AtRdev = 0, AtAtime = (0, 0), AtMtime = (0, 0),
     AtCtime = (0, 0), AtNlink = 0, AtSize = 0, AtBlksize = 0, AtBlock = 0, AtName = '''', AtPath = ''''\<rparr>"

definition FromFileInfo :: "file_info \<Rightarrow> attr option" where
  "FromFileInfo info =
     map_option (\<lambda>st. \<lparr>AtDir = FiIsDir info, AtMode = StMode st, AtUid = StUid st, AtGid = StGid st, AtRdev = StRdev st,
       AtAtime = StAtim st, AtMtime = StMtim st, AtCtime = StCtim st, AtNlink = StNlink st, AtSize = StSize st mod 2 ^ 64,
       AtBlksize = StBlksize st, AtBlock = StBlocks st, AtName = FiName info, AtPath = FiPath info\<rparr>) (FiSys info)"

definition ModeSymlink :: u32 where "ModeSymlink = push_bit 27 1"

definition FixLinkPrefix :: "string \<Rightarrow> file_info \<Rightarrow> file_info" where
  "FixLinkPrefix prefix f =
     f\<lparr>FiMode := (if FiName f = '''' \<or> FiName f = [slash] then FiMode f OR ModeSymlink else FiMode f),
       FiName := path_Join [prefix, FiName f]\<rparr>"

text \<open>\<open>StatModeToFileMode(mode).IsDir()\<close>: the file type bits say directory.\<close>

definition attr_IsDir :: "attr \<Rightarrow> bool" where
  "attr_IsDir a = (AtMode a AND 0xF000 = 0x4000)"

section \<open>Storages\<close>

record dir_entry =
  DeName :: string
  DeMode :: u32

record fs_meta =
  FmID :: string
  FmName :: string
  FmUfsType :: string
  FmServerAddress :: string
  FmSubPath :: string
  FmProperties :: "string gomap"
  FmType :: string

record 'w ufs_ops =
  UfGetAttr :: "nat \<Rightarrow> string \<Rightarrow> 'w \<Rightarrow> go_error + file_info"
  UfChown :: "nat \<Rightarrow> string \<Rightarrow> u32 \<Rightarrow> u32 \<Rightarrow> 'w \<Rightarrow> 'w \<times> (go_error + unit)"
  UfChmod :: "nat \<Rightarrow> string \<Rightarrow> u32 \<Rightarrow> 'w \<Rightarrow> 'w \<times> (go_error + unit)"
  UfUtimens :: "nat \<Rightarrow> string \<Rightarrow> int \<times> int \<Rightarrow> int \<times> int \<Rightarrow> 'w \<Rightarrow> 'w \<times> (go_error + unit)"
  UfTruncate :: "nat \<Rightarrow> string \<Rightarrow> int \<Rightarrow> 'w \<Rightarrow> 'w \<times> (go_error + unit)"
  UfMknod :: "nat \<Rightarrow> string \<Rightarrow> u32 \<Rightarrow> u32 \<Rightarrow> 'w \<Rightarrow> 'w \<times> (go_error + unit)"
  UfMkdir :: "nat \<Rightarrow> string \<Rightarrow> u32 \<Rightarrow> 'w \<Rightarrow> 'w \<times> (go_error + unit)"
  UfCreate :: "nat \<Rightarrow> string \<Rightarrow> u32 \<Rightarrow> u32 \<Rightarrow> 'w \<Rightarrow> 'w \<times> (go_error + unit)"
  UfUnlink :: "nat \<Rightarrow> string \<Rightarrow> 'w \<Rightarrow> 'w \<times> (go_error + unit)"
  UfRmdir :: "nat \<Rightarrow> string \<Rightarrow> 'w \<Rightarrow> 'w \<times> (go_error + unit)"
  UfRename :: "nat \<Rightarrow> string \<Rightarrow> string \<Rightarrow> 'w \<Rightarrow> 'w \<times> (go_error + unit)"
  UfReadDir :: "nat \<Rightarrow> string \<Rightarrow> 'w \<Rightarrow> go_error + dir_entry list"
  UfGetXAttr :: "nat \<Rightarrow> string \<Rightarrow> string \<Rightarrow> 'w \<Rightarrow> go_error + string"
  UfListXAttr :: "nat \<Rightarrow> string \<Rightarrow> 'w \<Rightarrow> go_error + string list"
  UfSetXAttr :: "nat \<Rightarrow> string \<Rightarrow> string \<Rightarrow> string \<Rightarrow> u32 \<Rightarrow> 'w \<Rightarrow> 'w \<times> (go_error + unit)"
  UfRemoveXAttr :: "nat \<Rightarrow> string \<Rightarrow> string \<Rightarrow> 'w \<Rightarrow> 'w \<times> (go_error + unit)"
  UfReadFile :: "nat \<Rightarrow> string \<Rightarrow> int \<Rightarrow> 'w \<Rightarrow> go_error + string"
  UfNew :: "string \<Rightarrow> string gomap \<Rightarrow> 'w \<Rightarrow> 'w \<times> (go_error + nat)"

record 'w meta =
  MtTree :: inode_handle
  MtDefault :: nat
  MtLinks :: "(string \<times> nat) list"
  MtUT :: int
  MtWorld :: 'w

section \<open>Routing\<close>

definition link_key :: "string \<Rightarrow> string" where
  "link_key prefix = path_Clean (path_Join [[slash], prefix]) @ [slash]"

text \<open>The first link in the order of the map whose directory is the path or lies above it.\<close>

fun find_link :: "(string \<times> nat) list \<Rightarrow> string \<Rightarrow> (nat \<times> string \<times> string) option" where
  "find_link [] target = None"
| "find_link ((prefix, u) # links) target =
     (let key = link_key prefix
      in if has_prefix target key \<or> target @ [slash] = key
         then Some (u, key, if target @ [slash] = key then '''' else trim_prefix target key)
         else find_link links target)"

definition GetUFS :: "'w meta \<Rightarrow> string \<Rightarrow> nat \<times> bool \<times> string \<times> string" where
  "GetUFS m name =
     (case find_link (MtLinks m) (path_Clean (path_Join [[slash], name])) of
        Some (u, key, path) \<Rightarrow> (u, True, key, path)
      | None \<Rightarrow> (MtDefault m, False, '''', name))"

section \<open>Attributes of a node\<close>

type_synonym ('w, 'r) meta_result = "'w meta \<times> (errno + 'r)"

definition getAttr :: "'w ufs_ops \<Rightarrow> 'w meta \<Rightarrow> string \<Rightarrow> errno + attr" where
  "getAttr uf m name =
     (case GetUFS m name of (u, isLink, prefix, path) \<Rightarrow>
        (case UfGetAttr uf u path (MtWorld m) of
           Inl e \<Rightarrow> Inl (ToSyscallErrno e)
         | Inr info \<Rightarrow>
             (case FromFileInfo (if isLink then FixLinkPrefix prefix info else info) of
                None \<Rightarrow> Inl GO_PANIC
              | Some a \<Rightarrow> Inr a)))"

definition at_path :: "'w meta \<Rightarrow> ino \<Rightarrow> (string \<Rightarrow> errno + 'r) \<Rightarrow> errno + 'r" where
  "at_path m i f = (case InoToPath (MtTree m) i of None \<Rightarrow> Inl GO_PANIC | Some p \<Rightarrow> f p)"

definition meta_GetAttr :: "'w ufs_ops \<Rightarrow> ino \<Rightarrow> 'w meta \<Rightarrow> errno + attr" where
  "meta_GetAttr uf i m = at_path m i (getAttr uf m)"

definition meta_Access ::
  "'w ufs_ops \<Rightarrow> (u32 \<Rightarrow> string list option) \<Rightarrow> u32 \<Rightarrow> u32 \<Rightarrow> ino \<Rightarrow> u32 \<Rightarrow> attr option \<Rightarrow> 'w meta \<Rightarrow> errno + unit" where
  "meta_Access uf groups uid gid i msk given m =
     (if uid = 0 then Inr ()
      else bindE (case given of Some a \<Rightarrow> Inr a | None \<Rightarrow> meta_GetAttr uf i m) (\<lambda>a.
        guardE (HasAccess groups uid gid (AtUid a) (AtGid a) (AtMode a) msk) EACCES))"

section \<open>Operations\<close>

definition bindM :: "('w, 'a) meta_result \<Rightarrow> ('a \<Rightarrow> 'w meta \<Rightarrow> ('w, 'b) meta_result) \<Rightarrow> ('w, 'b) meta_result" where
  "bindM r f = (case r of (m, Inl e) \<Rightarrow> (m, Inl e) | (m, Inr x) \<Rightarrow> f x m)"

definition call_ufs :: "('w \<Rightarrow> 'w \<times> (go_error + unit)) \<Rightarrow> 'w meta \<Rightarrow> ('w, unit) meta_result" where
  "call_ufs f m =
     (case f (MtWorld m) of (w, r) \<Rightarrow>
        (m\<lparr>MtWorld := w\<rparr>, case r of Inl e \<Rightarrow> Inl (ToSyscallErrno e) | Inr u \<Rightarrow> Inr ()))"

definition at_child :: "'w meta \<Rightarrow> ino \<Rightarrow> string \<Rightarrow> (string \<Rightarrow> ('w, 'r) meta_result) \<Rightarrow> ('w, 'r) meta_result" where
  "at_child m parent name f =
     (case toInode (MtTree m) parent of
        None \<Rightarrow> (m, Inl GO_PANIC)
      | Some pn \<Rightarrow> (case ParentInodeToPath (MtTree m) pn name of None \<Rightarrow> (m, Inl GO_PANIC) | Some p \<Rightarrow> f p))"

definition at_node :: "'w meta \<Rightarrow> ino \<Rightarrow> (string \<Rightarrow> ('w, 'r) meta_result) \<Rightarrow> ('w, 'r) meta_result" where
  "at_node m i f = (case InoToPath (MtTree m) i of None \<Rightarrow> (m, Inl GO_PANIC) | Some p \<Rightarrow> f p)"

definition new_child :: "ino \<Rightarrow> string \<Rightarrow> bool \<Rightarrow> 'w meta \<Rightarrow> ('w, ino) meta_result" where
  "new_child parent name isDir m =
     (case NewChild parent name isDir (MtTree m) of
        None \<Rightarrow> (m, Inl GO_PANIC)
      | Some (t, c) \<Rightarrow> (m\<lparr>MtTree := t\<rparr>, Inr c))"

definition rm_child :: "ino \<Rightarrow> string \<Rightarrow> 'w meta \<Rightarrow> ('w, unit) meta_result" where
  "rm_child parent name m =
     (case RmChild parent name (MtTree m) of
        None \<Rightarrow> (m, Inl GO_PANIC)
      | Some (t, c) \<Rightarrow> (m\<lparr>MtTree := t\<rparr>, Inr ()))"

definition with_attr :: "'w ufs_ops \<Rightarrow> string \<Rightarrow> ino \<Rightarrow> 'w meta \<Rightarrow> ('w, ino \<times> attr) meta_result" where
  "with_attr uf path c m = (m, bindE (getAttr uf m path) (\<lambda>a. Inr (c, a)))"

text \<open>A known child keeps its node, whatever the storage holds under the name by now. The second entry of
  a new node into its directory repeats the first.\<close>

definition meta_Lookup :: "'w ufs_ops \<Rightarrow> ino \<Rightarrow> string \<Rightarrow> 'w meta \<Rightarrow> ('w, ino \<times> attr) meta_result" where
  "meta_Lookup uf parent name m =
     (case toInode (MtTree m) parent of
        None \<Rightarrow> (m, Inl GO_PANIC)
      | Some pn \<Rightarrow>
          if \<not> IsDir pn then (m, Inl ENOTDIR)
          else at_child m parent name (\<lambda>p.
            case GetUFS m p of (u, isLink, prefix, path) \<Rightarrow>
              (case UfGetAttr uf u path (MtWorld m) of
                 Inl e \<Rightarrow> (m, Inl (ToSyscallErrno e))
               | Inr info \<Rightarrow>
                   (case FromFileInfo (if isLink then FixLinkPrefix prefix info else info) of
                      None \<Rightarrow> (m, Inl GO_PANIC)
                    | Some a \<Rightarrow>
                        if GetChild (MtTree m) parent name = 0
                        then bindM (new_child parent name (FiIsDir info) m) (\<lambda>c m1.
                               case AddChild parent name c (MtTree m1) of
                                 None \<Rightarrow> (m1, Inl GO_PANIC)
                               | Some t \<Rightarrow> (m1\<lparr>MtTree := t\<rparr>, Inr (c, a)))
                        else if toInode (MtTree m) (GetChild (MtTree m) parent name) = None then (m, Inl GO_PANIC)
                        else (m, Inr (GetChild (MtTree m) parent name, a))))))"

definition FATTR_MODE :: u32 where "FATTR_MODE = 1"
definition FATTR_UID :: u32 where "FATTR_UID = 2"
definition FATTR_GID :: u32 where "FATTR_GID = 4"
definition FATTR_SIZE :: u32 where "FATTR_SIZE = 8"
definition FATTR_ATIME :: u32 where "FATTR_ATIME = 16"
definition FATTR_MTIME :: u32 where "FATTR_MTIME = 32"
definition FATTR_CTIME :: u32 where "FATTR_CTIME = 1024"

definition truncate_path :: "'w ufs_ops \<Rightarrow> string \<Rightarrow> int \<Rightarrow> 'w meta \<Rightarrow> ('w, unit) meta_result" where
  "truncate_path uf name sz m =
     (case GetUFS m name of (u, isLink, prefix, path) \<Rightarrow> call_ufs (UfTruncate uf u path sz) m)"

definition unless :: "bool \<Rightarrow> 'w meta \<Rightarrow> ('w meta \<Rightarrow> ('w, unit) meta_result) \<Rightarrow> ('w, unit) meta_result" where
  "unless b m f = (if b then (m, Inr ()) else f m)"

definition utimens :: "'w ufs_ops \<Rightarrow> nat \<Rightarrow> string \<Rightarrow> attr \<Rightarrow> 'w meta \<Rightarrow> ('w, unit) meta_result" where
  "utimens uf u path a m =
     (case UfUtimens uf u path (AtAtime a) (AtCtime a) (MtWorld m) of (w, r) \<Rightarrow>
        (m\<lparr>MtWorld := w\<rparr>,
         case r of Inl e \<Rightarrow> if e = SysErrno ENOSYS then Inr () else Inl (ToSyscallErrno e) | Inr v \<Rightarrow> Inr ()))"

definition meta_SetAttr :: "'w ufs_ops \<Rightarrow> ino \<Rightarrow> u32 \<Rightarrow> attr \<Rightarrow> 'w meta \<Rightarrow> ('w, attr) meta_result" where
  "meta_SetAttr uf i flags a m =
     at_node m i (\<lambda>name. case GetUFS m name of (u, isLink, prefix, path) \<Rightarrow>
       bindM (unless (flags AND FATTR_UID = 0 \<and> flags AND FATTR_GID = 0) m
                (call_ufs (UfChown uf u path (AtUid a) (AtGid a)))) (\<lambda>_ m1.
       bindM (unless (flags AND FATTR_MODE = 0) m1 (call_ufs (UfChmod uf u path (AtMode a)))) (\<lambda>_ m2.
       bindM (unless (flags AND FATTR_SIZE = 0) m2 (truncate_path uf name (AtSize a))) (\<lambda>_ m3.
       bindM (unless (flags AND FATTR_ATIME = 0 \<and> flags AND FATTR_MTIME = 0 \<and> flags AND FATTR_CTIME = 0) m3
                (utimens uf u path a)) (\<lambda>_ m4.
       (m4, getAttr uf m4 name))))))"

definition meta_Truncate :: "'w ufs_ops \<Rightarrow> ino \<Rightarrow> int \<Rightarrow> 'w meta \<Rightarrow> ('w, unit) meta_result" where
  "meta_Truncate uf i sz m = at_node m i (\<lambda>name. truncate_path uf name sz m)"

definition meta_Mknod :: "'w ufs_ops \<Rightarrow> ino \<Rightarrow> string \<Rightarrow> u32 \<Rightarrow> u32 \<Rightarrow> 'w meta \<Rightarrow> ('w, ino \<times> attr) meta_result" where
  "meta_Mknod uf parent name mode rdev m =
     at_child m parent name (\<lambda>p. case GetUFS m p of (u, isLink, prefix, path) \<Rightarrow>
       bindM (call_ufs (UfMknod uf u path mode rdev) m) (\<lambda>_ m1.
       bindM (new_child parent name True m1) (\<lambda>c m2. with_attr uf p c m2)))"

definition meta_Mkdir :: "'w ufs_ops \<Rightarrow> ino \<Rightarrow> string \<Rightarrow> u32 \<Rightarrow> 'w meta \<Rightarrow> ('w, ino \<times> attr) meta_result" where
  "meta_Mkdir uf parent name mode m =
     at_child m parent name (\<lambda>p. case GetUFS m p of (u, isLink, prefix, path) \<Rightarrow>
       bindM (call_ufs (UfMkdir uf u path mode) m) (\<lambda>_ m1.
       bindM (new_child parent name True m1) (\<lambda>c m2. with_attr uf p c m2)))"

definition meta_Unlink :: "'w ufs_ops \<Rightarrow> ino \<Rightarrow> string \<Rightarrow> 'w meta \<Rightarrow> ('w, unit) meta_result" where
  "meta_Unlink uf parent name m =
     at_child m parent name (\<lambda>p. case GetUFS m p of (u, isLink, prefix, path) \<Rightarrow>
       bindM (call_ufs (UfUnlink uf u path) m) (\<lambda>_ m1. rm_child parent name m1))"

definition meta_Rmdir :: "'w ufs_ops \<Rightarrow> ino \<Rightarrow> string \<Rightarrow> 'w meta \<Rightarrow> ('w, unit) meta_result" where
  "meta_Rmdir uf parent name m =
     at_child m parent name (\<lambda>p. case GetUFS m p of (u, isLink, prefix, path) \<Rightarrow>
       bindM (call_ufs (UfRmdir uf u path) m) (\<lambda>_ m1. rm_child parent name m1))"

definition meta_Rename ::
  "'w ufs_ops \<Rightarrow> ino \<Rightarrow> string \<Rightarrow> ino \<Rightarrow> string \<Rightarrow> 'w meta \<Rightarrow> ('w, ino \<times> attr) meta_result" where
  "meta_Rename uf parentSrc nameSrc parentDst nameDst m =
     at_child m parentSrc nameSrc (\<lambda>pathSrc. at_child m parentDst nameDst (\<lambda>pathDst.
       case (GetUFS m pathSrc, GetUFS m pathDst) of ((uSrc, _, _, newSrc), (uDst, _, _, newDst)) \<Rightarrow>
         if uSrc \<noteq> uDst then (m, Inl ENOSYS)
         else bindM (call_ufs (UfRename uf uSrc newSrc newDst) m) (\<lambda>_ m1.
              bindM (m1, getAttr uf m1 pathDst) (\<lambda>a m2.
              bindM (rm_child parentSrc nameSrc m2) (\<lambda>_ m3.
              bindM (new_child parentDst nameDst (attr_IsDir a) m3) (\<lambda>c m4. (m4, Inr (c, a))))))))"

definition meta_Create ::
  "'w ufs_ops \<Rightarrow> ino \<Rightarrow> string \<Rightarrow> u32 \<Rightarrow> u32 \<Rightarrow> 'w meta \<Rightarrow> ('w, (ino \<times> attr) \<times> nat \<times> string) meta_result" where
  "meta_Create uf parent name mode flags m =
     at_child m parent name (\<lambda>p. case GetUFS m p of (u, isLink, prefix, path) \<Rightarrow>
       bindM (call_ufs (UfCreate uf u path flags mode) m) (\<lambda>_ m1.
       bindM (new_child parent name False m1) (\<lambda>c m2.
       bindM (with_attr uf p c m2) (\<lambda>ca m3. (m3, Inr (ca, u, path))))))"

definition meta_Open :: "'w ufs_ops \<Rightarrow> ino \<Rightarrow> 'w meta \<Rightarrow> errno + attr \<times> nat \<times> string" where
  "meta_Open uf i m =
     at_path m i (\<lambda>name. bindE (getAttr uf m name) (\<lambda>a.
       case GetUFS m name of (u, isLink, prefix, path) \<Rightarrow> Inr (a, u, path)))"

text \<open>A link whose root cannot be read dereferences a nil attribute.\<close>

fun put_entry :: "dir_entry \<Rightarrow> string \<Rightarrow> dir_entry list \<Rightarrow> dir_entry list" where
  "put_entry e base [] = [e]"
| "put_entry e base (d # ds) = (if path_Clean (DeName d) = path_Clean base then e # ds else d # put_entry e base ds)"

definition link_entry :: "'w ufs_ops \<Rightarrow> 'w meta \<Rightarrow> string \<Rightarrow> string \<times> nat \<Rightarrow> dir_entry list \<Rightarrow> errno + dir_entry list" where
  "link_entry uf m name l dirs =
     (if path_Clean (slash # name) = path_Clean (slash # path_Dir (fst l))
      then (case UfGetAttr uf (snd l) '''' (MtWorld m) of
              Inl e \<Rightarrow> Inl GO_PANIC
            | Inr info \<Rightarrow>
                Inr (put_entry \<lparr>DeName = path_Base (fst l), DeMode = ModeSymlink OR FiMode info\<rparr> (path_Base (fst l)) dirs))
      else Inr dirs)"

definition meta_Readdir :: "'w ufs_ops \<Rightarrow> ino \<Rightarrow> 'w meta \<Rightarrow> errno + dir_entry list" where
  "meta_Readdir uf i m =
     at_path m i (\<lambda>name. case GetUFS m name of (u, isLink, prefix, path) \<Rightarrow>
       (case UfReadDir uf u path (MtWorld m) of
          Inl e \<Rightarrow> Inl (ToSyscallErrno e)
        | Inr dirs \<Rightarrow> if isLink then Inr dirs else foldE (link_entry uf m name) (MtLinks m) dirs))"

definition meta_GetXattr :: "'w ufs_ops \<Rightarrow> ino \<Rightarrow> string \<Rightarrow> 'w meta \<Rightarrow> errno + string" where
  "meta_GetXattr uf i attribute m =
     at_path m i (\<lambda>name. case GetUFS m name of (u, isLink, prefix, path) \<Rightarrow>
       (case UfGetXAttr uf u path attribute (MtWorld m) of Inl e \<Rightarrow> Inl (ToSyscallErrno e) | Inr d \<Rightarrow> Inr d))"

definition meta_ListXattr :: "'w ufs_ops \<Rightarrow> ino \<Rightarrow> 'w meta \<Rightarrow> errno + string list" where
  "meta_ListXattr uf i m =
     at_path m i (\<lambda>name. case GetUFS m name of (u, isLink, prefix, path) \<Rightarrow>
       (case UfListXAttr uf u path (MtWorld m) of Inl e \<Rightarrow> Inl (ToSyscallErrno e) | Inr d \<Rightarrow> Inr d))"

definition meta_SetXattr :: "'w ufs_ops \<Rightarrow> ino \<Rightarrow> string \<Rightarrow> string \<Rightarrow> u32 \<Rightarrow> 'w meta \<Rightarrow> ('w, unit) meta_result" where
  "meta_SetXattr uf i attribute val flags m =
     at_node m i (\<lambda>name. case GetUFS m name of (u, isLink, prefix, path) \<Rightarrow>
       call_ufs (UfSetXAttr uf u path attribute val flags) m)"

definition meta_RemoveXattr :: "'w ufs_ops \<Rightarrow> ino \<Rightarrow> string \<Rightarrow> 'w meta \<Rightarrow> ('w, unit) meta_result" where
  "meta_RemoveXattr uf i attribute m =
     at_node m i (\<lambda>name. case GetUFS m name of (u, isLink, prefix, path) \<Rightarrow>
       call_ufs (UfRemoveXAttr uf u path attribute) m)"

section \<open>Links\<close>

definition newUFS :: "'w ufs_ops \<Rightarrow> fs_meta \<Rightarrow> 'w \<Rightarrow> 'w \<times> (go_error + nat)" where
  "newUFS uf fm =
     (let properties = mput ''subpath'' (FmSubPath fm) (FmProperties fm);
          t = FmUfsType fm
      in UfNew uf t
           (if t = ''hdfs'' \<or> t = ''hdfsWithKerberos'' then mput ''dfs.namenode.address'' (FmServerAddress fm) properties
            else if t = ''sftp'' then mput ''address'' (FmServerAddress fm) properties
            else properties))"

fun new_links :: "'w ufs_ops \<Rightarrow> (string \<times> fs_meta) list \<Rightarrow> (string \<times> nat) list \<Rightarrow> 'w \<Rightarrow> 'w \<times> (go_error + (string \<times> nat) list)" where
  "new_links uf [] links w = (w, Inr links)"
| "new_links uf ((key, fm) # metas) links w =
     (case newUFS uf fm w of
        (w1, Inl e) \<Rightarrow> (w1, Inl e)
      | (w1, Inr u) \<Rightarrow> new_links uf metas (mput (path_Clean key) u links) w1)"

definition UpdateUFSMap :: "'w ufs_ops \<Rightarrow> (string \<times> fs_meta) list \<Rightarrow> 'w meta \<Rightarrow> 'w meta \<times> (go_error + unit)" where
  "UpdateUFSMap uf metas m =
     (case new_links uf metas [] (MtWorld m) of
        (w, Inl e) \<Rightarrow> (m\<lparr>MtWorld := w\<rparr>, Inl e)
      | (w, Inr links) \<Rightarrow> (m\<lparr>MtWorld := w, MtLinks := links\<rparr>, Inr ()))"

text \<open>\<open>decode\<close> is \<open>json.Unmarshal\<close> of the table of links, \<open>dec\<close> the block cipher. The first component of
  the result is false when the update failed.\<close>

definition linksMetaUpdate ::
  "'w ufs_ops \<Rightarrow> block_cipher \<Rightarrow> (string \<Rightarrow> (string \<times> fs_meta) list option) \<Rightarrow> string \<Rightarrow> 'w meta \<Rightarrow> 'w meta \<times> bool" where
  "linksMetaUpdate uf dec decode dir m =
     (let filePath = path_Join [dir, ''.config'', ''links_meta'']
      in case getAttr uf m filePath of
           Inl e \<Rightarrow> (m, False)
         | Inr a \<Rightarrow>
             if fst (AtMtime a) \<le> MtUT m then (m, True)
             else (case UfReadFile uf (MtDefault m) filePath (AtSize a) (MtWorld m) of
                Inl e \<Rightarrow> (m, False)
              | Inr content \<Rightarrow>
                  (case (if content = '''' then Some []
                         else case AesDecrypt dec content AESEncryptKey of Inl e \<Rightarrow> None | Inr text \<Rightarrow> decode text) of
                     None \<Rightarrow> (m, False)
                   | Some metas \<Rightarrow>
                       (case UpdateUFSMap uf metas m of
                          (m1, Inl e) \<Rightarrow> (m1, False)
                        | (m1, Inr u) \<Rightarrow> (m1\<lparr>MtUT := fst (AtMtime a)\<rparr>, True)))))"

definition NewDefaultMeta :: "'w ufs_ops \<Rightarrow> fs_meta \<Rightarrow> (string \<times> fs_meta) list \<Rightarrow> inode_handle \<Rightarrow> 'w \<Rightarrow> 'w \<times> (go_error + 'w meta)" where
  "NewDefaultMeta uf fm links h w =
     (case newUFS uf fm w of
        (w1, Inl e) \<Rightarrow> (w1, Inl e)
      | (w1, Inr u) \<Rightarrow>
          (case UpdateUFSMap uf links \<lparr>MtTree = h, MtDefault = u, MtLinks = [], MtUT = 0, MtWorld = w1\<rparr> of
             (m, Inl e) \<Rightarrow> (MtWorld m, Inl e)
           | (m, Inr v) \<Rightarrow> (MtWorld m, Inr m)))"

section \<open>Requests as a machine\<close>

datatype meta_act =
    MaLookup ino string
  | MaSetAttr ino u32 attr
  | MaTruncate ino int
  | MaMknod ino string u32 u32
  | MaMkdir ino string u32
  | MaUnlink ino string
  | MaRmdir ino string
  | MaRename ino string ino string
  | MaCreate ino string u32 u32
  | MaSetXattr ino string string u32
  | MaRemoveXattr ino string
  | MaLinks string

record 'w meta_env =
  MeUfs :: "'w ufs_ops"
  MeDec :: block_cipher
  MeDecode :: "string \<Rightarrow> (string \<times> fs_meta) list option"

fun meta_do :: "'w meta_env \<Rightarrow> meta_act \<Rightarrow> 'w meta \<Rightarrow> 'w meta" where
  "meta_do e (MaLookup p n) m = fst (meta_Lookup (MeUfs e) p n m)"
| "meta_do e (MaSetAttr i flags a) m = fst (meta_SetAttr (MeUfs e) i flags a m)"
| "meta_do e (MaTruncate i sz) m = fst (meta_Truncate (MeUfs e) i sz m)"
| "meta_do e (MaMknod p n mode rdev) m = fst (meta_Mknod (MeUfs e) p n mode rdev m)"
| "meta_do e (MaMkdir p n mode) m = fst (meta_Mkdir (MeUfs e) p n mode m)"
| "meta_do e (MaUnlink p n) m = fst (meta_Unlink (MeUfs e) p n m)"
| "meta_do e (MaRmdir p n) m = fst (meta_Rmdir (MeUfs e) p n m)"
| "meta_do e (MaRename p n q k) m = fst (meta_Rename (MeUfs e) p n q k m)"
| "meta_do e (MaCreate p n mode flags) m = fst (meta_Create (MeUfs e) p n mode flags m)"
| "meta_do e (MaSetXattr i a v flags) m = fst (meta_SetXattr (MeUfs e) i a v flags m)"
| "meta_do e (MaRemoveXattr i a) m = fst (meta_RemoveXattr (MeUfs e) i a m)"
| "meta_do e (MaLinks dir) m = fst (linksMetaUpdate (MeUfs e) (MeDec e) (MeDecode e) dir m)"

text \<open>The kernel passes single components as names.\<close>

fun proper_act :: "meta_act \<Rightarrow> bool" where
  "proper_act (MaLookup p n) = proper_name n"
| "proper_act (MaMknod p n mode rdev) = proper_name n"
| "proper_act (MaMkdir p n mode) = proper_name n"
| "proper_act (MaRename p n q k) = proper_name k"
| "proper_act (MaCreate p n mode flags) = proper_name n"
| "proper_act _ = True"

definition meta_step :: "'w meta_env \<Rightarrow> meta_act \<Rightarrow> 'w meta \<Rightarrow> 'w meta option" where
  "meta_step e a m = Some (meta_do e a m)"

section \<open>The inode table stays well formed\<close>

definition meta_ok :: "'w meta \<Rightarrow> bool" where
  "meta_ok m = table_ok (MtTree m)"

lemma meta_ok_bindM:
  assumes "meta_ok (fst r)" and "\<And>x m. r = (m, Inr x) \<Longrightarrow> meta_ok m \<Longrightarrow> meta_ok (fst (f x m))"
  shows "meta_ok (fst (bindM r f))"
  using assms by (cases r; cases "snd r") (auto simp: bindM_def)

lemma meta_ok_call_ufs [simp]: "meta_ok (fst (call_ufs f m)) = meta_ok m"
  by (simp add: call_ufs_def meta_ok_def split: prod.split)

lemma meta_ok_utimens [simp]: "meta_ok (fst (utimens uf u path a m)) = meta_ok m"
  by (simp add: utimens_def meta_ok_def split: prod.split)

lemma meta_ok_truncate_path [simp]: "meta_ok (fst (truncate_path uf name sz m)) = meta_ok m"
  by (simp add: truncate_path_def split: prod.split)

lemma meta_ok_unless: "meta_ok m \<Longrightarrow> (meta_ok m \<Longrightarrow> meta_ok (fst (f m))) \<Longrightarrow> meta_ok (fst (unless b m f))"
  by (simp add: unless_def)

lemma meta_ok_at_child: "meta_ok m \<Longrightarrow> (\<And>p. meta_ok (fst (f p))) \<Longrightarrow> meta_ok (fst (at_child m parent name f))"
  by (simp add: at_child_def split: option.split)

lemma meta_ok_at_node: "meta_ok m \<Longrightarrow> (\<And>p. meta_ok (fst (f p))) \<Longrightarrow> meta_ok (fst (at_node m i f))"
  by (simp add: at_node_def split: option.split)

lemma meta_ok_new_child: "meta_ok m \<Longrightarrow> proper_name name \<Longrightarrow> meta_ok (fst (new_child parent name isDir m))"
  by (auto simp: new_child_def meta_ok_def intro: table_ok_NewChild split: option.split)

lemma meta_ok_rm_child: "meta_ok m \<Longrightarrow> meta_ok (fst (rm_child parent name m))"
  by (auto simp: rm_child_def meta_ok_def intro: table_ok_RmChild split: option.split)

lemma meta_ok_with_attr [simp]: "meta_ok (fst (with_attr uf p c m)) = meta_ok m"
  by (simp add: with_attr_def)

lemma meta_ok_prod: "(\<And>u l k p. x = (u, l, k, p) \<Longrightarrow> meta_ok (fst (f u l k p))) \<Longrightarrow> meta_ok (fst (case x of (u, l, k, p) \<Rightarrow> f u l k p))"
  by (simp split: prod.split)

lemmas meta_ok_intros = meta_ok_bindM meta_ok_unless meta_ok_at_child meta_ok_at_node meta_ok_new_child meta_ok_rm_child meta_ok_prod

lemma meta_ok_Lookup:
  assumes "meta_ok m" and "proper_name name"
  shows "meta_ok (fst (meta_Lookup uf parent name m))"
proof -
  have again: "meta_ok (fst (bindM (new_child parent name d m) (\<lambda>c m1. case AddChild parent name c (MtTree m1) of
      None \<Rightarrow> (m1, Inl GO_PANIC) | Some t \<Rightarrow> (m1\<lparr>MtTree := t\<rparr>, Inr (c, a)))))" for d a
  proof (rule meta_ok_bindM [OF meta_ok_new_child [OF assms]])
    fix c m1 assume c: "new_child parent name d m = (m1, Inr c)" and ok: "meta_ok m1"
    then have "NewChild parent name d (MtTree m) = Some (MtTree m1, c)"
      by (auto simp: new_child_def split: option.splits)
    then show "meta_ok (fst (case AddChild parent name c (MtTree m1) of
        None \<Rightarrow> (m1, Inl GO_PANIC) | Some t \<Rightarrow> (m1\<lparr>MtTree := t\<rparr>, Inr (c, a))))"
      using ok assms table_ok_AddChild_again by (auto simp: meta_ok_def split: option.split)
  qed
  show ?thesis unfolding meta_Lookup_def
    by (auto simp: assms(1) split: option.split sum.split intro!: meta_ok_at_child meta_ok_prod again)
qed

lemma meta_ok_links: "meta_ok m \<Longrightarrow> meta_ok (fst (linksMetaUpdate uf dec decode dir m))"
  by (auto simp: linksMetaUpdate_def UpdateUFSMap_def meta_ok_def Let_def split: sum.split option.split prod.split)

lemma meta_ok_do:
  assumes "meta_ok m" and "proper_act a"
  shows "meta_ok (meta_do e a m)"
proof (cases a)
  case (MaRename p n q k)
  then show ?thesis using assms
    by (auto simp: meta_Rename_def split: prod.split intro!: meta_ok_intros)
next
  case (MaLinks dir)
  then show ?thesis using assms by (simp add: meta_ok_links)
next
  case (MaLookup p n)
  then show ?thesis using assms by (simp add: meta_ok_Lookup)
qed (use assms in \<open>auto simp: meta_SetAttr_def meta_Truncate_def meta_Mknod_def meta_Mkdir_def meta_Unlink_def
       meta_Rmdir_def meta_Create_def meta_SetXattr_def meta_RemoveXattr_def intro!: meta_ok_intros\<close>)

interpretation client_meta: step_machine "meta_step e" proper_act meta_ok for e :: "'w meta_env"
  by unfold_locales (auto simp: meta_step_def meta_ok_do)

section \<open>Stale nodes\<close>

lemma at_child_Inr:
  assumes "at_child m parent name f = (m', Inr r)"
  obtains p where "f p = (m', Inr r)"
  using assms by (auto simp: at_child_def split: option.splits)

lemma bindM_Inr:
  assumes "bindM r f = (m', Inr y)"
  obtains m x where "r = (m, Inr x)" and "f x m = (m', Inr y)"
  using assms by (auto simp: bindM_def split: prod.splits sum.splits)

lemma call_ufs_tree: "call_ufs f m = (m', r) \<Longrightarrow> MtTree m' = MtTree m"
  by (auto simp: call_ufs_def split: prod.splits)

lemma rm_child_Inr: "rm_child parent name m = (m', Inr u) \<Longrightarrow> \<exists>c. RmChild parent name (MtTree m) = Some (MtTree m', c)"
  by (auto simp: rm_child_def split: option.splits)

lemma new_child_Inr: "new_child parent name d m = (m', Inr c) \<Longrightarrow> NewChild parent name d (MtTree m) = Some (MtTree m', c)"
  by (auto simp: new_child_def split: option.splits)

lemma path_of_orphan:
  assumes "tree_ok h" and "toInode h i = Some nd" and "NdParent nd = None"
  shows "InoToPath h i = Some [slash]"
  using InoToPath_walk [OF assms(1,2)] walk_simps(1) [OF assms] by simp

lemma removed_child_is_orphan:
  assumes "tree_ok h" and "child_of h n name = Some c" and "RmChild n name h = Some (h', d)"
  shows "\<exists>cn. toInode h' c = Some cn \<and> NdParent cn = None"
  using RmChild_Some [OF assms(1,2)] assms(3) by auto

lemma meta_Unlink_Inr:
  assumes "meta_Unlink uf parent name m = (m', Inr u)"
  shows "\<exists>c. RmChild parent name (MtTree m) = Some (MtTree m', c)"
  using assms unfolding meta_Unlink_def
  by (elim at_child_Inr) (auto elim!: bindM_Inr dest!: call_ufs_tree rm_child_Inr split: prod.splits)

text \<open>
  An unlinked file that is still open loses its path: its inode then stands for the root of the
  file system. A \<open>GetAttr\<close>, \<open>Truncate\<close> or \<open>SetAttr\<close> of that inode is carried out on the root directory.
\<close>

theorem unlinked_inode_is_root:
  assumes "meta_ok m" and "child_of (MtTree m) parent name = Some c" and "meta_Unlink uf parent name m = (m', Inr ())"
  shows "InoToPath (MtTree m') c = Some [slash] \<and> meta_GetAttr uf c m' = getAttr uf m' [slash] \<and>
     meta_Truncate uf c sz m' = truncate_path uf [slash] sz m' \<and>
     meta_SetAttr uf c flags a m' = meta_SetAttr uf rootInodeID flags a m'"
proof -
  have t: "tree_ok (MtTree m)" using assms(1) by (simp add: meta_ok_def table_ok_def)
  obtain d where rm: "RmChild parent name (MtTree m) = Some (MtTree m', d)" using meta_Unlink_Inr [OF assms(3)] by blast
  have t': "tree_ok (MtTree m')" by (rule tree_ok_RmChild [OF t rm])
  obtain cn where "toInode (MtTree m') c = Some cn" "NdParent cn = None" using removed_child_is_orphan [OF t assms(2) rm] by blast
  then have p: "InoToPath (MtTree m') c = Some [slash]" using path_of_orphan [OF t'] by blast
  obtain r where r: "toInode (MtTree m') rootInodeID = Some r" using t' by (auto simp: tree_ok_def)
  have "InoToPath (MtTree m') rootInodeID = Some [slash]" using InoToPath_walk [OF t' r] root_walk [OF t'] by simp
  with p show ?thesis by (simp add: meta_GetAttr_def meta_Truncate_def meta_SetAttr_def at_path_def at_node_def)
qed

lemma meta_Rename_Inr:
  assumes "meta_Rename uf src nameSrc dst nameDst m = (m', Inr r)"
  shows "\<exists>h c d. RmChild src nameSrc (MtTree m) = Some (h, c) \<and> NewChild dst nameDst d h = Some (MtTree m', fst r)"
proof -
  obtain ps where "at_child m dst nameDst (\<lambda>pathDst. case (GetUFS m ps, GetUFS m pathDst) of ((uSrc, _, _, newSrc), (uDst, _, _, newDst)) \<Rightarrow>
         if uSrc \<noteq> uDst then (m, Inl ENOSYS)
         else bindM (call_ufs (UfRename uf uSrc newSrc newDst) m) (\<lambda>_ m1.
              bindM (m1, getAttr uf m1 pathDst) (\<lambda>a m2.
              bindM (rm_child src nameSrc m2) (\<lambda>_ m3.
              bindM (new_child dst nameDst (attr_IsDir a) m3) (\<lambda>c m4. (m4, Inr (c, a))))))) = (m', Inr r)"
    using assms unfolding meta_Rename_def by (rule at_child_Inr)
  then show ?thesis
    by (elim at_child_Inr) (auto split: prod.splits if_splits elim!: bindM_Inr dest!: call_ufs_tree rm_child_Inr new_child_Inr)
qed

text \<open>
  Renaming a directory does not move the nodes below it: the node of an entry \<open>k\<close> of the old
  directory then has the path \<open>/k\<close>, and a request on it reaches whatever lies there.
\<close>

theorem renamed_directory_forgets_children:
  assumes "meta_ok m" and "child_of (MtTree m) src nameSrc = Some c" and "child_of (MtTree m) c k = Some d"
    and "meta_Rename uf src nameSrc dst nameDst m = (m', Inr r)"
  shows "InoToPath (MtTree m') d = Some (slash # k) \<and> meta_GetAttr uf d m' = getAttr uf m' (slash # k)"
proof -
  let ?h = "MtTree m"
  have t: "tree_ok ?h" using assms(1) by (simp add: meta_ok_def table_ok_def)
  obtain h x isDir where rm: "RmChild src nameSrc ?h = Some (h, x)" and new: "NewChild dst nameDst isDir h = Some (MtTree m', fst r)"
    using meta_Rename_Inr [OF assms(4)] by blast
  have th: "tree_ok h" by (rule tree_ok_RmChild [OF t rm])
  note new' = NewChild_Some [OF th new]
  obtain nd cs cn where nd: "toInode ?h src = Some nd" "toInode ?h c = Some cn" "src \<noteq> c"
    and h: "h = set_node c (cn\<lparr>NdParent := None\<rparr>) (set_node src (nd\<lparr>NdChild := Some (mdel nameSrc cs)\<rparr>) ?h)"
    using RmChild_Some [OF t assms(2)] rm by auto
  obtain dn where dn: "toInode ?h d = Some dn" "NdName dn = k" "NdParent dn = Some c"
    using child_ofD(2) [OF t assms(3)] by blast
  have "c < d" "src < c" using child_ofD(1) [OF t assms(3)] child_ofD(1) [OF t assms(2)] .
  then have dh: "toInode h d = Some dn" and ch: "toInode h c = Some (cn\<lparr>NdParent := None\<rparr>)" using h dn(1) by simp_all
  have fresh: "toInode h (fst r) = None" using new'(2) tree_okD(2) [OF th, of "fst r"] by (cases "toInode h (fst r)") auto
  obtain dn' where dn': "toInode (MtTree m') d = Some dn'" "NdName dn' = k" "NdParent dn' = Some c"
    using new'(5) [of d] new'(6) dh dn fresh by (cases "d = dst"; cases "d = fst r") auto
  obtain cn' where cn': "toInode (MtTree m') c = Some cn'" "NdParent cn' = None"
    using new'(5) [of c] new'(6) ch fresh by (cases "c = dst"; cases "c = fst r") auto
  have "walk (MtTree m') d = [k]"
    using walk_simps(2) [OF new'(1) dn'(1,3)] walk_simps(1) [OF new'(1) cn'] dn'(2) by simp
  then have "InoToPath (MtTree m') d = Some (slash # k)"
    using InoToPath_walk [OF new'(1) dn'(1)] by (simp add: abs_path_def)
  then show ?thesis by (simp add: meta_GetAttr_def at_path_def)
qed

section \<open>Paths of nodes\<close>

text \<open>
  C39: In every reachable state the path of a known node can be computed (the walk along the parents ends),
  it is a clean absolute path, and for a node that the directories lead to, \<open>PathToInode\<close> finds the node
  again; so two such nodes never share a path.
\<close>

theorem inode_paths_roundtrip:
  assumes "meta_ok m0" and "reached (meta_step e) proper_act m0 m"
  shows "(\<forall>i. toInode (MtTree m) i \<noteq> None \<longrightarrow> InoToPath (MtTree m) i \<noteq> None) \<and>
     (\<forall>i. attached (MtTree m) i \<longrightarrow>
        (\<exists>p. InoToPath (MtTree m) i = Some p \<and> path_Clean p = p \<and> PathToInode (MtTree m) p = i))"
proof -
  have "meta_ok m" by (rule client_meta.reached_inv [OF assms(2,1)])
  then have t: "tree_ok (MtTree m)" "names_ok (MtTree m)" by (simp_all add: meta_ok_def table_ok_def)
  show ?thesis
  proof (intro conjI allI impI)
    fix i assume "toInode (MtTree m) i \<noteq> None"
    then show "InoToPath (MtTree m) i \<noteq> None" using InoToPath_walk [OF t(1)] by auto
  next
    fix i assume i: "attached (MtTree m) i"
    note w = attached_walk [OF t i]
    then obtain nd where "toInode (MtTree m) i = Some nd" by auto
    then show "\<exists>p. InoToPath (MtTree m) i = Some p \<and> path_Clean p = p \<and> PathToInode (MtTree m) p = i"
      using InoToPath_walk [OF t(1)] PathToInode_walk [OF t i] w path_Clean_abs by blast
  qed
qed

section \<open>Routing by components\<close>

definition dir_comps :: "string \<Rightarrow> string list" where
  "dir_comps s = clean_comps True (slash # slash # s)"

lemma clean_joined: "path_Clean (path_Join [[slash], s]) = abs_path (dir_comps s)"
proof (cases "s = ''''")
  case True
  then show ?thesis
    by (simp add: path_Join_def dir_comps_def path_Clean_def clean_comps_def path_comps_def abs_path_def)
next
  case False
  then have "path_Join [[slash], s] = path_Clean (slash # slash # s)" by (simp add: path_Join_def)
  then show ?thesis by (simp only: path_Clean_idem) (simp only: path_Clean_rooted dir_comps_def)
qed

definition lies_below :: "string list \<Rightarrow> string list \<Rightarrow> bool" where
  "lies_below ks ts = (if ks = [] then ts = [] else take (length ks) ts = ks)"

lemma normal_dir_comps: "normal (dir_comps s)"
  by (simp add: dir_comps_def normal_clean_comps)

lemma has_prefix_iff: "has_prefix s p \<longleftrightarrow> (\<exists>r. s = p @ r)"
  unfolding has_prefix_def by (metis append_eq_conv_conj append_take_drop_id)

lemma abs_path_below:
  assumes n: "normal ks" "normal ts"
  shows "abs_path ts = abs_path ks @ slash # r \<longleftrightarrow> ks \<noteq> [] \<and> (\<exists>rest. rest \<noteq> [] \<and> ts = ks @ rest \<and> r = join_with slash rest)"
proof (cases "ks = []")
  case True
  have False if eq: "abs_path ts = slash # slash # r"
  proof (cases ts)
    case Nil
    then show False using eq by simp
  next
    case (Cons w ws)
    then obtain c cs where "w = c # cs" "c \<noteq> slash" using n(2) by (cases w) (auto simp: proper_name_def)
    then show False using eq Cons by (cases ws) (simp_all add: abs_path_def)
  qed
  then show ?thesis using True by auto
next
  case False
  show ?thesis
  proof (cases "ts = []")
    case True
    have "length (abs_path ks) > 0" by (simp add: abs_path_def)
    then have "abs_path ts \<noteq> abs_path ks @ slash # r" using True by (auto dest: arg_cong [of _ _ length])
    then show ?thesis using True by simp
  next
    case ts: False
    then show ?thesis using segs_below [OF n] False by (simp add: abs_path_segs)
  qed
qed

lemma lies_below_iff: "lies_below ks ts \<longleftrightarrow> ks = ts \<or> ks \<noteq> [] \<and> (\<exists>rest. rest \<noteq> [] \<and> ts = ks @ rest)"
proof
  assume b: "lies_below ks ts"
  show "ks = ts \<or> ks \<noteq> [] \<and> (\<exists>rest. rest \<noteq> [] \<and> ts = ks @ rest)"
  proof (cases "drop (length ks) ts")
    case Nil
    then show ?thesis using b by (auto simp: lies_below_def split: if_splits)
  next
    case (Cons x xs)
    have "take (length ks) ts = ks" "ks \<noteq> []" using b Cons by (auto simp: lies_below_def split: if_splits)
    then have "ts = ks @ x # xs" using append_take_drop_id [of "length ks" ts] Cons by simp
    then show ?thesis using \<open>ks \<noteq> []\<close> by blast
  qed
qed (auto simp: lies_below_def)

lemma key_matches:
  assumes "normal ks" and "normal ts"
  shows "has_prefix (abs_path ts) (abs_path ks @ [slash]) \<or> abs_path ts @ [slash] = abs_path ks @ [slash] \<longleftrightarrow> lies_below ks ts"
proof -
  have "abs_path ts @ [slash] = abs_path ks @ [slash] \<longleftrightarrow> ks = ts"
    using abs_path_inj [OF assms] by (simp only: append_same_eq) (rule iffI, erule sym [THEN abs_path_inj [OF assms]], simp)
  moreover have "has_prefix (abs_path ts) (abs_path ks @ [slash]) \<longleftrightarrow> (\<exists>r. abs_path ts = abs_path ks @ slash # r)"
    by (simp only: has_prefix_iff append_assoc append_Cons append_Nil)
  ultimately show ?thesis
    by (simp only: abs_path_below [OF assms] lies_below_iff) blast
qed

lemma key_rest:
  assumes "normal ks" and "normal ts" and "lies_below ks ts"
  shows "(if abs_path ts @ [slash] = abs_path ks @ [slash] then [] else trim_prefix (abs_path ts) (abs_path ks @ [slash])) =
      join_with slash (drop (length ks) ts)"
proof (cases "ks = ts")
  case False
  then obtain rest where r: "ks \<noteq> []" "rest \<noteq> []" "ts = ks @ rest" using assms(3) lies_below_iff by blast
  have eq: "abs_path ts = (abs_path ks @ [slash]) @ join_with slash rest" using abs_path_below [OF assms(1,2)] r by simp
  have "abs_path ts \<noteq> abs_path ks" using abs_path_inj [OF assms(1,2)] False by metis
  then show ?thesis unfolding trim_prefix_def has_prefix_def eq using r(3) eq by simp
qed simp

lemma link_key_abs: "link_key p = abs_path (dir_comps p) @ [slash]"
  by (simp only: link_key_def clean_joined)

lemma find_link_first:
  "find_link links (abs_path (dir_comps name)) =
     (case find (\<lambda>l. lies_below (dir_comps (fst l)) (dir_comps name)) links of
        None \<Rightarrow> None
      | Some l \<Rightarrow> Some (snd l, link_key (fst l), join_with slash (drop (length (dir_comps (fst l))) (dir_comps name))))"
proof (induction links)
  case (Cons l links)
  obtain p u where l: "l = (p, u)" by (cases l)
  note n = normal_dir_comps [of p] normal_dir_comps [of name]
  have step: "find_link (l # links) (abs_path (dir_comps name)) =
     (if lies_below (dir_comps p) (dir_comps name)
      then Some (u, link_key p, join_with slash (drop (length (dir_comps p)) (dir_comps name)))
      else find_link links (abs_path (dir_comps name)))"
    unfolding l find_link.simps Let_def link_key_abs key_matches [OF n] using key_rest [OF n] by (simp del: append_same_eq)
  show ?case unfolding step using Cons.IH by (simp add: l)
qed simp

lemma find_unique:
  assumes "x \<in> set xs" and "P x" and "\<And>y. y \<in> set xs \<Longrightarrow> P y \<Longrightarrow> y = x"
  shows "find P xs = Some x"
  using assms
proof (induction xs)
  case (Cons y ys)
  show ?case
  proof (cases "P y")
    case True
    then have "y = x" using Cons.prems(3) [of y] by simp
    with True show ?thesis by simp
  next
    case False
    then have "x \<in> set ys" using Cons.prems(1,2) by auto
    then have "find P ys = Some x" using Cons.IH Cons.prems(2,3) by (meson list.set_intros(2))
    with False show ?thesis by simp
  qed
qed simp

text \<open>
  \<open>GetUFS\<close> routes a path by whole components: to a link exactly when the components of the link
  begin the components of the path (after cleaning both), with the rest of the components as the path
  there, and to the default storage with the unchanged path otherwise. If no other link holds the path,
  the order of the map does not matter.
\<close>

theorem GetUFS_routes_components:
  assumes "\<And>p u q v. (p, u) \<in> set (MtLinks m) \<Longrightarrow> (q, v) \<in> set (MtLinks m) \<Longrightarrow>
      lies_below (dir_comps p) (dir_comps name) \<Longrightarrow> lies_below (dir_comps q) (dir_comps name) \<Longrightarrow> (p, u) = (q, v)"
  shows "((p, u) \<in> set (MtLinks m) \<and> lies_below (dir_comps p) (dir_comps name) \<longrightarrow>
       GetUFS m name = (u, True, abs_path (dir_comps p) @ [slash], join_with slash (drop (length (dir_comps p)) (dir_comps name)))) \<and>
     ((\<forall>l\<in>set (MtLinks m). \<not> lies_below (dir_comps (fst l)) (dir_comps name)) \<longrightarrow> GetUFS m name = (MtDefault m, False, '''', name))"
proof (intro conjI impI)
  let ?P = "\<lambda>l :: string \<times> nat. lies_below (dir_comps (fst l)) (dir_comps name)"
  assume pu: "(p, u) \<in> set (MtLinks m) \<and> lies_below (dir_comps p) (dir_comps name)"
  have "find ?P (MtLinks m) = Some (p, u)"
    by (rule find_unique) (use pu assms in auto)
  then show "GetUFS m name = (u, True, abs_path (dir_comps p) @ [slash], join_with slash (drop (length (dir_comps p)) (dir_comps name)))"
    by (simp add: GetUFS_def clean_joined find_link_first) (simp add: link_key_def clean_joined)
next
  assume "\<forall>l\<in>set (MtLinks m). \<not> lies_below (dir_comps (fst l)) (dir_comps name)"
  then have "find (\<lambda>l. lies_below (dir_comps (fst l)) (dir_comps name)) (MtLinks m) = None" by (auto simp: find_None_iff)
  then show "GetUFS m name = (MtDefault m, False, '''', name)" by (simp add: GetUFS_def clean_joined find_link_first)
qed

section \<open>Permission masks\<close>

text \<open>
  \<open>HasAccess\<close> asks for one of the requested permissions instead of all: whoever may read a file is
  granted a request to read and write it, and every caller passes when the bits of others hold one of
  the requested ones.
\<close>

theorem HasAccess_grants_any_bit:
  "(perm AND push_bit 6 (msk AND 7) \<noteq> 0 \<longrightarrow> HasAccess groups uid gid uid fgid perm msk) \<and>
   (perm AND (msk AND 7) \<noteq> 0 \<longrightarrow> HasAccess groups uid gid fuid fgid perm msk) \<and>
   HasAccess groups 1000 1000 1000 1000 0x100 6"
proof (intro conjI impI)
  show "HasAccess groups uid gid uid fgid perm msk" if "perm AND push_bit 6 (msk AND 7) \<noteq> 0"
    using that by (simp add: HasAccess_def Let_def)
  show "HasAccess groups uid gid fuid fgid perm msk" if "perm AND (msk AND 7) \<noteq> 0"
    using that by (simp add: HasAccess_def Let_def)
  show "HasAccess groups 1000 1000 1000 1000 0x100 6" by (simp add: HasAccess_def Let_def)
qed

section \<open>Witnesses\<close>

definition demo_info :: "string \<Rightarrow> file_info" where
  "demo_info p = \<lparr>FiName = p, FiPath = p, FiSize = 0, FiMtime = 0, FiIsDir = True, FiMode = 0x1ED,
     FiSys = Some \<lparr>StMode = 0x41ED, StUid = 0, StGid = 0, StRdev = 0, StNlink = 1, StSize = 0, StBlksize = 4096, StBlocks = 0,
       StAtim = (0, 0), StMtim = (0, 0), StCtim = (0, 0)\<rparr>\<rparr>"

definition demo_ufs :: "unit ufs_ops" where
  "demo_ufs = \<lparr>UfGetAttr = (\<lambda>u p w. Inr (demo_info p)), UfChown = (\<lambda>u p i j w. (w, Inr ())), UfChmod = (\<lambda>u p i w. (w, Inr ())),
     UfUtimens = (\<lambda>u p a b w. (w, Inr ())), UfTruncate = (\<lambda>u p n w. (w, Inr ())), UfMknod = (\<lambda>u p i j w. (w, Inr ())),
     UfMkdir = (\<lambda>u p i w. (w, Inr ())), UfCreate = (\<lambda>u p i j w. (w, Inr ())), UfUnlink = (\<lambda>u p w. (w, Inr ())),
     UfRmdir = (\<lambda>u p w. (w, Inr ())), UfRename = (\<lambda>u p q w. (w, Inr ())), UfReadDir = (\<lambda>u p w. Inr []),
     UfGetXAttr = (\<lambda>u p a w. Inr ''''), UfListXAttr = (\<lambda>u p w. Inr []), UfSetXAttr = (\<lambda>u p a v i w. (w, Inr ())),
     UfRemoveXAttr = (\<lambda>u p a w. (w, Inr ())), UfReadFile = (\<lambda>u p n w. Inr ''''), UfNew = (\<lambda>t ps w. (w, Inr 0))\<rparr>"

definition demo_meta_env :: "unit meta_env" where
  "demo_meta_env = \<lparr>MeUfs = demo_ufs, MeDec = (\<lambda>b. b), MeDecode = (\<lambda>s. None)\<rparr>"

definition demo_meta :: "unit meta" where
  "demo_meta = \<lparr>MtTree = InitRootNode NewInodeHandle, MtDefault = 0, MtLinks = [(''data/ext'', 1)], MtUT = 0, MtWorld = ()\<rparr>"

definition demo_acts :: "meta_act list" where
  "demo_acts = [MaMkdir 1 ''a'' 0x1ED, MaLookup 2 ''f'']"

definition demo_tree :: "unit meta" where
  "demo_tree = the (run_acts (meta_step demo_meta_env) demo_acts demo_meta)"

lemma demo_meta_ok: "meta_ok demo_meta"
  by (simp add: meta_ok_def demo_meta_def table_ok_init)

lemma demo_tree_reached: "reached (meta_step demo_meta_env) proper_act demo_meta demo_tree"
proof -
  have "run_acts (meta_step demo_meta_env) demo_acts demo_meta = Some demo_tree"
    by (simp add: demo_tree_def demo_acts_def meta_step_def)
  then show ?thesis by (rule reached_acts) (simp add: demo_acts_def proper_name_def)
qed

lemma demo_tree_ok: "meta_ok demo_tree"
  by (rule client_meta.reached_inv [OF demo_tree_reached demo_meta_ok])

lemma demo_tree_entries:
  "child_of (MtTree demo_tree) 1 ''a'' = Some 2" "child_of (MtTree demo_tree) 2 ''f'' = Some 3"
  by code_simp+

lemma inode_paths_roundtrip_witness:
  "\<exists>p. InoToPath (MtTree demo_tree) 3 = Some p \<and> path_Clean p = p \<and> PathToInode (MtTree demo_tree) p = 3"
proof -
  have "attached (MtTree demo_tree) 1" using attached_root [of "MtTree demo_tree"] by (simp add: rootInodeID_def)
  then have "attached (MtTree demo_tree) 3" using demo_tree_entries by (blast intro: attached_child)
  then show ?thesis using inode_paths_roundtrip [OF demo_meta_ok demo_tree_reached] by blast
qed

lemma unlinked_inode_is_root_witness:
  "InoToPath (MtTree (fst (meta_Unlink demo_ufs 2 ''f'' demo_tree))) 3 = Some [slash]"
proof -
  have "snd (meta_Unlink demo_ufs 2 ''f'' demo_tree) = Inr ()" by code_simp
  then have "meta_Unlink demo_ufs 2 ''f'' demo_tree = (fst (meta_Unlink demo_ufs 2 ''f'' demo_tree), Inr ())" by (simp add: prod_eq_iff)
  from unlinked_inode_is_root [OF demo_tree_ok demo_tree_entries(2) this] show ?thesis by (rule conjunct1)
qed

lemma renamed_directory_forgets_children_witness:
  "InoToPath (MtTree (fst (meta_Rename demo_ufs 1 ''a'' 1 ''b'' demo_tree))) 3 = Some (slash # ''f'')"
proof -
  have "case snd (meta_Rename demo_ufs 1 ''a'' 1 ''b'' demo_tree) of Inl e \<Rightarrow> False | Inr r \<Rightarrow> True" by code_simp
  then obtain r where "meta_Rename demo_ufs 1 ''a'' 1 ''b'' demo_tree = (fst (meta_Rename demo_ufs 1 ''a'' 1 ''b'' demo_tree), Inr r)"
    by (cases "meta_Rename demo_ufs 1 ''a'' 1 ''b'' demo_tree"; cases "snd (meta_Rename demo_ufs 1 ''a'' 1 ''b'' demo_tree)") auto
  from renamed_directory_forgets_children [OF demo_tree_ok demo_tree_entries this] show ?thesis by (elim conjE)
qed

lemma GetUFS_routes_components_witness:
  "GetUFS demo_meta ''data/ext/x'' = (1, True, ''/data/ext/'', ''x'') \<and> GetUFS demo_meta ''data/extra'' = (0, False, '''', ''data/extra'')"
proof -
  have links: "MtLinks demo_meta = [(''data/ext'', 1)]" "MtDefault demo_meta = 0" by (simp_all add: demo_meta_def)
  have below: "lies_below (dir_comps ''data/ext'') (dir_comps ''data/ext/x'')" "\<not> lies_below (dir_comps ''data/ext'') (dir_comps ''data/extra'')"
    "abs_path (dir_comps ''data/ext'') @ [slash] = ''/data/ext/''"
    "join_with slash (drop (length (dir_comps ''data/ext'')) (dir_comps ''data/ext/x'')) = ''x''" by code_simp+
  have a: "GetUFS demo_meta ''data/ext/x'' = (1, True, ''/data/ext/'', ''x'')"
    using GetUFS_routes_components [of demo_meta "''data/ext/x''" "''data/ext''" 1] below by (simp add: links)
  have b: "GetUFS demo_meta ''data/extra'' = (0, False, '''', ''data/extra'')"
    using GetUFS_routes_components [of demo_meta "''data/extra''" "''data/ext''" 1] below by (simp add: links)
  from a b show ?thesis ..
qed

lemma HasAccess_grants_any_bit_witness: "HasAccess (\<lambda>u. None) 5 6 5 7 0x100 6"
proof -
  have "(0x100 :: u32) AND push_bit 6 (6 AND 7) \<noteq> 0" by simp
  then show ?thesis using HasAccess_grants_any_bit by blast
qed

end
