(* ===== verification/PF_BlockCache.thy ===== *)
theory PF_BlockCache
  imports PF_Meta
begin

text \<open>
  The read cache of the file system client: \<open>pkg/fs/client/cache\<close> (\<open>cache.go\<close>, \<open>memory.go\<close>, \<open>disk.go\<close>) and the
  reader and writer of \<open>client/vfs\<close> on top of it. Files are cut into blocks; a block is kept in memory and
  on disk under a key made from the ID of its file, a fresh UUID per file and invalidation, and its
  index. Reading a missing block starts a goroutine that stores it (\<open>CsTasks\<close>), and an invalidation starts
  one that deletes the old blocks (\<open>CsDeletes\<close>); their iterations are steps of the machine. The storage
  behind a file handle is its content. A file of the disk cache is named by its key, since
  \<open>getKeyFromCachePath\<close> inverts \<open>cachePath\<close>. Offsets and sizes are natural numbers.
\<close>

section \<open>State\<close>

record disk_item =
  DiSize :: int
  DiExp :: int

record disk_cache =
  DcCapacity :: int
  DcUsed :: int
  DcExpire :: int
  DcKeys :: "(string \<times> disk_item) list"
  DcFiles :: "(string \<times> string) list"
  DcRemovals :: "string list"

text \<open>\<open>TkNext\<close> is the loop variable of \<open>setCache\<close>, \<open>DlIndex\<close> that of the deletion loop.\<close>

record set_task =
  TkName :: string
  TkOff :: nat
  TkData :: string
  TkNext :: nat

record delete_task =
  DlKeyID :: string
  DlLength :: nat
  DlIndex :: nat

record cache_store =
  CsMem :: "(string \<times> string) list option"
  CsDisk :: "disk_cache option"
  CsBlock :: nat
  CsMeta :: "string gomap"
  CsFresh :: nat
  CsTasks :: "set_task list"
  CsDeletes :: "delete_task list"

section \<open>Keys\<close>

text \<open>\<open>hash/fnv\<close>, variant FNV-1 with 64 bits.\<close>

definition KeyHash :: "string \<Rightarrow> 64 word" where
  "KeyHash s = foldl (\<lambda>h c. (h * 1099511628211) XOR of_nat (code_point c)) 14695981039346656037 s"

definition block_key :: "string \<Rightarrow> nat \<Rightarrow> string" where
  "block_key keyID i =
     path_Clean (''blocks/'' @ itoa (int (unat (KeyHash keyID) mod 256)) @ ''/'' @ keyID @ ''_'' @ itoa (int i))"

text \<open>The key is made from the ID read before: on the first use of a name that is the empty string, while
  the fresh UUID is stored for the next use.\<close>

definition rCache_key :: "(nat \<Rightarrow> string) \<Rightarrow> string \<Rightarrow> nat \<Rightarrow> cache_store \<Rightarrow> string \<times> cache_store" where
  "rCache_key uuid name i s =
     (let keyID = mstr (CsMeta s) name
      in (block_key keyID i,
          if keyID = '''' then s\<lparr>CsMeta := mput name (uuid (CsFresh s)) (CsMeta s), CsFresh := CsFresh s + 1\<rparr> else s))"

section \<open>The disk cache\<close>

definition disk_exist :: "int \<Rightarrow> disk_cache \<Rightarrow> string \<Rightarrow> bool" where
  "disk_exist now d key =
     (case mget (DcKeys d) key of None \<Rightarrow> False | Some it \<Rightarrow> \<not> DiExp it - now \<le> 0)"

definition disk_load :: "int \<Rightarrow> disk_cache \<Rightarrow> string \<Rightarrow> string option" where
  "disk_load now d key = (if disk_exist now d key then mget (DcFiles d) key else None)"

definition disk_delete :: "string \<Rightarrow> disk_cache \<Rightarrow> disk_cache" where
  "disk_delete key d = d\<lparr>DcKeys := mdel key (DcKeys d), DcRemovals := DcRemovals d @ [key]\<rparr>"

text \<open>The output of \<open>df -k\<close>, line by line: the first line with six fields counts.\<close>

fun str_fields :: "string \<Rightarrow> string list" where
  "str_fields s = filter (\<lambda>w. w \<noteq> '''') (split_on (CHR '' '') (map (\<lambda>c. if is_space c then CHR '' '' else c) s))"

fun parse_df :: "string list \<Rightarrow> (int \<times> int) option" where
  "parse_df [] = None"
| "parse_df (line # ls) =
     (if has_prefix line ''Filesystem'' \<or> length (str_fields line) < 6 then parse_df ls
      else case (atoi (str_fields line ! 1), atoi (str_fields line ! 2)) of
             (Some cap, Some used) \<Rightarrow> Some (cap * 1024, used * 1024)
           | _ \<Rightarrow> None)"

definition updateCapacity :: "string list option \<Rightarrow> disk_cache \<Rightarrow> disk_cache" where
  "updateCapacity df d =
     (case df of
        None \<Rightarrow> d
      | Some out \<Rightarrow> (case parse_df out of None \<Rightarrow> d | Some (cap, used) \<Rightarrow> d\<lparr>DcCapacity := cap, DcUsed := used\<rparr>))"

definition disk_clean :: "int \<Rightarrow> string list option \<Rightarrow> disk_cache \<Rightarrow> disk_cache" where
  "disk_clean now df d =
     (let expired = filter (\<lambda>k. case mget (DcKeys d) k of None \<Rightarrow> False | Some it \<Rightarrow> 0 \<le> now - DiExp it) (keys (DcKeys d));
          d1 = foldl (\<lambda>d k. disk_delete k d) d expired
      in updateCapacity df (d1\<lparr>DcFiles := filter (\<lambda>(k, b). k \<in> set (keys (DcKeys d1))) (DcFiles d1)\<rparr>))"

text \<open>\<open>fault\<close> is a failure of writing or renaming the temporary file.\<close>

definition disk_save :: "int \<Rightarrow> string list option \<Rightarrow> bool \<Rightarrow> string \<Rightarrow> string \<Rightarrow> disk_cache \<Rightarrow> disk_cache" where
  "disk_save now df fault key buf d =
     (let sz = int (length buf);
          d1 = (if DcCapacity d \<le> DcUsed d + sz then disk_clean now df d else d)
      in if DcCapacity d1 \<le> DcUsed d1 + sz then d1
         else if fault then d1
         else d1\<lparr>DcFiles := mput key buf (DcFiles d1), DcKeys := mput key \<lparr>DiSize = sz, DiExp = now + DcExpire d1\<rparr> (DcKeys d1)\<rparr>)"

definition disk_remove :: "nat \<Rightarrow> disk_cache \<Rightarrow> disk_cache" where
  "disk_remove i d =
     (if i < length (DcRemovals d)
      then d\<lparr>DcFiles := mdel (DcRemovals d ! i) (DcFiles d), DcRemovals := take i (DcRemovals d) @ drop (Suc i) (DcRemovals d)\<rparr>
      else d)"

section \<open>Both levels\<close>

definition readCache :: "int \<Rightarrow> cache_store \<Rightarrow> nat \<Rightarrow> string \<Rightarrow> nat \<Rightarrow> string option" where
  "readCache now s len key off =
     map_option (\<lambda>b. take len (drop off b))
       (case (case CsMem s of None \<Rightarrow> None | Some m \<Rightarrow> mget m key) of
          Some b \<Rightarrow> Some b
        | None \<Rightarrow> (case CsDisk s of None \<Rightarrow> None | Some d \<Rightarrow> disk_load now d key))"

definition save_block :: "int \<Rightarrow> string list option \<Rightarrow> bool \<Rightarrow> string \<Rightarrow> string \<Rightarrow> cache_store \<Rightarrow> cache_store" where
  "save_block now df fault key buf s =
     s\<lparr>CsMem := map_option (mput key buf) (CsMem s), CsDisk := map_option (disk_save now df fault key buf) (CsDisk s)\<rparr>"

definition delete_block :: "string \<Rightarrow> cache_store \<Rightarrow> cache_store" where
  "delete_block key s =
     s\<lparr>CsMem := map_option (mdel key) (CsMem s), CsDisk := map_option (disk_delete key) (CsDisk s)\<rparr>"

text \<open>One iteration of \<open>setCache\<close>; the loop makes at least one.\<close>

definition blockNum :: "nat \<Rightarrow> nat \<Rightarrow> nat" where
  "blockNum B n = (if 0 < n then (n - 1) div B + 1 else 1)"

definition set_iteration :: "(nat \<Rightarrow> string) \<Rightarrow> int \<Rightarrow> string list option \<Rightarrow> bool \<Rightarrow> set_task \<Rightarrow> cache_store \<Rightarrow> cache_store" where
  "set_iteration uuid now df fault t s =
     (case rCache_key uuid (TkName t) (TkOff t div CsBlock s + TkNext t) s of
        (key, s1) \<Rightarrow> save_block now df fault key (take (CsBlock s) (drop (TkNext t * CsBlock s) (TkData t))) s1)"

definition run_task :: "(nat \<Rightarrow> string) \<Rightarrow> int \<Rightarrow> string list option \<Rightarrow> bool \<Rightarrow> nat \<Rightarrow> cache_store \<Rightarrow> cache_store" where
  "run_task uuid now df fault k s =
     (if k < length (CsTasks s)
      then (let t = CsTasks s ! k;
                rest = take k (CsTasks s) @ (if TkNext t + 1 < blockNum (CsBlock s) (length (TkData t))
                         then [t\<lparr>TkNext := TkNext t + 1\<rparr>] else []) @ drop (Suc k) (CsTasks s)
            in (set_iteration uuid now df fault t s)\<lparr>CsTasks := rest\<rparr>)
      else s)"

text \<open>\<open>InvalidateCache\<close>, and one iteration of the loop it starts.\<close>

definition InvalidateCache :: "string \<Rightarrow> nat \<Rightarrow> cache_store \<Rightarrow> cache_store" where
  "InvalidateCache name len s =
     (case mget (CsMeta s) (path_Clean name) of
        None \<Rightarrow> s
      | Some keyID \<Rightarrow>
          s\<lparr>CsMeta := mdel (path_Clean name) (CsMeta s),
            CsDeletes := CsDeletes s @ [\<lparr>DlKeyID = keyID, DlLength = len, DlIndex = 0\<rparr>]\<rparr>)"

definition run_delete :: "nat \<Rightarrow> cache_store \<Rightarrow> cache_store" where
  "run_delete k s =
     (if k < length (CsDeletes s)
      then (let t = CsDeletes s ! k;
                go = (DlIndex t * CsBlock s \<le> DlLength t);
                s1 = (if go then delete_block (block_key (DlKeyID t) (DlIndex t)) s else s)
            in s1\<lparr>CsDeletes := take k (CsDeletes s) @ (if go then [t\<lparr>DlIndex := DlIndex t + 1\<rparr>] else []) @ drop (Suc k) (CsDeletes s)\<rparr>)
      else s)"

section \<open>Reading\<close>

text \<open>\<open>ReadAt\<close> of the cache returns the count, which is negative when the offset lies behind the data of its
  block, and the bytes it counts. \<open>content\<close> is what the storage holds now, \<open>fault\<close> its failure.\<close>

definition readAheadNum :: nat where "readAheadNum = 2"

definition rCache_ReadAt ::
  "(nat \<Rightarrow> string) \<Rightarrow> int \<Rightarrow> bool \<Rightarrow> string \<Rightarrow> string \<Rightarrow> nat \<Rightarrow> nat \<Rightarrow> cache_store \<Rightarrow> cache_store \<times> (errno + int \<times> string)" where
  "rCache_ReadAt uuid now fault content name len off s =
     (if len = 0 then (s, Inr (0, ''''))
      else case rCache_key uuid name (off div CsBlock s) s of
        (key, s1) \<Rightarrow>
          (case readCache now s1 len key (off mod CsBlock s) of
             Some b \<Rightarrow> (s1, Inr (int (length b), b))
           | None \<Rightarrow>
               if fault then (s1, Inl EBADF)
               else (let blockOff = off mod CsBlock s;
                         data = take (readAheadNum * CsBlock s) (drop (off div CsBlock s * CsBlock s) content)
                     in (s1\<lparr>CsTasks := CsTasks s1 @ [\<lparr>TkName = name, TkOff = off, TkData = data, TkNext = 0\<rparr>]\<rparr>,
                         Inr (min (int len) (int (length data) - int blockOff), take len (drop blockOff data))))))"

text \<open>The loop of \<open>dataReader.Read\<close>. \<open>acc\<close> is the buffer up to \<open>read\<close>; a negative \<open>read\<close> makes the slice
  expression panic. The fuel is more than the number of bytes asked for.\<close>

fun read_loop ::
  "nat \<Rightarrow> (nat \<Rightarrow> string) \<Rightarrow> int \<Rightarrow> bool \<Rightarrow> string \<Rightarrow> string \<Rightarrow> nat \<Rightarrow> int \<Rightarrow> int \<Rightarrow> string \<Rightarrow> cache_store \<Rightarrow>
     (cache_store \<times> (errno + string)) option" where
  "read_loop 0 uuid now fault content name len rd off acc s = None"
| "read_loop (Suc n) uuid now fault content name len rd off acc s =
     (if rd < int len then
        (if rd < 0 then Some (s, Inl GO_PANIC)
         else (let cacheSize = int (CsBlock s) - off mod int (CsBlock s);
                   until = min (rd + cacheSize) (int len)
               in case rCache_ReadAt uuid now fault content name (nat (until - rd)) (nat off) s of
                    (s1, Inl e) \<Rightarrow> Some (s1, Inl e)
                  | (s1, Inr (k, b)) \<Rightarrow>
                      if k = 0 then Some (s1, Inr acc)
                      else read_loop n uuid now fault content name len (rd + k) (off + k) (take (nat (rd + k)) (acc @ b)) s1))
      else Some (s, Inr acc))"

definition file_Read ::
  "(nat \<Rightarrow> string) \<Rightarrow> int \<Rightarrow> bool \<Rightarrow> string \<Rightarrow> string \<Rightarrow> nat \<Rightarrow> nat \<Rightarrow> cache_store \<Rightarrow> (cache_store \<times> (errno + string)) option" where
  "file_Read uuid now fault content name len off s =
     read_loop (len + 2) uuid now fault content (path_Clean name) len 0 (int off) '''' s"

section \<open>The cache and its files as a machine\<close>

text \<open>\<open>AcRead\<close> is a call of \<open>fileReader.Read\<close>; \<open>AcInvalidate\<close> and \<open>AcPut\<close> are the two halves of
  \<open>fileWriter.Write\<close>, the first also what \<open>Flush\<close>, \<open>Create\<close> and \<open>Rename\<close> do. \<open>AcEvict\<close> is the memory cache
  dropping an entry, by age or for space.\<close>

datatype cache_act =
    AcRead string nat nat int bool
  | AcSet nat int "string list option" bool
  | AcInvalidate string nat
  | AcDelete nat
  | AcPut string string
  | AcEvict string
  | AcClean int "string list option"
  | AcRemove nat

type_synonym cache_sys = "(string \<Rightarrow> string) \<times> cache_store"

fun cache_step :: "(nat \<Rightarrow> string) \<Rightarrow> cache_act \<Rightarrow> cache_sys \<Rightarrow> cache_sys option" where
  "cache_step uuid (AcRead name len off now fault) (fs, s) =
     (case file_Read uuid now fault (fs (path_Clean name)) name len off s of None \<Rightarrow> None | Some (s1, r) \<Rightarrow> Some (fs, s1))"
| "cache_step uuid (AcSet k now df fault) (fs, s) = Some (fs, run_task uuid now df fault k s)"
| "cache_step uuid (AcInvalidate name len) (fs, s) = Some (fs, InvalidateCache name len s)"
| "cache_step uuid (AcDelete k) (fs, s) = Some (fs, run_delete k s)"
| "cache_step uuid (AcPut name content) (fs, s) = Some (fs(path_Clean name := content), s)"
| "cache_step uuid (AcEvict key) (fs, s) = Some (fs, s\<lparr>CsMem := map_option (mdel key) (CsMem s)\<rparr>)"
| "cache_step uuid (AcClean now df) (fs, s) = Some (fs, s\<lparr>CsDisk := map_option (disk_clean now df) (CsDisk s)\<rparr>)"
| "cache_step uuid (AcRemove i) (fs, s) = Some (fs, s\<lparr>CsDisk := map_option (disk_remove i) (CsDisk s)\<rparr>)"

text \<open>The memory level is given by its size, the disk level by its directory and expiry time; \<open>df\<close> is the
  output of the first \<open>df\<close>.\<close>

definition NewMemCache :: "int \<Rightarrow> (string \<times> string) list option" where
  "NewMemCache CacheSize = (if CacheSize \<le> 0 then None else Some [])"

definition NewDiskCache :: "string \<Rightarrow> int \<Rightarrow> string list option \<Rightarrow> disk_cache option" where
  "NewDiskCache dir expire df =
     (if dir = '''' \<or> dir = ''/'' then None
      else Some (updateCapacity df \<lparr>DcCapacity = 0, DcUsed = 0, DcExpire = expire, DcKeys = [], DcFiles = [], DcRemovals = []\<rparr>))"

definition NewCacheStore :: "int option \<Rightarrow> (string \<times> int) option \<Rightarrow> nat \<Rightarrow> string list option \<Rightarrow> cache_store option" where
  "NewCacheStore mem disk B df =
     (if mem = None \<and> disk = None \<or> B = 0 then None
      else Some \<lparr>CsMem = (case mem of None \<Rightarrow> None | Some n \<Rightarrow> NewMemCache n),
        CsDisk = (case disk of None \<Rightarrow> None | Some (dir, expire) \<Rightarrow> NewDiskCache dir expire df),
        CsBlock = B, CsMeta = [], CsFresh = 0, CsTasks = [], CsDeletes = []\<rparr>)"

section \<open>Keys determine file and block\<close>

definition key_id :: "string \<Rightarrow> bool" where
  "key_id w = (slash \<notin> set w \<and> CHR ''_'' \<notin> set w)"

definition uuid_ok :: "(nat \<Rightarrow> string) \<Rightarrow> bool" where
  "uuid_ok uuid = (inj uuid \<and> (\<forall>n. uuid n \<noteq> '''' \<and> key_id (uuid n)))"

lemma itoa_nat: "itoa (int n) = nat_digits n"
  by (simp add: itoa_def)

lemma not_digit: "\<not> is_digit slash" "\<not> is_digit (CHR ''_'')" "\<not> is_digit (CHR ''.'')"
  by (simp_all add: is_digit_def)

lemma digits_plain: "slash \<notin> set (nat_digits n)" "CHR ''_'' \<notin> set (nat_digits n)" "CHR ''.'' \<notin> set (nat_digits n)"
  using nat_digits_digit [of n] not_digit by (auto simp: list_all_iff)

lemma proper_digits: "proper_name (nat_digits n)"
proof -
  have "CHR ''.'' \<in> set ''.''" "CHR ''.'' \<in> set ''..''" by simp_all
  then show ?thesis using digits_plain [of n] unfolding proper_name_def by (metis nat_digits_ne)
qed

lemma nat_digits_inj: "nat_digits m = nat_digits n \<Longrightarrow> m = n"
  by (metis digits_val_nat_digits)

lemma block_key_text:
  assumes "key_id w"
  shows "block_key w i = join_with slash [''blocks'', nat_digits (unat (KeyHash w) mod 256), w @ ''_'' @ nat_digits i]"
proof -
  let ?ws = "[''blocks'', nat_digits (unat (KeyHash w) mod 256), w @ ''_'' @ nat_digits i]"
  have u: "CHR ''_'' \<in> set (w @ ''_'' @ nat_digits i)" by simp
  have "w @ ''_'' @ nat_digits i \<noteq> ''.''" "w @ ''_'' @ nat_digits i \<noteq> ''..''"
    by (rule notI, use u in \<open>simp only: list.set\<close>, simp)+
  moreover have "slash \<notin> set (w @ ''_'' @ nat_digits i)"
    using assms digits_plain(1) [of i] by (auto simp: key_id_def)
  ultimately have "proper_name (w @ ''_'' @ nat_digits i)"
    unfolding proper_name_def by simp
  then have n: "normal ?ws" using proper_digits by (simp add: proper_name_def [of "''blocks''"])
  have s: "''blocks/'' @ itoa (int (unat (KeyHash w) mod 256)) @ ''/'' @ w @ ''_'' @ itoa (int i) = join_with slash ?ws"
    by (simp only: itoa_nat join_with.simps) simp
  have "path_comps (join_with slash ?ws) = ?ws"
  proof -
    have "split_on slash (join_with slash ?ws) = ?ws"
      by (rule split_on_join_with) (use n in \<open>auto simp only: list_all_iff proper_name_def\<close>)
    then show ?thesis unfolding path_comps_def using n by (simp only: filter_id_conv) (auto simp: list_all_iff proper_name_def)
  qed
  then have "clean_comps False (join_with slash ?ws) = ?ws"
    using foldl_clean_normal [OF n, of False "[]"] by (simp only: clean_comps_def append_Nil2 rev_rev_ident)
  moreover have "hd (join_with slash ?ws) \<noteq> slash" "join_with slash ?ws \<noteq> ''''" by simp_all
  ultimately show ?thesis unfolding block_key_def s path_Clean_def by (simp only: if_False list.simps)
qed

lemma block_key_inj:
  assumes "key_id w" and "key_id v" and "block_key w i = block_key v j"
  shows "w = v \<and> i = j"
proof -
  have tail: "w @ CHR ''_'' # nat_digits i = v @ CHR ''_'' # nat_digits j"
  proof -
    have *: "split_on slash (block_key u k) = [''blocks'', nat_digits (unat (KeyHash u) mod 256), u @ ''_'' @ nat_digits k]"
      if "key_id u" for u k
      unfolding block_key_text [OF that]
      by (rule split_on_join_with) (use that digits_plain in \<open>auto simp: key_id_def\<close>)
    show ?thesis using *[OF assms(1), of i] *[OF assms(2), of j] assms(3) by simp
  qed
  then have "split_on (CHR ''_'') (w @ CHR ''_'' # nat_digits i) = split_on (CHR ''_'') (v @ CHR ''_'' # nat_digits j)" by simp
  then have "w # split_on (CHR ''_'') (nat_digits i) = v # split_on (CHR ''_'') (nat_digits j)"
    using assms(1,2) unfolding key_id_def by (metis split_on_append)
  then show ?thesis using digits_plain(2) by (simp add: split_on_id nat_digits_inj)
qed

section \<open>Coherence\<close>

definition block_of :: "nat \<Rightarrow> string \<Rightarrow> nat \<Rightarrow> string" where
  "block_of B c i = take B (drop (i * B) c)"

definition known_id :: "(nat \<Rightarrow> string) \<Rightarrow> cache_store \<Rightarrow> string \<Rightarrow> bool" where
  "known_id uuid s w = (\<exists>k<CsFresh s. w = uuid k)"

definition good_entry :: "(nat \<Rightarrow> string) \<Rightarrow> cache_sys \<Rightarrow> string \<Rightarrow> string \<Rightarrow> bool" where
  "good_entry uuid x key b =
     (\<exists>w i. key = block_key w i \<and> known_id uuid (snd x) w \<and>
        (\<forall>name. mget (CsMeta (snd x)) name = Some w \<longrightarrow> b = block_of (CsBlock (snd x)) (fst x name) i))"

definition good_task :: "cache_sys \<Rightarrow> set_task \<Rightarrow> bool" where
  "good_task x t =
     (mget (CsMeta (snd x)) (TkName t) \<noteq> None \<and> TkNext t < blockNum (CsBlock (snd x)) (length (TkData t)) \<and>
      TkData t = take (2 * CsBlock (snd x)) (drop (TkOff t div CsBlock (snd x) * CsBlock (snd x)) (fst x (TkName t))))"

definition good_mem :: "(nat \<Rightarrow> string) \<Rightarrow> cache_sys \<Rightarrow> bool" where
  "good_mem uuid x = (\<forall>m key b. CsMem (snd x) = Some m \<longrightarrow> mget m key = Some b \<longrightarrow> good_entry uuid x key b)"

definition good_disk :: "(nat \<Rightarrow> string) \<Rightarrow> cache_sys \<Rightarrow> bool" where
  "good_disk uuid x = (\<forall>d key b. CsDisk (snd x) = Some d \<longrightarrow> mget (DcFiles d) key = Some b \<longrightarrow> good_entry uuid x key b)"

definition good_meta :: "(nat \<Rightarrow> string) \<Rightarrow> cache_sys \<Rightarrow> bool" where
  "good_meta uuid x =
     (0 < CsBlock (snd x) \<and>
      (\<forall>n w. mget (CsMeta (snd x)) n = Some w \<longrightarrow> known_id uuid (snd x) w) \<and>
      (\<forall>n k w. mget (CsMeta (snd x)) n = Some w \<longrightarrow> mget (CsMeta (snd x)) k = Some w \<longrightarrow> n = k))"

definition coherent :: "(nat \<Rightarrow> string) \<Rightarrow> cache_sys \<Rightarrow> bool" where
  "coherent uuid x = (good_meta uuid x \<and> good_mem uuid x \<and> good_disk uuid x \<and> (\<forall>t\<in>set (CsTasks (snd x)). good_task x t))"

text \<open>A step that leaves the IDs and the contents of the known names alone keeps entries good.\<close>

definition extends :: "(nat \<Rightarrow> string) \<Rightarrow> cache_sys \<Rightarrow> cache_sys \<Rightarrow> bool" where
  "extends uuid x y =
     (CsBlock (snd y) = CsBlock (snd x) \<and> CsFresh (snd x) \<le> CsFresh (snd y) \<and>
      (\<forall>n w. mget (CsMeta (snd y)) n = Some w \<longrightarrow> known_id uuid (snd x) w \<longrightarrow>
         mget (CsMeta (snd x)) n = Some w \<and> fst y n = fst x n))"

lemma known_id_mono: "known_id uuid s w \<Longrightarrow> CsFresh s \<le> CsFresh s' \<Longrightarrow> known_id uuid s' w"
  unfolding known_id_def using order_less_le_trans by blast

lemma good_entry_extends:
  assumes "good_entry uuid x key b" and e: "extends uuid x y"
  shows "good_entry uuid y key b"
proof -
  from assms(1) obtain w i where k: "key = block_key w i" "known_id uuid (snd x) w"
    and b: "\<And>n. mget (CsMeta (snd x)) n = Some w \<Longrightarrow> b = block_of (CsBlock (snd x)) (fst x n) i"
    unfolding good_entry_def by blast
  have "known_id uuid (snd y) w" using k(2) e known_id_mono unfolding extends_def by blast
  moreover have "b = block_of (CsBlock (snd y)) (fst y n) i" if "mget (CsMeta (snd y)) n = Some w" for n
  proof -
    have "mget (CsMeta (snd x)) n = Some w" "fst y n = fst x n" "CsBlock (snd y) = CsBlock (snd x)"
      using e that k(2) unfolding extends_def by blast+
    then show ?thesis using b by simp
  qed
  ultimately show ?thesis using k(1) unfolding good_entry_def by blast
qed

lemma uuid_known: "uuid_ok uuid \<Longrightarrow> known_id uuid s w \<Longrightarrow> w \<noteq> '''' \<and> key_id w"
  by (auto simp: uuid_ok_def known_id_def)

lemma uuid_fresh: "uuid_ok uuid \<Longrightarrow> \<not> known_id uuid s (uuid (CsFresh s))"
  by (auto simp: uuid_ok_def known_id_def inj_eq)

lemma mstr_mget: "mstr m k = (case mget m k of None \<Rightarrow> '''' | Some v \<Rightarrow> v)"
  by (simp add: mstr_def)

lemma coherent_meta: "coherent uuid x \<Longrightarrow> good_meta uuid x"
  by (simp add: coherent_def)

text \<open>A name with an ID keeps the state, another one gets a fresh ID.\<close>

lemma rCache_key_cases:
  assumes "uuid_ok uuid" and "good_meta uuid (fs, s)"
  obtains (known) w where "mget (CsMeta s) name = Some w" and "rCache_key uuid name i s = (block_key w i, s)"
  | (new) "mget (CsMeta s) name = None"
      and "rCache_key uuid name i s = (block_key '''' i, s\<lparr>CsMeta := mput name (uuid (CsFresh s)) (CsMeta s), CsFresh := CsFresh s + 1\<rparr>)"
proof (cases "mget (CsMeta s) name")
  case None
  then show ?thesis using new by (simp add: rCache_key_def mstr_mget)
next
  case (Some w)
  then have "w \<noteq> ''''" using assms uuid_known by (fastforce simp: good_meta_def)
  then show ?thesis using known Some by (simp add: rCache_key_def mstr_mget)
qed

text \<open>Entries stay good when the state is extended; new ones have to be good.\<close>

lemma coherentI:
  assumes "coherent uuid x" and "extends uuid x y" and "good_meta uuid y"
    and m: "\<And>m key b. CsMem (snd y) = Some m \<Longrightarrow> mget m key = Some b \<Longrightarrow>
      good_entry uuid y key b \<or> (\<exists>m0. CsMem (snd x) = Some m0 \<and> mget m0 key = Some b)"
    and d: "\<And>d key b. CsDisk (snd y) = Some d \<Longrightarrow> mget (DcFiles d) key = Some b \<Longrightarrow>
      good_entry uuid y key b \<or> (\<exists>d0. CsDisk (snd x) = Some d0 \<and> mget (DcFiles d0) key = Some b)"
    and t: "\<And>t. t \<in> set (CsTasks (snd y)) \<Longrightarrow> good_task y t"
  shows "coherent uuid y"
proof -
  have "good_mem uuid y"
    unfolding good_mem_def
    using m assms(1) good_entry_extends [OF _ assms(2)] unfolding coherent_def good_mem_def by blast
  moreover have "good_disk uuid y"
    unfolding good_disk_def
    using d assms(1) good_entry_extends [OF _ assms(2)] unfolding coherent_def good_disk_def by blast
  ultimately show ?thesis using assms(3) t unfolding coherent_def by blast
qed

lemma good_task_keep:
  assumes "good_task x t" and "CsBlock (snd y) = CsBlock (snd x)"
    and "mget (CsMeta (snd y)) (TkName t) \<noteq> None" and "fst y (TkName t) = fst x (TkName t)"
  shows "good_task y t"
  using assms unfolding good_task_def by metis

lemma extends_refl_meta:
  "CsBlock (snd y) = CsBlock (snd x) \<Longrightarrow> CsFresh (snd y) = CsFresh (snd x) \<Longrightarrow> CsMeta (snd y) = CsMeta (snd x) \<Longrightarrow>
     fst y = fst x \<Longrightarrow> extends uuid x y"
  by (simp add: extends_def)

lemma good_meta_cong:
  "CsBlock (snd y) = CsBlock (snd x) \<Longrightarrow> CsFresh (snd y) = CsFresh (snd x) \<Longrightarrow> CsMeta (snd y) = CsMeta (snd x) \<Longrightarrow>
     good_meta uuid x \<Longrightarrow> good_meta uuid y"
  by (simp add: good_meta_def known_id_def)

text \<open>Reading a key registers a new name.\<close>

definition registered :: "(nat \<Rightarrow> string) \<Rightarrow> string \<Rightarrow> cache_store \<Rightarrow> cache_store" where
  "registered uuid name s =
     (if mget (CsMeta s) name = None
      then s\<lparr>CsMeta := mput name (uuid (CsFresh s)) (CsMeta s), CsFresh := CsFresh s + 1\<rparr> else s)"

lemma registered_simps [simp]:
  "CsMem (registered uuid name s) = CsMem s" "CsDisk (registered uuid name s) = CsDisk s"
  "CsBlock (registered uuid name s) = CsBlock s" "CsTasks (registered uuid name s) = CsTasks s"
  "CsDeletes (registered uuid name s) = CsDeletes s"
  by (simp_all add: registered_def)

lemma registered_meta:
  "mget (CsMeta (registered uuid name s)) n =
     (if n = name \<and> mget (CsMeta s) name = None then Some (uuid (CsFresh s)) else mget (CsMeta s) n)"
  by (auto simp: registered_def)

lemma registered_fresh: "CsFresh s \<le> CsFresh (registered uuid name s)"
  by (simp add: registered_def)

lemma registered_key:
  assumes "uuid_ok uuid" and "good_meta uuid (fs, s)"
  shows "rCache_key uuid name i s = (block_key (mstr (CsMeta s) name) i, registered uuid name s)"
  using assms
  by (rule rCache_key_cases [of uuid fs s name i]) (simp_all add: registered_def mstr_mget)

lemma registered_known: "mget (CsMeta s) name = None \<Longrightarrow> known_id uuid (registered uuid name s) (uuid (CsFresh s))"
  by (auto simp: known_id_def registered_def)

lemma registered_good_meta:
  assumes u: "uuid_ok uuid" and g: "good_meta uuid (fs, s)"
  shows "good_meta uuid (fs, registered uuid name s)"
proof (cases "mget (CsMeta s) name")
  case None
  have old: "known_id uuid s w" if "mget (CsMeta s) n = Some w" for n w
    using g that by (simp add: good_meta_def)
  have new: "mget (CsMeta s) n \<noteq> Some (uuid (CsFresh s))" for n
    using old uuid_fresh [OF u] by blast
  have inj: "n = k" if "mget (CsMeta s) n = Some w" "mget (CsMeta s) k = Some w" for n k w
    using g that unfolding good_meta_def by (metis snd_conv)
  have "known_id uuid (registered uuid name s) w" if "mget (CsMeta (registered uuid name s)) n = Some w" for n w
    using that old known_id_mono [OF _ registered_fresh] registered_known [OF None]
    by (auto simp: registered_meta split: if_splits)
  moreover have "n = k" if "mget (CsMeta (registered uuid name s)) n = Some w" "mget (CsMeta (registered uuid name s)) k = Some w" for n k w
    using that new inj by (auto simp: registered_meta split: if_splits)
  moreover have "0 < CsBlock s" using g by (simp add: good_meta_def)
  ultimately show ?thesis unfolding good_meta_def by simp
next
  case (Some w)
  then show ?thesis using g by (simp add: registered_def)
qed

lemma registered_extends:
  assumes "uuid_ok uuid"
  shows "extends uuid (fs, s) (fs, registered uuid name s)"
  using uuid_fresh [OF assms, of s] registered_fresh [of s uuid name]
  by (auto simp: extends_def registered_meta split: if_splits)

lemma registered_coherent:
  assumes u: "uuid_ok uuid" and c: "coherent uuid (fs, s)"
  shows "coherent uuid (fs, registered uuid name s)"
proof (rule coherentI [OF c registered_extends [OF u] registered_good_meta [OF u coherent_meta [OF c]]])
  fix t assume "t \<in> set (CsTasks (snd (fs, registered uuid name s)))"
  then have "good_task (fs, s) t" using c by (simp add: coherent_def)
  then show "good_task (fs, registered uuid name s) t"
    by (rule good_task_keep) (use \<open>good_task (fs, s) t\<close> in \<open>auto simp: registered_meta good_task_def\<close>)
qed simp_all

text \<open>What is found under the key of a name is the block of its file.\<close>

lemma found_block:
  assumes u: "uuid_ok uuid" and g: "good_entry uuid (fs, s) (block_key w i) b" and n: "mget (CsMeta s) name = Some w"
    and m: "good_meta uuid (fs, s)"
  shows "b = block_of (CsBlock s) (fs name) i"
proof -
  from g obtain w' i' where k: "block_key w i = block_key w' i'" "known_id uuid s w'"
    and b: "\<And>n. mget (CsMeta s) n = Some w' \<Longrightarrow> b = block_of (CsBlock s) (fs n) i'"
    unfolding good_entry_def by auto
  have "known_id uuid s w" using m n by (simp add: good_meta_def)
  then have "w = w' \<and> i = i'" using k u uuid_known block_key_inj by blast
  then show ?thesis using b n by simp
qed

lemma nothing_shared:
  assumes u: "uuid_ok uuid" and g: "good_entry uuid (fs, s) (block_key '''' i) b"
  shows False
proof -
  from g obtain w' i' where k: "block_key '''' i = block_key w' i'" "known_id uuid s w'"
    unfolding good_entry_def by auto
  have "key_id ''''" by (simp add: key_id_def)
  then have "'''' = w'" using k u uuid_known block_key_inj by blast
  then show False using k(2) u uuid_known by blast
qed

lemma block_entry:
  assumes "good_meta uuid (fs, s)" and n: "mget (CsMeta s) name = Some w"
  shows "good_entry uuid (fs, s) (block_key w i) (block_of (CsBlock s) (fs name) i)"
proof -
  have "known_id uuid s w" using assms by (simp add: good_meta_def)
  moreover have "k = name" if "mget (CsMeta s) k = Some w" for k
    using assms that unfolding good_meta_def by (metis snd_conv)
  ultimately show ?thesis unfolding good_entry_def by auto
qed

lemma updateCapacity_files [simp]: "DcFiles (updateCapacity df d) = DcFiles d"
  by (auto simp: updateCapacity_def split: option.split)

lemma foldl_disk_delete_files [simp]: "DcFiles (foldl (\<lambda>d k. disk_delete k d) d ks) = DcFiles d"
  by (induction ks arbitrary: d) (simp_all add: disk_delete_def)

lemma mget_filter_keys: "mget (filter (\<lambda>(k, b). k \<in> S) m) k = Some b \<Longrightarrow> mget m k = Some b"
proof (induction m)
  case (Cons e m)
  have "mget (filter (\<lambda>(k, b). k \<in> S) m) k = None" if "k \<notin> S"
    using that by (auto simp: mget_None)
  then show ?case using Cons by (cases e) (auto split: if_splits)
qed simp

lemma disk_clean_files: "mget (DcFiles (disk_clean now df d)) k = Some b \<Longrightarrow> mget (DcFiles d) k = Some b"
  unfolding disk_clean_def Let_def by (simp) (erule mget_filter_keys)

lemma disk_save_files:
  "mget (DcFiles (disk_save now df fault key buf d)) k = Some b \<Longrightarrow> (k = key \<and> b = buf) \<or> mget (DcFiles d) k = Some b"
  unfolding disk_save_def Let_def using disk_clean_files [of now df d k b]
  by (auto split: if_splits)

lemma mdel_found: "mget (mdel key m) k = Some b \<Longrightarrow> mget m k = Some b"
  by (simp split: if_splits)

lemma disk_remove_files: "mget (DcFiles (disk_remove i d)) k = Some b \<Longrightarrow> mget (DcFiles d) k = Some b"
  by (auto simp: disk_remove_def split: if_splits)

lemma readCache_found:
  assumes "coherent uuid (fs, s)" and "readCache now s len key off = Some v"
  obtains b where "good_entry uuid (fs, s) key b" and "v = take len (drop off b)"
proof -
  from assms(2) obtain b where v: "v = take len (drop off b)"
    and b: "(\<exists>m. CsMem s = Some m \<and> mget m key = Some b) \<or> (\<exists>d. CsDisk s = Some d \<and> disk_load now d key = Some b)"
    by (auto simp: readCache_def split: option.splits)
  then have "good_entry uuid (fs, s) key b"
    using assms(1) by (auto simp: coherent_def good_mem_def good_disk_def disk_load_def split: if_splits)
  then show ?thesis using that v by blast
qed

lemma take_block:
  assumes "0 < B" and "off mod B + len \<le> (B :: nat)" and "B \<le> n"
  shows "take len (drop (off mod B) (take n (drop (off div B * B) c))) = take len (drop off c)"
proof -
  have "off mod B + off div B * B = off" by simp
  then show ?thesis using assms by (simp add: drop_take min_absorb1)
qed

lemma count_in_block:
  assumes "q + r = off" and "off \<le> L" and "r + len \<le> B" and "B \<le> n"
  shows "min (int len) (int (min (L - q) n) - int r) = int (min len (L - off))"
proof -
  have "int (min (L - q) n) = min (int L - int q) (int n)" "int (min len (L - off)) = min (int len) (int L - int off)"
    using assms by (simp_all add: of_nat_diff)
  then show ?thesis using assms by (simp add: min_def)
qed

lemma ReadAt_miss_coherent:
  assumes u: "uuid_ok uuid" and c: "coherent uuid (fs, s)"
  shows "coherent uuid (fs, (registered uuid name s)\<lparr>CsTasks := CsTasks s @
    [\<lparr>TkName = name, TkOff = off, TkData = take (readAheadNum * CsBlock s) (drop (off div CsBlock s * CsBlock s) (fs name)), TkNext = 0\<rparr>]\<rparr>)"
    (is "coherent uuid (fs, ?s\<lparr>CsTasks := CsTasks s @ [?t]\<rparr>)")
proof (rule coherentI)
  let ?s' = "?s\<lparr>CsTasks := CsTasks s @ [?t]\<rparr>"
  show cs: "coherent uuid (fs, ?s)" by (rule registered_coherent [OF u c])
  show "extends uuid (fs, ?s) (fs, ?s')" by (rule extends_refl_meta) simp_all
  show "good_meta uuid (fs, ?s')" using coherent_meta [OF cs] by (rule good_meta_cong [rotated -1]) simp_all
  fix t assume "t \<in> set (CsTasks (snd (fs, ?s')))"
  then consider "t \<in> set (CsTasks ?s)" | "t = ?t" by auto
  then show "good_task (fs, ?s') t"
  proof cases
    case 1
    then have "good_task (fs, ?s) t" using cs by (simp add: coherent_def)
    then show ?thesis by (rule good_task_keep) (use \<open>good_task (fs, ?s) t\<close> in \<open>simp_all add: good_task_def\<close>)
  next
    case 2
    then show ?thesis by (simp add: good_task_def registered_meta blockNum_def readAheadNum_def)
  qed
qed simp_all

text \<open>Reading inside one block gives the bytes of the file, from the cache or from the storage.\<close>

lemma ReadAt_coherent:
  assumes u: "uuid_ok uuid" and c: "coherent uuid (fs, s)"
    and len: "0 < len" "off mod CsBlock s + len \<le> CsBlock s" and off: "off \<le> length (fs name)"
  obtains s' where "rCache_ReadAt uuid now False (fs name) name len off s =
      (s', Inr (int (length (take len (drop off (fs name)))), take len (drop off (fs name))))"
    and "coherent uuid (fs, s')" and "CsBlock s' = CsBlock s"
proof -
  let ?B = "CsBlock s" and ?c = "fs name" and ?s = "registered uuid name s" and ?i = "off div CsBlock s"
  note m = coherent_meta [OF c]
  have B: "0 < ?B" using m by (simp add: good_meta_def)
  have key: "rCache_key uuid name ?i s = (block_key (mstr (CsMeta s) name) ?i, ?s)" by (rule registered_key [OF u m])
  have cs: "coherent uuid (fs, ?s)" by (rule registered_coherent [OF u c])
  show ?thesis
  proof (cases "readCache now ?s len (block_key (mstr (CsMeta s) name) ?i) (off mod ?B)")
    case (Some v)
    from readCache_found [OF cs Some] obtain b where
      b: "good_entry uuid (fs, ?s) (block_key (mstr (CsMeta s) name) ?i) b" and v: "v = take len (drop (off mod ?B) b)" .
    obtain w where w: "mget (CsMeta s) name = Some w"
      using nothing_shared [OF u] b by (cases "mget (CsMeta s) name") (auto simp: mstr_mget)
    then have same: "?s = s" by (simp add: registered_def)
    have "b = block_of ?B ?c ?i"
      by (rule found_block [OF u _ w m]) (use b w same in \<open>simp add: mstr_mget\<close>)
    then have "v = take len (drop off ?c)"
      using v take_block [OF B len(2) order_refl] by (simp add: block_of_def)
    then show ?thesis using that [of s] key Some len c same by (simp add: rCache_ReadAt_def)
  next
    case None
    let ?data = "take (readAheadNum * ?B) (drop (?i * ?B) ?c)"
    let ?t = "\<lparr>TkName = name, TkOff = off, TkData = ?data, TkNext = 0\<rparr>"
    let ?s' = "?s\<lparr>CsTasks := CsTasks s @ [?t]\<rparr>"
    have le: "?B \<le> readAheadNum * ?B" by (simp add: readAheadNum_def)
    have eq: "take len (drop (off mod ?B) ?data) = take len (drop off ?c)"
      by (rule take_block [OF B len(2) le])
    have dm: "?i * ?B + off mod ?B = off" by simp
    have cnt: "min (int len) (int (length ?data) - int (off mod ?B)) = int (length (take len (drop off ?c)))"
      using count_in_block [OF dm off len(2) le] by (simp only: length_take length_drop min.commute)
    have "coherent uuid (fs, ?s')" by (rule ReadAt_miss_coherent [OF u c])
    then show ?thesis
      using that [of ?s'] key None len cnt eq by (simp add: rCache_ReadAt_def Let_def)
  qed
qed

lemma nat_chunk:
  assumes "r < B" and "rd < len"
  shows "nat (min (int rd + (int B - int r)) (int len) - int rd) = min (B - r) (len - rd)"
proof (cases "B - r \<le> len - rd")
  case True
  then have "min (int rd + (int B - int r)) (int len) = int rd + (int B - int r)" using assms by simp
  then show ?thesis using True assms by simp
next
  case False
  then have "min (int rd + (int B - int r)) (int len) = int len" using assms by simp
  then show ?thesis using False assms by simp
qed

lemma take_length_take: "take (length (take k xs)) xs = take k xs"
  by (cases "k \<le> length xs") simp_all

lemma collect:
  assumes "rd \<le> length ys"
  shows "take (rd + length (take k (drop rd ys))) (take rd ys @ take k (drop rd ys)) = take (rd + length (take k (drop rd ys))) ys"
    and "rd + length (take k (drop rd ys)) \<le> length ys"
proof -
  have "take (rd + length (take k (drop rd ys))) ys = take rd ys @ take k (drop rd ys)"
    by (simp only: take_add take_length_take)
  moreover have "length (take rd ys @ take k (drop rd ys)) = rd + length (take k (drop rd ys))"
    using assms by (simp only: length_append length_take min_absorb2)
  moreover have "take (length (take rd ys @ take k (drop rd ys))) (take rd ys @ take k (drop rd ys)) = take rd ys @ take k (drop rd ys)"
    by (rule take_all) (rule order_refl)
  ultimately show "take (rd + length (take k (drop rd ys))) (take rd ys @ take k (drop rd ys)) = take (rd + length (take k (drop rd ys))) ys"
    by (simp only:)
  show "rd + length (take k (drop rd ys)) \<le> length ys" using assms by simp
qed

lemma read_loop_step:
  assumes "rd < len" and "rCache_ReadAt uuid now fault c name k off s = (s', Inr (int (length b), b))"
    and "nat (min (int rd + (int (CsBlock s) - int off mod int (CsBlock s))) (int len) - int rd) = k"
  shows "read_loop (Suc n) uuid now fault c name len (int rd) (int off) acc s =
    (if length b = 0 then Some (s', Inr acc)
     else read_loop n uuid now fault c name len (int (rd + length b)) (int (off + length b)) (take (rd + length b) (acc @ b)) s')"
proof -
  have "nat (int rd + int (length b)) = rd + length b" by simp
  then show ?thesis
    using assms(1) by (simp only: read_loop.simps Let_def assms(2,3) nat_int prod.case sum.case of_nat_add) simp
qed

lemma bounds_step:
  assumes "m \<le> len - rd" and "m \<le> L - (off + rd)" and "0 < m" and "rd < (len :: nat)" and "len - rd < Suc n" and "off + rd \<le> L"
  shows "rd + m \<le> len" and "off + (rd + m) \<le> L" and "len - (rd + m) < n"
  using assms by linarith+

text \<open>The loop of \<open>Read\<close> collects the bytes; \<open>rd\<close> of them are there.\<close>

lemma read_loop_coherent:
  assumes u: "uuid_ok uuid"
  shows "coherent uuid (fs, s) \<Longrightarrow> len - rd < n \<Longrightarrow> rd \<le> len \<Longrightarrow> off + rd \<le> length (fs name) \<Longrightarrow>
     \<exists>s'. read_loop n uuid now False (fs name) name len (int rd) (int (off + rd)) (take rd (drop off (fs name))) s =
       Some (s', Inr (take len (drop off (fs name)))) \<and> coherent uuid (fs, s')"
proof (induction n arbitrary: rd s)
  case 0
  then show ?case by simp
next
  case (Suc n)
  let ?c = "fs name" and ?B = "CsBlock s"
  show ?case
  proof (cases "rd < len")
    case False
    then have "rd = len" using Suc.prems(3) by simp
    then show ?thesis using Suc.prems(1) by simp
  next
    case True
    let ?k = "min (?B - (off + rd) mod ?B) (len - rd)"
    let ?b = "take ?k (drop (off + rd) ?c)"
    have B: "0 < ?B" using coherent_meta [OF Suc.prems(1)] by (simp add: good_meta_def)
    have lt: "(off + rd) mod ?B < ?B" using B by simp
    have "nat (min (int rd + (int ?B - int (off + rd) mod int ?B)) (int len) - int rd) = ?k"
    proof -
      have "int (off + rd) mod int ?B = int ((off + rd) mod ?B)" by (simp only: of_nat_mod)
      then show ?thesis using nat_chunk [OF lt True] by simp
    qed
    moreover obtain s' where r: "rCache_ReadAt uuid now False ?c name ?k (off + rd) s = (s', Inr (int (length ?b), ?b))"
      and c: "coherent uuid (fs, s')"
      by (rule ReadAt_coherent [OF u Suc.prems(1), of ?k "off + rd" name]) (use lt True Suc.prems(4) in auto)
    moreover have b: "?b = take ?k (drop rd (drop off ?c))" by (simp only: drop_drop add.commute)
    ultimately have step: "read_loop (Suc n) uuid now False ?c name len (int rd) (int (off + rd)) (take rd (drop off ?c)) s =
        (if length ?b = 0 then Some (s', Inr (take rd (drop off ?c)))
         else read_loop n uuid now False ?c name len (int (rd + length ?b)) (int (off + (rd + length ?b)))
           (take (rd + length ?b) (drop off ?c)) s')"
      using read_loop_step [OF True r] collect(1) [of rd "drop off ?c" ?k] Suc.prems(4)
      by (simp only: length_drop add.assoc)
    show ?thesis
    proof (cases "length ?b = 0")
      case True
      then have "length ?c \<le> off + rd" using lt \<open>rd < len\<close> by auto
      then have "take rd (drop off ?c) = take len (drop off ?c)" using \<open>rd < len\<close> by simp
      then show ?thesis using step True c by metis
    next
      case False
      have pos: "0 < length ?b" using False by (rule neq0_conv [THEN iffD1])
      have "length ?b \<le> len - rd" "length ?b \<le> length ?c - (off + rd)" by simp_all
      from bounds_step [OF this pos True Suc.prems(2,4)]
      have "rd + length ?b \<le> len" "off + (rd + length ?b) \<le> length ?c" "len - (rd + length ?b) < n" .
      from Suc.IH [OF c this(3,1,2)] show ?thesis
        by (simp only: step False if_False)
    qed
  qed
qed

section \<open>The machine keeps the cache coherent\<close>

lemma ReadAt_keeps:
  assumes u: "uuid_ok uuid" and c: "coherent uuid (fs, s)"
    and r: "rCache_ReadAt uuid now fault (fs name) name len off s = (s', r)"
  shows "coherent uuid (fs, s')"
proof -
  let ?s = "registered uuid name s"
  have cs: "coherent uuid (fs, ?s)" by (rule registered_coherent [OF u c])
  let ?t = "\<lparr>TkName = name, TkOff = off, TkData = take (readAheadNum * CsBlock s) (drop (off div CsBlock s * CsBlock s) (fs name)), TkNext = 0\<rparr>"
  have "s' = s \<or> s' = ?s \<or> s' = ?s\<lparr>CsTasks := CsTasks s @ [?t]\<rparr>"
    using r by (auto simp: rCache_ReadAt_def registered_key [OF u coherent_meta [OF c]] Let_def split: if_splits option.splits)
  moreover have "coherent uuid (fs, ?s\<lparr>CsTasks := CsTasks s @ [?t]\<rparr>)"
    using c by (rule ReadAt_miss_coherent [OF u])
  ultimately show ?thesis using c cs by auto
qed

lemma read_loop_keeps:
  assumes u: "uuid_ok uuid"
  shows "coherent uuid (fs, s) \<Longrightarrow> read_loop n uuid now fault (fs name) name len rd off acc s = Some (s', r) \<Longrightarrow> coherent uuid (fs, s')"
proof (induction n arbitrary: rd off acc s)
  case (Suc n)
  show ?case
  proof (cases "rd < int len \<and> \<not> rd < 0")
    case True
    let ?k = "nat (min (rd + (int (CsBlock s) - off mod int (CsBlock s))) (int len) - rd)"
    obtain s1 q where q: "rCache_ReadAt uuid now fault (fs name) name ?k (nat off) s = (s1, q)" by fastforce
    have c: "coherent uuid (fs, s1)" by (rule ReadAt_keeps [OF u Suc.prems(1) q])
    show ?thesis
    proof (cases q)
      case (Inl e)
      then show ?thesis using Suc.prems(2) True q c by (simp add: Let_def)
    next
      case (Inr p)
      then show ?thesis using Suc.prems(2) True q c Suc.IH [OF c] by (cases p) (simp add: Let_def split: if_splits)
    qed
  next
    case False
    then show ?thesis using Suc.prems by (auto split: if_splits)
  qed
qed simp

lemma save_coherent:
  assumes c: "coherent uuid (fs, s)" and w: "mget (CsMeta s) name = Some w" and b: "buf = block_of (CsBlock s) (fs name) i"
  shows "coherent uuid (fs, save_block now df fault (block_key w i) buf s)"
proof (rule coherentI [OF c])
  let ?s = "save_block now df fault (block_key w i) buf s"
  show "extends uuid (fs, s) (fs, ?s)" by (rule extends_refl_meta) (simp_all add: save_block_def)
  show m: "good_meta uuid (fs, ?s)"
    using coherent_meta [OF c] by (rule good_meta_cong [rotated -1]) (simp_all add: save_block_def)
  have g: "good_entry uuid (fs, ?s) (block_key w i) buf"
    using block_entry [OF m, of name w i] w b by (simp add: save_block_def)
  show "good_entry uuid (fs, ?s) key b' \<or> (\<exists>m0. CsMem (snd (fs, s)) = Some m0 \<and> mget m0 key = Some b')"
    if "CsMem (snd (fs, ?s)) = Some m" "mget m key = Some b'" for m key b'
    using that g by (auto simp: save_block_def split: if_splits)
  show "good_entry uuid (fs, ?s) key b' \<or> (\<exists>d0. CsDisk (snd (fs, s)) = Some d0 \<and> mget (DcFiles d0) key = Some b')"
    if d: "CsDisk (snd (fs, ?s)) = Some d" "mget (DcFiles d) key = Some b'" for d key b'
  proof -
    obtain d0 where d0: "CsDisk s = Some d0" "d = disk_save now df fault (block_key w i) buf d0"
      using d(1) by (auto simp: save_block_def)
    then show ?thesis using disk_save_files [of now df fault "block_key w i" buf d0 key b'] d(2) g by auto
  qed
  fix t assume "t \<in> set (CsTasks (snd (fs, ?s)))"
  then have "good_task (fs, s) t" using c by (simp add: coherent_def save_block_def)
  then show "good_task (fs, ?s) t"
    by (rule good_task_keep) (use \<open>good_task (fs, s) t\<close> in \<open>simp_all add: good_task_def save_block_def\<close>)
qed

lemma drop_tasks_coherent:
  assumes c: "coherent uuid (fs, s)" and "\<And>t. t \<in> set ts \<Longrightarrow> good_task (fs, s) t"
  shows "coherent uuid (fs, s\<lparr>CsTasks := ts\<rparr>)"
proof (rule coherentI [OF c])
  show "extends uuid (fs, s) (fs, s\<lparr>CsTasks := ts\<rparr>)" by (rule extends_refl_meta) simp_all
  show "good_meta uuid (fs, s\<lparr>CsTasks := ts\<rparr>)"
    using coherent_meta [OF c] by (rule good_meta_cong [rotated -1]) simp_all
  fix t assume "t \<in> set (CsTasks (snd (fs, s\<lparr>CsTasks := ts\<rparr>)))"
  then have "good_task (fs, s) t" using assms(2) by simp
  then show "good_task (fs, s\<lparr>CsTasks := ts\<rparr>) t"
    by (rule good_task_keep) (use \<open>good_task (fs, s) t\<close> in \<open>simp_all add: good_task_def\<close>)
qed simp_all

lemma blockNum_two: "0 < B \<Longrightarrow> n \<le> 2 * B \<Longrightarrow> i < blockNum B n \<Longrightarrow> i \<le> 1"
proof -
  assume "0 < B" "n \<le> 2 * B" "i < blockNum B n"
  moreover have "(n - 1) div B < 2" using calculation(1,2) by (simp add: div_less_iff_less_mult)
  ultimately show ?thesis by (simp add: blockNum_def split: if_splits)
qed

lemma chunk_of_two: "i \<le> 1 \<Longrightarrow> take B (drop (i * B) (take (2 * B) (drop (q * B) c))) = take B (drop ((q + i) * B) c)"
proof -
  assume "i \<le> 1"
  then have "i = 0 \<or> i = 1" by auto
  then show ?thesis by (auto simp: drop_take add_mult_distrib add.commute)
qed

lemma run_task_coherent:
  assumes u: "uuid_ok uuid" and c: "coherent uuid (fs, s)"
  shows "coherent uuid (fs, run_task uuid now df fault k s)"
proof (cases "k < length (CsTasks s)")
  case True
  define t where "t = CsTasks s ! k"
  let ?B = "CsBlock s" and ?n = "TkName t" and ?i = "TkOff t div CsBlock s + TkNext t"
  define rest where "rest = take k (CsTasks s) @ (if TkNext t + 1 < blockNum ?B (length (TkData t))
      then [t\<lparr>TkNext := TkNext t + 1\<rparr>] else []) @ drop (Suc k) (CsTasks s)"
  have gt: "good_task (fs, s) t" using c True by (simp add: coherent_def t_def)
  then obtain w where w: "mget (CsMeta s) ?n = Some w" by (auto simp: good_task_def)
  have B: "0 < ?B" using coherent_meta [OF c] by (simp add: good_meta_def)
  have data: "TkData t = take (2 * ?B) (drop (TkOff t div ?B * ?B) (fs ?n))" and nx: "TkNext t < blockNum ?B (length (TkData t))"
    using gt unfolding good_task_def fst_conv snd_conv by blast+
  have "TkNext t \<le> 1" by (rule blockNum_two [OF B _ nx]) (simp add: data)
  then have blk: "take ?B (drop (TkNext t * ?B) (TkData t)) = block_of ?B (fs ?n) ?i"
    using chunk_of_two [of "TkNext t" ?B "TkOff t div ?B" "fs ?n"] by (simp add: data block_of_def)
  let ?s1 = "save_block now df fault (block_key w ?i) (block_of ?B (fs ?n) ?i) s"
  have key: "rCache_key uuid ?n ?i s = (block_key w ?i, s)"
    using registered_key [OF u coherent_meta [OF c], of ?n ?i] w by (simp add: mstr_mget registered_def)
  have run: "run_task uuid now df fault k s = ?s1\<lparr>CsTasks := rest\<rparr>"
    using True unfolding run_task_def set_iteration_def by (simp add: Let_def t_def [symmetric] key blk rest_def)
  have c1: "coherent uuid (fs, ?s1)" by (rule save_coherent [OF c w refl])
  have "good_task (fs, ?s1) x" if "x \<in> set rest" for x
  proof -
    have "x \<in> set (CsTasks s) \<or> (x = t\<lparr>TkNext := TkNext t + 1\<rparr> \<and> TkNext t + 1 < blockNum ?B (length (TkData t)))"
      using that by (auto simp: rest_def dest: in_set_takeD in_set_dropD split: if_splits)
    then have "good_task (fs, s) x"
      using c gt by (auto simp: coherent_def good_task_def simp del: length_take)
    then show ?thesis
      by (rule good_task_keep) (use \<open>good_task (fs, s) x\<close> in \<open>simp_all add: good_task_def save_block_def\<close>)
  qed
  then show ?thesis unfolding run by (rule drop_tasks_coherent [OF c1])
next
  case False
  then show ?thesis using c by (simp add: run_task_def)
qed

text \<open>A step that only drops entries.\<close>

lemma shrink_coherent:
  assumes c: "coherent uuid x" and e: "extends uuid x y" and g: "good_meta uuid y"
    and m: "\<And>m key b. CsMem (snd y) = Some m \<Longrightarrow> mget m key = Some b \<Longrightarrow> \<exists>m0. CsMem (snd x) = Some m0 \<and> mget m0 key = Some b"
    and d: "\<And>d key b. CsDisk (snd y) = Some d \<Longrightarrow> mget (DcFiles d) key = Some b \<Longrightarrow> \<exists>d0. CsDisk (snd x) = Some d0 \<and> mget (DcFiles d0) key = Some b"
    and t: "\<And>t. t \<in> set (CsTasks (snd y)) \<Longrightarrow> t \<in> set (CsTasks (snd x)) \<and> mget (CsMeta (snd y)) (TkName t) = mget (CsMeta (snd x)) (TkName t) \<and> fst y (TkName t) = fst x (TkName t)"
  shows "coherent uuid y"
proof (rule coherentI [OF c e g disjI2 [OF m] disjI2 [OF d]])
  fix t assume "t \<in> set (CsTasks (snd y))"
  from t [OF this] have tt: "t \<in> set (CsTasks (snd x))" "mget (CsMeta (snd y)) (TkName t) = mget (CsMeta (snd x)) (TkName t)"
    "fst y (TkName t) = fst x (TkName t)" by blast+
  from tt(1) c have gt: "good_task x t" unfolding coherent_def by blast
  then have "mget (CsMeta (snd y)) (TkName t) \<noteq> None" unfolding good_task_def tt(2) by blast
  moreover have "CsBlock (snd y) = CsBlock (snd x)" using e unfolding extends_def by blast
  ultimately show "good_task y t" using gt tt(3) good_task_keep by blast
qed

lemma InvalidateCache_coherent:
  assumes c: "coherent uuid (fs, s)" and calm: "\<forall>t\<in>set (CsTasks s). TkName t \<noteq> path_Clean name"
  shows "coherent uuid (fs, InvalidateCache name len s)"
proof (cases "mget (CsMeta s) (path_Clean name)")
  case None
  then show ?thesis using c by (simp add: InvalidateCache_def)
next
  case (Some w)
  let ?s = "InvalidateCache name len s"
  have s: "CsMeta ?s = mdel (path_Clean name) (CsMeta s)" "CsBlock ?s = CsBlock s" "CsFresh ?s = CsFresh s"
    "CsMem ?s = CsMem s" "CsDisk ?s = CsDisk s" "CsTasks ?s = CsTasks s"
    using Some by (simp_all add: InvalidateCache_def)
  show ?thesis
  proof (rule shrink_coherent [OF c])
    show "extends uuid (fs, s) (fs, ?s)" by (auto simp: extends_def s split: if_splits)
    show "good_meta uuid (fs, ?s)"
      using coherent_meta [OF c] by (simp add: good_meta_def s known_id_def)
  qed (use calm in \<open>simp_all add: s\<close>)
qed

lemma run_delete_simps [simp]:
  "CsMeta (run_delete k s) = CsMeta s" "CsBlock (run_delete k s) = CsBlock s"
  "CsFresh (run_delete k s) = CsFresh s" "CsTasks (run_delete k s) = CsTasks s"
  by (simp_all add: run_delete_def delete_block_def Let_def)

lemma run_delete_coherent:
  assumes c: "coherent uuid (fs, s)"
  shows "coherent uuid (fs, run_delete k s)"
proof (rule shrink_coherent [OF c])
  let ?s = "run_delete k s"
  show "extends uuid (fs, s) (fs, ?s)" by (rule extends_refl_meta) simp_all
  show "good_meta uuid (fs, ?s)" using coherent_meta [OF c] by (rule good_meta_cong [rotated -1]) simp_all
  show "\<exists>m0. CsMem (snd (fs, s)) = Some m0 \<and> mget m0 key = Some b"
    if "CsMem (snd (fs, ?s)) = Some m" "mget m key = Some b" for m key b
    using that by (auto simp: run_delete_def delete_block_def Let_def split: if_splits)
  show "\<exists>d0. CsDisk (snd (fs, s)) = Some d0 \<and> mget (DcFiles d0) key = Some b"
    if "CsDisk (snd (fs, ?s)) = Some d" "mget (DcFiles d) key = Some b" for d key b
    using that by (auto simp: run_delete_def delete_block_def disk_delete_def Let_def split: if_splits)
qed simp_all

text \<open>What the protocol of the client has to respect: the cache of a file is invalidated only when no
  goroutine is storing its blocks, and its content changes only after an invalidation.\<close>

fun calm :: "cache_act \<Rightarrow> cache_sys \<Rightarrow> bool" where
  "calm (AcInvalidate name len) (fs, s) = list_all (\<lambda>t. TkName t \<noteq> path_Clean name) (CsTasks s)"
| "calm (AcPut name content) (fs, s) = (mget (CsMeta s) (path_Clean name) = None)"
| "calm _ _ = True"

lemma step_coherent:
  assumes u: "uuid_ok uuid" and c: "coherent uuid x" and k: "calm a x" and st: "cache_step uuid a x = Some y"
  shows "coherent uuid y"
proof -
  obtain fs s where x: "x = (fs, s)" by (cases x)
  have c: "coherent uuid (fs, s)" using c x by simp
  note m = coherent_meta [OF c]
  show ?thesis
  proof (cases a)
    case (AcRead name len off now fault)
    then obtain s1 r where "file_Read uuid now fault (fs (path_Clean name)) name len off s = Some (s1, r)" "y = (fs, s1)"
      using st x by (auto split: option.splits)
    then show ?thesis using read_loop_keeps [OF u c] unfolding file_Read_def by blast
  next
    case (AcSet k now df fault)
    then show ?thesis using st x run_task_coherent [OF u c] by auto
  next
    case (AcInvalidate name len)
    then show ?thesis using st x k InvalidateCache_coherent [OF c] by (auto simp: list_all_iff)
  next
    case (AcDelete k)
    then show ?thesis using st x run_delete_coherent [OF c] by auto
  next
    case (AcPut name content)
    then have y: "y = (fs(path_Clean name := content), s)" using st x by simp
    have n: "mget (CsMeta s) (path_Clean name) = None" using k AcPut x by simp
    show ?thesis unfolding y
    proof (rule shrink_coherent [OF c])
      show "extends uuid (fs, s) (fs(path_Clean name := content), s)" using n by (auto simp: extends_def)
      show "good_meta uuid (fs(path_Clean name := content), s)" using m by (simp add: good_meta_def)
      fix t assume "t \<in> set (CsTasks (snd (fs(path_Clean name := content), s)))"
      moreover from this have "mget (CsMeta s) (TkName t) \<noteq> None" using c by (simp add: coherent_def good_task_def)
      ultimately show "t \<in> set (CsTasks (snd (fs, s))) \<and>
          mget (CsMeta (snd (fs(path_Clean name := content), s))) (TkName t) = mget (CsMeta (snd (fs, s))) (TkName t) \<and>
          fst (fs(path_Clean name := content), s) (TkName t) = fst (fs, s) (TkName t)"
        using n by auto
    qed simp_all
  next
    case (AcEvict key)
    then have y: "y = (fs, s\<lparr>CsMem := map_option (mdel key) (CsMem s)\<rparr>)" using st x by simp
    show ?thesis unfolding y
    proof (rule shrink_coherent [OF c])
      show "extends uuid (fs, s) (fs, s\<lparr>CsMem := map_option (mdel key) (CsMem s)\<rparr>)" by (rule extends_refl_meta) simp_all
      show "good_meta uuid (fs, s\<lparr>CsMem := map_option (mdel key) (CsMem s)\<rparr>)"
        using m by (rule good_meta_cong [rotated -1]) simp_all
    qed (auto split: if_splits)
  next
    case (AcClean now df)
    then have y: "y = (fs, s\<lparr>CsDisk := map_option (disk_clean now df) (CsDisk s)\<rparr>)" using st x by simp
    show ?thesis unfolding y
    proof (rule shrink_coherent [OF c])
      show "extends uuid (fs, s) (fs, s\<lparr>CsDisk := map_option (disk_clean now df) (CsDisk s)\<rparr>)" by (rule extends_refl_meta) simp_all
      show "good_meta uuid (fs, s\<lparr>CsDisk := map_option (disk_clean now df) (CsDisk s)\<rparr>)"
        using m by (rule good_meta_cong [rotated -1]) simp_all
    qed (auto dest: disk_clean_files)
  next
    case (AcRemove i)
    then have y: "y = (fs, s\<lparr>CsDisk := map_option (disk_remove i) (CsDisk s)\<rparr>)" using st x by simp
    show ?thesis unfolding y
    proof (rule shrink_coherent [OF c])
      show "extends uuid (fs, s) (fs, s\<lparr>CsDisk := map_option (disk_remove i) (CsDisk s)\<rparr>)" by (rule extends_refl_meta) simp_all
      show "good_meta uuid (fs, s\<lparr>CsDisk := map_option (disk_remove i) (CsDisk s)\<rparr>)"
        using m by (rule good_meta_cong [rotated -1]) simp_all
    qed (auto dest: disk_remove_files)
  qed
qed

lemma NewCacheStore_coherent:
  assumes "NewCacheStore mem disk B df = Some s"
  shows "coherent uuid (fs, s)"
proof -
  have "0 < B" "CsMeta s = []" "CsTasks s = []" "CsBlock s = B"
    using assms by (auto simp: NewCacheStore_def split: if_splits)
  moreover have "CsMem s = None \<or> CsMem s = Some []"
    using assms by (auto simp: NewCacheStore_def NewMemCache_def split: if_splits option.splits)
  moreover have "CsDisk s = None \<or> (\<exists>d. CsDisk s = Some d \<and> DcFiles d = [])"
    using assms by (auto simp: NewCacheStore_def NewDiskCache_def split: if_splits option.splits)
  ultimately show ?thesis
    by (auto simp: coherent_def good_meta_def good_mem_def good_disk_def)
qed

section \<open>The cache refines the files\<close>

lemma file_Read_coherent:
  assumes "uuid_ok uuid" and "coherent uuid (fs, s)" and "off \<le> length (fs (path_Clean name))"
  shows "\<exists>s'. file_Read uuid now False (fs (path_Clean name)) name len off s =
    Some (s', Inr (take len (drop off (fs (path_Clean name))))) \<and> coherent uuid (fs, s')"
  using read_loop_coherent [OF assms(1,2), of len 0 "len + 2" off "path_Clean name" now] assms(3)
  by (auto simp: file_Read_def)

text \<open>A run of calm steps, and the file store it stands for.\<close>

fun calm_run :: "(nat \<Rightarrow> string) \<Rightarrow> cache_act list \<Rightarrow> cache_sys \<Rightarrow> cache_sys option" where
  "calm_run uuid [] x = Some x"
| "calm_run uuid (a # as) x =
     (if calm a x then (case cache_step uuid a x of None \<Rightarrow> None | Some y \<Rightarrow> calm_run uuid as y) else None)"

fun put_files :: "cache_act list \<Rightarrow> (string \<Rightarrow> string) \<Rightarrow> string \<Rightarrow> string" where
  "put_files [] fs = fs"
| "put_files (AcPut name content # as) fs = put_files as (fs(path_Clean name := content))"
| "put_files (a # as) fs = put_files as fs"

lemma step_files: "cache_step uuid a (fs, s) = Some (fs', s') \<Longrightarrow> put_files (a # as) fs = put_files as fs'"
  by (cases a) (auto split: option.splits)

lemma calm_run_coherent:
  assumes "uuid_ok uuid"
  shows "coherent uuid (fs, s) \<Longrightarrow> calm_run uuid as (fs, s) = Some (fs', s') \<Longrightarrow>
    coherent uuid (fs', s') \<and> fs' = put_files as fs"
proof (induction as arbitrary: fs s)
  case (Cons a as)
  obtain y where k: "calm a (fs, s)" and y: "cache_step uuid a (fs, s) = Some y" and r: "calm_run uuid as y = Some (fs', s')"
    using Cons.prems(2) by (auto split: if_splits option.splits)
  obtain fs1 s1 where y1: "y = (fs1, s1)" by (cases y)
  have "coherent uuid (fs1, s1)" using step_coherent [OF assms Cons.prems(1) k y] y1 by simp
  then show ?case using Cons.IH r step_files y y1 by metis
qed simp

text \<open>
  C23: A read through the cache gives the bytes of the file. The specification is a store of files in
  which only writes act. Take any cache, any sequence of reads (of any file, at any place, with failures of
  the storage), stores of blocks by the goroutines, deletions, evictions, clean-ups of the disk,
  invalidations and writes, in any order, in which a file is invalidated only while no goroutine is storing
  its blocks and written only after an invalidation. Then a read at an offset inside the file returns, and
  gives the \<open>len\<close> bytes from there of what the specification holds, less at the end of the file.\<close>

theorem cached_reads_refine_files:
  assumes "uuid_ok uuid" and "NewCacheStore mem disk B df = Some s0"
    and "calm_run uuid acts (fs0, s0) = Some (fs, s)"
    and "off \<le> length (put_files acts fs0 (path_Clean name))"
  shows "\<exists>s'. file_Read uuid now False (fs (path_Clean name)) name len off s =
    Some (s', Inr (take len (drop off (put_files acts fs0 (path_Clean name)))))"
proof -
  note run = calm_run_coherent [OF assms(1) NewCacheStore_coherent [OF assms(2)] assms(3)]
  from run have fs: "put_files acts fs0 = fs" by simp
  show ?thesis
    using file_Read_coherent [OF assms(1) conjunct1 [OF run], of off name now len] assms(4) unfolding fs by blast
qed

lemma uuid_ok_example: "uuid_ok (\<lambda>n. replicate (Suc n) (CHR ''k''))"
proof -
  have "inj (\<lambda>n. replicate (Suc n) (CHR ''k''))" by (rule injI) (metis length_replicate nat.inject)
  then show ?thesis by (simp add: uuid_ok_def key_id_def)
qed

lemma cached_reads_refine_files_witness:
  "\<exists>fs s s'. calm_run (\<lambda>n. replicate (Suc n) (CHR ''k''))
       [AcInvalidate ''b'' 0, AcPut ''b'' ''xyz'', AcRead ''a'' 6 0 0 False, AcSet 0 0 None False]
       (\<lambda>_. ''abcdefg'', the (NewCacheStore (Some 100) None 4 None)) = Some (fs, s) \<and>
     file_Read (\<lambda>n. replicate (Suc n) (CHR ''k'')) 0 False (fs (path_Clean ''a'')) ''a'' 4 1 s = Some (s', Inr ''bcde'')"
proof -
  let ?u = "\<lambda>n. replicate (Suc n) (CHR ''k'')"
  let ?acts = "[AcInvalidate ''b'' 0, AcPut ''b'' ''xyz'', AcRead ''a'' 6 0 0 False, AcSet 0 0 None False]"
  let ?s0 = "the (NewCacheStore (Some 100) None 4 None)" and ?fs1 = "(\<lambda>_. ''abcdefg'')(path_Clean ''b'' := ''xyz'')"
  have n: "NewCacheStore (Some 100) None 4 None = Some ?s0" by (simp add: NewCacheStore_def)
  have e: "CsTasks ?s0 = []" "CsMeta ?s0 = []" by (simp_all add: NewCacheStore_def)
  obtain s1 r where "file_Read ?u 0 False (?fs1 (path_Clean ''a'')) ''a'' 6 0 ?s0 = Some (s1, r)"
    using file_Read_coherent [OF uuid_ok_example NewCacheStore_coherent [OF n], of 0 ?fs1 "''a''" 0 6] by auto
  then have r: "calm_run ?u ?acts (\<lambda>_. ''abcdefg'', ?s0) = Some (?fs1, run_task ?u 0 None False 0 s1)"
    using e by (simp add: InvalidateCache_def del: fun_upd_apply)
  have f: "put_files ?acts (\<lambda>_. ''abcdefg'') (path_Clean ''a'') = ''abcdefg''" by code_simp
  have "\<exists>s'. file_Read ?u 0 False (?fs1 (path_Clean ''a'')) ''a'' 4 1 (run_task ?u 0 None False 0 s1) =
      Some (s', Inr (take 4 (drop 1 (put_files ?acts (\<lambda>_. ''abcdefg'') (path_Clean ''a'')))))"
    by (rule cached_reads_refine_files [OF uuid_ok_example n r]) (simp only: f, simp)
  then have "\<exists>s'. file_Read ?u 0 False (?fs1 (path_Clean ''a'')) ''a'' 4 1 (run_task ?u 0 None False 0 s1) = Some (s', Inr ''bcde'')"
    unfolding f by simp
  then show ?thesis using r by blast
qed

section \<open>Where the cache goes wrong\<close>

fun cache_run :: "(nat \<Rightarrow> string) \<Rightarrow> cache_act list \<Rightarrow> cache_sys \<Rightarrow> cache_sys option" where
  "cache_run uuid [] x = Some x"
| "cache_run uuid (a # as) x = (case cache_step uuid a x of None \<Rightarrow> None | Some y \<Rightarrow> cache_run uuid as y)"

lemma read_in_block:
  assumes "rCache_ReadAt uuid now fault c (path_Clean name) len 0 s = (s', Inr (int (length b), b))"
    and "length b = len" and "0 < len" and "len \<le> CsBlock s"
  shows "file_Read uuid now fault c name len 0 s = Some (s', Inr b)"
proof -
  have "nat (min (int 0 + (int (CsBlock s) - int 0 mod int (CsBlock s))) (int len) - int 0) = len" using assms(4) by simp
  from read_loop_step [of 0, OF _ assms(1) this, of "len + 1" "''''"] assms(2,3)
  show ?thesis by (simp add: file_Read_def)
qed

text \<open>A cache in memory only: reading the start of a file whose block is missing or there, and storing a file of one block.\<close>

lemma mem_read_miss:
  assumes "CsMem s = Some m" and "CsDisk s = None" and "rCache_key uuid (path_Clean name) 0 s = (key, s1)" and "mget m key = None"
    and "0 < len" and "len \<le> CsBlock s" and "len \<le> length c"
  shows "file_Read uuid now False c name len 0 s =
    Some (s1\<lparr>CsTasks := CsTasks s1 @ [\<lparr>TkName = path_Clean name, TkOff = 0, TkData = take (2 * CsBlock s) c, TkNext = 0\<rparr>]\<rparr>,
      Inr (take len c))"
proof (rule read_in_block)
  have s1: "CsMem s1 = Some m" "CsDisk s1 = None" using assms(1-3) by (auto simp: rCache_key_def Let_def split: if_splits)
  have "readCache now s1 len key 0 = None" by (simp add: readCache_def s1 assms(4))
  then show "rCache_ReadAt uuid now False c (path_Clean name) len 0 s =
      (s1\<lparr>CsTasks := CsTasks s1 @ [\<lparr>TkName = path_Clean name, TkOff = 0, TkData = take (2 * CsBlock s) c, TkNext = 0\<rparr>]\<rparr>,
       Inr (int (length (take len c)), take len c))"
    using assms(3,5-7) by (simp add: rCache_ReadAt_def readAheadNum_def)
qed (use assms in simp_all)

lemma mem_read_hit:
  assumes "CsMem s = Some m" and "mget (CsMeta s) (path_Clean name) = Some w" and "w \<noteq> ''''" and "mget m (block_key w 0) = Some b"
    and "0 < len" and "len \<le> CsBlock s" and "len \<le> length b"
  shows "file_Read uuid now fault c name len 0 s = Some (s, Inr (take len b))"
proof (rule read_in_block)
  have key: "rCache_key uuid (path_Clean name) 0 s = (block_key w 0, s)" using assms(2,3) by (simp add: rCache_key_def mstr_mget)
  have "readCache now s len (block_key w 0) 0 = Some (take len b)" by (simp add: readCache_def assms(1,4))
  then show "rCache_ReadAt uuid now fault c (path_Clean name) len 0 s = (s, Inr (int (length (take len b)), take len b))"
    using assms(5) by (simp add: rCache_ReadAt_def key)
qed (use assms in simp_all)

lemma mem_set_block:
  assumes "CsTasks s = [\<lparr>TkName = a, TkOff = 0, TkData = c, TkNext = 0\<rparr>]" and "CsMem s = Some m" and "CsDisk s = None"
    and "mget (CsMeta s) a = Some w" and "w \<noteq> ''''" and "length c \<le> CsBlock s" and "c \<noteq> ''''"
  shows "run_task uuid now df fault 0 s = s\<lparr>CsMem := Some (mput (block_key w 0) c m), CsTasks := []\<rparr>"
proof -
  have "(length c - 1) div CsBlock s = 0" using assms(6,7) by (cases c) simp_all
  then have "\<not> Suc 0 < blockNum (CsBlock s) (length c)" using assms(7) by (simp add: blockNum_def)
  then show ?thesis
    using assms by (simp add: run_task_def set_iteration_def rCache_key_def mstr_mget save_block_def Let_def)
qed

lemma mem_store:
  assumes "NewCacheStore (Some n) None B df = Some s" and "0 < n"
  shows "s = \<lparr>CsMem = Some [], CsDisk = None, CsBlock = B, CsMeta = [], CsFresh = 0, CsTasks = [], CsDeletes = []\<rparr> \<and> 0 < B"
  using assms by (simp add: NewCacheStore_def NewMemCache_def split: if_splits)

text \<open>
  C37: The cache can give one file the bytes of another. The goroutine that stores the blocks of a read asks
  for the key when it runs; if the cache of the file has been invalidated since, the key is made from the
  empty ID, which every file has at its first use. So after a read of one file, an invalidation of it (a
  write, flush, create or rename does that) and the store of the block, the first read of any other file
  returns the bytes of the first file, whatever its own content is.\<close>

theorem cache_mixes_files:
  assumes "NewCacheStore (Some n) None B df = Some s0" and "0 < n"
    and "path_Clean a \<noteq> path_Clean b" and "0 < len" and "len \<le> B" and "len \<le> length (fs (path_Clean a))"
  shows "\<exists>s s'. cache_run uuid [AcRead a len 0 now False, AcInvalidate a l, AcSet 0 now df False] (fs, s0) = Some (fs, s) \<and>
    file_Read uuid now False (fs (path_Clean b)) b len 0 s = Some (s', Inr (take len (fs (path_Clean a))))"
proof -
  let ?a = "path_Clean a" and ?c = "fs (path_Clean a)"
  let ?t = "\<lparr>TkName = ?a, TkOff = 0, TkData = take (2 * B) ?c, TkNext = 0\<rparr>"
  note s0 = conjunct1 [OF mem_store [OF assms(1,2)]] and B = conjunct2 [OF mem_store [OF assms(1,2)]]
  let ?s1 = "s0\<lparr>CsMeta := [(?a, uuid 0)], CsFresh := 1, CsTasks := [?t]\<rparr>"
  have put: "mput k v [] = [(k, v)]" and del: "mdel k [(k, v)] = []" for k :: string and v :: string
    by (simp_all add: mput_def mdel_def)
  have "rCache_ReadAt uuid now False ?c ?a len 0 s0 = (?s1, Inr (int (length (take len ?c)), take len ?c))"
    using assms(4,5,6) unfolding s0
    by (simp add: rCache_ReadAt_def rCache_key_def mstr_mget readCache_def put readAheadNum_def)
  then have read: "file_Read uuid now False ?c a len 0 s0 = Some (?s1, Inr (take len ?c))"
    by (rule read_in_block) (use assms s0 in auto)
  let ?del = "[\<lparr>DlKeyID = uuid 0, DlLength = l, DlIndex = 0\<rparr>]"
  let ?s2 = "s0\<lparr>CsFresh := 1, CsTasks := [?t], CsDeletes := ?del\<rparr>"
  have inv: "InvalidateCache a l ?s1 = ?s2" unfolding s0 by (simp add: InvalidateCache_def del)
  obtain ts where set: "run_task uuid now df False 0 ?s2 = s0\<lparr>CsMem := Some [(block_key '''' 0, take B ?c)],
      CsMeta := [(?a, uuid 1)], CsFresh := 2, CsTasks := ts, CsDeletes := ?del\<rparr>"
    unfolding s0 by (simp add: run_task_def set_iteration_def rCache_key_def mstr_mget save_block_def put Let_def)
  let ?s3 = "s0\<lparr>CsMem := Some [(block_key '''' 0, take B ?c)],
      CsMeta := [(?a, uuid 1)], CsFresh := 2, CsTasks := ts, CsDeletes := ?del\<rparr>"
  have run: "cache_run uuid [AcRead a len 0 now False, AcInvalidate a l, AcSet 0 now df False] (fs, s0) = Some (fs, ?s3)"
    by (simp only: cache_run.simps cache_step.simps read inv set option.case prod.case)
  let ?s4 = "?s3\<lparr>CsMeta := mput (path_Clean b) (uuid 2) [(?a, uuid 1)], CsFresh := 3\<rparr>"
  have "rCache_ReadAt uuid now False (fs (path_Clean b)) (path_Clean b) len 0 ?s3 = (?s4, Inr (int (length (take len ?c)), take len ?c))"
    using assms(3,4,5) unfolding s0
    by (simp add: rCache_ReadAt_def rCache_key_def mstr_mget readCache_def min_absorb1)
  then have "file_Read uuid now False (fs (path_Clean b)) b len 0 ?s3 = Some (?s4, Inr (take len ?c))"
    by (rule read_in_block) (use assms s0 in auto)
  then show ?thesis using run by blast
qed

lemma cache_mixes_files_witness:
  "\<exists>s s'. cache_run (\<lambda>n. replicate (Suc n) (CHR ''k'')) [AcRead ''/secret'' 3 0 0 False, AcInvalidate ''/secret'' 9, AcSet 0 0 None False]
      (\<lambda>n. if n = ''/secret'' then ''key!'' else ''hello'', the (NewCacheStore (Some 100) None 4 None)) =
        Some (\<lambda>n. if n = ''/secret'' then ''key!'' else ''hello'', s) \<and>
    file_Read (\<lambda>n. replicate (Suc n) (CHR ''k'')) 0 False ''hello'' ''/public'' 3 0 s = Some (s', Inr ''key'')"
proof -
  have c: "path_Clean ''/secret'' = ''/secret''" "path_Clean ''/public'' = ''/public''" by code_simp+
  show ?thesis
    using cache_mixes_files [of 100 4 None "the (NewCacheStore (Some 100) None 4 None)" "''/secret''" "''/public''" 3
        "\<lambda>n. if n = ''/secret'' then ''key!'' else ''hello''" "\<lambda>n. replicate (Suc n) (CHR ''k'')" 0 9]
    by (simp add: c NewCacheStore_def)
qed

lemma rCache_hit:
  assumes "rCache_key uuid name (off div CsBlock s) s = (key, s1)" and "0 < l"
    and "readCache now s1 l key (off mod CsBlock s) = Some b"
  shows "rCache_ReadAt uuid now fault c name l off s = (s1, Inr (int (length b), b))"
  using assms by (simp add: rCache_ReadAt_def)

lemma rCache_miss:
  assumes "rCache_key uuid name (off div CsBlock s) s = (key, s1)" and "0 < l"
    and "readCache now s1 l key (off mod CsBlock s) = None"
  shows "\<exists>s'. rCache_ReadAt uuid now False c name l off s =
    (s', Inr (min (int l) (int (length (take (2 * CsBlock s) (drop (off div CsBlock s * CsBlock s) c))) - int (off mod CsBlock s)),
      take l (drop (off mod CsBlock s) (take (2 * CsBlock s) (drop (off div CsBlock s * CsBlock s) c)))))"
  using assms by (simp add: rCache_ReadAt_def readAheadNum_def Let_def)

lemma read_ends:
  assumes "0 < len" and "nat (min (int 0 + (int (CsBlock s) - int off mod int (CsBlock s))) (int len) - int 0) = l"
    and "rCache_ReadAt uuid now fault c (path_Clean name) l off s = (s', Inr (z, b))" and "z \<le> 0"
  shows "file_Read uuid now fault c name len off s = Some (s', if z = 0 then Inr '''' else Inl GO_PANIC)"
proof -
  have "read_loop (Suc (Suc len)) uuid now fault c (path_Clean name) len (int 0) (int off) '''' s =
    (if z = 0 then Some (s', Inr '''') else read_loop (Suc len) uuid now fault c (path_Clean name) len (int 0 + z) (int off + z)
       (take (nat (int 0 + z)) ('''' @ b)) s')"
    using assms(1) by (simp only: read_loop.simps(2) [of "Suc len"] Let_def assms(2,3) nat_int prod.case sum.case) simp
  moreover have "read_loop (Suc len) uuid now fault c (path_Clean name) len z o' acc s' = Some (s', Inl GO_PANIC)" if "z < 0" for o' acc
    using that by simp
  ultimately show ?thesis using assms(4) by (simp add: file_Read_def)
qed

text \<open>
  C38: A read behind the end of a file panics when its offset is inside a block that is not in the cache: the cache computes a
  negative count from the bytes it got, and the reader slices its buffer with it. At the boundary of a block, and when the
  cache holds the block as it is in the file, the same read gives no bytes.\<close>

theorem read_past_end:
  fixes s :: cache_store and now :: int and uuid :: "nat \<Rightarrow> string" and name :: string and off :: nat
  defines "cached \<equiv> readCache now s (CsBlock s) (fst (rCache_key uuid (path_Clean name) (off div CsBlock s) s)) 0"
  assumes B: "0 < CsBlock s" and off: "length c < off" and len: "0 < len"
    and blk: "cached \<noteq> None \<Longrightarrow> cached = Some (block_of (CsBlock s) c (off div CsBlock s))"
  shows "\<exists>s'. file_Read uuid now False c name len off s =
    Some (s', if cached \<noteq> None \<or> off mod CsBlock s = 0 then Inr '''' else Inl GO_PANIC)"
proof -
  let ?B = "CsBlock s"
  let ?k = "min (?B - off mod ?B) len"
  let ?d = "take (2 * ?B) (drop (off div ?B * ?B) c)"
  have r: "off mod ?B < ?B" using B by simp
  have split: "off div ?B * ?B + off mod ?B = off" by simp
  have chunk: "nat (min (int 0 + (int ?B - int off mod int ?B)) (int len) - int 0) = ?k"
    using nat_chunk [OF r, of 0 len] len by (simp add: zmod_int)
  have k: "0 < ?k" "?k + off mod ?B \<le> ?B" using r len by simp_all
  obtain key s1 where key: "rCache_key uuid (path_Clean name) (off div ?B) s = (key, s1)" by fastforce
  have m1: "CsMem s1 = CsMem s" "CsDisk s1 = CsDisk s" using key by (auto simp: rCache_key_def Let_def split: if_splits)
  have same: "readCache now s1 l key o' = readCache now s l key o'" for l o' by (simp only: readCache_def m1)
  define whole where "whole = (case (case CsMem s of None \<Rightarrow> None | Some m \<Rightarrow> mget m key) of
      Some b \<Rightarrow> Some b | None \<Rightarrow> (case CsDisk s of None \<Rightarrow> None | Some d \<Rightarrow> disk_load now d key))"
  have rc: "readCache now s l key o' = map_option (\<lambda>b. take l (drop o' b)) whole" for l o'
    by (simp add: readCache_def whole_def)
  have cached: "cached = map_option (take ?B) whole" by (simp add: cached_def key rc)
  show ?thesis
  proof (cases whole)
    case (Some b)
    have b: "take ?B b = block_of ?B c (off div ?B)" using blk Some by (simp add: cached)
    have "drop (off mod ?B) (block_of ?B c (off div ?B)) = ''''"
      using off split by (simp add: block_of_def drop_take)
    then have "take (?B - off mod ?B) (drop (off mod ?B) b) = ''''" unfolding b [symmetric] drop_take .
    then have "take len (take (?B - off mod ?B) (drop (off mod ?B) b)) = ''''" by (simp only: take_Nil)
    then have "take ?k (drop (off mod ?B) b) = ''''" by (simp only: take_take min.commute)
    then have "readCache now s1 ?k key (off mod ?B) = Some ''''" by (simp add: same rc Some)
    then have "rCache_ReadAt uuid now False c (path_Clean name) ?k off s = (s1, Inr (int (length ('''' :: string)), ''''))"
      by (rule rCache_hit [OF key k(1)])
    from read_ends [OF len chunk this] show ?thesis using cached Some by simp
  next
    case None
    then have "readCache now s1 ?k key (off mod ?B) = None" by (simp add: same rc)
    then have ra: "\<exists>s'. rCache_ReadAt uuid now False c (path_Clean name) ?k off s =
        (s', Inr (min (int ?k) (int (length ?d) - int (off mod ?B)), take ?k (drop (off mod ?B) ?d)))"
      by (rule rCache_miss [OF key k(1)])
    then obtain s' where ra: "rCache_ReadAt uuid now False c (path_Clean name) ?k off s =
        (s', Inr (min (int ?k) (int (length ?d) - int (off mod ?B)), take ?k (drop (off mod ?B) ?d)))" ..
    have z: "min (int ?k) (int (length ?d) - int (off mod ?B)) \<le> 0"
      "(min (int ?k) (int (length ?d) - int (off mod ?B)) = 0) = (off mod ?B = 0)"
    proof -
      have "length ?d \<le> length c - off div ?B * ?B" by simp
      then have "length ?d < off mod ?B \<or> length ?d = 0 \<and> off mod ?B = 0" using off split by linarith
      then show "min (int ?k) (int (length ?d) - int (off mod ?B)) \<le> 0"
        "(min (int ?k) (int (length ?d) - int (off mod ?B)) = 0) = (off mod ?B = 0)" using k(1) by linarith+
    qed
    from read_ends [OF len chunk ra z(1)] show ?thesis unfolding z(2) using cached None by simp
  qed
qed

text \<open>A new cache panics; with the block in memory the read ends.\<close>

definition demo_cold :: cache_store where
  "demo_cold = \<lparr>CsMem = Some [], CsDisk = None, CsBlock = 4, CsMeta = [], CsFresh = 0, CsTasks = [], CsDeletes = []\<rparr>"

definition demo_warm :: cache_store where
  "demo_warm = demo_cold\<lparr>CsMem := Some [(block_key ''k'' 1, ''ef'')], CsMeta := [(''/f'', ''k'')], CsFresh := 1\<rparr>"

lemma read_past_end_witness:
  "(\<exists>s'. file_Read (\<lambda>n. replicate (Suc n) (CHR ''k'')) 0 False ''abcdef'' ''/f'' 4 7 demo_cold = Some (s', Inl GO_PANIC)) \<and>
   (\<exists>s'. file_Read (\<lambda>n. replicate (Suc n) (CHR ''k'')) 0 False ''abcdef'' ''/f'' 4 7 demo_warm = Some (s', Inr ''''))"
proof -
  let ?u = "\<lambda>n. replicate (Suc n) (CHR ''k'')"
  have c: "path_Clean ''/f'' = ''/f''" by code_simp
  have "readCache 0 demo_cold 4 (fst (rCache_key ?u (path_Clean ''/f'') (7 div 4) demo_cold)) 0 = None"
    by (simp add: demo_cold_def readCache_def)
  moreover have "readCache 0 demo_warm 4 (fst (rCache_key ?u (path_Clean ''/f'') (7 div 4) demo_warm)) 0 = Some ''ef''"
    by (simp add: demo_warm_def demo_cold_def readCache_def rCache_key_def mstr_mget c Let_def)
  moreover have "CsBlock demo_cold = 4" "CsBlock demo_warm = 4" "block_of 4 ''abcdef'' (7 div 4) = ''ef''"
    by (simp_all add: demo_warm_def demo_cold_def block_of_def)
  ultimately show ?thesis
    using read_past_end [where s = demo_cold and c = "''abcdef''" and off = 7 and len = 4 and uuid = ?u and now = 0 and name = "''/f''"]
      read_past_end [where s = demo_warm and c = "''abcdef''" and off = 7 and len = 4 and uuid = ?u and now = 0 and name = "''/f''"]
    by simp
qed

end
