(* ===== verification/PF_JobSync.thy ===== *)
theory PF_JobSync
  imports PF_JobApp
begin

text \<open>
  The job controllers of the API server (\<open>pkg/job/controller\<close>): \<open>job_sync\<close> turns the events of Kubernetes on
  Volcano jobs, Spark applications and pods into updates of the job table, through a work queue with
  retries; \<open>job_gc\<close> deletes finished objects after a delay. The objects hold the fields the handlers read.
  The work queues of client-go are lists: \<open>JsQueue\<close> is ready, the others hold items with the time from which
  they are ready. A handler is \<open>None\<close> when it panics.
\<close>

section \<open>Objects\<close>

record 'p cluster_job =
  KjName :: string
  KjNamespace :: string
  KjLabels :: "string gomap"
  KjVersion :: string
  KjState :: 'p
  KjMessage :: string
  KjText :: string

text \<open>What an informer hands over: an object that converts to its Go type, one that does not, or the
  tombstone of a missed deletion (\<open>cache.DeletedFinalStateUnknown\<close>), on which the type assertion fails.\<close>

datatype 'o k8s_obj = Unstructured 'o | Malformed | Tombstone

fun convert_obj :: "'o k8s_obj \<Rightarrow> 'o option option" where
  "convert_obj (Unstructured j) = Some (Some j)"
| "convert_obj Malformed = Some None"
| "convert_obj Tombstone = None"

record container_status =
  KcWaiting :: "(string \<times> string) option"

record pod =
  PoLabels :: "string gomap"
  PoPhase :: string
  PoInit :: "container_status list"
  PoContainers :: "container_status list"

record sync_info =
  SyID :: string
  SyStatus :: job_status
  SyRuntime :: "string option"
  SyMessage :: string
  SyType :: string
  SyAction :: action_on_job
  SyRetry :: nat

record job_sync =
  JsQueue :: "sync_info list"
  JsWaiting :: "(int \<times> sync_info) list"

record reclaim =
  CleanJob :: bool
  SkipCleanFailedJob :: bool
  JobTTLSeconds :: int
  JobPendingTTLSeconds :: int

abbreviation VolcanoJobNameLabel :: string where "VolcanoJobNameLabel \<equiv> ''volcano.sh/job-name''"

definition enqueue :: "sync_info \<Rightarrow> job_sync \<Rightarrow> job_sync" where
  "enqueue i s = s\<lparr>JsQueue := JsQueue s @ [i]\<rparr>"

section \<open>Events of Volcano jobs\<close>

text \<open>The log line of the filter dereferences the object also when the conversion has failed.\<close>

definition responsible :: "'p cluster_job k8s_obj \<Rightarrow> bool option" where
  "responsible obj =
     (case convert_obj obj of
        Some (Some j) \<Rightarrow> Some (mstr (KjLabels j) JobOwnerLabel = JobOwnerValue)
      | _ \<Rightarrow> None)"

definition responsibleForVCJob :: "vc_phase cluster_job k8s_obj \<Rightarrow> bool option" where
  "responsibleForVCJob obj = responsible obj"

definition status_of :: "string + job_status \<Rightarrow> job_status" where
  "status_of r = (case r of Inl _ \<Rightarrow> StatusJobNone | Inr s \<Rightarrow> s)"

definition job_info :: "'p cluster_job \<Rightarrow> job_status \<Rightarrow> action_on_job \<Rightarrow> sync_info" where
  "job_info j st act =
     \<lparr>SyID = mstr (KjLabels j) JobIDLabel, SyStatus = st, SyRuntime = Some (KjText j), SyMessage = KjMessage j,
      SyType = TypeVcJob, SyAction = act, SyRetry = 0\<rparr>"

definition addVCJob :: "vc_phase cluster_job k8s_obj \<Rightarrow> job_sync \<Rightarrow> job_sync option" where
  "addVCJob obj s =
     (case convert_obj obj of
        None \<Rightarrow> None
      | Some None \<Rightarrow> Some s
      | Some (Some j) \<Rightarrow>
          (let st0 = status_of (GetVCJobStatus (KjState j));
               st = (if st0 = StatusJobNone then StatusJobPending else st0)
           in Some (enqueue (job_info j st ActUpdate) s)))"

definition updateVCJob ::
  "vc_phase cluster_job k8s_obj \<Rightarrow> vc_phase cluster_job k8s_obj \<Rightarrow> job_sync \<Rightarrow> job_sync option" where
  "updateVCJob oldObj newObj s =
     (case convert_obj oldObj of
        None \<Rightarrow> None
      | Some None \<Rightarrow> Some s
      | Some (Some old) \<Rightarrow>
          (case convert_obj newObj of
             None \<Rightarrow> None
           | Some None \<Rightarrow> Some s
           | Some (Some new) \<Rightarrow>
               if KjVersion old = KjVersion new \<and> KjState old = KjState new then Some s
               else (case GetVCJobStatus (KjState new) of
                       Inl e \<Rightarrow> Some s
                     | Inr st \<Rightarrow> Some (enqueue (job_info new st ActUpdate) s))))"

definition deleteVCJob :: "vc_phase cluster_job k8s_obj \<Rightarrow> job_sync \<Rightarrow> job_sync option" where
  "deleteVCJob obj s =
     (case convert_obj obj of
        None \<Rightarrow> None
      | Some None \<Rightarrow> Some s
      | Some (Some j) \<Rightarrow>
          (case GetVCJobStatus (KjState j) of
             Inl e \<Rightarrow> Some s
           | Inr st \<Rightarrow> Some (enqueue (job_info j st ActDelete) s)))"

section \<open>Events of Spark applications\<close>

text \<open>The code gives their records the type of Volcano jobs, too.\<close>

definition responsibleForSparkJob :: "spark_state cluster_job k8s_obj \<Rightarrow> bool option" where
  "responsibleForSparkJob obj = responsible obj"

definition addSparkJob :: "spark_state cluster_job k8s_obj \<Rightarrow> job_sync \<Rightarrow> job_sync option" where
  "addSparkJob obj s =
     (case convert_obj obj of
        None \<Rightarrow> None
      | Some None \<Rightarrow> Some s
      | Some (Some j) \<Rightarrow>
          (let st0 = status_of (GetSparkJobStatus (KjState j));
               st = (if st0 = StatusJobNone then StatusJobPending else st0)
           in Some (enqueue (job_info j st ActUpdate) s)))"

definition updateSparkJob ::
  "spark_state cluster_job k8s_obj \<Rightarrow> spark_state cluster_job k8s_obj \<Rightarrow> job_sync \<Rightarrow> job_sync option" where
  "updateSparkJob oldObj newObj s =
     (case convert_obj oldObj of
        None \<Rightarrow> None
      | Some None \<Rightarrow> Some s
      | Some (Some old) \<Rightarrow>
          (case convert_obj newObj of
             None \<Rightarrow> None
           | Some None \<Rightarrow> Some s
           | Some (Some new) \<Rightarrow>
               if KjVersion old = KjVersion new \<and> KjState old = KjState new then Some s
               else (case GetSparkJobStatus (KjState new) of
                       Inl e \<Rightarrow> Some s
                     | Inr st \<Rightarrow> Some (enqueue (job_info new st ActUpdate) s))))"

definition deleteSparkJob :: "spark_state cluster_job k8s_obj \<Rightarrow> job_sync \<Rightarrow> job_sync option" where
  "deleteSparkJob obj s =
     (case convert_obj obj of
        None \<Rightarrow> None
      | Some None \<Rightarrow> Some s
      | Some (Some j) \<Rightarrow>
          (case GetSparkJobStatus (KjState j) of
             Inl e \<Rightarrow> Some s
           | Inr st \<Rightarrow> Some (enqueue (job_info j st ActDelete) s)))"

section \<open>Events of pods\<close>

definition DefaultJobPendingTTLSeconds :: int where "DefaultJobPendingTTLSeconds = 300"
definition PodInitializing :: string where "PodInitializing = ''PodInitializing''"
definition ContainerCreating :: string where "ContainerCreating = ''ContainerCreating''"

definition isValidWaitingState :: "(string \<times> string) option \<Rightarrow> bool" where
  "isValidWaitingState w = (case w of None \<Rightarrow> False | Some (reason, msg) \<Rightarrow> reason = PodInitializing \<or> reason = ContainerCreating)"

text \<open>The loop over the containers, which runs twice over the same two variables.\<close>

fun scan_containers :: "container_status list \<Rightarrow> bool \<times> string \<Rightarrow> bool \<times> string" where
  "scan_containers [] vm = vm"
| "scan_containers (c # cs) vm =
     (case KcWaiting c of
        Some (reason, msg) \<Rightarrow> (isValidWaitingState (KcWaiting c), reason @ '':'' @ msg)
      | None \<Rightarrow> scan_containers cs (isValidWaitingState (KcWaiting c), snd vm))"

definition updatePod :: "reclaim \<Rightarrow> int \<Rightarrow> pod k8s_obj \<Rightarrow> pod k8s_obj \<Rightarrow> job_sync \<Rightarrow> job_sync option" where
  "updatePod cfg now oldObj newObj s =
     (case convert_obj oldObj of
        None \<Rightarrow> None
      | Some None \<Rightarrow> Some s
      | Some (Some old) \<Rightarrow>
          if mget (PoLabels old) VolcanoJobNameLabel = None then Some s
          else (case convert_obj newObj of
             None \<Rightarrow> None
           | Some None \<Rightarrow> Some s
           | Some (Some new) \<Rightarrow>
               (case mget (PoLabels new) VolcanoJobNameLabel of
                  None \<Rightarrow> Some s
                | Some jobName \<Rightarrow>
                    if PoPhase new \<noteq> ''Pending'' then Some s
                    else (case scan_containers (PoContainers new) (scan_containers (PoInit new) (False, '''')) of
                      (valid, message) \<Rightarrow>
                        if message = '''' then Some s
                        else (let i = \<lparr>SyID = jobName, SyStatus = StatusJobNone, SyRuntime = None, SyMessage = message,
                                       SyType = '''', SyAction = ActUpdate, SyRetry = 0\<rparr>;
                                  s1 = enqueue i s
                              in if valid then Some s1
                                 else (let ttl = (if 0 < JobPendingTTLSeconds cfg then JobPendingTTLSeconds cfg
                                                  else DefaultJobPendingTTLSeconds)
                                       in Some (s1\<lparr>JsWaiting := JsWaiting s1 @
                                            [(now + ttl, i\<lparr>SyMessage := '''', SyAction := ActTerminate\<rparr>)]\<rparr>)))))))"

section \<open>The worker\<close>

definition DefaultSyncRetryTimes :: nat where "DefaultSyncRetryTimes = 3"

definition error_of :: "'e + 'a \<Rightarrow> 'e option" where
  "error_of r = (case r of Inl e \<Rightarrow> Some e | Inr _ \<Rightarrow> None)"

definition doDeleteAction :: "faults \<Rightarrow> timestamp \<Rightarrow> sync_info \<Rightarrow> db \<Rightarrow> db \<times> job_error option" where
  "doDeleteAction flt now i d =
     (case UpdateJob flt now (SyID i) StatusJobTerminated (SyRuntime i) '''' d of (r, d') \<Rightarrow> (d', error_of r))"

definition doUpdateAction :: "faults \<Rightarrow> timestamp \<Rightarrow> sync_info \<Rightarrow> db \<Rightarrow> db \<times> job_error option" where
  "doUpdateAction flt now i d =
     (case UpdateJob flt now (SyID i) (SyStatus i) (SyRuntime i) (SyMessage i) d of (r, d') \<Rightarrow> (d', error_of r))"

definition doTerminateAction :: "faults \<Rightarrow> job_env \<Rightarrow> sync_info \<Rightarrow> db \<Rightarrow> job_error option" where
  "doTerminateAction flt je i d =
     (case GetJobStatusByID flt (SyID i) d of
        Inl _ \<Rightarrow> None
      | Inr st \<Rightarrow> if st \<noteq> StatusJobPending then None else error_of (StopJobByID flt je (SyID i) d))"

definition syncJobStatus :: "faults \<Rightarrow> job_env \<Rightarrow> timestamp \<Rightarrow> sync_info \<Rightarrow> db \<Rightarrow> db \<times> job_error option" where
  "syncJobStatus flt je now i d =
     (case SyAction i of
        ActDelete \<Rightarrow> doDeleteAction flt now i d
      | ActUpdate \<Rightarrow> doUpdateAction flt now i d
      | ActTerminate \<Rightarrow> (d, doTerminateAction flt je i d))"

text \<open>\<open>backoff\<close> is the delay of the rate limiter. An empty queue blocks.\<close>

definition processWorkItem ::
  "faults \<Rightarrow> job_env \<Rightarrow> timestamp \<Rightarrow> int \<Rightarrow> db \<times> job_sync \<Rightarrow> (db \<times> job_sync) option" where
  "processWorkItem flt je now backoff ds =
     (case ds of (d, s) \<Rightarrow>
        (case JsQueue s of
           [] \<Rightarrow> None
         | i # q \<Rightarrow>
             (case syncJobStatus flt je now i d of
                (d', None) \<Rightarrow> Some (d', s\<lparr>JsQueue := q\<rparr>)
              | (d', Some e) \<Rightarrow>
                  Some (d', s\<lparr>JsQueue := q,
                    JsWaiting := (if SyRetry i < DefaultSyncRetryTimes
                                  then JsWaiting s @ [(now + backoff, i\<lparr>SyRetry := SyRetry i + 1\<rparr>)]
                                  else JsWaiting s)\<rparr>))))"

definition wake_item :: "int \<Rightarrow> nat \<Rightarrow> job_sync \<Rightarrow> job_sync option" where
  "wake_item now k s =
     (if k < length (JsWaiting s) \<and> fst (JsWaiting s ! k) \<le> now
      then Some (enqueue (snd (JsWaiting s ! k)) s\<lparr>JsWaiting := take k (JsWaiting s) @ drop (Suc k) (JsWaiting s)\<rparr>)
      else None)"

section \<open>Garbage collection\<close>

datatype gvk = VCJobGVK | SparkAppGVK

record finished_job =
  FjGVK :: gvk
  FjNamespace :: string
  FjName :: string
  FjOwnerName :: string

type_synonym gc_queue = "(int \<times> finished_job) list"

definition FindOwnerReferenceName :: "'r list \<Rightarrow> string" where
  "FindOwnerReferenceName refs = ''''"

definition isCleanJob :: "reclaim \<Rightarrow> job_status \<Rightarrow> bool" where
  "isCleanJob cfg st =
     (if \<not> CleanJob cfg then False
      else if SkipCleanFailedJob cfg then st = StatusJobSucceeded
      else st = StatusJobSucceeded \<or> st = StatusJobTerminated \<or> st = StatusJobFailed)"

text \<open>No caller sets \<open>LastTransitionTime\<close>; \<open>None\<close> is its zero value.\<close>

definition finishedJobDelayEnqueue :: "reclaim \<Rightarrow> int \<Rightarrow> gvk \<Rightarrow> int option \<Rightarrow> 'p cluster_job \<Rightarrow> gc_queue \<Rightarrow> gc_queue" where
  "finishedJobDelayEnqueue cfg now g lastTransition j q =
     (let duration = (case lastTransition of
            Some t \<Rightarrow> if t + JobTTLSeconds cfg < now then 0 else JobTTLSeconds cfg
          | None \<Rightarrow> JobTTLSeconds cfg)
      in q @ [(now + duration, \<lparr>FjGVK = g, FjNamespace = KjNamespace j, FjName = KjName j,
               FjOwnerName = FindOwnerReferenceName ([] :: string list)\<rparr>)])"

text \<open>The state the old object has; there is none when the server looks at what it finds at its start.\<close>

definition old_state :: "'p \<Rightarrow> 'p cluster_job k8s_obj option \<Rightarrow> 'p option option" where
  "old_state zero old =
     (case old of
        None \<Rightarrow> Some (Some zero)
      | Some obj \<Rightarrow> map_option (map_option KjState) (convert_obj obj))"

definition gc_updateVCJob ::
  "reclaim \<Rightarrow> int \<Rightarrow> vc_phase cluster_job k8s_obj option \<Rightarrow> vc_phase cluster_job k8s_obj \<Rightarrow> gc_queue \<Rightarrow> gc_queue option" where
  "gc_updateVCJob cfg now old new q =
     (case old_state (VCOther '''') old of
        None \<Rightarrow> None
      | Some None \<Rightarrow> Some q
      | Some (Some oldPhase) \<Rightarrow>
          (case convert_obj new of
             None \<Rightarrow> None
           | Some None \<Rightarrow> Some q
           | Some (Some j) \<Rightarrow>
               if KjState j \<noteq> oldPhase \<and> KjState j \<noteq> VCOther '''' \<and> isCleanJob cfg (status_of (GetVCJobStatus (KjState j)))
               then Some (finishedJobDelayEnqueue cfg now VCJobGVK None j q) else Some q))"

definition gc_updateSparkApp ::
  "reclaim \<Rightarrow> int \<Rightarrow> spark_state cluster_job k8s_obj option \<Rightarrow> spark_state cluster_job k8s_obj \<Rightarrow> gc_queue \<Rightarrow> gc_queue option" where
  "gc_updateSparkApp cfg now old new q =
     (case old_state '''' old of
        None \<Rightarrow> None
      | Some None \<Rightarrow> Some q
      | Some (Some oldState) \<Rightarrow>
          (case convert_obj new of
             None \<Rightarrow> None
           | Some None \<Rightarrow> Some q
           | Some (Some j) \<Rightarrow>
               if KjState j \<noteq> oldState \<and> isCleanJob cfg (status_of (GetSparkJobStatus (KjState j)))
               then Some (finishedJobDelayEnqueue cfg now SparkAppGVK None j q) else Some q))"

fun preCleanVCJob :: "reclaim \<Rightarrow> int \<Rightarrow> vc_phase cluster_job k8s_obj list \<Rightarrow> gc_queue \<Rightarrow> gc_queue option" where
  "preCleanVCJob cfg now [] q = Some q"
| "preCleanVCJob cfg now (j # js) q =
     (case gc_updateVCJob cfg now None j q of None \<Rightarrow> None | Some q' \<Rightarrow> preCleanVCJob cfg now js q')"

fun preCleanSparkApp :: "reclaim \<Rightarrow> int \<Rightarrow> spark_state cluster_job k8s_obj list \<Rightarrow> gc_queue \<Rightarrow> gc_queue option" where
  "preCleanSparkApp cfg now [] q = Some q"
| "preCleanSparkApp cfg now (j # js) q =
     (case gc_updateSparkApp cfg now None j q of None \<Rightarrow> None | Some q' \<Rightarrow> preCleanSparkApp cfg now js q')"

text \<open>An item whose time has come; the deletion succeeds or not, the item is gone. The result holds what
  was deleted.\<close>

definition gc_processWorkItem ::
  "(gvk \<Rightarrow> bool) \<Rightarrow> bool \<Rightarrow> int \<Rightarrow> nat \<Rightarrow> gc_queue \<Rightarrow> (gc_queue \<times> finished_job list) option" where
  "gc_processWorkItem known deleted now k q =
     (if k < length q \<and> fst (q ! k) \<le> now
      then Some (take k q @ drop (Suc k) q, if known (FjGVK (snd (q ! k))) \<and> deleted then [snd (q ! k)] else [])
      else None)"

section \<open>The controllers as a machine\<close>

text \<open>The API server creates jobs (\<open>SaCreate\<close>); the events are those client-go delivers: the filtered
  handlers run only on objects for which the filter answers yes.\<close>

record sync_env =
  SeJob :: job_env
  SeServer :: server_config
  SeReclaim :: reclaim
  SeKnown :: "gvk \<Rightarrow> bool"

record sync_sys =
  SsDb :: db
  SsSync :: job_sync
  SsClean :: gc_queue
  SsCleaned :: "finished_job list"

datatype sync_act =
    SaCreate faults timestamp conf
  | SaAddVC "vc_phase cluster_job k8s_obj"
  | SaUpdateVC "vc_phase cluster_job k8s_obj" "vc_phase cluster_job k8s_obj"
  | SaDeleteVC "vc_phase cluster_job k8s_obj"
  | SaAddSpark "spark_state cluster_job k8s_obj"
  | SaUpdateSpark "spark_state cluster_job k8s_obj" "spark_state cluster_job k8s_obj"
  | SaDeleteSpark "spark_state cluster_job k8s_obj"
  | SaPod int "pod k8s_obj" "pod k8s_obj"
  | SaWork faults timestamp int
  | SaWake int nat
  | SaGcVC int "vc_phase cluster_job k8s_obj option" "vc_phase cluster_job k8s_obj"
  | SaGcSpark int "spark_state cluster_job k8s_obj option" "spark_state cluster_job k8s_obj"
  | SaPreClean int "vc_phase cluster_job k8s_obj list" "spark_state cluster_job k8s_obj list"
  | SaGcWork bool int nat

definition on_sync :: "(job_sync \<Rightarrow> job_sync option) \<Rightarrow> sync_sys \<Rightarrow> sync_sys option" where
  "on_sync f s = map_option (\<lambda>j. s\<lparr>SsSync := j\<rparr>) (f (SsSync s))"

definition on_gc :: "(gc_queue \<Rightarrow> gc_queue option) \<Rightarrow> sync_sys \<Rightarrow> sync_sys option" where
  "on_gc f s = map_option (\<lambda>q. s\<lparr>SsClean := q\<rparr>) (f (SsClean s))"

definition when_filtered :: "bool option \<Rightarrow> sync_sys option \<Rightarrow> sync_sys option" where
  "when_filtered b r = (if b = Some True then r else None)"

fun sync_step :: "sync_env \<Rightarrow> sync_act \<Rightarrow> sync_sys \<Rightarrow> sync_sys option" where
  "sync_step e (SaCreate flt now c) s =
     (case CreateJob flt (SeServer e) (SeJob e) now c (SsDb s) of (r, c', d') \<Rightarrow> Some (s\<lparr>SsDb := d'\<rparr>))"
| "sync_step e (SaAddVC obj) s = when_filtered (responsibleForVCJob obj) (on_sync (addVCJob obj) s)"
| "sync_step e (SaUpdateVC old new) s =
     when_filtered (responsibleForVCJob old) (when_filtered (responsibleForVCJob new) (on_sync (updateVCJob old new) s))"
| "sync_step e (SaDeleteVC obj) s = when_filtered (responsibleForVCJob obj) (on_sync (deleteVCJob obj) s)"
| "sync_step e (SaAddSpark obj) s = when_filtered (responsibleForSparkJob obj) (on_sync (addSparkJob obj) s)"
| "sync_step e (SaUpdateSpark old new) s =
     when_filtered (responsibleForSparkJob old) (when_filtered (responsibleForSparkJob new) (on_sync (updateSparkJob old new) s))"
| "sync_step e (SaDeleteSpark obj) s = when_filtered (responsibleForSparkJob obj) (on_sync (deleteSparkJob obj) s)"
| "sync_step e (SaPod now old new) s = on_sync (updatePod (SeReclaim e) now old new) s"
| "sync_step e (SaWork flt now backoff) s =
     map_option (\<lambda>(d, j). s\<lparr>SsDb := d, SsSync := j\<rparr>) (processWorkItem flt (SeJob e) now backoff (SsDb s, SsSync s))"
| "sync_step e (SaWake now k) s = on_sync (wake_item now k) s"
| "sync_step e (SaGcVC now old new) s = on_gc (gc_updateVCJob (SeReclaim e) now old new) s"
| "sync_step e (SaGcSpark now old new) s = on_gc (gc_updateSparkApp (SeReclaim e) now old new) s"
| "sync_step e (SaPreClean now vcs sparks) s =
     (if CleanJob (SeReclaim e)
      then on_gc (\<lambda>q. case preCleanVCJob (SeReclaim e) now vcs q of None \<Rightarrow> None | Some q' \<Rightarrow> preCleanSparkApp (SeReclaim e) now sparks q') s
      else Some s)"
| "sync_step e (SaGcWork deleted now k) s =
     (if CleanJob (SeReclaim e)
      then map_option (\<lambda>(q, fs). s\<lparr>SsClean := q, SsCleaned := SsCleaned s @ fs\<rparr>)
             (gc_processWorkItem (SeKnown e) deleted now k (SsClean s))
      else None)"

section \<open>Effect on the job table\<close>

definition rows_evolve :: "db \<Rightarrow> db \<Rightarrow> bool" where
  "rows_evolve d d' =
     (\<forall>j\<in>set (tJob d). \<exists>j'\<in>set (tJob d'). JrID j' = JrID j \<and> (IsImmutableJobStatus (JrStatus j) \<longrightarrow> JrStatus j' = JrStatus j))"

lemma rows_evolve_refl [simp]: "rows_evolve d d"
  by (auto simp: rows_evolve_def)

lemma rows_evolve_trans: "rows_evolve d1 d2 \<Longrightarrow> rows_evolve d2 d3 \<Longrightarrow> rows_evolve d1 d3"
  unfolding rows_evolve_def by metis

lemma UpdateJob_rows:
  "snd (UpdateJob flt now jid st i m d) = d \<or>
   (\<exists>r\<in>set (tJob d). JrID r = jid \<and> snd (UpdateJob flt now jid st i m d) = save_job jid (updated_job now st i m r) d)"
  by (cases "GetJobByID flt jid d") (auto simp: UpdateJob_def Let_def dest: GetJobByID_mem)

lemma unique_row: "job_ids_unique d \<Longrightarrow> r \<in> set (tJob d) \<Longrightarrow> j \<in> set (tJob d) \<Longrightarrow> JrID r = JrID j \<Longrightarrow> r = j"
  by (auto simp: job_ids_unique_def distinct_map inj_on_def)

lemma UpdateJob_evolves:
  assumes "job_ids_unique d"
  shows "job_ids_unique (snd (UpdateJob flt now jid st i m d)) \<and> rows_evolve d (snd (UpdateJob flt now jid st i m d))"
proof
  show "job_ids_unique (snd (UpdateJob flt now jid st i m d))"
    using assms UpdateJob_ids [of flt now jid st i m d] by (simp add: job_ids_unique_def)
  consider (same) "snd (UpdateJob flt now jid st i m d) = d"
    | (saved) r where "r \<in> set (tJob d)" "JrID r = jid"
        "snd (UpdateJob flt now jid st i m d) = save_job jid (updated_job now st i m r) d"
    using UpdateJob_rows [of flt now jid st i m d] by blast
  then show "rows_evolve d (snd (UpdateJob flt now jid st i m d))"
  proof cases
    case saved
    have "\<exists>j'\<in>set (tJob (save_job jid (updated_job now st i m r) d)). JrID j' = JrID j \<and>
        (IsImmutableJobStatus (JrStatus j) \<longrightarrow> JrStatus j' = JrStatus j)" if j: "j \<in> set (tJob d)" for j
    proof (cases "JrID j = jid")
      case True
      then have "r = j" using unique_row [OF assms saved(1) j] saved(2) by simp
      then show ?thesis using saved(1,2) by (intro bexI [of _ "updated_job now st i m r"]) (auto simp: updated_job_status)
    next
      case False
      then show ?thesis using j by (intro bexI [of _ j]) auto
    qed
    then show ?thesis unfolding rows_evolve_def saved(3) by blast
  qed simp
qed

lemma syncJobStatus_evolves:
  assumes "job_ids_unique d" and "syncJobStatus flt je now i d = (d', err)"
  shows "job_ids_unique d' \<and> rows_evolve d d'"
  using assms(2) UpdateJob_evolves [OF assms(1)] assms(1)
  by (auto simp: syncJobStatus_def doDeleteAction_def doUpdateAction_def split: action_on_job.splits prod.splits)
     (metis snd_conv)+

lemma processWorkItem_evolves:
  assumes "job_ids_unique d" and "processWorkItem flt je now backoff (d, s) = Some (d', s')"
  shows "job_ids_unique d' \<and> rows_evolve d d'"
  using assms(2) syncJobStatus_evolves [OF assms(1)]
  by (auto simp: processWorkItem_def split: list.splits prod.splits option.splits)

lemma CreateJob_evolves:
  assumes "job_ids_unique d" and "CreateJob flt sc je now c d = (r, c', d')"
  shows "job_ids_unique d' \<and> rows_evolve d d'"
proof (cases r)
  case (Inl e)
  then have "d' = d" using assms(2) CreateJob_Inl by blast
  then show ?thesis using assms(1) by simp
next
  case (Inr jid)
  then have cj: "CreateJob flt sc je now c d = (Inr jid, c', d')" using assms(2) by simp
  have "jid \<notin> JrID ` set (tJob d)" "tJob d' = tJob d @ [new_job_row now jid c']"
    using CreateJob_Inr(3,4) [OF cj] by simp_all
  then show ?thesis using assms(1) by (auto simp: job_ids_unique_def rows_evolve_def new_job_row_def)
qed

definition table_since :: "db \<Rightarrow> sync_sys \<Rightarrow> bool" where
  "table_since d0 s = (job_ids_unique (SsDb s) \<and> rows_evolve d0 (SsDb s))"

lemma when_filtered_Some: "when_filtered b r = Some s \<Longrightarrow> r = Some s"
  by (simp add: when_filtered_def split: if_splits)

lemma on_sync_db: "on_sync f s = Some s' \<Longrightarrow> SsDb s' = SsDb s \<and> SsClean s' = SsClean s \<and> SsCleaned s' = SsCleaned s"
  by (auto simp: on_sync_def)

lemma on_gc_db: "on_gc f s = Some s' \<Longrightarrow> SsDb s' = SsDb s \<and> SsCleaned s' = SsCleaned s \<and> f (SsClean s) = Some (SsClean s')"
  by (auto simp: on_gc_def)

lemma step_table:
  assumes "table_since d0 s" and st: "sync_step e a s = Some s'"
  shows "table_since d0 s'"
proof (cases a)
  case (SaCreate flt now c)
  then show ?thesis
    using st assms CreateJob_evolves rows_evolve_trans
    by (fastforce simp: table_since_def split: prod.splits)
next
  case (SaWork flt now backoff)
  then obtain d j where "processWorkItem flt (SeJob e) now backoff (SsDb s, SsSync s) = Some (d, j)" "SsDb s' = d"
    using st by auto
  then show ?thesis
    using assms(1) processWorkItem_evolves rows_evolve_trans unfolding table_since_def by blast
qed (use assms in \<open>auto simp: table_since_def split: if_splits dest!: when_filtered_Some on_sync_db on_gc_db\<close>)

interpretation job_sync: step_machine "sync_step e" "\<lambda>a. True" "table_since d0"
  by unfold_locales (rule step_table)

text \<open>
  C18: The final status of a job survives everything the controllers do. In every state that any interleaving
  of job creation, cluster events, queue processing, retries and garbage collection reaches, with any
  failures of the database and of Kubernetes, a job that had succeeded, failed or been terminated is still
  in the table with that status, no job has vanished, and the IDs are unique.
\<close>

theorem final_job_status_survives:
  assumes "reached (sync_step e) (\<lambda>a. True) s0 s" and "job_ids_unique (SsDb s0)" and "j \<in> set (tJob (SsDb s0))"
  shows "job_ids_unique (SsDb s) \<and>
    (\<exists>j'\<in>set (tJob (SsDb s)). JrID j' = JrID j \<and> (IsImmutableJobStatus (JrStatus j) \<longrightarrow> JrStatus j' = JrStatus j))"
proof -
  have "table_since (SsDb s0) s0" using assms(2) by (simp add: table_since_def)
  then have "table_since (SsDb s0) s" by (rule job_sync.reached_inv [OF assms(1)])
  then show ?thesis using assms(3) by (simp add: table_since_def rows_evolve_def)
qed

section \<open>The queue delivers the status\<close>

text \<open>The specification of a job status: a final one stays, an empty one changes nothing.\<close>

definition next_status :: "job_status \<Rightarrow> job_status \<Rightarrow> job_status" where
  "next_status st t = (if t = StatusJobNone \<or> IsImmutableJobStatus st then st else t)"

definition reported_status :: "sync_info \<Rightarrow> job_status" where
  "reported_status i =
     (case SyAction i of ActDelete \<Rightarrow> StatusJobTerminated | ActUpdate \<Rightarrow> SyStatus i | ActTerminate \<Rightarrow> StatusJobNone)"

lemma first_row_unique:
  assumes "distinct (map f rows)" and "j \<in> set rows"
  shows "first_row (\<lambda>r. f r = f j) rows = Inr j"
proof -
  have "find (\<lambda>r. f r = f j) rows = Some j"
    using assms by (induction rows) (auto simp: image_iff)
  then show ?thesis by (simp add: first_row_def)
qed

lemma UpdateJob_found:
  assumes "job_ids_unique d" and "j \<in> set (tJob d)" and "JrID j = jid"
  shows "UpdateJob (\<lambda>_. False) now jid st i m d = (Inr (JrStatus (updated_job now st i m j)), save_job jid (updated_job now st i m j) d)"
proof -
  have "GetJobByID (\<lambda>_. False) jid d = Inr j"
    using first_row_unique [of JrID "tJob d" j] assms by (simp add: GetJobByID_def job_ids_unique_def)
  then show ?thesis by (simp add: UpdateJob_def Let_def)
qed

lemma UpdateJob_other:
  assumes "j \<in> set (tJob d)" and "JrID j \<noteq> jid"
  shows "j \<in> set (tJob (snd (UpdateJob flt now jid st i m d)))"
  using assms UpdateJob_rows [of flt now jid st i m d] by auto

lemma UpdateJob_status:
  assumes "job_ids_unique d" and "j \<in> set (tJob d)"
  shows "\<exists>j'\<in>set (tJob (snd (UpdateJob (\<lambda>_. False) now jid st i m d))). JrID j' = JrID j \<and>
    JrStatus j' = (if jid = JrID j then next_status (JrStatus j) st else JrStatus j)"
proof (cases "jid = JrID j")
  case True
  then show ?thesis
    using UpdateJob_found [OF assms] assms(2)
    by (intro bexI [of _ "updated_job now st i m j"]) (auto simp: updated_job_status next_status_def)
next
  case False
  then show ?thesis using UpdateJob_other [OF assms(2)] by (intro bexI [of _ j]) auto
qed

lemma syncJobStatus_status:
  assumes "job_ids_unique d" and "j \<in> set (tJob d)"
  shows "\<exists>j'\<in>set (tJob (fst (syncJobStatus (\<lambda>_. False) je now i d))). JrID j' = JrID j \<and>
    JrStatus j' = (if SyID i = JrID j then next_status (JrStatus j) (reported_status i) else JrStatus j)"
proof (cases "SyAction i")
  case ActUpdate
  then show ?thesis
    using UpdateJob_status [OF assms, of now "SyID i" "SyStatus i" "SyRuntime i" "SyMessage i"]
    by (simp only: syncJobStatus_def doUpdateAction_def reported_status_def case_prod_beta action_on_job.case fst_conv)
next
  case ActDelete
  then show ?thesis
    using UpdateJob_status [OF assms, of now "SyID i" StatusJobTerminated "SyRuntime i" "''''"]
    by (simp only: syncJobStatus_def doDeleteAction_def reported_status_def case_prod_beta action_on_job.case fst_conv)
next
  case ActTerminate
  then show ?thesis using assms(2)
    by (intro bexI [of _ j]) (auto simp: syncJobStatus_def reported_status_def next_status_def)
qed

lemma work_one:
  assumes "JsQueue (SsSync s) = i # q"
  shows "\<exists>s1. sync_step e (SaWork flt now backoff) s = Some s1 \<and> JsQueue (SsSync s1) = q \<and>
    SsDb s1 = fst (syncJobStatus flt (SeJob e) now i (SsDb s))"
  using assms by (auto simp: processWorkItem_def split: prod.splits option.splits)

text \<open>
  C19: The work queue refines the specification of a job status. When the worker processes what is queued, in
  order, and no call of the data base fails, every job ends with the status that results from folding
  the reported ones over its status: the first final status, if there is any, and the last non-empty one
  otherwise; the deletion of the object counts as terminated, and a request to stop it as nothing.
\<close>

theorem sync_queue_refines_status:
  assumes "job_ids_unique (SsDb s)" and "j \<in> set (tJob (SsDb s))"
  shows "\<exists>s'. run_acts (sync_step e) (replicate (length (JsQueue (SsSync s))) (SaWork (\<lambda>_. False) now backoff)) s = Some s' \<and>
    JsQueue (SsSync s') = [] \<and>
    (\<exists>j'\<in>set (tJob (SsDb s')). JrID j' = JrID j \<and>
       JrStatus j' = foldl next_status (JrStatus j)
         (map reported_status (filter (\<lambda>i. SyID i = JrID j) (JsQueue (SsSync s)))))"
  using assms
proof (induction "JsQueue (SsSync s)" arbitrary: s j)
  case Nil
  from this(1) [symmetric] Nil.prems show ?case by auto
next
  case (Cons i q)
  obtain s1 where s1: "sync_step e (SaWork (\<lambda>_. False) now backoff) s = Some s1" "JsQueue (SsSync s1) = q"
    "SsDb s1 = fst (syncJobStatus (\<lambda>_. False) (SeJob e) now i (SsDb s))"
    using work_one [OF Cons.hyps(2) [symmetric]] by blast
  obtain j1 where j1: "j1 \<in> set (tJob (SsDb s1))" "JrID j1 = JrID j"
    "JrStatus j1 = (if SyID i = JrID j then next_status (JrStatus j) (reported_status i) else JrStatus j)"
    using syncJobStatus_status [OF Cons.prems, of "SeJob e" now i] unfolding s1(3) by blast
  have "job_ids_unique (SsDb s1)"
    using syncJobStatus_evolves [OF Cons.prems(1)] unfolding s1(3) by (metis prod.collapse)
  from Cons.hyps(1) [OF s1(2) [symmetric] this j1(1)]
  obtain s' where "run_acts (sync_step e) (replicate (length q) (SaWork (\<lambda>_. False) now backoff)) s1 = Some s'"
    "JsQueue (SsSync s') = []"
    "\<exists>j'\<in>set (tJob (SsDb s')). JrID j' = JrID j \<and>
       JrStatus j' = foldl next_status (JrStatus j1) (map reported_status (filter (\<lambda>i. SyID i = JrID j) q))"
    unfolding s1(2) j1(2) by blast
  then show ?case
    using s1(1) j1(3) by (auto simp flip: Cons.hyps(2) simp del: sync_step.simps)
qed

text \<open>
  A status whose update cannot be saved is lost. \<open>UpdateJob\<close> returns the error of the lookup, which is
  nil, so the worker takes the update for done: the item leaves the queue, nothing is scheduled for a
  retry, and the row keeps its old status, also when the item reported that the job had ended.
\<close>

theorem failed_save_is_forgotten:
  assumes "JsQueue (SsSync s) = i # q" and "SyAction i \<noteq> ActTerminate"
    and "r \<in> set (tJob (SsDb s))" and "JrID r = SyID i" and "\<not> flt DbGetJob" and "flt DbSaveJob"
  shows "sync_step e (SaWork flt now backoff) s = Some (s\<lparr>SsSync := (SsSync s)\<lparr>JsQueue := q\<rparr>\<rparr>)"
proof -
  have "find (\<lambda>j. JrID j = SyID i) (tJob (SsDb s)) \<noteq> None" using assms(3,4) by (auto simp: find_None_iff)
  then obtain r' where "GetJobByID flt (SyID i) (SsDb s) = Inr r'"
    using assms(5) by (auto simp: GetJobByID_def first_row_def)
  then have "syncJobStatus flt (SeJob e) now i (SsDb s) = (SsDb s, None)"
    using assms(2,6)
    by (cases "SyAction i")
       (simp_all add: syncJobStatus_def doUpdateAction_def doDeleteAction_def UpdateJob_def Let_def error_of_def)
  then show ?thesis using assms(1) by (simp add: processWorkItem_def)
qed

section \<open>Pods that cannot start\<close>

text \<open>
  A pod whose init container cannot start is never stopped. While it waits, the first container of the
  pod waits with the reason \<open>PodInitializing\<close>; the second loop of \<open>updatePod\<close> overwrites what the first one
  found. Whatever the init containers report (an image that cannot be pulled, say), the job only gets
  the message of that container, and no termination is scheduled.
\<close>

theorem init_failure_masked:
  assumes "mget (PoLabels old) VolcanoJobNameLabel \<noteq> None" and "mget (PoLabels new) VolcanoJobNameLabel = Some job"
    and "PoPhase new = ''Pending''" and "PoContainers new = c # cs" and "KcWaiting c = Some (PodInitializing, msg)"
  shows "updatePod cfg now (Unstructured old) (Unstructured new) s =
    Some (enqueue \<lparr>SyID = job, SyStatus = StatusJobNone, SyRuntime = None, SyMessage = PodInitializing @ '':'' @ msg,
      SyType = '''', SyAction = ActUpdate, SyRetry = 0\<rparr> s)"
  using assms by (auto simp: updatePod_def isValidWaitingState_def Let_def split: prod.splits)

section \<open>Garbage collection\<close>

text \<open>The objects of Volcano and Spark an action shows to the collector.\<close>

fun seen_vc :: "sync_act \<Rightarrow> vc_phase cluster_job k8s_obj list" where
  "seen_vc (SaGcVC now old new) = [new]"
| "seen_vc (SaPreClean now vcs sparks) = vcs"
| "seen_vc _ = []"

fun seen_spark :: "sync_act \<Rightarrow> spark_state cluster_job k8s_obj list" where
  "seen_spark (SaGcSpark now old new) = [new]"
| "seen_spark (SaPreClean now vcs sparks) = sparks"
| "seen_spark _ = []"

definition finished_vc :: "reclaim \<Rightarrow> vc_phase cluster_job k8s_obj set \<Rightarrow> finished_job \<Rightarrow> bool" where
  "finished_vc cfg seen f =
     (FjGVK f = VCJobGVK \<and> (\<exists>j. Unstructured j \<in> seen \<and> KjName j = FjName f \<and> KjNamespace j = FjNamespace f \<and>
        isCleanJob cfg (status_of (GetVCJobStatus (KjState j)))))"

definition finished_spark :: "reclaim \<Rightarrow> spark_state cluster_job k8s_obj set \<Rightarrow> finished_job \<Rightarrow> bool" where
  "finished_spark cfg seen f =
     (FjGVK f = SparkAppGVK \<and> (\<exists>j. Unstructured j \<in> seen \<and> KjName j = FjName f \<and> KjNamespace j = FjNamespace f \<and>
        isCleanJob cfg (status_of (GetSparkJobStatus (KjState j)))))"

definition finished_obj :: "reclaim \<Rightarrow> sync_act set \<Rightarrow> finished_job \<Rightarrow> bool" where
  "finished_obj cfg acts f =
     (finished_vc cfg (\<Union>a\<in>acts. set (seen_vc a)) f \<or> finished_spark cfg (\<Union>a\<in>acts. set (seen_spark a)) f)"

lemma gc_updateVCJob_new:
  assumes "gc_updateVCJob cfg now old new q = Some q'" and "x \<in> set q'"
  shows "x \<in> set q \<or> finished_vc cfg {new} (snd x)"
  using assms
  by (cases new) (auto simp: gc_updateVCJob_def finishedJobDelayEnqueue_def finished_vc_def split: option.splits if_splits)

lemma gc_updateSparkApp_new:
  assumes "gc_updateSparkApp cfg now old new q = Some q'" and "x \<in> set q'"
  shows "x \<in> set q \<or> finished_spark cfg {new} (snd x)"
  using assms
  by (cases new) (auto simp: gc_updateSparkApp_def finishedJobDelayEnqueue_def finished_spark_def split: option.splits if_splits)

lemma finished_vc_mono: "finished_vc cfg A f \<Longrightarrow> A \<subseteq> B \<Longrightarrow> finished_vc cfg B f"
  unfolding finished_vc_def by blast

lemma finished_spark_mono: "finished_spark cfg A f \<Longrightarrow> A \<subseteq> B \<Longrightarrow> finished_spark cfg B f"
  unfolding finished_spark_def by blast

lemma preCleanVCJob_new:
  "preCleanVCJob cfg now js q = Some q' \<Longrightarrow> x \<in> set q' \<Longrightarrow> x \<in> set q \<or> finished_vc cfg (set js) (snd x)"
proof (induction js arbitrary: q)
  case (Cons j js)
  then obtain q1 where q1: "gc_updateVCJob cfg now None j q = Some q1" "preCleanVCJob cfg now js q1 = Some q'"
    by (auto split: option.splits)
  from Cons.IH [OF q1(2) Cons.prems(2)] consider "x \<in> set q1" | "finished_vc cfg (set js) (snd x)" by blast
  then show ?case
  proof cases
    case 1
    then show ?thesis using gc_updateVCJob_new [OF q1(1) 1] finished_vc_mono [of cfg "{j}" _ "set (j # js)"] by auto
  next
    case 2
    then show ?thesis using finished_vc_mono [of cfg "set js" _ "set (j # js)"] by auto
  qed
qed simp

lemma preCleanSparkApp_new:
  "preCleanSparkApp cfg now js q = Some q' \<Longrightarrow> x \<in> set q' \<Longrightarrow> x \<in> set q \<or> finished_spark cfg (set js) (snd x)"
proof (induction js arbitrary: q)
  case (Cons j js)
  then obtain q1 where q1: "gc_updateSparkApp cfg now None j q = Some q1" "preCleanSparkApp cfg now js q1 = Some q'"
    by (auto split: option.splits)
  from Cons.IH [OF q1(2) Cons.prems(2)] consider "x \<in> set q1" | "finished_spark cfg (set js) (snd x)" by blast
  then show ?case
  proof cases
    case 1
    then show ?thesis using gc_updateSparkApp_new [OF q1(1) 1] finished_spark_mono [of cfg "{j}" _ "set (j # js)"] by auto
  next
    case 2
    then show ?thesis using finished_spark_mono [of cfg "set js" _ "set (j # js)"] by auto
  qed
qed simp

definition collects_finished :: "reclaim \<Rightarrow> sync_act set \<Rightarrow> sync_sys \<Rightarrow> bool" where
  "collects_finished cfg acts s =
     ((\<forall>x\<in>set (SsClean s). finished_obj cfg acts (snd x)) \<and> (\<forall>f\<in>set (SsCleaned s). finished_obj cfg acts f))"

lemma finished_obj_mono: "finished_obj cfg A f \<Longrightarrow> A \<subseteq> B \<Longrightarrow> finished_obj cfg B f"
  unfolding finished_obj_def by (meson UN_mono finished_vc_mono finished_spark_mono order_refl)

lemma step_collects:
  assumes c: "collects_finished (SeReclaim e) A s" and st: "sync_step e a s = Some s'"
  shows "collects_finished (SeReclaim e) (insert a A) s'"
proof -
  let ?B = "insert a A" and ?cfg = "SeReclaim e"
  have old: "finished_obj ?cfg ?B (snd x)" if "x \<in> set (SsClean s)" for x
    using c that finished_obj_mono [of ?cfg A _ ?B] by (auto simp: collects_finished_def)
  have gone: "finished_obj ?cfg ?B f" if "f \<in> set (SsCleaned s)" for f
    using c that finished_obj_mono [of ?cfg A _ ?B] by (auto simp: collects_finished_def)
  have vc: "finished_obj ?cfg ?B f" if "finished_vc ?cfg (set (seen_vc a)) f" for f
    using finished_vc_mono [OF that, of "\<Union>a\<in>?B. set (seen_vc a)"] by (auto simp: finished_obj_def)
  have spark: "finished_obj ?cfg ?B f" if "finished_spark ?cfg (set (seen_spark a)) f" for f
    using finished_spark_mono [OF that, of "\<Union>a\<in>?B. set (seen_spark a)"] by (auto simp: finished_obj_def)
  show ?thesis
  proof (cases a)
    case (SaGcVC now before n)
    then have g: "gc_updateVCJob ?cfg now before n (SsClean s) = Some (SsClean s')" "SsCleaned s' = SsCleaned s"
      using st by (auto dest: on_gc_db)
    then show ?thesis using gc_updateVCJob_new [OF g(1)] old gone vc SaGcVC
      unfolding collects_finished_def by (metis list.set(1,2) seen_vc.simps(1))
  next
    case (SaGcSpark now before n)
    then have g: "gc_updateSparkApp ?cfg now before n (SsClean s) = Some (SsClean s')" "SsCleaned s' = SsCleaned s"
      using st by (auto dest: on_gc_db)
    then show ?thesis using gc_updateSparkApp_new [OF g(1)] old gone spark SaGcSpark
      unfolding collects_finished_def by (metis list.set(1,2) seen_spark.simps(1))
  next
    case (SaPreClean now vcs sparks)
    show ?thesis
    proof (cases "CleanJob ?cfg")
      case True
      then obtain q where q: "preCleanVCJob ?cfg now vcs (SsClean s) = Some q"
        "preCleanSparkApp ?cfg now sparks q = Some (SsClean s')" "SsCleaned s' = SsCleaned s"
        using st SaPreClean by (auto dest!: on_gc_db split: option.splits)
      have "finished_obj ?cfg ?B (snd x)" if "x \<in> set (SsClean s')" for x
        using preCleanSparkApp_new [OF q(2) that] preCleanVCJob_new [OF q(1), of x] old [of x] vc [of "snd x"] spark [of "snd x"]
        unfolding SaPreClean by (metis seen_vc.simps(2) seen_spark.simps(2))
      then show ?thesis using q(3) gone by (simp add: collects_finished_def)
    next
      case False
      then show ?thesis using st SaPreClean old gone by (simp add: collects_finished_def)
    qed
  next
    case (SaGcWork deleted now k)
    then obtain q fs where w: "gc_processWorkItem (SeKnown e) deleted now k (SsClean s) = Some (q, fs)"
      "SsClean s' = q" "SsCleaned s' = SsCleaned s @ fs"
      using st by (auto split: if_splits)
    have "set q \<subseteq> set (SsClean s)" "set fs \<subseteq> snd ` set (SsClean s)"
      using w(1) by (auto simp: gc_processWorkItem_def split: if_splits dest: in_set_takeD in_set_dropD)
    then show ?thesis using w old gone by (auto simp: collects_finished_def)
  qed (use st old gone in \<open>auto simp: collects_finished_def dest!: when_filtered_Some on_sync_db split: prod.splits if_splits\<close>)
qed

lemma run_collects:
  "run_acts (sync_step e) as s = Some s' \<Longrightarrow> collects_finished (SeReclaim e) A s \<Longrightarrow> collects_finished (SeReclaim e) (A \<union> set as) s'"
proof (induction as arbitrary: s A)
  case (Cons a as)
  then obtain s1 where s1: "sync_step e a s = Some s1" "run_acts (sync_step e) as s1 = Some s'"
    by (auto split: option.splits)
  from Cons.IH [OF s1(2) step_collects [OF Cons.prems(2) s1(1)]] show ?case by (simp add: Un_commute)
qed simp

text \<open>
  The collector deletes only what has ended. In every run of the controllers from the start of the
  server, each object it deletes was shown to it by an event or by the listing at the start, with
  that name and namespace and with a state that counts as succeeded, failed or terminated (only
  succeeded, if failed jobs are to be kept).
\<close>

theorem gc_deletes_finished:
  assumes "run_acts (sync_step e) acts s0 = Some s" and "SsClean s0 = []" and "SsCleaned s0 = []" and "f \<in> set (SsCleaned s)"
  shows "finished_obj (SeReclaim e) (set acts) f"
proof -
  have "collects_finished (SeReclaim e) {} s0" using assms(2,3) by (simp add: collects_finished_def)
  from run_collects [OF assms(1) this] show ?thesis using assms(4) by (simp add: collects_finished_def)
qed

text \<open>
  The collector does not ask whose job it is. Unlike the controller that updates the job table, it has no
  filter on the owner label: a finished Volcano job of anybody in the cluster is deleted after the
  configured time, whatever its labels are.
\<close>

theorem gc_ignores_owner:
  assumes "CleanJob (SeReclaim e)" and "isCleanJob (SeReclaim e) (status_of (GetVCJobStatus (KjState j)))"
    and "KjState old \<noteq> KjState j" and "SeKnown e VCJobGVK" and "SsClean s = []"
  shows "\<exists>s'. run_acts (sync_step e) [SaGcVC now (Some (Unstructured old)) (Unstructured j), SaGcWork True (now + JobTTLSeconds (SeReclaim e)) 0] s = Some s' \<and>
    \<lparr>FjGVK = VCJobGVK, FjNamespace = KjNamespace j, FjName = KjName j, FjOwnerName = ''''\<rparr> \<in> set (SsCleaned s')"
proof -
  have "KjState j \<noteq> VCOther ''''" using assms(2) by (auto simp: isCleanJob_def status_of_def GetVCJobStatus_def split: if_splits)
  then show ?thesis
    using assms
    by (simp add: on_gc_def gc_updateVCJob_def old_state_def finishedJobDelayEnqueue_def FindOwnerReferenceName_def gc_processWorkItem_def)
qed

section \<open>Witnesses\<close>

definition demo_vcjob :: "string \<Rightarrow> vc_phase \<Rightarrow> vc_phase cluster_job" where
  "demo_vcjob n p = \<lparr>KjName = n, KjNamespace = ''ns'', KjLabels = [(JobOwnerLabel, JobOwnerValue), (JobIDLabel, n)],
     KjVersion = ''1'', KjState = p, KjMessage = ''m'', KjText = ''{}''\<rparr>"

definition demo_sync_env :: sync_env where
  "demo_sync_env = \<lparr>SeJob = demo_env 1, SeServer = demo_server,
     SeReclaim = \<lparr>CleanJob = True, SkipCleanFailedJob = False, JobTTLSeconds = 60, JobPendingTTLSeconds = 0\<rparr>, SeKnown = (\<lambda>_. True)\<rparr>"

definition demo_sync_sys :: sync_sys where
  "demo_sync_sys = \<lparr>SsDb = demo_db\<lparr>tJob := [demo_job ''a'' StatusJobFailed, demo_job ''b'' StatusJobPending]\<rparr>,
     SsSync = \<lparr>JsQueue = [], JsWaiting = []\<rparr>, SsClean = [], SsCleaned = []\<rparr>"

definition demo_sync_acts :: "sync_act list" where
  "demo_sync_acts =
     [SaAddVC (Unstructured (demo_vcjob ''a'' VCRunning)), SaDeleteVC (Unstructured (demo_vcjob ''a'' VCRunning)),
      SaWork (\<lambda>_. False) 5 1, SaWork (\<lambda>_. False) 6 1]"

lemma demo_jobs [simp]:
  "job_ids_unique (SsDb demo_sync_sys)" "tJob (SsDb demo_sync_sys) = [demo_job ''a'' StatusJobFailed, demo_job ''b'' StatusJobPending]"
  "JrID (demo_job i st) = i" "JrStatus (demo_job i st) = st"
  by (simp_all add: job_ids_unique_def demo_sync_sys_def demo_job_def new_job_row_def)

lemma final_job_status_survives_witness:
  "\<exists>s. run_acts (sync_step demo_sync_env) demo_sync_acts demo_sync_sys = Some s \<and>
     (\<exists>j\<in>set (tJob (SsDb s)). JrID j = ''a'' \<and> JrStatus j = StatusJobFailed)"
proof -
  have "run_acts (sync_step demo_sync_env) demo_sync_acts demo_sync_sys \<noteq> None" by code_simp
  then obtain s where s: "run_acts (sync_step demo_sync_env) demo_sync_acts demo_sync_sys = Some s" by blast
  have "list_all (\<lambda>a. True) demo_sync_acts" by (simp add: list_all_iff)
  from reached_acts [OF s this] have "reached (sync_step demo_sync_env) (\<lambda>a. True) demo_sync_sys s" .
  from final_job_status_survives [OF this, of "demo_job ''a'' StatusJobFailed"]
  show ?thesis using s by (auto simp: IsImmutableJobStatus_def)
qed

definition demo_info_of :: "job_status \<Rightarrow> sync_info" where
  "demo_info_of st = job_info (demo_vcjob ''b'' VCRunning) st ActUpdate"

lemma sync_queue_refines_status_witness:
  "\<exists>s'. run_acts (sync_step demo_sync_env) (replicate 3 (SaWork (\<lambda>_. False) 5 1))
      (demo_sync_sys\<lparr>SsSync := \<lparr>JsQueue = [demo_info_of StatusJobRunning, demo_info_of StatusJobSucceeded, demo_info_of StatusJobRunning], JsWaiting = []\<rparr>\<rparr>) = Some s' \<and>
    (\<exists>j\<in>set (tJob (SsDb s')). JrID j = ''b'' \<and> JrStatus j = StatusJobSucceeded)"
proof -
  let ?q = "[demo_info_of StatusJobRunning, demo_info_of StatusJobSucceeded, demo_info_of StatusJobRunning]"
  let ?s = "demo_sync_sys\<lparr>SsSync := \<lparr>JsQueue = ?q, JsWaiting = []\<rparr>\<rparr>"
  have q: "JsQueue (SsSync ?s) = ?q" and d: "SsDb ?s = SsDb demo_sync_sys" by simp_all
  have n: "length ?q = 3" by simp
  have v: "foldl next_status (JrStatus (demo_job ''b'' StatusJobPending))
      (map reported_status (filter (\<lambda>i. SyID i = JrID (demo_job ''b'' StatusJobPending)) ?q)) = StatusJobSucceeded"
    by code_simp
  have "\<exists>s'. run_acts (sync_step demo_sync_env) (replicate (length (JsQueue (SsSync ?s))) (SaWork (\<lambda>_. False) 5 1)) ?s = Some s' \<and>
    JsQueue (SsSync s') = [] \<and>
    (\<exists>j'\<in>set (tJob (SsDb s')). JrID j' = JrID (demo_job ''b'' StatusJobPending) \<and>
       JrStatus j' = foldl next_status (JrStatus (demo_job ''b'' StatusJobPending))
         (map reported_status (filter (\<lambda>i. SyID i = JrID (demo_job ''b'' StatusJobPending)) (JsQueue (SsSync ?s)))))"
    by (rule sync_queue_refines_status) (simp_all only: d demo_jobs, simp)
  then show ?thesis unfolding q v n by (simp only: demo_jobs) blast
qed

lemma failed_save_is_forgotten_witness:
  "sync_step demo_sync_env (SaWork (\<lambda>c. c = DbSaveJob) 5 1)
     (demo_sync_sys\<lparr>SsSync := \<lparr>JsQueue = [demo_info_of StatusJobSucceeded], JsWaiting = []\<rparr>\<rparr>) =
   Some demo_sync_sys"
proof -
  let ?s = "demo_sync_sys\<lparr>SsSync := \<lparr>JsQueue = [demo_info_of StatusJobSucceeded], JsWaiting = []\<rparr>\<rparr>"
  have "sync_step demo_sync_env (SaWork (\<lambda>c. c = DbSaveJob) 5 1) ?s = Some (?s\<lparr>SsSync := (SsSync ?s)\<lparr>JsQueue := []\<rparr>\<rparr>)"
    by (rule failed_save_is_forgotten [of _ "demo_info_of StatusJobSucceeded" _ "demo_job ''b'' StatusJobPending"])
       (simp_all add: demo_info_of_def job_info_def demo_vcjob_def mstr_def)
  then show ?thesis by (simp add: demo_sync_sys_def)
qed

lemma init_failure_masked_witness:
  "updatePod (SeReclaim demo_sync_env) 5
     (Unstructured \<lparr>PoLabels = [(VolcanoJobNameLabel, ''b'')], PoPhase = ''Pending'', PoInit = [], PoContainers = []\<rparr>)
     (Unstructured \<lparr>PoLabels = [(VolcanoJobNameLabel, ''b'')], PoPhase = ''Pending'',
        PoInit = [\<lparr>KcWaiting = Some (''ImagePullBackOff'', ''no such image'')\<rparr>],
        PoContainers = [\<lparr>KcWaiting = Some (PodInitializing, '''')\<rparr>]\<rparr>)
     \<lparr>JsQueue = [], JsWaiting = []\<rparr> =
   Some \<lparr>JsQueue = [\<lparr>SyID = ''b'', SyStatus = StatusJobNone, SyRuntime = None, SyMessage = ''PodInitializing:'',
      SyType = '''', SyAction = ActUpdate, SyRetry = 0\<rparr>], JsWaiting = []\<rparr>"
  by (subst init_failure_masked [where job = "''b''" and msg = "''''" and cs = "[]" and
        c = "\<lparr>KcWaiting = Some (PodInitializing, '''')\<rparr>"]) (simp_all add: enqueue_def PodInitializing_def)

lemma gc_deletes_finished_witness:
  "\<exists>s. run_acts (sync_step demo_sync_env)
       [SaPreClean 3 [Unstructured (demo_vcjob ''a'' VCCompleted), Unstructured (demo_vcjob ''b'' VCRunning)] [], SaGcWork True 70 0] demo_sync_sys = Some s \<and>
     SsCleaned s \<noteq> [] \<and>
     (\<forall>f\<in>set (SsCleaned s). finished_obj (SeReclaim demo_sync_env)
        {SaPreClean 3 [Unstructured (demo_vcjob ''a'' VCCompleted), Unstructured (demo_vcjob ''b'' VCRunning)] [], SaGcWork True 70 0} f)"
proof -
  let ?as = "[SaPreClean 3 [Unstructured (demo_vcjob ''a'' VCCompleted), Unstructured (demo_vcjob ''b'' VCRunning)] [], SaGcWork True 70 0]"
  have "case run_acts (sync_step demo_sync_env) ?as demo_sync_sys of None \<Rightarrow> False | Some s \<Rightarrow> SsCleaned s \<noteq> []" by code_simp
  then obtain s where s: "run_acts (sync_step demo_sync_env) ?as demo_sync_sys = Some s" and n: "SsCleaned s \<noteq> []"
    by (rule case_option_obtain)
  have e: "SsClean demo_sync_sys = []" "SsCleaned demo_sync_sys = []" by (simp_all add: demo_sync_sys_def)
  have "\<forall>f\<in>set (SsCleaned s). finished_obj (SeReclaim demo_sync_env) (set ?as) f"
    using gc_deletes_finished [OF s e] by blast
  then show ?thesis using s n by (auto simp only: list.set)
qed

lemma gc_ignores_owner_witness:
  "\<exists>s'. run_acts (sync_step demo_sync_env)
      [SaGcVC 0 (Some (Unstructured (demo_vcjob ''x'' VCRunning))) (Unstructured ((demo_vcjob ''x'' VCFailed)\<lparr>KjLabels := [(JobOwnerLabel, ''somebody else'')]\<rparr>)),
       SaGcWork True (0 + JobTTLSeconds (SeReclaim demo_sync_env)) 0] demo_sync_sys = Some s' \<and>
    \<lparr>FjGVK = VCJobGVK, FjNamespace = ''ns'', FjName = ''x'', FjOwnerName = ''''\<rparr> \<in> set (SsCleaned s')"
  using gc_ignores_owner [of demo_sync_env "(demo_vcjob ''x'' VCFailed)\<lparr>KjLabels := [(JobOwnerLabel, ''somebody else'')]\<rparr>"
      "demo_vcjob ''x'' VCRunning" demo_sync_sys 0]
  by (simp add: demo_sync_env_def demo_vcjob_def demo_sync_sys_def isCleanJob_def status_of_def GetVCJobStatus_def
      del: sync_step.simps run_acts.simps)

end
