(* ===== verification/PF_FsTables.thy ===== *)
theory PF_FsTables
  imports PF_RunCtl PF_Meta
begin

text \<open>
  The tables of file systems and links (\<open>apiserver/models/pfs.go\<close>, \<open>link.go\<close>) and the helpers of
  \<open>pkg/fs/server/utils/fs\<close>: IDs, URLs, nested paths, Kerberos properties. Times are milliseconds. A marker of
  the list operations is a time cut to seconds, as the format of the code prints it. The \<open>LIKE\<close> of the
  query on addresses is containment.
\<close>

section \<open>Rows\<close>

record fs_row =
  FsID :: string
  FsCreated :: int
  FsUpdated :: int
  FsName :: string
  FsType :: string
  FsServer :: string
  FsSubPath :: string
  FsProps :: "string gomap"
  FsUser :: string

record link_row =
  LkID :: string
  LkCreated :: int
  LkUpdated :: int
  LkFsID :: string
  LkFsPath :: string
  LkServer :: string
  LkSubPath :: string
  LkType :: string
  LkProps :: "string gomap"
  LkUser :: string

record fs_db =
  FdFs :: "fs_row list"
  FdLinks :: "link_row list"
  FdGrants :: "grant_row list"
  FdNextGrant :: int

datatype fs_call =
    FcCreateFs | FcCreateGrant | FcGetFs | FcDeleteFs | FcDeleteLinks | FcListFs | FcGetIDs | FcSimilar
  | FcCreateLink | FcFindLinks | FcFindLink | FcDropLink | FcListLink

type_synonym fs_faults = "fs_call \<Rightarrow> bool"

section \<open>Names, URLs, paths\<close>

abbreviation HDFS :: string where "HDFS \<equiv> ''hdfs''"
abbreviation HDFSWithKerberos :: string where "HDFSWithKerberos \<equiv> ''hdfsWithKerberos''"
abbreviation S3 :: string where "S3 \<equiv> ''s3''"
abbreviation Local :: string where "Local \<equiv> ''local''"
abbreviation SFTP :: string where "SFTP \<equiv> ''sftp''"
abbreviation Mock :: string where "Mock \<equiv> ''mock''"
abbreviation UserRoot :: string where "UserRoot \<equiv> ''root''"

type_synonym properties = "string gomap option"

definition prop_get :: "properties \<Rightarrow> string \<Rightarrow> string" where
  "prop_get p k = (case p of None \<Rightarrow> '''' | Some m \<Rightarrow> mstr m k)"

definition trim_suffix :: "string \<Rightarrow> string \<Rightarrow> string" where
  "trim_suffix s t = (if has_suffix s t then take (length s - length t) s else s)"

definition trim_right :: "char \<Rightarrow> string \<Rightarrow> string" where
  "trim_right c s = rev (dropWhile (\<lambda>x. x = c) (rev s))"

text \<open>A slice from beyond the end panics.\<close>

definition SubPathFromUrl :: "string list \<Rightarrow> nat \<Rightarrow> string option" where
  "SubPathFromUrl urlSplit split =
     (if split \<le> length urlSplit then Some (join_with slash (drop split urlSplit)) else None)"

text \<open>The type, address and path of a URL; for HDFS the address is also stored in the properties of the
  caller, if there are any. \<open>None\<close> is a panic.\<close>

definition InformationFromURL :: "string \<Rightarrow> properties \<Rightarrow> ((string \<times> string \<times> string) \<times> properties) option" where
  "InformationFromURL url properties =
     (let fsType = hd (split_on (CHR '':'') url);
          urlSplit = split_on slash url;
          sub = (\<lambda>n. map_option (\<lambda>p. slash # p) (SubPathFromUrl urlSplit n))
      in if fsType = Local \<or> fsType = Mock
         then map_option (\<lambda>p. ((fsType, '''', p), properties)) (sub 2)
         else if fsType = HDFS
         then (if length urlSplit \<le> 2 then None
               else (let addr = urlSplit ! 2;
                         properties' = map_option (mput ''dfs.namenode.address'' addr) properties
                     in map_option (\<lambda>p. ((if prop_get properties ''kerberos.keytab.data'' \<noteq> '''' then HDFSWithKerberos else HDFS, addr, p), properties'))
                          (sub 3)))
         else if fsType = SFTP
         then (if length urlSplit \<le> 2 then None
               else map_option (\<lambda>p. ((SFTP, urlSplit ! 2, p), properties)) (sub 3))
         else if fsType = S3
         then map_option (\<lambda>p. ((S3, prop_get properties ''endpoint'', p), properties)) (sub 3)
         else Some ((fsType, '''', ''''), properties))"

definition CheckFsNested :: "string \<Rightarrow> string \<Rightarrow> bool" where
  "CheckFsNested path1 path2 =
     (let path1Arr = split_on slash (trim_right slash path1);
          path2Arr = split_on slash (trim_right slash path2);
          minIndex = (if length path1Arr > length path2Arr then length path2Arr else length path1Arr)
      in list_all (\<lambda>index. path1Arr ! index = path2Arr ! index) [0..<minIndex])"

definition NameToFsID :: "string \<Rightarrow> string \<Rightarrow> string" where
  "NameToFsID fsName userName =
     (let fsTemp = split_on (CHR ''-'') fsName;
          fsUserName = trim_suffix (trim_prefix fsName (hd fsTemp @ ''-'')) (''-'' @ last fsTemp)
      in if length fsTemp < 3 \<or> hd fsTemp \<noteq> ''fs'' \<or> (fsUserName \<noteq> userName \<and> userName \<noteq> UserRoot)
         then fs_ID userName fsName else fsName)"

definition FSIDToName :: "string \<Rightarrow> string" where
  "FSIDToName fsID = last (split_on (CHR ''-'') fsID)"

section \<open>Kerberos properties\<close>

text \<open>Standard Base64 with padding: line breaks are skipped, the length is a multiple of four.\<close>

definition base64_char :: "char \<Rightarrow> bool" where
  "base64_char c = (is_lower c \<or> is_upper c \<or> is_digit c \<or> c = CHR ''+'' \<or> c = CHR ''/'')"

definition base64_ok :: "string \<Rightarrow> bool" where
  "base64_ok s =
     (let t = filter (\<lambda>c. c \<noteq> CHR 0x0A \<and> c \<noteq> CHR 0x0D) s;
          body = trim_right (CHR ''='') t;
          pad = length t - length body
      in list_all base64_char body \<and> length t mod 4 = 0 \<and> pad \<le> 2)"

text \<open>The pattern of an address: labels of letters, digits and hyphens, at least two, and a port.\<close>

definition domain_label :: "string \<Rightarrow> bool" where
  "domain_label w =
     (w \<noteq> '''' \<and> length w \<le> 63 \<and> list_all (\<lambda>c. is_lower c \<or> is_upper c \<or> is_digit c \<or> c = CHR ''-'') w \<and> hd w \<noteq> CHR ''-'')"

definition port_text :: "string \<Rightarrow> bool" where
  "port_text w = (w \<noteq> '''' \<and> list_all is_digit w \<and> hd w \<noteq> CHR ''0'' \<and> length w \<le> 5 \<and> digits_val w \<le> 65535)"

definition IPDomainOrIPDomainPortPattern :: "string \<Rightarrow> bool" where
  "IPDomainOrIPDomainPortPattern s =
     (let host = takeWhile (\<lambda>c. c \<noteq> CHR '':'') s;
          rest = dropWhile (\<lambda>c. c \<noteq> CHR '':'') s
      in 2 \<le> length (split_on (CHR ''.'') host) \<and> list_all domain_label (split_on (CHR ''.'') host) \<and>
         (rest = '''' \<or> port_text (tl rest)))"

definition CheckKerberosProperties :: "string gomap \<Rightarrow> bool" where
  "CheckKerberosProperties p =
     (mstr p ''kerberos.principal'' \<noteq> '''' \<and> mstr p ''kerberos.keytab.data'' \<noteq> '''' \<and>
      mstr p ''kerberos.data.transfer.protection'' \<noteq> '''' \<and> base64_ok (mstr p ''kerberos.keytab.data'') \<and>
      (case mget p ''kerberos.kdc'' of
         None \<Rightarrow> False
       | Some kdcs \<Rightarrow> list_all IPDomainOrIPDomainPortPattern (split_on (CHR '','') kdcs)) \<and>
      mget p ''kerberos.namenode.principal'' \<noteq> None \<and>
      (case mget p ''kerberos.realm'' of
         None \<Rightarrow> False
       | Some realm \<Rightarrow> \<not> (CHR ''@'' \<in> set (mstr p ''kerberos.namenode.principal'') \<and>
           \<not> has_suffix (mstr p ''kerberos.namenode.principal'') (''@'' @ realm))))"

section \<open>File systems\<close>

definition GrantFsType :: string where "GrantFsType = ''fs''"

definition CreatFileSystem :: "fs_faults \<Rightarrow> int \<Rightarrow> string \<Rightarrow> fs_row \<Rightarrow> fs_db \<Rightarrow> fs_db option" where
  "CreatFileSystem flt now grantID fs d =
     (if flt FcCreateFs \<or> FsID fs \<in> FsID ` set (FdFs d) then None
      else if flt FcCreateGrant then None
      else Some (d\<lparr>FdFs := FdFs d @ [fs\<lparr>FsCreated := now, FsUpdated := now\<rparr>],
        FdGrants := FdGrants d @ [\<lparr>GrPk = FdNextGrant d, GrID = grantID, GrUserName = FsUser fs,
          GrResourceType = GrantFsType, GrResourceID = FsID fs\<rparr>],
        FdNextGrant := FdNextGrant d + 1\<rparr>))"

text \<open>A field of a condition that is empty does not count. \<open>Find\<close> of one row leaves it empty when there
  is none, which is no error.\<close>

definition cond :: "string \<Rightarrow> string \<Rightarrow> bool" where
  "cond v x = (v = '''' \<or> v = x)"

definition GetFileSystemWithFsID :: "fs_faults \<Rightarrow> string \<Rightarrow> fs_db \<Rightarrow> unit + fs_row option" where
  "GetFileSystemWithFsID flt fsID d =
     (if flt FcGetFs then Inl () else Inr (find (\<lambda>r. cond fsID (FsID r)) (FdFs d)))"

definition GetFileSystemWithFsIDAndUserName :: "fs_faults \<Rightarrow> string \<Rightarrow> string \<Rightarrow> fs_db \<Rightarrow> unit + fs_row option" where
  "GetFileSystemWithFsIDAndUserName flt fsID userName d =
     (if flt FcGetFs then Inl ()
      else Inr (find (\<lambda>r. cond fsID (FsID r) \<and> cond userName (FsUser r)) (FdFs d)))"

definition model_DeleteFileSystem :: "fs_faults \<Rightarrow> string \<Rightarrow> fs_db \<Rightarrow> fs_db option" where
  "model_DeleteFileSystem flt fsID d =
     (if flt FcDeleteFs \<or> flt FcDeleteLinks then None
      else Some (d\<lparr>FdFs := filter (\<lambda>r. FsID r \<noteq> fsID) (FdFs d), FdLinks := filter (\<lambda>l. LkFsID l \<noteq> fsID) (FdLinks d)\<rparr>))"

text \<open>Newest first; the rows of one moment come in reverse order of insertion.\<close>

definition newest_first :: "('r \<Rightarrow> int) \<Rightarrow> 'r list \<Rightarrow> 'r list" where
  "newest_first created rows = rev (sort_key created rows)"

definition model_ListFileSystem :: "fs_faults \<Rightarrow> int \<Rightarrow> string \<Rightarrow> int \<Rightarrow> string \<Rightarrow> fs_db \<Rightarrow> fs_row list option" where
  "model_ListFileSystem flt maxRows userName marker fsName d =
     (if flt FcListFs then None
      else Some (limit_rows maxRows (newest_first FsCreated
             (filter (\<lambda>r. cond userName (FsUser r) \<and> cond fsName (FsName r) \<and> FsCreated r \<le> marker) (FdFs d)))))"

definition GetFsWithIDs :: "fs_faults \<Rightarrow> string list \<Rightarrow> fs_db \<Rightarrow> fs_row list option" where
  "GetFsWithIDs flt fsIDs d = (if flt FcGetIDs then None else Some (filter (\<lambda>r. FsID r \<in> set fsIDs) (FdFs d)))"

text \<open>The conditions are chained as \<open>a OR b AND type = t\<close>, so the type restricts the last address only.\<close>

fun similar_address :: "string \<Rightarrow> string list \<Rightarrow> fs_row \<Rightarrow> bool" where
  "similar_address fsType [] r = (FsType r = fsType)"
| "similar_address fsType [ip] r = (str_contains (FsServer r) ip \<and> FsType r = fsType)"
| "similar_address fsType (ip # ips) r = (str_contains (FsServer r) ip \<or> similar_address fsType ips r)"

definition GetSimilarityAddressList :: "fs_faults \<Rightarrow> string \<Rightarrow> string list \<Rightarrow> fs_db \<Rightarrow> fs_row list option" where
  "GetSimilarityAddressList flt fsType ips d =
     (if flt FcSimilar then None else Some (filter (similar_address fsType ips) (FdFs d)))"

section \<open>Links\<close>

text \<open>\<open>linkID\<close> is the new UUID of \<open>BeforeCreate\<close>.\<close>

definition model_CreateLink :: "fs_faults \<Rightarrow> int \<Rightarrow> string \<Rightarrow> link_row \<Rightarrow> fs_db \<Rightarrow> fs_db option" where
  "model_CreateLink flt now linkID l d =
     (if flt FcCreateLink then None
      else Some (d\<lparr>FdLinks := FdLinks d @ [l\<lparr>LkID := (if LkID l \<noteq> '''' then LkID l else linkID), LkCreated := now, LkUpdated := now\<rparr>]\<rparr>))"

definition FsNameLinks :: "fs_faults \<Rightarrow> string \<Rightarrow> fs_db \<Rightarrow> link_row list option" where
  "FsNameLinks flt fsID d = (if flt FcFindLinks then None else Some (filter (\<lambda>l. cond fsID (LkFsID l)) (FdLinks d)))"

definition LinkWithFsIDAndFsPath :: "fs_faults \<Rightarrow> string \<Rightarrow> string \<Rightarrow> fs_db \<Rightarrow> unit + link_row option" where
  "LinkWithFsIDAndFsPath flt fsID fsPath d =
     (if flt FcFindLink then Inl ()
      else Inr (find (\<lambda>l. cond fsID (LkFsID l) \<and> cond fsPath (LkFsPath l)) (FdLinks d)))"

definition DeleteLinkWithFsIDAndFsPath :: "fs_faults \<Rightarrow> string \<Rightarrow> string \<Rightarrow> fs_db \<Rightarrow> fs_db option" where
  "DeleteLinkWithFsIDAndFsPath flt fsID fsPath d =
     (if flt FcDropLink then None
      else Some (d\<lparr>FdLinks := filter (\<lambda>l. \<not> (LkFsID l = fsID \<and> LkFsPath l = fsPath)) (FdLinks d)\<rparr>))"

definition ListLink :: "fs_faults \<Rightarrow> int \<Rightarrow> int \<Rightarrow> string \<Rightarrow> fs_db \<Rightarrow> link_row list option" where
  "ListLink flt maxRows marker fsID d =
     (if flt FcListLink then None
      else Some (limit_rows maxRows (newest_first LkCreated (filter (\<lambda>l. cond fsID (LkFsID l) \<and> LkCreated l \<le> marker) (FdLinks d)))))"

definition GetLinkWithFsIDFsPathAndUserName :: "fs_faults \<Rightarrow> string \<Rightarrow> string \<Rightarrow> string \<Rightarrow> fs_db \<Rightarrow> link_row list option" where
  "GetLinkWithFsIDFsPathAndUserName flt fsID fsPath userName d =
     (if flt FcFindLink then None
      else Some (filter (\<lambda>l. cond userName (LkUser l) \<and> cond fsID (LkFsID l) \<and> cond fsPath (LkFsPath l)) (FdLinks d)))"

end
