(* ===== verification/PF_FsServer.thy ===== *)
theory PF_FsServer
  imports PF_FsTables PF_Encrypt
begin

text \<open>
  The file system service of the API server: the handlers of \<open>pkg/fs/server/api/handler\<close> and the services of
  \<open>pkg/fs/server/service\<close>. A request comes from a user (the name of the checked token) and may name another one.
  The state holds the tables, the volumes and claims of Kubernetes, and the files with the links of each
  file system, from which its clients learn them. A panic is \<open>panic_code\<close>. The reachability of a storage and the
  directories in it are answers of the environment.
\<close>

section \<open>State\<close>

record volume_template =
  VtName :: string
  VtHandle :: string
  VtAttrs :: "string gomap option"

record pv =
  PvHandle :: string
  PvAttrs :: "string gomap option"

record fs_sys =
  FyDb :: fs_db
  FyNamespaces :: "string list"
  FyPV :: "(string \<times> pv) list"
  FyPVC :: "((string \<times> string) \<times> string) list"
  FyFiles :: "((string \<times> string) \<times> string) list"

text \<open>Calls of Kubernetes and of the storage that may fail.\<close>

datatype k8s_call = ListNs | GetNs string | GetPVC string | DeletePVC string | GetPV string | CreatePV string | CreatePVC string

datatype file_call = FlClient | FlMkdir | FlSave | FlExist | FlRenameOld | FlRenameNew | FlRenameBack | FlRemove

record fs_env =
  FeCipher :: block_cipher
  FeConnect :: "fs_meta \<Rightarrow> bool"
  FeIsDir :: "fs_meta \<Rightarrow> string \<Rightarrow> bool option"
  FeIsEmptyDir :: "fs_meta \<Rightarrow> string \<Rightarrow> string + bool"
  FeMarshal :: "(string \<times> fs_meta) list \<Rightarrow> string"
  FePV :: volume_template
  FePVCName :: string
  FeServer :: string
  FeLinkDir :: string

text \<open>The faults of one request, the time, and the UUIDs it draws.\<close>

record fs_call_env =
  CeDb :: fs_faults
  CeK8s :: "k8s_call \<Rightarrow> bool"
  CeFile :: "file_call \<Rightarrow> bool"
  CeNow :: int
  CeUuid :: "nat \<Rightarrow> string"

section \<open>Checks of a storage\<close>

definition URLPrefix :: "string \<Rightarrow> bool" where
  "URLPrefix t = (t \<in> {HDFS, Local, S3, SFTP, Mock})"

definition SupportLinkURLPrefix :: "string \<Rightarrow> bool" where
  "SupportLinkURLPrefix t = (t \<in> {HDFS, Local, S3, SFTP})"

abbreviation FsNameMaxLen :: nat where "FsNameMaxLen \<equiv> 8"

definition fs_name_ok :: "string \<Rightarrow> bool" where
  "fs_name_ok n = (1 \<le> length n \<and> length n \<le> FsNameMaxLen \<and> list_all is_alnum n)"

text \<open>The bucket of an S3 URL goes into the properties.\<close>

definition checkURLFormat :: "string \<Rightarrow> string \<Rightarrow> properties \<Rightarrow> properties option" where
  "checkURLFormat fsType url properties =
     (let urlSplit = split_on slash url
      in if fsType = HDFS \<or> fsType = SFTP then (if length urlSplit < 4 then None else Some properties)
         else if fsType = Local \<or> fsType = Mock
         then (if length urlSplit < 3 then None
               else if urlSplit ! 2 = '''' \<or> urlSplit ! 2 = ''root'' then None else Some properties)
         else if fsType = S3
         then (if length urlSplit < 4 then None
               else if urlSplit ! 2 = '''' then None
               else (case properties of None \<Rightarrow> None | Some p \<Rightarrow> Some (Some (mput ''bucket'' (urlSplit ! 2) p))))
         else Some properties)"

text \<open>The secret is replaced by its encryption.\<close>

definition encrypt_property :: "fs_env \<Rightarrow> string \<Rightarrow> properties \<Rightarrow> properties option" where
  "encrypt_property e k properties =
     (case AesEncrypt (FeCipher e) (prop_get properties k) AESEncryptKey of
        Inl _ \<Rightarrow> None
      | Inr t \<Rightarrow> Some (map_option (mput k t) properties))"

definition check_hdfs :: "properties \<Rightarrow> bool" where
  "check_hdfs properties =
     (if prop_get properties ''kerberos.keytab.data'' \<noteq> ''''
      then (case properties of None \<Rightarrow> False | Some p \<Rightarrow> CheckKerberosProperties p)
      else if prop_get properties ''user'' \<noteq> '''' then prop_get properties ''group'' \<noteq> ''''
      else False)"

definition checkLinkProperties :: "fs_env \<Rightarrow> string \<Rightarrow> properties \<Rightarrow> properties option" where
  "checkLinkProperties e fsType properties =
     (if fsType = HDFS then (if check_hdfs properties then Some properties else None)
      else if fsType = Local then (if prop_get properties ''debug'' \<noteq> ''true'' then None else Some properties)
      else if fsType = S3
      then (if prop_get properties ''accessKey'' = '''' \<or> prop_get properties ''secretKey'' = '''' then None
            else if prop_get properties ''endpoint'' = '''' then None
            else if prop_get properties ''bucket'' = '''' then None
            else encrypt_property e ''secretKey''
                   (if prop_get properties ''region'' = '''' then map_option (mput ''region'' '''') properties else properties))
      else if fsType = SFTP
      then (if prop_get properties ''user'' = '''' then None
            else if prop_get properties ''password'' = '''' then None
            else encrypt_property e ''password'' properties)
      else Some properties)"

definition checkProperties :: "fs_env \<Rightarrow> (k8s_call \<Rightarrow> bool) \<Rightarrow> fs_sys \<Rightarrow> string \<Rightarrow> properties \<Rightarrow> properties option" where
  "checkProperties e kf s fsType properties =
     (if fsType = Mock
      then (let pvc = prop_get properties ''pvc''; namespace = prop_get properties ''namespace''
            in if pvc = '''' \<or> namespace = '''' then None
               else if kf (GetPVC namespace) \<or> mget (FyPVC s) (namespace, pvc) = None then None
               else Some properties)
      else checkLinkProperties e fsType properties)"

text \<open>What \<open>SplitAfterN(url, "/", n)[n - 1]\<close> leaves: the text after the first \<open>n - 1\<close> slashes.\<close>

definition after_slashes :: "nat \<Rightarrow> string \<Rightarrow> string" where
  "after_slashes n url = join_with slash (drop n (split_on slash url))"

definition checkFsDir :: "fs_faults \<Rightarrow> string \<Rightarrow> string \<Rightarrow> properties \<Rightarrow> fs_db \<Rightarrow> bool" where
  "checkFsDir flt fsType url properties d =
     (let (inputIPs, subPath) =
        (if fsType = Local \<or> fsType = Mock then ([], after_slashes 1 url)
         else if fsType = HDFS \<or> fsType = SFTP
         then (split_on (CHR '','') (split_on slash url ! 2), slash # after_slashes 3 url)
         else if fsType = S3
         then (split_on (CHR '','') (prop_get properties ''endpoint''), slash # after_slashes 3 url)
         else ([], ''''))
      in case GetSimilarityAddressList flt fsType inputIPs d of
           None \<Rightarrow> False
         | Some fsList \<Rightarrow> list_all (\<lambda>r. \<not> CheckFsNested subPath (FsSubPath r)) fsList)"

section \<open>Creating a file system\<close>

record create_fs_request =
  CfName :: string
  CfUrl :: string
  CfProperties :: properties
  CfUsername :: string

definition fs_meta_of :: "string \<Rightarrow> string \<Rightarrow> string \<times> string \<times> string \<Rightarrow> properties \<Rightarrow> fs_meta" where
  "fs_meta_of fsID name info properties =
     (case info of (t, addr, sub) \<Rightarrow>
        \<lparr>FmID = fsID, FmName = name, FmUfsType = t, FmServerAddress = addr, FmSubPath = sub,
         FmProperties = (case properties of None \<Rightarrow> [] | Some p \<Rightarrow> p), FmType = ''fs''\<rparr>)"

text \<open>The result is the request with the properties the checks have changed.\<close>

definition validateCreateFileSystem :: "fs_env \<Rightarrow> fs_call_env \<Rightarrow> fs_sys \<Rightarrow> create_fs_request \<Rightarrow> code + create_fs_request" where
  "validateCreateFileSystem e ce s req =
     (if CfUsername req = '''' then Inl ''AuthFailed''
      else if \<not> fs_name_ok (CfName req) then Inl ''FileSystemNameFormatError''
      else if length (split_on (CHR '':'') (CfUrl req)) < 2 then Inl ''InvalidFileSystemParamsURL''
      else (let fsType = hd (split_on (CHR '':'') (CfUrl req))
            in if \<not> URLPrefix fsType then Inl ''InvalidFileSystemParamsURL''
               else case checkURLFormat fsType (CfUrl req) (CfProperties req) of
                 None \<Rightarrow> Inl ''InvalidFileSystemParamsURL''
               | Some p1 \<Rightarrow>
                   (case checkProperties e (CeK8s ce) s fsType p1 of
                      None \<Rightarrow> Inl ''InvalidFileSystemParamsProperties''
                    | Some p2 \<Rightarrow>
                        if \<not> checkFsDir (CeDb ce) fsType (CfUrl req) p2 (FyDb s) then Inl ''InvalidFileSystemParamsURL''
                        else if fsType = Mock then Inr (req\<lparr>CfProperties := p2\<rparr>)
                        else (case InformationFromURL (CfUrl req) p2 of
                           None \<Rightarrow> Inl panic_code
                         | Some (info, p3) \<Rightarrow>
                             if FeConnect e (fs_meta_of (fs_ID (CfUsername req) (CfName req)) (CfName req) info p3)
                             then Inr (req\<lparr>CfProperties := p3\<rparr>) else Inl ''ConnectivityFailed''))))"

definition CreateFileSystem :: "fs_call_env \<Rightarrow> create_fs_request \<Rightarrow> fs_sys \<Rightarrow> fs_sys \<times> (code + fs_row)" where
  "CreateFileSystem ce req s =
     (case InformationFromURL (CfUrl req) (CfProperties req) of
        None \<Rightarrow> (s, Inl panic_code)
      | Some ((t, addr, sub), p) \<Rightarrow>
          (let fs = \<lparr>FsID = fs_ID (CfUsername req) (CfName req), FsCreated = 0, FsUpdated = 0, FsName = CfName req, FsType = t,
                     FsServer = addr, FsSubPath = sub, FsProps = (case p of None \<Rightarrow> [] | Some m \<Rightarrow> m), FsUser = CfUsername req\<rparr>
           in case CreatFileSystem (CeDb ce) (CeNow ce) (CeUuid ce 0) fs (FyDb s) of
                None \<Rightarrow> (s, Inl ''FileSystemDataBaseError'')
              | Some d \<Rightarrow> (s\<lparr>FyDb := d\<rparr>, Inr fs)))"

definition handle_CreateFileSystem ::
  "fs_env \<Rightarrow> fs_call_env \<Rightarrow> string \<Rightarrow> create_fs_request \<Rightarrow> fs_sys \<Rightarrow> fs_sys \<times> (code + string)" where
  "handle_CreateFileSystem e ce user req0 s =
     (let req = (if CfUsername req0 = '''' then req0\<lparr>CfUsername := user\<rparr> else req0)
      in case validateCreateFileSystem e ce s req of
           Inl c \<Rightarrow> (s, Inl c)
         | Inr req1 \<Rightarrow>
             (case CreateFileSystem ce req1 s of
                (s1, Inl c) \<Rightarrow> (s1, Inl c)
              | (s1, Inr fs) \<Rightarrow> (s1, Inr (fs_ID (CfUsername req1) (CfName req1)))))"

section \<open>Reading file systems\<close>

definition GetFileSystem :: "fs_call_env \<Rightarrow> string \<Rightarrow> string \<Rightarrow> fs_sys \<Rightarrow> code + fs_row" where
  "GetFileSystem ce username fsID s =
     (case GetFileSystemWithFsIDAndUserName (CeDb ce) fsID (if username = UserRoot then '''' else username) (FyDb s) of
        Inr (Some r) \<Rightarrow> Inr r
      | _ \<Rightarrow> Inl '''')"

definition handle_GetFileSystem :: "fs_call_env \<Rightarrow> string \<Rightarrow> string \<Rightarrow> string \<Rightarrow> fs_sys \<Rightarrow> code + fs_row" where
  "handle_GetFileSystem ce user queryUser fsName s =
     (let username = (if queryUser = '''' then user else queryUser)
      in if username = '''' then Inl ''AuthFailed''
         else if fsName = '''' then Inl ''''
         else GetFileSystem ce username (NameToFsID fsName username) s)"

text \<open>The text of a time has seconds.\<close>

definition marker_of :: "int \<Rightarrow> int" where "marker_of t = t div 1000 * 1000"

text \<open>The marker of the next page is the time of the row behind the page. \<open>None\<close> is the empty marker.\<close>

definition page_of :: "('r \<Rightarrow> int) \<Rightarrow> int \<Rightarrow> 'r list \<Rightarrow> 'r list \<times> int option" where
  "page_of updated maxKeys items =
     (if items = [] then ([], None)
      else if int (length items) > maxKeys then (butlast items, Some (marker_of (updated (last items))))
      else (items, None))"

definition ListFileSystem ::
  "fs_call_env \<Rightarrow> int \<Rightarrow> int option \<Rightarrow> string \<Rightarrow> string \<Rightarrow> bool \<Rightarrow> fs_sys \<Rightarrow> code + fs_row list \<times> int option" where
  "ListFileSystem ce maxKeys marker username fsName isRoot s =
     (case model_ListFileSystem (CeDb ce) (maxKeys + 1) (if isRoot then '''' else username)
             (case marker of None \<Rightarrow> marker_of (CeNow ce) | Some m \<Rightarrow> m) fsName (FyDb s) of
        None \<Rightarrow> Inl ''FileSystemDataBaseError''
      | Some items \<Rightarrow> Inr (page_of FsUpdated maxKeys items))"

abbreviation DefaultMaxKeys_fs :: int where "DefaultMaxKeys_fs \<equiv> 50"
abbreviation MaxAllowKeys :: int where "MaxAllowKeys \<equiv> 1000"

definition handle_ListFileSystem ::
  "fs_call_env \<Rightarrow> string \<Rightarrow> string \<Rightarrow> string \<Rightarrow> int option \<Rightarrow> int \<Rightarrow> fs_sys \<Rightarrow> code + fs_row list \<times> int option" where
  "handle_ListFileSystem ce user queryUser fsName marker maxKeys0 s =
     (let isRoot = (queryUser = '''' \<and> user = UserRoot);
          username = (if queryUser = '''' then user else queryUser);
          maxKeys = (if maxKeys0 = 0 then DefaultMaxKeys_fs else maxKeys0)
      in if username = '''' then Inl ''AuthFailed''
         else if maxKeys > MaxAllowKeys then Inl ''InvalidFileSystemMaxKeys''
         else ListFileSystem ce maxKeys marker username fsName isRoot s)"

section \<open>Deleting a file system\<close>

definition FSIDFormat :: string where "FSIDFormat = ''$(pfs.fs.id)''"
definition NameSpaceFormat :: string where "NameSpaceFormat = ''$(namespace)''"

fun delete_claims :: "(k8s_call \<Rightarrow> bool) \<Rightarrow> string \<Rightarrow> string list \<Rightarrow> fs_sys \<Rightarrow> fs_sys \<times> bool" where
  "delete_claims kf pvc [] s = (s, True)"
| "delete_claims kf pvc (ns # nss) s =
     (if kf (GetPVC ns) then (s, False)
      else if mget (FyPVC s) (ns, pvc) = None then delete_claims kf pvc nss s
      else if kf (DeletePVC ns) then (s, False)
      else delete_claims kf pvc nss (s\<lparr>FyPVC := mdel (ns, pvc) (FyPVC s)\<rparr>))"

definition deletePVC :: "fs_env \<Rightarrow> (k8s_call \<Rightarrow> bool) \<Rightarrow> string \<Rightarrow> fs_sys \<Rightarrow> fs_sys \<times> bool" where
  "deletePVC e kf fsID s =
     (if kf ListNs then (s, False)
      else delete_claims kf (replace_all (FePVCName e) FSIDFormat fsID) (FyNamespaces s) s)"

definition DeleteFileSystem :: "fs_env \<Rightarrow> fs_call_env \<Rightarrow> string \<Rightarrow> fs_sys \<Rightarrow> fs_sys \<times> (code + unit)" where
  "DeleteFileSystem e ce fsID s =
     (case deletePVC e (CeK8s ce) fsID s of
        (s1, False) \<Rightarrow> (s1, Inl ''K8sOperatorError'')
      | (s1, True) \<Rightarrow>
          (case model_DeleteFileSystem (CeDb ce) fsID (FyDb s1) of
             None \<Rightarrow> (s1, Inl ''FileSystemDataBaseError'')
           | Some d \<Rightarrow> (s1\<lparr>FyDb := d\<rparr>, Inr ())))"

definition validateDeleteFs :: "fs_call_env \<Rightarrow> string \<Rightarrow> string \<Rightarrow> string \<Rightarrow> fs_sys \<Rightarrow> code + string" where
  "validateDeleteFs ce user queryUser name s =
     (let username = (if queryUser = '''' then user else queryUser)
      in if username = '''' then Inl ''AuthFailed''
         else if name = '''' then Inl ''''
         else (let fsTemp = split_on (CHR ''-'') name;
                   fsID = (if length fsTemp < 3 \<or> fsTemp ! 0 \<noteq> ''fs'' \<or> (fsTemp ! 1 \<noteq> username \<and> username \<noteq> UserRoot)
                           then fs_ID username name else name)
               in case GetFileSystemWithFsID (CeDb ce) fsID (FyDb s) of
                    Inl _ \<Rightarrow> Inl ''FileSystemDataBaseError''
                  | Inr None \<Rightarrow> Inl ''FileSystemNotExist''
                  | Inr (Some r) \<Rightarrow>
                      if FsName r = '''' then Inl ''FileSystemNotExist''
                      else if username \<noteq> UserRoot \<and> username \<noteq> FsUser r then Inl ''AuthFailed''
                      else Inr fsID))"

definition handle_DeleteFileSystem ::
  "fs_env \<Rightarrow> fs_call_env \<Rightarrow> string \<Rightarrow> string \<Rightarrow> string \<Rightarrow> fs_sys \<Rightarrow> fs_sys \<times> (code + unit)" where
  "handle_DeleteFileSystem e ce user queryUser name s =
     (case validateDeleteFs ce user queryUser name s of
        Inl c \<Rightarrow> (s, Inl c)
      | Inr fsID \<Rightarrow> DeleteFileSystem e ce fsID s)"

section \<open>Volumes and claims\<close>

definition put_if_present :: "string \<Rightarrow> string \<Rightarrow> string gomap \<Rightarrow> string gomap" where
  "put_if_present k v m = (if mget m k = None then m else mput k v m)"

text \<open>A volume that exists is reported with the empty name.\<close>

definition createPV :: "fs_env \<Rightarrow> (k8s_call \<Rightarrow> bool) \<Rightarrow> string \<Rightarrow> string \<Rightarrow> string \<Rightarrow> fs_sys \<Rightarrow> fs_sys \<times> (unit + string)" where
  "createPV e kf namespace fsId userName s =
     (let pvName = replace_all (replace_all (VtName (FePV e)) FSIDFormat fsId) NameSpaceFormat namespace
      in if kf (GetPV pvName) then (s, Inl ())
         else if mget (FyPV s) pvName \<noteq> None then (s, Inr '''')
         else if kf (CreatePV pvName) then (s, Inl ())
         else (let attrs = map_option (\<lambda>a. put_if_present ''pfs.server'' (FeServer e)
                     (put_if_present ''pfs.user.name'' userName (put_if_present ''pfs.fs.id'' fsId a))) (VtAttrs (FePV e));
                   handle = (case VtAttrs (FePV e) of
                       Some a \<Rightarrow> (if mget a ''pfs.fs.id'' = None then VtHandle (FePV e) else pvName)
                     | None \<Rightarrow> VtHandle (FePV e))
               in (s\<lparr>FyPV := mput pvName \<lparr>PvHandle = handle, PvAttrs = attrs\<rparr> (FyPV s)\<rparr>, Inr pvName)))"

definition createPVC :: "fs_env \<Rightarrow> (k8s_call \<Rightarrow> bool) \<Rightarrow> string \<Rightarrow> string \<Rightarrow> string \<Rightarrow> fs_sys \<Rightarrow> fs_sys \<times> bool" where
  "createPVC e kf namespace fsId pv s =
     (let pvcName = replace_all (FePVCName e) FSIDFormat fsId
      in if kf (GetPVC namespace) then (s, False)
         else if mget (FyPVC s) (namespace, pvcName) \<noteq> None then (s, True)
         else if kf (CreatePVC namespace) then (s, False)
         else (s\<lparr>FyPVC := mput (namespace, pvcName) pv (FyPVC s)\<rparr>, True))"

fun claim_namespaces :: "fs_env \<Rightarrow> (k8s_call \<Rightarrow> bool) \<Rightarrow> string \<Rightarrow> fs_row \<Rightarrow> string list \<Rightarrow> fs_sys \<Rightarrow> fs_sys \<times> bool" where
  "claim_namespaces e kf fsID row [] s = (s, True)"
| "claim_namespaces e kf fsID row (ns # nss) s =
     (if FsType row = Mock then claim_namespaces e kf fsID row nss s
      else case createPV e kf ns fsID (FsUser row) s of
             (s1, Inl _) \<Rightarrow> (s1, False)
           | (s1, Inr pv) \<Rightarrow>
               (case createPVC e kf ns fsID pv s1 of
                  (s2, False) \<Rightarrow> (s2, False)
                | (s2, True) \<Rightarrow> claim_namespaces e kf fsID row nss s2))"

text \<open>The loop pairs the k-th ID of the request with the k-th row of the answer.\<close>

fun claim_file_systems :: "fs_env \<Rightarrow> (k8s_call \<Rightarrow> bool) \<Rightarrow> string list \<Rightarrow> (string \<times> fs_row) list \<Rightarrow> fs_sys \<Rightarrow> fs_sys \<times> bool" where
  "claim_file_systems e kf nss [] s = (s, True)"
| "claim_file_systems e kf nss ((fsID, row) # rest) s =
     (case claim_namespaces e kf fsID row nss s of
        (s1, False) \<Rightarrow> (s1, False)
      | (s1, True) \<Rightarrow> claim_file_systems e kf nss rest s1)"

definition CreateFileSystemClaims ::
  "fs_env \<Rightarrow> fs_call_env \<Rightarrow> string list \<Rightarrow> string list \<Rightarrow> fs_sys \<Rightarrow> fs_sys \<times> (code + unit)" where
  "CreateFileSystemClaims e ce namespaces fsIDs s =
     (if namespaces = [] \<or> fsIDs = [] then (s, Inr ())
      else case GetFsWithIDs (CeDb ce) fsIDs (FyDb s) of
        None \<Rightarrow> (s, Inl ''FileSystemDataBaseError'')
      | Some rows \<Rightarrow>
          if length fsIDs \<noteq> length rows then (s, Inl ''FileSystemDataBaseError'')
          else (case claim_file_systems e (CeK8s ce) namespaces (zip fsIDs rows) s of
             (s1, False) \<Rightarrow> (s1, Inl ''K8sOperatorError'')
           | (s1, True) \<Rightarrow> (s1, Inr ())))"

definition validateCreateFileSystemClaims ::
  "fs_call_env \<Rightarrow> string list \<Rightarrow> string list \<Rightarrow> fs_sys \<Rightarrow> code + unit" where
  "validateCreateFileSystemClaims ce namespaces fsIDs s =
     (if fsIDs = [] then Inl ''InvalidPVClaimsParams''
      else if namespaces = [] then Inl ''InvalidPVClaimsParams''
      else if list_ex (\<lambda>ns. CeK8s ce (GetNs ns)) namespaces then Inl ''GetNamespaceFail''
      else if list_ex (\<lambda>ns. ns \<notin> set (FyNamespaces s)) namespaces then Inl ''NamespaceNotFound''
      else Inr ())"

definition handle_CreateFileSystemClaims ::
  "fs_env \<Rightarrow> fs_call_env \<Rightarrow> string list \<Rightarrow> string list \<Rightarrow> fs_sys \<Rightarrow> fs_sys \<times> (code + unit)" where
  "handle_CreateFileSystemClaims e ce namespaces fsIDs s =
     (case validateCreateFileSystemClaims ce namespaces fsIDs s of
        Inl c \<Rightarrow> (s, Inl c)
      | Inr _ \<Rightarrow> CreateFileSystemClaims e ce namespaces fsIDs s)"

section \<open>Links\<close>

record create_link_request =
  ClFsName :: string
  ClUrl :: string
  ClProperties :: properties
  ClUsername :: string
  ClFsPath :: string

definition checkLinkURLFormat :: "string \<Rightarrow> string \<Rightarrow> properties \<Rightarrow> properties option" where
  "checkLinkURLFormat fsType url properties =
     (if fsType = Mock then Some properties else checkURLFormat fsType url properties)"

definition checkLinkPath :: "fs_faults \<Rightarrow> string \<Rightarrow> string \<Rightarrow> fs_db \<Rightarrow> bool" where
  "checkLinkPath flt fsPath fsID d =
     (case FsNameLinks flt fsID d of
        None \<Rightarrow> False
      | Some links \<Rightarrow> list_all (\<lambda>l. \<not> CheckFsNested fsPath (LkFsPath l)) links)"

definition row_meta :: "fs_row \<Rightarrow> string \<Rightarrow> fs_meta" where
  "row_meta r name =
     \<lparr>FmID = FsID r, FmName = name, FmUfsType = FsType r, FmServerAddress = FsServer r, FmSubPath = FsSubPath r,
      FmProperties = FsProps r, FmType = ''fs''\<rparr>"

definition checkFsPathIsExist :: "fs_env \<Rightarrow> fs_call_env \<Rightarrow> fs_meta \<Rightarrow> string \<Rightarrow> code + unit" where
  "checkFsPathIsExist e ce fm fsPath =
     (if CeFile ce FlClient then Inl ''FuseClientError''
      else case FeIsDir e fm (path_Dir fsPath) of
        None \<Rightarrow> Inl ''FuseClientError''
      | Some isDir \<Rightarrow>
          if \<not> isDir then Inl ''LinkFileSystemPathNotExist''
          else (case FeIsEmptyDir e fm fsPath of
             Inl text \<Rightarrow> if str_contains text ''no such file or directory'' then Inr () else Inl ''FuseClientError''
           | Inr isEmpty \<Rightarrow> if isEmpty then Inr () else Inl ''LinkPathMustBeEmpty''))"

definition validateCreateLink :: "fs_env \<Rightarrow> fs_call_env \<Rightarrow> fs_sys \<Rightarrow> create_link_request \<Rightarrow> code + create_link_request" where
  "validateCreateLink e ce s req =
     (if ClUsername req = '''' then Inl ''AuthFailed''
      else if length (split_on (CHR '':'') (ClUrl req)) < 2 then Inl ''InvalidLinkURL''
      else (let fsType = hd (split_on (CHR '':'') (ClUrl req));
                fsID = fs_ID (ClUsername req) (ClFsName req)
            in if \<not> SupportLinkURLPrefix fsType then Inl ''InvalidLinkURL''
               else case checkLinkURLFormat fsType (ClUrl req) (ClProperties req) of
                 None \<Rightarrow> Inl ''InvalidLinkURL''
               | Some p1 \<Rightarrow>
                   (case checkLinkProperties e fsType p1 of
                      None \<Rightarrow> Inl ''InvalidLinkProperties''
                    | Some p2 \<Rightarrow>
                        if \<not> checkLinkPath (CeDb ce) (ClFsPath req) fsID (FyDb s) then Inl ''InvalidLinkURL''
                        else (case GetFileSystemWithFsID (CeDb ce) fsID (FyDb s) of
                           Inl _ \<Rightarrow> Inl ''LinkModelError''
                         | Inr None \<Rightarrow> Inl ''LinkFileSystemNotExist''
                         | Inr (Some r) \<Rightarrow>
                             if \<not> SupportLinkURLPrefix (FsType r) \<or> FsType r = Local then Inl ''InvalidFileSystemFsName''
                             else (case LinkWithFsIDAndFsPath (CeDb ce) fsID (ClFsPath req) (FyDb s) of
                                Inl _ \<Rightarrow> Inl ''FileSystemDataBaseError''
                              | Inr (Some l) \<Rightarrow> Inl ''FileSystemNotExist''
                              | Inr None \<Rightarrow>
                                  bindE (checkFsPathIsExist e ce (row_meta r (ClFsName req)) (ClFsPath req)) (\<lambda>_.
                                  (case InformationFromURL (ClUrl req) p2 of
                                     None \<Rightarrow> Inl panic_code
                                   | Some (info, p3) \<Rightarrow>
                                       if FeConnect e (fs_meta_of fsID (ClFsName req) info p3)
                                       then Inr (req\<lparr>ClProperties := p3\<rparr>) else Inl ''ConnectivityFailed'')))))))"

definition service_CreateLink :: "fs_call_env \<Rightarrow> create_link_request \<Rightarrow> fs_sys \<Rightarrow> fs_sys \<times> (code + string)" where
  "service_CreateLink ce req s =
     (case InformationFromURL (ClUrl req) (ClProperties req) of
        None \<Rightarrow> (s, Inl panic_code)
      | Some ((t, addr, sub), p) \<Rightarrow>
          (let fsID = fs_ID (ClUsername req) (ClFsName req);
               l = \<lparr>LkID = '''', LkCreated = 0, LkUpdated = 0, LkFsID = fsID, LkFsPath = ClFsPath req, LkServer = addr,
                    LkSubPath = sub, LkType = t, LkProps = (case p of None \<Rightarrow> [] | Some m \<Rightarrow> m), LkUser = ClUsername req\<rparr>
           in case model_CreateLink (CeDb ce) (CeNow ce) (CeUuid ce 0) l (FyDb s) of
                None \<Rightarrow> (s, Inl ''LinkModelError'')
              | Some d \<Rightarrow> (s\<lparr>FyDb := d\<rparr>, Inr fsID)))"

text \<open>The link file is replaced by renaming: the old one is moved away, the new one put in its place, and
  the old one removed by a deferred call, or moved back if the new one could not be renamed. The
  deferred call also runs then.\<close>

definition move_file :: "string \<Rightarrow> string \<Rightarrow> string \<Rightarrow> fs_sys \<Rightarrow> fs_sys" where
  "move_file fsID src dst s =
     (case mget (FyFiles s) (fsID, src) of
        None \<Rightarrow> s
      | Some c \<Rightarrow> s\<lparr>FyFiles := mput (fsID, dst) c (mdel (fsID, src) (FyFiles s))\<rparr>)"

definition remove_file :: "string \<Rightarrow> string \<Rightarrow> fs_sys \<Rightarrow> fs_sys" where
  "remove_file fsID p s = s\<lparr>FyFiles := mdel (fsID, p) (FyFiles s)\<rparr>"

definition link_meta_path :: "string \<Rightarrow> string" where
  "link_meta_path dir = path_Join [dir, ''.config'', ''links_meta'']"

definition writeLinksMeta :: "fs_env \<Rightarrow> fs_call_env \<Rightarrow> string \<Rightarrow> string \<Rightarrow> fs_sys \<Rightarrow> fs_sys \<times> bool" where
  "writeLinksMeta e ce content fsID s =
     (if CeDb ce FcGetFs then (s, False)
      else if CeFile ce FlClient \<or> CeFile ce FlMkdir \<or> CeFile ce FlSave then (s, False)
      else (let dirPath = path_Join [FeLinkDir e, ''.config''];
                srcPath = path_Join [dirPath, CeUuid ce 1];
                dstPath = link_meta_path (FeLinkDir e);
                tempDst = path_Join [dirPath, CeUuid ce 2];
                s1 = s\<lparr>FyFiles := mput (fsID, srcPath) content (FyFiles s)\<rparr>;
                dstExit = (\<not> CeFile ce FlExist \<and> mget (FyFiles s1) (fsID, dstPath) \<noteq> None);
                cleanup = (\<lambda>s. if dstExit \<and> \<not> CeFile ce FlRemove then remove_file fsID tempDst s else s)
            in if dstExit \<and> CeFile ce FlRenameOld then (s1, False)
               else (let s2 = (if dstExit then move_file fsID dstPath tempDst s1 else s1)
                     in if CeFile ce FlRenameNew
                        then (cleanup (if dstExit \<and> \<not> CeFile ce FlRenameBack then move_file fsID tempDst dstPath s2 else s2), False)
                        else (cleanup (move_file fsID srcPath dstPath s2), True))))"

definition link_meta :: "link_row \<Rightarrow> string \<times> fs_meta" where
  "link_meta l = (LkFsPath l,
     \<lparr>FmID = LkID l, FmName = FSIDToName (LkID l), FmUfsType = LkType l, FmServerAddress = LkServer l, FmSubPath = LkSubPath l,
      FmProperties = LkProps l, FmType = ''link''\<rparr>)"

definition links_map :: "link_row list \<Rightarrow> (string \<times> fs_meta) list" where
  "links_map links = foldl (\<lambda>m l. mput (fst (link_meta l)) (snd (link_meta l)) m) [] links"

definition PersistLinksMeta :: "fs_env \<Rightarrow> fs_call_env \<Rightarrow> string \<Rightarrow> fs_sys \<Rightarrow> fs_sys \<times> bool" where
  "PersistLinksMeta e ce fsID s =
     (case FsNameLinks (CeDb ce) fsID (FyDb s) of
        None \<Rightarrow> (s, False)
      | Some links \<Rightarrow>
          (case AesEncrypt (FeCipher e) (FeMarshal e (links_map links)) AESEncryptKey of
             Inl _ \<Rightarrow> (s, False)
           | Inr content \<Rightarrow> writeLinksMeta e ce content fsID s))"

definition handle_CreateLink ::
  "fs_env \<Rightarrow> fs_call_env \<Rightarrow> string \<Rightarrow> create_link_request \<Rightarrow> fs_sys \<Rightarrow> fs_sys \<times> (code + unit)" where
  "handle_CreateLink e ce user req0 s =
     (let req = (if ClUsername req0 = '''' then req0\<lparr>ClUsername := user\<rparr> else req0)
      in case validateCreateLink e ce s req of
           Inl c \<Rightarrow> (s, Inl c)
         | Inr req1 \<Rightarrow>
             (case service_CreateLink ce req1 s of
                (s1, Inl c) \<Rightarrow> (s1, Inl c)
              | (s1, Inr fsID) \<Rightarrow>
                  (case PersistLinksMeta e ce fsID s1 of
                     (s2, True) \<Rightarrow> (s2, Inr ())
                   | (s2, False) \<Rightarrow>
                       (case DeleteLinkWithFsIDAndFsPath (CeDb ce) (fs_ID (ClUsername req1) (ClFsName req1)) (ClFsPath req1) (FyDb s2) of
                          None \<Rightarrow> (s2, Inl ''LinkModelError'')
                        | Some d \<Rightarrow> (s2\<lparr>FyDb := d\<rparr>, Inl ''LinkMetaPersistError'')))))"

definition validateDeleteLink :: "fs_call_env \<Rightarrow> string \<Rightarrow> string \<Rightarrow> string \<Rightarrow> string \<Rightarrow> fs_sys \<Rightarrow> code + string" where
  "validateDeleteLink ce user queryUser fsName fsPath s =
     (let username = (if queryUser = '''' then user else queryUser)
      in if username = '''' then Inl ''AuthFailed''
         else case LinkWithFsIDAndFsPath (CeDb ce) (fs_ID username fsName) fsPath (FyDb s) of
                Inr (Some l) \<Rightarrow> if LkFsID l = '''' then Inl ''LinkModelError'' else Inr username
              | _ \<Rightarrow> Inl ''LinkModelError'')"

definition handle_DeleteLink ::
  "fs_env \<Rightarrow> fs_call_env \<Rightarrow> string \<Rightarrow> string \<Rightarrow> string \<Rightarrow> string \<Rightarrow> fs_sys \<Rightarrow> fs_sys \<times> (code + unit)" where
  "handle_DeleteLink e ce user queryUser fsName fsPath s =
     (case validateDeleteLink ce user queryUser fsName fsPath s of
        Inl c \<Rightarrow> (s, Inl c)
      | Inr username \<Rightarrow>
          (case DeleteLinkWithFsIDAndFsPath (CeDb ce) (fs_ID username fsName) fsPath (FyDb s) of
             None \<Rightarrow> (s, Inl ''FileSystemDataBaseError'')
           | Some d \<Rightarrow> (fst (PersistLinksMeta e ce (fs_ID username fsName) (s\<lparr>FyDb := d\<rparr>)), Inr ())))"

definition GetLink :: "fs_call_env \<Rightarrow> int \<Rightarrow> int option \<Rightarrow> string \<Rightarrow> string \<Rightarrow> string \<Rightarrow> fs_sys \<Rightarrow> code + link_row list \<times> int option" where
  "GetLink ce maxKeys marker username fsID fsPath s =
     (case (if fsPath = ''''
            then ListLink (CeDb ce) (maxKeys + 1) (case marker of None \<Rightarrow> marker_of (CeNow ce) | Some m \<Rightarrow> m) fsID (FyDb s)
            else GetLinkWithFsIDFsPathAndUserName (CeDb ce) fsID fsPath (if username = UserRoot then '''' else username) (FyDb s)) of
        None \<Rightarrow> Inl ''''
      | Some items \<Rightarrow>
          if items = [] \<and> fsPath \<noteq> '''' then Inl ''''
          else if items = [] \<and> maxKeys < 0 then Inl panic_code
          else Inr (if int (length items) > maxKeys
                    then (butlast items, Some (marker_of (LkUpdated (last items)))) else (items, None)))"

definition handle_GetLink ::
  "fs_call_env \<Rightarrow> string \<Rightarrow> string \<Rightarrow> string \<Rightarrow> string \<Rightarrow> int option \<Rightarrow> int \<Rightarrow> fs_sys \<Rightarrow> code + link_row list \<times> int option" where
  "handle_GetLink ce user queryUser fsName fsPath marker maxKeys0 s =
     (let username = (if queryUser = '''' then user else queryUser);
          maxKeys = (if maxKeys0 = 0 then DefaultMaxKeys_fs else maxKeys0)
      in if username = '''' then Inl ''AuthFailed''
         else if maxKeys > MaxAllowKeys then Inl ''InvalidFileSystemMaxKeys''
         else GetLink ce maxKeys marker username (NameToFsID fsName username) fsPath s)"

section \<open>The clients of the API server\<close>

text \<open>\<open>mk\<close> is \<open>fs.NewFSClient\<close>. The links are listed without a number of rows.\<close>

definition handler_link_meta :: "link_row \<Rightarrow> string \<times> fs_meta" where
  "handler_link_meta l = (LkFsPath l,
     \<lparr>FmID = LkID l, FmName = '''', FmUfsType = LkType l, FmServerAddress = LkServer l, FmSubPath = LkSubPath l,
      FmProperties = LkProps l, FmType = ''link''\<rparr>)"

definition getFSClient ::
  "fs_call_env \<Rightarrow> (fs_meta \<Rightarrow> (string \<times> fs_meta) list \<Rightarrow> code + 'c) \<Rightarrow> string \<Rightarrow> fs_sys \<Rightarrow> code + 'c" where
  "getFSClient ce mk fsID s =
     (case GetFileSystem ce '''' fsID s of
        Inl c \<Rightarrow> Inl c
      | Inr r \<Rightarrow>
          (case GetLink ce 0 None '''' fsID '''' s of
             Inl c \<Rightarrow> Inl c
           | Inr (listLinks, marker) \<Rightarrow>
               mk (row_meta r (FsName r)) (foldl (\<lambda>m l. mput (fst (handler_link_meta l)) (snd (handler_link_meta l)) m) [] listLinks)))"

abbreviation maxRetryCount :: nat where "maxRetryCount \<equiv> 3"

text \<open>The attempts have their own environments.\<close>

fun try_clients :: "(nat \<Rightarrow> code + 'c) \<Rightarrow> nat \<Rightarrow> nat \<Rightarrow> code + 'c" where
  "try_clients attempt i 0 = Inl ''''"
| "try_clients attempt i (Suc n) =
     (case attempt i of Inr c \<Rightarrow> Inr c | Inl e \<Rightarrow> if n = 0 then Inl e else try_clients attempt (Suc i) n)"

definition NewFsHandlerWithServer ::
  "(nat \<Rightarrow> fs_call_env) \<Rightarrow> (nat \<Rightarrow> fs_meta \<Rightarrow> (string \<times> fs_meta) list \<Rightarrow> code + 'c) \<Rightarrow> string \<Rightarrow> fs_sys \<Rightarrow> code + 'c" where
  "NewFsHandlerWithServer ces mk fsID s = try_clients (\<lambda>i. getFSClient (ces i) (mk i) fsID s) 0 maxRetryCount"

section \<open>Requests at the same time\<close>

text \<open>
  The handlers run in goroutines without a lock or a transaction around check and change. A request in progress is a task: what
  it does between two accesses that change something is one step, after which other requests may come in between. The mutex of a
  file system (\<open>FsLock\<close>) covers reading the links and writing their file, nothing else. Within
  a step, the reads of a check see one state of the tables; the calls of Kubernetes of one loop are one step.\<close>

datatype fs_task =
    TkCreate fs_call_env string create_fs_request
  | TkCreateRow fs_call_env create_fs_request
  | TkDelete fs_call_env string string string
  | TkDeleteClaims fs_call_env string
  | TkDeleteRows fs_call_env string
  | TkClaims fs_call_env "string list" "string list"
  | TkBindClaims fs_call_env "string list" "string list"
  | TkLink fs_call_env string create_link_request
  | TkLinkRow fs_call_env create_link_request
  | TkLinkRead fs_call_env create_link_request
  | TkLinkFile fs_call_env create_link_request string
  | TkLinkUndo fs_call_env create_link_request
  | TkUnlink fs_call_env string string string string
  | TkUnlinkRow fs_call_env string string
  | TkUnlinkRead fs_call_env string
  | TkUnlinkFile fs_call_env string string
  | TkAnswer "code + string"

definition answer_unit :: "code + unit \<Rightarrow> code + string" where
  "answer_unit r = map_sum id (\<lambda>_. '''') r"

text \<open>The text that \<open>PersistLinksMeta\<close> writes.\<close>

definition links_content :: "fs_env \<Rightarrow> fs_call_env \<Rightarrow> string \<Rightarrow> fs_db \<Rightarrow> string option" where
  "links_content e ce fsID d =
     (case FsNameLinks (CeDb ce) fsID d of
        None \<Rightarrow> None
      | Some links \<Rightarrow>
          (case AesEncrypt (FeCipher e) (FeMarshal e (links_map links)) AESEncryptKey of Inl _ \<Rightarrow> None | Inr content \<Rightarrow> Some content))"

fun fs_task_step :: "fs_env \<Rightarrow> fs_task \<Rightarrow> fs_sys \<Rightarrow> fs_sys \<times> fs_task" where
  "fs_task_step e (TkCreate ce user req0) s =
     (s, case validateCreateFileSystem e ce s (if CfUsername req0 = '''' then req0\<lparr>CfUsername := user\<rparr> else req0) of
           Inl c \<Rightarrow> TkAnswer (Inl c) | Inr req \<Rightarrow> TkCreateRow ce req)"
| "fs_task_step e (TkCreateRow ce req) s =
     (case CreateFileSystem ce req s of
        (s1, Inl c) \<Rightarrow> (s1, TkAnswer (Inl c))
      | (s1, Inr fs) \<Rightarrow> (s1, TkAnswer (Inr (fs_ID (CfUsername req) (CfName req)))))"
| "fs_task_step e (TkDelete ce user queryUser name) s =
     (s, case validateDeleteFs ce user queryUser name s of Inl c \<Rightarrow> TkAnswer (Inl c) | Inr fsID \<Rightarrow> TkDeleteClaims ce fsID)"
| "fs_task_step e (TkDeleteClaims ce fsID) s =
     (case deletePVC e (CeK8s ce) fsID s of
        (s1, False) \<Rightarrow> (s1, TkAnswer (Inl ''K8sOperatorError''))
      | (s1, True) \<Rightarrow> (s1, TkDeleteRows ce fsID))"
| "fs_task_step e (TkDeleteRows ce fsID) s =
     (case model_DeleteFileSystem (CeDb ce) fsID (FyDb s) of
        None \<Rightarrow> (s, TkAnswer (Inl ''FileSystemDataBaseError''))
      | Some d \<Rightarrow> (s\<lparr>FyDb := d\<rparr>, TkAnswer (Inr '''')))"
| "fs_task_step e (TkClaims ce namespaces fsIDs) s =
     (s, case validateCreateFileSystemClaims ce namespaces fsIDs s of
           Inl c \<Rightarrow> TkAnswer (Inl c) | Inr _ \<Rightarrow> TkBindClaims ce namespaces fsIDs)"
| "fs_task_step e (TkBindClaims ce namespaces fsIDs) s =
     (case CreateFileSystemClaims e ce namespaces fsIDs s of (s1, r) \<Rightarrow> (s1, TkAnswer (answer_unit r)))"
| "fs_task_step e (TkLink ce user req0) s =
     (s, case validateCreateLink e ce s (if ClUsername req0 = '''' then req0\<lparr>ClUsername := user\<rparr> else req0) of
           Inl c \<Rightarrow> TkAnswer (Inl c) | Inr req \<Rightarrow> TkLinkRow ce req)"
| "fs_task_step e (TkLinkRow ce req) s =
     (case service_CreateLink ce req s of
        (s1, Inl c) \<Rightarrow> (s1, TkAnswer (Inl c))
      | (s1, Inr fsID) \<Rightarrow> (s1, TkLinkRead ce req))"
| "fs_task_step e (TkLinkRead ce req) s =
     (s, case links_content e ce (fs_ID (ClUsername req) (ClFsName req)) (FyDb s) of
           None \<Rightarrow> TkLinkUndo ce req | Some content \<Rightarrow> TkLinkFile ce req content)"
| "fs_task_step e (TkLinkFile ce req content) s =
     (case writeLinksMeta e ce content (fs_ID (ClUsername req) (ClFsName req)) s of
        (s1, True) \<Rightarrow> (s1, TkAnswer (Inr ''''))
      | (s1, False) \<Rightarrow> (s1, TkLinkUndo ce req))"
| "fs_task_step e (TkLinkUndo ce req) s =
     (case DeleteLinkWithFsIDAndFsPath (CeDb ce) (fs_ID (ClUsername req) (ClFsName req)) (ClFsPath req) (FyDb s) of
        None \<Rightarrow> (s, TkAnswer (Inl ''LinkModelError''))
      | Some d \<Rightarrow> (s\<lparr>FyDb := d\<rparr>, TkAnswer (Inl ''LinkMetaPersistError'')))"
| "fs_task_step e (TkUnlink ce user queryUser fsName fsPath) s =
     (s, case validateDeleteLink ce user queryUser fsName fsPath s of
           Inl c \<Rightarrow> TkAnswer (Inl c) | Inr username \<Rightarrow> TkUnlinkRow ce (fs_ID username fsName) fsPath)"
| "fs_task_step e (TkUnlinkRow ce fsID fsPath) s =
     (case DeleteLinkWithFsIDAndFsPath (CeDb ce) fsID fsPath (FyDb s) of
        None \<Rightarrow> (s, TkAnswer (Inl ''FileSystemDataBaseError''))
      | Some d \<Rightarrow> (s\<lparr>FyDb := d\<rparr>, TkUnlinkRead ce fsID))"
| "fs_task_step e (TkUnlinkRead ce fsID) s =
     (s, case links_content e ce fsID (FyDb s) of None \<Rightarrow> TkAnswer (Inr '''') | Some content \<Rightarrow> TkUnlinkFile ce fsID content)"
| "fs_task_step e (TkUnlinkFile ce fsID content) s = (fst (writeLinksMeta e ce content fsID s), TkAnswer (Inr ''''))"
| "fs_task_step e (TkAnswer r) s = (s, TkAnswer r)"

record fs_machine =
  FxSys :: fs_sys
  FxTasks :: "fs_task list"

datatype fs_event = FxArrive fs_task | FxRun nat

fun fs_request :: "fs_task \<Rightarrow> bool" where
  "fs_request (TkCreate ce user req) = True"
| "fs_request (TkDelete ce user queryUser name) = True"
| "fs_request (TkClaims ce namespaces fsIDs) = True"
| "fs_request (TkLink ce user req) = True"
| "fs_request (TkUnlink ce user queryUser fsName fsPath) = True"
| "fs_request _ = False"

fun answered :: "fs_task \<Rightarrow> bool" where
  "answered (TkAnswer r) = True"
| "answered _ = False"

text \<open>\<open>FsLock\<close>: the file system whose mutex a task holds, and the one whose mutex its next step takes.\<close>

fun holds_lock :: "fs_task \<Rightarrow> string option" where
  "holds_lock (TkLinkFile ce req content) = Some (fs_ID (ClUsername req) (ClFsName req))"
| "holds_lock (TkUnlinkFile ce fsID content) = Some fsID"
| "holds_lock _ = None"

fun takes_lock :: "fs_task \<Rightarrow> string option" where
  "takes_lock (TkLinkRead ce req) = Some (fs_ID (ClUsername req) (ClFsName req))"
| "takes_lock (TkUnlinkRead ce fsID) = Some fsID"
| "takes_lock _ = None"

definition FsLock_free :: "fs_task list \<Rightarrow> fs_task \<Rightarrow> bool" where
  "FsLock_free ts t = (takes_lock t = None \<or> takes_lock t \<notin> set (map holds_lock ts))"

fun fs_machine_step :: "fs_env \<Rightarrow> fs_event \<Rightarrow> fs_machine \<Rightarrow> fs_machine option" where
  "fs_machine_step e (FxArrive t) m = (if fs_request t then Some (m\<lparr>FxTasks := FxTasks m @ [t]\<rparr>) else None)"
| "fs_machine_step e (FxRun i) m =
     (if i < length (FxTasks m) \<and> \<not> answered (FxTasks m ! i) \<and> FsLock_free (FxTasks m) (FxTasks m ! i)
      then (case fs_task_step e (FxTasks m ! i) (FxSys m) of (s, t) \<Rightarrow> Some \<lparr>FxSys = s, FxTasks = (FxTasks m)[i := t]\<rparr>)
      else None)"

text \<open>Requests one after the other: each arrives when the ones before it have been answered.\<close>

fun one_by_one :: "fs_env \<Rightarrow> fs_event list \<Rightarrow> fs_machine \<Rightarrow> bool" where
  "one_by_one e [] m = True"
| "one_by_one e (ev # evs) m =
     ((case ev of FxArrive t \<Rightarrow> list_all answered (FxTasks m) | FxRun i \<Rightarrow> True) \<and>
      (case fs_machine_step e ev m of None \<Rightarrow> True | Some m1 \<Rightarrow> one_by_one e evs m1))"

text \<open>The handlers are the tasks with nothing in between.\<close>

fun finish_task :: "fs_env \<Rightarrow> nat \<Rightarrow> fs_task \<Rightarrow> fs_sys \<Rightarrow> fs_sys \<times> fs_task" where
  "finish_task e 0 t s = (s, t)"
| "finish_task e (Suc n) t s = (case fs_task_step e t s of (s1, t1) \<Rightarrow> finish_task e n t1 s1)"

lemma finish_answer [simp]: "finish_task e n (TkAnswer r) s = (s, TkAnswer r)"
  by (induction n) simp_all

lemma PersistLinksMeta_content:
  "PersistLinksMeta e ce fsID s =
     (case links_content e ce fsID (FyDb s) of None \<Rightarrow> (s, False) | Some content \<Rightarrow> writeLinksMeta e ce content fsID s)"
  by (simp add: PersistLinksMeta_def links_content_def split: option.split sum.split)

lemma service_CreateLink_answer:
  "service_CreateLink ce req s = (s1, Inr fsID) \<Longrightarrow> fsID = fs_ID (ClUsername req) (ClFsName req)"
  by (auto simp: service_CreateLink_def Let_def split: option.splits)

lemma handle_CreateFileSystem_task:
  "finish_task e 2 (TkCreate ce user req) s =
     (case handle_CreateFileSystem e ce user req s of (s1, r) \<Rightarrow> (s1, TkAnswer r))"
  by (simp add: numeral_eq_Suc handle_CreateFileSystem_def Let_def split: sum.split prod.split)

lemma handle_DeleteFileSystem_task:
  "finish_task e 3 (TkDelete ce user queryUser name) s =
     (case handle_DeleteFileSystem e ce user queryUser name s of (s1, r) \<Rightarrow> (s1, TkAnswer (answer_unit r)))"
  by (simp add: numeral_eq_Suc handle_DeleteFileSystem_def DeleteFileSystem_def answer_unit_def
      split: sum.split prod.split bool.split option.split)

lemma handle_CreateFileSystemClaims_task:
  "finish_task e 2 (TkClaims ce namespaces fsIDs) s =
     (case handle_CreateFileSystemClaims e ce namespaces fsIDs s of (s1, r) \<Rightarrow> (s1, TkAnswer (answer_unit r)))"
  by (simp add: numeral_eq_Suc handle_CreateFileSystemClaims_def answer_unit_def split: sum.split prod.split)

lemma handle_DeleteLink_task:
  "finish_task e 4 (TkUnlink ce user queryUser fsName fsPath) s =
     (case handle_DeleteLink e ce user queryUser fsName fsPath s of (s1, r) \<Rightarrow> (s1, TkAnswer (answer_unit r)))"
  by (simp add: numeral_eq_Suc handle_DeleteLink_def PersistLinksMeta_content answer_unit_def
      split: sum.split prod.split option.split)

lemma handle_CreateLink_task:
  "finish_task e 5 (TkLink ce user req0) s =
     (case handle_CreateLink e ce user req0 s of (s1, r) \<Rightarrow> (s1, TkAnswer (answer_unit r)))"
proof -
  define req where "req = (if ClUsername req0 = '''' then req0\<lparr>ClUsername := user\<rparr> else req0)"
  show ?thesis
  proof (cases "validateCreateLink e ce s req")
    case (Inl c)
    then show ?thesis by (simp add: numeral_eq_Suc handle_CreateLink_def req_def [symmetric] answer_unit_def)
  next
    case (Inr req1)
    note v = this
    obtain s1 r where s1: "service_CreateLink ce req1 s = (s1, r)" by fastforce
    show ?thesis
    proof (cases r)
      case (Inl c)
      then show ?thesis using v s1 by (simp add: numeral_eq_Suc handle_CreateLink_def req_def [symmetric] answer_unit_def)
    next
      case (Inr fsID)
      then show ?thesis using v s1 service_CreateLink_answer [of ce req1 s s1 fsID]
        by (simp add: numeral_eq_Suc handle_CreateLink_def req_def [symmetric] answer_unit_def PersistLinksMeta_content
            split: option.split prod.split bool.split)
    qed
  qed
qed

section \<open>Names and IDs\<close>

lemma alnum_no_dash: "list_all is_alnum w \<Longrightarrow> CHR ''-'' \<notin> set w"
  by (auto simp: list_all_iff is_alnum_def is_digit_def is_lower_def is_upper_def)

lemma fs_name_no_dash: "fs_name_ok n \<Longrightarrow> CHR ''-'' \<notin> set n \<and> n \<noteq> ''''"
  using alnum_no_dash by (auto simp: fs_name_ok_def)

lemma split_on_fs_ID:
  assumes "fs_name_ok n"
  shows "split_on (CHR ''-'') (fs_ID u n) = ''fs'' # split_on (CHR ''-'') u @ [n]"
proof -
  have "split_on (CHR ''-'') (fs_ID u n) = split_on (CHR ''-'') (''fs'' @ CHR ''-'' # (u @ CHR ''-'' # n))"
    by (simp add: fs_ID_def)
  also have "\<dots> = split_on (CHR ''-'') ''fs'' @ split_on (CHR ''-'') u @ split_on (CHR ''-'') n"
    by (simp only: split_on_sep)
  finally show ?thesis using fs_name_no_dash [OF assms] by (simp add: split_on_id)
qed

lemma FSIDToName_ID: "fs_name_ok n \<Longrightarrow> FSIDToName (fs_ID u n) = n"
  by (simp add: FSIDToName_def split_on_fs_ID)

lemma fs_ID_inj:
  assumes "fs_name_ok n" and "fs_name_ok m" and "fs_ID u n = fs_ID v m"
  shows "u = v \<and> n = m"
proof -
  have "n = m" using FSIDToName_ID [OF assms(1), of u] FSIDToName_ID [OF assms(2), of v] assms(3) by simp
  then show ?thesis using assms(3) by (simp add: fs_ID_def)
qed

lemma fs_ID_ne [simp]: "fs_ID u n \<noteq> ''''"
  by (simp add: fs_ID_def)

section \<open>Nested paths\<close>

lemma CheckFsNested_take:
  "CheckFsNested p q =
     (let a = split_on slash (trim_right slash p); b = split_on slash (trim_right slash q); k = min (length a) (length b)
      in take k a = take k b)"
proof -
  have "list_all (\<lambda>i. a ! i = b ! i) [0..<k] = (take k a = take k b)" if "k \<le> length a" "k \<le> length b" for k and a b :: "string list"
    using that by (auto simp: list_all_iff list_eq_iff_nth_eq)
  then show ?thesis by (auto simp: CheckFsNested_def Let_def min_def)
qed

lemma CheckFsNested_sym: "CheckFsNested p q = CheckFsNested q p"
  unfolding CheckFsNested_take Let_def by (auto simp: min.commute)

section \<open>Consistent tables\<close>

definition fs_row_ok :: "fs_db \<Rightarrow> fs_row \<Rightarrow> bool" where
  "fs_row_ok d r =
     (FsID r = fs_ID (FsUser r) (FsName r) \<and> fs_name_ok (FsName r) \<and> FsUser r \<noteq> '''' \<and>
      (\<exists>g\<in>set (FdGrants d). GrUserName g = FsUser r \<and> GrResourceType g = GrantFsType \<and> GrResourceID g = FsID r))"

definition apart :: "link_row \<Rightarrow> link_row \<Rightarrow> bool" where
  "apart l k = (LkFsID l = LkFsID k \<longrightarrow> \<not> CheckFsNested (LkFsPath l) (LkFsPath k))"

definition fs_rows_ok :: "fs_db \<Rightarrow> bool" where
  "fs_rows_ok d = (distinct (map FsID (FdFs d)) \<and> (\<forall>r\<in>set (FdFs d). fs_row_ok d r))"

definition fs_tables_ok :: "fs_db \<Rightarrow> bool" where
  "fs_tables_ok d =
     (distinct (map FsID (FdFs d)) \<and> (\<forall>r\<in>set (FdFs d). fs_row_ok d r) \<and>
      (\<forall>l\<in>set (FdLinks d). \<exists>r\<in>set (FdFs d). FsID r = LkFsID l) \<and> sorted_wrt apart (FdLinks d))"

lemma deletePVC_db: "FyDb (fst (deletePVC e kf fsID s)) = FyDb s"
proof -
  have "FyDb (fst (delete_claims kf pvc nss s)) = FyDb s" for pvc nss
    by (induction kf pvc nss s rule: delete_claims.induct) (auto split: if_splits)
  then show ?thesis by (simp add: deletePVC_def)
qed

lemma createPV_db: "FyDb (fst (createPV e kf ns fsID u s)) = FyDb s"
  by (auto simp: createPV_def Let_def)

lemma createPVC_db: "FyDb (fst (createPVC e kf ns fsID pv s)) = FyDb s"
  by (auto simp: createPVC_def Let_def)

lemma claim_namespaces_db: "FyDb (fst (claim_namespaces e kf fsID row nss s)) = FyDb s"
proof (induction nss arbitrary: s)
  case (Cons ns nss)
  show ?case
    using Cons.IH createPV_db [of e kf ns fsID "FsUser row" s] createPVC_db [of e kf ns fsID]
    by (auto split: prod.splits sum.splits bool.splits) (metis fst_conv)+
qed simp

lemma bind_claims_db: "FyDb (fst (CreateFileSystemClaims e ce nss ids s)) = FyDb s"
proof -
  have "FyDb (fst (claim_file_systems e kf nss xs s)) = FyDb s" for kf xs
  proof (induction xs arbitrary: s)
    case (Cons x xs)
    obtain f r where x: "x = (f, r)" by (cases x)
    obtain s1 b where 1: "claim_namespaces e kf f r nss s = (s1, b)" by fastforce
    then have "FyDb s1 = FyDb s" using claim_namespaces_db [of e kf f r nss s] by simp
    then show ?case using Cons.IH 1 x by (cases b) simp_all
  qed simp
  then show ?thesis
    by (auto simp: CreateFileSystemClaims_def split: option.splits prod.splits bool.splits) (metis fst_conv)+
qed

lemma writeLinksMeta_db: "FyDb (fst (writeLinksMeta e ce c fsID s)) = FyDb s"
  by (auto simp: writeLinksMeta_def Let_def move_file_def remove_file_def split: option.splits)

lemma PersistLinksMeta_db: "FyDb (fst (PersistLinksMeta e ce fsID s)) = FyDb s"
  by (auto simp: PersistLinksMeta_def writeLinksMeta_db split: option.splits sum.splits)

lemma fs_row_ok_grants: "FdGrants d' = FdGrants d \<Longrightarrow> fs_row_ok d' r = fs_row_ok d r"
  by (simp add: fs_row_ok_def)

text \<open>What each operation does to the tables.\<close>

lemma fs_tables_create:
  assumes "CreatFileSystem flt now gid fs d = Some d'" and "fs_tables_ok d"
    and "FsID fs = fs_ID (FsUser fs) (FsName fs)" and "fs_name_ok (FsName fs)" and "FsUser fs \<noteq> ''''"
  shows "fs_tables_ok d'"
proof -
  have new: "FsID fs \<notin> FsID ` set (FdFs d)"
    and d': "FdFs d' = FdFs d @ [fs\<lparr>FsCreated := now, FsUpdated := now\<rparr>]" "FdLinks d' = FdLinks d"
      "FdGrants d' = FdGrants d @ [\<lparr>GrPk = FdNextGrant d, GrID = gid, GrUserName = FsUser fs,
          GrResourceType = GrantFsType, GrResourceID = FsID fs\<rparr>]"
    using assms(1) by (auto simp: CreatFileSystem_def split: if_splits)
  have "fs_row_ok d' r" if "r \<in> set (FdFs d)" for r
    using assms(2) that by (auto simp: fs_tables_ok_def fs_row_ok_def d')
  moreover have "fs_row_ok d' (fs\<lparr>FsCreated := now, FsUpdated := now\<rparr>)"
    using assms(3-5) by (simp add: fs_row_ok_def d')
  ultimately show ?thesis using assms(2) new by (auto simp: fs_tables_ok_def d')
qed

lemma fs_tables_delete:
  assumes "model_DeleteFileSystem flt fsID d = Some d'" and "fs_tables_ok d"
  shows "fs_tables_ok d'"
proof -
  have d': "d' = d\<lparr>FdFs := filter (\<lambda>r. FsID r \<noteq> fsID) (FdFs d), FdLinks := filter (\<lambda>l. LkFsID l \<noteq> fsID) (FdLinks d)\<rparr>"
    using assms(1) by (auto simp: model_DeleteFileSystem_def split: if_splits)
  have "\<exists>r\<in>set (FdFs d'). FsID r = LkFsID l" if "l \<in> set (FdLinks d')" for l
  proof -
    have l: "l \<in> set (FdLinks d)" "LkFsID l \<noteq> fsID" using that by (simp_all add: d')
    then obtain r where "r \<in> set (FdFs d)" "FsID r = LkFsID l" using assms(2) unfolding fs_tables_ok_def by blast
    then show ?thesis using l(2) by (intro bexI [of _ r]) (simp_all add: d')
  qed
  moreover have "fs_row_ok d' r" if "r \<in> set (FdFs d')" for r
    using assms(2) that fs_row_ok_grants [of d' d] by (simp add: fs_tables_ok_def d')
  moreover have "distinct (map FsID (FdFs d'))" "sorted_wrt apart (FdLinks d')"
    using assms(2) by (simp_all add: fs_tables_ok_def d' distinct_map_filter sorted_wrt_filter)
  ultimately show ?thesis unfolding fs_tables_ok_def by blast
qed

lemma fs_tables_drop_link:
  assumes "DeleteLinkWithFsIDAndFsPath flt fsID p d = Some d'" and "fs_tables_ok d"
  shows "fs_tables_ok d'"
proof -
  have d': "d' = d\<lparr>FdLinks := filter (\<lambda>l. \<not> (LkFsID l = fsID \<and> LkFsPath l = p)) (FdLinks d)\<rparr>"
    using assms(1) by (auto simp: DeleteLinkWithFsIDAndFsPath_def split: if_splits)
  have "fs_row_ok d' r = fs_row_ok d r" for r by (rule fs_row_ok_grants) (simp add: d')
  then show ?thesis using assms(2) by (simp add: fs_tables_ok_def d' sorted_wrt_filter)
qed

lemma fs_tables_link:
  assumes "model_CreateLink flt now lid l d = Some d'" and "fs_tables_ok d"
    and "\<exists>r\<in>set (FdFs d). FsID r = LkFsID l"
    and "\<forall>k\<in>set (FdLinks d). LkFsID k = LkFsID l \<longrightarrow> \<not> CheckFsNested (LkFsPath l) (LkFsPath k)"
  shows "fs_tables_ok d'"
proof -
  let ?l = "l\<lparr>LkID := (if LkID l \<noteq> '''' then LkID l else lid), LkCreated := now, LkUpdated := now\<rparr>"
  have "d' = d\<lparr>FdLinks := FdLinks d @ [?l]\<rparr>" "LkFsID ?l = LkFsID l" "LkFsPath ?l = LkFsPath l"
    using assms(1) by (simp_all add: model_CreateLink_def split: if_splits)
  then obtain l' where l': "LkFsID l' = LkFsID l" "LkFsPath l' = LkFsPath l" "d' = d\<lparr>FdLinks := FdLinks d @ [l']\<rparr>" by blast
  have "apart k l'" if "k \<in> set (FdLinks d)" for k
    using assms(4) that CheckFsNested_sym by (auto simp: apart_def l')
  moreover have "fs_row_ok d' r = fs_row_ok d r" for r by (rule fs_row_ok_grants) (simp add: l')
  ultimately show ?thesis using assms(2,3) by (auto simp: fs_tables_ok_def sorted_wrt_append l')
qed

section \<open>Requests keep the tables consistent\<close>

lemma validateCreate_fields:
  assumes "validateCreateFileSystem e ce s req = Inr req1"
  shows "CfUsername req1 = CfUsername req \<and> CfName req1 = CfName req \<and> CfUsername req \<noteq> '''' \<and> fs_name_ok (CfName req)"
  using assms unfolding validateCreateFileSystem_def Let_def
  by (auto split: if_splits option.splits prod.splits)

lemma found_fs:
  assumes "GetFileSystemWithFsID flt (fs_ID u n) d = Inr (Some r)"
  shows "r \<in> set (FdFs d) \<and> FsID r = fs_ID u n"
  using assms by (auto simp: GetFileSystemWithFsID_def cond_def find_Some_iff split: if_splits)

lemma validateCreateLink_fields:
  assumes "validateCreateLink e ce s req = Inr req1"
  shows "ClUsername req1 = ClUsername req \<and> ClFsName req1 = ClFsName req \<and> ClFsPath req1 = ClFsPath req"
    and "\<exists>r\<in>set (FdFs (FyDb s)). FsID r = fs_ID (ClUsername req) (ClFsName req)"
    and "\<forall>k\<in>set (FdLinks (FyDb s)). LkFsID k = fs_ID (ClUsername req) (ClFsName req) \<longrightarrow> \<not> CheckFsNested (ClFsPath req) (LkFsPath k)"
proof -
  let ?id = "fs_ID (ClUsername req) (ClFsName req)"
  have path: "checkLinkPath (CeDb ce) (ClFsPath req) ?id (FyDb s)"
    and get: "\<exists>r. GetFileSystemWithFsID (CeDb ce) ?id (FyDb s) = Inr (Some r)"
    and props: "\<exists>p. req1 = req\<lparr>ClProperties := p\<rparr>"
    using assms unfolding validateCreateLink_def Let_def bindE_def
    by (auto split: if_splits option.splits sum.splits prod.splits)
  show "ClUsername req1 = ClUsername req \<and> ClFsName req1 = ClFsName req \<and> ClFsPath req1 = ClFsPath req"
    using props by auto
  show "\<exists>r\<in>set (FdFs (FyDb s)). FsID r = ?id" using get found_fs by blast
  show "\<forall>k\<in>set (FdLinks (FyDb s)). LkFsID k = ?id \<longrightarrow> \<not> CheckFsNested (ClFsPath req) (LkFsPath k)"
    using path by (auto simp: checkLinkPath_def FsNameLinks_def cond_def list_all_iff split: option.splits if_splits)
qed

lemma service_CreateLink_keeps:
  assumes "fs_tables_ok (FyDb s)"
    and "\<exists>r\<in>set (FdFs (FyDb s)). FsID r = fs_ID (ClUsername req) (ClFsName req)"
    and "\<forall>k\<in>set (FdLinks (FyDb s)). LkFsID k = fs_ID (ClUsername req) (ClFsName req) \<longrightarrow> \<not> CheckFsNested (ClFsPath req) (LkFsPath k)"
  shows "fs_tables_ok (FyDb (fst (service_CreateLink ce req s)))"
proof (cases "InformationFromURL (ClUrl req) (ClProperties req)")
  case None
  then show ?thesis using assms(1) by (simp add: service_CreateLink_def)
next
  case (Some i)
  obtain t addr sub p where i: "i = ((t, addr, sub), p)" by (metis prod_cases4 surj_pair)
  have keep: "fs_tables_ok d" if "model_CreateLink flt now lid l (FyDb s) = Some d"
    "LkFsID l = fs_ID (ClUsername req) (ClFsName req)" "LkFsPath l = ClFsPath req" for flt now lid l d
    using fs_tables_link [OF that(1) assms(1)] assms(2,3) by (simp only: that(2,3))
  show ?thesis using assms(1)
    by (auto simp: service_CreateLink_def Some i Let_def split: option.split elim: keep)
qed

text \<open>What a check has established for the step that follows it: the name of a new file system, and the place of a link.\<close>

fun task_named :: "fs_task \<Rightarrow> bool" where
  "task_named (TkCreateRow ce req) = (CfUsername req \<noteq> '''' \<and> fs_name_ok (CfName req))"
| "task_named _ = True"

fun link_checked :: "fs_db \<Rightarrow> fs_task \<Rightarrow> bool" where
  "link_checked d (TkLinkRow ce req) =
     ((\<exists>r\<in>set (FdFs d). FsID r = fs_ID (ClUsername req) (ClFsName req)) \<and>
      (\<forall>k\<in>set (FdLinks d). LkFsID k = fs_ID (ClUsername req) (ClFsName req) \<longrightarrow> \<not> CheckFsNested (ClFsPath req) (LkFsPath k)))"
| "link_checked d _ = True"

lemma fs_rows_keep: "FdFs d' = FdFs d \<Longrightarrow> FdGrants d' = FdGrants d \<Longrightarrow> fs_rows_ok d' = fs_rows_ok d"
  by (simp add: fs_rows_ok_def fs_row_ok_def)

lemma fs_rows_tables: "fs_tables_ok (d\<lparr>FdLinks := []\<rparr>) = fs_rows_ok d"
proof -
  have "fs_row_ok (d\<lparr>FdLinks := []\<rparr>) r = fs_row_ok d r" for r by (rule fs_row_ok_grants) simp
  then show ?thesis by (simp add: fs_tables_ok_def fs_rows_ok_def)
qed

lemma fs_rows_create:
  assumes "CreatFileSystem flt now gid fs d = Some d'" and "fs_rows_ok d"
    and "FsID fs = fs_ID (FsUser fs) (FsName fs)" and "fs_name_ok (FsName fs)" and "FsUser fs \<noteq> ''''"
  shows "fs_rows_ok d'"
proof -
  let ?d = "d\<lparr>FdLinks := []\<rparr>"
  have "CreatFileSystem flt now gid fs ?d = Some (d'\<lparr>FdLinks := []\<rparr>)"
    using assms(1) by (auto simp: CreatFileSystem_def split: if_splits)
  moreover have "fs_tables_ok ?d" using assms(2) by (simp add: fs_rows_tables)
  ultimately have "fs_tables_ok (d'\<lparr>FdLinks := []\<rparr>)" by (rule fs_tables_create) (rule assms)+
  then show ?thesis by (simp add: fs_rows_tables)
qed

lemma fs_rows_delete:
  assumes "model_DeleteFileSystem flt fsID d = Some d'" and "fs_rows_ok d"
  shows "fs_rows_ok d'"
proof -
  have d': "FdFs d' = filter (\<lambda>r. FsID r \<noteq> fsID) (FdFs d)" "FdGrants d' = FdGrants d"
    using assms(1) by (auto simp: model_DeleteFileSystem_def split: if_splits)
  have "fs_row_ok d' r = fs_row_ok d r" for r by (rule fs_row_ok_grants) (rule d'(2))
  then show ?thesis using assms(2) by (simp add: fs_rows_ok_def d'(1) distinct_map_filter)
qed

lemma fs_rows_unlink: "DeleteLinkWithFsIDAndFsPath flt fsID p d = Some d' \<Longrightarrow> fs_rows_ok d' = fs_rows_ok d"
  by (rule fs_rows_keep) (auto simp: DeleteLinkWithFsIDAndFsPath_def split: if_splits)

lemma fs_rows_link: "model_CreateLink flt now lid l d = Some d' \<Longrightarrow> fs_rows_ok d' = fs_rows_ok d"
  by (rule fs_rows_keep) (auto simp: model_CreateLink_def split: if_splits)

text \<open>One step of a task, whatever the others are doing.\<close>

lemma CreateFileSystem_fields:
  assumes "CreateFileSystem ce req s = (s1, r)"
  shows "s1 = s \<or> (\<exists>d fs. CreatFileSystem (CeDb ce) (CeNow ce) (CeUuid ce 0) fs (FyDb s) = Some d \<and> s1 = s\<lparr>FyDb := d\<rparr> \<and>
    FsID fs = fs_ID (CfUsername req) (CfName req) \<and> FsUser fs = CfUsername req \<and> FsName fs = CfName req)"
proof (cases "InformationFromURL (CfUrl req) (CfProperties req)")
  case None
  then show ?thesis using assms by (simp add: CreateFileSystem_def)
next
  case (Some i)
  obtain t addr sub p where i: "i = ((t, addr, sub), p)" by (metis prod_cases4 surj_pair)
  let ?fs = "\<lparr>FsID = fs_ID (CfUsername req) (CfName req), FsCreated = 0, FsUpdated = 0, FsName = CfName req, FsType = t,
    FsServer = addr, FsSubPath = sub, FsProps = (case p of None \<Rightarrow> [] | Some m \<Rightarrow> m), FsUser = CfUsername req\<rparr>"
  show ?thesis
  proof (cases "CreatFileSystem (CeDb ce) (CeNow ce) (CeUuid ce 0) ?fs (FyDb s)")
    case None
    then show ?thesis using assms by (simp add: CreateFileSystem_def Some i Let_def)
  next
    case (Some d)
    then show ?thesis using assms \<open>InformationFromURL (CfUrl req) (CfProperties req) = Some i\<close>
      by (intro disjI2 exI [of _ d] exI [of _ ?fs]) (simp add: CreateFileSystem_def i Let_def)
  qed
qed

lemma service_CreateLink_rows:
  assumes "fs_rows_ok (FyDb s)"
  shows "fs_rows_ok (FyDb (fst (service_CreateLink ce req s)))"
  using assms fs_rows_link by (auto simp: service_CreateLink_def Let_def split: option.split)

lemma task_rows:
  assumes rows: "fs_rows_ok (FyDb s)" and named: "task_named t" and step: "fs_task_step e t s = (s1, t1)"
  shows "fs_rows_ok (FyDb s1) \<and> task_named t1"
proof (cases t)
  case (TkCreate ce user req0)
  then show ?thesis using rows step by (auto dest: validateCreate_fields split: sum.splits if_splits)
next
  case (TkCreateRow ce req)
  obtain s2 r where c: "CreateFileSystem ce req s = (s2, r)" by fastforce
  have "fs_rows_ok (FyDb s2)"
    using CreateFileSystem_fields [OF c] named rows TkCreateRow
    by (auto intro: fs_rows_create)
  moreover have "s1 = s2 \<and> task_named t1" using step TkCreateRow c by (cases r) auto
  ultimately show ?thesis by simp
next
  case (TkDelete ce user queryUser name)
  then show ?thesis using rows step by (auto split: sum.splits)
next
  case (TkDeleteClaims ce fsID)
  then show ?thesis using rows step deletePVC_db [of e "CeK8s ce" fsID s] by (auto split: prod.splits bool.splits)
next
  case (TkDeleteRows ce fsID)
  then show ?thesis using rows step by (auto dest: fs_rows_delete split: option.splits)
next
  case (TkClaims ce namespaces fsIDs)
  then show ?thesis using rows step by (auto split: sum.splits)
next
  case (TkBindClaims ce namespaces fsIDs)
  then show ?thesis using rows step bind_claims_db [of e ce namespaces fsIDs s] by (auto split: prod.splits)
next
  case (TkLink ce user req0)
  then show ?thesis using rows step by (auto split: sum.splits)
next
  case (TkLinkRow ce req)
  then show ?thesis using step service_CreateLink_rows [OF rows, of ce req] by (auto split: prod.splits sum.splits)
next
  case (TkLinkRead ce req)
  then show ?thesis using rows step by (auto split: option.splits)
next
  case (TkLinkFile ce req content)
  then show ?thesis using rows step writeLinksMeta_db [of e ce content "fs_ID (ClUsername req) (ClFsName req)" s]
    by (auto split: prod.splits bool.splits)
next
  case (TkLinkUndo ce req)
  then show ?thesis using rows step by (auto simp: fs_rows_unlink split: option.splits)
next
  case (TkUnlink ce user queryUser fsName fsPath)
  then show ?thesis using rows step by (auto split: sum.splits)
next
  case (TkUnlinkRow ce fsID fsPath)
  then show ?thesis using rows step by (auto simp: fs_rows_unlink split: option.splits)
next
  case (TkUnlinkRead ce fsID)
  then show ?thesis using rows step by (auto split: option.splits)
next
  case (TkUnlinkFile ce fsID content)
  then show ?thesis using rows step by (auto simp: writeLinksMeta_db)
next
  case (TkAnswer r)
  then show ?thesis using rows step by auto
qed

lemma task_tables:
  assumes ok: "fs_tables_ok (FyDb s)" and named: "task_named t" and checked: "link_checked (FyDb s) t"
    and step: "fs_task_step e t s = (s1, t1)"
  shows "fs_tables_ok (FyDb s1) \<and> link_checked (FyDb s1) t1"
proof (cases t)
  case (TkCreate ce user req0)
  then show ?thesis using ok step by (auto split: sum.splits)
next
  case (TkCreateRow ce req)
  obtain s2 r where c: "CreateFileSystem ce req s = (s2, r)" by fastforce
  have "fs_tables_ok (FyDb s2)"
    using CreateFileSystem_fields [OF c] named ok TkCreateRow by (auto intro: fs_tables_create)
  moreover have "s1 = s2 \<and> link_checked (FyDb s2) t1" using step TkCreateRow c by (cases r) auto
  ultimately show ?thesis by simp
next
  case (TkDelete ce user queryUser name)
  then show ?thesis using ok step by (auto split: sum.splits)
next
  case (TkDeleteClaims ce fsID)
  then show ?thesis using ok step deletePVC_db [of e "CeK8s ce" fsID s] by (auto split: prod.splits bool.splits)
next
  case (TkDeleteRows ce fsID)
  then show ?thesis using ok step by (auto dest: fs_tables_delete split: option.splits)
next
  case (TkClaims ce namespaces fsIDs)
  then show ?thesis using ok step by (auto split: sum.splits)
next
  case (TkBindClaims ce namespaces fsIDs)
  then show ?thesis using ok step bind_claims_db [of e ce namespaces fsIDs s] by (auto split: prod.splits)
next
  case (TkLink ce user req0)
  define req where "req = (if ClUsername req0 = '''' then req0\<lparr>ClUsername := user\<rparr> else req0)"
  have st: "s1 = s \<and> t1 = (case validateCreateLink e ce s req of Inl c \<Rightarrow> TkAnswer (Inl c) | Inr req \<Rightarrow> TkLinkRow ce req)"
    using step TkLink by (auto simp: req_def)
  show ?thesis
  proof (cases "validateCreateLink e ce s req")
    case (Inl c)
    then show ?thesis using st ok by simp
  next
    case (Inr req1)
    then show ?thesis using st ok validateCreateLink_fields [OF Inr] by simp
  qed
next
  case (TkLinkRow ce req)
  have "fs_tables_ok (FyDb (fst (service_CreateLink ce req s)))"
    using service_CreateLink_keeps [OF ok] checked TkLinkRow by simp
  then show ?thesis using step TkLinkRow by (auto split: prod.splits sum.splits)
next
  case (TkLinkRead ce req)
  then show ?thesis using ok step by (auto split: option.splits)
next
  case (TkLinkFile ce req content)
  then show ?thesis using ok step writeLinksMeta_db [of e ce content "fs_ID (ClUsername req) (ClFsName req)" s]
    by (auto split: prod.splits bool.splits)
next
  case (TkLinkUndo ce req)
  then show ?thesis using ok step by (auto dest: fs_tables_drop_link split: option.splits)
next
  case (TkUnlink ce user queryUser fsName fsPath)
  then show ?thesis using ok step by (auto split: sum.splits)
next
  case (TkUnlinkRow ce fsID fsPath)
  then show ?thesis using ok step by (auto dest: fs_tables_drop_link split: option.splits)
next
  case (TkUnlinkRead ce fsID)
  then show ?thesis using ok step by (auto split: option.splits)
next
  case (TkUnlinkFile ce fsID content)
  then show ?thesis using ok step by (auto simp: writeLinksMeta_db)
next
  case (TkAnswer r)
  then show ?thesis using ok step by auto
qed

definition machine_rows :: "fs_machine \<Rightarrow> bool" where
  "machine_rows m = (fs_rows_ok (FyDb (FxSys m)) \<and> list_all task_named (FxTasks m))"

lemma list_all_put: "list_all P xs \<Longrightarrow> P x \<Longrightarrow> list_all P (xs[i := x])"
  by (auto simp: list_all_iff dest!: set_update_subset_insert [THEN subsetD])

lemma request_plain: "fs_request t \<Longrightarrow> task_named t \<and> link_checked d t"
  by (cases t) simp_all

lemma answered_checked: "answered t \<Longrightarrow> link_checked d t"
  by (cases t) simp_all

lemma machine_step_cases:
  assumes "fs_machine_step e ev m = Some m'"
  obtains (arrive) t where "ev = FxArrive t" "fs_request t" "m' = m\<lparr>FxTasks := FxTasks m @ [t]\<rparr>"
  | (run) i s t where "ev = FxRun i" "i < length (FxTasks m)" "\<not> answered (FxTasks m ! i)"
      "fs_task_step e (FxTasks m ! i) (FxSys m) = (s, t)" "m' = \<lparr>FxSys = s, FxTasks = (FxTasks m)[i := t]\<rparr>"
  using assms by (cases ev) (auto split: if_splits prod.splits)

lemma machine_rows_step:
  assumes "machine_rows m" and "fs_machine_step e ev m = Some m'"
  shows "machine_rows m'"
  using assms(2)
proof (cases rule: machine_step_cases)
  case (arrive t)
  then show ?thesis using assms(1) request_plain [of t] by (simp add: machine_rows_def)
next
  case (run i s t)
  have "task_named (FxTasks m ! i)" using assms(1) run(2) by (simp add: machine_rows_def list_all_length)
  then have "fs_rows_ok (FyDb s) \<and> task_named t" using task_rows [OF _ _ run(4)] assms(1) by (simp add: machine_rows_def)
  then show ?thesis using assms(1) run(5) by (simp add: machine_rows_def list_all_put)
qed

interpretation fs_server: step_machine "fs_machine_step e" "\<lambda>ev. True" machine_rows for e
  by unfold_locales (rule machine_rows_step)

text \<open>When each request waits for the ones before it, the others are answered while one runs.\<close>

definition machine_links :: "fs_machine \<Rightarrow> bool" where
  "machine_links m =
     (fs_tables_ok (FyDb (FxSys m)) \<and> list_all (link_checked (FyDb (FxSys m))) (FxTasks m) \<and>
      (\<forall>i<length (FxTasks m). \<forall>j<length (FxTasks m). \<not> answered (FxTasks m ! i) \<longrightarrow> \<not> answered (FxTasks m ! j) \<longrightarrow> i = j))"

lemma machine_links_step:
  assumes ok: "machine_links m" "machine_rows m" and step: "fs_machine_step e ev m = Some m'"
    and alone: "\<And>t. ev = FxArrive t \<Longrightarrow> list_all answered (FxTasks m)"
  shows "machine_links m'"
  using step
proof (cases rule: machine_step_cases)
  case (arrive t)
  have "list_all answered (FxTasks m)" by (rule alone [OF arrive(1)])
  then show ?thesis using ok(1) request_plain [OF arrive(2)] arrive(3)
    by (auto simp: machine_links_def nth_append list_all_length less_Suc_eq)
next
  case (run i s t)
  have named: "task_named (FxTasks m ! i)" using ok(2) run(2) by (simp add: machine_rows_def list_all_length)
  have checked: "link_checked (FyDb (FxSys m)) (FxTasks m ! i)" using ok(1) run(2) by (simp add: machine_links_def list_all_length)
  have others: "answered (FxTasks m ! j)" if "j < length (FxTasks m)" "j \<noteq> i" for j
    using ok(1) that run(2,3) unfolding machine_links_def by blast
  have t: "fs_tables_ok (FyDb s) \<and> link_checked (FyDb s) t"
    using task_tables [OF _ named checked run(4)] ok(1) by (simp add: machine_links_def)
  have "link_checked (FyDb s) ((FxTasks m)[i := t] ! j)" if "j < length (FxTasks m)" for j
    using t answered_checked [OF others [OF that]] that by (cases "j = i") simp_all
  then have "list_all (link_checked (FyDb s)) ((FxTasks m)[i := t])" by (simp add: list_all_length)
  moreover have "j = i" if "j < length (FxTasks m)" "\<not> answered ((FxTasks m)[i := t] ! j)" for j
    using others [OF that(1)] that(2) by (cases "j = i") simp_all
  then have "\<forall>k<length (FxTasks m). \<forall>j<length (FxTasks m).
      \<not> answered ((FxTasks m)[i := t] ! k) \<longrightarrow> \<not> answered ((FxTasks m)[i := t] ! j) \<longrightarrow> k = j" by blast
  ultimately show ?thesis using t run(5) unfolding machine_links_def by simp
qed

lemma machine_links_run:
  "run_acts (fs_machine_step e) evs m = Some m' \<Longrightarrow> machine_links m \<Longrightarrow> machine_rows m \<Longrightarrow> one_by_one e evs m \<Longrightarrow> machine_links m'"
proof (induction evs arbitrary: m)
  case (Cons ev evs)
  obtain m1 where m1: "fs_machine_step e ev m = Some m1" "run_acts (fs_machine_step e) evs m1 = Some m'"
    using Cons.prems(1) by (auto split: option.splits)
  have "machine_links m1" by (rule machine_links_step [OF Cons.prems(2,3) m1(1)]) (use Cons.prems(4) in simp)
  then show ?case using Cons.IH [OF m1(2)] machine_rows_step [OF Cons.prems(3) m1(1)] Cons.prems(4) m1(1) by simp
qed simp

section \<open>Properties\<close>

subsection \<open>Consistent tables\<close>

text \<open>
  C20: Whatever requests come, however their steps interleave and whichever calls fail, starting with no file system: the IDs
  are unique, every file system has the ID of its owner and name, the name can be read off the ID, and its owner has a grant for
  it. If moreover no request starts before the ones before it have been answered, every link belongs to a file system, and no two
  links of a file system have paths that \<open>CheckFsNested\<close> calls nested. (It compares what lies between slashes, so it does
  not see that \<open>/a//b\<close> is inside \<open>/a/b\<close>.)
\<close>

theorem fs_tables_consistent:
  assumes "run_acts (fs_machine_step e) evs m0 = Some m" and "FdFs (FyDb (FxSys m0)) = []" and "FdLinks (FyDb (FxSys m0)) = []"
    and "FxTasks m0 = []"
  shows "distinct (map FsID (FdFs (FyDb (FxSys m)))) \<and>
    (\<forall>r\<in>set (FdFs (FyDb (FxSys m))). FsID r = fs_ID (FsUser r) (FsName r) \<and> FSIDToName (FsID r) = FsName r \<and>
       (\<exists>g\<in>set (FdGrants (FyDb (FxSys m))).
          GrUserName g = FsUser r \<and> GrResourceType g = GrantFsType \<and> GrResourceID g = FsID r)) \<and>
    (one_by_one e evs m0 \<longrightarrow>
       (\<forall>l\<in>set (FdLinks (FyDb (FxSys m))). \<exists>r\<in>set (FdFs (FyDb (FxSys m))). FsID r = LkFsID l) \<and>
       (\<forall>i j. i < j \<longrightarrow> j < length (FdLinks (FyDb (FxSys m))) \<longrightarrow>
          LkFsID (FdLinks (FyDb (FxSys m)) ! i) = LkFsID (FdLinks (FyDb (FxSys m)) ! j) \<longrightarrow>
          \<not> CheckFsNested (LkFsPath (FdLinks (FyDb (FxSys m)) ! i)) (LkFsPath (FdLinks (FyDb (FxSys m)) ! j))))"
proof -
  have start: "machine_rows m0" "machine_links m0"
    using assms(2-4) by (simp_all add: machine_rows_def machine_links_def fs_rows_ok_def fs_tables_ok_def)
  have ok: "fs_rows_ok (FyDb (FxSys m))" using fs_server.acts_inv [OF assms(1)] start(1) by (simp add: list_all_iff machine_rows_def)
  have row: "FsID r = fs_ID (FsUser r) (FsName r) \<and> FSIDToName (FsID r) = FsName r \<and>
       (\<exists>g\<in>set (FdGrants (FyDb (FxSys m))). GrUserName g = FsUser r \<and> GrResourceType g = GrantFsType \<and> GrResourceID g = FsID r)"
    if "r \<in> set (FdFs (FyDb (FxSys m)))" for r
  proof -
    have r: "fs_row_ok (FyDb (FxSys m)) r" using ok that by (simp add: fs_rows_ok_def)
    then have "FSIDToName (FsID r) = FsName r" using FSIDToName_ID by (simp add: fs_row_ok_def)
    with r show ?thesis unfolding fs_row_ok_def by (elim conjE) (intro conjI; assumption)
  qed
  have links: "fs_tables_ok (FyDb (FxSys m))" if "one_by_one e evs m0"
    using machine_links_run [OF assms(1) start(2,1) that] by (simp add: machine_links_def)
  have nested: "\<not> CheckFsNested (LkFsPath (FdLinks (FyDb (FxSys m)) ! i)) (LkFsPath (FdLinks (FyDb (FxSys m)) ! j))"
    if "one_by_one e evs m0" "i < j" "j < length (FdLinks (FyDb (FxSys m)))"
      "LkFsID (FdLinks (FyDb (FxSys m)) ! i) = LkFsID (FdLinks (FyDb (FxSys m)) ! j)" for i j
    using links [OF that(1)] that by (simp add: fs_tables_ok_def sorted_wrt_iff_nth_less apart_def)
  have owned: "\<forall>l\<in>set (FdLinks (FyDb (FxSys m))). \<exists>r\<in>set (FdFs (FyDb (FxSys m))). FsID r = LkFsID l" if "one_by_one e evs m0"
    using links [OF that] by (simp add: fs_tables_ok_def)
  show ?thesis using ok row owned nested unfolding fs_rows_ok_def by (intro conjI impI allI ballI) blast+
qed

definition fs_demo_env :: fs_env where
  "fs_demo_env = \<lparr>FeCipher = demo_cipher, FeConnect = (\<lambda>m. True), FeIsDir = (\<lambda>m p. Some True),
     FeIsEmptyDir = (\<lambda>m p. Inr True), FeMarshal = (\<lambda>m. ''{}''), FePV = \<lparr>VtName = ''pfs-$(pfs.fs.id)'', VtHandle = '''',
       VtAttrs = Some [(''pfs.fs.id'', ''''), (''pfs.user.name'', '''')]\<rparr>,
     FePVCName = ''pfs-$(pfs.fs.id)-pvc'', FeServer = ''server'', FeLinkDir = ''/''\<rparr>"

definition fs_demo_call :: fs_call_env where
  "fs_demo_call = \<lparr>CeDb = (\<lambda>c. False), CeK8s = (\<lambda>c. False), CeFile = (\<lambda>c. False), CeNow = 1500,
     CeUuid = (\<lambda>n. if n = 0 then ''u0'' else if n = 1 then ''u1'' else ''u2'')\<rparr>"

definition fs_demo_sys :: fs_sys where
  "fs_demo_sys = \<lparr>FyDb = \<lparr>FdFs = [], FdLinks = [], FdGrants = [], FdNextGrant = 1\<rparr>, FyNamespaces = [''default''],
     FyPV = [], FyPVC = [], FyFiles = []\<rparr>"

definition fs_demo_create :: create_fs_request where
  "fs_demo_create = \<lparr>CfName = ''data'', CfUrl = ''hdfs://h.com:9000/d'',
     CfProperties = Some [(''user'', ''u''), (''group'', ''g'')], CfUsername = ''''\<rparr>"

definition fs_demo_link :: "string \<Rightarrow> create_link_request" where
  "fs_demo_link p = \<lparr>ClFsName = ''data'', ClUrl = ''local://mnt/x'', ClProperties = Some [(''debug'', ''true'')],
     ClUsername = '''', ClFsPath = p\<rparr>"

text \<open>Requests one after the other: the link below \<open>/a\<close> is refused.\<close>

definition fs_demo_machine :: fs_machine where
  "fs_demo_machine = \<lparr>FxSys = fs_demo_sys, FxTasks = []\<rparr>"

definition fs_demo_events :: "fs_event list" where
  "fs_demo_events =
     [FxArrive (TkCreate fs_demo_call ''bob'' fs_demo_create), FxRun 0, FxRun 0,
      FxArrive (TkLink fs_demo_call ''bob'' (fs_demo_link ''/a'')), FxRun 1, FxRun 1, FxRun 1, FxRun 1,
      FxArrive (TkLink fs_demo_call ''bob'' (fs_demo_link ''/a/b'')), FxRun 2,
      FxArrive (TkLink fs_demo_call ''bob'' (fs_demo_link ''/b'')), FxRun 3, FxRun 3, FxRun 3, FxRun 3]"

lemma fs_demo_run:
  "(case run_acts (fs_machine_step fs_demo_env) fs_demo_events fs_demo_machine of
      None \<Rightarrow> False
    | Some m \<Rightarrow> map FsID (FdFs (FyDb (FxSys m))) = [''fs-bob-data''] \<and> map LkFsPath (FdLinks (FyDb (FxSys m))) = [''/a'', ''/b''])"
  by code_simp

lemma fs_demo_serial: "one_by_one fs_demo_env fs_demo_events fs_demo_machine"
  by code_simp

lemma fs_tables_consistent_witness:
  "\<exists>m :: fs_machine. map FsID (FdFs (FyDb (FxSys m))) = [''fs-bob-data''] \<and> map LkFsPath (FdLinks (FyDb (FxSys m))) = [''/a'', ''/b''] \<and>
     (\<forall>l\<in>set (FdLinks (FyDb (FxSys m))). \<exists>r\<in>set (FdFs (FyDb (FxSys m))). FsID r = LkFsID l)"
proof -
  obtain m where m: "run_acts (fs_machine_step fs_demo_env) fs_demo_events fs_demo_machine = Some m"
    "map FsID (FdFs (FyDb (FxSys m))) = [''fs-bob-data''] \<and> map LkFsPath (FdLinks (FyDb (FxSys m))) = [''/a'', ''/b'']"
    using fs_demo_run by (rule case_option_obtain)
  have "FdFs (FyDb (FxSys fs_demo_machine)) = []" "FdLinks (FyDb (FxSys fs_demo_machine)) = []" "FxTasks fs_demo_machine = []"
    by (simp_all add: fs_demo_machine_def fs_demo_sys_def)
  from fs_tables_consistent [OF m(1) this] fs_demo_serial
  have l: "\<forall>l\<in>set (FdLinks (FyDb (FxSys m))). \<exists>r\<in>set (FdFs (FyDb (FxSys m))). FsID r = LkFsID l" by (elim conjE) blast
  show ?thesis by (intro exI [of _ m] conjI l conjunct1 [OF m(2)] conjunct2 [OF m(2)])
qed






subsection \<open>Who may delete a file system\<close>

lemma find_distinct:
  assumes "distinct (map f xs)" and "x \<in> set xs"
  shows "find (\<lambda>y. f x = f y) xs = Some x"
  using assms by (induction xs) (auto simp: image_iff)

lemma delete_claims_ok: "\<forall>c. \<not> kf c \<Longrightarrow> snd (delete_claims kf pvc nss s)"
  by (induction kf pvc nss s rule: delete_claims.induct) (auto split: if_splits)

lemma deletePVC_ok:
  assumes "\<forall>c. \<not> kf c"
  shows "\<exists>s1. deletePVC e kf fsID s = (s1, True) \<and> FyDb s1 = FyDb s"
proof -
  obtain s1 b where r: "deletePVC e kf fsID s = (s1, b)" by fastforce
  have "snd (delete_claims kf (replace_all (FePVCName e) FSIDFormat fsID) (FyNamespaces s) s)"
    using assms by (rule delete_claims_ok)
  moreover have "\<not> kf ListNs" using assms by blast
  ultimately have "snd (deletePVC e kf fsID s)" by (simp only: deletePVC_def if_False)
  then show ?thesis using r deletePVC_db [of e kf fsID s] by simp
qed

lemma DeleteFileSystem_ok:
  assumes "\<forall>c. \<not> CeDb ce c" and "\<forall>c. \<not> CeK8s ce c"
  shows "\<exists>s'. DeleteFileSystem e ce fsID s = (s', Inr ()) \<and>
    FyDb s' = FyDb s\<lparr>FdFs := filter (\<lambda>r. FsID r \<noteq> fsID) (FdFs (FyDb s)), FdLinks := filter (\<lambda>l. LkFsID l \<noteq> fsID) (FdLinks (FyDb s))\<rparr>"
proof -
  obtain s1 where "deletePVC e (CeK8s ce) fsID s = (s1, True)" "FyDb s1 = FyDb s"
    using deletePVC_ok [OF assms(2)] by blast
  then show ?thesis using assms(1) by (simp add: DeleteFileSystem_def model_DeleteFileSystem_def)
qed


lemma fs_ID_parts:
  assumes "fs_name_ok n"
  shows "3 \<le> length (split_on (CHR ''-'') (fs_ID u n)) \<and> split_on (CHR ''-'') (fs_ID u n) ! 0 = ''fs''"
  using split_on_fs_ID [OF assms, of u] split_on_ne [of "CHR ''-''" u] by (cases "split_on (CHR ''-'') u") simp_all

lemma validateDeleteFs_owner:
  assumes "validateDeleteFs ce user '''' name s = Inr fsID"
  shows "user = UserRoot \<or> (\<exists>r\<in>set (FdFs (FyDb s)). FsID r = fsID \<and> FsUser r = user)"
proof -
  obtain r where "GetFileSystemWithFsID (CeDb ce) fsID (FyDb s) = Inr (Some r)" and fs: "fsID \<noteq> ''''"
    and "user = UserRoot \<or> user = FsUser r"
    using assms unfolding validateDeleteFs_def Let_def
    by (auto split: if_splits sum.splits option.splits)
  moreover from this have "r \<in> set (FdFs (FyDb s))" "FsID r = fsID"
    by (auto simp: GetFileSystemWithFsID_def cond_def find_Some_iff split: if_splits)
  ultimately show ?thesis by blast
qed

text \<open>
  C21: Without the user parameter of the request, only root and the owner of a file system can delete it. But the
  parameter is not checked: with \<open>username=root\<close> in the query any user deletes any file system,
  and its links with it.
\<close>

theorem fs_delete_authority:
  assumes "fs_tables_ok (FyDb s)" and "r \<in> set (FdFs (FyDb s))"
    and "\<forall>c. \<not> CeDb ce c" and "\<forall>c. \<not> CeK8s ce c"
  shows "(\<forall>s'. handle_DeleteFileSystem e ce user '''' name s = (s', Inr ()) \<and> r \<notin> set (FdFs (FyDb s')) \<longrightarrow>
       user = UserRoot \<or> user = FsUser r) \<and>
    (\<exists>s'. handle_DeleteFileSystem e ce user ''root'' (FsID r) s = (s', Inr ()) \<and>
       FdFs (FyDb s') = filter (\<lambda>r'. FsID r' \<noteq> FsID r) (FdFs (FyDb s)) \<and>
       FdLinks (FyDb s') = filter (\<lambda>l. LkFsID l \<noteq> FsID r) (FdLinks (FyDb s)))"
proof (intro conjI allI impI)
  fix s' assume del: "handle_DeleteFileSystem e ce user '''' name s = (s', Inr ()) \<and> r \<notin> set (FdFs (FyDb s'))"
  then obtain fsID where v: "validateDeleteFs ce user '''' name s = Inr fsID"
    by (cases "validateDeleteFs ce user '''' name s") (auto simp: handle_DeleteFileSystem_def)
  obtain s1 where s1: "DeleteFileSystem e ce fsID s = (s1, Inr ())"
    "FdFs (FyDb s1) = filter (\<lambda>r. FsID r \<noteq> fsID) (FdFs (FyDb s))"
    using DeleteFileSystem_ok [OF assms(3,4), of e fsID s] by fastforce
  then have "FsID r = fsID" using del v assms(2) by (simp add: handle_DeleteFileSystem_def)
  moreover have "r' = r" if "r' \<in> set (FdFs (FyDb s))" "FsID r' = FsID r" for r'
    using assms(1,2) that by (auto simp: fs_tables_ok_def distinct_map inj_on_def)
  ultimately show "user = UserRoot \<or> user = FsUser r" using validateDeleteFs_owner [OF v] by blast
next
  have r: "FsID r = fs_ID (FsUser r) (FsName r)" "fs_name_ok (FsName r)" and d: "distinct (map FsID (FdFs (FyDb s)))"
    using assms(1,2) by (auto simp: fs_tables_ok_def fs_row_ok_def)
  have "GetFileSystemWithFsID (CeDb ce) (FsID r) (FyDb s) = Inr (Some r)"
    using find_distinct [OF d assms(2)] assms(3) r(1) by (simp add: GetFileSystemWithFsID_def cond_def)
  moreover have "FsName r \<noteq> ''''" using fs_name_no_dash [OF r(2)] by blast
  moreover have "\<not> length (split_on (CHR ''-'') (FsID r)) < 3" "split_on (CHR ''-'') (FsID r) ! 0 = ''fs''"
    using fs_ID_parts [OF r(2), of "FsUser r"] unfolding r(1) by simp_all
  moreover have "FsID r \<noteq> ''''" using r(1) by simp
  ultimately have "validateDeleteFs ce user ''root'' (FsID r) s = Inr (FsID r)"
    by (simp only: validateDeleteFs_def Let_def) simp
  then show "\<exists>s'. handle_DeleteFileSystem e ce user ''root'' (FsID r) s = (s', Inr ()) \<and>
       FdFs (FyDb s') = filter (\<lambda>r'. FsID r' \<noteq> FsID r) (FdFs (FyDb s)) \<and>
       FdLinks (FyDb s') = filter (\<lambda>l. LkFsID l \<noteq> FsID r) (FdLinks (FyDb s))"
    using DeleteFileSystem_ok [OF assms(3,4), of e "FsID r" s] by (auto simp: handle_DeleteFileSystem_def)
qed

definition fs_demo_row :: fs_row where
  "fs_demo_row = \<lparr>FsID = ''fs-bob-data'', FsCreated = 1500, FsUpdated = 1500, FsName = ''data'', FsType = ''hdfs'',
     FsServer = ''h.com:9000'', FsSubPath = ''/d'', FsProps = [], FsUser = ''bob''\<rparr>"

definition fs_demo_grant :: grant_row where
  "fs_demo_grant = \<lparr>GrPk = 1, GrID = ''g1'', GrUserName = ''bob'', GrResourceType = ''fs'', GrResourceID = ''fs-bob-data''\<rparr>"

definition fs_demo_db :: fs_db where
  "fs_demo_db = \<lparr>FdFs = [fs_demo_row], FdLinks = [], FdGrants = [fs_demo_grant], FdNextGrant = 2\<rparr>"

lemma fs_demo_db_ok: "fs_tables_ok fs_demo_db"
proof -
  have "fs_name_ok ''data''" by code_simp
  then show ?thesis
    by (simp add: fs_tables_ok_def fs_row_ok_def fs_demo_db_def fs_demo_row_def fs_demo_grant_def fs_ID_def GrantFsType_def)
qed

lemma fs_delete_authority_witness:
  "\<exists>s'. handle_DeleteFileSystem fs_demo_env fs_demo_call ''eve'' ''root'' ''fs-bob-data'' (fs_demo_sys\<lparr>FyDb := fs_demo_db\<rparr>) = (s', Inr ()) \<and>
     FdFs (FyDb s') = []"
proof -
  have 1: "fs_tables_ok (FyDb (fs_demo_sys\<lparr>FyDb := fs_demo_db\<rparr>))" by (simp add: fs_demo_db_ok)
  have 2: "fs_demo_row \<in> set (FdFs (FyDb (fs_demo_sys\<lparr>FyDb := fs_demo_db\<rparr>)))" by (simp add: fs_demo_db_def)
  have 3: "\<forall>c. \<not> CeDb fs_demo_call c" "\<forall>c. \<not> CeK8s fs_demo_call c" by (simp_all add: fs_demo_call_def)
  have "FsID fs_demo_row = ''fs-bob-data''" by (simp add: fs_demo_row_def)
  moreover have "FdFs fs_demo_db = [fs_demo_row]" by (simp add: fs_demo_db_def)
  ultimately show ?thesis
    using conjunct2 [OF fs_delete_authority [OF 1 2 3, of fs_demo_env "''eve''"]] by auto
qed

subsection \<open>The file with the links\<close>

text \<open>The paths the replacement uses are different.\<close>

definition link_paths_ok :: "fs_env \<Rightarrow> fs_call_env \<Rightarrow> bool" where
  "link_paths_ok e ce = (let d = path_Join [FeLinkDir e, ''.config''] in
     distinct [path_Join [d, CeUuid ce 1], path_Join [d, CeUuid ce 2], link_meta_path (FeLinkDir e)])"

text \<open>The only copy is lost: the old file is moved away, the new one cannot be moved into its place, and the old one
  cannot be moved back.\<close>

definition link_file_lost :: "fs_call_env \<Rightarrow> bool" where
  "link_file_lost ce = (\<not> CeDb ce FcGetFs \<and> \<not> CeFile ce FlClient \<and> \<not> CeFile ce FlMkdir \<and> \<not> CeFile ce FlSave \<and> \<not> CeFile ce FlExist \<and>
     \<not> CeFile ce FlRenameOld \<and> CeFile ce FlRenameNew \<and> CeFile ce FlRenameBack)"

lemma move_file_get:
  "mget (FyFiles (move_file i p q s)) k =
     (case mget (FyFiles s) (i, p) of None \<Rightarrow> mget (FyFiles s) k
      | Some c \<Rightarrow> if k = (i, q) then Some c else if k = (i, p) then None else mget (FyFiles s) k)"
  by (auto simp: move_file_def split: option.split)

lemma remove_file_get: "mget (FyFiles (remove_file i p s)) k = (if k = (i, p) then None else mget (FyFiles s) k)"
  by (simp add: remove_file_def)

lemma writeLinksMeta_file:
  assumes "link_paths_ok e ce"
  shows "case writeLinksMeta e ce content fsID s of (s', saved) \<Rightarrow>
    mget (FyFiles s') (fsID, link_meta_path (FeLinkDir e)) =
      (if saved then Some content else if link_file_lost ce then None
       else mget (FyFiles s) (fsID, link_meta_path (FeLinkDir e))) \<and>
    (link_file_lost ce \<and> \<not> CeFile ce FlRemove \<and> mget (FyFiles s) (fsID, link_meta_path (FeLinkDir e)) \<noteq> None \<longrightarrow>
      \<not> saved \<and> mget (FyFiles s') (fsID, path_Join [path_Join [FeLinkDir e, ''.config''], CeUuid ce 2]) = None)"
proof -
  define dst where "dst = link_meta_path (FeLinkDir e)"
  define src where "src = path_Join [path_Join [FeLinkDir e, ''.config''], CeUuid ce 1]"
  define tmp where "tmp = path_Join [path_Join [FeLinkDir e, ''.config''], CeUuid ce 2]"
  have ne: "src \<noteq> tmp" "src \<noteq> dst" "tmp \<noteq> dst"
    using assms by (simp_all add: link_paths_ok_def Let_def src_def tmp_def dst_def)
  show ?thesis
    unfolding writeLinksMeta_def Let_def dst_def [symmetric] src_def [symmetric] tmp_def [symmetric] link_file_lost_def
    using ne by (auto simp: move_file_get remove_file_get split: option.splits prod.splits)
qed

text \<open>
  C40: The file with the links of a file system after \<open>writeLinksMeta\<close>: on success it holds the new content. On an error it
  holds what it held before, in every case but one: if neither the new file can be renamed nor the old one renamed
  back, the file is gone; and the deferred call then removes the only copy of its content as well.
\<close>

theorem link_file_outcomes:
  assumes "link_paths_ok e ce" and "writeLinksMeta e ce content fsID s = (s', saved)"
  shows "mget (FyFiles s') (fsID, link_meta_path (FeLinkDir e)) =
      (if saved then Some content else if link_file_lost ce then None
       else mget (FyFiles s) (fsID, link_meta_path (FeLinkDir e))) \<and>
    (link_file_lost ce \<and> \<not> CeFile ce FlRemove \<and> mget (FyFiles s) (fsID, link_meta_path (FeLinkDir e)) \<noteq> None \<longrightarrow>
      \<not> saved \<and> mget (FyFiles s') (fsID, path_Join [path_Join [FeLinkDir e, ''.config''], CeUuid ce 2]) = None)"
  using writeLinksMeta_file [OF assms(1), of fsID content s] unfolding assms(2) prod.case .

lemma fs_demo_paths: "link_paths_ok fs_demo_env fs_demo_call"
  by code_simp

definition fs_demo_lost :: fs_call_env where
  "fs_demo_lost = fs_demo_call\<lparr>CeFile := (\<lambda>c. c = FlRenameNew \<or> c = FlRenameBack)\<rparr>"

lemma link_file_outcomes_witness:
  "\<exists>s' :: fs_sys. writeLinksMeta fs_demo_env fs_demo_lost ''new'' ''f''
       (fs_demo_sys\<lparr>FyFiles := [((''f'', link_meta_path ''/''), ''old'')]\<rparr>) = (s', False) \<and>
     mget (FyFiles s') (''f'', link_meta_path ''/'') = None \<and> mget (FyFiles s') (''f'', ''/.config/u2'') = None"
proof -
  let ?s = "fs_demo_sys\<lparr>FyFiles := [((''f'', link_meta_path ''/''), ''old'')]\<rparr>"
  obtain s' saved where w: "writeLinksMeta fs_demo_env fs_demo_lost ''new'' ''f'' ?s = (s', saved)" by fastforce
  have p: "link_paths_ok fs_demo_env fs_demo_lost" "link_file_lost fs_demo_lost" "\<not> CeFile fs_demo_lost FlRemove"
    "FeLinkDir fs_demo_env = ''/''" "CeUuid fs_demo_lost 2 = ''u2''" "path_Join [path_Join [''/'', ''.config''], ''u2''] = ''/.config/u2''"
    by code_simp+
  have "mget (FyFiles ?s) (''f'', link_meta_path ''/'') = Some ''old''" by (simp add: mget_def)
  then show ?thesis using link_file_outcomes [OF p(1) w] w by (simp add: p)
qed

text \<open>
  C22: What the server writes, the clients read: if \<open>PersistLinksMeta\<close> succeeds, the file holds a text from which
  a client with the inverse cipher and decoder, seeing a newer file, takes exactly the links of that file system
  in the table, under their paths.
\<close>

theorem link_file_roundtrip:
  fixes uf :: "'w ufs_ops" and m :: "'w meta"
  assumes "PersistLinksMeta e ce fsID s = (s', True)" and "link_paths_ok e ce" and "fsID \<noteq> ''''"
    and "cipher_ok (FeCipher e) dec"
    and "FeMarshal e (links_map (filter (\<lambda>l. LkFsID l = fsID) (FdLinks (FyDb s)))) \<noteq> ''''"
    and "decode (FeMarshal e (links_map (filter (\<lambda>l. LkFsID l = fsID) (FdLinks (FyDb s))))) =
      Some (links_map (filter (\<lambda>l. LkFsID l = fsID) (FdLinks (FyDb s))))"
    and "getAttr uf m (link_meta_path (FeLinkDir e)) = Inr a" and "MtUT m < fst (AtMtime a)"
    and "map_sum id Some (UfReadFile uf (MtDefault m) (link_meta_path (FeLinkDir e)) (AtSize a) (MtWorld m)) =
      Inr (mget (FyFiles s') (fsID, link_meta_path (FeLinkDir e)))"
  shows "linksMetaUpdate uf dec decode (FeLinkDir e) m =
    (case UpdateUFSMap uf (links_map (filter (\<lambda>l. LkFsID l = fsID) (FdLinks (FyDb s)))) m of
       (m1, Inl err) \<Rightarrow> (m1, False) | (m1, Inr u) \<Rightarrow> (m1\<lparr>MtUT := fst (AtMtime a)\<rparr>, True))"
proof -
  let ?ls = "filter (\<lambda>l. LkFsID l = fsID) (FdLinks (FyDb s))"
  have "length AESEncryptKey = BlockSize" by (simp add: AESEncryptKey_def BlockSize_def)
  from AesDecrypt_AesEncrypt [OF assms(4,5) this] obtain c where
    c: "AesEncrypt (FeCipher e) (FeMarshal e (links_map ?ls)) AESEncryptKey = Inr c" "c \<noteq> ''''"
      "AesDecrypt dec c AESEncryptKey = Inr (FeMarshal e (links_map ?ls))" by blast
  have "FsNameLinks (CeDb ce) fsID (FyDb s) = Some ?ls"
  proof -
    have "(\<lambda>l :: link_row. cond fsID (LkFsID l)) = (\<lambda>l. LkFsID l = fsID)" using assms(3) by (auto simp: cond_def)
    moreover have "\<not> CeDb ce FcFindLinks" using assms(1) by (auto simp: PersistLinksMeta_def FsNameLinks_def)
    ultimately show ?thesis by (simp add: FsNameLinks_def)
  qed
  then have "writeLinksMeta e ce c fsID s = (s', True)" using assms(1) c(1) by (simp add: PersistLinksMeta_def)
  then have "mget (FyFiles s') (fsID, link_meta_path (FeLinkDir e)) = Some c"
    using writeLinksMeta_file [OF assms(2), of fsID c s] by simp
  then have "UfReadFile uf (MtDefault m) (link_meta_path (FeLinkDir e)) (AtSize a) (MtWorld m) = Inr c"
    using assms(9) by (cases "UfReadFile uf (MtDefault m) (link_meta_path (FeLinkDir e)) (AtSize a) (MtWorld m)") simp_all
  then show ?thesis using assms(6-8) c(2,3)
    by (simp add: linksMetaUpdate_def link_meta_path_def)
qed

definition fs_demo_ufs :: "string ufs_ops" where
  "fs_demo_ufs = \<lparr>UfGetAttr = (\<lambda>u p w. Inr (demo_info p\<lparr>FiMtime := 5, FiSys := map_option (\<lambda>st. st\<lparr>StMtim := (5, 0)\<rparr>) (FiSys (demo_info p))\<rparr>)), UfChown = (\<lambda>u p i j w. (w, Inr ())),
     UfChmod = (\<lambda>u p i w. (w, Inr ())), UfUtimens = (\<lambda>u p a b w. (w, Inr ())), UfTruncate = (\<lambda>u p n w. (w, Inr ())),
     UfMknod = (\<lambda>u p i j w. (w, Inr ())), UfMkdir = (\<lambda>u p i w. (w, Inr ())), UfCreate = (\<lambda>u p i j w. (w, Inr ())),
     UfUnlink = (\<lambda>u p w. (w, Inr ())), UfRmdir = (\<lambda>u p w. (w, Inr ())), UfRename = (\<lambda>u p q w. (w, Inr ())),
     UfReadDir = (\<lambda>u p w. Inr []), UfGetXAttr = (\<lambda>u p a w. Inr ''''), UfListXAttr = (\<lambda>u p w. Inr []),
     UfSetXAttr = (\<lambda>u p a d i w. (w, Inr ())), UfRemoveXAttr = (\<lambda>u p a w. (w, Inr ())),
     UfReadFile = (\<lambda>u p n w. Inr w), UfNew = (\<lambda>t p w. (w, Inr 7))\<rparr>"

definition fs_demo_link_row :: link_row where
  "fs_demo_link_row = \<lparr>LkID = ''u0'', LkCreated = 1500, LkUpdated = 1500, LkFsID = ''fs-bob-data'', LkFsPath = ''/a'', LkServer = '''',
     LkSubPath = ''/mnt/x'', LkType = ''local'', LkProps = [], LkUser = ''bob''\<rparr>"

definition fs_demo_linked :: fs_sys where
  "fs_demo_linked = fs_demo_sys\<lparr>FyDb := fs_demo_db\<lparr>FdLinks := [fs_demo_link_row]\<rparr>\<rparr>"

definition fs_demo_client :: "string \<Rightarrow> string meta" where
  "fs_demo_client c = \<lparr>MtTree = InitRootNode NewInodeHandle, MtDefault = 0, MtLinks = [], MtUT = 0, MtWorld = c\<rparr>"

lemma link_file_roundtrip_witness:
  "\<exists>s' :: fs_sys. \<exists>c. PersistLinksMeta fs_demo_env fs_demo_call ''fs-bob-data'' fs_demo_linked = (s', True) \<and>
     mget (FyFiles s') (''fs-bob-data'', ''/.config/links_meta'') = Some c \<and>
     linksMetaUpdate fs_demo_ufs demo_cipher (\<lambda>t. Some [link_meta fs_demo_link_row]) ''/'' (fs_demo_client c) =
       (fs_demo_client c\<lparr>MtLinks := [(''/a'', 7)], MtUT := 5\<rparr>, True)"
proof -
  obtain s' b where p: "PersistLinksMeta fs_demo_env fs_demo_call ''fs-bob-data'' fs_demo_linked = (s', b)" by fastforce
  have "(case PersistLinksMeta fs_demo_env fs_demo_call ''fs-bob-data'' fs_demo_linked of
     (s', b) \<Rightarrow> b \<and> mget (FyFiles s') (''fs-bob-data'', ''/.config/links_meta'') \<noteq> None)" by code_simp
  then obtain c where b: "b" and c: "mget (FyFiles s') (''fs-bob-data'', ''/.config/links_meta'') = Some c" by (auto simp: p)
  have dir: "FeLinkDir fs_demo_env = ''/''" "link_meta_path ''/'' = ''/.config/links_meta''" by code_simp+
  have links: "filter (\<lambda>l. LkFsID l = ''fs-bob-data'') (FdLinks (FyDb fs_demo_linked)) = [fs_demo_link_row]"
    by (simp add: fs_demo_linked_def fs_demo_link_row_def)
  have lm: "links_map [fs_demo_link_row] = [link_meta fs_demo_link_row]" by (simp add: links_map_def mput_def)
  have ciph: "FeCipher fs_demo_env = demo_cipher" "cipher_ok demo_cipher demo_cipher" "FeMarshal fs_demo_env x \<noteq> ''''" for x
    by (simp_all add: fs_demo_env_def cipher_ok_def demo_cipher_def)
  have "(case getAttr fs_demo_ufs (fs_demo_client c) ''/.config/links_meta'' of Inl err \<Rightarrow> False | Inr a \<Rightarrow> fst (AtMtime a) = 5)"
    by code_simp
  then obtain a where a: "getAttr fs_demo_ufs (fs_demo_client c) ''/.config/links_meta'' = Inr a" "fst (AtMtime a) = 5"
    by (auto split: sum.splits)
  have up: "UpdateUFSMap fs_demo_ufs [link_meta fs_demo_link_row] (fs_demo_client c) =
     (fs_demo_client c\<lparr>MtLinks := [(''/a'', 7)]\<rparr>, Inr ())"
  proof -
    have "path_Clean ''/a'' = ''/a''" by code_simp
    then show ?thesis
      by (simp add: UpdateUFSMap_def newUFS_def link_meta_def fs_demo_link_row_def fs_demo_ufs_def fs_demo_client_def mput_def)
  qed
  have fields: "MtUT (fs_demo_client c) = 0" "MtWorld (fs_demo_client c) = c" "UfReadFile fs_demo_ufs u q n w = Inr w" for u q n w
    by (simp_all add: fs_demo_client_def fs_demo_ufs_def)
  have "linksMetaUpdate fs_demo_ufs demo_cipher (\<lambda>t. Some [link_meta fs_demo_link_row]) (FeLinkDir fs_demo_env) (fs_demo_client c) =
       (fs_demo_client c\<lparr>MtLinks := [(''/a'', 7)], MtUT := 5\<rparr>, True)"
    by (subst link_file_roundtrip [OF p [unfolded eqTrueI [OF b]] fs_demo_paths, where a = a])
      (simp_all add: dir links lm ciph a c up fields)
  then show ?thesis using p b c by (auto simp: dir)
qed

subsection \<open>Pages\<close>

text \<open>The rows a client gets that follows the markers, with a bound on the number of pages.\<close>

fun fs_pages :: "nat \<Rightarrow> fs_call_env \<Rightarrow> int \<Rightarrow> int option \<Rightarrow> string \<Rightarrow> string \<Rightarrow> bool \<Rightarrow> fs_sys \<Rightarrow> fs_row list" where
  "fs_pages 0 ce maxKeys marker username fsName isRoot s = []"
| "fs_pages (Suc n) ce maxKeys marker username fsName isRoot s =
     (case ListFileSystem ce maxKeys marker username fsName isRoot s of
        Inl c \<Rightarrow> []
      | Inr (rows, None) \<Rightarrow> rows
      | Inr (rows, Some m) \<Rightarrow> rows @ fs_pages n ce maxKeys (Some m) username fsName isRoot s)"

text \<open>The rows a listing is about, newest first.\<close>

definition fs_listing :: "string \<Rightarrow> string \<Rightarrow> bool \<Rightarrow> fs_sys \<Rightarrow> fs_row list" where
  "fs_listing username fsName isRoot s =
     newest_first FsCreated (filter (\<lambda>r. cond (if isRoot then '''' else username) (FsUser r) \<and> cond fsName (FsName r)) (FdFs (FyDb s)))"

definition first_marker :: "fs_call_env \<Rightarrow> int option \<Rightarrow> int" where
  "first_marker ce marker = (case marker of None \<Rightarrow> marker_of (CeNow ce) | Some m \<Rightarrow> m)"

definition older :: "int \<Rightarrow> fs_row list \<Rightarrow> fs_row list" where
  "older m rows = filter (\<lambda>r. FsCreated r \<le> m) rows"

lemma ListFileSystem_eq:
  assumes "\<not> CeDb ce FcListFs" and "0 < maxKeys"
  shows "ListFileSystem ce maxKeys marker u n isRoot s =
    Inr (page_of FsUpdated maxKeys (take (nat (maxKeys + 1)) (older (first_marker ce marker) (fs_listing u n isRoot s))))"
proof -
  have "newest_first FsCreated (filter (\<lambda>r. P r \<and> Q r \<and> FsCreated r \<le> m) xs) =
      older m (newest_first FsCreated (filter (\<lambda>r. P r \<and> Q r) xs))" for P Q m and xs :: "fs_row list"
    by (simp add: newest_first_def older_def rev_filter [symmetric] filter_sort conj_assoc)
  then show ?thesis using assms
    by (simp add: ListFileSystem_def model_ListFileSystem_def limit_rows_def fs_listing_def first_marker_def)
qed

lemma page_of_take:
  assumes "0 < k"
  shows "page_of f (int k) (take (Suc k) xs) =
    (if k < length xs then (take k xs, Some (marker_of (f (xs ! k)))) else (xs, None))"
proof (cases "k < length xs")
  case True
  then have "take (Suc k) xs = take k xs @ [xs ! k]" by (simp add: take_Suc_conv_app_nth)
  then show ?thesis using True by (simp add: page_of_def)
next
  case False
  then show ?thesis by (simp add: page_of_def)
qed

lemma older_nth:
  assumes "sorted_wrt (\<lambda>a b. FsCreated a > FsCreated b) xs" and "k < length xs"
  shows "older (FsCreated (xs ! k)) xs = drop k xs"
proof -
  have "filter (\<lambda>r. FsCreated r \<le> FsCreated (xs ! k)) (take k xs) = []"
    using assms by (fastforce simp: filter_empty_conv in_set_conv_nth sorted_wrt_iff_nth_less)
  moreover have "filter (\<lambda>r. FsCreated r \<le> FsCreated (xs ! k)) (drop k xs) = drop k xs"
  proof (rule filter_True, rule ballI)
    fix r assume "r \<in> set (drop k xs)"
    then obtain i where "i < length xs - k" "r = xs ! (k + i)" by (auto simp: in_set_conv_nth)
    then show "FsCreated r \<le> FsCreated (xs ! k)"
      using assms by (cases "i = 0") (auto simp: sorted_wrt_iff_nth_less less_imp_le)
  qed
  ultimately show ?thesis unfolding older_def by (subst append_take_drop_id [of k xs, symmetric]) (simp only: filter_append append_Nil)
qed

lemma older_older: "m' \<le> m \<Longrightarrow> older m' (older m xs) = older m' xs"
  by (auto simp: older_def intro!: filter_cong)

lemma older_sorted: "sorted_wrt P xs \<Longrightarrow> sorted_wrt P (older m xs)"
  by (simp add: older_def sorted_wrt_filter)

lemma fs_pages_all:
  assumes "\<not> CeDb ce FcListFs" and "0 < k"
    and "sorted_wrt (\<lambda>a b. FsCreated a > FsCreated b) (fs_listing u nm isRoot s)"
    and "\<forall>r\<in>set (fs_listing u nm isRoot s). FsUpdated r = FsCreated r \<and> 1000 dvd FsCreated r"
    and "length (older (first_marker ce marker) (fs_listing u nm isRoot s)) \<le> n * k"
  shows "fs_pages (Suc n) ce (int k) marker u nm isRoot s = older (first_marker ce marker) (fs_listing u nm isRoot s)"
  using assms(5)
proof (induction n arbitrary: marker)
  case 0
  then have "older (first_marker ce marker) (fs_listing u nm isRoot s) = []" by simp
  then show ?case using assms(1,2) by (simp add: ListFileSystem_eq page_of_def)
next
  case (Suc n)
  let ?L = "older (first_marker ce marker) (fs_listing u nm isRoot s)"
  have page: "ListFileSystem ce (int k) marker u nm isRoot s =
    Inr (if k < length ?L then (take k ?L, Some (marker_of (FsUpdated (?L ! k)))) else (?L, None))"
    using assms(1,2) page_of_take [OF assms(2), of FsUpdated ?L] by (simp add: ListFileSystem_eq nat_add_distrib)
  show ?case
  proof (cases "k < length ?L")
    case False
    then show ?thesis using page by simp
  next
    case True
    let ?x = "?L ! k"
    have x: "?x \<in> set ?L" using True by simp
    then have x': "?x \<in> set (fs_listing u nm isRoot s)" "FsCreated ?x \<le> first_marker ce marker" by (simp_all add: older_def)
    then have m: "marker_of (FsUpdated ?x) = FsCreated ?x" using assms(4) by (simp add: marker_of_def)
    have "older (FsCreated ?x) (fs_listing u nm isRoot s) = older (FsCreated ?x) ?L" using x'(2) by (simp add: older_older)
    also have "\<dots> = drop k ?L" by (rule older_nth [OF older_sorted [OF assms(3)] True])
    finally have rest: "older (FsCreated ?x) (fs_listing u nm isRoot s) = drop k ?L" .
    have "fs_pages (Suc n) ce (int k) (Some (FsCreated ?x)) u nm isRoot s = drop k ?L"
      using Suc.IH [of "Some (FsCreated ?x)"] Suc.prems rest by (simp add: first_marker_def)
    then show ?thesis using page True m by (subst fs_pages.simps) simp
  qed
qed

lemma marker_of_le: "marker_of t \<le> t"
  by (simp add: marker_of_def)

lemma marker_of_less: "\<not> 1000 dvd t \<Longrightarrow> marker_of t < t"
  using marker_of_le [of t] unfolding marker_of_def by (metis dvd_triv_right order_le_less)

lemma fs_pages_bound:
  assumes "\<not> CeDb ce FcListFs" and "0 < k" and "\<forall>r\<in>set (fs_listing u nm isRoot s). FsUpdated r = FsCreated r"
    and "r \<in> set (fs_pages n ce (int k) (Some m) u nm isRoot s)"
  shows "FsCreated r \<le> m"
  using assms(4)
proof (induction n arbitrary: m)
  case (Suc n)
  let ?L = "older m (fs_listing u nm isRoot s)"
  have page: "ListFileSystem ce (int k) (Some m) u nm isRoot s =
    Inr (if k < length ?L then (take k ?L, Some (marker_of (FsUpdated (?L ! k)))) else (?L, None))"
    using assms(1,2) page_of_take [OF assms(2), of FsUpdated ?L] by (simp add: ListFileSystem_eq nat_add_distrib first_marker_def)
  show ?case
  proof (cases "r \<in> set ?L")
    case True
    then show ?thesis by (simp add: older_def)
  next
    case False
    then have "k < length ?L" and rest: "r \<in> set (fs_pages n ce (int k) (Some (marker_of (FsUpdated (?L ! k)))) u nm isRoot s)"
      using Suc.prems page by (auto split: if_splits dest: in_set_takeD)
    then have "?L ! k \<in> set ?L" by simp
    then have x: "?L ! k \<in> set (fs_listing u nm isRoot s)" "FsCreated (?L ! k) \<le> m" by (simp_all add: older_def)
    have "FsCreated r \<le> marker_of (FsUpdated (?L ! k))" by (rule Suc.IH [OF rest])
    also have "\<dots> \<le> FsUpdated (?L ! k)" by (rule marker_of_le)
    also have "\<dots> \<le> m" using x assms(3) by simp
    finally show ?thesis .
  qed
qed simp

text \<open>
  Following the markers of the file system listing: if all rows were created at different whole seconds, the pages
  together are the listing, newest first, each row once. But a marker is cut to seconds: a row
  right behind the first page that was not created at a whole second is on no page at all.
\<close>

theorem fs_pages_complete:
  assumes "\<not> CeDb ce FcListFs" and "0 < k"
    and "sorted_wrt (\<lambda>a b. FsCreated a > FsCreated b) (fs_listing u nm isRoot s)"
    and "\<forall>r\<in>set (fs_listing u nm isRoot s). FsUpdated r = FsCreated r"
  shows "((\<forall>r\<in>set (fs_listing u nm isRoot s). 1000 dvd FsCreated r) \<longrightarrow>
      length (older (first_marker ce marker) (fs_listing u nm isRoot s)) \<le> n * k \<longrightarrow>
      fs_pages (Suc n) ce (int k) marker u nm isRoot s = older (first_marker ce marker) (fs_listing u nm isRoot s)) \<and>
    (\<forall>x. k < length (older (first_marker ce marker) (fs_listing u nm isRoot s)) \<and>
       x = older (first_marker ce marker) (fs_listing u nm isRoot s) ! k \<and> \<not> 1000 dvd FsCreated x \<longrightarrow>
       x \<notin> set (fs_pages n ce (int k) marker u nm isRoot s))"
proof (intro conjI impI allI)
  assume "\<forall>r\<in>set (fs_listing u nm isRoot s). 1000 dvd FsCreated r"
    and "length (older (first_marker ce marker) (fs_listing u nm isRoot s)) \<le> n * k"
  then show "fs_pages (Suc n) ce (int k) marker u nm isRoot s = older (first_marker ce marker) (fs_listing u nm isRoot s)"
    using assms by (intro fs_pages_all) simp_all
next
  fix x
  let ?L = "older (first_marker ce marker) (fs_listing u nm isRoot s)"
  assume "k < length ?L \<and> x = ?L ! k \<and> \<not> 1000 dvd FsCreated x"
  then have k: "k < length ?L" and x: "x = ?L ! k" and sub: "marker_of (FsCreated x) < FsCreated x"
    using marker_of_less by auto
  have "x \<in> set ?L" using k x by simp
  then have up: "FsUpdated x = FsCreated x" using assms(4) by (simp add: older_def)
  have "sorted_wrt (\<lambda>a b. FsCreated a > FsCreated b) ?L" by (rule older_sorted [OF assms(3)])
  then have new: "x \<notin> set (take k ?L)" using k x by (fastforce simp: in_set_conv_nth sorted_wrt_iff_nth_less)
  have page: "ListFileSystem ce (int k) marker u nm isRoot s = Inr (take k ?L, Some (marker_of (FsCreated x)))"
    using assms(1,2) page_of_take [OF assms(2), of FsUpdated ?L] k x up by (simp add: ListFileSystem_eq nat_add_distrib)
  show "x \<notin> set (fs_pages n ce (int k) marker u nm isRoot s)"
  proof (cases n)
    case (Suc n')
    have "x \<notin> set (fs_pages n' ce (int k) (Some (marker_of (FsCreated x))) u nm isRoot s)"
      using fs_pages_bound [OF assms(1,2,4)] sub by fastforce
    then show ?thesis using page new Suc by simp
  qed simp
qed

definition fs_demo_rows :: "int list \<Rightarrow> fs_sys" where
  "fs_demo_rows ts = fs_demo_sys\<lparr>FyDb := fs_demo_db\<lparr>FdFs := map (\<lambda>t. fs_demo_row\<lparr>FsCreated := t, FsUpdated := t\<rparr>) ts\<rparr>\<rparr>"

lemma fs_pages_complete_witness:
  "fs_pages 4 fs_demo_call 1 (Some 9000) ''bob'' '''' False (fs_demo_rows [1000, 2000, 3000]) =
     fs_listing ''bob'' '''' False (fs_demo_rows [1000, 2000, 3000]) \<and>
   fs_demo_row\<lparr>FsCreated := 1500, FsUpdated := 1500\<rparr> \<notin>
     set (fs_pages 4 fs_demo_call 1 (Some 9000) ''bob'' '''' False (fs_demo_rows [1500, 2000]))"
proof -
  let ?row = "\<lambda>t. fs_demo_row\<lparr>FsCreated := t, FsUpdated := t\<rparr>"
  have l: "fs_listing ''bob'' '''' False (fs_demo_rows [1000, 2000, 3000]) = [?row 3000, ?row 2000, ?row 1000]"
    "fs_listing ''bob'' '''' False (fs_demo_rows [1500, 2000]) = [?row 2000, ?row 1500]"
    by (simp_all add: fs_listing_def fs_demo_rows_def fs_demo_row_def cond_def newest_first_def)
  have f: "\<not> CeDb fs_demo_call FcListFs" "0 < (1 :: nat)" by (simp_all add: fs_demo_call_def)
  have m: "first_marker fs_demo_call (Some 9000) = 9000" by (simp add: first_marker_def)
  have 1: "fs_pages (Suc 3) fs_demo_call (int 1) (Some 9000) ''bob'' '''' False (fs_demo_rows [1000, 2000, 3000]) =
     older 9000 (fs_listing ''bob'' '''' False (fs_demo_rows [1000, 2000, 3000]))"
    using conjunct1 [OF fs_pages_complete [OF f, where marker = "Some 9000" and n = 3]] by (simp add: l m older_def)
  have 2: "?row 1500 \<notin> set (fs_pages 4 fs_demo_call (int 1) (Some 9000) ''bob'' '''' False (fs_demo_rows [1500, 2000]))"
    using conjunct2 [OF fs_pages_complete [OF f, where marker = "Some 9000" and n = 4 and u = "''bob''" and nm = "''''" and isRoot = False
          and s = "fs_demo_rows [1500, 2000]"]] by (simp add: l m older_def)
  show ?thesis using 1 2 by (simp add: older_def l)
qed

subsection \<open>Volumes\<close>

abbreviation pv_name :: "fs_env \<Rightarrow> string \<Rightarrow> string \<Rightarrow> string" where
  "pv_name e namespace fsID \<equiv> replace_all (replace_all (VtName (FePV e)) FSIDFormat fsID) NameSpaceFormat namespace"

lemma createPV_new:
  assumes "\<forall>c. \<not> kf c" and "mget (FyPV s) (pv_name e ns fsID) = None"
    and "VtAttrs (FePV e) = Some a" and "mget a ''pfs.fs.id'' \<noteq> None" and "mget a ''pfs.user.name'' \<noteq> None"
  shows "\<exists>s1 v attrs. createPV e kf ns fsID u s = (s1, Inr (pv_name e ns fsID)) \<and> mget (FyPV s1) (pv_name e ns fsID) = Some v \<and>
    PvAttrs v = Some attrs \<and> mget attrs ''pfs.fs.id'' = Some fsID \<and> mget attrs ''pfs.user.name'' = Some u \<and>
    FyPVC s1 = FyPVC s"
  using assms by (auto simp: createPV_def Let_def put_if_present_def)

lemma createPV_keeps:
  assumes "\<forall>c. \<not> kf c"
  shows "\<exists>s1 p. createPV e kf ns fsID u s = (s1, Inr p) \<and> (\<forall>n v. mget (FyPV s) n = Some v \<longrightarrow> mget (FyPV s1) n = Some v)"
  using assms by (auto simp: createPV_def Let_def)

lemma createPVC_keeps:
  assumes "\<forall>c. \<not> kf c"
  shows "\<exists>s1. createPVC e kf ns fsID p s = (s1, True) \<and> FyPV s1 = FyPV s"
  using assms by (auto simp: createPVC_def Let_def)

text \<open>
  The claims of a request are made with the wrong owner when the order of its IDs is not that of the table:
  the volume of the first file system is given the user of the other.
\<close>

theorem claims_mix_owners:
  assumes "filter (\<lambda>r. FsID r \<in> {FsID r1, FsID r2}) (FdFs (FyDb s)) = [r1, r2]"
    and "FsType r1 \<noteq> Mock" and "FsType r2 \<noteq> Mock" and "ns \<in> set (FyNamespaces s)"
    and "\<forall>c. \<not> CeDb ce c" and "\<forall>c. \<not> CeK8s ce c"
    and "mget (FyPV s) (pv_name e ns (FsID r2)) = None"
    and "VtAttrs (FePV e) = Some a" and "mget a ''pfs.fs.id'' \<noteq> None" and "mget a ''pfs.user.name'' \<noteq> None"
  shows "\<exists>s' v attrs. handle_CreateFileSystemClaims e ce [ns] [FsID r2, FsID r1] s = (s', Inr ()) \<and>
    mget (FyPV s') (pv_name e ns (FsID r2)) = Some v \<and> PvAttrs v = Some attrs \<and>
    mget attrs ''pfs.fs.id'' = Some (FsID r2) \<and> mget attrs ''pfs.user.name'' = Some (FsUser r1)"
proof -
  let ?kf = "CeK8s ce"
  obtain s1 v attrs where 1: "createPV e ?kf ns (FsID r2) (FsUser r1) s = (s1, Inr (pv_name e ns (FsID r2)))"
    and v: "mget (FyPV s1) (pv_name e ns (FsID r2)) = Some v" "PvAttrs v = Some attrs"
      "mget attrs ''pfs.fs.id'' = Some (FsID r2)" "mget attrs ''pfs.user.name'' = Some (FsUser r1)"
    using createPV_new [OF assms(6-10)] by blast
  obtain s2 where 2: "createPVC e ?kf ns (FsID r2) (pv_name e ns (FsID r2)) s1 = (s2, True)" "FyPV s2 = FyPV s1"
    using createPVC_keeps [OF assms(6)] by blast
  obtain s3 p where 3: "createPV e ?kf ns (FsID r1) (FsUser r2) s2 = (s3, Inr p)"
    "\<forall>n v. mget (FyPV s2) n = Some v \<longrightarrow> mget (FyPV s3) n = Some v"
    using createPV_keeps [OF assms(6)] by blast
  obtain s4 where 4: "createPVC e ?kf ns (FsID r1) p s3 = (s4, True)" "FyPV s4 = FyPV s3"
    using createPVC_keeps [OF assms(6)] by blast
  have rows: "GetFsWithIDs (CeDb ce) [FsID r2, FsID r1] (FyDb s) = Some [r1, r2]"
  proof -
    have "(\<lambda>r :: fs_row. FsID r \<in> set [FsID r2, FsID r1]) = (\<lambda>r. FsID r \<in> {FsID r1, FsID r2})" by auto
    then show ?thesis using assms(1,5) unfolding GetFsWithIDs_def by simp
  qed
  have ok: "validateCreateFileSystemClaims ce [ns] [FsID r2, FsID r1] s = Inr ()"
    using assms(4,6) by (simp add: validateCreateFileSystemClaims_def)
  have "claim_file_systems e ?kf [ns] [(FsID r2, r1), (FsID r1, r2)] s = (s4, True)"
    using assms(2,3) 1 2 3 4 by simp
  then have "handle_CreateFileSystemClaims e ce [ns] [FsID r2, FsID r1] s = (s4, Inr ())"
    by (simp add: handle_CreateFileSystemClaims_def CreateFileSystemClaims_def ok rows)
  moreover have "mget (FyPV s4) (pv_name e ns (FsID r2)) = Some v" using v(1) 2(2) 3(2) 4(2) by simp
  ultimately show ?thesis using v(2-4) by blast
qed

definition fs_demo_two :: fs_sys where
  "fs_demo_two = fs_demo_sys\<lparr>FyDb := fs_demo_db\<lparr>FdFs := [fs_demo_row, fs_demo_row\<lparr>FsID := ''fs-eve-tmp'', FsName := ''tmp'', FsUser := ''eve''\<rparr>]\<rparr>\<rparr>"

lemma claims_mix_owners_witness:
  "\<exists>s' :: fs_sys. \<exists>v attrs. handle_CreateFileSystemClaims fs_demo_env fs_demo_call [''default''] [''fs-eve-tmp'', ''fs-bob-data''] fs_demo_two = (s', Inr ()) \<and>
     mget (FyPV s') ''pfs-fs-eve-tmp'' = Some v \<and> PvAttrs v = Some attrs \<and>
     mget attrs ''pfs.fs.id'' = Some ''fs-eve-tmp'' \<and> mget attrs ''pfs.user.name'' = Some ''bob''"
proof -
  let ?r2 = "fs_demo_row\<lparr>FsID := ''fs-eve-tmp'', FsName := ''tmp'', FsUser := ''eve''\<rparr>"
  have n: "pv_name fs_demo_env ''default'' ''fs-eve-tmp'' = ''pfs-fs-eve-tmp''" by code_simp
  have ids: "FsID fs_demo_row = ''fs-bob-data''" "FsID ?r2 = ''fs-eve-tmp''" "FsUser fs_demo_row = ''bob''"
    by (simp_all add: fs_demo_row_def)
  have "\<exists>s' v attrs. handle_CreateFileSystemClaims fs_demo_env fs_demo_call [''default''] [FsID ?r2, FsID fs_demo_row] fs_demo_two = (s', Inr ()) \<and>
     mget (FyPV s') (pv_name fs_demo_env ''default'' (FsID ?r2)) = Some v \<and> PvAttrs v = Some attrs \<and>
     mget attrs ''pfs.fs.id'' = Some (FsID ?r2) \<and> mget attrs ''pfs.user.name'' = Some (FsUser fs_demo_row)"
    by (rule claims_mix_owners [where a = "[(''pfs.fs.id'', ''''), (''pfs.user.name'', '''')]"])
      (simp_all add: fs_demo_two_def fs_demo_sys_def fs_demo_row_def fs_demo_call_def fs_demo_env_def mget_def)
  then show ?thesis unfolding ids n .
qed

subsection \<open>The clients of the API server\<close>

lemma GetLink_no_rows:
  assumes "\<not> CeDb ce FcListLink"
  shows "\<exists>marker. GetLink ce 0 None '''' fsID '''' s = Inr ([], marker)"
proof -
  let ?rows = "newest_first LkCreated (filter (\<lambda>l. cond fsID (LkFsID l) \<and> LkCreated l \<le> marker_of (CeNow ce)) (FdLinks (FyDb s)))"
  have l: "ListLink (CeDb ce) 1 (marker_of (CeNow ce)) fsID (FyDb s) = Some (take 1 ?rows)"
    using assms by (simp add: ListLink_def limit_rows_def)
  show ?thesis by (cases ?rows) (simp_all add: GetLink_def l)
qed

text \<open>
  The clients that the API server makes for a file system, to read the source of a run and to compute the fingerprint
  of a step, never know its links, whatever links it has: the links are listed with a limit of zero rows, of which the
  first row becomes the marker. If no call fails, the first attempt gives the client of the bare file system.
\<close>

theorem server_clients_lack_links:
  assumes "\<forall>i c. \<not> CeDb (ces i) c" and "fsID \<noteq> ''''"
    and "distinct (map FsID (FdFs (FyDb s)))" and "r \<in> set (FdFs (FyDb s))" and "FsID r = fsID"
    and "mk 0 (row_meta r (FsName r)) [] = Inr client"
  shows "(\<forall>i mk. getFSClient (ces i) mk fsID s = (mk (row_meta r (FsName r)) [] :: code + 'c)) \<and>
    NewFsHandlerWithServer ces mk fsID s = Inr (client :: 'c)"
proof -
  have "find (\<lambda>y. FsID r = FsID y) (FdFs (FyDb s)) = Some r" by (rule find_distinct [OF assms(3,4)])
  then have fs: "GetFileSystem (ces i) '''' fsID s = Inr r" for i
    using assms(1,2,5) by (simp add: GetFileSystem_def GetFileSystemWithFsIDAndUserName_def cond_def)
  have client: "getFSClient (ces i) mk fsID s = mk (row_meta r (FsName r)) []" for i and mk :: "fs_meta \<Rightarrow> (string \<times> fs_meta) list \<Rightarrow> code + 'x"
  proof -
    obtain marker where "GetLink (ces i) 0 None '''' fsID '''' s = Inr ([], marker)"
      using GetLink_no_rows assms(1) by blast
    then show ?thesis by (simp add: getFSClient_def fs)
  qed
  show ?thesis using assms(6) by (simp add: NewFsHandlerWithServer_def client numeral_3_eq_3)
qed

lemma server_clients_lack_links_witness:
  "FsNameLinks (CeDb fs_demo_call) ''fs-bob-data'' (FyDb fs_demo_linked) = Some [fs_demo_link_row] \<and>
   NewFsHandlerWithServer (\<lambda>i. fs_demo_call) (\<lambda>i m links. Inr (FmSubPath m, links)) ''fs-bob-data'' fs_demo_linked = Inr (''/d'', [])"
proof -
  have "\<forall>(i :: nat) c. \<not> CeDb fs_demo_call c" "''fs-bob-data'' \<noteq> ''''" "FsID fs_demo_row = ''fs-bob-data''"
    "distinct (map FsID (FdFs (FyDb fs_demo_linked)))" "fs_demo_row \<in> set (FdFs (FyDb fs_demo_linked))"
    by (simp_all add: fs_demo_call_def fs_demo_linked_def fs_demo_db_def fs_demo_row_def)
  note r = this
  have "NewFsHandlerWithServer (\<lambda>i. fs_demo_call) (\<lambda>i m links. Inr (FmSubPath m, links)) ''fs-bob-data'' fs_demo_linked = Inr (''/d'', [])"
    by (rule conjunct2 [OF server_clients_lack_links [OF r(1,2,4,5,3)]]) (simp add: row_meta_def fs_demo_row_def)
  moreover have "FsNameLinks (CeDb fs_demo_call) ''fs-bob-data'' (FyDb fs_demo_linked) = Some [fs_demo_link_row]"
    using r(1) by (simp add: FsNameLinks_def fs_demo_linked_def fs_demo_link_row_def cond_def)
  ultimately show ?thesis by simp
qed

end
