(* ===== verification/PF_Vfs.thy ===== *)
theory PF_Vfs
  imports PF_BlockCache "HOL-Library.Multiset"
begin

text \<open>
  The virtual file system of the client (\<open>pkg/fs/client/vfs\<close>: \<open>vfs.go\<close>, \<open>handle.go\<close>, \<open>reader.go\<close>, \<open>writer.go\<close>), which the FUSE
  server calls. It joins the metadata layer, the block cache and the table of open handles. A handle has a reader, a
  writer or both; each owns a descriptor of the storage. A descriptor is an object of the storage; it is
  named here by the number of objects made before it. \<open>VfLive\<close> are the descriptors not yet released. Handle
  numbers are natural numbers.
\<close>

section \<open>State\<close>

text \<open>The operations of a descriptor; a status of \<open>None\<close> is success. \<open>FdRead\<close> is the content it reads.\<close>

record 'w fd_ops =
  FdOpen :: "nat \<Rightarrow> string \<Rightarrow> u32 \<Rightarrow> nat \<Rightarrow> 'w \<Rightarrow> 'w \<times> (go_error + unit)"
  FdRead :: "nat \<Rightarrow> 'w \<Rightarrow> unit + string"
  FdWrite :: "nat \<Rightarrow> string \<Rightarrow> nat \<Rightarrow> 'w \<Rightarrow> 'w \<times> errno option"
  FdFlush :: "nat \<Rightarrow> 'w \<Rightarrow> 'w \<times> errno option"
  FdFsync :: "nat \<Rightarrow> nat \<Rightarrow> 'w \<Rightarrow> 'w \<times> errno option"
  FdTruncate :: "nat \<Rightarrow> int \<Rightarrow> 'w \<Rightarrow> 'w"
  FdRelease :: "nat \<Rightarrow> 'w \<Rightarrow> 'w"

record open_file =
  OfInode :: ino
  OfName :: string
  OfPath :: string
  OfLength :: nat
  OfUfs :: nat
  OfFd :: nat

record vhandle =
  VhFh :: nat
  VhInode :: ino
  VhReader :: "open_file option"
  VhWriter :: "open_file option"
  VhChildren :: "dir_entry list option"

record 'w vfs =
  VfMeta :: "'w meta"
  VfStore :: "cache_store option"
  VfReaders :: "(ino \<times> open_file) list"
  VfWriters :: "(ino \<times> open_file) list"
  VfHandles :: "(ino \<times> vhandle list) list"
  VfNext :: nat
  VfFds :: nat
  VfLive :: "nat list"

record 'w vfs_env =
  VeMeta :: "'w meta_env"
  VeFd :: "'w fd_ops"
  VeUuid :: "nat \<Rightarrow> string"
  VeGroups :: "u32 \<Rightarrow> string list option"

abbreviation VeUfs :: "'w vfs_env \<Rightarrow> 'w ufs_ops" where "VeUfs e \<equiv> MeUfs (VeMeta e)"

type_synonym ('w, 'a) vfs_result = "'w vfs \<times> (errno + 'a)"

definition InitVFS ::
  "'w ufs_ops \<Rightarrow> fs_meta \<Rightarrow> (string \<times> fs_meta) list \<Rightarrow> (int option \<times> (string \<times> int) option \<times> nat) option \<Rightarrow> string list option \<Rightarrow>
     'w \<Rightarrow> 'w \<times> (go_error + 'w vfs)" where
  "InitVFS uf fm links config df w =
     (case NewDefaultMeta uf fm links (InitRootNode NewInodeHandle) w of
        (w1, Inl e) \<Rightarrow> (w1, Inl e)
      | (w1, Inr m) \<Rightarrow>
          (w1, Inr \<lparr>VfMeta = m, VfStore = (case config of None \<Rightarrow> None | Some (mem, disk, B) \<Rightarrow> NewCacheStore mem disk B df),
             VfReaders = [], VfWriters = [], VfHandles = [], VfNext = 1, VfFds = 0, VfLive = []\<rparr>))"

section \<open>Handles\<close>

definition on_world :: "('w \<Rightarrow> 'w) \<Rightarrow> 'w vfs \<Rightarrow> 'w vfs" where
  "on_world f v = v\<lparr>VfMeta := (VfMeta v)\<lparr>MtWorld := f (MtWorld (VfMeta v))\<rparr>\<rparr>"

definition handles_of :: "'w vfs \<Rightarrow> ino \<Rightarrow> vhandle list" where
  "handles_of v i = (case mget (VfHandles v) i of None \<Rightarrow> [] | Some hs \<Rightarrow> hs)"

definition newHandle :: "ino \<Rightarrow> 'w vfs \<Rightarrow> 'w vfs \<times> nat" where
  "newHandle i v =
     (v\<lparr>VfNext := VfNext v + 1,
        VfHandles := mput i (handles_of v i @ [\<lparr>VhFh = VfNext v, VhInode = i, VhReader = None, VhWriter = None, VhChildren = None\<rparr>]) (VfHandles v)\<rparr>,
      VfNext v)"

definition findAllHandle :: "'w vfs \<Rightarrow> ino \<Rightarrow> vhandle list" where
  "findAllHandle v i = handles_of v i"

definition findHandle :: "'w vfs \<Rightarrow> ino \<Rightarrow> nat \<Rightarrow> vhandle option" where
  "findHandle v i fh = find (\<lambda>h. VhFh h = fh) (handles_of v i)"

text \<open>A handle is a shared object: the first one with the number changes.\<close>

fun set_first :: "nat \<Rightarrow> (vhandle \<Rightarrow> vhandle) \<Rightarrow> vhandle list \<Rightarrow> vhandle list" where
  "set_first fh f [] = []"
| "set_first fh f (h # hs) = (if VhFh h = fh then f h # hs else h # set_first fh f hs)"

definition set_handle :: "ino \<Rightarrow> nat \<Rightarrow> (vhandle \<Rightarrow> vhandle) \<Rightarrow> 'w vfs \<Rightarrow> 'w vfs" where
  "set_handle i fh f v = v\<lparr>VfHandles := mput i (set_first fh f (handles_of v i)) (VfHandles v)\<rparr>"

text \<open>The last handle takes the place of the one released.\<close>

fun drop_handle :: "nat \<Rightarrow> vhandle list \<Rightarrow> vhandle list" where
  "drop_handle fh [] = []"
| "drop_handle fh (h # hs) =
     (if VhFh h = fh then (if hs = [] then [] else last hs # butlast hs) else h # drop_handle fh hs)"

definition releaseHandle :: "ino \<Rightarrow> nat \<Rightarrow> 'w vfs \<Rightarrow> 'w vfs" where
  "releaseHandle i fh v =
     (case mget (VfHandles v) i of
        None \<Rightarrow> v
      | Some hs \<Rightarrow>
          if \<forall>h\<in>set hs. VhFh h \<noteq> fh then v
          else if length hs > 1 then v\<lparr>VfHandles := mput i (drop_handle fh hs) (VfHandles v)\<rparr>
          else v\<lparr>VfHandles := mdel i (VfHandles v)\<rparr>)"

section \<open>Readers and writers\<close>

definition O_RDONLY :: u32 where "O_RDONLY = 0"
definition O_WRONLY :: u32 where "O_WRONLY = 1"
definition O_RDWR :: u32 where "O_RDWR = 2"
definition O_ACCMODE :: u32 where "O_ACCMODE = 3"

definition invalidate :: "string \<Rightarrow> nat \<Rightarrow> 'w vfs \<Rightarrow> 'w vfs" where
  "invalidate name len v = v\<lparr>VfStore := map_option (InvalidateCache name len) (VfStore v)\<rparr>"

text \<open>\<open>Open\<close> of the data reader and of the data writer.\<close>

definition open_fd :: "'w vfs_env \<Rightarrow> u32 \<Rightarrow> ino \<Rightarrow> nat \<Rightarrow> nat \<Rightarrow> string \<Rightarrow> 'w vfs \<Rightarrow> ('w, open_file) vfs_result" where
  "open_fd e flag i len u path v =
     (case InoToPath (MtTree (VfMeta v)) i of
        None \<Rightarrow> (v, Inl GO_PANIC)
      | Some name \<Rightarrow>
          (case FdOpen (VeFd e) u path flag (VfFds v) (MtWorld (VfMeta v)) of
             (w, Inl err) \<Rightarrow> (on_world (\<lambda>_. w) v, Inl (ToSyscallErrno err))
           | (w, Inr _) \<Rightarrow>
               ((on_world (\<lambda>_. w) v)\<lparr>VfFds := VfFds v + 1, VfLive := VfLive v @ [VfFds v]\<rparr>,
                Inr \<lparr>OfInode = i, OfName = name, OfPath = path, OfLength = len, OfUfs = u, OfFd = VfFds v\<rparr>)))"

definition dataReader_Open :: "'w vfs_env \<Rightarrow> ino \<Rightarrow> nat \<Rightarrow> nat \<Rightarrow> string \<Rightarrow> 'w vfs \<Rightarrow> ('w, open_file) vfs_result" where
  "dataReader_Open e i len u path v =
     (case open_fd e O_RDONLY i len u path v of
        (v1, Inl err) \<Rightarrow> (v1, Inl err)
      | (v1, Inr f) \<Rightarrow> (v1\<lparr>VfReaders := mput i f (VfReaders v1)\<rparr>, Inr f))"

definition dataWriter_Open :: "'w vfs_env \<Rightarrow> ino \<Rightarrow> nat \<Rightarrow> nat \<Rightarrow> string \<Rightarrow> 'w vfs \<Rightarrow> ('w, open_file) vfs_result" where
  "dataWriter_Open e i len u path v =
     (case open_fd e O_WRONLY i len u path v of
        (v1, Inl err) \<Rightarrow> (v1, Inl err)
      | (v1, Inr f) \<Rightarrow> (v1\<lparr>VfWriters := mput i f (VfWriters v1)\<rparr>, Inr f))"

definition release_fd :: "'w vfs_env \<Rightarrow> nat \<Rightarrow> 'w vfs \<Rightarrow> 'w vfs" where
  "release_fd e fd v = (on_world (FdRelease (VeFd e) fd) v)\<lparr>VfLive := remove1 fd (VfLive v)\<rparr>"

definition fileReader_Read ::
  "'w vfs_env \<Rightarrow> int \<Rightarrow> open_file \<Rightarrow> nat \<Rightarrow> nat \<Rightarrow> 'w vfs \<Rightarrow> ('w, string) vfs_result option" where
  "fileReader_Read e now f len off v =
     (let r = FdRead (VeFd e) (OfFd f) (MtWorld (VfMeta v));
          fault = (case r of Inl _ \<Rightarrow> True | Inr _ \<Rightarrow> False);
          content = (case r of Inl _ \<Rightarrow> '''' | Inr c \<Rightarrow> c)
      in case VfStore v of
           None \<Rightarrow> Some (v, if fault then Inl EBADF else Inr (take len (drop off content)))
         | Some s \<Rightarrow>
             map_option (\<lambda>(s1, r). (v\<lparr>VfStore := Some s1\<rparr>, r)) (file_Read (VeUuid e) now fault content (OfName f) len off s))"

definition fileReader_Close :: "'w vfs_env \<Rightarrow> open_file \<Rightarrow> 'w vfs \<Rightarrow> 'w vfs" where
  "fileReader_Close e f v = release_fd e (OfFd f) (v\<lparr>VfReaders := mdel (OfInode f) (VfReaders v)\<rparr>)"

definition fileWriter_Write :: "'w vfs_env \<Rightarrow> open_file \<Rightarrow> string \<Rightarrow> nat \<Rightarrow> 'w vfs \<Rightarrow> ('w, unit) vfs_result" where
  "fileWriter_Write e f data off v =
     (let v1 = invalidate (OfName f) (OfLength f) v
      in case FdWrite (VeFd e) (OfFd f) data off (MtWorld (VfMeta v1)) of
           (w, Some err) \<Rightarrow> (on_world (\<lambda>_. w) v1, Inl EBADF)
         | (w, None) \<Rightarrow> (on_world (\<lambda>_. w) v1, Inr ()))"

definition fileWriter_Flush :: "'w vfs_env \<Rightarrow> open_file \<Rightarrow> 'w vfs \<Rightarrow> ('w, unit) vfs_result" where
  "fileWriter_Flush e f v =
     (let v1 = invalidate (OfName f) (OfLength f) v
      in case FdFlush (VeFd e) (OfFd f) (MtWorld (VfMeta v1)) of
           (w, Some err) \<Rightarrow> (on_world (\<lambda>_. w) v1, Inl err)
         | (w, None) \<Rightarrow> (on_world (\<lambda>_. w) v1, Inr ()))"

definition fileWriter_Fsync :: "'w vfs_env \<Rightarrow> open_file \<Rightarrow> nat \<Rightarrow> 'w vfs \<Rightarrow> ('w, unit) vfs_result" where
  "fileWriter_Fsync e f fd v =
     (case FdFsync (VeFd e) (OfFd f) fd (MtWorld (VfMeta v)) of
        (w, Some err) \<Rightarrow> (on_world (\<lambda>_. w) v, Inl err)
      | (w, None) \<Rightarrow> (on_world (\<lambda>_. w) v, Inr ()))"

text \<open>A writer whose flush fails keeps its descriptor.\<close>

definition fileWriter_Close :: "'w vfs_env \<Rightarrow> open_file \<Rightarrow> 'w vfs \<Rightarrow> ('w, unit) vfs_result" where
  "fileWriter_Close e f v =
     (case fileWriter_Flush e f v of
        (v1, Inl err) \<Rightarrow> (v1, Inl err)
      | (v1, Inr _) \<Rightarrow> (release_fd e (OfFd f) (v1\<lparr>VfWriters := mdel (OfInode f) (VfWriters v1)\<rparr>), Inr ()))"

definition fileWriter_Truncate :: "'w vfs_env \<Rightarrow> open_file \<Rightarrow> int \<Rightarrow> 'w vfs \<Rightarrow> 'w vfs" where
  "fileWriter_Truncate e f sz v = on_world (FdTruncate (VeFd e) (OfFd f) sz) v"

text \<open>With read and write access the error of the writer replaces that of the reader.\<close>

definition newFileHandle ::
  "'w vfs_env \<Rightarrow> ino \<Rightarrow> nat \<Rightarrow> u32 \<Rightarrow> nat \<Rightarrow> string \<Rightarrow> 'w vfs \<Rightarrow> ('w, nat) vfs_result" where
  "newFileHandle e i len flags u path v =
     (case newHandle i v of (v1, fh) \<Rightarrow>
        if flags AND O_ACCMODE = O_RDONLY
        then (case dataReader_Open e i len u path v1 of
                (v2, Inl err) \<Rightarrow> (v2, Inl err)
              | (v2, Inr f) \<Rightarrow> (set_handle i fh (\<lambda>h. h\<lparr>VhReader := Some f\<rparr>) v2, Inr fh))
        else if flags AND O_ACCMODE = O_WRONLY
        then (case dataWriter_Open e i len u path v1 of
                (v2, Inl err) \<Rightarrow> (v2, Inl err)
              | (v2, Inr f) \<Rightarrow> (set_handle i fh (\<lambda>h. h\<lparr>VhWriter := Some f\<rparr>) v2, Inr fh))
        else if flags AND O_ACCMODE = O_RDWR
        then (case dataReader_Open e i len u path v1 of
                (v2, Inl GO_PANIC) \<Rightarrow> (v2, Inl GO_PANIC)
              | (v2, r) \<Rightarrow>
                  (let v3 = (case r of Inl _ \<Rightarrow> v2 | Inr f \<Rightarrow> set_handle i fh (\<lambda>h. h\<lparr>VhReader := Some f\<rparr>) v2)
                   in case dataWriter_Open e i len u path v3 of
                        (v4, Inl err) \<Rightarrow> (v4, Inl err)
                      | (v4, Inr f) \<Rightarrow> (set_handle i fh (\<lambda>h. h\<lparr>VhWriter := Some f\<rparr>) v4, Inr fh)))
        else (v1, Inr fh))"

definition handle_Close :: "'w vfs_env \<Rightarrow> ino \<Rightarrow> vhandle \<Rightarrow> 'w vfs \<Rightarrow> 'w vfs" where
  "handle_Close e i h v =
     (let v1 = (case VhReader h of None \<Rightarrow> v | Some f \<Rightarrow> set_handle i (VhFh h) (\<lambda>h. h\<lparr>VhReader := None\<rparr>) (fileReader_Close e f v))
      in case VhWriter h of None \<Rightarrow> v1 | Some f \<Rightarrow> set_handle i (VhFh h) (\<lambda>h. h\<lparr>VhWriter := None\<rparr>) (fst (fileWriter_Close e f v1)))"

definition releaseFileHandle :: "'w vfs_env \<Rightarrow> ino \<Rightarrow> nat \<Rightarrow> 'w vfs \<Rightarrow> 'w vfs" where
  "releaseFileHandle e i fh v =
     (case findHandle v i fh of None \<Rightarrow> v | Some h \<Rightarrow> releaseHandle i fh (handle_Close e i h v))"

section \<open>Operations\<close>

text \<open>Calls that the metadata layer answers alone.\<close>

definition via_meta :: "('w meta \<Rightarrow> 'w meta \<times> (errno + 'a)) \<Rightarrow> 'w vfs \<Rightarrow> ('w, 'a) vfs_result" where
  "via_meta f v = (case f (VfMeta v) of (m, r) \<Rightarrow> (v\<lparr>VfMeta := m\<rparr>, r))"

definition vfs_Lookup :: "'w vfs_env \<Rightarrow> ino \<Rightarrow> string \<Rightarrow> 'w vfs \<Rightarrow> ('w, ino \<times> attr) vfs_result" where
  "vfs_Lookup e parent name v = via_meta (meta_Lookup (VeUfs e) parent name) v"

definition vfs_GetAttr :: "'w vfs_env \<Rightarrow> ino \<Rightarrow> 'w vfs \<Rightarrow> errno + ino \<times> attr" where
  "vfs_GetAttr e i v = bindE (meta_GetAttr (VeUfs e) i (VfMeta v)) (\<lambda>a. Inr (i, a))"

definition set_attr :: "u32 \<Rightarrow> u32 \<Rightarrow> u32 \<Rightarrow> int \<times> int \<Rightarrow> int \<times> int \<Rightarrow> int \<Rightarrow> attr" where
  "set_attr mode uid gid atime mtime sz =
     no_attr\<lparr>AtMode := mode, AtUid := uid, AtGid := gid, AtAtime := atime, AtMtime := mtime, AtSize := sz\<rparr>"

definition truncate_writers :: "'w vfs_env \<Rightarrow> int \<Rightarrow> vhandle list \<Rightarrow> 'w vfs \<Rightarrow> 'w vfs" where
  "truncate_writers e sz hs v =
     foldl (\<lambda>v h. case VhWriter h of None \<Rightarrow> v | Some f \<Rightarrow> fileWriter_Truncate e f sz v) v hs"

definition vfs_SetAttr :: "'w vfs_env \<Rightarrow> ino \<Rightarrow> u32 \<Rightarrow> attr \<Rightarrow> 'w vfs \<Rightarrow> ('w, ino \<times> attr) vfs_result" where
  "vfs_SetAttr e i flags a v =
     (case via_meta (meta_SetAttr (VeUfs e) i flags a) v of
        (v1, Inl err) \<Rightarrow> (v1, Inl err)
      | (v1, Inr a') \<Rightarrow>
          (if flags AND FATTR_SIZE \<noteq> 0 then truncate_writers e (AtSize a') (findAllHandle v1 i) v1 else v1, Inr (i, a')))"

definition vfs_Mknod :: "'w vfs_env \<Rightarrow> ino \<Rightarrow> string \<Rightarrow> u32 \<Rightarrow> u32 \<Rightarrow> 'w vfs \<Rightarrow> ('w, ino \<times> attr) vfs_result" where
  "vfs_Mknod e parent name mode rdev v = via_meta (meta_Mknod (VeUfs e) parent name mode rdev) v"

definition vfs_Mkdir :: "'w vfs_env \<Rightarrow> ino \<Rightarrow> string \<Rightarrow> u32 \<Rightarrow> 'w vfs \<Rightarrow> ('w, ino \<times> attr) vfs_result" where
  "vfs_Mkdir e parent name mode v = via_meta (meta_Mkdir (VeUfs e) parent name mode) v"

definition vfs_Unlink :: "'w vfs_env \<Rightarrow> ino \<Rightarrow> string \<Rightarrow> 'w vfs \<Rightarrow> ('w, unit) vfs_result" where
  "vfs_Unlink e parent name v = via_meta (meta_Unlink (VeUfs e) parent name) v"

definition vfs_Rmdir :: "'w vfs_env \<Rightarrow> ino \<Rightarrow> string \<Rightarrow> 'w vfs \<Rightarrow> ('w, unit) vfs_result" where
  "vfs_Rmdir e parent name v = via_meta (meta_Rmdir (VeUfs e) parent name) v"

text \<open>The cached blocks of both names are dropped, unless there is no cache.\<close>

definition invalidate_ino :: "ino \<Rightarrow> string \<Rightarrow> int \<Rightarrow> 'w vfs \<Rightarrow> ('w, unit) vfs_result" where
  "invalidate_ino i suffix sz v =
     (case InoToPath (MtTree (VfMeta v)) i of
        None \<Rightarrow> (v, Inl GO_PANIC)
      | Some p \<Rightarrow> (invalidate (p @ suffix) (nat sz) v, Inr ()))"

definition vfs_Rename :: "'w vfs_env \<Rightarrow> ino \<Rightarrow> string \<Rightarrow> ino \<Rightarrow> string \<Rightarrow> 'w vfs \<Rightarrow> ('w, unit) vfs_result" where
  "vfs_Rename e parent name newparent newname v =
     (case via_meta (meta_Rename (VeUfs e) parent name newparent newname) v of
        (v1, Inl err) \<Rightarrow> (v1, Inl err)
      | (v1, Inr (i, a)) \<Rightarrow>
          if VfStore v1 = None then (v1, Inr ())
          else (case invalidate_ino parent (slash # name) (AtSize a) v1 of
                  (v2, Inl err) \<Rightarrow> (v2, Inl err)
                | (v2, Inr _) \<Rightarrow> invalidate_ino i '''' (AtSize a) v2))"

text \<open>\<open>Access\<close> passes empty attributes instead of none.\<close>

definition vfs_Access :: "'w vfs_env \<Rightarrow> u32 \<Rightarrow> u32 \<Rightarrow> ino \<Rightarrow> u32 \<Rightarrow> 'w vfs \<Rightarrow> errno + unit" where
  "vfs_Access e uid gid i msk v = meta_Access (VeUfs e) (VeGroups e) uid gid i msk (Some no_attr) (VfMeta v)"

text \<open>The data are returned beside the error.\<close>

definition vfs_GetXAttr :: "'w vfs_env \<Rightarrow> ino \<Rightarrow> string \<Rightarrow> nat \<Rightarrow> 'w vfs \<Rightarrow> string \<times> errno option" where
  "vfs_GetXAttr e i name sz v =
     (let r = meta_GetXattr (VeUfs e) i name (VfMeta v);
          data = (case r of Inl _ \<Rightarrow> '''' | Inr d \<Rightarrow> d)
      in (data, if sz > 0 \<and> length data > sz then Some ERANGE else case r of Inl err \<Rightarrow> Some err | Inr _ \<Rightarrow> None))"

definition vfs_ListXAttr :: "'w vfs_env \<Rightarrow> ino \<Rightarrow> nat \<Rightarrow> 'w vfs \<Rightarrow> string \<times> errno option" where
  "vfs_ListXAttr e i sz v =
     (let r = meta_ListXattr (VeUfs e) i (VfMeta v);
          data = concat (map (\<lambda>a. a @ [CHR 0x00]) (case r of Inl _ \<Rightarrow> [] | Inr attrs \<Rightarrow> attrs))
      in (data, if sz > 0 \<and> length data > sz then Some ERANGE else case r of Inl err \<Rightarrow> Some err | Inr _ \<Rightarrow> None))"

definition vfs_SetXAttr :: "'w vfs_env \<Rightarrow> ino \<Rightarrow> string \<Rightarrow> string \<Rightarrow> u32 \<Rightarrow> 'w vfs \<Rightarrow> ('w, unit) vfs_result" where
  "vfs_SetXAttr e i name value flags v = via_meta (meta_SetXattr (VeUfs e) i name value flags) v"

definition vfs_RemoveXAttr :: "'w vfs_env \<Rightarrow> ino \<Rightarrow> string \<Rightarrow> 'w vfs \<Rightarrow> ('w, unit) vfs_result" where
  "vfs_RemoveXAttr e i name v = via_meta (meta_RemoveXattr (VeUfs e) i name) v"

definition vfs_Create :: "'w vfs_env \<Rightarrow> ino \<Rightarrow> string \<Rightarrow> u32 \<Rightarrow> u32 \<Rightarrow> 'w vfs \<Rightarrow> ('w, (ino \<times> attr) \<times> nat) vfs_result" where
  "vfs_Create e parent name mode flags v =
     (case via_meta (meta_Create (VeUfs e) parent name mode flags) v of
        (v1, Inl err) \<Rightarrow> (v1, Inl err)
      | (v1, Inr ((i, a), u, path)) \<Rightarrow>
          (case newFileHandle e i (nat (AtSize a)) flags u path v1 of
             (v2, Inl err) \<Rightarrow> (v2, Inl err)
           | (v2, Inr fh) \<Rightarrow>
               if VfStore v2 = None then (v2, Inr ((i, a), fh))
               else (case invalidate_ino i '''' (AtSize a) v2 of
                       (v3, Inl err) \<Rightarrow> (v3, Inl err)
                     | (v3, Inr _) \<Rightarrow> (v3, Inr ((i, a), fh)))))"

definition vfs_Open :: "'w vfs_env \<Rightarrow> ino \<Rightarrow> u32 \<Rightarrow> 'w vfs \<Rightarrow> ('w, (ino \<times> attr) \<times> nat) vfs_result" where
  "vfs_Open e i flags v =
     (case meta_Open (VeUfs e) i (VfMeta v) of
        Inl err \<Rightarrow> (v, Inl err)
      | Inr (a, u, path) \<Rightarrow>
          (case newFileHandle e i (nat (AtSize a)) flags u path v of
             (v1, Inl err) \<Rightarrow> (v1, Inl err)
           | (v1, Inr fh) \<Rightarrow> (v1, Inr ((i, a), fh))))"

text \<open>The reader never answers \<open>EAGAIN\<close>, so the loop around it runs once.\<close>

definition vfs_Read :: "'w vfs_env \<Rightarrow> int \<Rightarrow> ino \<Rightarrow> nat \<Rightarrow> nat \<Rightarrow> nat \<Rightarrow> 'w vfs \<Rightarrow> ('w, string) vfs_result option" where
  "vfs_Read e now i len off fh v =
     (case findHandle v i fh of
        None \<Rightarrow> Some (v, Inl EBADF)
      | Some h \<Rightarrow> (case VhReader h of None \<Rightarrow> Some (v, Inl EACCES) | Some f \<Rightarrow> fileReader_Read e now f len off v))"

definition vfs_Write :: "'w vfs_env \<Rightarrow> ino \<Rightarrow> string \<Rightarrow> nat \<Rightarrow> nat \<Rightarrow> 'w vfs \<Rightarrow> ('w, unit) vfs_result" where
  "vfs_Write e i data off fh v =
     (case findHandle v i fh of
        None \<Rightarrow> (v, Inl EBADF)
      | Some h \<Rightarrow> (case VhWriter h of None \<Rightarrow> (v, Inl EACCES) | Some f \<Rightarrow> fileWriter_Write e f data off v))"

definition vfs_Flush :: "'w vfs_env \<Rightarrow> ino \<Rightarrow> nat \<Rightarrow> 'w vfs \<Rightarrow> ('w, unit) vfs_result" where
  "vfs_Flush e i fh v =
     (case findHandle v i fh of
        None \<Rightarrow> (v, Inl EBADF)
      | Some h \<Rightarrow> (case VhWriter h of None \<Rightarrow> (v, Inr ()) | Some f \<Rightarrow> fileWriter_Flush e f v))"

definition vfs_Fsync :: "'w vfs_env \<Rightarrow> ino \<Rightarrow> nat \<Rightarrow> 'w vfs \<Rightarrow> ('w, unit) vfs_result" where
  "vfs_Fsync e i fh v =
     (case findHandle v i fh of
        None \<Rightarrow> (v, Inl EBADF)
      | Some h \<Rightarrow> (case VhWriter h of None \<Rightarrow> (v, Inr ()) | Some f \<Rightarrow> fileWriter_Fsync e f fh v))"

definition vfs_OpenDir :: "ino \<Rightarrow> 'w vfs \<Rightarrow> 'w vfs \<times> nat" where
  "vfs_OpenDir i v = newHandle i v"

text \<open>A directory without entries has no list.\<close>

definition vfs_ReadDir :: "'w vfs_env \<Rightarrow> ino \<Rightarrow> nat \<Rightarrow> nat \<Rightarrow> 'w vfs \<Rightarrow> ('w, dir_entry list) vfs_result" where
  "vfs_ReadDir e i fh offset v =
     (case findHandle v i fh of
        None \<Rightarrow> (v, Inl EBADF)
      | Some h \<Rightarrow>
          if VhChildren h = None \<or> offset = 0
          then (case meta_Readdir (VeUfs e) i (VfMeta v) of
                  Inl err \<Rightarrow> (v, Inl err)
                | Inr entries \<Rightarrow>
                    (set_handle i fh (\<lambda>h. h\<lparr>VhChildren := (if entries = [] then None else Some entries)\<rparr>) v,
                     Inr (if offset < length entries then drop offset entries else entries)))
          else (v, Inr (case VhChildren h of None \<Rightarrow> [] | Some entries \<Rightarrow> drop offset entries)))"

definition vfs_ReleaseDir :: "'w vfs_env \<Rightarrow> ino \<Rightarrow> nat \<Rightarrow> 'w vfs \<Rightarrow> 'w vfs" where
  "vfs_ReleaseDir e i fh v = releaseFileHandle e i fh v"

definition vfs_Release :: "'w vfs_env \<Rightarrow> ino \<Rightarrow> nat \<Rightarrow> 'w vfs \<Rightarrow> 'w vfs" where
  "vfs_Release e i fh v = (if fh > 0 then releaseFileHandle e i fh v else v)"

definition vfs_Truncate :: "'w vfs_env \<Rightarrow> ino \<Rightarrow> int \<Rightarrow> 'w vfs \<Rightarrow> ('w, unit) vfs_result" where
  "vfs_Truncate e i sz v = via_meta (meta_Truncate (VeUfs e) i sz) v"

section \<open>The calls as a machine\<close>

datatype vfs_act =
    VaMeta meta_act
  | VaSetAttr ino u32 attr
  | VaRename ino string ino string
  | VaCreate ino string u32 u32
  | VaOpen ino u32
  | VaRead int ino nat nat nat
  | VaWrite ino string nat nat
  | VaFlush ino nat
  | VaFsync ino nat
  | VaOpenDir ino
  | VaReadDir ino nat nat
  | VaReleaseDir ino nat
  | VaRelease ino nat
  | VaCache cache_act

text \<open>\<open>VaMeta\<close> covers the calls that the metadata layer answers alone and the updates of the links, \<open>VaCache\<close> the
  goroutines and evictions of the cache. A panic ends the process.\<close>

fun background :: "cache_act \<Rightarrow> bool" where
  "background (AcSet k now df fault) = True"
| "background (AcDelete k) = True"
| "background (AcEvict key) = True"
| "background (AcClean now df) = True"
| "background (AcRemove i) = True"
| "background _ = False"

fun vfs_step :: "'w vfs_env \<Rightarrow> vfs_act \<Rightarrow> 'w vfs \<Rightarrow> 'w vfs option" where
  "vfs_step e (VaMeta a) v = Some (v\<lparr>VfMeta := meta_do (VeMeta e) a (VfMeta v)\<rparr>)"
| "vfs_step e (VaSetAttr i flags a) v = Some (fst (vfs_SetAttr e i flags a v))"
| "vfs_step e (VaRename p n q k) v = Some (fst (vfs_Rename e p n q k v))"
| "vfs_step e (VaCreate p n mode flags) v = Some (fst (vfs_Create e p n mode flags v))"
| "vfs_step e (VaOpen i flags) v = Some (fst (vfs_Open e i flags v))"
| "vfs_step e (VaRead now i len off fh) v = map_option fst (vfs_Read e now i len off fh v)"
| "vfs_step e (VaWrite i data off fh) v = Some (fst (vfs_Write e i data off fh v))"
| "vfs_step e (VaFlush i fh) v = Some (fst (vfs_Flush e i fh v))"
| "vfs_step e (VaFsync i fh) v = Some (fst (vfs_Fsync e i fh v))"
| "vfs_step e (VaOpenDir i) v = Some (fst (vfs_OpenDir i v))"
| "vfs_step e (VaReadDir i fh offset) v = Some (fst (vfs_ReadDir e i fh offset v))"
| "vfs_step e (VaReleaseDir i fh) v = Some (vfs_ReleaseDir e i fh v)"
| "vfs_step e (VaRelease i fh) v = Some (vfs_Release e i fh v)"
| "vfs_step e (VaCache a) v =
     (case VfStore v of
        None \<Rightarrow> None
      | Some s \<Rightarrow> if background a then map_option (\<lambda>x. v\<lparr>VfStore := Some (snd x)\<rparr>) (cache_step (VeUuid e) a (\<lambda>_. '''', s)) else None)"

section \<open>The table of handles\<close>

definition fds_of :: "vhandle \<Rightarrow> nat list" where
  "fds_of h = (case VhReader h of None \<Rightarrow> [] | Some f \<Rightarrow> [OfFd f]) @ (case VhWriter h of None \<Rightarrow> [] | Some f \<Rightarrow> [OfFd f])"

definition pairs :: "(ino \<Rightarrow> vhandle list) \<Rightarrow> (ino \<times> vhandle) set" where
  "pairs H = {(i, h). h \<in> set (H i)}"

text \<open>Handle numbers are unique and below the next one; each descriptor of a handle is live and belongs to no other
  handle.\<close>

definition handles_ok :: "(ino \<Rightarrow> vhandle list) \<Rightarrow> nat \<Rightarrow> nat list \<Rightarrow> nat \<Rightarrow> bool" where
  "handles_ok H next live fds =
     ((\<forall>i. distinct (map VhFh (H i))) \<and> inj_on (\<lambda>x. VhFh (snd x)) (pairs H) \<and>
      (\<forall>x\<in>pairs H. VhFh (snd x) < next \<and> distinct (fds_of (snd x)) \<and> set (fds_of (snd x)) \<subseteq> set live) \<and>
      (\<forall>x\<in>pairs H. \<forall>y\<in>pairs H. set (fds_of (snd x)) \<inter> set (fds_of (snd y)) \<noteq> {} \<longrightarrow> x = y) \<and>
      distinct live \<and> (\<forall>fd\<in>set live. fd < fds))"

definition all_owned :: "(ino \<Rightarrow> vhandle list) \<Rightarrow> nat list \<Rightarrow> bool" where
  "all_owned H live = (\<forall>fd\<in>set live. \<exists>x\<in>pairs H. fd \<in> set (fds_of (snd x)))"

lemma set_set_first:
  "distinct (map VhFh hs) \<Longrightarrow> set (set_first fh f hs) = (\<lambda>h. if VhFh h = fh then f h else h) ` set hs"
  by (induction hs) (auto simp: image_iff)

lemma map_set_first: "(\<And>h. VhFh (f h) = VhFh h) \<Longrightarrow> map VhFh (set_first fh f hs) = map VhFh hs"
  by (induction hs) auto

definition change :: "ino \<Rightarrow> nat \<Rightarrow> (vhandle \<Rightarrow> vhandle) \<Rightarrow> ino \<times> vhandle \<Rightarrow> ino \<times> vhandle" where
  "change i fh f x = (fst x, if fst x = i \<and> VhFh (snd x) = fh then f (snd x) else snd x)"

lemma pairs_set:
  assumes "distinct (map VhFh (H i))"
  shows "pairs (H(i := set_first fh f (H i))) = change i fh f ` pairs H"
proof (rule set_eqI)
  fix x :: "ino \<times> vhandle"
  obtain j k where x: "x = (j, k)" by (cases x)
  have "x \<in> change i fh f ` pairs H \<longleftrightarrow> (\<exists>b\<in>set (H j). k = (if j = i \<and> VhFh b = fh then f b else b))"
  proof
    assume "x \<in> change i fh f ` pairs H"
    then obtain y where y: "y \<in> pairs H" "x = change i fh f y" by (rule imageE)
    obtain a b where ab: "y = (a, b)" by (cases y)
    have "a = j" "k = (if a = i \<and> VhFh b = fh then f b else b)" using y(2) by (simp_all add: x ab change_def)
    moreover have "b \<in> set (H a)" using y(1) by (simp add: ab pairs_def)
    ultimately show "\<exists>b\<in>set (H j). k = (if j = i \<and> VhFh b = fh then f b else b)" by (intro bexI [of _ b]) simp_all
  next
    assume "\<exists>b\<in>set (H j). k = (if j = i \<and> VhFh b = fh then f b else b)"
    then obtain b where "b \<in> set (H j)" "k = (if j = i \<and> VhFh b = fh then f b else b)" by (rule bexE)
    then show "x \<in> change i fh f ` pairs H"
      by (intro image_eqI [of _ _ "(j, b)"]) (simp_all only: x change_def pairs_def fst_conv snd_conv mem_Collect_eq prod.case)
  qed
  also have "\<dots> \<longleftrightarrow> k \<in> set ((H(i := set_first fh f (H i))) j)"
  proof (cases "j = i")
    case True
    then show ?thesis unfolding True fun_upd_same set_set_first [OF assms] image_iff by simp
  next
    case False
    then show ?thesis by simp
  qed
  finally show "x \<in> pairs (H(i := set_first fh f (H i))) \<longleftrightarrow> x \<in> change i fh f ` pairs H"
    by (simp add: x pairs_def)
qed

lemma handles_okD:
  assumes "handles_ok H next live fds"
  shows "\<And>j. distinct (map VhFh (H j))" and "inj_on (\<lambda>x. VhFh (snd x)) (pairs H)"
    and "\<And>x. x \<in> pairs H \<Longrightarrow> VhFh (snd x) < next \<and> distinct (fds_of (snd x)) \<and> set (fds_of (snd x)) \<subseteq> set live"
    and "\<And>x y. x \<in> pairs H \<Longrightarrow> y \<in> pairs H \<Longrightarrow> set (fds_of (snd x)) \<inter> set (fds_of (snd y)) \<noteq> {} \<Longrightarrow> x = y"
    and "distinct live" and "\<And>fd. fd \<in> set live \<Longrightarrow> fd < fds"
  using assms unfolding handles_ok_def by blast+

lemma handles_okI:
  assumes "\<And>j. distinct (map VhFh (H j))" and "inj_on (\<lambda>x. VhFh (snd x)) (pairs H)"
    and "\<And>x. x \<in> pairs H \<Longrightarrow> VhFh (snd x) < next \<and> distinct (fds_of (snd x)) \<and> set (fds_of (snd x)) \<subseteq> set live"
    and "\<And>x y. x \<in> pairs H \<Longrightarrow> y \<in> pairs H \<Longrightarrow> set (fds_of (snd x)) \<inter> set (fds_of (snd y)) \<noteq> {} \<Longrightarrow> x = y"
    and "distinct live" and "\<And>fd. fd \<in> set live \<Longrightarrow> fd < fds"
  shows "handles_ok H next live fds"
proof -
  have "\<forall>j. distinct (map VhFh (H j))" using assms(1) by blast
  moreover have "\<forall>x\<in>pairs H. VhFh (snd x) < next \<and> distinct (fds_of (snd x)) \<and> set (fds_of (snd x)) \<subseteq> set live"
    using assms(3) by blast
  moreover have "\<forall>x\<in>pairs H. \<forall>y\<in>pairs H. set (fds_of (snd x)) \<inter> set (fds_of (snd y)) \<noteq> {} \<longrightarrow> x = y"
    using assms(4) by blast
  moreover have "\<forall>fd\<in>set live. fd < fds" using assms(6) by blast
  ultimately show ?thesis using assms(2,5) unfolding handles_ok_def by (intro conjI)
qed

lemma handles_ok_new:
  assumes "handles_ok H next live fds" and "VhFh h = next" and "fds_of h = []"
  shows "handles_ok (H(i := H i @ [h])) (next + 1) live fds"
proof -
  have p: "pairs (H(i := H i @ [h])) = insert (i, h) (pairs H)" by (auto simp: pairs_def split: if_splits)
  note ok = handles_okD [OF assms(1)]
  have ne: "VhFh (snd x) \<noteq> VhFh h" if "x \<in> pairs H" for x using ok(3) [OF that] assms(2) by simp
  have "VhFh h \<notin> VhFh ` set (H i)"
  proof
    assume "VhFh h \<in> VhFh ` set (H i)"
    then obtain k where "k \<in> set (H i)" "VhFh k = VhFh h" by (metis imageE)
    then show False using ne [of "(i, k)"] by (simp add: pairs_def)
  qed
  then have A: "distinct (map VhFh ((H(i := H i @ [h])) j))" for j using ok(1) [of i] ok(1) [of j] by simp
  have B: "inj_on (\<lambda>x. VhFh (snd x)) (insert (i, h) (pairs H))"
  proof -
    have "VhFh h \<notin> (\<lambda>x. VhFh (snd x)) ` (pairs H - {(i, h)})"
    proof
      assume "VhFh h \<in> (\<lambda>x. VhFh (snd x)) ` (pairs H - {(i, h)})"
      then obtain x where "x \<in> pairs H" "VhFh h = VhFh (snd x)" by (elim imageE) blast
      then show False using ne by metis
    qed
    then show ?thesis using ok(2) unfolding inj_on_insert snd_conv by blast
  qed
  have C: "VhFh (snd x) < next + 1 \<and> distinct (fds_of (snd x)) \<and> set (fds_of (snd x)) \<subseteq> set live"
    if "x \<in> insert (i, h) (pairs H)" for x
  proof (cases "x = (i, h)")
    case True
    then show ?thesis using assms(2,3) by simp
  next
    case False
    then show ?thesis using that ok(3) [of x] by simp
  qed
  have D: "x = y" if xy: "x \<in> insert (i, h) (pairs H)" "y \<in> insert (i, h) (pairs H)"
    "set (fds_of (snd x)) \<inter> set (fds_of (snd y)) \<noteq> {}" for x y
  proof -
    have "x \<noteq> (i, h)" "y \<noteq> (i, h)" using xy(3) assms(3) by auto
    then show ?thesis using xy ok(4) by blast
  qed
  show ?thesis by (rule handles_okI, unfold p) (rule A B C D ok(5,6); assumption)+
qed

text \<open>One handle changes: it gets new descriptors or loses some.\<close>

lemma handles_ok_change:
  assumes "handles_ok H next live fds" and "\<And>h. VhFh (f h) = VhFh h"
    and "\<And>h. (i, h) \<in> pairs H \<Longrightarrow> VhFh h = fh \<Longrightarrow>
      distinct (fds_of (f h)) \<and> set (fds_of (f h)) \<subseteq> set live' \<and> set (fds_of (f h)) \<subseteq> set (fds_of h) \<union> N"
    and "N \<inter> set live = {}"
    and "\<And>x. x \<in> pairs H \<Longrightarrow> \<not> (fst x = i \<and> VhFh (snd x) = fh) \<Longrightarrow> set (fds_of (snd x)) \<subseteq> set live'"
    and "distinct live'" and "\<And>fd. fd \<in> set live' \<Longrightarrow> fd < fds'"
  shows "handles_ok (H(i := set_first fh f (H i))) next live' fds'"
proof -
  let ?H = "H(i := set_first fh f (H i))" and ?g = "change i fh f"
  note ok = handles_okD [OF assms(1)]
  have p: "pairs ?H = ?g ` pairs H" by (rule pairs_set [OF ok(1)])
  have fh: "VhFh (snd (?g x)) = VhFh (snd x)" for x by (simp add: change_def assms(2))
  have g: "distinct (fds_of (snd (?g x))) \<and> set (fds_of (snd (?g x))) \<subseteq> set live' \<and>
      set (fds_of (snd (?g x))) \<subseteq> set (fds_of (snd x)) \<union> (if fst x = i \<and> VhFh (snd x) = fh then N else {})" if "x \<in> pairs H" for x
    using assms(3) [of "snd x"] assms(5) [OF that] ok(3) [OF that] that by (cases x) (auto simp: change_def)
  have A: "distinct (map VhFh (?H j))" for j using ok(1) map_set_first [of f, OF assms(2)] by simp
  have B: "inj_on (\<lambda>x. VhFh (snd x)) (?g ` pairs H)"
  proof (rule inj_onI)
    fix x y assume "x \<in> ?g ` pairs H" "y \<in> ?g ` pairs H" "VhFh (snd x) = VhFh (snd y)"
    then obtain a b where "a \<in> pairs H" "b \<in> pairs H" "x = ?g a" "y = ?g b" "VhFh (snd a) = VhFh (snd b)"
      using fh by auto
    then show "x = y" using ok(2) by (auto simp: inj_on_def)
  qed
  have C: "VhFh (snd x) < next \<and> distinct (fds_of (snd x)) \<and> set (fds_of (snd x)) \<subseteq> set live'"
    if "x \<in> ?g ` pairs H" for x
    using that g ok(3) fh by auto
  have D: "x = y" if xy: "x \<in> ?g ` pairs H" "y \<in> ?g ` pairs H" "set (fds_of (snd x)) \<inter> set (fds_of (snd y)) \<noteq> {}" for x y
  proof -
    obtain a b where ab: "a \<in> pairs H" "b \<in> pairs H" "x = ?g a" "y = ?g b" using xy by auto
    obtain fd where fd: "fd \<in> set (fds_of (snd (?g a)))" "fd \<in> set (fds_of (snd (?g b)))" using xy ab by auto
    have "a = b"
    proof (cases "fd \<in> N")
      case True
      then have "fd \<notin> set (fds_of (snd a))" "fd \<notin> set (fds_of (snd b))" using ok(3) ab assms(4) by blast+
      then have "fst a = i \<and> VhFh (snd a) = fh" "fst b = i \<and> VhFh (snd b) = fh"
        using g [OF ab(1)] g [OF ab(2)] fd by (auto split: if_splits)
      then show ?thesis using ok(2) ab by (auto simp: inj_on_def)
    next
      case False
      then have "fd \<in> set (fds_of (snd a)) \<inter> set (fds_of (snd b))"
        using g [OF ab(1)] g [OF ab(2)] fd by (auto split: if_splits)
      then show ?thesis using ok(4) ab by blast
    qed
    then show ?thesis using ab by simp
  qed
  show ?thesis by (rule handles_okI, unfold p) (rule A B C D assms(6,7); assumption)+
qed

text \<open>Fewer handles.\<close>

lemma handles_ok_fewer:
  assumes "handles_ok H next live fds" and "\<And>j. distinct (map VhFh (H' j))" and "pairs H' \<subseteq> pairs H"
  shows "handles_ok H' next live fds"
  using assms inj_on_subset [OF _ assms(3)] unfolding handles_ok_def by blast

definition vok :: "'w vfs \<Rightarrow> bool" where
  "vok v = handles_ok (handles_of v) (VfNext v) (VfLive v) (VfFds v)"

definition owned :: "'w vfs \<Rightarrow> bool" where
  "owned v = all_owned (handles_of v) (VfLive v)"

text \<open>Two states with the same handles and descriptors.\<close>

definition same_handles :: "'w vfs \<Rightarrow> 'w vfs \<Rightarrow> bool" where
  "same_handles v v' = (VfHandles v' = VfHandles v \<and> VfNext v' = VfNext v \<and> VfLive v' = VfLive v \<and> VfFds v' = VfFds v)"

lemma same_handles_keeps:
  assumes "same_handles v v'"
  shows "handles_of v' = handles_of v" and "vok v' = vok v" and "owned v' = owned v"
proof -
  show h: "handles_of v' = handles_of v" using assms by (simp add: same_handles_def handles_of_def fun_eq_iff)
  show "vok v' = vok v" and "owned v' = owned v" using assms by (simp_all add: same_handles_def vok_def owned_def h)
qed

lemma same_handles_trans: "same_handles u v \<Longrightarrow> same_handles v w \<Longrightarrow> same_handles u w"
  by (simp add: same_handles_def)

lemma same_handles_simps [simp]:
  "same_handles v v" "same_handles v (on_world g v)" "same_handles v (invalidate n len v)"
  "same_handles v (v\<lparr>VfMeta := m\<rparr>)" "same_handles v (v\<lparr>VfStore := st\<rparr>)"
  "same_handles v (v\<lparr>VfReaders := rs\<rparr>)" "same_handles v (v\<lparr>VfWriters := rs\<rparr>)"
  by (simp_all add: same_handles_def on_world_def invalidate_def)

lemma handles_of_set_handle: "handles_of (set_handle i fh f v) = (handles_of v)(i := set_first fh f (handles_of v i))"
  by (auto simp: handles_of_def set_handle_def)

lemma set_handle_rest [simp]:
  "VfNext (set_handle i fh f v) = VfNext v" "VfLive (set_handle i fh f v) = VfLive v" "VfFds (set_handle i fh f v) = VfFds v"
  by (simp_all add: set_handle_def)

lemma vok_newHandle:
  assumes "vok v" and "newHandle i v = (v', fh)"
  shows "vok v'" and "owned v \<Longrightarrow> owned v'" and "\<exists>h\<in>set (handles_of v' i). VhFh h = fh \<and> VhReader h = None \<and> VhWriter h = None"
proof -
  let ?h = "\<lparr>VhFh = VfNext v, VhInode = i, VhReader = None, VhWriter = None, VhChildren = None\<rparr>"
  have v': "handles_of v' = (handles_of v)(i := handles_of v i @ [?h])" "VfNext v' = VfNext v + 1" "VfLive v' = VfLive v"
    "VfFds v' = VfFds v" and fh: "fh = VfNext v"
    using assms(2) by (auto simp: newHandle_def handles_of_def)
  have e: "fds_of ?h = []" by (simp add: fds_of_def)
  show "vok v'" using handles_ok_new [of "handles_of v" "VfNext v" "VfLive v" "VfFds v" ?h i] assms(1) e
    by (simp add: vok_def v')
  show "owned v'" if "owned v"
  proof -
    have "pairs (handles_of v) \<subseteq> pairs (handles_of v')" by (auto simp: pairs_def v')
    then show ?thesis using that unfolding owned_def all_owned_def v'(3) by blast
  qed
  show "\<exists>h\<in>set (handles_of v' i). VhFh h = fh \<and> VhReader h = None \<and> VhWriter h = None" by (simp add: v' fh)
qed

text \<open>A new descriptor goes into a handle.\<close>

lemma vok_attach:
  assumes "vok v" and "handles_of v1 = handles_of v" and "VfNext v1 = VfNext v" and "VfLive v1 = VfLive v @ [VfFds v]"
    and "VfFds v1 = VfFds v + 1" and "\<And>h. VhFh (g h) = VhFh h"
    and "\<And>h. VfFds v \<notin> set (fds_of h) \<Longrightarrow> distinct (fds_of h) \<Longrightarrow>
      distinct (fds_of (g h)) \<and> set (fds_of (g h)) \<subseteq> set (fds_of h) \<union> {VfFds v}"
  shows "vok (set_handle i fh g v1)"
proof -
  note ok = handles_okD [OF assms(1) [unfolded vok_def]]
  have fresh: "VfFds v \<notin> set (VfLive v)" using ok(6) by blast
  have "handles_ok ((handles_of v)(i := set_first fh g (handles_of v i))) (VfNext v) (VfLive v @ [VfFds v]) (VfFds v + 1)"
  proof (rule handles_ok_change [where N = "{VfFds v}"])
    show "handles_ok (handles_of v) (VfNext v) (VfLive v) (VfFds v)" using assms(1) by (simp add: vok_def)
    show "VhFh (g h) = VhFh h" for h by (rule assms(6))
    show "distinct (fds_of (g h)) \<and> set (fds_of (g h)) \<subseteq> set (VfLive v @ [VfFds v]) \<and> set (fds_of (g h)) \<subseteq> set (fds_of h) \<union> {VfFds v}"
      if "(i, h) \<in> pairs (handles_of v)" for h
    proof -
      have "distinct (fds_of h)" "set (fds_of h) \<subseteq> set (VfLive v)" using ok(3) [OF that] by simp_all
      then show ?thesis using assms(7) [of h] fresh by auto
    qed
    show "{VfFds v} \<inter> set (VfLive v) = {}" using fresh by simp
    show "set (fds_of (snd x)) \<subseteq> set (VfLive v @ [VfFds v])" if "x \<in> pairs (handles_of v)" for x using ok(3) [OF that] by auto
    show "distinct (VfLive v @ [VfFds v])" using ok(5) fresh by simp
    show "fd < VfFds v + 1" if "fd \<in> set (VfLive v @ [VfFds v])" for fd
    proof (cases "fd = VfFds v")
      case False
      then show ?thesis using that ok(6) [of fd] by simp
    qed simp
  qed
  then show ?thesis by (simp add: vok_def handles_of_set_handle assms(2-5))
qed

lemma in_set_first:
  assumes "h \<in> set hs" and "VhFh h = fh" and "distinct (map VhFh hs)"
  shows "f h \<in> set (set_first fh f hs)"
  using assms by (auto simp: set_set_first image_iff)

lemma pairs_after_set:
  assumes "x \<in> pairs H" and "\<not> (fst x = i \<and> VhFh (snd x) = fh)" and "distinct (map VhFh (H i))"
  shows "x \<in> pairs (H(i := set_first fh f (H i)))"
proof -
  have "change i fh f x = x" using assms(2) by (cases x) (auto simp: change_def)
  then show ?thesis using assms(1) pairs_set [of H i fh f, OF assms(3)] by (metis image_eqI)
qed

lemma owned_attach:
  assumes "vok v" and "owned v" and "handles_of v1 = handles_of v" and "VfLive v1 = VfLive v @ [VfFds v]"
    and "h \<in> set (handles_of v i)" and "VhFh h = fh" and "set (fds_of h) \<union> {VfFds v} \<subseteq> set (fds_of (g h))"
  shows "owned (set_handle i fh g v1)"
proof -
  note ok = handles_okD [OF assms(1) [unfolded vok_def]]
  let ?H = "(handles_of v)(i := set_first fh g (handles_of v i))"
  have gh: "(i, g h) \<in> pairs ?H" using in_set_first [OF assms(5,6) ok(1)] by (simp add: pairs_def)
  have "\<exists>x\<in>pairs ?H. fd \<in> set (fds_of (snd x))" if "fd \<in> set (VfLive v @ [VfFds v])" for fd
  proof (cases "fd = VfFds v")
    case True
    then show ?thesis using gh assms(7) by (intro bexI [of _ "(i, g h)"]) auto
  next
    case False
    then have "fd \<in> set (VfLive v)" using that by simp
    then obtain x where x: "x \<in> pairs (handles_of v)" "fd \<in> set (fds_of (snd x))"
      using assms(2) unfolding owned_def all_owned_def by blast
    show ?thesis
    proof (cases "fst x = i \<and> VhFh (snd x) = fh")
      case True
      then have "VhFh (snd x) = VhFh (snd (i, h))" "(i, h) \<in> pairs (handles_of v)" using assms(5,6) by (simp_all add: pairs_def)
      then have "x = (i, h)" using ok(2) x(1) by (auto simp: inj_on_def)
      then show ?thesis using gh assms(7) x(2) by (intro bexI [of _ "(i, g h)"]) auto
    next
      case other: False
      then show ?thesis using pairs_after_set [OF x(1) other ok(1)] x(2) by blast
    qed
  qed
  then show ?thesis unfolding owned_def all_owned_def by (simp add: handles_of_set_handle assms(3,4))
qed

text \<open>A handle gives up a descriptor, or only forgets it.\<close>

lemma vok_forget:
  assumes "vok v" and "\<And>h. VhFh (g h) = VhFh h" and "\<And>h. distinct (fds_of h) \<Longrightarrow> distinct (fds_of (g h)) \<and> set (fds_of (g h)) \<subseteq> set (fds_of h)"
  shows "vok (set_handle i fh g v)"
proof -
  note ok = handles_okD [OF assms(1) [unfolded vok_def]]
  have "handles_ok ((handles_of v)(i := set_first fh g (handles_of v i))) (VfNext v) (VfLive v) (VfFds v)"
  proof (rule handles_ok_change [where N = "{}"])
    show "handles_ok (handles_of v) (VfNext v) (VfLive v) (VfFds v)" using assms(1) by (simp add: vok_def)
    show "distinct (fds_of (g h)) \<and> set (fds_of (g h)) \<subseteq> set (VfLive v) \<and> set (fds_of (g h)) \<subseteq> set (fds_of h) \<union> {}"
      if "(i, h) \<in> pairs (handles_of v)" for h
      using ok(3) [OF that] assms(3) [of h] by auto
    show "set (fds_of (snd x)) \<subseteq> set (VfLive v)" if "x \<in> pairs (handles_of v)" for x using ok(3) [OF that] by auto
    show "fd < VfFds v" if "fd \<in> set (VfLive v)" for fd using ok(6) [OF that] .
  qed (simp_all add: assms(2) ok(5))
  then show ?thesis by (simp add: vok_def handles_of_set_handle)
qed

lemma vok_detach:
  assumes "vok v" and "handles_of v1 = handles_of v" and "VfNext v1 = VfNext v" and "VfLive v1 = remove1 fd (VfLive v)"
    and "VfFds v1 = VfFds v" and "\<And>h. VhFh (g h) = VhFh h" and "h0 \<in> set (handles_of v i)" and "VhFh h0 = fh"
    and "fd \<in> set (fds_of h0)" and "distinct (fds_of (g h0))" and "set (fds_of (g h0)) = set (fds_of h0) - {fd}"
  shows "vok (set_handle i fh g v1)" and "owned v \<Longrightarrow> owned (set_handle i fh g v1)"
proof -
  note ok = handles_okD [OF assms(1) [unfolded vok_def]]
  let ?H = "(handles_of v)(i := set_first fh g (handles_of v i))"
  have h0: "(i, h0) \<in> pairs (handles_of v)" using assms(7) by (simp add: pairs_def)
  have live: "set (remove1 fd (VfLive v)) = set (VfLive v) - {fd}" using ok(5) by (rule set_remove1_eq)
  have the_one: "h = h0" if "(i, h) \<in> pairs (handles_of v)" "VhFh h = fh" for h
    using inj_onD [OF ok(2), of "(i, h)" "(i, h0)"] h0 that assms(8) by simp
  have "handles_ok ?H (VfNext v) (remove1 fd (VfLive v)) (VfFds v)"
  proof (rule handles_ok_change [where N = "{}"])
    show "handles_ok (handles_of v) (VfNext v) (VfLive v) (VfFds v)" using assms(1) by (simp add: vok_def)
    show "distinct (fds_of (g h)) \<and> set (fds_of (g h)) \<subseteq> set (remove1 fd (VfLive v)) \<and> set (fds_of (g h)) \<subseteq> set (fds_of h) \<union> {}"
      if "(i, h) \<in> pairs (handles_of v)" "VhFh h = fh" for h
    proof -
      have "set (fds_of h0) \<subseteq> set (VfLive v)" using ok(3) [OF h0] by simp
      then show ?thesis unfolding the_one [OF that] live using assms(10,11) by auto
    qed
    show "set (fds_of (snd x)) \<subseteq> set (remove1 fd (VfLive v))"
      if x: "x \<in> pairs (handles_of v)" "\<not> (fst x = i \<and> VhFh (snd x) = fh)" for x
    proof -
      have "x \<noteq> (i, h0)" using x(2) assms(8) by auto
      then have "fd \<notin> set (fds_of (snd x))" using ok(4) [OF x(1) h0] assms(9) by auto
      then show ?thesis using ok(3) [OF x(1)] unfolding live by auto
    qed
    show "distinct (remove1 fd (VfLive v))" using ok(5) by (rule distinct_remove1)
    show "x < VfFds v" if "x \<in> set (remove1 fd (VfLive v))" for x using that ok(6) [of x] unfolding live by blast
  qed (simp_all add: assms(6))
  then show "vok (set_handle i fh g v1)" by (simp add: vok_def handles_of_set_handle assms(2-5))
  show "owned (set_handle i fh g v1)" if own: "owned v"
  proof -
    have "\<exists>x\<in>pairs ?H. y \<in> set (fds_of (snd x))" if y: "y \<in> set (remove1 fd (VfLive v))" for y
    proof -
      have yl: "y \<in> set (VfLive v)" "y \<noteq> fd" using y unfolding live by simp_all
      then obtain x where x: "x \<in> pairs (handles_of v)" "y \<in> set (fds_of (snd x))"
        using own unfolding owned_def all_owned_def by blast
      show ?thesis
      proof (cases "fst x = i \<and> VhFh (snd x) = fh")
        case True
        then have "snd x = h0" using the_one [of "snd x"] x(1) by (cases x) auto
        moreover have "(i, g h0) \<in> pairs ?H" using in_set_first [OF assms(7,8) ok(1)] by (simp add: pairs_def)
        ultimately show ?thesis using x(2) yl(2) assms(11) by (intro bexI [of _ "(i, g h0)"]) auto
      next
        case False
        then show ?thesis using pairs_after_set [OF x(1) False ok(1)] x(2) by blast
      qed
    qed
    then show ?thesis unfolding owned_def all_owned_def by (simp add: handles_of_set_handle assms(2,4))
  qed
qed

text \<open>The table without a handle.\<close>

lemma mset_drop_handle: "distinct (map VhFh hs) \<Longrightarrow> mset (drop_handle fh hs) = mset (filter (\<lambda>h. VhFh h \<noteq> fh) hs)"
proof (induction hs)
  case (Cons h hs)
  have keep: "filter (\<lambda>k. VhFh k \<noteq> fh) hs = hs" if "VhFh h = fh"
    using Cons.prems that by (intro filter_True) (auto simp: image_iff)
  have swap: "mset (last hs # butlast hs) = mset hs" if "hs \<noteq> []"
  proof -
    have "mset hs = mset (butlast hs @ [last hs])" using that by simp
    then show ?thesis by (simp only: mset_append) simp
  qed
  show ?case
  proof (cases "VhFh h = fh")
    case True
    then show ?thesis using keep swap by (cases "hs = []") simp_all
  next
    case False
    then show ?thesis using Cons by simp
  qed
qed simp

lemma handles_of_releaseHandle: "handles_of (releaseHandle i fh v) = (handles_of v)(i := drop_handle fh (handles_of v i))"
proof -
  have absent: "drop_handle fh hs = hs" if "\<forall>h\<in>set hs. VhFh h \<noteq> fh" for hs using that by (induction hs) auto
  have one: "drop_handle fh hs = []" if "\<not> (\<forall>h\<in>set hs. VhFh h \<noteq> fh)" "\<not> length hs > 1" for hs
    using that by (cases hs; cases "tl hs") auto
  show ?thesis
  proof (cases "mget (VfHandles v) i")
    case None
    then show ?thesis by (simp add: releaseHandle_def handles_of_def fun_eq_iff)
  next
    case (Some hs)
    then show ?thesis using absent one by (auto simp: releaseHandle_def handles_of_def fun_eq_iff)
  qed
qed

lemma releaseHandle_rest:
  "VfNext (releaseHandle i fh v) = VfNext v" "VfLive (releaseHandle i fh v) = VfLive v" "VfFds (releaseHandle i fh v) = VfFds v"
  by (simp_all add: releaseHandle_def split: option.split)

lemma set_drop_handle:
  assumes "distinct (map VhFh hs)"
  shows "set (drop_handle fh hs) = {h \<in> set hs. VhFh h \<noteq> fh}"
  using mset_drop_handle [OF assms, of fh] by (metis set_filter set_mset_mset)

lemma vok_releaseHandle:
  assumes "vok v"
  shows "vok (releaseHandle i fh v)"
    and "owned v \<Longrightarrow> (\<And>h. h \<in> set (handles_of v i) \<Longrightarrow> VhFh h = fh \<Longrightarrow> fds_of h = []) \<Longrightarrow> owned (releaseHandle i fh v)"
proof -
  note ok = handles_okD [OF assms [unfolded vok_def]]
  let ?H = "(handles_of v)(i := drop_handle fh (handles_of v i))"
  have set: "set (?H j) = {h \<in> set (handles_of v j). j = i \<longrightarrow> VhFh h \<noteq> fh}" for j
    using set_drop_handle [OF ok(1)] by auto
  have "distinct (map VhFh (drop_handle fh (handles_of v i)))"
  proof -
    have "mset (map VhFh (drop_handle fh (handles_of v i))) = mset (map VhFh (filter (\<lambda>h. VhFh h \<noteq> fh) (handles_of v i)))"
      unfolding mset_map mset_drop_handle [OF ok(1)] ..
    moreover have "distinct (map VhFh (filter (\<lambda>h. VhFh h \<noteq> fh) (handles_of v i)))" using ok(1) by (rule distinct_map_filter)
    ultimately show ?thesis by (metis mset_eq_imp_distinct_iff)
  qed
  then have dist: "distinct (map VhFh (?H j))" for j using ok(1) by simp
  have sub: "pairs ?H \<subseteq> pairs (handles_of v)" unfolding pairs_def set by auto
  show "vok (releaseHandle i fh v)"
    using handles_ok_fewer [OF assms [unfolded vok_def] dist sub]
    by (simp add: vok_def handles_of_releaseHandle releaseHandle_rest)
  show "owned (releaseHandle i fh v)"
    if own: "owned v" and none: "\<And>h. h \<in> set (handles_of v i) \<Longrightarrow> VhFh h = fh \<Longrightarrow> fds_of h = []"
  proof -
    have "x \<in> pairs ?H" if x: "x \<in> pairs (handles_of v)" "fd \<in> set (fds_of (snd x))" for x fd
      using that none [of "snd x"] unfolding pairs_def set by auto
    then show ?thesis using own unfolding owned_def all_owned_def handles_of_releaseHandle releaseHandle_rest by blast
  qed
qed

section \<open>Every call keeps the table\<close>

lemma open_fd_cases:
  assumes "open_fd e flag i len u path v = (v1, r)"
  obtains err where "r = Inl err" "same_handles v v1"
  | f where "r = Inr f" "handles_of v1 = handles_of v" "VfNext v1 = VfNext v" "VfLive v1 = VfLive v @ [VfFds v]"
      "VfFds v1 = VfFds v + 1" "OfFd f = VfFds v"
proof (cases "InoToPath (MtTree (VfMeta v)) i")
  case None
  then show thesis using assms by (intro that(1)) (auto simp: open_fd_def)
next
  case (Some name)
  obtain w q where w: "FdOpen (VeFd e) u path flag (VfFds v) (MtWorld (VfMeta v)) = (w, q)" by fastforce
  show thesis
  proof (cases q)
    case (Inl err)
    then have "r = Inl (ToSyscallErrno err)" "v1 = on_world (\<lambda>_. w) v" using assms by (simp_all add: open_fd_def Some w)
    then show thesis by (intro that(1)) simp_all
  next
    case (Inr q')
    have v1: "v1 = (on_world (\<lambda>_. w) v)\<lparr>VfFds := VfFds v + 1, VfLive := VfLive v @ [VfFds v]\<rparr>"
      and r: "r = Inr \<lparr>OfInode = i, OfName = name, OfPath = path, OfLength = len, OfUfs = u, OfFd = VfFds v\<rparr>"
      using assms by (simp_all add: open_fd_def Some w Inr)
    show thesis by (rule that(2) [OF r]) (simp_all add: v1 on_world_def handles_of_def fun_eq_iff)
  qed
qed

lemma dataReader_Open_cases:
  assumes "dataReader_Open e i len u path v = (v1, r)"
  obtains err where "r = Inl err" "same_handles v v1"
  | f where "r = Inr f" "handles_of v1 = handles_of v" "VfNext v1 = VfNext v" "VfLive v1 = VfLive v @ [VfFds v]"
      "VfFds v1 = VfFds v + 1" "OfFd f = VfFds v"
proof -
  obtain v0 r0 where o: "open_fd e O_RDONLY i len u path v = (v0, r0)" by fastforce
  from o show thesis
  proof (cases rule: open_fd_cases)
    case (1 err)
    then have "r = Inl err" "v1 = v0" using assms o by (simp_all add: dataReader_Open_def)
    then show thesis using 1 by (intro that(1)) simp_all
  next
    case (2 f)
    then have r: "r = Inr f" and v1: "v1 = v0\<lparr>VfReaders := mput i f (VfReaders v0)\<rparr>" using assms o by (simp_all add: dataReader_Open_def)
    show thesis by (rule that(2) [OF r]) (use 2 in \<open>simp_all add: v1 handles_of_def fun_eq_iff\<close>)
  qed
qed

lemma dataWriter_Open_cases:
  assumes "dataWriter_Open e i len u path v = (v1, r)"
  obtains err where "r = Inl err" "same_handles v v1"
  | f where "r = Inr f" "handles_of v1 = handles_of v" "VfNext v1 = VfNext v" "VfLive v1 = VfLive v @ [VfFds v]"
      "VfFds v1 = VfFds v + 1" "OfFd f = VfFds v"
proof -
  obtain v0 r0 where o: "open_fd e O_WRONLY i len u path v = (v0, r0)" by fastforce
  from o show thesis
  proof (cases rule: open_fd_cases)
    case (1 err)
    then have "r = Inl err" "v1 = v0" using assms o by (simp_all add: dataWriter_Open_def)
    then show thesis using 1 by (intro that(1)) simp_all
  next
    case (2 f)
    then have r: "r = Inr f" and v1: "v1 = v0\<lparr>VfWriters := mput i f (VfWriters v0)\<rparr>" using assms o by (simp_all add: dataWriter_Open_def)
    show thesis by (rule that(2) [OF r]) (use 2 in \<open>simp_all add: v1 handles_of_def fun_eq_iff\<close>)
  qed
qed

text \<open>Opening keeps the table, and the descriptors stay owned, since the handle they go into is new.\<close>

definition good :: "'w vfs \<Rightarrow> bool" where
  "good v = (vok v \<and> owned v)"

definition bare :: "'w vfs \<Rightarrow> ino \<Rightarrow> nat \<Rightarrow> (vhandle \<Rightarrow> bool) \<Rightarrow> bool" where
  "bare v i fh P = (\<exists>h\<in>set (handles_of v i). VhFh h = fh \<and> P h)"

lemma same_handles_good: "same_handles v v' \<Longrightarrow> good v' = good v \<and> bare v' i fh P = bare v i fh P \<and> vok v' = vok v"
  using same_handles_keeps [of v v'] by (simp add: good_def bare_def)

lemma attach_reader:
  assumes "dataReader_Open e i len u path v = (v1, Inr f)" and "vok v"
  shows "vok (set_handle i fh (\<lambda>h. h\<lparr>VhReader := Some f\<rparr>) v1)"
    and "owned v \<Longrightarrow> bare v i fh (\<lambda>h. VhReader h = None \<and> VhWriter h = None) \<Longrightarrow> owned (set_handle i fh (\<lambda>h. h\<lparr>VhReader := Some f\<rparr>) v1)"
    and "bare v i fh (\<lambda>h. VhReader h = None \<and> VhWriter h = None) \<Longrightarrow>
      bare (set_handle i fh (\<lambda>h. h\<lparr>VhReader := Some f\<rparr>) v1) i fh (\<lambda>h. VhWriter h = None)"
proof -
  from assms(1) have v1: "handles_of v1 = handles_of v" "VfNext v1 = VfNext v" "VfLive v1 = VfLive v @ [VfFds v]"
      "VfFds v1 = VfFds v + 1" "OfFd f = VfFds v"
    by (cases rule: dataReader_Open_cases; auto)+
  show "vok (set_handle i fh (\<lambda>h. h\<lparr>VhReader := Some f\<rparr>) v1)"
    by (rule vok_attach [OF assms(2) v1(1-4)]) (auto simp: fds_of_def v1(5) split: option.split)
  show "owned (set_handle i fh (\<lambda>h. h\<lparr>VhReader := Some f\<rparr>) v1)"
    if "owned v" and b: "bare v i fh (\<lambda>h. VhReader h = None \<and> VhWriter h = None)"
  proof -
    obtain h where "h \<in> set (handles_of v i)" "VhFh h = fh" "VhReader h = None" "VhWriter h = None"
      using b unfolding bare_def by blast
    then show ?thesis
      by (intro owned_attach [OF assms(2) that(1) v1(1,3), of h]) (auto simp: fds_of_def v1(5))
  qed
  show "bare (set_handle i fh (\<lambda>h. h\<lparr>VhReader := Some f\<rparr>) v1) i fh (\<lambda>h. VhWriter h = None)"
    if b: "bare v i fh (\<lambda>h. VhReader h = None \<and> VhWriter h = None)"
  proof -
    obtain h where h: "h \<in> set (handles_of v i)" "VhFh h = fh" "VhWriter h = None" using b unfolding bare_def by blast
    have "h\<lparr>VhReader := Some f\<rparr> \<in> set (set_first fh (\<lambda>h. h\<lparr>VhReader := Some f\<rparr>) (handles_of v i))"
      by (rule in_set_first [OF h(1,2)]) (rule handles_okD(1) [OF assms(2) [unfolded vok_def]])
    then show ?thesis unfolding bare_def handles_of_set_handle v1(1) using h(2,3)
      by (intro bexI [of _ "h\<lparr>VhReader := Some f\<rparr>"]) simp_all
  qed
qed

lemma attach_writer:
  assumes "dataWriter_Open e i len u path v = (v1, Inr f)" and "vok v"
  shows "vok (set_handle i fh (\<lambda>h. h\<lparr>VhWriter := Some f\<rparr>) v1)"
    and "owned v \<Longrightarrow> bare v i fh (\<lambda>h. VhWriter h = None) \<Longrightarrow> owned (set_handle i fh (\<lambda>h. h\<lparr>VhWriter := Some f\<rparr>) v1)"
proof -
  from assms(1) have v1: "handles_of v1 = handles_of v" "VfNext v1 = VfNext v" "VfLive v1 = VfLive v @ [VfFds v]"
      "VfFds v1 = VfFds v + 1" "OfFd f = VfFds v"
    by (cases rule: dataWriter_Open_cases; auto)+
  show "vok (set_handle i fh (\<lambda>h. h\<lparr>VhWriter := Some f\<rparr>) v1)"
    by (rule vok_attach [OF assms(2) v1(1-4)]) (auto simp: fds_of_def v1(5) split: option.split)
  show "owned (set_handle i fh (\<lambda>h. h\<lparr>VhWriter := Some f\<rparr>) v1)"
    if "owned v" and b: "bare v i fh (\<lambda>h. VhWriter h = None)"
  proof -
    obtain h where "h \<in> set (handles_of v i)" "VhFh h = fh" "VhWriter h = None"
      using b unfolding bare_def by blast
    then show ?thesis
      by (intro owned_attach [OF assms(2) that(1) v1(1,3), of h]) (auto simp: fds_of_def v1(5))
  qed
qed

definition opens :: "'w vfs \<Rightarrow> 'w vfs \<Rightarrow> bool" where
  "opens v v' = (vok v \<longrightarrow> vok v' \<and> (owned v \<longrightarrow> owned v'))"

lemma opens_same: "same_handles v v' \<Longrightarrow> opens v v'"
  using same_handles_keeps [of v v'] by (simp add: opens_def)

lemma opens_trans: "opens u v \<Longrightarrow> opens v w \<Longrightarrow> opens u w"
  by (simp add: opens_def)

definition put_reader :: "ino \<Rightarrow> nat \<Rightarrow> 'w vfs \<times> (errno + open_file) \<Rightarrow> 'w vfs" where
  "put_reader i fh x = (case x of (v, Inl err) \<Rightarrow> v | (v, Inr f) \<Rightarrow> set_handle i fh (\<lambda>h. h\<lparr>VhReader := Some f\<rparr>) v)"

definition put_writer :: "ino \<Rightarrow> nat \<Rightarrow> 'w vfs \<times> (errno + open_file) \<Rightarrow> 'w vfs" where
  "put_writer i fh x = (case x of (v, Inl err) \<Rightarrow> v | (v, Inr f) \<Rightarrow> set_handle i fh (\<lambda>h. h\<lparr>VhWriter := Some f\<rparr>) v)"

lemma put_reader_keeps:
  assumes "vok v"
  shows "vok (put_reader i fh (dataReader_Open e i len u path v))"
    and "owned v \<Longrightarrow> bare v i fh (\<lambda>h. VhReader h = None \<and> VhWriter h = None) \<Longrightarrow> owned (put_reader i fh (dataReader_Open e i len u path v))"
    and "bare v i fh (\<lambda>h. VhReader h = None \<and> VhWriter h = None) \<Longrightarrow>
      bare (put_reader i fh (dataReader_Open e i len u path v)) i fh (\<lambda>h. VhWriter h = None)"
proof -
  obtain v1 r where o: "dataReader_Open e i len u path v = (v1, r)" by fastforce
  have weak: "bare v i fh (\<lambda>h. VhReader h = None \<and> VhWriter h = None) \<Longrightarrow> bare v i fh (\<lambda>h. VhWriter h = None)"
    unfolding bare_def by blast
  show "vok (put_reader i fh (dataReader_Open e i len u path v))"
    and "owned v \<Longrightarrow> bare v i fh (\<lambda>h. VhReader h = None \<and> VhWriter h = None) \<Longrightarrow> owned (put_reader i fh (dataReader_Open e i len u path v))"
    and "bare v i fh (\<lambda>h. VhReader h = None \<and> VhWriter h = None) \<Longrightarrow>
      bare (put_reader i fh (dataReader_Open e i len u path v)) i fh (\<lambda>h. VhWriter h = None)"
  proof (atomize (full), cases r)
    case (Inl err)
    with o have same: "same_handles v v1" by (cases rule: dataReader_Open_cases) auto
    have p: "put_reader i fh (dataReader_Open e i len u path v) = v1" by (simp add: put_reader_def o Inl)
    show "vok (put_reader i fh (dataReader_Open e i len u path v)) \<and>
      (owned v \<longrightarrow> bare v i fh (\<lambda>h. VhReader h = None \<and> VhWriter h = None) \<longrightarrow> owned (put_reader i fh (dataReader_Open e i len u path v))) \<and>
      (bare v i fh (\<lambda>h. VhReader h = None \<and> VhWriter h = None) \<longrightarrow>
        bare (put_reader i fh (dataReader_Open e i len u path v)) i fh (\<lambda>h. VhWriter h = None))"
      unfolding p using same_handles_keeps [OF same] same_handles_good [OF same] assms weak by simp
  next
    case (Inr f)
    have p: "put_reader i fh (dataReader_Open e i len u path v) = set_handle i fh (\<lambda>h. h\<lparr>VhReader := Some f\<rparr>) v1"
      by (simp add: put_reader_def o Inr)
    show "vok (put_reader i fh (dataReader_Open e i len u path v)) \<and>
      (owned v \<longrightarrow> bare v i fh (\<lambda>h. VhReader h = None \<and> VhWriter h = None) \<longrightarrow> owned (put_reader i fh (dataReader_Open e i len u path v))) \<and>
      (bare v i fh (\<lambda>h. VhReader h = None \<and> VhWriter h = None) \<longrightarrow>
        bare (put_reader i fh (dataReader_Open e i len u path v)) i fh (\<lambda>h. VhWriter h = None))"
      unfolding p using attach_reader [OF o [unfolded Inr] assms] by blast
  qed
qed

lemma put_writer_keeps:
  assumes "vok v"
  shows "vok (put_writer i fh (dataWriter_Open e i len u path v))"
    and "owned v \<Longrightarrow> bare v i fh (\<lambda>h. VhWriter h = None) \<Longrightarrow> owned (put_writer i fh (dataWriter_Open e i len u path v))"
proof -
  obtain v1 r where o: "dataWriter_Open e i len u path v = (v1, r)" by fastforce
  have both: "vok (put_writer i fh (dataWriter_Open e i len u path v)) \<and>
     (owned v \<longrightarrow> bare v i fh (\<lambda>h. VhWriter h = None) \<longrightarrow> owned (put_writer i fh (dataWriter_Open e i len u path v)))"
  proof (cases r)
    case (Inl err)
    with o have same: "same_handles v v1" by (cases rule: dataWriter_Open_cases) auto
    have p: "put_writer i fh (dataWriter_Open e i len u path v) = v1" by (simp add: put_writer_def o Inl)
    show ?thesis unfolding p using same_handles_keeps [OF same] assms by simp
  next
    case (Inr f)
    have p: "put_writer i fh (dataWriter_Open e i len u path v) = set_handle i fh (\<lambda>h. h\<lparr>VhWriter := Some f\<rparr>) v1"
      by (simp add: put_writer_def o Inr)
    show ?thesis unfolding p using attach_writer [OF o [unfolded Inr] assms] by blast
  qed
  then show "vok (put_writer i fh (dataWriter_Open e i len u path v))"
    and "owned v \<Longrightarrow> bare v i fh (\<lambda>h. VhWriter h = None) \<Longrightarrow> owned (put_writer i fh (dataWriter_Open e i len u path v))"
    by blast+
qed

text \<open>The state after \<open>newFileHandle\<close> in terms of the two steps.\<close>

lemma newFileHandle_state:
  assumes "newFileHandle e i len flags u path v = (v', r)" and "newHandle i v = (v1, fh)"
  defines "v2 \<equiv> put_reader i fh (dataReader_Open e i len u path v1)"
  shows "v' \<in> {v1, v2, put_writer i fh (dataWriter_Open e i len u path v1), put_writer i fh (dataWriter_Open e i len u path v2)}"
proof -
  obtain w rr where rd: "dataReader_Open e i len u path v1 = (w, rr)" by fastforce
  consider (r) "flags AND O_ACCMODE = O_RDONLY" | (w) "flags AND O_ACCMODE \<noteq> O_RDONLY" "flags AND O_ACCMODE = O_WRONLY"
    | (rw) "flags AND O_ACCMODE \<noteq> O_RDONLY" "flags AND O_ACCMODE \<noteq> O_WRONLY" "flags AND O_ACCMODE = O_RDWR"
    | (no) "flags AND O_ACCMODE \<noteq> O_RDONLY" "flags AND O_ACCMODE \<noteq> O_WRONLY" "flags AND O_ACCMODE \<noteq> O_RDWR"
    by blast
  then show ?thesis
  proof cases
    case r
    then have "v' = v2" using assms(1) unfolding newFileHandle_def assms(2) prod.case v2_def put_reader_def rd
      by (cases rr) simp_all
    then show ?thesis by simp
  next
    case w
    obtain x rw where wr: "dataWriter_Open e i len u path v1 = (x, rw)" by fastforce
    have "v' = put_writer i fh (dataWriter_Open e i len u path v1)"
      using assms(1) w unfolding newFileHandle_def assms(2) prod.case put_writer_def wr by (cases rw) simp_all
    then show ?thesis by simp
  next
    case rw
    show ?thesis
    proof (cases "rr = Inl GO_PANIC")
      case True
      then have "v' = v2" using assms(1) rw unfolding newFileHandle_def assms(2) prod.case v2_def put_reader_def rd by simp
      then show ?thesis by simp
    next
      case False
      have v2: "v2 = (case rr of Inl err \<Rightarrow> w | Inr f \<Rightarrow> set_handle i fh (\<lambda>h. h\<lparr>VhReader := Some f\<rparr>) w)"
        by (cases rr) (simp_all add: v2_def put_reader_def rd)
      obtain x rx where wr: "dataWriter_Open e i len u path v2 = (x, rx)" by fastforce
      have "newFileHandle e i len flags u path v =
          (case (x, rx) of (v4, Inl err) \<Rightarrow> (v4, Inl err) | (v4, Inr f) \<Rightarrow> (set_handle i fh (\<lambda>h. h\<lparr>VhWriter := Some f\<rparr>) v4, Inr fh))"
        using False rw wr unfolding v2 newFileHandle_def assms(2) prod.case rd by (auto simp: Let_def split: sum.split errno.split)
      then have "v' = put_writer i fh (dataWriter_Open e i len u path v2)"
        using assms(1) unfolding wr put_writer_def by (cases rx) simp_all
      then show ?thesis by simp
    qed
  next
    case no
    then have "v' = v1" using assms(1) unfolding newFileHandle_def assms(2) prod.case by simp
    then show ?thesis by simp
  qed
qed

lemma newFileHandle_opens:
  assumes "newFileHandle e i len flags u path v = (v', r)"
  shows "opens v v'"
  unfolding opens_def
proof
  assume v: "vok v"
  obtain v1 fh where n: "newHandle i v = (v1, fh)" by fastforce
  note v1 = vok_newHandle [OF v n]
  have b: "bare v1 i fh (\<lambda>h. VhReader h = None \<and> VhWriter h = None)" using v1(3) by (simp add: bare_def)
  then have bw: "bare v1 i fh (\<lambda>h. VhWriter h = None)" unfolding bare_def by blast
  let ?v2 = "put_reader i fh (dataReader_Open e i len u path v1)"
  note v2 = put_reader_keeps [OF v1(1), of i fh e len u path]
  have "owned v \<Longrightarrow> owned ?v2" using v1(2) v2(2) b by blast
  moreover have "vok (put_writer i fh (dataWriter_Open e i len u path v1))"
    "owned v \<Longrightarrow> owned (put_writer i fh (dataWriter_Open e i len u path v1))"
    using put_writer_keeps [OF v1(1)] v1(2) bw by blast+
  moreover have "vok (put_writer i fh (dataWriter_Open e i len u path ?v2))"
    "owned ?v2 \<Longrightarrow> owned (put_writer i fh (dataWriter_Open e i len u path ?v2))"
    using put_writer_keeps [OF v2(1)] v2(3) [OF b] by blast+
  ultimately show "vok v' \<and> (owned v \<longrightarrow> owned v')"
    using newFileHandle_state [OF assms n] v1(1,2) v2(1) by blast
qed

text \<open>Closing a handle releases its descriptors, unless the flush of its writer fails.\<close>

definition flushes :: "'w vfs_env \<Rightarrow> bool" where
  "flushes e = (\<forall>fd w. snd (FdFlush (VeFd e) fd w) = None)"

lemma fileWriter_Flush_same: "same_handles v (fst (fileWriter_Flush e f v))"
  by (auto simp: fileWriter_Flush_def Let_def same_handles_def on_world_def invalidate_def split: prod.split option.split)

lemma release_fd_rest:
  "handles_of (release_fd e fd v) = handles_of v" "VfNext (release_fd e fd v) = VfNext v"
  "VfLive (release_fd e fd v) = remove1 fd (VfLive v)" "VfFds (release_fd e fd v) = VfFds v"
  by (simp_all add: release_fd_def on_world_def handles_of_def fun_eq_iff)

lemma close_reader:
  fixes e :: "'w vfs_env" and v :: "'w vfs"
  assumes "vok v" and "h \<in> set (handles_of v i)" and "VhFh h = fh" and "VhReader h = Some f"
  defines "v1 \<equiv> set_handle i fh (\<lambda>h. h\<lparr>VhReader := None\<rparr>) (fileReader_Close e f v)"
  shows "vok v1" and "owned v \<Longrightarrow> owned v1" and "h\<lparr>VhReader := None\<rparr> \<in> set (handles_of v1 i)"
proof -
  let ?v0 = "v\<lparr>VfReaders := mdel (OfInode f) (VfReaders v)\<rparr>"
  have "handles_of ?v0 = handles_of v" by (simp add: handles_of_def fun_eq_iff)
  then have r: "handles_of (fileReader_Close e f v) = handles_of v" "VfNext (fileReader_Close e f v) = VfNext v"
    "VfLive (fileReader_Close e f v) = remove1 (OfFd f) (VfLive v)" "VfFds (fileReader_Close e f v) = VfFds v"
    by (simp_all add: fileReader_Close_def release_fd_rest)
  have "(i, h) \<in> pairs (handles_of v)" using assms(2) by (simp add: pairs_def)
  from handles_okD(3) [OF assms(1) [unfolded vok_def] this] have d: "distinct (fds_of h)" by simp
  have fd: "OfFd f \<in> set (fds_of h)" and gd: "distinct (fds_of (h\<lparr>VhReader := None\<rparr>))"
    by (auto simp: fds_of_def assms(4) split: option.split)
  have gs: "set (fds_of (h\<lparr>VhReader := None\<rparr>)) = set (fds_of h) - {OfFd f}"
    using d by (auto simp: fds_of_def assms(4) split: option.splits)
  show "vok v1" and "owned v \<Longrightarrow> owned v1"
    using vok_detach [OF assms(1) r, of "\<lambda>h. h\<lparr>VhReader := None\<rparr>" h i fh, OF _ assms(2,3) fd gd gs]
    unfolding v1_def by simp_all
  show "h\<lparr>VhReader := None\<rparr> \<in> set (handles_of v1 i)"
    unfolding v1_def handles_of_set_handle r fun_upd_same
    by (rule in_set_first [OF assms(2,3)]) (rule handles_okD(1) [OF assms(1) [unfolded vok_def]])
qed

lemma close_writer:
  fixes e :: "'w vfs_env" and v :: "'w vfs"
  assumes "vok v" and "h \<in> set (handles_of v i)" and "VhFh h = fh" and "VhWriter h = Some f"
  defines "v1 \<equiv> set_handle i fh (\<lambda>h. h\<lparr>VhWriter := None\<rparr>) (fst (fileWriter_Close e f v))"
  shows "vok v1" and "flushes e \<Longrightarrow> owned v \<Longrightarrow> owned v1" and "h\<lparr>VhWriter := None\<rparr> \<in> set (handles_of v1 i)"
proof -
  obtain v0 r where fl: "fileWriter_Flush e f v = (v0, r)" by fastforce
  have same: "same_handles v v0" using fileWriter_Flush_same [of v e f] fl by simp
  note s = same_handles_keeps [OF same]
  have v0: "vok v0" "owned v0 = owned v" using s assms(1) by simp_all
  have h0: "h \<in> set (handles_of v0 i)" using s assms(2) by simp
  show "h\<lparr>VhWriter := None\<rparr> \<in> set (handles_of v1 i)"
  proof -
    have "handles_of (fst (fileWriter_Close e f v)) = handles_of v"
    proof (cases r)
      case (Inl err)
      then show ?thesis by (simp add: fileWriter_Close_def fl s(1))
    next
      case (Inr u)
      have "handles_of (v0\<lparr>VfWriters := mdel (OfInode f) (VfWriters v0)\<rparr>) = handles_of v0" by (simp add: handles_of_def fun_eq_iff)
      then show ?thesis by (simp add: fileWriter_Close_def fl Inr release_fd_rest s(1))
    qed
    then show ?thesis unfolding v1_def handles_of_set_handle fun_upd_same
      using in_set_first [OF assms(2,3) handles_okD(1) [OF assms(1) [unfolded vok_def]], of "\<lambda>h. h\<lparr>VhWriter := None\<rparr>"] by simp
  qed
  show "vok v1" and "flushes e \<Longrightarrow> owned v \<Longrightarrow> owned v1"
  proof (atomize (full), cases r)
    case (Inl err)
    have "\<not> flushes e"
    proof
      assume "flushes e"
      then have "snd (fileWriter_Flush e f v) = Inr ()"
        by (simp add: flushes_def fileWriter_Flush_def Let_def split: prod.split option.split) (metis snd_conv option.distinct(1))
      then show False using fl Inl by simp
    qed
    moreover have "vok (set_handle i fh (\<lambda>h. h\<lparr>VhWriter := None\<rparr>) v0)"
      by (rule vok_forget [OF v0(1)]) (auto simp: fds_of_def split: option.split)
    ultimately show "vok v1 \<and> (flushes e \<longrightarrow> owned v \<longrightarrow> owned v1)"
      by (simp add: v1_def fileWriter_Close_def fl Inl)
  next
    case (Inr u)
    let ?v0 = "v0\<lparr>VfWriters := mdel (OfInode f) (VfWriters v0)\<rparr>"
    have c: "fst (fileWriter_Close e f v) = release_fd e (OfFd f) ?v0" by (simp add: fileWriter_Close_def fl Inr)
    have "handles_of ?v0 = handles_of v0" by (simp add: handles_of_def fun_eq_iff)
    then have rr: "handles_of (release_fd e (OfFd f) ?v0) = handles_of v0" "VfNext (release_fd e (OfFd f) ?v0) = VfNext v0"
      "VfLive (release_fd e (OfFd f) ?v0) = remove1 (OfFd f) (VfLive v0)" "VfFds (release_fd e (OfFd f) ?v0) = VfFds v0"
      by (simp_all add: release_fd_rest)
    have "(i, h) \<in> pairs (handles_of v0)" using h0 by (simp add: pairs_def)
    from handles_okD(3) [OF v0(1) [unfolded vok_def] this] have d: "distinct (fds_of h)" by simp
    have fd: "OfFd f \<in> set (fds_of h)" and gd: "distinct (fds_of (h\<lparr>VhWriter := None\<rparr>))"
      by (auto simp: fds_of_def assms(4) split: option.split)
    have gs: "set (fds_of (h\<lparr>VhWriter := None\<rparr>)) = set (fds_of h) - {OfFd f}"
      using d by (auto simp: fds_of_def assms(4) split: option.splits)
    show "vok v1 \<and> (flushes e \<longrightarrow> owned v \<longrightarrow> owned v1)"
      using vok_detach [OF v0(1) rr, of "\<lambda>h. h\<lparr>VhWriter := None\<rparr>" h i fh, OF _ h0 assms(3) fd gd gs] v0(2)
      unfolding v1_def c by simp
  qed
qed

lemma handle_Close_keeps:
  fixes e :: "'w vfs_env" and v :: "'w vfs"
  assumes "vok v" and "h \<in> set (handles_of v i)"
  shows "vok (handle_Close e i h v)" and "flushes e \<Longrightarrow> owned v \<Longrightarrow> owned (handle_Close e i h v)"
    and "\<exists>k\<in>set (handles_of (handle_Close e i h v) i). VhFh k = VhFh h \<and> fds_of k = []"
proof -
  define v1 where "v1 = (case VhReader h of None \<Rightarrow> v | Some f \<Rightarrow> set_handle i (VhFh h) (\<lambda>h. h\<lparr>VhReader := None\<rparr>) (fileReader_Close e f v))"
  define h1 where "h1 = h\<lparr>VhReader := None\<rparr>"
  have v1: "vok v1" "owned v \<Longrightarrow> owned v1" "h1 \<in> set (handles_of v1 i)"
  proof (atomize (full), cases "VhReader h")
    case None
    then have "h1 = h" by (simp add: h1_def)
    then show "vok v1 \<and> (owned v \<longrightarrow> owned v1) \<and> h1 \<in> set (handles_of v1 i)" using assms None by (simp add: v1_def)
  next
    case (Some f)
    then show "vok v1 \<and> (owned v \<longrightarrow> owned v1) \<and> h1 \<in> set (handles_of v1 i)"
      using close_reader [OF assms refl Some, of e] by (simp add: v1_def h1_def)
  qed
  have fh: "VhFh h1 = VhFh h" "VhWriter h1 = VhWriter h" "VhReader h1 = None" by (simp_all add: h1_def)
  have eq: "handle_Close e i h v = (case VhWriter h of None \<Rightarrow> v1
      | Some f \<Rightarrow> set_handle i (VhFh h) (\<lambda>h. h\<lparr>VhWriter := None\<rparr>) (fst (fileWriter_Close e f v1)))"
    unfolding handle_Close_def v1_def Let_def ..
  have "vok (handle_Close e i h v) \<and> (flushes e \<longrightarrow> owned v \<longrightarrow> owned (handle_Close e i h v)) \<and>
    (\<exists>k\<in>set (handles_of (handle_Close e i h v) i). VhFh k = VhFh h \<and> fds_of k = [])"
  proof (cases "VhWriter h")
    case None
    then have "fds_of h1 = []" by (simp add: fds_of_def fh)
    then have "\<exists>k\<in>set (handles_of v1 i). VhFh k = VhFh h \<and> fds_of k = []"
      using v1(3) fh(1) by (intro bexI [of _ h1] conjI)
    then show ?thesis using v1(1,2) unfolding eq None option.case by blast
  next
    case (Some f)
    note c = close_writer [OF v1(1) v1(3) fh(1) trans [OF fh(2) Some], of e]
    have e: "fds_of (h1\<lparr>VhWriter := None\<rparr>) = []" "VhFh (h1\<lparr>VhWriter := None\<rparr>) = VhFh h" by (simp_all add: fds_of_def fh)
    have "\<exists>k\<in>set (handles_of (set_handle i (VhFh h) (\<lambda>h. h\<lparr>VhWriter := None\<rparr>) (fst (fileWriter_Close e f v1))) i).
        VhFh k = VhFh h \<and> fds_of k = []"
      by (intro bexI [of _ "h1\<lparr>VhWriter := None\<rparr>"] conjI e c(3))
    then show ?thesis using c(1,2) v1(2) unfolding eq Some option.case by blast
  qed
  then show "vok (handle_Close e i h v)" and "flushes e \<Longrightarrow> owned v \<Longrightarrow> owned (handle_Close e i h v)"
    and "\<exists>k\<in>set (handles_of (handle_Close e i h v) i). VhFh k = VhFh h \<and> fds_of k = []" by blast+
qed

definition keeps :: "'w vfs_env \<Rightarrow> 'w vfs \<Rightarrow> 'w vfs \<Rightarrow> bool" where
  "keeps e v v' = (vok v \<longrightarrow> vok v' \<and> (flushes e \<longrightarrow> owned v \<longrightarrow> owned v'))"

lemma keeps_same: "same_handles v v' \<Longrightarrow> keeps e v v'"
  using same_handles_keeps [of v v'] by (simp add: keeps_def)

lemma keeps_opens: "opens v v' \<Longrightarrow> keeps e v v'"
  by (simp add: keeps_def opens_def)

lemma keeps_trans: "keeps e u v \<Longrightarrow> keeps e v w \<Longrightarrow> keeps e u w"
  by (simp add: keeps_def)

lemma releaseFileHandle_keeps: "keeps e v (releaseFileHandle e i fh v)"
proof (cases "findHandle v i fh")
  case None
  then show ?thesis by (simp add: releaseFileHandle_def keeps_same)
next
  case (Some h)
  then have h: "h \<in> set (handles_of v i)" "VhFh h = fh" by (auto simp: findHandle_def find_Some_iff)
  let ?v1 = "handle_Close e i h v"
  show ?thesis unfolding keeps_def releaseFileHandle_def Some option.case
  proof (intro impI conjI)
    assume ok: "vok v"
    note c = handle_Close_keeps [OF ok h(1), of e]
    show "vok (releaseHandle i fh ?v1)" by (rule vok_releaseHandle(1) [OF c(1)])
    assume f: "flushes e" and o: "owned v"
    obtain k where k: "k \<in> set (handles_of ?v1 i)" "VhFh k = fh" "fds_of k = []" using c(3) h(2) by blast
    have d: "distinct (map VhFh (handles_of ?v1 i))" by (rule handles_okD(1) [OF c(1) [unfolded vok_def]])
    have "fds_of x = []" if "x \<in> set (handles_of ?v1 i)" "VhFh x = fh" for x
    proof -
      have "x = k" using d that k(1,2) by (auto simp: distinct_map inj_on_def)
      then show ?thesis using k(3) by simp
    qed
    then show "owned (releaseHandle i fh ?v1)" by (rule vok_releaseHandle(2) [OF c(1) c(2) [OF f o]])
  qed
qed

text \<open>The released number is gone, and the other handles are as before.\<close>

lemma same_via_meta: "same_handles v (fst (via_meta f v))"
  by (simp add: via_meta_def same_handles_def split: prod.split)

lemma same_invalidate_ino: "same_handles v (fst (invalidate_ino i suffix sz v))"
  by (simp add: invalidate_ino_def split: option.split)

lemma same_truncate_writers: "same_handles v (truncate_writers e sz hs v)"
proof -
  have "same_handles u v \<Longrightarrow> same_handles u (truncate_writers e sz hs v)" for u
  proof (induction hs arbitrary: v)
    case (Cons h hs)
    have "same_handles v (case VhWriter h of None \<Rightarrow> v | Some f \<Rightarrow> fileWriter_Truncate e f sz v)"
      by (simp add: fileWriter_Truncate_def split: option.split)
    then show ?case using Cons.IH same_handles_trans [OF Cons.prems] by (simp add: truncate_writers_def)
  qed (simp add: truncate_writers_def)
  then show ?thesis by simp
qed

lemma fileReader_Read_same: "fileReader_Read e now f len off v = Some (v', r) \<Longrightarrow> same_handles v v'"
  by (auto simp: fileReader_Read_def Let_def split: option.splits)

lemma vok_children: "keeps e v (set_handle i fh (\<lambda>h. h\<lparr>VhChildren := c\<rparr>) v)"
  unfolding keeps_def
proof (intro impI conjI)
  assume ok: "vok v"
  have f: "fds_of (h\<lparr>VhChildren := c\<rparr>) = fds_of h" for h by (simp add: fds_of_def)
  show "vok (set_handle i fh (\<lambda>h. h\<lparr>VhChildren := c\<rparr>) v)" by (rule vok_forget [OF ok]) (simp_all add: f)
  assume o: "owned v"
  note d = handles_okD(1) [OF ok [unfolded vok_def]]
  have "\<exists>x\<in>pairs ((handles_of v)(i := set_first fh (\<lambda>h. h\<lparr>VhChildren := c\<rparr>) (handles_of v i))). fd \<in> set (fds_of (snd x))"
    if live: "fd \<in> set (VfLive v)" for fd
  proof -
    obtain x where x: "x \<in> pairs (handles_of v)" "fd \<in> set (fds_of (snd x))"
      using o live unfolding owned_def all_owned_def by blast
    show ?thesis
    proof (rule bexI [of _ "change i fh (\<lambda>h. h\<lparr>VhChildren := c\<rparr>) x"])
      show "fd \<in> set (fds_of (snd (change i fh (\<lambda>h. h\<lparr>VhChildren := c\<rparr>) x)))" using x(2) by (simp add: change_def f)
      show "change i fh (\<lambda>h. h\<lparr>VhChildren := c\<rparr>) x \<in> pairs ((handles_of v)(i := set_first fh (\<lambda>h. h\<lparr>VhChildren := c\<rparr>) (handles_of v i)))"
        unfolding pairs_set [of "handles_of v" i, OF d] using x(1) by (rule imageI)
    qed
  qed
  then show "owned (set_handle i fh (\<lambda>h. h\<lparr>VhChildren := c\<rparr>) v)"
    unfolding owned_def all_owned_def by (simp add: handles_of_set_handle)
qed

lemma fst_case_same: "same_handles v (fst r) \<Longrightarrow> (\<And>v' x. r = (v', Inr x) \<Longrightarrow> keeps e v' (fst (f x v'))) \<Longrightarrow>
  keeps e v (fst (case r of (v', Inl err) \<Rightarrow> (v', Inl err) | (v', Inr x) \<Rightarrow> f x v'))"
  by (cases r; cases "snd r") (auto intro: keeps_same keeps_trans)

lemma keeps_refl [simp]: "keeps e v v"
  by (simp add: keeps_def)

lemma vfs_SetAttr_keeps: "keeps e v (fst (vfs_SetAttr e i flags a v))"
  unfolding vfs_SetAttr_def
  by (rule fst_case_same [OF same_via_meta]) (simp add: keeps_same same_truncate_writers)

lemma vfs_Rename_same: "same_handles v (fst (vfs_Rename e p n q k v))"
proof -
  obtain v1 r where r: "via_meta (meta_Rename (VeUfs e) p n q k) v = (v1, r)" by fastforce
  have 1: "same_handles v v1" using same_via_meta [of v "meta_Rename (VeUfs e) p n q k"] r by simp
  have 2: "same_handles v1 (fst (invalidate_ino p suf sz v1))" for suf sz by (rule same_invalidate_ino)
  show ?thesis
  proof (cases r)
    case (Inl err)
    then show ?thesis using 1 by (simp add: vfs_Rename_def r)
  next
    case (Inr x)
    obtain i a where x: "x = (i, a)" by (cases x)
    obtain v2 r2 where r2: "invalidate_ino p (slash # n) (AtSize a) v1 = (v2, r2)" by fastforce
    have "same_handles v v2" using same_handles_trans [OF 1 2 [of "slash # n" "AtSize a"]] r2 by simp
    moreover have "same_handles v2 (fst (invalidate_ino i '''' (AtSize a) v2))" by (rule same_invalidate_ino)
    ultimately show ?thesis using 1 same_handles_trans
      by (cases r2) (auto simp: vfs_Rename_def r Inr x r2)
  qed
qed

lemma vfs_Rename_keeps: "keeps e v (fst (vfs_Rename e p n q k v))"
  by (rule keeps_same [OF vfs_Rename_same])

lemma vfs_Create_keeps: "keeps e v (fst (vfs_Create e p n mode flags v))"
proof -
  obtain v1 r where r: "via_meta (meta_Create (VeUfs e) p n mode flags) v = (v1, r)" by fastforce
  have 1: "keeps e v v1" using same_via_meta [of v "meta_Create (VeUfs e) p n mode flags"] r by (simp add: keeps_same)
  show ?thesis
  proof (cases r)
    case (Inl err)
    then show ?thesis using 1 by (simp add: vfs_Create_def r)
  next
    case (Inr x)
    obtain i a u path where x: "x = ((i, a), u, path)" by (metis prod_cases3 surj_pair)
    obtain v2 r2 where r2: "newFileHandle e i (nat (AtSize a)) flags u path v1 = (v2, r2)" by fastforce
    have 2: "keeps e v v2" using keeps_trans [OF 1 keeps_opens [OF newFileHandle_opens [OF r2]]] .
    have 3: "keeps e v2 (fst (invalidate_ino i '''' (AtSize a) v2))" by (rule keeps_same [OF same_invalidate_ino])
    show ?thesis
    proof (cases r2)
      case err: (Inl err)
      then show ?thesis using 2 by (simp add: vfs_Create_def r Inr x r2)
    next
      case fh: (Inr fh)
      then show ?thesis using 2 keeps_trans [OF 2 3]
        by (cases "invalidate_ino i '''' (AtSize a) v2"; cases "snd (invalidate_ino i '''' (AtSize a) v2)")
          (simp_all add: vfs_Create_def r Inr x r2)
    qed
  qed
qed

lemma vfs_Open_keeps: "keeps e v (fst (vfs_Open e i flags v))"
proof (cases "meta_Open (VeUfs e) i (VfMeta v)")
  case (Inl err)
  then show ?thesis by (simp add: vfs_Open_def)
next
  case (Inr x)
  obtain a u path where x: "x = (a, u, path)" by (cases x)
  obtain v1 r where r: "newFileHandle e i (nat (AtSize a)) flags u path v = (v1, r)" by fastforce
  have "keeps e v v1" by (rule keeps_opens [OF newFileHandle_opens [OF r]])
  then show ?thesis by (cases r) (simp_all add: vfs_Open_def Inr x r)
qed

lemma vfs_calls_same:
  "vfs_Read e now i len off fh v = Some (v', r) \<Longrightarrow> same_handles v v'"
  "same_handles v (fst (vfs_Write e i data off fh v))" "same_handles v (fst (vfs_Flush e i fh v))"
  "same_handles v (fst (vfs_Fsync e i fh v))"
proof -
  show "vfs_Read e now i len off fh v = Some (v', r) \<Longrightarrow> same_handles v v'"
    by (auto simp: vfs_Read_def split: option.splits dest: fileReader_Read_same)
  have inv: "same_handles v (on_world g (invalidate n len v))" for g n len
    by (rule same_handles_trans [of _ "invalidate n len v"]) simp_all
  show "same_handles v (fst (vfs_Write e i data off fh v))"
    by (auto simp: vfs_Write_def fileWriter_Write_def Let_def inv split: option.splits prod.splits)
  show "same_handles v (fst (vfs_Flush e i fh v))"
    by (auto simp: vfs_Flush_def fileWriter_Flush_same split: option.splits)
  show "same_handles v (fst (vfs_Fsync e i fh v))"
    by (auto simp: vfs_Fsync_def fileWriter_Fsync_def split: option.splits prod.splits)
qed

lemma vfs_ReadDir_keeps: "keeps e v (fst (vfs_ReadDir e i fh offset v))"
  by (auto simp: vfs_ReadDir_def vok_children split: option.splits sum.splits)

lemma vfs_step_keeps:
  assumes "vfs_step e a v = Some v'"
  shows "keeps e v v'"
proof (cases a)
  case (VaOpenDir i)
  obtain v1 fh where n: "newHandle i v = (v1, fh)" by fastforce
  then show ?thesis using assms vok_newHandle(1,2) [OF _ n] by (simp add: VaOpenDir vfs_OpenDir_def keeps_def)
next
  case (VaCache ca)
  then show ?thesis using assms by (auto simp: keeps_same split: option.splits if_splits)
next
  case (VaRead now i len off fh)
  then show ?thesis using assms by (auto dest!: vfs_calls_same(1) intro: keeps_same)
qed (use assms in \<open>auto simp: vfs_SetAttr_keeps vfs_Rename_keeps vfs_Create_keeps vfs_Open_keeps vfs_ReadDir_keeps
      vfs_ReleaseDir_def vfs_Release_def releaseFileHandle_keeps vfs_calls_same(2-4) intro: keeps_same\<close>)

interpretation client_vfs: step_machine "vfs_step e" "\<lambda>a. True" "\<lambda>v. vok v \<and> (flushes e \<longrightarrow> owned v)" for e :: "'w vfs_env"
  by unfold_locales (auto dest: vfs_step_keeps simp: keeps_def)

lemma run_keeps:
  fixes e :: "'w vfs_env"
  assumes "InitVFS (VeUfs e) fm links config df w = (w0, Inr v0)" and "run_acts (vfs_step e) acts v0 = Some v"
  shows "vok v" and "flushes e \<Longrightarrow> owned v"
proof -
  have v0: "handles_of v0 i = []" "VfLive v0 = []" for i
    using assms(1) by (auto simp: InitVFS_def handles_of_def split: prod.splits sum.splits)
  then have "pairs (handles_of v0) = {}" by (simp add: pairs_def)
  then have "vok v0 \<and> (flushes e \<longrightarrow> owned v0)" using v0 by (simp add: vok_def handles_ok_def owned_def all_owned_def)
  then show "vok v" and "flushes e \<Longrightarrow> owned v" using client_vfs.acts_inv [OF assms(2)] by (simp_all add: list_all_iff)
qed

section \<open>Properties\<close>

subsection \<open>Handles and descriptors\<close>

text \<open>
  C24: In every state the calls reach, whatever fails: a handle number belongs to one handle of one inode; the descriptors of
  the readers and writers are live, that is never used after their release, and no two readers or
  writers share one. If flushes do not fail, nothing leaks: every live descriptor belongs to a handle.
\<close>

theorem vfs_descriptors_sound:
  fixes e :: "'w vfs_env"
  assumes "InitVFS (VeUfs e) fm links config df w = (w0, Inr v0)" and "run_acts (vfs_step e) acts v0 = Some v"
  shows "(\<forall>i j. \<forall>h\<in>set (handles_of v i). \<forall>k\<in>set (handles_of v j). VhFh h = VhFh k \<longrightarrow> i = j \<and> h = k) \<and>
    (\<forall>i. \<forall>h\<in>set (handles_of v i). distinct (fds_of h) \<and> set (fds_of h) \<subseteq> set (VfLive v)) \<and>
    (\<forall>i j. \<forall>h\<in>set (handles_of v i). \<forall>k\<in>set (handles_of v j). set (fds_of h) \<inter> set (fds_of k) \<noteq> {} \<longrightarrow> i = j \<and> h = k) \<and>
    ((\<forall>fd w. snd (FdFlush (VeFd e) fd w) = None) \<longrightarrow>
      (\<forall>fd\<in>set (VfLive v). \<exists>i. \<exists>h\<in>set (handles_of v i). fd \<in> set (fds_of h)))"
proof -
  have ok: "vok v" and own: "flushes e \<Longrightarrow> owned v" by (rule run_keeps [OF assms])+
  note d = handles_okD [OF ok [unfolded vok_def]]
  have p: "(i, h) \<in> pairs (handles_of v)" if "h \<in> set (handles_of v i)" for i h using that by (simp add: pairs_def)
  have 1: "i = j \<and> h = k" if "h \<in> set (handles_of v i)" "k \<in> set (handles_of v j)" "VhFh h = VhFh k" for i j h k
    using inj_onD [OF d(2), of "(i, h)" "(j, k)"] p that by simp
  have 2: "distinct (fds_of h) \<and> set (fds_of h) \<subseteq> set (VfLive v)" if "h \<in> set (handles_of v i)" for i h
    using d(3) [OF p [OF that]] by simp
  have 3: "i = j \<and> h = k" if "h \<in> set (handles_of v i)" "k \<in> set (handles_of v j)" "set (fds_of h) \<inter> set (fds_of k) \<noteq> {}" for i j h k
    using d(4) [OF p [OF that(1)] p [OF that(2)]] that(3) by simp
  have 4: "\<exists>i. \<exists>h\<in>set (handles_of v i). fd \<in> set (fds_of h)"
    if fl: "\<forall>fd w. snd (FdFlush (VeFd e) fd w) = None" and fd: "fd \<in> set (VfLive v)" for fd
  proof -
    obtain x where "x \<in> pairs (handles_of v)" "fd \<in> set (fds_of (snd x))"
      using own fl fd unfolding flushes_def owned_def all_owned_def by blast
    then show ?thesis by (intro exI [of _ "fst x"] bexI [of _ "snd x"]) (auto simp: pairs_def)
  qed
  show ?thesis using 1 2 3 4 by blast
qed

lemma handle_Close_others:
  fixes e :: "'w vfs_env" and v :: "'w vfs"
  shows "handles_of (handle_Close e i h v) j = (if j = i then handles_of (handle_Close e i h v) i else handles_of v j)"
    and "filter (\<lambda>k. VhFh k \<noteq> VhFh h) (handles_of (handle_Close e i h v) i) = filter (\<lambda>k. VhFh k \<noteq> VhFh h) (handles_of v i)"
proof -
  have f: "filter (\<lambda>k. VhFh k \<noteq> fh) (set_first fh g hs) = filter (\<lambda>k. VhFh k \<noteq> fh) hs" if "\<And>k. VhFh (g k) = VhFh k" for fh g hs
    using that by (induction hs) auto
  have r: "handles_of (fileReader_Close e f v) = handles_of v" for f and v :: "'w vfs"
    by (simp add: fileReader_Close_def release_fd_rest handles_of_def fun_eq_iff)
  have w: "handles_of (fst (fileWriter_Close e f v)) = handles_of v" for f and v :: "'w vfs"
  proof -
    obtain v0 q where fl: "fileWriter_Flush e f v = (v0, q)" by fastforce
    have "handles_of v0 = handles_of v" using same_handles_keeps(1) [OF fileWriter_Flush_same [of v e f]] fl by simp
    then show ?thesis by (cases q) (simp_all add: fileWriter_Close_def fl release_fd_rest handles_of_def fun_eq_iff)
  qed
  show "handles_of (handle_Close e i h v) j = (if j = i then handles_of (handle_Close e i h v) i else handles_of v j)"
    by (simp add: handle_Close_def Let_def handles_of_set_handle r w split: option.split)
  show "filter (\<lambda>k. VhFh k \<noteq> VhFh h) (handles_of (handle_Close e i h v) i) = filter (\<lambda>k. VhFh k \<noteq> VhFh h) (handles_of v i)"
    by (simp add: handle_Close_def Let_def handles_of_set_handle r w f split: option.split)
qed

text \<open>
  Releasing a handle removes exactly that handle: its number is no longer known, so a read through it fails with
  \<open>EBADF\<close>, and all other handles of this and of other inodes are as before.
\<close>

theorem released_handle_is_gone:
  fixes e :: "'w vfs_env"
  assumes "InitVFS (VeUfs e) fm links config df w = (w0, Inr v0)" and "run_acts (vfs_step e) acts v0 = Some v"
    and "findHandle v i fh = Some h" and "0 < fh"
  shows "findHandle (vfs_Release e i fh v) i fh = None \<and>
    vfs_Read e now i len off fh (vfs_Release e i fh v) = Some (vfs_Release e i fh v, Inl EBADF) \<and>
    add_mset h (mset (handles_of (vfs_Release e i fh v) i)) = mset (handles_of v i) \<and>
    (\<forall>j. j \<noteq> i \<longrightarrow> handles_of (vfs_Release e i fh v) j = handles_of v j)"
proof -
  have ok: "vok v" by (rule run_keeps(1) [OF assms(1,2)])
  have h: "h \<in> set (handles_of v i)" "VhFh h = fh" using assms(3) by (auto simp: findHandle_def find_Some_iff)
  let ?v1 = "handle_Close e i h v" and ?v' = "vfs_Release e i fh v"
  have v': "?v' = releaseHandle i fh ?v1" using assms(3,4) by (simp add: vfs_Release_def releaseFileHandle_def)
  have d1: "distinct (map VhFh (handles_of ?v1 i))" by (rule handles_okD(1) [OF handle_Close_keeps(1) [OF ok h(1), unfolded vok_def]])
  have d: "distinct (map VhFh (handles_of v i))" by (rule handles_okD(1) [OF ok [unfolded vok_def]])
  have "mset (handles_of ?v' i) = mset (filter (\<lambda>k. VhFh k \<noteq> fh) (handles_of ?v1 i))"
    by (simp only: v' handles_of_releaseHandle fun_upd_same mset_drop_handle [OF d1])
  also have "filter (\<lambda>k. VhFh k \<noteq> fh) (handles_of ?v1 i) = filter (\<lambda>k. VhFh k \<noteq> fh) (handles_of v i)"
    using handle_Close_others(2) [of h e i v] unfolding h(2) .
  finally have m: "mset (handles_of ?v' i) = mset (filter (\<lambda>k. VhFh k \<noteq> fh) (handles_of v i))" .
  have "add_mset h (mset (filter (\<lambda>k. VhFh k \<noteq> fh) hs)) = mset hs"
    if "distinct (map VhFh hs)" "h \<in> set hs" for hs
    using that
  proof (induction hs)
    case (Cons k ks)
    show ?case
    proof (cases "VhFh k = fh")
      case True
      then have "filter (\<lambda>k. VhFh k \<noteq> fh) ks = ks" using Cons.prems(1) by (intro filter_True) (auto simp: image_iff)
      moreover have "k = h" using Cons.prems True h(2) by (auto simp: image_iff)
      ultimately show ?thesis using True by simp
    next
      case False
      then have "h \<in> set ks" using Cons.prems(2) h(2) by auto
      then show ?thesis using Cons False by (simp add: add_mset_commute)
    qed
  qed simp
  from this [OF d h(1)] have 3: "add_mset h (mset (handles_of ?v' i)) = mset (handles_of v i)" unfolding m .
  have "set (handles_of ?v' i) = {k \<in> set (handles_of v i). VhFh k \<noteq> fh}" using m by (metis set_filter set_mset_mset)
  then have 1: "findHandle ?v' i fh = None" by (auto simp: findHandle_def find_None_iff)
  have 4: "handles_of ?v' j = handles_of v j" if "j \<noteq> i" for j
    using that handle_Close_others(1) [of e i h v j] by (simp add: v' handles_of_releaseHandle)
  show ?thesis using 1 3 4 by (simp add: vfs_Read_def)
qed

subsection \<open>Faults\<close>

text \<open>
  \<open>Access\<close> asks the metadata layer about empty attributes, not those of the file: a user other than root is denied
  every access that asks for some permission, whatever the mode of the file is.\<close>

theorem access_ignores_file:
  "vfs_Access e uid gid i msk v = (if uid = 0 \<or> msk AND 7 = 0 then Inr () else Inl EACCES)"
  by (simp add: vfs_Access_def meta_Access_def HasAccess_def no_attr_def Let_def)

lemma set_first_append: "VhFh h = fh \<Longrightarrow> \<forall>k\<in>set hs. VhFh k \<noteq> fh \<Longrightarrow> set_first fh f (hs @ [h]) = hs @ [f h]"
  by (induction hs) auto

lemma find_append_new: "VhFh h = fh \<Longrightarrow> \<forall>k\<in>set hs. VhFh k \<noteq> fh \<Longrightarrow> find (\<lambda>h. VhFh h = fh) (hs @ [h]) = Some h"
  by (induction hs) auto

lemma newFileHandle_read_write:
  fixes e :: "'w vfs_env" and len :: nat
  assumes "flags AND O_ACCMODE = O_RDWR" and "newHandle i v = (v1, fh)"
    and "snd (dataReader_Open e i len u path v1) \<noteq> Inl GO_PANIC"
  defines "X \<equiv> dataWriter_Open e i len u path (put_reader i fh (dataReader_Open e i len u path v1))"
  shows "newFileHandle e i len flags u path v = (put_writer i fh X, map_sum id (\<lambda>_. fh) (snd X))"
proof -
  have acc: "flags AND O_ACCMODE \<noteq> O_RDONLY" "flags AND O_ACCMODE \<noteq> O_WRONLY"
    unfolding assms(1) by (simp_all add: O_RDWR_def O_RDONLY_def O_WRONLY_def)
  obtain w rr where rd: "dataReader_Open e i len u path v1 = (w, rr)" by fastforce
  have np: "rr \<noteq> Inl GO_PANIC" using assms(3) by (simp add: rd)
  have v2: "put_reader i fh (dataReader_Open e i len u path v1) =
      (case rr of Inl err \<Rightarrow> w | Inr f \<Rightarrow> set_handle i fh (\<lambda>h. h\<lparr>VhReader := Some f\<rparr>) w)"
    by (cases rr) (simp_all add: put_reader_def rd)
  obtain x rx where wr: "X = (x, rx)" by fastforce
  have wr': "dataWriter_Open e i len u path (case rr of Inl err \<Rightarrow> w | Inr f \<Rightarrow> set_handle i fh (\<lambda>h. h\<lparr>VhReader := Some f\<rparr>) w) = (x, rx)"
    using wr unfolding X_def v2 .
  have "newFileHandle e i len flags u path v =
      (case (x, rx) of (v4, Inl err) \<Rightarrow> (v4, Inl err) | (v4, Inr f) \<Rightarrow> (set_handle i fh (\<lambda>h. h\<lparr>VhWriter := Some f\<rparr>) v4, Inr fh))"
    using np acc assms(1) wr' unfolding newFileHandle_def assms(2) prod.case rd by (auto simp: Let_def split: sum.split errno.split)
  then show ?thesis unfolding wr put_writer_def by (cases rx) simp_all
qed

text \<open>What a reader or a writer that was opened, or was not, changes.\<close>

lemma put_reader_view:
  fixes e :: "'w vfs_env" and len :: nat
  assumes "InoToPath (MtTree (VfMeta v)) i = Some name"
    and "FdOpen (VeFd e) u path O_RDONLY (VfFds v) (MtWorld (VfMeta v)) = (w', r)"
    and "handles_of v i = hs @ [h]" and "VhFh h = fh" and "\<forall>k\<in>set hs. VhFh k \<noteq> fh"
  defines "v' \<equiv> put_reader i fh (dataReader_Open e i len u path v)"
  shows "\<exists>f. OfFd f = VfFds v \<and> handles_of v' i = hs @ [if isl r then h else h\<lparr>VhReader := Some f\<rparr>]"
    and "VfLive v' = VfLive v @ (if isl r then [] else [VfFds v])" and "VfFds v' = VfFds v + (if isl r then 0 else 1)"
    and "MtTree (VfMeta v') = MtTree (VfMeta v)" and "MtWorld (VfMeta v') = w'"
    and "snd (dataReader_Open e i len u path v) = Inl GO_PANIC \<longleftrightarrow> (\<exists>err. r = Inl err \<and> ToSyscallErrno err = GO_PANIC)"
proof -
  have ho: "handles_of (on_world g v\<lparr>VfFds := n, VfLive := l, VfReaders := rs\<rparr>) i = handles_of v i"
    "handles_of (on_world g v) i = handles_of v i" for g n l rs
    by (simp_all add: handles_of_def on_world_def)
  show "\<exists>f. OfFd f = VfFds v \<and> handles_of v' i = hs @ [if isl r then h else h\<lparr>VhReader := Some f\<rparr>]"
    unfolding v'_def dataReader_Open_def open_fd_def assms(1,2) option.case prod.case
    by (cases r) (auto simp: put_reader_def handles_of_set_handle ho set_first_append [OF assms(4,5)] assms(3)
      intro!: exI [of _ "\<lparr>OfInode = i, OfName = name, OfPath = path, OfLength = len, OfUfs = u, OfFd = VfFds v\<rparr>"])
  show "VfLive v' = VfLive v @ (if isl r then [] else [VfFds v])" "VfFds v' = VfFds v + (if isl r then 0 else 1)"
    "MtTree (VfMeta v') = MtTree (VfMeta v)" "MtWorld (VfMeta v') = w'"
    "snd (dataReader_Open e i len u path v) = Inl GO_PANIC \<longleftrightarrow> (\<exists>err. r = Inl err \<and> ToSyscallErrno err = GO_PANIC)"
    unfolding v'_def dataReader_Open_def open_fd_def assms(1,2) option.case prod.case
    by (cases r; simp add: put_reader_def set_handle_def on_world_def)+
qed

lemma put_writer_view:
  fixes e :: "'w vfs_env" and len :: nat
  assumes "InoToPath (MtTree (VfMeta v)) i = Some name"
    and "FdOpen (VeFd e) u path O_WRONLY (VfFds v) (MtWorld (VfMeta v)) = (w', r)"
    and "handles_of v i = hs @ [h]" and "VhFh h = fh" and "\<forall>k\<in>set hs. VhFh k \<noteq> fh"
  defines "v' \<equiv> put_writer i fh (dataWriter_Open e i len u path v)"
  shows "\<exists>f. OfFd f = VfFds v \<and> handles_of v' i = hs @ [if isl r then h else h\<lparr>VhWriter := Some f\<rparr>]"
    and "VfLive v' = VfLive v @ (if isl r then [] else [VfFds v])"
    and "map_sum id (\<lambda>_. fh) (snd (dataWriter_Open e i len u path v)) = map_sum ToSyscallErrno (\<lambda>_. fh) r"
proof -
  have ho: "handles_of (on_world g v\<lparr>VfFds := n, VfLive := l, VfWriters := rs\<rparr>) i = handles_of v i"
    "handles_of (on_world g v) i = handles_of v i" for g n l rs
    by (simp_all add: handles_of_def on_world_def)
  show "\<exists>f. OfFd f = VfFds v \<and> handles_of v' i = hs @ [if isl r then h else h\<lparr>VhWriter := Some f\<rparr>]"
    unfolding v'_def dataWriter_Open_def open_fd_def assms(1,2) option.case prod.case
    by (cases r) (auto simp: put_writer_def handles_of_set_handle ho set_first_append [OF assms(4,5)] assms(3)
      intro!: exI [of _ "\<lparr>OfInode = i, OfName = name, OfPath = path, OfLength = len, OfUfs = u, OfFd = VfFds v\<rparr>"])
  show "VfLive v' = VfLive v @ (if isl r then [] else [VfFds v])"
    "map_sum id (\<lambda>_. fh) (snd (dataWriter_Open e i len u path v)) = map_sum ToSyscallErrno (\<lambda>_. fh) r"
    unfolding v'_def dataWriter_Open_def open_fd_def assms(1,2) option.case prod.case
    by (cases r; simp add: put_writer_def set_handle_def on_world_def)+
qed

lemma newFileHandle_read_write_view:
  fixes e :: "'w vfs_env"
  assumes ok: "vok v" and "InoToPath (MtTree (VfMeta v)) i = Some name" and "flags AND O_ACCMODE = O_RDWR"
    and "FdOpen (VeFd e) u path O_RDONLY (VfFds v) (MtWorld (VfMeta v)) = (w1, r1)"
    and "FdOpen (VeFd e) u path O_WRONLY (VfFds v + (case r1 of Inl _ \<Rightarrow> 0 | Inr _ \<Rightarrow> 1)) w1 = (w2, r2)"
    and "\<forall>err. r1 = Inl err \<longrightarrow> ToSyscallErrno err \<noteq> GO_PANIC"
  shows "\<exists>v' k. newFileHandle e i l flags u path v = (v', map_sum ToSyscallErrno (\<lambda>_. VfNext v) r2) \<and>
    findHandle v' i (VfNext v) = Some k \<and> (VhReader k = None) = isl r1 \<and> (VhWriter k = None) = isl r2 \<and>
    VfLive v' = VfLive v @ fds_of k"
proof -
  have new: "\<forall>k\<in>set (handles_of v i). VhFh k \<noteq> VfNext v"
  proof
    fix k assume "k \<in> set (handles_of v i)"
    then show "VhFh k \<noteq> VfNext v" using handles_okD(3) [OF ok [unfolded vok_def], of "(i, k)"] by (simp add: pairs_def)
  qed
  let ?h = "\<lparr>VhFh = VfNext v, VhInode = i, VhReader = None, VhWriter = None, VhChildren = None\<rparr>"
  let ?v1 = "v\<lparr>VfNext := VfNext v + 1, VfHandles := mput i (handles_of v i @ [?h]) (VfHandles v)\<rparr>"
  let ?n = "VfNext v"
  have n: "newHandle i v = (?v1, ?n)" by (simp add: newHandle_def)
  have v1: "handles_of ?v1 i = handles_of v i @ [?h]" "VhFh ?h = ?n" by (simp_all add: handles_of_def)
  have "InoToPath (MtTree (VfMeta ?v1)) i = Some name" "FdOpen (VeFd e) u path O_RDONLY (VfFds ?v1) (MtWorld (VfMeta ?v1)) = (w1, r1)"
    using assms(2,4) by simp_all
  note rd = put_reader_view [OF this v1 new, of l]
  have v1_fds: "VfFds ?v1 = VfFds v" "VfLive ?v1 = VfLive v" "MtTree (VfMeta ?v1) = MtTree (VfMeta v)" by simp_all
  let ?v2 = "put_reader i ?n (dataReader_Open e i l u path ?v1)"
  have np: "snd (dataReader_Open e i l u path ?v1) \<noteq> Inl GO_PANIC" using rd(6) assms(6) by blast
  obtain f where f: "OfFd f = VfFds v" "handles_of ?v2 i = handles_of v i @ [if isl r1 then ?h else ?h\<lparr>VhReader := Some f\<rparr>]"
    using rd(1) unfolding v1_fds by blast
  have fn: "VhFh (if isl r1 then ?h else ?h\<lparr>VhReader := Some f\<rparr>) = ?n" by simp
  have wopen: "FdOpen (VeFd e) u path O_WRONLY (VfFds ?v2) (MtWorld (VfMeta ?v2)) = (w2, r2)"
    using assms(5) rd(3,5) unfolding v1_fds by (cases r1) simp_all
  have tree: "InoToPath (MtTree (VfMeta ?v2)) i = Some name" unfolding rd(4) v1_fds by (rule assms(2))
  note wr = put_writer_view [OF tree wopen f(2) fn new, of l]
  let ?v3 = "put_writer i ?n (dataWriter_Open e i l u path ?v2)"
  obtain g where g: "OfFd g = VfFds ?v2" "handles_of ?v3 i = handles_of v i @
      [if isl r2 then (if isl r1 then ?h else ?h\<lparr>VhReader := Some f\<rparr>) else (if isl r1 then ?h else ?h\<lparr>VhReader := Some f\<rparr>)\<lparr>VhWriter := Some g\<rparr>]"
    using wr(1) by blast
  define k where "k = (if isl r2 then (if isl r1 then ?h else ?h\<lparr>VhReader := Some f\<rparr>)
      else (if isl r1 then ?h else ?h\<lparr>VhReader := Some f\<rparr>)\<lparr>VhWriter := Some g\<rparr>)"
  have k: "VhFh k = ?n" "(VhReader k = None) = isl r1" "(VhWriter k = None) = isl r2"
    "fds_of k = (if isl r1 then [] else [VfFds v]) @ (if isl r2 then [] else [VfFds ?v2])"
    by (simp_all add: k_def fds_of_def f(1) g(1))
  have live: "VfLive ?v3 = VfLive v @ fds_of k" unfolding k(4) wr(2) rd(2) v1_fds by simp
  have found: "findHandle ?v3 i ?n = Some k"
    unfolding findHandle_def g(2) k_def [symmetric] by (rule find_append_new [OF k(1) new])
  have nf: "newFileHandle e i l flags u path v = (?v3, map_sum ToSyscallErrno (\<lambda>_. ?n) r2)"
    unfolding newFileHandle_read_write [OF assms(3) n np] wr(3) ..
  show ?thesis by (intro exI [of _ ?v3] exI [of _ k] conjI) (rule nf found k(2,3) live)+
qed

text \<open>
  C25: Opening for reading and writing. The error of the reader is dropped: only that of the writer decides what \<open>Open\<close>
  returns. In each case the new handle stays in the table with what could be opened, so after a
  failed \<open>Open\<close>, for which no release is ever asked, the descriptor of the reader stays live; and after an \<open>Open\<close>
  that succeeded without reader every read through the handle fails with \<open>EACCES\<close>.\<close>

theorem open_read_write_outcomes:
  fixes e :: "'w vfs_env"
  assumes "InitVFS (VeUfs e) fm links config df w = (w0, Inr v0)" and "run_acts (vfs_step e) acts v0 = Some v"
    and "meta_Open (VeUfs e) i (VfMeta v) = Inr (a, u, path)" and "InoToPath (MtTree (VfMeta v)) i = Some name"
    and "flags AND O_ACCMODE = O_RDWR"
    and "FdOpen (VeFd e) u path O_RDONLY (VfFds v) (MtWorld (VfMeta v)) = (w1, r1)"
    and "FdOpen (VeFd e) u path O_WRONLY (VfFds v + (case r1 of Inl _ \<Rightarrow> 0 | Inr _ \<Rightarrow> 1)) w1 = (w2, r2)"
    and "\<forall>err. r1 = Inl err \<longrightarrow> ToSyscallErrno err \<noteq> GO_PANIC"
  shows "\<exists>v' h. vfs_Open e i flags v = (v', case r2 of Inl err \<Rightarrow> Inl (ToSyscallErrno err) | Inr _ \<Rightarrow> Inr ((i, a), VfNext v)) \<and>
    findHandle v' i (VfNext v) = Some h \<and> (VhReader h = None) = isl r1 \<and> (VhWriter h = None) = isl r2 \<and>
    length (VfLive v') = length (VfLive v) + length (fds_of h) \<and> set (fds_of h) \<subseteq> set (VfLive v') \<and>
    (isl r1 \<longrightarrow> vfs_Read e now i len off (VfNext v) v' = Some (v', Inl EACCES))"
proof -
  have ok: "vok v" by (rule run_keeps(1) [OF assms(1,2)])
  let ?n = "VfNext v"
  obtain v' k where nf: "newFileHandle e i (nat (AtSize a)) flags u path v = (v', map_sum ToSyscallErrno (\<lambda>_. ?n) r2)"
    and found: "findHandle v' i ?n = Some k" and k: "(VhReader k = None) = isl r1" "(VhWriter k = None) = isl r2"
    and live: "VfLive v' = VfLive v @ fds_of k"
    using newFileHandle_read_write_view [OF ok assms(4-8), where l = "nat (AtSize a)"] by (elim exE conjE) (rule that; assumption)
  have opened: "vfs_Open e i flags v = (v', case r2 of Inl err \<Rightarrow> Inl (ToSyscallErrno err) | Inr _ \<Rightarrow> Inr ((i, a), ?n))"
    using nf unfolding vfs_Open_def assms(3) sum.case prod.case by (cases r2) simp_all
  have rdfail: "isl r1 \<longrightarrow> vfs_Read e now i len off ?n v' = Some (v', Inl EACCES)"
  proof
    assume "isl r1"
    then have "VhReader k = None" using k(1) by blast
    then show "vfs_Read e now i len off ?n v' = Some (v', Inl EACCES)" unfolding vfs_Read_def found option.case by simp
  qed
  have lv: "length (VfLive v') = length (VfLive v) + length (fds_of k)" "set (fds_of k) \<subseteq> set (VfLive v')"
    unfolding live by simp_all
  show ?thesis by (intro exI [of _ v'] exI [of _ k] conjI) (rule opened found k lv rdfail)+
qed

text \<open>Opening a file leaves the handles that are there as they are.\<close>

lemma find_set_first:
  assumes "fh \<noteq> gh" and "\<And>h. VhFh (f h) = VhFh h"
  shows "find (\<lambda>h. VhFh h = gh) (set_first fh f hs) = find (\<lambda>h. VhFh h = gh) hs"
  using assms by (induction hs) auto

lemma findHandle_set: "fh \<noteq> gh \<Longrightarrow> (\<And>h. VhFh (f h) = VhFh h) \<Longrightarrow> findHandle (set_handle i fh f v) j gh = findHandle v j gh"
  by (simp add: findHandle_def handles_of_set_handle find_set_first)

lemma findHandle_same: "handles_of v' = handles_of v \<Longrightarrow> findHandle v' j gh = findHandle v j gh"
  by (simp add: findHandle_def)

lemma findHandle_put:
  assumes "fh \<noteq> gh"
  shows "findHandle (put_reader i fh (dataReader_Open e i len u path v)) j gh = findHandle v j gh"
    and "findHandle (put_writer i fh (dataWriter_Open e i len u path v)) j gh = findHandle v j gh"
proof -
  obtain v1 r where o1: "dataReader_Open e i len u path v = (v1, r)" by fastforce
  have h1: "handles_of v1 = handles_of v"
    using o1 by (cases rule: dataReader_Open_cases) (auto simp: same_handles_keeps(1))
  show "findHandle (put_reader i fh (dataReader_Open e i len u path v)) j gh = findHandle v j gh"
    by (cases r) (simp_all add: put_reader_def o1 findHandle_set [OF assms] findHandle_same [OF h1])
  obtain v2 r2 where o2: "dataWriter_Open e i len u path v = (v2, r2)" by fastforce
  have h2: "handles_of v2 = handles_of v"
    using o2 by (cases rule: dataWriter_Open_cases) (auto simp: same_handles_keeps(1))
  show "findHandle (put_writer i fh (dataWriter_Open e i len u path v)) j gh = findHandle v j gh"
    by (cases r2) (simp_all add: put_writer_def o2 findHandle_set [OF assms] findHandle_same [OF h2])
qed

lemma find_append: "find P xs = Some x \<Longrightarrow> find P (xs @ ys) = Some x"
  by (induction xs) auto

lemma findHandle_open:
  fixes e :: "'w vfs_env"
  assumes "vok v" and "findHandle v j gh = Some k"
  shows "findHandle (fst (vfs_Open e i flags v)) j gh = Some k"
proof -
  let ?n = "VfNext v" and ?v1 = "fst (newHandle i v)"
  have "k \<in> set (handles_of v j)" "VhFh k = gh" using assms(2) by (auto simp: findHandle_def find_Some_iff)
  then have ne: "?n \<noteq> gh" using handles_okD(3) [OF assms(1) [unfolded vok_def], of "(j, k)"] by (auto simp: pairs_def)
  have "handles_of ?v1 j = handles_of v j \<or> (\<exists>h. handles_of ?v1 j = handles_of v j @ [h])"
    by (auto simp: newHandle_def handles_of_def)
  then have 1: "findHandle ?v1 j gh = Some k" using assms(2) find_append by (auto simp: findHandle_def)
  have n: "newHandle i v = (?v1, ?n)" by (simp add: newHandle_def)
  have "findHandle v' j gh = Some k" if "newFileHandle e i l flags u path v = (v', r)" for l u path v' r
    using newFileHandle_state [OF that n] by (auto simp: findHandle_put [OF ne] 1)
  then show ?thesis using assms(2) unfolding vfs_Open_def by (auto split: sum.split prod.split)
qed

lemma renamed_and_opened:
  fixes e :: "'w vfs_env"
  assumes "vok v" and "findHandle v j gh = Some k" and "run_acts (vfs_step e) [VaRename p n q m, VaOpen i flags] v = Some v1"
  shows "findHandle v1 j gh = Some k"
proof -
  let ?v0 = "fst (vfs_Rename e p n q m v)"
  note same = same_handles_keeps [OF vfs_Rename_same [of v e p n q m]]
  have "findHandle ?v0 j gh = Some k" using assms(2) findHandle_same [OF same(1)] by simp
  then have "findHandle (fst (vfs_Open e i flags ?v0)) j gh = Some k" using findHandle_open same(2) assms(1) by blast
  then show ?thesis using assms(3) by simp
qed

text \<open>A read through a handle and a step of the goroutines of the cache, as far as the cache is concerned.\<close>

lemma vfs_Read_store:
  fixes e :: "'w vfs_env"
  assumes "findHandle v i fh = Some h" and "VhReader h = Some f" and "FdRead (VeFd e) (OfFd f) (MtWorld (VfMeta v)) = Inr c"
    and "VfStore v = Some s" and "file_Read (VeUuid e) now False c (OfName f) len off s = Some (s', r)"
  shows "vfs_Read e now i len off fh v = Some (v\<lparr>VfStore := Some s'\<rparr>, r)"
  by (simp add: vfs_Read_def fileReader_Read_def Let_def assms)

text \<open>What the cache goes through: two names are read and stored, one is invalidated, both are read again.\<close>

lemma two_names_cached:
  assumes u: "uuid_ok uuid" and new: "NewCacheStore (Some n) None B df = Some s" "0 < n"
    and ne: "path_Clean a \<noteq> path_Clean b" and len: "0 < len" "len \<le> B" "len \<le> length c" "length c \<le> B" "len \<le> length c'"
  shows "\<exists>s1 s2 s3 s4 s6. file_Read uuid t1 False c a len 0 s = Some (s1, Inr (take len c)) \<and>
    run_task uuid t2 df2 False 0 s1 = s2 \<and> file_Read uuid t3 False c b len 0 s2 = Some (s3, Inr (take len c)) \<and>
    run_task uuid t4 df4 False 0 s3 = s4 \<and>
    file_Read uuid t5 False c' a len 0 (InvalidateCache b l s4) = Some (InvalidateCache b l s4, Inr (take len c)) \<and>
    file_Read uuid t6 False c' b len 0 (InvalidateCache b l s4) = Some (s6, Inr (take len c'))"
proof -
  note s = conjunct1 [OF mem_store [OF new]] and B = conjunct2 [OF mem_store [OF new]]
  let ?a = "path_Clean a" and ?b = "path_Clean b" and ?k0 = "block_key (uuid 0) 0" and ?k1 = "block_key (uuid 1) 0"
  have id: "uuid 0 \<noteq> ''''" "uuid 1 \<noteq> ''''" "key_id (uuid 0)" "key_id (uuid 1)" "key_id ''''" "uuid 0 \<noteq> uuid 1"
    using u by (auto simp: uuid_ok_def key_id_def inj_eq)
  have keys: "?k0 \<noteq> ?k1" "block_key '''' 0 \<noteq> ?k0" "block_key '''' 0 \<noteq> ?k1"
    using block_key_inj [OF id(3,4)] block_key_inj [OF id(5,3)] block_key_inj [OF id(5,4)] id(1,2,6) by metis+
  have c: "take (2 * B) c = c" "c \<noteq> ''''" using len by auto
  have put: "mput x y [] = [(x, y)]" for x y :: string by (simp add: mput_def)
  define s1 where "s1 = s\<lparr>CsMeta := mput ?a (uuid 0) [], CsFresh := 1,
    CsTasks := [\<lparr>TkName = ?a, TkOff = 0, TkData = c, TkNext = 0\<rparr>]\<rparr>"
  define s2 where "s2 = s1\<lparr>CsMem := Some (mput ?k0 c []), CsTasks := []\<rparr>"
  define s3 where "s3 = s2\<lparr>CsMeta := mput ?b (uuid 1) (CsMeta s1), CsFresh := 2,
    CsTasks := [\<lparr>TkName = ?b, TkOff = 0, TkData = c, TkNext = 0\<rparr>]\<rparr>"
  define s4 where "s4 = s3\<lparr>CsMem := Some (mput ?k1 c (mput ?k0 c [])), CsTasks := []\<rparr>"
  let ?s5 = "InvalidateCache b l s4"
  have 1: "file_Read uuid t1 False c a len 0 s = Some (s1, Inr (take len c))"
    using mem_read_miss [of s "[]" uuid a "block_key '''' 0" "s\<lparr>CsMeta := mput ?a (uuid 0) [], CsFresh := 1\<rparr>" len c t1] len c
    by (simp add: s1_def s rCache_key_def mstr_mget Let_def)
  have 2: "run_task uuid t2 df2 False 0 s1 = s2"
    unfolding s2_def by (rule mem_set_block [where a = ?a]) (use len c id in \<open>simp_all add: s1_def s\<close>)
  have 3: "file_Read uuid t3 False c b len 0 s2 = Some (s3, Inr (take len c))"
    using mem_read_miss [of s2 "mput ?k0 c []" uuid b "block_key '''' 0" "s2\<lparr>CsMeta := mput ?b (uuid 1) (CsMeta s1), CsFresh := 2\<rparr>" len c t3]
      len c keys ne by (simp add: s3_def s2_def s1_def s rCache_key_def mstr_mget Let_def)
  have 4: "run_task uuid t4 df4 False 0 s3 = s4"
    unfolding s4_def by (rule mem_set_block [where a = ?b]) (use len c id in \<open>simp_all add: s3_def s2_def s1_def s\<close>)
  have 5: "file_Read uuid t5 False c' a len 0 ?s5 = Some (?s5, Inr (take len c))"
    by (rule mem_read_hit [where w = "uuid 0" and m = "mput ?k1 c (mput ?k0 c [])"])
      (use len c id keys ne in \<open>simp_all add: InvalidateCache_def s4_def s3_def s2_def s1_def s\<close>)
  have "\<exists>s6. file_Read uuid t6 False c' b len 0 ?s5 = Some (s6, Inr (take len c'))"
    using mem_read_miss [of ?s5 "mput ?k1 c (mput ?k0 c [])" uuid b "block_key '''' 0" _ len c' t6] len keys ne
    by (simp add: InvalidateCache_def s4_def s3_def s2_def s1_def s rCache_key_def mstr_mget Let_def)
  then show ?thesis using 1 2 3 4 5 by blast
qed

text \<open>
  C26: A handle keeps the name its file had at the time of the open, and a write drops the cached blocks of that name only.
  A file is opened for writing and for reading, then renamed, then opened for reading again under another name. Both readers read
  a block, which is stored; then a write through the old handle succeeds and changes the content from \<open>c\<close> to \<open>c'\<close>. Now the
  reader that was opened before the rename reads the new bytes, since its name is the writer's; the one opened after
  the rename still reads the old bytes.\<close>

theorem write_misses_other_name:
  fixes e :: "'w vfs_env"
  assumes "InitVFS (VeUfs e) fm links config df0 w0 = (w1, Inr vi)" and "run_acts (vfs_step e) acts vi = Some v"
    and writer: "findHandle v j gh = Some k" "VhWriter k = Some g"
    and before: "findHandle v j' gh' = Some k'" "VhReader k' = Some g'" "path_Clean (OfName g') = path_Clean (OfName g)"
    and moved: "run_acts (vfs_step e) [VaRename p nm q nm', VaOpen i flags] v = Some v1"
    and after: "findHandle v1 i fh = Some h" "VhReader h = Some f" "path_Clean (OfName f) \<noteq> path_Clean (OfName g)"
    and store: "VfStore v1 = Some s" "NewCacheStore (Some n) None B df = Some s" "0 < n" "uuid_ok (VeUuid e)"
    and old: "FdRead (VeFd e) (OfFd f) (MtWorld (VfMeta v1)) = Inr c" "FdRead (VeFd e) (OfFd g') (MtWorld (VfMeta v1)) = Inr c"
    and wr: "FdWrite (VeFd e) (OfFd g) data off (MtWorld (VfMeta v1)) = (w', None)"
    and new: "FdRead (VeFd e) (OfFd f) w' = Inr c'" "FdRead (VeFd e) (OfFd g') w' = Inr c'"
    and len: "0 < len" "len \<le> B" "len \<le> length c" "length c \<le> B" "len \<le> length c'"
  shows "\<exists>v2 v3 v4 v5 v6 v7 v8. vfs_Read e t1 i len 0 fh v1 = Some (v2, Inr (take len c)) \<and>
    vfs_step e (VaCache (AcSet 0 t2 df2 False)) v2 = Some v3 \<and> vfs_Read e t3 j' len 0 gh' v3 = Some (v4, Inr (take len c)) \<and>
    vfs_step e (VaCache (AcSet 0 t4 df4 False)) v4 = Some v5 \<and> vfs_Write e j data off gh v5 = (v6, Inr ()) \<and>
    MtWorld (VfMeta v6) = w' \<and> vfs_Read e t5 i len 0 fh v6 = Some (v7, Inr (take len c)) \<and>
    vfs_Read e t6 j' len 0 gh' v7 = Some (v8, Inr (take len c'))"
proof -
  have ok: "vok v" by (rule run_keeps(1) [OF assms(1,2)])
  have w1: "findHandle v1 j gh = Some k" by (rule renamed_and_opened [OF ok writer(1) moved])
  have b1: "findHandle v1 j' gh' = Some k'" by (rule renamed_and_opened [OF ok before(1) moved])
  have ne: "path_Clean (OfName f) \<noteq> path_Clean (OfName g')" using after(3) before(3) by simp
  obtain s1 s2 s3 s4 s6 where st: "file_Read (VeUuid e) t1 False c (OfName f) len 0 s = Some (s1, Inr (take len c))"
    "run_task (VeUuid e) t2 df2 False 0 s1 = s2" "file_Read (VeUuid e) t3 False c (OfName g') len 0 s2 = Some (s3, Inr (take len c))"
    "run_task (VeUuid e) t4 df4 False 0 s3 = s4"
    "file_Read (VeUuid e) t5 False c' (OfName f) len 0 (InvalidateCache (OfName g') (OfLength g) s4) =
      Some (InvalidateCache (OfName g') (OfLength g) s4, Inr (take len c))"
    "file_Read (VeUuid e) t6 False c' (OfName g') len 0 (InvalidateCache (OfName g') (OfLength g) s4) = Some (s6, Inr (take len c'))"
    using two_names_cached [OF store(4,2,3) ne len, of t1 t2 df2 t3 t4 df4 t5 "OfLength g" t6] by (elim exE conjE) (rule that)
  have inv: "InvalidateCache (OfName g) (OfLength g) s4 = InvalidateCache (OfName g') (OfLength g) s4"
    by (simp only: InvalidateCache_def before(3))
  let ?v = "\<lambda>s. v1\<lparr>VfStore := Some s\<rparr>" and ?s5 = "InvalidateCache (OfName g') (OfLength g) s4"
  let ?v6 = "on_world (\<lambda>_. w') (?v ?s5)"
  have fnd: "findHandle (?v x) y z = findHandle v1 y z" "findHandle (?v6\<lparr>VfStore := Some x\<rparr>) y z = findHandle v1 y z"
    "findHandle ?v6 y z = findHandle v1 y z" for x y z
    by (simp_all add: findHandle_def handles_of_def on_world_def)
  have r1: "vfs_Read e t1 i len 0 fh v1 = Some (?v s1, Inr (take len c))"
    by (rule vfs_Read_store [OF after(1,2) old(1) store(1) st(1)])
  have r2: "vfs_step e (VaCache (AcSet 0 t2 df2 False)) (?v s1) = Some (?v s2)" using st(2) by simp
  have "vfs_Read e t3 j' len 0 gh' (?v s2) = Some ((?v s2)\<lparr>VfStore := Some s3\<rparr>, Inr (take len c))"
    by (rule vfs_Read_store [OF _ before(2) _ _ st(3)]) (simp_all add: fnd b1 old(2))
  then have r3: "vfs_Read e t3 j' len 0 gh' (?v s2) = Some (?v s3, Inr (take len c))" by simp
  have r4: "vfs_step e (VaCache (AcSet 0 t4 df4 False)) (?v s3) = Some (?v s4)" using st(4) by simp
  have r5: "vfs_Write e j data off gh (?v s4) = (?v6, Inr ())"
    using wr by (simp add: vfs_Write_def fnd w1 writer(2) fileWriter_Write_def invalidate_def on_world_def Let_def inv)
  have world: "MtWorld (VfMeta ?v6) = w'" "VfStore ?v6 = Some ?s5" by (simp_all add: on_world_def)
  have r6: "vfs_Read e t5 i len 0 fh ?v6 = Some (?v6\<lparr>VfStore := Some ?s5\<rparr>, Inr (take len c))"
    by (rule vfs_Read_store [OF _ after(2) _ _ st(5)]) (simp_all add: fnd after(1) new(1) world)
  have r7: "\<exists>v8. vfs_Read e t6 j' len 0 gh' (?v6\<lparr>VfStore := Some ?s5\<rparr>) = Some (v8, Inr (take len c'))"
    by (intro exI, rule vfs_Read_store [OF _ before(2) _ _ st(6)]) (simp_all add: fnd b1 new(2) world)
  then show ?thesis using r1 r2 r3 r4 r5 world(1) r6 by blast
qed

section \<open>Witnesses\<close>

text \<open>A storage with one content; an open with access \<open>bad\<close> fails. The storages of the metadata layer are those of
  \<open>PF_Meta\<close>.\<close>

definition vfs_demo_ufs :: "string ufs_ops" where
  "vfs_demo_ufs = \<lparr>UfGetAttr = (\<lambda>u p w. Inr (demo_info p)), UfChown = (\<lambda>u p i j w. (w, Inr ())), UfChmod = (\<lambda>u p i w. (w, Inr ())),
     UfUtimens = (\<lambda>u p a b w. (w, Inr ())), UfTruncate = (\<lambda>u p n w. (w, Inr ())), UfMknod = (\<lambda>u p i j w. (w, Inr ())),
     UfMkdir = (\<lambda>u p i w. (w, Inr ())), UfCreate = (\<lambda>u p i j w. (w, Inr ())), UfUnlink = (\<lambda>u p w. (w, Inr ())),
     UfRmdir = (\<lambda>u p w. (w, Inr ())), UfRename = (\<lambda>u p q w. (w, Inr ())), UfReadDir = (\<lambda>u p w. Inr []),
     UfGetXAttr = (\<lambda>u p a w. Inr ''''), UfListXAttr = (\<lambda>u p w. Inr []), UfSetXAttr = (\<lambda>u p a v i w. (w, Inr ())),
     UfRemoveXAttr = (\<lambda>u p a w. (w, Inr ())), UfReadFile = (\<lambda>u p n w. Inr ''''), UfNew = (\<lambda>t ps w. (w, Inr 0))\<rparr>"

definition vfs_demo_fd :: "u32 \<Rightarrow> string fd_ops" where
  "vfs_demo_fd bad = \<lparr>FdOpen = (\<lambda>u p flag n w. (w, if flag = bad then Inl (PathError ErrPermission p) else Inr ())),
     FdRead = (\<lambda>n w. Inr w), FdWrite = (\<lambda>n d pos w. (d, None)), FdFlush = (\<lambda>n w. (w, None)), FdFsync = (\<lambda>n k w. (w, None)),
     FdTruncate = (\<lambda>n sz w. take (nat sz) w), FdRelease = (\<lambda>n w. w)\<rparr>"

definition vfs_demo_env :: "u32 \<Rightarrow> string vfs_env" where
  "vfs_demo_env bad = \<lparr>VeMeta = \<lparr>MeUfs = vfs_demo_ufs, MeDec = (\<lambda>b. b), MeDecode = (\<lambda>s. None)\<rparr>, VeFd = vfs_demo_fd bad,
     VeUuid = (\<lambda>n. replicate (Suc n) (CHR ''k'')), VeGroups = (\<lambda>u. None)\<rparr>"

definition vfs_demo_fs :: fs_meta where
  "vfs_demo_fs = \<lparr>FmID = ''fs-u-f'', FmName = ''f'', FmUfsType = ''local'', FmServerAddress = '''', FmSubPath = ''/'', FmProperties = [], FmType = ''fs''\<rparr>"

definition vfs_demo_init :: "string vfs" where
  "vfs_demo_init = (case InitVFS vfs_demo_ufs vfs_demo_fs [] (Some (Some 100, None, 4)) None ''old content'' of
     (w, Inl err) \<Rightarrow> undefined | (w, Inr v) \<Rightarrow> v)"

text \<open>One handle for writing to \<open>/a\<close>, a rename to \<open>/b\<close> and a handle for reading.\<close>

definition vfs_demo_acts :: "vfs_act list" where
  "vfs_demo_acts = [VaMeta (MaLookup 1 ''a''), VaOpen 2 O_WRONLY, VaRename 1 ''a'' 1 ''b'', VaOpen 3 O_RDONLY]"

definition vfs_demo :: "u32 \<Rightarrow> string vfs" where
  "vfs_demo bad = the (run_acts (vfs_step (vfs_demo_env bad)) vfs_demo_acts vfs_demo_init)"

lemma vfs_demo_start:
  "InitVFS vfs_demo_ufs vfs_demo_fs [] (Some (Some 100, None, 4)) None ''old content'' = (''old content'', Inr vfs_demo_init)"
  by (simp add: vfs_demo_init_def InitVFS_def NewDefaultMeta_def newUFS_def UpdateUFSMap_def NewCacheStore_def NewMemCache_def
    vfs_demo_ufs_def vfs_demo_fs_def)

lemma vfs_demo_reached: "run_acts (vfs_step (vfs_demo_env bad)) vfs_demo_acts vfs_demo_init = Some (vfs_demo bad)"
  by (simp add: vfs_demo_def vfs_demo_acts_def)

lemma vfs_demo_handles:
  "findHandle (vfs_demo 9) 2 1 = Some \<lparr>VhFh = 1, VhInode = 2, VhReader = None,
     VhWriter = Some \<lparr>OfInode = 2, OfName = ''/a'', OfPath = ''/a'', OfLength = 0, OfUfs = 0, OfFd = 0\<rparr>, VhChildren = None\<rparr>"
  "findHandle (vfs_demo 9) 3 2 = Some \<lparr>VhFh = 2, VhInode = 3,
     VhReader = Some \<lparr>OfInode = 3, OfName = ''/b'', OfPath = ''/b'', OfLength = 0, OfUfs = 0, OfFd = 1\<rparr>, VhWriter = None, VhChildren = None\<rparr>"
  "VfStore (vfs_demo 9) = NewCacheStore (Some 100) None 4 None" "MtWorld (VfMeta (vfs_demo 9)) = ''old content''"
  "VfLive (vfs_demo 9) = [0, 1]" "handles_of (vfs_demo 9) 3 = [the (findHandle (vfs_demo 9) 3 2)]"
  by code_simp+

lemma vfs_demo_ufs_of [simp]: "VeUfs (vfs_demo_env bad) = vfs_demo_ufs"
  by (simp add: vfs_demo_env_def)

lemma vfs_descriptors_sound_witness:
  "\<exists>i h. h \<in> set (handles_of (vfs_demo 9) i) \<and> 1 \<in> set (fds_of h)"
proof -
  have "\<forall>fd w. snd (FdFlush (VeFd (vfs_demo_env 9)) fd w) = None" by (simp add: vfs_demo_env_def vfs_demo_fd_def)
  moreover have "1 \<in> set (VfLive (vfs_demo 9))" by (simp add: vfs_demo_handles(5))
  ultimately show ?thesis
    using vfs_descriptors_sound [of "vfs_demo_env 9", unfolded vfs_demo_ufs_of, OF vfs_demo_start vfs_demo_reached] by (elim conjE) blast
qed

lemma released_handle_is_gone_witness:
  "findHandle (vfs_Release (vfs_demo_env 9) 3 2 (vfs_demo 9)) 3 2 = None \<and>
   vfs_Read (vfs_demo_env 9) 0 3 5 0 2 (vfs_Release (vfs_demo_env 9) 3 2 (vfs_demo 9)) =
     Some (vfs_Release (vfs_demo_env 9) 3 2 (vfs_demo 9), Inl EBADF)"
  using released_handle_is_gone [of "vfs_demo_env 9", unfolded vfs_demo_ufs_of, OF vfs_demo_start vfs_demo_reached vfs_demo_handles(2)] by simp

lemma open_read_write_outcomes_witness:
  "\<exists>v' h. vfs_Open (vfs_demo_env O_WRONLY) 2 O_RDWR (the (vfs_step (vfs_demo_env O_WRONLY) (VaMeta (MaLookup 1 ''a'')) vfs_demo_init)) = (v', Inl EACCES) \<and>
     findHandle v' 2 1 = Some h \<and> VhReader h \<noteq> None \<and> VhWriter h = None \<and> length (VfLive v') = length (fds_of h)"
proof -
  let ?e = "vfs_demo_env O_WRONLY" and ?acts = "[VaMeta (MaLookup 1 ''a'')]"
  let ?v = "the (vfs_step ?e (VaMeta (MaLookup 1 ''a'')) vfs_demo_init)"
  have run: "run_acts (vfs_step ?e) ?acts vfs_demo_init = Some ?v" by simp
  have "case meta_Open vfs_demo_ufs 2 (VfMeta ?v) of Inl err \<Rightarrow> False | Inr (a, u, path) \<Rightarrow> u = 0 \<and> path = ''/a''" by code_simp
  then obtain a where op: "meta_Open vfs_demo_ufs 2 (VfMeta ?v) = Inr (a, 0, ''/a'')" by (auto split: sum.splits)
  have name: "InoToPath (MtTree (VfMeta ?v)) 2 = Some ''/a''" "VfNext ?v = 1" "VfFds ?v = 0" "VfLive ?v = []" by code_simp+
  have acc: "O_RDWR AND O_ACCMODE = O_RDWR" "O_RDONLY \<noteq> O_WRONLY" by (simp_all add: O_RDWR_def O_ACCMODE_def O_RDONLY_def O_WRONLY_def)
  have fd: "FdOpen (VeFd ?e) 0 ''/a'' O_RDONLY n w = (w, Inr ())" "FdOpen (VeFd ?e) 0 ''/a'' O_WRONLY n w = (w, Inl (PathError ErrPermission ''/a''))" for n w
    using acc(2) by (simp_all add: vfs_demo_env_def vfs_demo_fd_def)
  obtain v' h where "vfs_Open ?e 2 O_RDWR ?v = (v', Inl (ToSyscallErrno (PathError ErrPermission ''/a'')))"
    "findHandle v' 2 1 = Some h" "(VhReader h = None) = isl (Inr () :: go_error + unit)"
    "(VhWriter h = None) = isl (Inl (PathError ErrPermission ''/a'') :: go_error + unit)" "length (VfLive v') = length (fds_of h)"
    using open_read_write_outcomes [of ?e, unfolded vfs_demo_ufs_of, OF vfs_demo_start run op name(1) acc(1) fd(1) fd(2)]
    unfolding name by auto
  then show ?thesis by auto
qed

text \<open>Handles for writing and reading of \<open>/a\<close>, a rename to \<open>/b\<close> and a handle for reading.\<close>

definition renamed_init :: "string vfs" where
  "renamed_init = (case InitVFS vfs_demo_ufs vfs_demo_fs [] (Some (Some 100, None, 16)) None ''old content'' of
     (w, Inl err) \<Rightarrow> undefined | (w, Inr v) \<Rightarrow> v)"

definition renamed_acts :: "vfs_act list" where
  "renamed_acts = [VaMeta (MaLookup 1 ''a''), VaOpen 2 O_WRONLY, VaOpen 2 O_RDONLY]"

definition renamed_opened :: "string vfs" where
  "renamed_opened = the (run_acts (vfs_step (vfs_demo_env 9)) renamed_acts renamed_init)"

definition renamed_moved :: "string vfs" where
  "renamed_moved = the (run_acts (vfs_step (vfs_demo_env 9)) [VaRename 1 ''a'' 1 ''b'', VaOpen 3 O_RDONLY] renamed_opened)"

lemma renamed_start:
  "InitVFS vfs_demo_ufs vfs_demo_fs [] (Some (Some 100, None, 16)) None ''old content'' = (''old content'', Inr renamed_init)"
  by (simp add: renamed_init_def InitVFS_def NewDefaultMeta_def newUFS_def UpdateUFSMap_def NewCacheStore_def NewMemCache_def
    vfs_demo_ufs_def vfs_demo_fs_def)

lemma renamed_runs:
  "run_acts (vfs_step (vfs_demo_env 9)) renamed_acts renamed_init = Some renamed_opened"
  "run_acts (vfs_step (vfs_demo_env 9)) [VaRename 1 ''a'' 1 ''b'', VaOpen 3 O_RDONLY] renamed_opened = Some renamed_moved"
  by (simp_all add: renamed_opened_def renamed_moved_def renamed_acts_def)

lemma renamed_handles:
  "findHandle renamed_opened 2 1 = Some \<lparr>VhFh = 1, VhInode = 2, VhReader = None,
     VhWriter = Some \<lparr>OfInode = 2, OfName = ''/a'', OfPath = ''/a'', OfLength = 0, OfUfs = 0, OfFd = 0\<rparr>, VhChildren = None\<rparr>"
  "findHandle renamed_opened 2 2 = Some \<lparr>VhFh = 2, VhInode = 2,
     VhReader = Some \<lparr>OfInode = 2, OfName = ''/a'', OfPath = ''/a'', OfLength = 0, OfUfs = 0, OfFd = 1\<rparr>, VhWriter = None, VhChildren = None\<rparr>"
  "findHandle renamed_moved 3 3 = Some \<lparr>VhFh = 3, VhInode = 3,
     VhReader = Some \<lparr>OfInode = 3, OfName = ''/b'', OfPath = ''/b'', OfLength = 0, OfUfs = 0, OfFd = 2\<rparr>, VhWriter = None, VhChildren = None\<rparr>"
  "VfStore renamed_moved = NewCacheStore (Some 100) None 16 None" "MtWorld (VfMeta renamed_moved) = ''old content''"
  by code_simp+

lemma demo_uuid_ok: "uuid_ok (VeUuid (vfs_demo_env 9))"
  by (auto simp: uuid_ok_def key_id_def vfs_demo_env_def inj_def replicate_eq_replicate)

lemma write_misses_other_name_witness:
  "\<exists>v2 v3 v4 v5 v6 v7 v8. vfs_Read (vfs_demo_env 9) 0 3 3 0 3 renamed_moved = Some (v2, Inr ''old'') \<and>
     vfs_step (vfs_demo_env 9) (VaCache (AcSet 0 0 None False)) v2 = Some v3 \<and>
     vfs_Read (vfs_demo_env 9) 0 2 3 0 2 v3 = Some (v4, Inr ''old'') \<and>
     vfs_step (vfs_demo_env 9) (VaCache (AcSet 0 0 None False)) v4 = Some v5 \<and>
     vfs_Write (vfs_demo_env 9) 2 ''new content'' 0 1 v5 = (v6, Inr ()) \<and> MtWorld (VfMeta v6) = ''new content'' \<and>
     vfs_Read (vfs_demo_env 9) 0 3 3 0 3 v6 = Some (v7, Inr ''old'') \<and>
     vfs_Read (vfs_demo_env 9) 0 2 3 0 2 v7 = Some (v8, Inr ''new'')"
proof -
  let ?e = "vfs_demo_env 9"
  obtain s where s: "NewCacheStore (Some 100) None 16 None = Some s" by (simp add: NewCacheStore_def NewMemCache_def)
  have st: "VfStore renamed_moved = Some s" using renamed_handles(4) s by simp
  have fd: "FdRead (VeFd ?e) n w = Inr w" "FdWrite (VeFd ?e) n d pos w = (d, None)" for n d pos w
    by (simp_all add: vfs_demo_env_def vfs_demo_fd_def)
  have n: "path_Clean ''/b'' \<noteq> path_Clean ''/a''" by code_simp
  have t: "take 3 ''old content'' = ''old''" "take 3 ''new content'' = ''new''" by simp_all
  obtain k g where w: "findHandle renamed_opened 2 1 = Some k" "VhWriter k = Some g" "OfName g = ''/a''"
    using renamed_handles(1) by simp
  obtain k' g' where b: "findHandle renamed_opened 2 2 = Some k'" "VhReader k' = Some g'" "OfName g' = ''/a''"
    using renamed_handles(2) by simp
  obtain h f where a: "findHandle renamed_moved 3 3 = Some h" "VhReader h = Some f" "OfName f = ''/b''"
    using renamed_handles(3) by simp
  have names: "path_Clean (OfName g') = path_Clean (OfName g)" "path_Clean (OfName f) \<noteq> path_Clean (OfName g)"
    using w(3) b(3) a(3) n by simp_all
  show ?thesis unfolding t [symmetric]
    by (rule write_misses_other_name [of ?e, unfolded vfs_demo_ufs_of, where c = "''old content''" and c' = "''new content''",
          OF renamed_start renamed_runs(1) w(1,2) b(1,2) names(1) renamed_runs(2) a(1,2) names(2) st s _ demo_uuid_ok])
      (simp_all add: renamed_handles(5) fd)
qed

end
