(* ===== verification/PF_Pipeline.thy ===== *)
theory PF_Pipeline
  imports PF_RunCtl
begin

text \<open>
  Pipelines: the routes of \<open>router/v1/pipeline.go\<close> and their controller \<open>controller/pipeline/pipeline.go\<close> over the table of
  \<open>models/pipeline.go\<close> (in \<open>PF_RunModels\<close>). A pipeline is the src of a workflow, read from a file system and checked by
  building the workflow once; runs can be started from it by its ID. The YAML reader, the files and MD5 are those
  of the environment of \<open>PF_RunCtl\<close>.
\<close>

section \<open>The controller\<close>

record create_pipeline_request =
  CpFsName :: string
  CpYamlPath :: string
  CpName :: string
  CpUserName :: string

definition DuplicatedContent :: code where "DuplicatedContent = ''DuplicatedContent''"
definition PipelineNotFound :: code where "PipelineNotFound = ''PipelineNotFound''"

definition RegPatternPipelineName :: "string \<Rightarrow> bool" where
  "RegPatternPipelineName = name_shape is_word (\<lambda>c. is_word c \<or> c = CHR ''-'') 1 49"

definition validatePipeline :: "run_faults \<Rightarrow> string \<Rightarrow> string \<Rightarrow> string \<Rightarrow> run_db \<Rightarrow> code + unit" where
  "validatePipeline flt name md5 fsID d =
     (if name \<noteq> '''' \<and> \<not> RegPatternPipelineName name then Inl InvalidNamePattern
      else case GetPipelineByMd5AndFs flt md5 fsID d of
             Inl err \<Rightarrow> if err = RecordNotFound then Inr () else Inl InternalError
           | Inr ppl \<Rightarrow> Inl DuplicatedContent)"

text \<open>The text is parsed again, so the name of a request plays no part. A panic of the construction aborts the
  request.\<close>

definition ValidateWorkflowForPipeline :: "run_env \<Rightarrow> timestamp \<Rightarrow> pipeline_row \<Rightarrow> code + unit" where
  "ValidateWorkflowForPipeline e now ppl =
     (case reYaml e (PpYaml ppl) of
        Inl err \<Rightarrow> Inl MalformedYaml
      | Inr wfs \<Rightarrow>
          (case NewWorkflow (reDecode e) (reJobCheck e now) (reOrder e) (reNames e) wfs ''validatePipeline'' '''' []
                  [(''UserName'', PpUserName ppl), (''FsName'', PpFsName ppl), (''FsID'', PpFsID ppl)] of
             Inl err \<Rightarrow> Inl (if err = ParamError NilDeref then panic_code else MalformedYaml)
           | Inr w \<Rightarrow> Inr ()))"

definition pipeline_fs :: "string \<Rightarrow> create_pipeline_request \<Rightarrow> string" where
  "pipeline_fs user req =
     (if IsRootUser user \<and> CpUserName req \<noteq> '''' then fs_ID (CpUserName req) (CpFsName req)
      else fs_ID user (CpFsName req))"

definition pipeline_to_create :: "run_env \<Rightarrow> string \<Rightarrow> create_pipeline_request \<Rightarrow> string \<Rightarrow> wf_source \<Rightarrow> pipeline_row" where
  "pipeline_to_create e user req src wfs =
     \<lparr>PpPk = 0, PpID = '''', PpName = (if CpName req \<noteq> '''' then CpName req else WName wfs), PpFsID = pipeline_fs user req,
      PpFsName = CpFsName req, PpUserName = user, PpYaml = src, PpMd5 = reMd5 e src, PpCreatedAt = 0, PpUpdatedAt = 0\<rparr>"

text \<open>The response has the ID and the name.\<close>

definition CreatePipeline ::
  "run_env \<Rightarrow> run_faults \<Rightarrow> int \<Rightarrow> string \<Rightarrow> create_pipeline_request \<Rightarrow> run_db \<Rightarrow> run_db \<times> (code + string \<times> string)" where
  "CreatePipeline e flt now user req d =
     (case reReadFs e (pipeline_fs user req) (CpYamlPath req) of
        Inl err \<Rightarrow> (d, Inl IOOperationFailure)
      | Inr src \<Rightarrow>
          (case reYaml e src of
             Inl err \<Rightarrow> (d, Inl MalformedYaml)
           | Inr wfs \<Rightarrow>
               (let ppl = pipeline_to_create e user req src wfs
                in case bindE (validatePipeline flt (PpName ppl) (PpMd5 ppl) (PpFsID ppl) d)
                          (\<lambda>_. ValidateWorkflowForPipeline e now ppl) of
                     Inl c \<Rightarrow> (d, Inl c)
                   | Inr _ \<Rightarrow>
                       (case model_CreatePipeline flt now ppl d of
                          (d1, Inl err) \<Rightarrow> (d1, Inl InternalError)
                        | (d1, Inr i) \<Rightarrow> (d1, Inr (i, PpName ppl))))))"

definition GetPipelineByID :: "run_faults \<Rightarrow> string \<Rightarrow> string \<Rightarrow> run_db \<Rightarrow> code + pipeline_row" where
  "GetPipelineByID flt user pplID d =
     (case model_GetPipelineByID flt pplID d of
        Inl err \<Rightarrow> Inl InternalError
      | Inr ppl \<Rightarrow> if \<not> IsRootUser user \<and> user \<noteq> PpUserName ppl then Inl AccessDenied else Inr ppl)"

definition isLastPipelinePk :: "run_faults \<Rightarrow> run_db \<Rightarrow> int \<Rightarrow> bool" where
  "isLastPipelinePk flt d pk = (GetLastPipeline flt d = pk)"

text \<open>The rows stand for themselves; the response leaves out their key and file system ID and formats the times.\<close>

definition ListPipeline ::
  "run_faults \<Rightarrow> block_cipher \<Rightarrow> block_cipher \<Rightarrow> string \<Rightarrow> int \<Rightarrow> string list \<Rightarrow> string list \<Rightarrow> string list \<Rightarrow> run_db \<Rightarrow>
     string \<Rightarrow> code + pipeline_row page" where
  "ListPipeline flt enc dec user maxKeys userFilter fsFilter nameFilter d marker =
     (case decode_marker dec marker of
        Inl err \<Rightarrow> Inl InvalidMarker
      | Inr pk \<Rightarrow>
          (case model_ListPipeline flt d (ppl_keep (user_filter user userFilter) fsFilter nameFilter) maxKeys pk of
             Inl err \<Rightarrow> Inl InternalError
           | Inr rows \<Rightarrow>
               if rows = [] \<or> isLastPipelinePk flt d (PpPk (last rows)) then Inr \<lparr>PgRows = rows, PgNext = None\<rparr>
               else (case EncryptPk enc (PpPk (last rows)) of
                       Inl err \<Rightarrow> Inl InternalError
                     | Inr m \<Rightarrow> Inr \<lparr>PgRows = rows, PgNext = Some m\<rparr>)))"

definition DeletePipeline :: "run_faults \<Rightarrow> string \<Rightarrow> string \<Rightarrow> run_db \<Rightarrow> run_db \<times> (code + unit)" where
  "DeletePipeline flt user pplID d =
     (case model_GetPipelineByID flt pplID d of
        Inl err \<Rightarrow> (d, Inl (if err = RecordNotFound then PipelineNotFound else InternalError))
      | Inr ppl \<Rightarrow>
          if \<not> IsRootUser user \<and> user \<noteq> PpUserName ppl then (d, Inl AccessDenied)
          else (case HardDeletePipeline flt pplID d of
                  Inl err \<Rightarrow> (d, Inl InternalError)
                | Inr d1 \<Rightarrow> (d1, Inr ())))"

section \<open>The routes\<close>

definition createPipeline ::
  "run_env \<Rightarrow> run_faults \<Rightarrow> faults \<Rightarrow> db \<Rightarrow> int \<Rightarrow> string \<Rightarrow> create_pipeline_request \<Rightarrow> run_db \<Rightarrow> run_db \<times> (code + string \<times> string)" where
  "createPipeline e flt gflt g now user req d =
     (if CpFsName req = '''' then (d, Inl '''')
      else (let req1 = (if CpYamlPath req = '''' then req\<lparr>CpYamlPath := DefaultRunYamlPath\<rparr> else req)
            in if \<not> IsRootUser user \<and> \<not> HasAccessToResource gflt user ResourceTypeFs (fs_ID user (CpFsName req1)) g
               then (d, Inl AccessDenied)
               else CreatePipeline e flt now user req1 d))"

definition listPipeline ::
  "run_faults \<Rightarrow> block_cipher \<Rightarrow> block_cipher \<Rightarrow> string \<Rightarrow> string \<Rightarrow> string \<Rightarrow> string \<Rightarrow> string \<Rightarrow> run_db \<Rightarrow> string \<Rightarrow>
     code + pipeline_row page" where
  "listPipeline flt enc dec user limitCustom userNames fsNames pipelineNames d marker =
     bindE (query_max_keys limitCustom) (\<lambda>maxKeys.
       ListPipeline flt enc dec user maxKeys (query_filter userNames) (query_filter fsNames) (query_filter pipelineNames) d marker)"

text \<open>Requests as a machine; a step has the faults, the grants at its time and the time.\<close>

datatype ppl_act =
    PlCreate string create_pipeline_request
  | PlDelete string string

record ppl_step =
  PsFlt :: run_faults
  PsGrantFlt :: faults
  PsGrants :: db
  PsNow :: int
  PsAct :: ppl_act

definition pipeline_step :: "run_env \<Rightarrow> ppl_step \<Rightarrow> run_db \<Rightarrow> run_db option" where
  "pipeline_step e p d =
     (case PsAct p of
        PlCreate user req \<Rightarrow> Some (fst (createPipeline e (PsFlt p) (PsGrantFlt p) (PsGrants p) (PsNow p) user req d))
      | PlDelete user pplID \<Rightarrow> Some (fst (DeletePipeline (PsFlt p) user pplID d)))"

section \<open>The table\<close>

definition ppl_row_ok :: "run_env \<Rightarrow> pipeline_row \<Rightarrow> bool" where
  "ppl_row_ok e p =
     (ValidateWorkflowForPipeline e (PpCreatedAt p) p = Inr () \<and> PpMd5 p = reMd5 e (PpYaml p) \<and>
      (PpName p = '''' \<or> RegPatternPipelineName (PpName p)) \<and>
      (if IsRootUser (PpUserName p) then \<exists>u. PpFsID p = fs_ID u (PpFsName p) else PpFsID p = fs_ID (PpUserName p) (PpFsName p)))"

definition ppl_unique :: "pipeline_row list \<Rightarrow> bool" where
  "ppl_unique rows =
     (distinct (map (\<lambda>p. (PpFsID p, PpName p)) rows) \<and> distinct (map (\<lambda>p. (PpFsID p, PpMd5 p)) rows))"

definition ppls_ok :: "run_env \<Rightarrow> run_db \<Rightarrow> bool" where
  "ppls_ok e d = (run_db_ok d \<and> (\<forall>p\<in>set (rdPpls d). ppl_row_ok e p) \<and> ppl_unique (rdPpls d))"

text \<open>The outcomes of a creation: the table as before, or one more row.\<close>

definition created_row :: "run_env \<Rightarrow> int \<Rightarrow> string \<Rightarrow> create_pipeline_request \<Rightarrow> string \<Rightarrow> wf_source \<Rightarrow> int \<Rightarrow> pipeline_row" where
  "created_row e now user req src wfs pk =
     (pipeline_to_create e user req src wfs)\<lparr>PpPk := pk, PpID := PrefixPipeline @ pad6 pk, PpCreatedAt := now, PpUpdatedAt := now\<rparr>"

lemma Validate_created: "ValidateWorkflowForPipeline e (PpCreatedAt (created_row e now user req src wfs pk)) (created_row e now user req src wfs pk) =
    ValidateWorkflowForPipeline e now (pipeline_to_create e user req src wfs)"
proof -
  let ?p = "pipeline_to_create e user req src wfs" and ?q = "created_row e now user req src wfs pk"
  have f: "PpYaml ?q = PpYaml ?p" "PpUserName ?q = PpUserName ?p" "PpFsName ?q = PpFsName ?p" "PpFsID ?q = PpFsID ?p" "PpCreatedAt ?q = now"
    by (simp_all add: created_row_def)
  show ?thesis unfolding ValidateWorkflowForPipeline_def f ..
qed

lemma CreatePipeline_cases:
  assumes "CreatePipeline e flt now user req d = (d', r)"
  obtains (same) c where "r = Inl c" "rdPpls d' = rdPpls d"
  | (row) src wfs pk where "r = Inr (PrefixPipeline @ pad6 pk, PpName (created_row e now user req src wfs pk))"
      "rdPpls d' = rdPpls d @ [created_row e now user req src wfs pk]"
      "ppl_row_ok e (created_row e now user req src wfs pk)"
      "\<forall>q\<in>set (rdPpls d). PpFsID q = pipeline_fs user req \<longrightarrow> PpName q \<noteq> PpName (created_row e now user req src wfs pk) \<and> PpMd5 q \<noteq> reMd5 e src"
      "reReadFs e (pipeline_fs user req) (CpYamlPath req) = Inr src"
proof (cases "reReadFs e (pipeline_fs user req) (CpYamlPath req)")
  case (Inl err)
  then show thesis using assms by (intro same) (auto simp: CreatePipeline_def)
next
  case src: (Inr src)
  show thesis
  proof (cases "reYaml e src")
    case (Inl err)
    then show thesis using assms src by (intro same) (auto simp: CreatePipeline_def)
  next
    case wfs: (Inr wfs)
    let ?p = "pipeline_to_create e user req src wfs"
    let ?ok = "bindE (validatePipeline flt (PpName ?p) (PpMd5 ?p) (PpFsID ?p) d) (\<lambda>_. ValidateWorkflowForPipeline e now ?p)"
    show thesis
    proof (cases ?ok)
      case (Inl c)
      then show thesis using assms src wfs by (intro same) (auto simp: CreatePipeline_def Let_def)
    next
      case (Inr u)
      then have v: "ValidateWorkflowForPipeline e now ?p = Inr ()" "PpName ?p = '''' \<or> RegPatternPipelineName (PpName ?p)"
        by (auto simp: bindE_eq_Inr validatePipeline_def split: if_splits)
      obtain d1 r1 where m: "model_CreatePipeline flt now ?p d = (d1, r1)" by fastforce
      have d': "d' = d1" and r: "r = (case r1 of Inl err \<Rightarrow> Inl InternalError | Inr i \<Rightarrow> Inr (i, PpName ?p))"
        using assms src wfs Inr m by (auto simp: CreatePipeline_def Let_def split: sum.splits)
      show thesis
      proof (cases r1)
        case err: (Inl err)
        then have "rdPpls d1 = rdPpls d" using m by (auto simp: model_CreatePipeline_def Let_def split: if_splits sum.splits)
        then show thesis using r err d' by (intro same) auto
      next
        case i: (Inr i)
        then obtain pk where pk: "i = PrefixPipeline @ pad6 pk" "rdPpls d1 = rdPpls d @ [created_row e now user req src wfs pk]"
          "\<not> (\<exists>q\<in>set (rdPpls d). PpFsID q = PpFsID ?p \<and> (PpName q = PpName ?p \<or> PpMd5 q = PpMd5 ?p))"
          using m by (auto simp: model_CreatePipeline_def created_row_def Let_def split: if_splits sum.splits)
        have "ppl_row_ok e (created_row e now user req src wfs pk)"
          using v unfolding ppl_row_ok_def Validate_created
          by (auto simp: created_row_def pipeline_to_create_def pipeline_fs_def)
        then show thesis using pk r i d' src
          by (intro row) (auto simp: created_row_def pipeline_to_create_def)
      qed
    qed
  qed
qed

lemma DeletePipeline_cases:
  assumes "DeletePipeline flt user pplID d = (d', r)"
  obtains (same) c where "r = Inl c" "d' = d"
  | (gone) ppl where "r = Inr ()" "model_GetPipelineByID flt pplID d = Inr ppl" "IsRootUser user \<or> user = PpUserName ppl"
      "rdPpls d' = filter (\<lambda>p. PpID p \<noteq> pplID) (rdPpls d)"
  using assms by (auto simp: DeletePipeline_def HardDeletePipeline_def split: sum.splits if_splits)

lemma createPipeline_outcome:
  obtains (same) c where "createPipeline e flt gflt g now user req d = (d, Inl c)"
  | (create) req1 where "createPipeline e flt gflt g now user req d = CreatePipeline e flt now user req1 d"
      "CpFsName req1 = CpFsName req" "CpUserName req1 = CpUserName req"
      "CpYamlPath req1 = (if CpYamlPath req = '''' then DefaultRunYamlPath else CpYamlPath req)"
proof -
  let ?req1 = "if CpYamlPath req = '''' then req\<lparr>CpYamlPath := DefaultRunYamlPath\<rparr> else req"
  have r: "CpFsName ?req1 = CpFsName req" "CpUserName ?req1 = CpUserName req"
    "CpYamlPath ?req1 = (if CpYamlPath req = '''' then DefaultRunYamlPath else CpYamlPath req)" by simp_all
  show thesis
  proof (cases "CpFsName req = ''''")
    case True
    then show thesis by (intro same [of "''''"]) (simp add: createPipeline_def)
  next
    case named: False
    show thesis
    proof (cases "\<not> IsRootUser user \<and> \<not> HasAccessToResource gflt user ResourceTypeFs (fs_ID user (CpFsName ?req1)) g")
      case True
      show thesis by (rule same [of AccessDenied], unfold createPipeline_def Let_def) (use named True in simp)
    next
      case False
      have "createPipeline e flt gflt g now user req d = CreatePipeline e flt now user ?req1 d"
        unfolding createPipeline_def Let_def if_not_P [OF False] using named by simp
      then show thesis by (rule create) (rule r)+
    qed
  qed
qed

lemma CreatePipeline_run_db_ok: "run_db_ok d \<Longrightarrow> CreatePipeline e flt now user req d = (d', r) \<Longrightarrow> run_db_ok d'"
  by (auto simp: CreatePipeline_def Let_def split: sum.splits prod.splits dest: run_db_ok_CreatePipeline)

lemma DeletePipeline_run_db_ok: "run_db_ok d \<Longrightarrow> DeletePipeline flt user i d = (d', r) \<Longrightarrow> run_db_ok d'"
  by (auto simp: DeletePipeline_def split: sum.splits if_splits dest: run_db_ok_HardDeletePipeline)

lemma ppl_unique_snoc:
  "ppl_unique rows \<Longrightarrow> \<forall>q\<in>set rows. PpFsID q = PpFsID p \<longrightarrow> PpName q \<noteq> PpName p \<and> PpMd5 q \<noteq> PpMd5 p \<Longrightarrow> ppl_unique (rows @ [p])"
  by (auto simp: ppl_unique_def)

lemma CreatePipeline_ok:
  assumes "ppls_ok e d" and "CreatePipeline e flt now user req d = (d', r)"
  shows "ppls_ok e d'"
proof -
  have db: "run_db_ok d'" using CreatePipeline_run_db_ok [OF _ assms(2)] assms(1) by (simp add: ppls_ok_def)
  from assms(2) show ?thesis
  proof (cases rule: CreatePipeline_cases)
    case (same c)
    then show ?thesis using db assms(1) by (simp add: ppls_ok_def)
  next
    case (row src wfs pk)
    let ?p = "created_row e now user req src wfs pk"
    have "PpFsID ?p = pipeline_fs user req" "PpMd5 ?p = reMd5 e src" by (simp_all add: created_row_def pipeline_to_create_def)
    then have "ppl_unique (rdPpls d')" unfolding row(2) using assms(1) row(4) by (intro ppl_unique_snoc) (simp_all add: ppls_ok_def)
    then show ?thesis using db assms(1) row(2,3) by (simp add: ppls_ok_def)
  qed
qed

lemma pipeline_step_ok:
  assumes "ppls_ok e d" and "pipeline_step e p d = Some d'"
  shows "ppls_ok e d'"
proof (cases "PsAct p")
  case (PlCreate user req)
  let ?c = "createPipeline e (PsFlt p) (PsGrantFlt p) (PsGrants p) (PsNow p) user req d"
  have d': "d' = fst ?c" using assms(2) PlCreate by (simp add: pipeline_step_def)
  show ?thesis
  proof (cases rule: createPipeline_outcome [of e "PsFlt p" "PsGrantFlt p" "PsGrants p" "PsNow p" user req d])
    case (same c)
    then show ?thesis using assms(1) d' by simp
  next
    case (create req1)
    then show ?thesis
      using CreatePipeline_ok [OF assms(1), of "PsFlt p" "PsNow p" user req1] d'
      by (cases "CreatePipeline e (PsFlt p) (PsNow p) user req1 d") simp
  qed
next
  case (PlDelete user i)
  obtain r where r: "DeletePipeline (PsFlt p) user i d = (d', r)"
    using assms(2) PlDelete by (cases "DeletePipeline (PsFlt p) user i d") (simp add: pipeline_step_def)
  have db: "run_db_ok d'" using DeletePipeline_run_db_ok [OF _ r] assms(1) by (simp add: ppls_ok_def)
  from r show ?thesis
  proof (cases rule: DeletePipeline_cases)
    case (same c)
    then show ?thesis using assms(1) by simp
  next
    case (gone ppl)
    have "distinct (map f (filter P xs))" if "distinct (map f xs)" for f :: "pipeline_row \<Rightarrow> string \<times> string" and P xs
      using that by (rule distinct_map_filter)
    then show ?thesis using db assms(1) gone(4) by (auto simp: ppls_ok_def ppl_unique_def)
  qed
qed

interpretation pipeline_service: step_machine "pipeline_step e" "\<lambda>_. True" "ppls_ok e" for e
  by unfold_locales (rule pipeline_step_ok)

lemma ppls_ok_empty: "ppls_ok e empty_run_db"
  by (simp add: ppls_ok_def run_db_ok_empty ppl_unique_def) (simp add: empty_run_db_def)

interpretation pipelines: paged_table rdPpls PpPk "\<lambda>d. run_db_ok d \<and> in_key_order (rdScan d) \<and> \<not> flt RcListPpl \<and> \<not> flt RcLastPpl"
    "\<lambda>d keep maxKeys pk. rows_or_nil (model_ListPipeline flt d keep maxKeys pk)" "GetLastPipeline flt" for flt
  by unfold_locales
    (auto simp: run_db_ok_def auto_table_pk scan_in_order model_ListPipeline_def GetLastPipeline_def last_pk_last)

section \<open>Properties\<close>

text \<open>
  C12: In every state the requests reach, whatever calls of the database fail, each stored pipeline could be built when it was created: its text parses
  and a workflow is made from it for its owner and file system, with the checks of jobs as they were at that time; the text is the one its MD5 was made of; its file system is that of the owner,
  unless root created it; and within a file system names and texts are unique, as the IDs are in the whole table.
\<close>

theorem stored_pipelines_build:
  assumes "run_acts (pipeline_step e) acts empty_run_db = Some d"
  shows "(\<forall>p\<in>set (rdPpls d). ValidateWorkflowForPipeline e (PpCreatedAt p) p = Inr () \<and> PpMd5 p = reMd5 e (PpYaml p) \<and>
      (PpName p = '''' \<or> RegPatternPipelineName (PpName p)) \<and>
      (\<not> IsRootUser (PpUserName p) \<longrightarrow> PpFsID p = fs_ID (PpUserName p) (PpFsName p))) \<and>
    (\<forall>p\<in>set (rdPpls d). \<forall>q\<in>set (rdPpls d). PpFsID p = PpFsID q \<and> (PpName p = PpName q \<or> PpMd5 p = PpMd5 q) \<longrightarrow> p = q) \<and>
    distinct (map PpID (rdPpls d))"
proof -
  have ok: "ppls_ok e d" using pipeline_service.acts_inv [OF assms _ ppls_ok_empty] by (simp add: list_all_iff)
  then have rows: "\<forall>p\<in>set (rdPpls d). ppl_row_ok e p"
    and db: "auto_table PpPk (rdPplPk d) (rdPpls d)" "id_table PpPk PpID PrefixPipeline (rdPpls d)"
    and u: "distinct (map (\<lambda>p. (PpFsID p, PpName p)) (rdPpls d))" "distinct (map (\<lambda>p. (PpFsID p, PpMd5 p)) (rdPpls d))"
    by (simp_all add: ppls_ok_def run_db_ok_def ppl_unique_def)
  have pk: "pk_table PpPk (rdPpls d)" by (rule auto_table_pk [OF db(1)])
  have "inj_on PpID (set (rdPpls d))" by (rule inj_onI) (rule id_table_unique [OF pk db(2)])
  moreover have "distinct (rdPpls d)" using u(1) by (simp add: distinct_map)
  ultimately have ids: "distinct (map PpID (rdPpls d))" by (simp add: distinct_map)
  have "p = q" if "p \<in> set (rdPpls d)" "q \<in> set (rdPpls d)" "PpFsID p = PpFsID q" "PpName p = PpName q \<or> PpMd5 p = PpMd5 q" for p q
    using that u unfolding distinct_map inj_on_def by blast
  then show ?thesis using rows ids unfolding ppl_row_ok_def by auto
qed

lemma last_row_Inr: "last_row P rows = Inr r \<Longrightarrow> r \<in> set rows \<and> P r"
  using first_row_Inr [of P "rev rows"] by (simp add: last_row_def)

lemma last_row_unique: "r \<in> set rows \<Longrightarrow> P r \<Longrightarrow> (\<And>q. q \<in> set rows \<Longrightarrow> P q \<Longrightarrow> q = r) \<Longrightarrow> last_row P rows = Inr r"
proof (cases "last_row P rows")
  case (Inl err)
  assume "r \<in> set rows" "P r"
  then show ?thesis using Inl first_row_Inl [of P "rev rows" err] by (simp add: last_row_def)
next
  case (Inr q)
  assume "\<And>q. q \<in> set rows \<Longrightarrow> P q \<Longrightarrow> q = r"
  then show ?thesis using Inr last_row_Inr [OF Inr] by simp
qed

text \<open>A row goes only by a deletion of its ID that its owner or root asked for.\<close>

lemma step_keeps_row:
  assumes "run_db_ok d" and "pipeline_step e p d = Some d'" and "q \<in> set (rdPpls d)"
  shows "run_db_ok d'" and "q \<in> set (rdPpls d') \<or> (\<exists>user. PsAct p = PlDelete user (PpID q) \<and> (IsRootUser user \<or> user = PpUserName q))"
proof (atomize (full), cases "PsAct p")
  case (PlCreate user req)
  let ?c = "createPipeline e (PsFlt p) (PsGrantFlt p) (PsGrants p) (PsNow p) user req d"
  have d': "d' = fst ?c" using assms(2) PlCreate by (simp add: pipeline_step_def)
  have "run_db_ok (fst ?c) \<and> set (rdPpls d) \<subseteq> set (rdPpls (fst ?c))"
  proof (cases rule: createPipeline_outcome [of e "PsFlt p" "PsGrantFlt p" "PsGrants p" "PsNow p" user req d])
    case (create req1)
    obtain d1 r where r: "CreatePipeline e (PsFlt p) (PsNow p) user req1 d = (d1, r)" by fastforce
    then have "set (rdPpls d) \<subseteq> set (rdPpls d1)" by (cases rule: CreatePipeline_cases) auto
    then show ?thesis using CreatePipeline_run_db_ok [OF assms(1) r] by (simp add: create(1) r)
  qed (use assms(1) in simp)
  then show "run_db_ok d' \<and> (q \<in> set (rdPpls d') \<or> (\<exists>user. PsAct p = PlDelete user (PpID q) \<and> (IsRootUser user \<or> user = PpUserName q)))"
    using assms(3) d' by blast
next
  case (PlDelete user i)
  obtain r where r: "DeletePipeline (PsFlt p) user i d = (d', r)"
    using assms(2) PlDelete by (cases "DeletePipeline (PsFlt p) user i d") (simp add: pipeline_step_def)
  from r have "q \<in> set (rdPpls d') \<or> PpID q = i \<and> (IsRootUser user \<or> user = PpUserName q)"
  proof (cases rule: DeletePipeline_cases)
    case (gone ppl)
    show ?thesis
    proof (cases "PpID q = i")
      case i: True
      have db: "pk_table PpPk (rdPpls d)" "id_table PpPk PpID PrefixPipeline (rdPpls d)"
        using assms(1) auto_table_pk by (auto simp: run_db_ok_def)
      have "i \<noteq> ''''" using db(2) assms(3) i by (auto simp: id_table_def PrefixPipeline_def)
      then have "ppl \<in> set (rdPpls d)" "PpID ppl = i"
        using gone(2) by (auto simp: model_GetPipelineByID_def eq_nonzero_def dest: last_row_Inr split: if_splits)
      then have "ppl = q" using id_table_unique [OF db] assms(3) i by simp
      then show ?thesis using gone(3) i by blast
    next
      case False
      then show ?thesis using assms(3) gone(4) by simp
    qed
  qed (use assms(3) in simp)
  then show "run_db_ok d' \<and> (q \<in> set (rdPpls d') \<or> (\<exists>user. PsAct p = PlDelete user (PpID q) \<and> (IsRootUser user \<or> user = PpUserName q)))"
    using DeletePipeline_run_db_ok [OF assms(1) r] PlDelete by blast
qed

lemma acts_keep_row:
  "run_acts (pipeline_step e) acts d = Some d' \<Longrightarrow> run_db_ok d \<Longrightarrow> q \<in> set (rdPpls d) \<Longrightarrow>
     \<forall>p\<in>set acts. \<forall>user. PsAct p \<noteq> PlDelete user (PpID q) \<Longrightarrow> run_db_ok d' \<and> q \<in> set (rdPpls d')"
proof (induction acts arbitrary: d)
  case (Cons p acts)
  then obtain d1 where d1: "pipeline_step e p d = Some d1" "run_acts (pipeline_step e) acts d1 = Some d'"
    by (auto split: option.splits)
  have "q \<in> set (rdPpls d1)" using step_keeps_row(2) [OF Cons.prems(2) d1(1) Cons.prems(3)] Cons.prems(4) by auto
  then show ?case using Cons.IH [OF d1(2) step_keeps_row(1) [OF Cons.prems(2) d1(1) Cons.prems(3)]] Cons.prems(4) by simp
qed simp

lemma reached_run_db_ok: "run_acts (pipeline_step e) acts empty_run_db = Some d \<Longrightarrow> run_db_ok d"
  using pipeline_service.acts_inv [OF _ _ ppls_ok_empty] by (auto simp: list_all_iff ppls_ok_def)

text \<open>
  C13: A pipeline stays as it was created until its owner or root deletes it by its ID: no other request, by whomever and with whatever
  failures, changes or removes it.
\<close>

theorem pipelines_of_others_stay:
  assumes "run_acts (pipeline_step e) acts empty_run_db = Some d" and "pipeline_step e p d = Some d'"
    and "q \<in> set (rdPpls d)" and "q \<notin> set (rdPpls d')"
  shows "\<exists>user. PsAct p = PlDelete user (PpID q) \<and> (IsRootUser user \<or> user = PpUserName q)"
  using step_keeps_row(2) [OF reached_run_db_ok [OF assms(1)] assms(2,3)] assms(4) by blast

text \<open>
  C14: A run that is started from a pipeline uses the text that was stored when the pipeline was created, provided that no request to delete
  it came between; other requests between, and what the files now contain (\<open>e'\<close>), make no difference. Another user who is not root is denied it.
\<close>

theorem runs_use_stored_pipeline:
  assumes "run_acts (pipeline_step e) acts empty_run_db = Some d"
    and "createPipeline e flt gflt g now user req d = (d1, Inr (i, name))"
    and "run_acts (pipeline_step e') later d1 = Some d2" and "\<forall>p\<in>set later. \<forall>u. PsAct p \<noteq> PlDelete u i"
    and "CrRunYamlRaw r = ''''" and "CrPipelineID r = i" and "\<not> flt' RcGetPpl"
  shows "\<exists>src. reReadFs e (pipeline_fs user req) (if CpYamlPath req = '''' then DefaultRunYamlPath else CpYamlPath req) = Inr src \<and>
    run_source_text e' flt' user r fsID d2 = Inr (i, src) \<and>
    (\<forall>other. other \<noteq> user \<and> \<not> IsRootUser other \<longrightarrow> run_source_text e' flt' other r fsID d2 = Inl AccessDenied)"
proof (cases rule: createPipeline_outcome [of e flt gflt g now user req d])
  case (same c)
  then show ?thesis using assms(2) by simp
next
  case (create req1)
  then have c: "CreatePipeline e flt now user req1 d = (d1, Inr (i, name))" using assms(2) by simp
  then show ?thesis
  proof (cases rule: CreatePipeline_cases)
    case (row src wfs pk)
    let ?p = "created_row e now user req1 src wfs pk"
    have fs: "pipeline_fs user req1 = pipeline_fs user req" using create(2,3) by (simp add: pipeline_fs_def)
    have i: "i = PpID ?p" "PpYaml ?p = src" "PpUserName ?p = user" using row(1) by (simp_all add: created_row_def pipeline_to_create_def)
    have "run_db_ok d1" by (rule CreatePipeline_run_db_ok [OF reached_run_db_ok [OF assms(1)] c])
    then have d2: "run_db_ok d2" "?p \<in> set (rdPpls d2)"
      using acts_keep_row [OF assms(3), of ?p] row(2) assms(4) i(1) by simp_all
    have db: "pk_table PpPk (rdPpls d2)" "id_table PpPk PpID PrefixPipeline (rdPpls d2)"
      using d2(1) auto_table_pk by (auto simp: run_db_ok_def)
    have ne: "i \<noteq> ''''" using db(2) d2(2) i(1) by (auto simp: id_table_def PrefixPipeline_def)
    have "last_row (\<lambda>p. eq_nonzero i (PpID p)) (rdPpls d2) = Inr ?p"
      by (rule last_row_unique [OF d2(2)]) (use i(1) ne id_table_unique [OF db _ d2(2)] in \<open>auto simp: eq_nonzero_def\<close>)
    then have get: "model_GetPipelineByID flt' i d2 = Inr ?p" using assms(7) by (simp add: model_GetPipelineByID_def)
    have "run_source_text e' flt' u r fsID d2 = (if \<not> IsRootUser u \<and> user \<noteq> u then Inl AccessDenied else Inr (i, src))" for u
      unfolding run_source_text_def assms(5,6) get sum.case i(2,3) using ne i(1) by simp
    then show ?thesis using row(5) create(4) fs by auto
  qed simp
qed

text \<open>
  Following the markers of \<open>ListPipeline\<close> shows every pipeline that matches the filters exactly once, and to a user other than root only
  own ones.\<close>

lemma ListPipeline_pages_complete:
  assumes "cipher_ok enc dec" and "run_db_ok d" and "in_key_order (rdScan d)" and "\<not> flt RcListPpl" and "\<not> flt RcLastPpl"
  shows "let rows = filter (ppl_keep (user_filter user uf) ff nf) (rdPpls d)
     in collect_pages (length rows + 1) (ListPipeline flt enc dec user maxKeys uf ff nf d) '''' = Some rows \<and>
        (\<not> IsRootUser user \<longrightarrow> (\<forall>p\<in>set rows. PpUserName p = user))"
proof -
  let ?keep = "ppl_keep (user_filter user uf) ff nf"
  let ?page = "list_page enc dec PpPk (\<lambda>pk. rows_or_nil (model_ListPipeline flt d ?keep maxKeys pk)) (GetLastPipeline flt d)"
  have same: "collect_pages n (ListPipeline flt enc dec user maxKeys uf ff nf d) marker = collect_pages n ?page marker" for n marker
  proof -
    have "ListPipeline flt enc dec user maxKeys uf ff nf d = (\<lambda>m. case ?page m of Inl err \<Rightarrow> Inl (if isl (decode_marker dec m) then InvalidMarker else InternalError) | Inr p \<Rightarrow> Inr p)"
      using assms(4)
      by (auto simp: fun_eq_iff ListPipeline_def list_page_def next_marker_def model_ListPipeline_def isLastPipelinePk_def bindE_def rows_or_nil_def split: sum.splits)
    moreover have "collect_pages n (\<lambda>m. case g m of Inl err \<Rightarrow> Inl (h m) | Inr p \<Rightarrow> Inr p) marker = collect_pages n g marker"
      for g :: "string \<Rightarrow> marker_error + pipeline_row page" and h :: "string \<Rightarrow> code" and n marker
      by (induction n arbitrary: marker) (auto split: sum.splits option.splits)
    ultimately show ?thesis by simp
  qed
  have "collect_pages (length (filter ?keep (rdPpls d)) + 1) ?page '''' = Some (filter ?keep (rdPpls d))"
    by (rule pipelines.pages_complete [OF assms(1)]) (use assms in simp)
  then show ?thesis unfolding Let_def same by (auto simp: ppl_keep_def user_filter_def in_filter_def)
qed

section \<open>Witnesses\<close>

definition demo_grants :: db where
  "demo_grants = \<lparr>tGrant = [\<lparr>GrPk = 1, GrID = ''grant-1'', GrUserName = ''alice'', GrResourceType = ''fs'', GrResourceID = ''fs-alice-data''\<rparr>],
     tQueue = [], tUser = [], tJob = [], nGrant = 1, nQueue = 0, nUser = 0, dbScan = []\<rparr>"

definition demo_ppl_request :: create_pipeline_request where
  "demo_ppl_request = \<lparr>CpFsName = ''data'', CpYamlPath = '''', CpName = ''train'', CpUserName = ''''\<rparr>"

definition demo_ppl_step :: "ppl_act \<Rightarrow> ppl_step" where
  "demo_ppl_step a = \<lparr>PsFlt = (\<lambda>_. False), PsGrantFlt = (\<lambda>_. False), PsGrants = demo_grants, PsNow = 1, PsAct = a\<rparr>"

definition demo_ppl_db :: run_db where
  "demo_ppl_db = the (pipeline_step demo_run_env (demo_ppl_step (PlCreate ''alice'' demo_ppl_request)) empty_run_db)"

lemma demo_ppl_run:
  "run_acts (pipeline_step demo_run_env) [demo_ppl_step (PlCreate ''alice'' demo_ppl_request)] empty_run_db = Some demo_ppl_db"
  by (simp add: demo_ppl_db_def pipeline_step_def demo_ppl_step_def)

lemma demo_ppl_created:
  "snd (createPipeline demo_run_env (\<lambda>_. False) (\<lambda>_. False) demo_grants 1 ''alice'' demo_ppl_request empty_run_db) = Inr (''ppl-000001'', ''train'')"
  "map PpID (rdPpls demo_ppl_db) = [''ppl-000001'']" "map PpUserName (rdPpls demo_ppl_db) = [''alice'']"
  "rdPpls (fst (DeletePipeline (\<lambda>_. False) ''alice'' ''ppl-000001'' demo_ppl_db)) = []"
  by code_simp+

lemma stored_pipelines_build_witness:
  "ValidateWorkflowForPipeline demo_run_env (PpCreatedAt (hd (rdPpls demo_ppl_db))) (hd (rdPpls demo_ppl_db)) = Inr () \<and>
   PpMd5 (hd (rdPpls demo_ppl_db)) = reMd5 demo_run_env (PpYaml (hd (rdPpls demo_ppl_db)))"
proof -
  have "hd (rdPpls demo_ppl_db) \<in> set (rdPpls demo_ppl_db)" using demo_ppl_created(2) by (cases "rdPpls demo_ppl_db") auto
  then show ?thesis using stored_pipelines_build [OF demo_ppl_run] by blast
qed

lemma pipelines_of_others_stay_witness:
  "\<exists>user. PlDelete ''alice'' ''ppl-000001'' = PlDelete user (PpID (hd (rdPpls demo_ppl_db))) \<and>
     (IsRootUser user \<or> user = PpUserName (hd (rdPpls demo_ppl_db)))"
proof -
  let ?p = "demo_ppl_step (PlDelete ''alice'' ''ppl-000001'')"
  have s: "pipeline_step demo_run_env ?p demo_ppl_db = Some (fst (DeletePipeline (\<lambda>_. False) ''alice'' ''ppl-000001'' demo_ppl_db))"
    by (simp add: pipeline_step_def demo_ppl_step_def)
  have "rdPpls demo_ppl_db \<noteq> []" using demo_ppl_created(2) by auto
  then have "hd (rdPpls demo_ppl_db) \<in> set (rdPpls demo_ppl_db)" by simp
  then have "\<exists>user. PsAct ?p = PlDelete user (PpID (hd (rdPpls demo_ppl_db))) \<and> (IsRootUser user \<or> user = PpUserName (hd (rdPpls demo_ppl_db)))"
    by (rule pipelines_of_others_stay [OF demo_ppl_run s]) (simp only: demo_ppl_created(4), simp)
  then show ?thesis by (simp add: demo_ppl_step_def)
qed

lemma runs_use_stored_pipeline_witness:
  "run_source_text (demo_run_env\<lparr>reReadFs := (\<lambda>_ _. Inr ''changed'')\<rparr>) (\<lambda>_. False) ''alice'' (demo_request\<lparr>CrPipelineID := ''ppl-000001''\<rparr>) ''fs-alice-data''
     (fst (createPipeline demo_run_env (\<lambda>_. False) (\<lambda>_. False) demo_grants 1 ''alice'' demo_ppl_request empty_run_db)) = Inr (''ppl-000001'', ''yaml'')"
proof -
  let ?c = "createPipeline demo_run_env (\<lambda>_. False) (\<lambda>_. False) demo_grants 1 ''alice'' demo_ppl_request empty_run_db"
  let ?r = "demo_request\<lparr>CrPipelineID := ''ppl-000001''\<rparr>"
  have c: "?c = (fst ?c, Inr (''ppl-000001'', ''train''))" using demo_ppl_created(1) by (simp add: prod_eq_iff)
  have r: "CrRunYamlRaw ?r = ''''" "CrPipelineID ?r = ''ppl-000001''" by (simp_all add: demo_request_def)
  have f: "reReadFs demo_run_env x y = Inr src \<longleftrightarrow> src = ''yaml''" for x y src by (auto simp: demo_run_env_def)
  obtain src where "reReadFs demo_run_env (pipeline_fs ''alice'' demo_ppl_request)
      (if CpYamlPath demo_ppl_request = '''' then DefaultRunYamlPath else CpYamlPath demo_ppl_request) = Inr src"
    "run_source_text (demo_run_env\<lparr>reReadFs := (\<lambda>_ _. Inr ''changed'')\<rparr>) (\<lambda>_. False) ''alice'' ?r ''fs-alice-data'' (fst ?c) = Inr (''ppl-000001'', src)"
    using runs_use_stored_pipeline [where acts = "[]" and later = "[]" and e' = "demo_run_env\<lparr>reReadFs := (\<lambda>_ _. Inr ''changed'')\<rparr>" and
        r = ?r and flt' = "\<lambda>_. False" and fsID = "''fs-alice-data''", OF _ c] r by auto
  then show ?thesis unfolding f by simp
qed

end
