(* ===== verification/PF_ImageHandler.thy ===== *)
theory PF_ImageHandler
  imports PF_RunCtl PF_Meta "HOL-Library.Multiset"
begin

text \<open>
  The image handler (\<open>apiserver/handler/image_handler.go\<close>): a pool of goroutines that take the tasks \<open>PF_RunCtl\<close> hands over,
  read the manifest of the tar file, load, tag and push the image, and call back. Two tasks for one image of one file system
  share the work: the first one owns a channel in \<open>handleInfoMap\<close> and the others send themselves into it. Each goroutine runs to
  its next access of shared state; what Docker, the file system and the clock answer is part of the step. An unbounded channel of
  chanx is a list with a flag; sending into a closed channel panics. A panic that nothing recovers ends the process.
\<close>

section \<open>Answers and state\<close>

record image_config =
  IcConfig :: string
  IcRepoTags :: "string list"

text \<open>\<open>IaEntries\<close> are the entries of the tar file with their contents and \<open>IaEnd\<close> the error after the last one; \<open>IaImages\<close> answers
  \<open>ImageList\<close>; \<open>IaLoad\<close> and \<open>IaPush\<close> are the texts that Docker answers with.\<close>

record ih_answers =
  IaClient :: "string option"
  IaOpen :: "string option"
  IaEntries :: "(string \<times> (string + string)) list"
  IaEnd :: string
  IaImages :: "string + (string \<times> string list) list"
  IaLoad :: "string + string"
  IaTag :: "string option"
  IaPush :: "string + string"
  IaNow :: int

record ih_env =
  IeRepo :: string
  IeRemoveLocal :: bool
  IeDecode :: "string \<Rightarrow> string + image_config list"

record image_chan =
  ChClosed :: bool
  ChItems :: "image_task list"

text \<open>What \<open>handleInfoMap\<close> holds is an \<open>interface{}\<close>: a pointer to a channel and a channel are values of different dynamic types.
  \<open>NewUnboundedChan\<close> returns a pointer (its result goes into the field \<open>handleChan *chanx.UnboundedChan\<close>); the assertion
  \<open>.(chanx.UnboundedChan)\<close> holds of the other one.\<close>

datatype chan_value = ChanPtr nat | ChanStruct nat

definition NewUnboundedChan :: "nat \<Rightarrow> chan_value" where
  "NewUnboundedChan c = ChanPtr c"

fun assert_UnboundedChan :: "chan_value \<Rightarrow> nat option" where
  "assert_UnboundedChan (ChanStruct c) = Some c"
| "assert_UnboundedChan (ChanPtr c) = None"

datatype worker_pc =
    WIdle
  | WRecv
  | WTask image_task
  | WConf image_task
  | WImage image_task image_config
  | WStore image_task image_config
  | WSend nat image_task
  | WOwn nat image_task image_config
  | WBuild image_task image_config
  | WPush string string string "string list"
  | WPushed string string string "string list"
  | WRemove string string string "string list"
  | WExec string string string "string option"
  | WDrain nat string string "string option"
  | WDone

record image_handler =
  IhQueue :: "image_task list"
  IhStopped :: bool
  IhCrashed :: bool
  IhChans :: "image_chan list"
  IhInfo :: "chan_value gomap"
  IhUrls :: "string gomap"
  IhCbs :: "(image_info \<times> string option) list"
  IhRemoved :: "string list"
  IhWorkers :: "worker_pc list"

definition defaultConcurrency :: nat where "defaultConcurrency = 10"
definition imagePrefix :: string where "imagePrefix = ''pf''"
definition dockerManifestFile :: string where "dockerManifestFile = ''manifest.json''"

text \<open>The server, the name space and the concurrency of the configuration.\<close>

definition image_repo :: "string \<Rightarrow> string \<Rightarrow> string" where
  "image_repo server namespace =
     (if server = '''' then namespace else if namespace = '''' then server else server @ ''/'' @ namespace)"

definition InitPFImageHandler :: "int \<Rightarrow> image_handler" where
  "InitPFImageHandler concurrency =
     \<lparr>IhQueue = [], IhStopped = False, IhCrashed = False, IhChans = [], IhInfo = [], IhUrls = [], IhCbs = [], IhRemoved = [],
      IhWorkers = replicate (if concurrency > 0 then nat concurrency else defaultConcurrency) WIdle\<rparr>"

section \<open>Images\<close>

definition generatePFImageID :: "image_task \<Rightarrow> string \<Rightarrow> string" where
  "generatePFImageID t imageID = ItFsID t @ ''-'' @ imageID"

fun find_manifest :: "(string \<Rightarrow> string + image_config list) \<Rightarrow> string \<Rightarrow> (string \<times> (string + string)) list \<Rightarrow> string + image_config" where
  "find_manifest decode eof [] = Inl eof"
| "find_manifest decode eof ((name, content) # es) =
     (if name \<noteq> dockerManifestFile then find_manifest decode eof es
      else case content of
             Inl err \<Rightarrow> Inl err
           | Inr c \<Rightarrow>
               (case decode c of
                  Inl err \<Rightarrow> Inl err
                | Inr confs \<Rightarrow>
                    if length confs \<noteq> 1 then Inl ''more than one image in tar pkg is not support now'' else Inr (hd confs)))"

definition handleImageConfig :: "ih_env \<Rightarrow> ih_answers \<Rightarrow> string + image_config" where
  "handleImageConfig e a =
     (case IaClient a of
        Some err \<Rightarrow> Inl err
      | None \<Rightarrow> (case IaOpen a of Some err \<Rightarrow> Inl err | None \<Rightarrow> find_manifest (IeDecode e) (IaEnd a) (IaEntries a)))"

text \<open>Runs of two or more of a character become one.\<close>

fun squeeze :: "char \<Rightarrow> string \<Rightarrow> string" where
  "squeeze c [] = []"
| "squeeze c (x # xs) = (if x = c \<and> xs \<noteq> [] \<and> hd xs = c then squeeze c xs else x # squeeze c xs)"

definition url_part :: "string \<Rightarrow> string" where
  "url_part s =
     trim (\<lambda>c. c = CHR ''_'')
       (map (\<lambda>c. if is_lower c \<or> is_digit c then c else CHR ''_'') s)"

definition generateImageUrlWithoutTag :: "ih_env \<Rightarrow> image_task \<Rightarrow> string \<Rightarrow> string" where
  "generateImageUrlWithoutTag e t imageID =
     (let url = imagePrefix @ ''/'' @ url_part (ItFsID t) @ ''/'' @ take 8 imageID @ ''/'' @ url_part (ItDockerEnv t);
          url1 = (if IeRepo e \<noteq> '''' then squeeze (CHR ''/'') (IeRepo e @ ''/'' @ url) else url)
      in squeeze (CHR ''_'') url1)"

text \<open>\<open>UnixNano\<close> has nineteen digits since 2001, so the slice of thirteen stays inside.\<close>

definition generateImageUrl :: "ih_env \<Rightarrow> int \<Rightarrow> image_task \<Rightarrow> string \<Rightarrow> string" where
  "generateImageUrl e now t imageID = generateImageUrlWithoutTag e t imageID @ '':'' @ take 13 (itoa now)"

definition IsImageExistInRepo :: "ih_env \<Rightarrow> ih_answers \<Rightarrow> image_task \<Rightarrow> string \<Rightarrow> bool" where
  "IsImageExistInRepo e a t imageID =
     (if IeRepo e \<noteq> '''' then True
      else case IaImages a of
             Inl err \<Rightarrow> False
           | Inr images \<Rightarrow>
               list_ex (\<lambda>(iid, tags). str_contains iid imageID \<and> list_ex (\<lambda>tag. has_prefix tag (generateImageUrlWithoutTag e t imageID)) tags)
                 images)"

definition generateRemoveTags :: "ih_answers \<Rightarrow> image_config \<Rightarrow> string list" where
  "generateRemoveTags a cfg =
     (if IcRepoTags cfg = [] then []
      else case IaImages a of
             Inl err \<Rightarrow> []
           | Inr images \<Rightarrow>
               (let existTags = (case find (\<lambda>(iid, tags). str_contains iid (take 64 (IcConfig cfg))) images of
                                   None \<Rightarrow> [] | Some (iid, tags) \<Rightarrow> tags)
                in if existTags = [] then IcRepoTags cfg else filter (\<lambda>tag. tag \<notin> set existTags) (IcRepoTags cfg)))"

text \<open>The result has the URL also when tagging failed.\<close>

definition loadAndTagImage :: "ih_env \<Rightarrow> ih_answers \<Rightarrow> bool \<Rightarrow> image_task \<Rightarrow> string \<Rightarrow> string \<times> string option" where
  "loadAndTagImage e a stopped t imageID =
     (if stopped then ('''', Some ''imageHandler has been Stopped'')
      else case IaClient a of
        Some err \<Rightarrow> ('''', Some err)
      | None \<Rightarrow>
          (case IaOpen a of
             Some err \<Rightarrow> ('''', Some err)
           | None \<Rightarrow>
               (case IaLoad a of
                  Inl err \<Rightarrow> ('''', Some err)
                | Inr loadRes \<Rightarrow>
                    if str_contains loadRes ''errorDetail'' then ('''', Some ''load image failed: cannot find imageID'')
                    else (generateImageUrl e (IaNow a) t imageID, IaTag a))))"

definition pushImage :: "ih_env \<Rightarrow> ih_answers \<Rightarrow> bool \<Rightarrow> string option" where
  "pushImage e a stopped =
     (if stopped then Some ''imageHandler has been stopped''
      else if IeRepo e = '''' then None
      else case IaPush a of
             Inl err \<Rightarrow> Some err
           | Inr answer \<Rightarrow> if str_contains answer ''errorDetail'' then Some answer else None)"

definition RemoveImage :: "ih_env \<Rightarrow> string list \<Rightarrow> image_handler \<Rightarrow> image_handler" where
  "RemoveImage e tags s =
     (if IhStopped s \<or> \<not> IeRemoveLocal e \<or> IeRepo e = '''' then s else s\<lparr>IhRemoved := IhRemoved s @ tags\<rparr>)"

section \<open>The goroutines\<close>

definition crash :: "image_handler \<Rightarrow> image_handler" where
  "crash s = s\<lparr>IhCrashed := True\<rparr>"

definition proceed :: "nat \<Rightarrow> worker_pc \<Rightarrow> image_handler \<Rightarrow> image_handler" where
  "proceed w pc s = s\<lparr>IhWorkers := (IhWorkers s)[w := pc]\<rparr>"

definition call_back :: "image_info \<Rightarrow> string option \<Rightarrow> image_handler \<Rightarrow> image_handler" where
  "call_back info err s = s\<lparr>IhCbs := IhCbs s @ [(info, err)]\<rparr>"

definition task_info :: "image_task \<Rightarrow> image_info" where
  "task_info t = blank_info (ItRunID t) (ItFsID t) (ItDockerEnv t)"

text \<open>\<open>HandleTarImage\<close>; the panic of a closed channel is recovered into a callback.\<close>

definition submit_image :: "image_task \<Rightarrow> image_handler \<Rightarrow> image_handler" where
  "submit_image t s =
     (if IhStopped s then call_back (task_info t) (Some ''handler tar image failed: send on closed channel'') s
      else s\<lparr>IhQueue := IhQueue s @ [t]\<rparr>)"

definition image_Stop :: "image_handler \<Rightarrow> image_handler" where
  "image_Stop s = (if IhStopped s then crash s else s\<lparr>IhStopped := True\<rparr>)"

text \<open>\<open>process\<close>: what a closed channel gives fails the type assertion.\<close>

definition process_receive :: "nat \<Rightarrow> image_handler \<Rightarrow> image_handler option" where
  "process_receive w s =
     (case IhQueue s of
        t # ts \<Rightarrow> Some (proceed w (WTask t) (s\<lparr>IhQueue := ts\<rparr>))
      | [] \<Rightarrow> if IhStopped s then Some (crash s) else None)"

definition handle_id :: "image_task \<Rightarrow> image_config \<Rightarrow> string" where
  "handle_id t cfg = ItFsID t @ take 64 (IcConfig cfg)"

definition processHandleInfo :: "ih_env \<Rightarrow> ih_answers \<Rightarrow> nat \<Rightarrow> image_task \<Rightarrow> image_handler \<Rightarrow> image_handler" where
  "processHandleInfo e a w t s =
     (case handleImageConfig e a of
        Inl err \<Rightarrow> proceed w WIdle (call_back (task_info t) (Some err) s)
      | Inr cfg \<Rightarrow>
          if length (IcConfig cfg) < 64 then crash s
          else (let imageID = take 64 (IcConfig cfg);
                    inRepo = IsImageExistInRepo e a t imageID;
                    info = (task_info t)\<lparr>IiImageID := imageID, IiPFImageID := generatePFImageID t imageID\<rparr>
                in if imageID \<in> set (ItImageIDs t) \<and> inRepo then proceed w WIdle (call_back info None s)
                   else (case (mget (IhUrls s) (handle_id t cfg), inRepo) of
                           (Some url, True) \<Rightarrow> proceed w WIdle (call_back (info\<lparr>IiUrl := url\<rparr>) None s)
                         | _ \<Rightarrow> proceed w (WImage t cfg) s)))"

text \<open>\<open>processImage\<close> from \<open>LoadOrStore\<close> on: it makes a channel in any case; a failed type assertion panics.\<close>

definition image_LoadOrStore :: "nat \<Rightarrow> image_task \<Rightarrow> image_config \<Rightarrow> image_handler \<Rightarrow> image_handler" where
  "image_LoadOrStore w t cfg s =
     (let new = NewUnboundedChan (length (IhChans s));
          s1 = s\<lparr>IhChans := IhChans s @ [\<lparr>ChClosed = False, ChItems = []\<rparr>]\<rparr>
      in case mget (IhInfo s1) (handle_id t cfg) of
           Some old \<Rightarrow>
             (case assert_UnboundedChan old of None \<Rightarrow> crash s1 | Some c \<Rightarrow> proceed w (WSend c t) s1)
         | None \<Rightarrow>
             (let s2 = s1\<lparr>IhInfo := mput (handle_id t cfg) new (IhInfo s1)\<rparr>
              in case assert_UnboundedChan new of None \<Rightarrow> crash s2 | Some c \<Rightarrow> proceed w (WOwn (length (IhChans s)) t cfg) s2))"

definition chan_push :: "nat \<Rightarrow> image_task \<Rightarrow> image_handler \<Rightarrow> image_handler" where
  "chan_push c t s = s\<lparr>IhChans := (IhChans s)[c := (IhChans s ! c)\<lparr>ChItems := ChItems (IhChans s ! c) @ [t]\<rparr>]\<rparr>"

definition image_send :: "nat \<Rightarrow> nat \<Rightarrow> image_task \<Rightarrow> image_handler \<Rightarrow> image_handler" where
  "image_send w c t s =
     (if ChClosed (IhChans s ! c) then proceed w (WTask t) s else proceed w WIdle (chan_push c t s))"

definition image_own :: "nat \<Rightarrow> nat \<Rightarrow> image_task \<Rightarrow> image_config \<Rightarrow> image_handler \<Rightarrow> image_handler" where
  "image_own w c t cfg s =
     (if ChClosed (IhChans s ! c) then crash s else proceed w (WBuild t cfg) (chan_push c t s))"

definition image_build :: "ih_env \<Rightarrow> ih_answers \<Rightarrow> nat \<Rightarrow> image_task \<Rightarrow> image_config \<Rightarrow> image_handler \<Rightarrow> image_handler" where
  "image_build e a w t cfg s =
     (let imageID = take 64 (IcConfig cfg)
      in case loadAndTagImage e a (IhStopped s) t imageID of
           (url, Some err) \<Rightarrow> proceed w (WExec (handle_id t cfg) imageID url (Some err)) s
         | (url, None) \<Rightarrow> proceed w (WPush (handle_id t cfg) imageID url (generateRemoveTags a cfg @ [url])) s)"

text \<open>\<open>ExecCBAndRemoveHandleID\<close>: the entry goes, then the channel is closed and emptied.\<close>

definition image_exec :: "nat \<Rightarrow> string \<Rightarrow> string \<Rightarrow> string \<Rightarrow> string option \<Rightarrow> image_handler \<Rightarrow> image_handler" where
  "image_exec w handleID imageID url err s =
     (case mget (IhInfo s) handleID of
        None \<Rightarrow> proceed w WIdle s
      | Some v \<Rightarrow>
          (let s1 = s\<lparr>IhInfo := mdel handleID (IhInfo s)\<rparr>
           in case assert_UnboundedChan v of
                None \<Rightarrow> crash s1
              | Some c \<Rightarrow>
                  proceed w (WDrain c imageID url err) (s1\<lparr>IhChans := (IhChans s)[c := (IhChans s ! c)\<lparr>ChClosed := True\<rparr>]\<rparr>)))"

definition image_drain :: "nat \<Rightarrow> nat \<Rightarrow> string \<Rightarrow> string \<Rightarrow> string option \<Rightarrow> image_handler \<Rightarrow> image_handler" where
  "image_drain w c imageID url err s =
     (if IhStopped s then proceed w WIdle s
      else case ChItems (IhChans s ! c) of
             [] \<Rightarrow> proceed w WIdle s
           | t # ts \<Rightarrow>
               call_back ((task_info t)\<lparr>IiImageID := imageID, IiUrl := url, IiUrlUpdated := True, IiPFImageID := generatePFImageID t imageID\<rparr>) err
                 (s\<lparr>IhChans := (IhChans s)[c := (IhChans s ! c)\<lparr>ChItems := ts\<rparr>]\<rparr>))"

definition worker_step :: "ih_env \<Rightarrow> ih_answers \<Rightarrow> nat \<Rightarrow> image_handler \<Rightarrow> image_handler option" where
  "worker_step e a w s =
     (case IhWorkers s ! w of
        WIdle \<Rightarrow> Some (proceed w (if IhStopped s then WDone else WRecv) s)
      | WRecv \<Rightarrow> process_receive w s
      | WTask t \<Rightarrow> Some (proceed w (if IhStopped s then WIdle else WConf t) s)
      | WConf t \<Rightarrow> Some (processHandleInfo e a w t s)
      | WImage t cfg \<Rightarrow> Some (proceed w (if IhStopped s then WIdle else WStore t cfg) s)
      | WStore t cfg \<Rightarrow> Some (image_LoadOrStore w t cfg s)
      | WSend c t \<Rightarrow> Some (image_send w c t s)
      | WOwn c t cfg \<Rightarrow> Some (image_own w c t cfg s)
      | WBuild t cfg \<Rightarrow> Some (image_build e a w t cfg s)
      | WPush hid iid url tags \<Rightarrow>
          Some (case pushImage e a (IhStopped s) of
                  Some err \<Rightarrow> proceed w (WExec hid iid url (Some err)) s
                | None \<Rightarrow> proceed w (WPushed hid iid url tags) s)
      | WPushed hid iid url tags \<Rightarrow> Some (proceed w (WRemove hid iid url tags) (s\<lparr>IhUrls := mput hid url (IhUrls s)\<rparr>))
      | WRemove hid iid url tags \<Rightarrow> Some (proceed w (WExec hid iid url None) (RemoveImage e tags s))
      | WExec hid iid url err \<Rightarrow> Some (image_exec w hid iid url err s)
      | WDrain c iid url err \<Rightarrow> Some (image_drain w c iid url err s)
      | WDone \<Rightarrow> None)"

datatype ih_act =
    IhSubmit image_task
  | IhStop
  | IhWork nat ih_answers

definition ih_step :: "ih_env \<Rightarrow> ih_act \<Rightarrow> image_handler \<Rightarrow> image_handler option" where
  "ih_step e ia s =
     (if IhCrashed s then None
      else case ia of
             IhSubmit t \<Rightarrow> Some (submit_image t s)
           | IhStop \<Rightarrow> Some (image_Stop s)
           | IhWork w a \<Rightarrow> if w < length (IhWorkers s) then worker_step e a w s else None)"

section \<open>Before the channels\<close>

text \<open>The tasks in the hands of a goroutine, and the places a goroutine reaches as long as no assertion has panicked.\<close>

fun pc_tasks :: "worker_pc \<Rightarrow> image_task list" where
  "pc_tasks (WTask t) = [t]"
| "pc_tasks (WConf t) = [t]"
| "pc_tasks (WImage t cfg) = [t]"
| "pc_tasks (WStore t cfg) = [t]"
| "pc_tasks (WSend c t) = [t]"
| "pc_tasks (WOwn c t cfg) = [t]"
| "pc_tasks _ = []"

fun early :: "worker_pc \<Rightarrow> bool" where
  "early WIdle = True"
| "early WRecv = True"
| "early (WTask t) = True"
| "early (WConf t) = True"
| "early (WImage t cfg) = True"
| "early (WStore t cfg) = True"
| "early WDone = True"
| "early _ = False"

definition imageless :: "image_handler \<Rightarrow> bool" where
  "imageless s \<longleftrightarrow> IhUrls s = [] \<and> list_all early (IhWorkers s) \<and>
     list_all (\<lambda>(info, err). \<not> IiUrlUpdated info \<and> IiUrl info = '''') (IhCbs s)"

lemma early_update: "list_all early W \<Longrightarrow> early pc \<Longrightarrow> list_all early (W[w := pc])"
  unfolding list_all_iff by (auto dest!: set_update_subset_insert [THEN subsetD])

lemma proceed_simps [simp]:
  "IhQueue (proceed w pc s) = IhQueue s" "IhStopped (proceed w pc s) = IhStopped s" "IhCrashed (proceed w pc s) = IhCrashed s"
  "IhChans (proceed w pc s) = IhChans s" "IhInfo (proceed w pc s) = IhInfo s" "IhUrls (proceed w pc s) = IhUrls s"
  "IhCbs (proceed w pc s) = IhCbs s" "IhWorkers (proceed w pc s) = (IhWorkers s)[w := pc]"
  by (simp_all add: proceed_def)

lemma call_back_simps [simp]:
  "IhQueue (call_back i err s) = IhQueue s" "IhStopped (call_back i err s) = IhStopped s" "IhCrashed (call_back i err s) = IhCrashed s"
  "IhChans (call_back i err s) = IhChans s" "IhInfo (call_back i err s) = IhInfo s" "IhUrls (call_back i err s) = IhUrls s"
  "IhCbs (call_back i err s) = IhCbs s @ [(i, err)]" "IhWorkers (call_back i err s) = IhWorkers s"
  by (simp_all add: call_back_def)

lemma crash_simps [simp]:
  "IhCrashed (crash s)" "IhCbs (crash s) = IhCbs s" "IhWorkers (crash s) = IhWorkers s" "IhQueue (crash s) = IhQueue s"
  "IhChans (crash s) = IhChans s" "IhStopped (crash s) = IhStopped s"
  by (simp_all add: crash_def)

lemma chan_push_simps [simp]:
  "IhQueue (chan_push c t s) = IhQueue s" "IhStopped (chan_push c t s) = IhStopped s" "IhCrashed (chan_push c t s) = IhCrashed s"
  "IhChans (chan_push c t s) = (IhChans s)[c := (IhChans s ! c)\<lparr>ChItems := ChItems (IhChans s ! c) @ [t]\<rparr>]"
  "IhInfo (chan_push c t s) = IhInfo s" "IhUrls (chan_push c t s) = IhUrls s"
  "IhCbs (chan_push c t s) = IhCbs s" "IhWorkers (chan_push c t s) = IhWorkers s"
  by (simp_all add: chan_push_def)

lemma RemoveImage_simps [simp]:
  "IhQueue (RemoveImage e tags s) = IhQueue s" "IhStopped (RemoveImage e tags s) = IhStopped s"
  "IhCrashed (RemoveImage e tags s) = IhCrashed s" "IhChans (RemoveImage e tags s) = IhChans s" "IhInfo (RemoveImage e tags s) = IhInfo s"
  "IhCbs (RemoveImage e tags s) = IhCbs s" "IhWorkers (RemoveImage e tags s) = IhWorkers s" "IhUrls (RemoveImage e tags s) = IhUrls s"
  by (simp_all add: RemoveImage_def)

text \<open>The handler of the run service hands a task over as this one takes it.\<close>

lemma HandleTarImage_is_submit:
  assumes "IhStopped h = rsImgStopped s" and "IhQueue h = rsTasks s" and "IhCbs h = rsCbs s"
  shows "rsTasks (HandleTarImage t s) = IhQueue (submit_image t h)" and "rsCbs (HandleTarImage t s) = IhCbs (submit_image t h)"
  using assms by (simp_all add: HandleTarImage_def submit_image_def call_back_def task_info_def)

lemma submit_image_simps [simp]:
  "IhStopped (submit_image t s) = IhStopped s" "IhCrashed (submit_image t s) = IhCrashed s" "IhInfo (submit_image t s) = IhInfo s"
  "IhWorkers (submit_image t s) = IhWorkers s"
  by (simp_all add: submit_image_def)

lemma task_info_url [simp]: "IiUrl (task_info t) = ''''" "\<not> IiUrlUpdated (task_info t)"
  by (simp_all add: task_info_def blank_info_def)

lemma imageless_proceed: "imageless s \<Longrightarrow> early pc \<Longrightarrow> imageless (proceed w pc s)"
  by (simp add: imageless_def early_update)

lemma imageless_crash: "imageless s \<Longrightarrow> imageless (crash s)"
  by (simp add: imageless_def crash_def)

lemma imageless_call_back: "imageless s \<Longrightarrow> IiUrl i = '''' \<Longrightarrow> \<not> IiUrlUpdated i \<Longrightarrow> imageless (call_back i err s)"
  by (simp add: imageless_def)

lemmas imageless_moves = imageless_proceed imageless_crash imageless_call_back

lemma store_crashes: "mget (IhInfo s) (handle_id t cfg) = None \<Longrightarrow> IhCrashed (image_LoadOrStore w t cfg s)"
  by (simp add: image_LoadOrStore_def Let_def NewUnboundedChan_def)

text \<open>As long as the process lives, nothing is in \<open>handleInfoMap\<close>: the goroutine that stores something panics.\<close>

definition storeless :: "image_handler \<Rightarrow> bool" where
  "storeless s \<longleftrightarrow> imageless s \<and> (IhCrashed s \<or> IhInfo s = [])"

lemma storeless_proceed: "storeless s \<Longrightarrow> early pc \<Longrightarrow> storeless (proceed w pc s)"
  by (simp add: storeless_def imageless_proceed)

lemma storeless_crash: "imageless s \<Longrightarrow> storeless (crash s)"
  by (simp add: storeless_def imageless_crash)

lemma storeless_call_back: "storeless s \<Longrightarrow> IiUrl i = '''' \<Longrightarrow> \<not> IiUrlUpdated i \<Longrightarrow> storeless (call_back i err s)"
  by (simp add: storeless_def imageless_call_back)

lemma storeless_imageless: "storeless s \<Longrightarrow> imageless s"
  by (simp add: storeless_def)

lemmas storeless_moves = storeless_proceed storeless_crash storeless_call_back storeless_imageless

lemma storeless_worker_step:
  assumes ni: "storeless s" and alive: "\<not> IhCrashed s" and w: "w < length (IhWorkers s)" and step: "worker_step e a w s = Some s'"
  shows "storeless s'"
proof -
  have i: "imageless s" "IhInfo s = []" using ni alive by (simp_all add: storeless_def)
  have u: "mget (IhUrls s) h = None" for h using i(1) by (simp add: imageless_def)
  have e: "early (IhWorkers s ! w)" using i(1) w by (simp add: imageless_def list_all_length)
  have "storeless (processHandleInfo e a w t s)" for t
    unfolding processHandleInfo_def Let_def u by (simp add: ni storeless_moves split: sum.split)
  moreover have "storeless (image_LoadOrStore w t cfg s)" for t cfg
  proof -
    have "imageless (s\<lparr>IhChans := C, IhInfo := I\<rparr>)" for C I using i(1) by (simp add: imageless_def)
    then show ?thesis using i(2) by (simp add: image_LoadOrStore_def Let_def NewUnboundedChan_def storeless_crash)
  qed
  moreover have "storeless s1" if "process_receive w s = Some s1" for s1
  proof -
    have "storeless (s\<lparr>IhQueue := q\<rparr>)" for q using ni by (simp add: storeless_def imageless_def)
    then show ?thesis using that ni by (auto simp: process_receive_def storeless_moves split: list.splits if_splits)
  qed
  ultimately show ?thesis using e step ni by (cases "IhWorkers s ! w") (auto simp: worker_step_def storeless_moves)
qed

lemma storeless_ih_step:
  assumes "storeless s" and "ih_step e ia s = Some s'"
  shows "storeless s'"
proof (cases ia)
  case (IhSubmit t)
  have "storeless (s\<lparr>IhQueue := q\<rparr>)" for q using assms(1) by (simp add: storeless_def imageless_def)
  then show ?thesis using assms IhSubmit by (auto simp: ih_step_def submit_image_def storeless_moves split: if_splits)
next
  case IhStop
  have "storeless (s\<lparr>IhStopped := True\<rparr>)" using assms(1) by (simp add: storeless_def imageless_def)
  then show ?thesis using assms IhStop by (auto simp: ih_step_def image_Stop_def storeless_moves split: if_splits)
next
  case (IhWork w a)
  then show ?thesis
    using assms(2) storeless_worker_step [OF assms(1), of w e a s'] by (auto simp: ih_step_def split: if_splits)
qed

lemma storeless_init: "storeless (InitPFImageHandler n)"
  by (simp add: storeless_def imageless_def InitPFImageHandler_def list_all_iff)

interpretation image_pool: step_machine "ih_step e" "\<lambda>_. True" storeless for e
  by unfold_locales (rule storeless_ih_step)

lemma storeless_run: "run_acts (ih_step e) as s = Some s' \<Longrightarrow> storeless s \<Longrightarrow> storeless s'"
  by (rule image_pool.acts_inv) (simp_all add: list_all_iff)

section \<open>Where a task is\<close>

definition task_key :: "image_task \<Rightarrow> string \<times> string \<times> string" where
  "task_key t = (ItRunID t, ItFsID t, ItDockerEnv t)"

definition cb_key :: "image_info \<times> string option \<Rightarrow> string \<times> string \<times> string" where
  "cb_key = (\<lambda>(info, err). (IiRunID info, IiFsID info, IiSource info))"

lemma task_info_key [simp]:
  "cb_key (task_info t, err) = task_key t"
  "cb_key ((task_info t)\<lparr>IiImageID := i, IiPFImageID := p\<rparr>, err) = task_key t"
  "cb_key ((task_info t)\<lparr>IiImageID := i, IiPFImageID := p, IiUrl := u\<rparr>, err) = task_key t"
  by (simp_all add: cb_key_def task_key_def task_info_def blank_info_def)

definition held :: "worker_pc list \<Rightarrow> (string \<times> string \<times> string) multiset" where
  "held W = sum_list (map (\<lambda>pc. mset (map task_key (pc_tasks pc))) W)"

definition balance :: "image_handler \<Rightarrow> (string \<times> string \<times> string) multiset" where
  "balance s = mset (map task_key (IhQueue s)) + held (IhWorkers s) + mset (map cb_key (IhCbs s))"

lemma sum_list_swap:
  fixes g :: "'a \<Rightarrow> 'b::comm_monoid_add"
  assumes "w < length xs"
  shows "sum_list (map g (xs[w := x])) + g (xs ! w) = sum_list (map g xs) + g x"
  using assms by (induction xs arbitrary: w) (auto simp: ac_simps split: nat.splits)

lemma sum_list_none: "(\<And>x. x \<in> set xs \<Longrightarrow> g x = {#}) \<Longrightarrow> sum_list (map g xs) = {#}"
  by (induction xs) simp_all

lemma held_swap: "w < length W \<Longrightarrow> held (W[w := pc]) + mset (map task_key (pc_tasks (W ! w))) = held W + mset (map task_key (pc_tasks pc))"
  unfolding held_def by (rule sum_list_swap)

lemma held_same: "w < length W \<Longrightarrow> pc_tasks pc = pc_tasks (W ! w) \<Longrightarrow> held (W[w := pc]) = held W"
  using held_swap [of w W pc] by simp

lemma held_take: "w < length W \<Longrightarrow> pc_tasks pc = [t] \<Longrightarrow> pc_tasks (W ! w) = [] \<Longrightarrow> held (W[w := pc]) = add_mset (task_key t) (held W)"
  using held_swap [of w W pc] by simp

lemma held_drop: "w < length W \<Longrightarrow> pc_tasks pc = [] \<Longrightarrow> pc_tasks (W ! w) = [t] \<Longrightarrow> held W = add_mset (task_key t) (held (W[w := pc]))"
  using held_swap [of w W pc] by simp

text \<open>A step moves at most one task, to a callback too; only a stopped handler loses one.\<close>

definition kept_or_lost :: "image_handler \<Rightarrow> image_handler \<Rightarrow> bool" where
  "kept_or_lost s s' \<longleftrightarrow> balance s' = balance s \<or> IhStopped s \<and> (\<exists>k. balance s = add_mset k (balance s'))"

lemma balance_crash [simp]: "balance (crash s) = balance s"
  by (simp add: balance_def crash_def)

lemma balance_proceed:
  "w < length (IhWorkers s) \<Longrightarrow> pc_tasks pc = pc_tasks (IhWorkers s ! w) \<Longrightarrow> balance (proceed w pc s) = balance s"
  by (simp add: balance_def held_same)

lemma balance_answer:
  assumes "w < length (IhWorkers s)" and "pc_tasks (IhWorkers s ! w) = [t]" and "cb_key (i, err) = task_key t"
  shows "balance (proceed w WIdle (call_back i err s)) = balance s"
  using held_drop [OF assms(1) _ assms(2), of WIdle] assms(3) by (simp add: balance_def)

lemma balance_lost:
  assumes "w < length (IhWorkers s)" and "pc_tasks (IhWorkers s ! w) = [t]" and "IhStopped s"
  shows "kept_or_lost s (proceed w WIdle s)"
  using held_drop [OF assms(1) _ assms(2), of WIdle] assms(3)
  unfolding kept_or_lost_def by (intro disjI2 conjI exI [of _ "task_key t"]) (simp_all add: balance_def)

lemma processHandleInfo_balance:
  assumes "w < length (IhWorkers s)" and "IhWorkers s ! w = WConf t"
  shows "balance (processHandleInfo e a w t s) = balance s"
proof -
  have h: "pc_tasks (IhWorkers s ! w) = [t]" by (simp add: assms(2))
  have "balance (proceed w (WImage t cfg) s) = balance s" for cfg by (rule balance_proceed [OF assms(1)]) (simp add: h)
  then show ?thesis
    unfolding processHandleInfo_def Let_def
    by (simp add: balance_answer [OF assms(1) h] split: sum.split option.split bool.split)
qed

lemma worker_step_balance:
  assumes ok: "storeless s" "\<not> IhCrashed s" and w: "w < length (IhWorkers s)" and step: "worker_step e a w s = Some s'"
  shows "kept_or_lost s s'"
proof -
  note move = balance_proceed [OF w]
  have i: "early (IhWorkers s ! w)" "IhInfo s = []" using ok w by (simp_all add: storeless_def imageless_def list_all_length)
  have eq: "kept_or_lost s s'" if "balance s' = balance s" using that by (simp add: kept_or_lost_def)
  show ?thesis
  proof (cases "IhWorkers s ! w")
    case WIdle
    have "balance (proceed w (if IhStopped s then WDone else WRecv) s) = balance s" by (rule move) (simp add: WIdle)
    then show ?thesis using step eq by (simp add: worker_step_def WIdle)
  next
    case WRecv
    have "balance (proceed w (WTask t) (s\<lparr>IhQueue := ts\<rparr>)) = balance s" if "IhQueue s = t # ts" for t ts
      using held_take [OF w, of "WTask t" t] that by (simp add: balance_def WRecv)
    then show ?thesis using step eq by (auto simp: worker_step_def WRecv process_receive_def split: list.splits if_splits)
  next
    case (WTask t)
    have "balance (proceed w (WConf t) s) = balance s" by (rule move) (simp add: WTask)
    moreover have "kept_or_lost s (proceed w WIdle s)" if "IhStopped s" by (rule balance_lost [OF w _ that]) (simp add: WTask)
    ultimately show ?thesis using step eq by (auto simp: worker_step_def WTask)
  next
    case (WConf t)
    then show ?thesis using step eq processHandleInfo_balance [OF w WConf, of e a] by (simp add: worker_step_def)
  next
    case (WImage t cfg)
    have "balance (proceed w (WStore t cfg) s) = balance s" by (rule move) (simp add: WImage)
    moreover have "kept_or_lost s (proceed w WIdle s)" if "IhStopped s" by (rule balance_lost [OF w _ that]) (simp add: WImage)
    ultimately show ?thesis using step eq by (auto simp: worker_step_def WImage)
  next
    case (WStore t cfg)
    have "balance (image_LoadOrStore w t cfg s) = balance s"
      using i(2) by (simp add: image_LoadOrStore_def Let_def NewUnboundedChan_def) (simp add: balance_def)
    then show ?thesis using step eq by (simp add: worker_step_def WStore)
  qed (use i(1) step in \<open>simp_all add: worker_step_def\<close>)
qed

section \<open>Every task is called back once\<close>

definition tame :: "nat \<Rightarrow> image_handler \<Rightarrow> image_handler \<Rightarrow> bool" where
  "tame w s s' \<longleftrightarrow> IhStopped s' = IhStopped s \<and>
     (IhWorkers s' = IhWorkers s \<or> (\<exists>pc. IhWorkers s' = (IhWorkers s)[w := pc] \<and> (pc = WDone \<longrightarrow> IhStopped s)))"

lemma tame_stay: "IhStopped s' = IhStopped s \<Longrightarrow> IhWorkers s' = IhWorkers s \<Longrightarrow> tame w s s'"
  by (simp add: tame_def)

lemma tame_move: "IhStopped s' = IhStopped s \<Longrightarrow> IhWorkers s' = (IhWorkers s)[w := pc] \<Longrightarrow> pc \<noteq> WDone \<or> IhStopped s \<Longrightarrow> tame w s s'"
  unfolding tame_def by (intro conjI disjI2 exI [of _ pc]) simp_all

lemma tame_proceed: "IhStopped s' = IhStopped s \<Longrightarrow> IhWorkers s' = IhWorkers s \<Longrightarrow> pc \<noteq> WDone \<or> IhStopped s \<Longrightarrow> tame w s (proceed w pc s')"
  by (rule tame_move [of _ _ _ pc]) simp_all

lemma tame_crash: "IhStopped s' = IhStopped s \<Longrightarrow> IhWorkers s' = IhWorkers s \<Longrightarrow> tame w s (crash s')"
  by (rule tame_stay) simp_all

lemma worker_step_tame:
  assumes "worker_step e a w s = Some s'"
  shows "tame w s s'"
proof -
  have go: "tame w s (proceed w pc s)" if "pc \<noteq> WDone \<or> IhStopped s" for pc by (rule tame_proceed) (use that in simp_all)
  have "tame w s (processHandleInfo e a w t s)" for t
    unfolding processHandleInfo_def Let_def
    by (simp add: tame_proceed tame_crash split: sum.split option.split bool.split)
  moreover have "tame w s (image_LoadOrStore w t cfg s)" for t cfg
    by (simp add: image_LoadOrStore_def Let_def tame_proceed tame_crash split: option.split)
  moreover have "tame w s (image_send w c t s)" for c t by (simp add: image_send_def tame_proceed)
  moreover have "tame w s (image_own w c t cfg s)" for c t cfg by (simp add: image_own_def tame_proceed tame_crash)
  moreover have "tame w s (image_build e a w t cfg s)" for t cfg
    by (simp add: image_build_def Let_def tame_proceed split: prod.split option.split)
  moreover have "tame w s (image_exec w hid iid url err s)" for hid iid url err
    by (simp add: image_exec_def Let_def tame_proceed tame_crash split: option.split)
  moreover have "tame w s (image_drain w c iid url err s)" for c iid url err
    by (simp add: image_drain_def tame_proceed tame_stay split: list.split)
  moreover have "tame w s s1" if "process_receive w s = Some s1" for s1
    using that by (auto simp: process_receive_def tame_proceed tame_crash split: list.splits if_splits)
  ultimately show ?thesis
    using assms by (cases "IhWorkers s ! w") (auto simp: worker_step_def tame_proceed split: option.splits)
qed

fun submitted :: "ih_act list \<Rightarrow> (string \<times> string \<times> string) list" where
  "submitted [] = []"
| "submitted (IhSubmit t # as) = task_key t # submitted as"
| "submitted (IhStop # as) = submitted as"
| "submitted (IhWork w a # as) = submitted as"

text \<open>As long as nobody stops the pool.\<close>

definition pool_runs :: "image_handler \<Rightarrow> bool" where
  "pool_runs s \<longleftrightarrow> \<not> IhStopped s \<and> IhWorkers s \<noteq> [] \<and> WDone \<notin> set (IhWorkers s)"

lemma tame_runs: "tame w s s' \<Longrightarrow> pool_runs s \<Longrightarrow> pool_runs s'"
  unfolding tame_def pool_runs_def by (auto simp: eq_commute [of "[]"] dest!: set_update_subset_insert [THEN subsetD])

lemma pool_runs_init: "pool_runs (InitPFImageHandler n)"
  by (auto simp: pool_runs_def InitPFImageHandler_def defaultConcurrency_def)

lemma kept_or_lost_less: "kept_or_lost s s' \<Longrightarrow> balance s' \<subseteq># balance s"
  by (auto simp: kept_or_lost_def)

lemma ih_step_alive: "ih_step e ia s = Some s' \<Longrightarrow> \<not> IhCrashed s"
  by (auto simp: ih_step_def split: if_splits)

lemma ih_step_balance:
  assumes ok: "storeless s" and step: "ih_step e ia s = Some s'"
  shows "balance s' \<subseteq># balance s + mset (submitted [ia])" and "ia \<noteq> IhStop \<Longrightarrow> pool_runs s \<Longrightarrow> pool_runs s'"
    and "\<not> IhStopped s \<Longrightarrow> balance s' = balance s + mset (submitted [ia])"
proof -
  consider (sub) t where "ia = IhSubmit t" "s' = submit_image t s" | (halt) "ia = IhStop" "s' = image_Stop s"
    | (work) w a where "ia = IhWork w a" "w < length (IhWorkers s)" "worker_step e a w s = Some s'"
    using step by (cases ia) (auto simp: ih_step_def split: if_splits)
  then have "balance s' \<subseteq># balance s + mset (submitted [ia]) \<and> (ia \<noteq> IhStop \<longrightarrow> pool_runs s \<longrightarrow> pool_runs s') \<and>
    (\<not> IhStopped s \<longrightarrow> balance s' = balance s + mset (submitted [ia]))"
  proof cases
    case sub
    then show ?thesis by (simp add: submit_image_def balance_def pool_runs_def)
  next
    case halt
    have "balance (image_Stop s) = balance s" by (simp add: image_Stop_def balance_def)
    then show ?thesis using halt by simp
  next
    case work
    have k: "kept_or_lost s s'" by (rule worker_step_balance [OF ok ih_step_alive [OF step] work(2,3)])
    show ?thesis using kept_or_lost_less [OF k] k tame_runs [OF worker_step_tame [OF work(3)]] work(1) by (auto simp: kept_or_lost_def)
  qed
  then show "balance s' \<subseteq># balance s + mset (submitted [ia])" and "ia \<noteq> IhStop \<Longrightarrow> pool_runs s \<Longrightarrow> pool_runs s'"
    and "\<not> IhStopped s \<Longrightarrow> balance s' = balance s + mset (submitted [ia])" by blast+
qed

lemma submitted_Cons: "mset (submitted (ia # as)) = mset (submitted [ia]) + mset (submitted as)"
  by (cases ia) simp_all

lemma run_balance_less:
  assumes "run_acts (ih_step e) as s = Some s'" and "storeless s"
  shows "balance s' \<subseteq># balance s + mset (submitted as)"
  using assms
proof (induction as arbitrary: s)
  case (Cons ia as)
  obtain s1 where s1: "ih_step e ia s = Some s1" "run_acts (ih_step e) as s1 = Some s'" using Cons.prems(1) by (auto split: option.splits)
  have "balance s' \<subseteq># balance s1 + mset (submitted as)" by (rule Cons.IH [OF s1(2) storeless_ih_step [OF Cons.prems(2) s1(1)]])
  also have "\<dots> \<subseteq># balance s + mset (submitted [ia]) + mset (submitted as)" using ih_step_balance(1) [OF Cons.prems(2) s1(1)] by simp
  finally show ?case by (simp add: submitted_Cons [of ia as] add.assoc)
qed simp

lemma run_balance:
  assumes "run_acts (ih_step e) as s = Some s'" and "storeless s" and "pool_runs s" and "IhStop \<notin> set as"
  shows "balance s' = balance s + mset (submitted as) \<and> pool_runs s'"
  using assms
proof (induction as arbitrary: s)
  case (Cons ia as)
  obtain s1 where s1: "ih_step e ia s = Some s1" "run_acts (ih_step e) as s1 = Some s'" using Cons.prems(1) by (auto split: option.splits)
  have r: "pool_runs s1" using ih_step_balance(2) [OF Cons.prems(2) s1(1)] Cons.prems(3,4) by auto
  have "\<not> IhStopped s" using Cons.prems(3) by (simp add: pool_runs_def)
  then have b: "balance s1 = balance s + mset (submitted [ia])" by (rule ih_step_balance(3) [OF Cons.prems(2) s1(1)])
  have "balance s' = balance s1 + mset (submitted as) \<and> pool_runs s'"
    by (rule Cons.IH [OF s1(2) storeless_ih_step [OF Cons.prems(2) s1(1)] r]) (use Cons.prems(4) in simp)
  then show ?case using b by (simp add: submitted_Cons [of ia as] add.assoc)
qed simp

lemma worker_waits:
  assumes "worker_step e a w s = None" and "IhWorkers s ! w \<noteq> WDone"
  shows "IhWorkers s ! w = WRecv" and "IhQueue s = []"
  using assms by (cases "IhWorkers s ! w"; auto simp: worker_step_def process_receive_def split: list.splits if_splits)+

text \<open>When no goroutine can move, nothing is under way.\<close>

lemma quiet_balance:
  assumes runs: "pool_runs s" and quiet: "\<And>w a. ih_step e (IhWork w a) s = None" and "\<not> IhCrashed s"
  shows "balance s = mset (map cb_key (IhCbs s))"
proof -
  have none: "worker_step e a w s = None" if "w < length (IhWorkers s)" for w a
    using quiet [of w a] assms(3) that by (simp add: ih_step_def)
  have nd: "IhWorkers s ! w \<noteq> WDone" if "w < length (IhWorkers s)" for w
    using runs nth_mem [OF that] by (auto simp: pool_runs_def)
  have recv: "IhWorkers s ! w = WRecv" if "w < length (IhWorkers s)" for w
    by (rule worker_waits(1) [OF none [OF that] nd [OF that]])
  have "0 < length (IhWorkers s)" using runs by (simp add: pool_runs_def)
  from worker_waits(2) [OF none [OF this] nd [OF this]] have q: "IhQueue s = []" .
  have "held (IhWorkers s) = {#}" using recv unfolding held_def by (intro sum_list_none) (auto simp: in_set_conv_nth)
  then show ?thesis using q by (simp add: balance_def)
qed

lemma balance_init: "balance (InitPFImageHandler n) = {#}"
proof -
  have "held (IhWorkers (InitPFImageHandler n)) = {#}" unfolding held_def by (rule sum_list_none) (auto simp: InitPFImageHandler_def)
  then show ?thesis by (simp add: balance_def InitPFImageHandler_def)
qed

text \<open>
  C15: Whatever the interleaving of the pool, no task is called back more often than it was handed over. While nobody stops the
  pool and no goroutine has panicked, a state in which no goroutine can take a step has called every task back exactly once. (By
  the next property a task whose image has to be loaded makes its goroutine panic; the tasks called back are those that fail
  before or whose image is known.)\<close>

theorem tasks_called_back_once:
  assumes "run_acts (ih_step e) as (InitPFImageHandler n) = Some s"
  shows "mset (map cb_key (IhCbs s)) \<subseteq># mset (submitted as) \<and>
    (IhStop \<notin> set as \<longrightarrow> \<not> IhCrashed s \<longrightarrow> (\<forall>w a. ih_step e (IhWork w a) s = None) \<longrightarrow>
       mset (map cb_key (IhCbs s)) = mset (submitted as))"
proof -
  have "mset (map cb_key (IhCbs s)) \<subseteq># balance s" by (simp add: balance_def)
  also have "\<dots> \<subseteq># mset (submitted as)" using run_balance_less [OF assms storeless_init] by (simp add: balance_init)
  finally have le: "mset (map cb_key (IhCbs s)) \<subseteq># mset (submitted as)" .
  have eq: "mset (map cb_key (IhCbs s)) = mset (submitted as)"
    if live: "IhStop \<notin> set as" "\<not> IhCrashed s" and quiet: "\<And>w a. ih_step e (IhWork w a) s = None"
  proof -
    have r: "balance s = mset (submitted as)" "pool_runs s"
      using run_balance [OF assms storeless_init pool_runs_init live(1)] by (simp_all add: balance_init)
    show ?thesis using quiet_balance [OF r(2) quiet live(2)] r(1) by simp
  qed
  show ?thesis using le eq by blast
qed

section \<open>The assertion on the type of the channel\<close>

text \<open>
  C17: The constructor of the channels returns a pointer, but the type assertion after \<open>LoadOrStore\<close> names the channel type
  itself. So a goroutine that reaches it panics and ends the process, no image is ever loaded, and every callback there is
  reports an error or an image that was known before.\<close>

theorem store_assertion_panics:
  assumes run: "run_acts (ih_step e) as (InitPFImageHandler n) = Some s"
  shows "IhUrls s = [] \<and> list_all (\<lambda>(info, err). \<not> IiUrlUpdated info \<and> IiUrl info = '''') (IhCbs s) \<and>
    (\<forall>w a t cfg. \<not> IhCrashed s \<longrightarrow> w < length (IhWorkers s) \<longrightarrow> IhWorkers s ! w = WStore t cfg \<longrightarrow>
       (\<exists>s'. ih_step e (IhWork w a) s = Some s' \<and> IhCrashed s'))"
proof -
  have st: "storeless s" by (rule storeless_run [OF run storeless_init])
  have "\<exists>s'. ih_step e (IhWork w a) s = Some s' \<and> IhCrashed s'"
    if "\<not> IhCrashed s" "w < length (IhWorkers s)" "IhWorkers s ! w = WStore t cfg" for w a t cfg
    using that st store_crashes [of s t cfg w] by (simp add: ih_step_def worker_step_def storeless_def)
  then show ?thesis using st unfolding storeless_def imageless_def by blast
qed

section \<open>Example runs\<close>

text \<open>A pool of two: the archive of the first task cannot be opened, the image of the second one is known already.\<close>

definition demo_pool_env :: ih_env where
  "demo_pool_env =
     \<lparr>IeRepo = ''repo'', IeRemoveLocal = True,
      IeDecode = (\<lambda>_. Inr [\<lparr>IcConfig = replicate 64 (CHR ''a''), IcRepoTags = [''old'']\<rparr>])\<rparr>"

definition demo_pool_answers :: ih_answers where
  "demo_pool_answers =
     \<lparr>IaClient = None, IaOpen = None, IaEntries = [(''layer'', Inr ''''), (''manifest.json'', Inr ''m'')], IaEnd = ''EOF'',
      IaImages = Inr [], IaLoad = Inr ''loaded'', IaTag = None, IaPush = Inr ''pushed'', IaNow = 1700000000000000000\<rparr>"

definition demo_image_task :: "string \<Rightarrow> string list \<Rightarrow> image_task" where
  "demo_image_task run ids = \<lparr>ItRunID = run, ItFsID = ''fs-a'', ItDockerEnv = ''img.tar'', ItImageIDs = ids\<rparr>"

definition demo_pool_acts :: "ih_act list" where
  "demo_pool_acts =
     [IhSubmit (demo_image_task ''run-1'' []), IhSubmit (demo_image_task ''run-2'' [replicate 64 (CHR ''a'')])] @
     replicate 2 (IhWork 0 demo_pool_answers) @ replicate 4 (IhWork 1 demo_pool_answers) @ [IhWork 0 demo_pool_answers] @
     [IhWork 0 (demo_pool_answers\<lparr>IaOpen := Some ''no such file''\<rparr>), IhWork 1 demo_pool_answers, IhWork 0 demo_pool_answers]"

definition demo_pool_done :: image_handler where
  "demo_pool_done = the (run_acts (ih_step demo_pool_env) demo_pool_acts (InitPFImageHandler 2))"

lemma demo_pool_facts:
  "run_acts (ih_step demo_pool_env) demo_pool_acts (InitPFImageHandler 2) \<noteq> None" "\<not> IhCrashed demo_pool_done"
  "IhWorkers demo_pool_done = [WRecv, WRecv]" "IhQueue demo_pool_done = []" "\<not> IhStopped demo_pool_done"
  "submitted demo_pool_acts = [(''run-1'', ''fs-a'', ''img.tar''), (''run-2'', ''fs-a'', ''img.tar'')]"
  by code_simp+

lemma demo_pool_run: "run_acts (ih_step demo_pool_env) demo_pool_acts (InitPFImageHandler 2) = Some demo_pool_done"
  using demo_pool_facts(1) by (auto simp: demo_pool_done_def)

lemma tasks_called_back_once_witness:
  "mset (map cb_key (IhCbs demo_pool_done)) = {#(''run-1'', ''fs-a'', ''img.tar''), (''run-2'', ''fs-a'', ''img.tar'')#}"
proof -
  have "IhStop \<notin> set demo_pool_acts" by (simp add: demo_pool_acts_def)
  moreover have "ih_step demo_pool_env (IhWork w a) demo_pool_done = None" for w a
  proof -
    have "IhWorkers demo_pool_done ! w = WRecv" if "w < 2" using that demo_pool_facts(3) by (cases w) (simp_all add: less_Suc_eq)
    then show ?thesis
      using demo_pool_facts(3-5) by (simp add: ih_step_def worker_step_def process_receive_def)
  qed
  ultimately have "mset (map cb_key (IhCbs demo_pool_done)) = mset (submitted demo_pool_acts)"
    using tasks_called_back_once [OF demo_pool_run] demo_pool_facts(2) by blast
  then show ?thesis by (simp add: demo_pool_facts(6))
qed

text \<open>The image of a task has to be loaded.\<close>

definition demo_store_acts :: "ih_act list" where
  "demo_store_acts = IhSubmit (demo_image_task ''run-1'' []) # replicate 5 (IhWork 0 demo_pool_answers)"

definition demo_store_pool :: image_handler where
  "demo_store_pool = the (run_acts (ih_step demo_pool_env) demo_store_acts (InitPFImageHandler 1))"

lemma demo_store_facts:
  "run_acts (ih_step demo_pool_env) demo_store_acts (InitPFImageHandler 1) \<noteq> None" "\<not> IhCrashed demo_store_pool"
  "IhWorkers demo_store_pool =
     [WStore (demo_image_task ''run-1'' []) \<lparr>IcConfig = replicate 64 (CHR ''a''), IcRepoTags = [''old'']\<rparr>]"
  by code_simp+

lemma store_assertion_panics_witness:
  "\<exists>s'. ih_step demo_pool_env (IhWork 0 demo_pool_answers) demo_store_pool = Some s' \<and> IhCrashed s'"
proof -
  have run: "run_acts (ih_step demo_pool_env) demo_store_acts (InitPFImageHandler 1) = Some demo_store_pool"
    using demo_store_facts(1) by (auto simp: demo_store_pool_def)
  have w: "0 < length (IhWorkers demo_store_pool)"
    "IhWorkers demo_store_pool ! 0 = WStore (demo_image_task ''run-1'' []) \<lparr>IcConfig = replicate 64 (CHR ''a''), IcRepoTags = [''old'']\<rparr>"
    by (simp_all add: demo_store_facts(3))
  show ?thesis using store_assertion_panics [OF run] demo_store_facts(2) w by blast
qed

end
