(* ===== verification/PF_Cluster.thy ===== *)
theory PF_Cluster
  imports PF_Admin
begin

text \<open>
  Clusters: the table of \<open>models/cluster.go\<close>, its controller \<open>controller/cluster/cluster.go\<close> with the routes of
  \<open>router/v1/cluster.go\<close>, the cached Kubernetes clients, and the sums of \<open>controller/cluster/quota.go\<close>. The struct of a cluster, unlike
  those of the other tables, names no primary key: gorm takes the field \<open>ID\<close> for it, so \<open>First\<close> and \<open>Last\<close> go by the ID. What the
  schema of the data base adds is the environment: whether \<open>pk\<close> counts up by itself, and which rows clash.
\<close>

section \<open>Rows\<close>

record cluster_row =
  ClPk :: int
  ClID :: string
  ClName :: string
  ClDescription :: string
  ClEndpoint :: string
  ClSource :: string
  ClType :: string
  ClStatus :: string
  ClCredential :: string
  ClSetting :: string
  ClNamespaces :: "string list"
  ClCreatedAt :: timestamp
  ClUpdatedAt :: timestamp
  ClDeletedAt :: string

text \<open>\<open>CtScan\<close> are the keys that a listing without \<open>Order\<close> puts in front.\<close>

record cluster_table =
  CtRows :: "cluster_row list"
  CtLast :: int
  CtScan :: "int list"

text \<open>\<open>CeKeyed\<close>: gorm makes the key of the new values a condition of \<open>Updates\<close>. \<open>CeLess\<close> orders the IDs.\<close>

record cluster_env =
  CeAuto :: bool
  CeClash :: "cluster_row \<Rightarrow> cluster_row \<Rightarrow> bool"
  CeKeyed :: bool
  CeLess :: "string \<Rightarrow> string \<Rightarrow> bool"

datatype cluster_call =
    CcCreate
  | CcList
  | CcLast
  | CcGet
  | CcUpdate

type_synonym cluster_faults = "cluster_call \<Rightarrow> bool"

definition ClusterStatusOnLine :: string where "ClusterStatusOnLine = ''online''"
definition ClusterStatusOffLine :: string where "ClusterStatusOffLine = ''offline''"
definition DefaultClusterStatus :: string where "DefaultClusterStatus = ClusterStatusOnLine"
definition DefaultClusterSource :: string where "DefaultClusterSource = ''OnPremise''"

definition live_cluster :: "cluster_row \<Rightarrow> bool" where
  "live_cluster r = (ClDeletedAt r = '''')"

section \<open>The table\<close>

definition clash_free :: "cluster_env \<Rightarrow> cluster_row list \<Rightarrow> bool" where
  "clash_free e rows = sorted_wrt (\<lambda>a b. \<not> CeClash e a b) rows"

text \<open>The row with the least ID, in a given order.\<close>

fun by_key :: "(string \<Rightarrow> string \<Rightarrow> bool) \<Rightarrow> cluster_row list \<Rightarrow> cluster_row option" where
  "by_key lt [] = None"
| "by_key lt (r # rs) =
     (case by_key lt rs of None \<Rightarrow> Some r | Some m \<Rightarrow> Some (if lt (ClID m) (ClID r) then m else r))"

definition model_CreateCluster :: "cluster_env \<Rightarrow> cluster_faults \<Rightarrow> cluster_row \<Rightarrow> cluster_table \<Rightarrow> db_error + cluster_table" where
  "model_CreateCluster e flt c t =
     (if flt CcCreate then Inl DbFailure
      else bindE (if CeAuto e then next_pk (CtLast t) else Inr (ClPk c)) (\<lambda>pk.
             if list_ex (\<lambda>r. CeClash e r (c\<lparr>ClPk := pk\<rparr>)) (CtRows t) then Inl DuplicateKey
             else Inr (t\<lparr>CtRows := CtRows t @ [c\<lparr>ClPk := pk\<rparr>], CtLast := (if CeAuto e then pk else CtLast t)\<rparr>)))"

definition cluster_keep :: "string list \<Rightarrow> string \<Rightarrow> cluster_row \<Rightarrow> bool" where
  "cluster_keep clusterNameList clusterStatus r =
     ((clusterNameList = [] \<or> ClName r \<in> set clusterNameList) \<and> (clusterStatus = '''' \<or> ClStatus r = clusterStatus))"

definition model_ListCluster ::
  "cluster_faults \<Rightarrow> int \<Rightarrow> int \<Rightarrow> string list \<Rightarrow> string \<Rightarrow> cluster_table \<Rightarrow> db_error + cluster_row list" where
  "model_ListCluster flt pk maxKeys clusterNameList clusterStatus t =
     (if flt CcList then Inl DbFailure
      else let rows = filter (\<lambda>r. live_cluster r \<and> ClPk r > pk \<and> cluster_keep clusterNameList clusterStatus r)
                        (scan (CtScan t) ClPk (CtRows t))
           in Inr (if maxKeys > 0 then take (nat maxKeys) rows else rows))"

definition GetLastCluster :: "cluster_env \<Rightarrow> cluster_faults \<Rightarrow> cluster_table \<Rightarrow> db_error + cluster_row" where
  "GetLastCluster e flt t =
     (if flt CcLast then Inl DbFailure
      else case by_key (\<lambda>a b. CeLess e b a) (filter live_cluster (CtRows t)) of None \<Rightarrow> Inl RecordNotFound | Some r \<Rightarrow> Inr r)"

definition GetClusterByName :: "cluster_env \<Rightarrow> cluster_faults \<Rightarrow> string \<Rightarrow> cluster_table \<Rightarrow> db_error + cluster_row" where
  "GetClusterByName e flt clusterName t =
     (if flt CcGet then Inl DbFailure
      else case by_key (CeLess e) (filter (\<lambda>r. ClName r = clusterName \<and> live_cluster r) (CtRows t)) of
             None \<Rightarrow> Inl RecordNotFound
           | Some r \<Rightarrow> Inr r)"

definition GetClusterById :: "cluster_env \<Rightarrow> cluster_faults \<Rightarrow> string \<Rightarrow> cluster_table \<Rightarrow> db_error + cluster_row" where
  "GetClusterById e flt clusterId t =
     (if flt CcGet then Inl DbFailure
      else case by_key (CeLess e) (filter (\<lambda>r. ClID r = clusterId \<and> live_cluster r) (CtRows t)) of
             None \<Rightarrow> Inl RecordNotFound
           | Some r \<Rightarrow> Inr r)"

text \<open>\<open>Updates\<close> with a struct writes its fields that are not zero, and the time of the update. The encoded name spaces are never zero.\<close>

definition set_nonzero :: "timestamp \<Rightarrow> cluster_row \<Rightarrow> cluster_row \<Rightarrow> cluster_row" where
  "set_nonzero now c r =
     (let txt = (\<lambda>new old. if new = '''' then old else new); num = (\<lambda>new old. if new = (0::int) then old else new)
      in \<lparr>ClPk = num (ClPk c) (ClPk r), ClID = txt (ClID c) (ClID r), ClName = txt (ClName c) (ClName r),
          ClDescription = txt (ClDescription c) (ClDescription r), ClEndpoint = txt (ClEndpoint c) (ClEndpoint r),
          ClSource = txt (ClSource c) (ClSource r), ClType = txt (ClType c) (ClType r), ClStatus = txt (ClStatus c) (ClStatus r),
          ClCredential = txt (ClCredential c) (ClCredential r), ClSetting = txt (ClSetting c) (ClSetting r),
          ClNamespaces = ClNamespaces c, ClCreatedAt = num (ClCreatedAt c) (ClCreatedAt r), ClUpdatedAt = now,
          ClDeletedAt = txt (ClDeletedAt c) (ClDeletedAt r)\<rparr>)"

definition model_UpdateCluster ::
  "cluster_env \<Rightarrow> cluster_faults \<Rightarrow> timestamp \<Rightarrow> string \<Rightarrow> cluster_row \<Rightarrow> cluster_table \<Rightarrow> db_error + cluster_table" where
  "model_UpdateCluster e flt now clusterId c t =
     (if flt CcUpdate then Inl DbFailure
      else let rows = map (\<lambda>r. if ClID r = clusterId \<and> (CeKeyed e \<and> ClID c \<noteq> '''' \<longrightarrow> ClID r = ClID c) then set_nonzero now c r else r)
                        (CtRows t)
           in if clash_free e rows then Inr (t\<lparr>CtRows := rows\<rparr>) else Inl DuplicateKey)"

text \<open>\<open>deletedID\<close> is the new ID that marks the row.\<close>

definition model_DeleteCluster ::
  "cluster_env \<Rightarrow> cluster_faults \<Rightarrow> timestamp \<Rightarrow> string \<Rightarrow> string \<Rightarrow> cluster_table \<Rightarrow> db_error + cluster_table" where
  "model_DeleteCluster e flt now deletedID clusterName t =
     bindE (GetClusterByName e flt clusterName t) (\<lambda>c.
       model_UpdateCluster e flt now (ClID c) (c\<lparr>ClDeletedAt := deletedID, ClUpdatedAt := now\<rparr>) t)"

section \<open>The controller\<close>

definition ClusterNameNotFound :: code where "ClusterNameNotFound = ''ClusterNameNotFound''"
definition ClusterNameMaxLength :: nat where "ClusterNameMaxLength = 255"

record cluster_request =
  CqName :: string
  CqID :: string
  CqDescription :: string
  CqEndpoint :: string
  CqSource :: string
  CqType :: string
  CqStatus :: string
  CqCredential :: string
  CqSetting :: string
  CqNamespaces :: "string list"

definition validateClusterStatus :: "string \<Rightarrow> code + unit" where
  "validateClusterStatus clusterStatus =
     (if StringInSlice clusterStatus [ClusterStatusOnLine, ClusterStatusOffLine] then Inr () else Inl '''')"

definition or_default :: "string \<Rightarrow> string \<Rightarrow> string" where
  "or_default s dflt = (if trim_space s = '''' then dflt else trim_space s)"

definition validateCreateClusterRequest :: "string \<Rightarrow> cluster_request \<Rightarrow> code + cluster_request" where
  "validateCreateClusterRequest newID q =
     (let name = trim_space (CqName q); status = trim_space (CqStatus q)
      in if name = '''' \<or> length name > ClusterNameMaxLength \<or> trim_space (CqEndpoint q) = '''' \<or> trim_space (CqType q) = '''' \<or>
            (status \<noteq> '''' \<and> isl (validateClusterStatus status))
         then Inl InternalError
         else Inr \<lparr>CqName = name, CqID = or_default (CqID q) newID, CqDescription = trim_space (CqDescription q),
                   CqEndpoint = trim_space (CqEndpoint q), CqSource = or_default (CqSource q) DefaultClusterSource,
                   CqType = trim_space (CqType q), CqStatus = or_default (CqStatus q) DefaultClusterStatus,
                   CqCredential = trim_space (CqCredential q), CqSetting = trim_space (CqSetting q), CqNamespaces = CqNamespaces q\<rparr>)"

definition cluster_to_create :: "timestamp \<Rightarrow> cluster_request \<Rightarrow> cluster_row" where
  "cluster_to_create now q =
     \<lparr>ClPk = 0, ClID = CqID q, ClName = CqName q, ClDescription = CqDescription q, ClEndpoint = CqEndpoint q, ClSource = CqSource q,
      ClType = CqType q, ClStatus = CqStatus q, ClCredential = CqCredential q, ClSetting = CqSetting q, ClNamespaces = CqNamespaces q,
      ClCreatedAt = now, ClUpdatedAt = now, ClDeletedAt = ''''\<rparr>"

text \<open>The error code of a failed insertion is not set.\<close>

definition CreateCluster ::
  "cluster_env \<Rightarrow> cluster_faults \<Rightarrow> timestamp \<Rightarrow> string \<Rightarrow> string \<Rightarrow> cluster_request \<Rightarrow> cluster_table \<Rightarrow> cluster_table \<times> (code + cluster_row)" where
  "CreateCluster e flt now newID user q t =
     (if \<not> RegPatternClusterName (trim_space (CqName q)) then (t, Inl InvalidNamePattern)
      else if \<not> IsRootUser user then (t, Inl OnlyRootAllowed)
      else case validateCreateClusterRequest newID q of
             Inl c \<Rightarrow> (t, Inl c)
           | Inr q1 \<Rightarrow>
               (case model_CreateCluster e flt (cluster_to_create now q1) t of
                  Inl err \<Rightarrow> (t, Inl '''')
                | Inr t1 \<Rightarrow> (t1, Inr (last (CtRows t1)))))"

text \<open>When the last row cannot be read it counts as one with key 0.\<close>

definition IsLastClusterPk :: "cluster_env \<Rightarrow> cluster_faults \<Rightarrow> cluster_table \<Rightarrow> int \<Rightarrow> bool" where
  "IsLastClusterPk e flt t pk = (case GetLastCluster e flt t of Inl err \<Rightarrow> pk = 0 | Inr r \<Rightarrow> ClPk r = pk)"

definition ListCluster ::
  "cluster_env \<Rightarrow> cluster_faults \<Rightarrow> block_cipher \<Rightarrow> block_cipher \<Rightarrow> string \<Rightarrow> int \<Rightarrow> string list \<Rightarrow> string \<Rightarrow> cluster_table \<Rightarrow> string \<Rightarrow>
     code + cluster_row page" where
  "ListCluster e flt enc dec user maxKeys clusterNameList clusterStatus t marker =
     (if \<not> IsRootUser user then Inl OnlyRootAllowed
      else case decode_marker dec marker of
             Inl err \<Rightarrow> Inl InvalidMarker
           | Inr pk \<Rightarrow>
               (case model_ListCluster flt pk maxKeys clusterNameList clusterStatus t of
                  Inl err \<Rightarrow> Inl InternalError
                | Inr rows \<Rightarrow>
                    if rows = [] \<or> IsLastClusterPk e flt t (ClPk (last rows)) then Inr \<lparr>PgRows = rows, PgNext = None\<rparr>
                    else (case EncryptPk enc (ClPk (last rows)) of
                            Inl err \<Rightarrow> Inl InternalError
                          | Inr m \<Rightarrow> Inr \<lparr>PgRows = rows, PgNext = Some m\<rparr>)))"

definition GetCluster :: "cluster_env \<Rightarrow> cluster_faults \<Rightarrow> string \<Rightarrow> string \<Rightarrow> cluster_table \<Rightarrow> code + cluster_row" where
  "GetCluster e flt user clusterName t =
     (if \<not> IsRootUser user then Inl OnlyRootAllowed
      else case GetClusterByName e flt clusterName t of Inl err \<Rightarrow> Inl InternalError | Inr c \<Rightarrow> Inr c)"

definition DeleteCluster ::
  "cluster_env \<Rightarrow> cluster_faults \<Rightarrow> timestamp \<Rightarrow> string \<Rightarrow> string \<Rightarrow> string \<Rightarrow> cluster_table \<Rightarrow> cluster_table \<times> (code + unit)" where
  "DeleteCluster e flt now deletedID user clusterName t =
     (if \<not> IsRootUser user then (t, Inl OnlyRootAllowed)
      else case model_DeleteCluster e flt now deletedID clusterName t of
             Inl err \<Rightarrow> (t, Inl InternalError)
           | Inr t1 \<Rightarrow> (t1, Inr ()))"

text \<open>Each field of the request that is not empty, without its outer blanks.\<close>

definition apply_request :: "cluster_request \<Rightarrow> cluster_row \<Rightarrow> cluster_row" where
  "apply_request q c =
     (let put = (\<lambda>new old. if new \<noteq> '''' then trim_space new else old)
      in c\<lparr>ClID := put (CqID q) (ClID c), ClEndpoint := put (CqEndpoint q) (ClEndpoint c), ClType := put (CqType q) (ClType c),
           ClCredential := put (CqCredential q) (ClCredential c), ClDescription := put (CqDescription q) (ClDescription c),
           ClSource := put (CqSource q) (ClSource c), ClSetting := put (CqSetting q) (ClSetting c),
           ClStatus := put (CqStatus q) (ClStatus c),
           ClNamespaces := (if CqNamespaces q \<noteq> [] then CqNamespaces q else ClNamespaces c)\<rparr>)"

definition UpdateCluster ::
  "cluster_env \<Rightarrow> cluster_faults \<Rightarrow> timestamp \<Rightarrow> string \<Rightarrow> string \<Rightarrow> cluster_request \<Rightarrow> cluster_table \<Rightarrow> cluster_table \<times> (code + cluster_row)" where
  "UpdateCluster e flt now user clusterName q t =
     (if \<not> IsRootUser user then (t, Inl OnlyRootAllowed)
      else case GetClusterByName e flt clusterName t of
             Inl err \<Rightarrow> (t, Inl ClusterNameNotFound)
           | Inr c \<Rightarrow>
               if CqStatus q \<noteq> '''' \<and> isl (validateClusterStatus (trim_space (CqStatus q))) then (t, Inl '''')
               else (case model_UpdateCluster e flt now (ClID c) (apply_request q c) t of
                       Inl err \<Rightarrow> (t, Inl InternalError)
                     | Inr t1 \<Rightarrow> (t1, Inr (apply_request q c))))"

section \<open>Kubernetes clients\<close>

text \<open>\<open>base64\<close> and the constructor of clients are parameters; the two maps are one state.\<close>

record 'k k8s_clients =
  K8sClientMap :: "'k gomap"
  ClusterName2Credential :: "string gomap"

definition GetK8sClient ::
  "(string \<Rightarrow> string + string) \<Rightarrow> (string \<Rightarrow> string + 'k) \<Rightarrow> string \<Rightarrow> string \<Rightarrow> 'k k8s_clients \<Rightarrow> 'k k8s_clients \<times> (string + 'k)" where
  "GetK8sClient decode build clusterName credential s =
     (let fresh = (case decode credential of
                     Inl err \<Rightarrow> (s, Inl (''decode cluster['' @ clusterName @ ''] credential base64 string error! msg: '' @ err))
                   | Inr bytes \<Rightarrow>
                       (case build bytes of
                          Inl err \<Rightarrow> (s, Inl err)
                        | Inr k \<Rightarrow> (s\<lparr>K8sClientMap := mput clusterName k (K8sClientMap s),
                                     ClusterName2Credential := mput clusterName credential (ClusterName2Credential s)\<rparr>, Inr k)))
      in case mget (K8sClientMap s) clusterName of
           None \<Rightarrow> fresh
         | Some k \<Rightarrow> if mget (ClusterName2Credential s) clusterName = Some credential then (s, Inr k) else fresh)"

section \<open>Quotas\<close>

text \<open>A quantity of Kubernetes counts thousandths; \<open>Value\<close> rounds up, \<open>AsInt64\<close> may fail. A resource list that is nil has no entry.
  \<open>QeFloat\<close> prints a number of bytes as mebibytes with two digits.\<close>

type_synonym quantity = int
type_synonym resource_list = "quantity gomap"

record quota_env =
  QeScalars :: "string list"
  QeAsInt64 :: "quantity \<Rightarrow> int option"
  QeFloat :: "int \<Rightarrow> string"

record quota =
  QuCpu :: int
  RawMemory :: quantity
  QuMemory :: string
  RawStorage :: quantity
  QuStorage :: string
  RawScalarResources :: "int gomap"
  ScalarResources :: "string gomap"

record node_quota_info =
  NqName :: string
  NqSchedulable :: bool
  NqTotal :: quota
  NqIdle :: quota

record k8s_node =
  KnName :: string
  KnUnschedulable :: bool
  KnAllocatable :: resource_list
  KnRequests :: "resource_list list list"

definition quantity_Value :: "quantity \<Rightarrow> int" where
  "quantity_Value q = - ((- q) div 1000)"

definition quantityToMB :: "quota_env \<Rightarrow> quantity \<Rightarrow> string" where
  "quantityToMB e q = QeFloat e (quantity_Value q)"

definition rl_get :: "resource_list \<Rightarrow> string \<Rightarrow> quantity" where
  "rl_get rl name = (case mget rl name of None \<Rightarrow> 0 | Some q \<Rightarrow> q)"

fun initScalarResources :: "quota_env \<Rightarrow> resource_list \<Rightarrow> string list \<Rightarrow> int gomap \<Rightarrow> int gomap" where
  "initScalarResources e rl [] m = m"
| "initScalarResources e rl (name # names) m =
     initScalarResources e rl names
       (case mget rl name of
          None \<Rightarrow> m
        | Some q \<Rightarrow> (case QeAsInt64 e q of None \<Rightarrow> m | Some value \<Rightarrow> mput name value m))"

definition newQuota :: "quota_env \<Rightarrow> resource_list \<Rightarrow> quota" where
  "newQuota e rl =
     \<lparr>QuCpu = quantity_Value (rl_get rl ''cpu''), RawMemory = rl_get rl ''memory'', QuMemory = quantityToMB e (rl_get rl ''memory''),
      RawStorage = rl_get rl ''ephemeral-storage'', QuStorage = quantityToMB e (rl_get rl ''ephemeral-storage''),
      RawScalarResources = initScalarResources e rl (QeScalars e) [], ScalarResources = []\<rparr>"

fun updateScalarResources :: "(int \<Rightarrow> int \<Rightarrow> int) \<Rightarrow> (string \<times> int) list \<Rightarrow> int gomap \<Rightarrow> int gomap" where
  "updateScalarResources fn [] m = m"
| "updateScalarResources fn ((name, otherValue) # os) m =
     updateScalarResources fn os (mput name (case mget m name of None \<Rightarrow> otherValue | Some value \<Rightarrow> fn value otherValue) m)"

definition quota_sub :: "quota \<Rightarrow> quota \<Rightarrow> quota" where
  "quota_sub q other =
     q\<lparr>QuCpu := QuCpu q - QuCpu other, RawMemory := RawMemory q - RawMemory other, RawStorage := RawStorage q - RawStorage other,
       RawScalarResources := updateScalarResources (-) (RawScalarResources other) (RawScalarResources q)\<rparr>"

definition quota_add :: "quota \<Rightarrow> quota \<Rightarrow> quota" where
  "quota_add q other =
     q\<lparr>QuCpu := QuCpu q + QuCpu other, RawMemory := RawMemory q + RawMemory other, RawStorage := RawStorage q + RawStorage other,
       RawScalarResources := updateScalarResources (+) (RawScalarResources other) (RawScalarResources q)\<rparr>"

definition quantityToString :: "quota_env \<Rightarrow> quota \<Rightarrow> quota" where
  "quantityToString e q =
     q\<lparr>QuMemory := quantityToMB e (RawMemory q), QuStorage := quantityToMB e (RawStorage q),
       ScalarResources := map (\<lambda>(name, value). (name, itoa value)) (RawScalarResources q)\<rparr>"

definition node_quota :: "quota_env \<Rightarrow> k8s_node \<Rightarrow> node_quota_info" where
  "node_quota e node =
     \<lparr>NqName = KnName node, NqSchedulable = True, NqTotal = quantityToString e (newQuota e (KnAllocatable node)),
      NqIdle = quantityToString e
        (foldl (\<lambda>idle requests. quota_sub idle (newQuota e requests)) (newQuota e (KnAllocatable node)) (concat (KnRequests node)))\<rparr>"

text \<open>Nodes that are closed for scheduling are left out. The answer of the cluster is the list of its nodes, each with the requests of
  the containers of the pods that run there.\<close>

definition GetNodeQuotaList :: "quota_env \<Rightarrow> k8s_node list \<Rightarrow> (quota \<times> quota) \<times> node_quota_info list" where
  "GetNodeQuotaList e nodes =
     (let infos = map (node_quota e) (filter (\<lambda>n. \<not> KnUnschedulable n) nodes);
          total = foldl (\<lambda>q i. quota_add q (NqTotal i)) (newQuota e []) infos;
          idle = foldl (\<lambda>q i. quota_add q (NqIdle i)) (newQuota e []) infos
      in ((quantityToString e total, quantityToString e idle), infos))"

record cluster_quota =
  CqSummary :: "(quota \<times> quota) option"
  CqNodes :: "node_quota_info list"
  CqErrMessage :: string

definition quota_of_cluster ::
  "quota_env \<Rightarrow> (string \<Rightarrow> string + string) \<Rightarrow> (string \<Rightarrow> string + 'k) \<Rightarrow> ('k \<Rightarrow> k8s_node list) \<Rightarrow> cluster_row \<Rightarrow> 'k k8s_clients \<Rightarrow>
     'k k8s_clients \<times> cluster_quota" where
  "quota_of_cluster qe decode build nodes c s =
     (case GetK8sClient decode build (ClName c) (ClCredential c) s of
        (s1, Inl err) \<Rightarrow>
          (s1, \<lparr>CqSummary = None, CqNodes = [], CqErrMessage = ''clusterName: '' @ ClName c @ '', errorMsg: '' @ err\<rparr>)
      | (s1, Inr k) \<Rightarrow>
          (case GetNodeQuotaList qe (nodes k) of
             (summary, infos) \<Rightarrow> (s1, \<lparr>CqSummary = Some summary, CqNodes = infos, CqErrMessage = ''''\<rparr>)))"

fun cluster_quotas ::
  "quota_env \<Rightarrow> (string \<Rightarrow> string + string) \<Rightarrow> (string \<Rightarrow> string + 'k) \<Rightarrow> ('k \<Rightarrow> k8s_node list) \<Rightarrow> cluster_row list \<Rightarrow> 'k k8s_clients \<Rightarrow>
     cluster_quota gomap \<Rightarrow> string list \<Rightarrow> 'k k8s_clients \<times> cluster_quota gomap \<times> string list" where
  "cluster_quotas qe decode build nodes [] s response failed = (s, response, failed)"
| "cluster_quotas qe decode build nodes (c # cs) s response failed =
     (case quota_of_cluster qe decode build nodes c s of
        (s1, q) \<Rightarrow> cluster_quotas qe decode build nodes cs s1 (mput (ClName c) q response)
                     (if CqSummary q = None then failed @ [CqErrMessage q] else failed))"

text \<open>The error code stays unset but for users that are not root; the message of an error joins those of the clusters.\<close>

definition ListClusterQuota ::
  "cluster_faults \<Rightarrow> quota_env \<Rightarrow> (string \<Rightarrow> string + string) \<Rightarrow> (string \<Rightarrow> string + 'k) \<Rightarrow> ('k \<Rightarrow> k8s_node list) \<Rightarrow> string \<Rightarrow> string list \<Rightarrow>
     cluster_table \<Rightarrow> 'k k8s_clients \<Rightarrow> 'k k8s_clients \<times> (code \<times> string + cluster_quota gomap)" where
  "ListClusterQuota flt qe decode build nodes user clusterNameList t s =
     (if \<not> IsRootUser user then (s, Inl (OnlyRootAllowed, ''get cluster failed''))
      else case model_ListCluster flt 0 (-1) clusterNameList ClusterStatusOnLine t of
             Inl err \<Rightarrow> (s, Inl ('''', ''list cluster failed''))
           | Inr clusterList \<Rightarrow>
               if clusterNameList \<noteq> [] \<and> clusterList = []
               then (s, Inl ('''', ''can't get cluster quota by clusterNames: '' @ join_with (CHR '','') clusterNameList))
               else (case cluster_quotas qe decode build nodes clusterList s [] [] of
                       (s1, response, failed) \<Rightarrow>
                         if length failed = length clusterList then (s1, Inl ('''', join_with (CHR 0x0A) failed))
                         else (s1, Inr response)))"

section \<open>The routes\<close>

definition listCluster ::
  "cluster_env \<Rightarrow> cluster_faults \<Rightarrow> block_cipher \<Rightarrow> block_cipher \<Rightarrow> string \<Rightarrow> string \<Rightarrow> string \<Rightarrow> string \<Rightarrow> cluster_table \<Rightarrow> string \<Rightarrow>
     code + cluster_row page" where
  "listCluster e flt enc dec user queryMaxKeys clusterNames clusterStatus t marker =
     (case (if queryMaxKeys = '''' then Some 50 else atoi queryMaxKeys) of
        None \<Rightarrow> Inl ''''
      | Some maxKeys \<Rightarrow>
          ListCluster e flt enc dec user maxKeys
            (if trim_space clusterNames \<noteq> '''' then SplitString (trim_space clusterNames) (CHR '','') else [])
            (trim_space clusterStatus) t marker)"

text \<open>Requests as a machine; a step has the faults, the time and the new ID.\<close>

datatype cluster_act =
    ClCreate string cluster_request
  | ClDelete string string
  | ClUpdate string string cluster_request

record cluster_event =
  CvFlt :: cluster_faults
  CvNow :: timestamp
  CvUuid :: string
  CvAct :: cluster_act

definition cluster_step :: "cluster_env \<Rightarrow> cluster_event \<Rightarrow> cluster_table \<Rightarrow> cluster_table option" where
  "cluster_step e v t =
     (case CvAct v of
        ClCreate user q \<Rightarrow> Some (fst (CreateCluster e (CvFlt v) (CvNow v) (CvUuid v) user q t))
      | ClDelete user name \<Rightarrow> Some (fst (DeleteCluster e (CvFlt v) (CvNow v) (CvUuid v) user (trim_space name) t))
      | ClUpdate user name q \<Rightarrow> Some (fst (UpdateCluster e (CvFlt v) (CvNow v) user (trim_space name) q t)))"

section \<open>The cached clients\<close>

definition fresh_client :: "(string \<Rightarrow> string + string) \<Rightarrow> (string \<Rightarrow> string + 'k) \<Rightarrow> string \<Rightarrow> string \<Rightarrow> string + 'k" where
  "fresh_client decode build clusterName credential = snd (GetK8sClient decode build clusterName credential \<lparr>K8sClientMap = [], ClusterName2Credential = []\<rparr>)"

definition clients_coherent :: "(string \<Rightarrow> string + string) \<Rightarrow> (string \<Rightarrow> string + 'k) \<Rightarrow> 'k k8s_clients \<Rightarrow> bool" where
  "clients_coherent decode build s \<longleftrightarrow>
     (\<forall>name k cred. mget (K8sClientMap s) name = Some k \<longrightarrow> mget (ClusterName2Credential s) name = Some cred \<longrightarrow>
        fresh_client decode build name cred = Inr k)"

lemma GetK8sClient_answer:
  assumes "clients_coherent decode build s"
  shows "snd (GetK8sClient decode build name cred s) = fresh_client decode build name cred"
proof (cases "\<exists>k. mget (K8sClientMap s) name = Some k \<and> mget (ClusterName2Credential s) name = Some cred")
  case True
  then obtain k where k: "mget (K8sClientMap s) name = Some k" "mget (ClusterName2Credential s) name = Some cred" by blast
  then have "fresh_client decode build name cred = Inr k" using assms unfolding clients_coherent_def by blast
  then show ?thesis by (simp add: GetK8sClient_def k Let_def)
next
  case False
  then show ?thesis
    by (cases "decode cred"; cases "mget (K8sClientMap s) name") (auto simp: GetK8sClient_def fresh_client_def Let_def split: sum.splits)
qed

lemma GetK8sClient_coherent:
  assumes "clients_coherent decode build s"
  shows "clients_coherent decode build (fst (GetK8sClient decode build name cred s))"
proof -
  have "clients_coherent decode build (s\<lparr>K8sClientMap := mput name k (K8sClientMap s),
      ClusterName2Credential := mput name cred (ClusterName2Credential s)\<rparr>)" if "decode cred = Inr b" "build b = Inr k" for b k
  proof -
    have "fresh_client decode build name cred = Inr k" by (simp add: fresh_client_def GetK8sClient_def that)
    then show ?thesis using assms by (auto simp: clients_coherent_def)
  qed
  then show ?thesis using assms by (auto simp: GetK8sClient_def Let_def split: sum.splits option.splits)
qed

text \<open>A sequence of look-ups, with the answers.\<close>

fun client_calls ::
  "(string \<Rightarrow> string + string) \<Rightarrow> (string \<Rightarrow> string + 'k) \<Rightarrow> (string \<times> string) list \<Rightarrow> 'k k8s_clients \<Rightarrow> (string + 'k) list" where
  "client_calls decode build [] s = []"
| "client_calls decode build ((name, cred) # cs) s =
     (case GetK8sClient decode build name cred s of (s1, r) \<Rightarrow> r # client_calls decode build cs s1)"

lemma client_calls_coherent:
  "clients_coherent decode build s \<Longrightarrow> client_calls decode build cs s = map (\<lambda>(name, cred). fresh_client decode build name cred) cs"
proof (induction cs arbitrary: s)
  case (Cons c cs)
  obtain name cred where c: "c = (name, cred)" by (cases c)
  have "client_calls decode build cs (fst (GetK8sClient decode build name cred s)) = map (\<lambda>(name, cred). fresh_client decode build name cred) cs"
    by (rule Cons.IH [OF GetK8sClient_coherent [OF Cons.prems]])
  then show ?case using GetK8sClient_answer [OF Cons.prems, of name cred] by (simp add: c split_beta)
qed simp

section \<open>Sums of quotas\<close>

definition scalar :: "quota \<Rightarrow> string \<Rightarrow> int" where
  "scalar q name = (case mget (RawScalarResources q) name of None \<Rightarrow> 0 | Some v \<Rightarrow> v)"

lemma initScalarResources_wf: "wf_map m \<Longrightarrow> wf_map (initScalarResources e rl names m)"
  by (induction names arbitrary: m) (auto split: option.splits)

lemma updateScalarResources_wf: "wf_map m \<Longrightarrow> wf_map (updateScalarResources fn os m)"
  by (induction fn os m rule: updateScalarResources.induct) auto

lemma updateScalarResources_get:
  "wf_map os \<Longrightarrow> mget (updateScalarResources fn os m) name =
     (case mget os name of
        None \<Rightarrow> mget m name
      | Some v \<Rightarrow> Some (case mget m name of None \<Rightarrow> v | Some old \<Rightarrow> fn old v))"
proof (induction fn os m rule: updateScalarResources.induct)
  case (2 fn k v os m)
  have "wf_map os" "mget os k = None" using "2.prems" by (simp_all add: wf_map_def mget_None)
  then show ?case using "2.IH" by (auto split: option.splits)
qed simp

definition quota_wf :: "quota \<Rightarrow> bool" where
  "quota_wf q = wf_map (RawScalarResources q)"

lemma newQuota_wf: "quota_wf (newQuota e rl)"
  unfolding quota_wf_def newQuota_def by (simp add: initScalarResources_wf [of "[]"] wf_map_def [of "[]"])

lemma quota_sub_wf: "quota_wf q \<Longrightarrow> quota_wf (quota_sub q r)"
  by (simp add: quota_wf_def quota_sub_def updateScalarResources_wf)

lemma quota_add_wf: "quota_wf q \<Longrightarrow> quota_wf (quota_add q r)"
  by (simp add: quota_wf_def quota_add_def updateScalarResources_wf)

lemma quantityToString_raw [simp]:
  "QuCpu (quantityToString e q) = QuCpu q" "RawMemory (quantityToString e q) = RawMemory q"
  "RawStorage (quantityToString e q) = RawStorage q" "RawScalarResources (quantityToString e q) = RawScalarResources q"
  "scalar (quantityToString e q) name = scalar q name" "quota_wf (quantityToString e q) = quota_wf q"
  by (simp_all add: quantityToString_def scalar_def quota_wf_def)

lemma quota_add_raw:
  "QuCpu (quota_add q r) = QuCpu q + QuCpu r" "RawMemory (quota_add q r) = RawMemory q + RawMemory r"
  "RawStorage (quota_add q r) = RawStorage q + RawStorage r"
  "quota_wf r \<Longrightarrow> scalar (quota_add q r) name = scalar q name + scalar r name"
  by (auto simp: quota_add_def scalar_def quota_wf_def updateScalarResources_get split: option.splits)

lemma quota_sub_raw:
  "QuCpu (quota_sub q r) = QuCpu q - QuCpu r" "RawMemory (quota_sub q r) = RawMemory q - RawMemory r"
  "RawStorage (quota_sub q r) = RawStorage q - RawStorage r"
  "quota_wf r \<Longrightarrow> mget (RawScalarResources q) name \<noteq> None \<Longrightarrow> scalar (quota_sub q r) name = scalar q name - scalar r name"
  "quota_wf r \<Longrightarrow> mget (RawScalarResources q) name \<noteq> None \<Longrightarrow> mget (RawScalarResources (quota_sub q r)) name \<noteq> None"
  by (auto simp: quota_sub_def scalar_def quota_wf_def updateScalarResources_get split: option.splits)

text \<open>The four numbers of a quota as one measure, so that each sum is proved once.\<close>

lemma foldl_sum:
  fixes g :: "'q \<Rightarrow> int"
  assumes "\<And>q x. x \<in> set xs \<Longrightarrow> g (ad q (h x)) = g q + g (h x)"
  shows "g (foldl (\<lambda>q x. ad q (h x)) q xs) = g q + (\<Sum>x\<leftarrow>xs. g (h x))"
  using assms by (induction xs arbitrary: q) simp_all

lemma foldl_difference:
  fixes g :: "'q \<Rightarrow> int"
  assumes "\<And>q x. x \<in> set xs \<Longrightarrow> P q \<Longrightarrow> g (sb q (h x)) = g q - g (h x)" and "\<And>q x. x \<in> set xs \<Longrightarrow> P q \<Longrightarrow> P (sb q (h x))" and "P q"
  shows "g (foldl (\<lambda>q x. sb q (h x)) q xs) = g q - (\<Sum>x\<leftarrow>xs. g (h x))"
  using assms by (induction xs arbitrary: q) simp_all

lemma newQuota_none: "QuCpu (newQuota e []) = 0" "RawMemory (newQuota e []) = 0" "RawStorage (newQuota e []) = 0" "scalar (newQuota e []) name = 0"
proof -
  have "initScalarResources e [] names m = m" for names m by (induction names arbitrary: m) simp_all
  then show "QuCpu (newQuota e []) = 0" "RawMemory (newQuota e []) = 0" "RawStorage (newQuota e []) = 0" "scalar (newQuota e []) name = 0"
    by (simp_all add: newQuota_def rl_get_def quantity_Value_def scalar_def)
qed

lemma quota_folds_wf: "quota_wf q \<Longrightarrow> quota_wf (foldl (\<lambda>q r. quota_sub q (newQuota e r)) q rs)"
  by (induction rs arbitrary: q) (simp_all add: quota_sub_wf)

definition measured :: "quota_env \<Rightarrow> (quota \<Rightarrow> int) \<Rightarrow> k8s_node \<Rightarrow> bool" where
  "measured e m n \<longleftrightarrow> m \<in> {QuCpu, RawMemory, RawStorage} \<or>
     (\<exists>name. m = (\<lambda>q. scalar q name) \<and> mget (RawScalarResources (newQuota e (KnAllocatable n))) name \<noteq> None)"

lemma measured_add: "measured e m n \<Longrightarrow> quota_wf r \<Longrightarrow> m (quota_add q r) = m q + m r"
  by (auto simp: measured_def quota_add_raw)

lemma measured_text: "measured e m n \<Longrightarrow> m (quantityToString e q) = m q"
  by (auto simp: measured_def)

lemma measured_none: "measured e m n \<Longrightarrow> m (newQuota e []) = 0"
  by (auto simp: measured_def newQuota_none)

lemma node_quota_wf: "quota_wf (NqTotal (node_quota e n))" "quota_wf (NqIdle (node_quota e n))"
  by (simp_all add: node_quota_def newQuota_wf quota_folds_wf)

text \<open>What a node has left is what it offers less what its containers ask for.\<close>

lemma node_idle:
  assumes "measured e m n"
  shows "m (NqTotal (node_quota e n)) = m (newQuota e (KnAllocatable n))"
    and "m (NqIdle (node_quota e n)) = m (newQuota e (KnAllocatable n)) - (\<Sum>r\<leftarrow>concat (KnRequests n). m (newQuota e r))"
proof -
  show "m (NqTotal (node_quota e n)) = m (newQuota e (KnAllocatable n))" by (simp add: node_quota_def measured_text [OF assms])
  let ?rs = "concat (KnRequests n)" and ?q = "newQuota e (KnAllocatable n)"
  have "m (foldl (\<lambda>q r. quota_sub q (newQuota e r)) ?q ?rs) = m ?q - (\<Sum>r\<leftarrow>?rs. m (newQuota e r))"
    using assms unfolding measured_def
  proof (elim disjE exE conjE)
    assume "m \<in> {QuCpu, RawMemory, RawStorage}"
    then show ?thesis by (intro foldl_difference [where P = "\<lambda>_. True"]) (auto simp: quota_sub_raw)
  next
    fix name assume m: "m = (\<lambda>q. scalar q name)" "mget (RawScalarResources ?q) name \<noteq> None"
    show ?thesis unfolding m(1)
      by (rule foldl_difference [where P = "\<lambda>q. mget (RawScalarResources q) name \<noteq> None"])
        (rule quota_sub_raw(4,5) [OF newQuota_wf] m(2), assumption?)+
  qed
  then show "m (NqIdle (node_quota e n)) = m ?q - (\<Sum>r\<leftarrow>?rs. m (newQuota e r))" by (simp add: node_quota_def measured_text [OF assms])
qed

lemma sum_list_minus: "(\<Sum>x\<leftarrow>xs. f x - (g x :: int)) = (\<Sum>x\<leftarrow>xs. f x) - (\<Sum>x\<leftarrow>xs. g x)"
  by (induction xs) simp_all

text \<open>
The sums of a cluster: in processors (rounded up for each container), memory, storage, and each scalar resource that all its nodes
  offer, the total is that of the nodes open for scheduling, and what is idle is the total less all requests there.\<close>

theorem cluster_quota_adds_up:
  assumes "GetNodeQuotaList e nodes = ((tot, idle), infos)"
    and "\<forall>n\<in>set nodes. measured e m n" and "nodes \<noteq> []"
  shows "m tot = (\<Sum>n\<leftarrow>filter (\<lambda>n. \<not> KnUnschedulable n) nodes. m (newQuota e (KnAllocatable n))) \<and>
    m idle = m tot - (\<Sum>n\<leftarrow>filter (\<lambda>n. \<not> KnUnschedulable n) nodes. \<Sum>r\<leftarrow>concat (KnRequests n). m (newQuota e r)) \<and>
    map NqName infos = map KnName (filter (\<lambda>n. \<not> KnUnschedulable n) nodes)"
proof -
  let ?ns = "filter (\<lambda>n. \<not> KnUnschedulable n) nodes"
  obtain n0 where n0: "measured e m n0" using assms(2,3) by (cases nodes) auto
  have ms: "measured e m n" if "n \<in> set ?ns" for n using that assms(2) by simp
  have eq: "tot = quantityToString e (foldl (\<lambda>q i. quota_add q (NqTotal i)) (newQuota e []) infos)"
    "idle = quantityToString e (foldl (\<lambda>q i. quota_add q (NqIdle i)) (newQuota e []) infos)" "infos = map (node_quota e) ?ns"
    using assms(1) unfolding GetNodeQuotaList_def Let_def by auto
  have wf: "quota_wf (NqTotal i)" "quota_wf (NqIdle i)" if "i \<in> set infos" for i using that node_quota_wf by (auto simp: eq(3))
  have "m (foldl (\<lambda>q i. quota_add q (NqTotal i)) (newQuota e []) infos) = m (newQuota e []) + (\<Sum>i\<leftarrow>infos. m (NqTotal i))"
    by (rule foldl_sum) (rule measured_add [OF n0 wf(1)])
  then have tot: "m tot = (\<Sum>n\<leftarrow>?ns. m (NqTotal (node_quota e n)))"
    by (simp add: eq(1) measured_text [OF n0] measured_none [OF n0]) (simp add: eq(3) o_def)
  have "m (foldl (\<lambda>q i. quota_add q (NqIdle i)) (newQuota e []) infos) = m (newQuota e []) + (\<Sum>i\<leftarrow>infos. m (NqIdle i))"
    by (rule foldl_sum) (rule measured_add [OF n0 wf(2)])
  then have idle: "m idle = (\<Sum>n\<leftarrow>?ns. m (NqIdle (node_quota e n)))"
    by (simp add: eq(2) measured_text [OF n0] measured_none [OF n0]) (simp add: eq(3) o_def)
  have t: "m tot = (\<Sum>n\<leftarrow>?ns. m (newQuota e (KnAllocatable n)))"
    unfolding tot by (intro arg_cong [of _ _ sum_list] map_cong refl node_idle(1) ms)
  have "m idle = (\<Sum>n\<leftarrow>?ns. m (newQuota e (KnAllocatable n)) - (\<Sum>r\<leftarrow>concat (KnRequests n). m (newQuota e r)))"
    unfolding idle by (intro arg_cong [of _ _ sum_list] map_cong refl node_idle(2) ms)
  then have "m idle = m tot - (\<Sum>n\<leftarrow>?ns. \<Sum>r\<leftarrow>concat (KnRequests n). m (newQuota e r))"
    unfolding t by (simp add: sum_list_minus)
  moreover have "map NqName infos = map KnName ?ns" by (simp add: eq(3) node_quota_def)
  ultimately show ?thesis using t by blast
qed

text \<open>A scalar that the node does not offer is counted the wrong way round.\<close>

lemma unoffered_scalar_is_idle:
  assumes "quota_wf r" and "mget (RawScalarResources q) name = None" and "mget (RawScalarResources r) name = Some v"
  shows "scalar (quota_sub q r) name = v"
  using assms by (simp add: scalar_def quota_sub_def quota_wf_def updateScalarResources_get)

section \<open>The table in every state\<close>

definition empty_clusters :: "int list \<Rightarrow> cluster_table" where
  "empty_clusters ks = \<lparr>CtRows = [], CtLast = 0, CtScan = ks\<rparr>"

definition cluster_row_ok :: "cluster_env \<Rightarrow> cluster_row \<Rightarrow> bool" where
  "cluster_row_ok e r \<longleftrightarrow> RegPatternClusterName (ClName r) \<and> ClStatus r \<in> {ClusterStatusOnLine, ClusterStatusOffLine} \<and>
     (\<not> CeAuto e \<longrightarrow> ClPk r = 0)"

definition clusters_ok :: "cluster_env \<Rightarrow> cluster_table \<Rightarrow> bool" where
  "clusters_ok e t \<longleftrightarrow> clash_free e (CtRows t) \<and> (\<forall>r\<in>set (CtRows t). cluster_row_ok e r)"

lemma by_key_in: "by_key lt rows = Some r \<Longrightarrow> r \<in> set rows"
  by (induction rows arbitrary: r) (auto split: option.splits if_splits)

lemma GetClusterByName_row:
  "GetClusterByName e flt name t = Inr c \<Longrightarrow> c \<in> set (CtRows t) \<and> ClName c = name \<and> live_cluster c"
  by (auto simp: GetClusterByName_def split: if_splits option.splits dest!: by_key_in)

lemma set_nonzero_ok:
  "cluster_row_ok e r \<Longrightarrow> cluster_row_ok e c \<Longrightarrow> cluster_row_ok e (set_nonzero now c r)"
  by (auto simp: cluster_row_ok_def set_nonzero_def Let_def)

lemma model_UpdateCluster_ok:
  assumes "clusters_ok e t" and "cluster_row_ok e c" and "model_UpdateCluster e flt now i c t = Inr t'"
  shows "clusters_ok e t'"
  using assms by (auto simp: model_UpdateCluster_def Let_def clusters_ok_def set_nonzero_ok split: if_splits)

lemma validateClusterStatus_ok: "\<not> isl (validateClusterStatus s) \<Longrightarrow> s \<in> {ClusterStatusOnLine, ClusterStatusOffLine}"
  by (auto simp: validateClusterStatus_def StringInSlice_def split: if_splits)

lemma apply_request_ok:
  assumes "cluster_row_ok e c" and "CqStatus q = '''' \<or> \<not> isl (validateClusterStatus (trim_space (CqStatus q)))"
  shows "cluster_row_ok e (apply_request q c)"
proof (cases "CqStatus q = ''''")
  case True
  then show ?thesis using assms(1) by (simp add: apply_request_def cluster_row_ok_def)
next
  case False
  then show ?thesis using assms validateClusterStatus_ok [of "trim_space (CqStatus q)"] by (simp add: apply_request_def cluster_row_ok_def)
qed

lemma CreateCluster_ok:
  assumes "clusters_ok e t"
  shows "clusters_ok e (fst (CreateCluster e flt now newID user q t))"
proof -
  have st: "or_default s DefaultClusterStatus \<in> {ClusterStatusOnLine, ClusterStatusOffLine}"
    if "trim_space s \<noteq> '''' \<longrightarrow> \<not> isl (validateClusterStatus (trim_space s))" for s
    using that validateClusterStatus_ok [of "trim_space s"] by (auto simp: or_default_def DefaultClusterStatus_def)
  have "clusters_ok e t1" if "RegPatternClusterName (trim_space (CqName q))" "validateCreateClusterRequest newID q = Inr q1"
    and created: "model_CreateCluster e flt (cluster_to_create now q1) t = Inr t1" for q1 t1
  proof -
    have q1: "RegPatternClusterName (CqName q1)" "CqStatus q1 \<in> {ClusterStatusOnLine, ClusterStatusOffLine}"
      using that(1,2) st [of "CqStatus q"] by (auto simp: validateCreateClusterRequest_def Let_def split: if_splits)
    have row: "cluster_row_ok e ((cluster_to_create now q1)\<lparr>ClPk := pk\<rparr>)" if "\<not> CeAuto e \<longrightarrow> pk = 0" for pk
      using q1 that by (simp add: cluster_row_ok_def cluster_to_create_def)
    obtain pk where pk: "(if CeAuto e then next_pk (CtLast t) else Inr (ClPk (cluster_to_create now q1))) = Inr pk"
      and free: "\<not> list_ex (\<lambda>r. CeClash e r ((cluster_to_create now q1)\<lparr>ClPk := pk\<rparr>)) (CtRows t)"
      and t1: "CtRows t1 = CtRows t @ [(cluster_to_create now q1)\<lparr>ClPk := pk\<rparr>]"
      using created unfolding model_CreateCluster_def by (auto simp: bindE_def split: if_splits sum.splits)
    have "\<not> CeAuto e \<longrightarrow> pk = 0" using pk by (auto simp: cluster_to_create_def)
    from row [OF this] show ?thesis
      using assms free by (auto simp: clusters_ok_def clash_free_def t1 sorted_wrt_append list_ex_iff)
  qed
  then show ?thesis using assms by (auto simp: CreateCluster_def split: sum.splits)
qed

lemma UpdateCluster_ok:
  assumes "clusters_ok e t"
  shows "clusters_ok e (fst (UpdateCluster e flt now user name q t))"
proof -
  have "clusters_ok e t1" if "GetClusterByName e flt name t = Inr c" "CqStatus q = '''' \<or> \<not> isl (validateClusterStatus (trim_space (CqStatus q)))"
    "model_UpdateCluster e flt now (ClID c) (apply_request q c) t = Inr t1" for c t1
  proof -
    have "cluster_row_ok e c" using GetClusterByName_row [OF that(1)] assms by (auto simp: clusters_ok_def)
    then show ?thesis by (intro model_UpdateCluster_ok [OF assms _ that(3)] apply_request_ok that(2))
  qed
  then show ?thesis using assms by (auto simp: UpdateCluster_def split: sum.splits)
qed

lemma DeleteCluster_ok:
  assumes "clusters_ok e t"
  shows "clusters_ok e (fst (DeleteCluster e flt now deletedID user name t))"
proof -
  have "clusters_ok e t1" if "GetClusterByName e flt name t = Inr c"
    "model_UpdateCluster e flt now (ClID c) (c\<lparr>ClDeletedAt := deletedID, ClUpdatedAt := now\<rparr>) t = Inr t1" for c t1
  proof -
    have "cluster_row_ok e c" using GetClusterByName_row [OF that(1)] assms by (auto simp: clusters_ok_def)
    then have "cluster_row_ok e (c\<lparr>ClDeletedAt := deletedID, ClUpdatedAt := now\<rparr>)" by (simp add: cluster_row_ok_def)
    then show ?thesis by (rule model_UpdateCluster_ok [OF assms _ that(2)])
  qed
  then show ?thesis using assms by (auto simp: DeleteCluster_def model_DeleteCluster_def bindE_def split: sum.splits)
qed

lemma cluster_step_ok: "clusters_ok e t \<Longrightarrow> cluster_step e v t = Some t' \<Longrightarrow> clusters_ok e t'"
  by (cases "CvAct v") (auto simp: cluster_step_def CreateCluster_ok UpdateCluster_ok DeleteCluster_ok)

interpretation cluster_admin: step_machine "cluster_step e" "\<lambda>_. True" "clusters_ok e" for e
  by unfold_locales (rule cluster_step_ok)

lemma empty_clusters_ok: "clusters_ok e (empty_clusters ks)"
  by (simp add: clusters_ok_def empty_clusters_def clash_free_def)

lemma clusters_run_ok: "run_acts (cluster_step e) vs (empty_clusters ks) = Some t \<Longrightarrow> clusters_ok e t"
  by (rule cluster_admin.acts_inv [OF _ _ empty_clusters_ok]) (simp_all add: list_all_iff)

lemma clash_free_ids:
  assumes "clash_free e rows" and "\<And>a b. ClID a = ClID b \<Longrightarrow> CeClash e a b" and "r \<in> set rows" and "c \<in> set rows" and "ClID r = ClID c"
  shows "r = c"
proof -
  obtain i j where ij: "i < length rows" "rows ! i = r" "j < length rows" "rows ! j = c" using assms(3,4) by (auto simp: in_set_conv_nth)
  have "\<not> CeClash e (rows ! i) (rows ! j)" if "i < j" using assms(1) that ij(3) by (simp add: clash_free_def sorted_wrt_iff_nth_less)
  moreover have "\<not> CeClash e (rows ! j) (rows ! i)" if "j < i" using assms(1) that ij(1) by (simp add: clash_free_def sorted_wrt_iff_nth_less)
  ultimately have "i = j" using assms(2) [of r c] assms(2) [of c r] assms(5) ij by (cases i j rule: linorder_cases) simp_all
  then show ?thesis using ij by simp
qed

text \<open>An update by name touches the row of that name only.\<close>

lemma model_UpdateCluster_kept:
  assumes ok: "clusters_ok e t" and key: "\<And>a b. ClID a = ClID b \<Longrightarrow> CeClash e a b"
    and get: "GetClusterByName e flt name t = Inr c" and upd: "model_UpdateCluster e flt' now (ClID c) c' t = Inr t'"
    and r: "r \<in> set (CtRows t)" "r \<noteq> c"
  shows "r \<in> set (CtRows t')"
proof -
  have "c \<in> set (CtRows t)" using GetClusterByName_row [OF get] by blast
  then have "ClID r \<noteq> ClID c" using clash_free_ids [OF _ key r(1)] ok r(2) by (auto simp: clusters_ok_def)
  then show ?thesis using upd r(1) by (auto simp: model_UpdateCluster_def Let_def split: if_splits intro: rev_image_eqI)
qed

text \<open>
Whatever the requests, faults and races before it, a step of the cluster service keeps every row as it is - deleted ones for good -
  but for the one live row whose name root asked to change or delete.\<close>

theorem clusters_kept:
  assumes run: "run_acts (cluster_step e) vs (empty_clusters ks) = Some t" and key: "\<And>a b. ClID a = ClID b \<Longrightarrow> CeClash e a b"
    and step: "cluster_step e v t = Some t'" and r: "r \<in> set (CtRows t)" "r \<notin> set (CtRows t')"
  shows "live_cluster r \<and> (\<exists>user name. IsRootUser user \<and> trim_space name = ClName r \<and>
    (CvAct v = ClDelete user name \<or> (\<exists>q. CvAct v = ClUpdate user name q)))"
proof -
  have ok: "clusters_ok e t" by (rule clusters_run_ok [OF run])
  have hit: "live_cluster r \<and> ClName r = name" if "GetClusterByName e flt name t = Inr c" "model_UpdateCluster e flt now (ClID c) c' t = Inr t'"
    for flt name c now c'
    using model_UpdateCluster_kept [OF ok key that r(1)] r(2) GetClusterByName_row [OF that(1)] by blast
  show ?thesis
  proof (cases "CvAct v")
    case (ClCreate user q)
    have "set (CtRows t) \<subseteq> set (CtRows t')"
      using step unfolding cluster_step_def ClCreate CreateCluster_def model_CreateCluster_def
      by (auto simp: bindE_def split: sum.splits if_splits)
    then show ?thesis using r by blast
  next
    case (ClDelete user name)
    have "IsRootUser user \<and> live_cluster r \<and> ClName r = trim_space name"
      using step r unfolding cluster_step_def ClDelete DeleteCluster_def model_DeleteCluster_def
      by (auto simp: bindE_def split: sum.splits if_splits dest: hit)
    then show ?thesis using ClDelete by auto
  next
    case (ClUpdate user name q)
    have "IsRootUser user \<and> live_cluster r \<and> ClName r = trim_space name"
      using step r unfolding cluster_step_def ClUpdate UpdateCluster_def
      by (auto split: sum.splits if_splits dest: hit)
    then show ?thesis using ClUpdate by auto
  qed
qed

section \<open>What the listing shows\<close>

lemma no_keys_no_rows:
  assumes "run_acts (cluster_step e) vs (empty_clusters ks) = Some t" and "\<not> CeAuto e" and "\<not> flt CcList"
  shows "model_ListCluster flt 0 maxKeys names status t = Inr []"
proof -
  have "\<forall>r\<in>set (CtRows t). ClPk r = 0" using clusters_run_ok [OF assms(1)] assms(2) by (simp add: clusters_ok_def cluster_row_ok_def)
  then have "filter (\<lambda>r. live_cluster r \<and> ClPk r > 0 \<and> cluster_keep names status r) (scan (CtScan t) ClPk (CtRows t)) = []"
    by (auto simp: filter_empty_conv scan_def)
  then show ?thesis unfolding model_ListCluster_def Let_def using assms(3) by simp
qed

text \<open>
The table that \<open>AutoMigrate\<close> makes of the struct has no key that counts up: every row has the key 0, and the listing asks for keys
  greater than 0. So no cluster is ever listed, and the quotas, which start from that list, always end in an error.\<close>

theorem clusters_never_listed:
  assumes "run_acts (cluster_step e) vs (empty_clusters ks) = Some t" and "\<not> CeAuto e" and "\<not> flt CcList" and "IsRootUser user"
  shows "ListCluster e flt enc dec user maxKeys names status t '''' = Inr \<lparr>PgRows = [], PgNext = None\<rparr> \<and>
    (\<exists>msg. ListClusterQuota flt qe decode build nodes user names t s = (s, Inl ('''', msg)))"
proof -
  have none: "model_ListCluster flt 0 m ns st t = Inr []" for m ns st
    by (rule no_keys_no_rows [where flt = flt]) (rule assms)+
  have "ListCluster e flt enc dec user maxKeys names status t '''' = Inr \<lparr>PgRows = [], PgNext = None\<rparr>"
    unfolding ListCluster_def decode_marker_def using assms(4) by (simp add: none)
  moreover have "\<exists>msg. ListClusterQuota flt qe decode build nodes user names t s = (s, Inl ('''', msg))"
    unfolding ListClusterQuota_def none using assms(4) by simp
  ultimately show ?thesis by blast
qed

text \<open>With keys that count up the listing still ends at the greatest ID, wherever it stands.\<close>

lemma pages_end_at_greatest_id:
  assumes "IsRootUser user" and "decode_marker dec marker = Inr pk" and "model_ListCluster flt pk maxKeys names status t = Inr rows"
    and "rows \<noteq> []" and "GetLastCluster e flt t = Inr (last rows)"
  shows "ListCluster e flt enc dec user maxKeys names status t marker = Inr \<lparr>PgRows = rows, PgNext = None\<rparr>"
  using assms by (simp add: ListCluster_def IsLastClusterPk_def)

text \<open>A change of the ID reports success and changes nothing, when the new key is a condition of the update.\<close>

lemma keyed_update_is_lost:
  assumes "CeKeyed e" and "clash_free e (CtRows t)" and "\<not> flt CcUpdate" and "ClID c' \<noteq> ''''" and "ClID c' \<noteq> i"
  shows "model_UpdateCluster e flt now i c' t = Inr t"
proof -
  have "map (\<lambda>r. if ClID r = i \<and> (CeKeyed e \<and> ClID c' \<noteq> '''' \<longrightarrow> ClID r = ClID c') then set_nonzero now c' r else r) (CtRows t) = CtRows t"
    using assms by (intro map_idI) auto
  then show ?thesis unfolding model_UpdateCluster_def Let_def using assms(2,3) by simp
qed

text \<open>
The cached clients never answer otherwise than clients that are made anew: a client is reused only for the credential that made it.\<close>

theorem cached_clients_exact:
  "client_calls decode build cs \<lparr>K8sClientMap = [], ClusterName2Credential = []\<rparr> = map (\<lambda>(name, cred). fresh_client decode build name cred) cs"
  by (rule client_calls_coherent) (simp add: clients_coherent_def)

end
