(* ===== verification/Spec2Isabelle.thy ===== *)
theory Spec2Isabelle
  imports PF_Params PF_Graph PF_JobApp PF_Job PF_Workflow PF_Runtime PF_RunTraces PF_StepCache PF_RunCtl PF_Admin PF_BlockCache PF_JobSync PF_FsServer PF_Vfs PF_Pipeline PF_ImageHandler PF_Cluster
begin

text \<open>
  PaddleFlow is a machine learning workflow service: users describe a run as a YAML file of steps,
  the API server validates it, starts it as a workflow, submits every step as a job to Kubernetes, and
  follows the jobs until the run has ended. This library models the workflow engine, the job
  submission, the services of the API server with their tables, and the step cache.

  \<^bold>\<open>Conventions.\<close> A struct is a \<open>record\<close> with the fields of the source, prefixed by two or three
  letters; a string constant that acts as an enumeration is a datatype when the source gives it a type
  of its own, and a string otherwise. Go maps are association lists with distinct keys
  (\<open>PF_Prelude.gomap\<close>); where the code iterates over a map the order is an argument, and the
  properties hold for every order. An error is the left side of a sum; a nil dereference or a failed
  type assertion, which panics in Go, is an error value of its own (\<open>NilDeref\<close>, \<open>panic_code\<close>). Strings are
  lists of ASCII characters; an \<open>int64\<close> is an \<open>int\<close>, and where its range matters it is written out
  (\<open>wrap64\<close>, the hypotheses on primary keys). Code outside the repository (the YAML, JSON and quantity
  parsers, AES, bcrypt, SHA-256, UUIDs, the clients of Kubernetes and Volcano) is an argument or a
  field of an environment record. Every call of the database may fail: the operations take a set of faults.

  \<^bold>\<open>Theories.\<close>

  \<^item> \<open>PF_Prelude\<close>: Go maps, the sum monad, regular-expression scanners, decimal numerals, executions of
    a step function (\<open>reached\<close>), and the locale \<open>step_machine\<close> of invariants of such executions.

  \<^item> \<open>PF_Schema\<close> (\<open>pkg/common/schema\<close>, \<open>apiserver/common\<close>): statuses, the parsed run.yaml, runtime views,
    validation of resources and names.

  \<^item> \<open>PF_Graph\<close>, \<open>PF_Params\<close>, \<open>PF_Workflow\<close> (\<open>pkg/pipeline/workflow.go\<close>, \<open>common.go\<close>, \<open>step.go\<close>): selection and
    order of the steps, resolution of parameter references, construction of a workflow with its step
    objects. The recursion of the solver takes fuel; the rank of a step in the acyclic dependency
    relation bounds it, which \<open>Solve_terminates\<close> and \<open>NewWorkflow_returns\<close> prove.

  \<^item> \<open>PF_Job\<close>, \<open>PF_Runtime\<close>, \<open>PF_RunTraces\<close> (\<open>pkg/pipeline/job.go\<close>, \<open>run.go\<close>, \<open>step.go\<close>): the running workflow as
    an interleaving machine. Each goroutine (one per step, one watcher per job, the listener, calls of
    Stop) has a program counter, and an action moves one of them from one shared access to the next;
    channels are lists. The job service is the interface \<open>job_interface\<close>. \<open>PF_RunTraces\<close> executes concrete
    interleavings.

  \<^item> \<open>PF_Models\<close>, \<open>PF_JobConf\<close>, \<open>PF_JobApp\<close> (\<open>apiserver/models\<close>, \<open>pkg/job\<close>): the tables of grants, queues, users and
    jobs; validation of a job, its Volcano or Spark description, and its submission.

  \<^item> \<open>PF_Encrypt\<close>, \<open>PF_Paging\<close> (\<open>apiserver/common/encrypt.go\<close> and the list operations): page markers and the page
    protocol. The locale \<open>paged_table\<close> is what a table must offer; every list operation interprets it.

  \<^item> \<open>PF_RunModels\<close>, \<open>PF_Track\<close>, \<open>PF_RunCtl\<close> (\<open>apiserver/models\<close>, \<open>controller/run\<close>, \<open>router/v1\<close>): the run service. Its
    state holds the database, the workflow objects with their runtimes, the map of running workflows, the
    tasks of the image handler and the writes it still owes. API requests, engine actions and callbacks are
    the actions of one machine, so the engine of \<open>PF_Runtime\<close> runs inside the service.

  \<^item> \<open>PF_Json\<close>, \<open>PF_StepCache\<close> (\<open>pkg/pipeline/cache.go\<close>, \<open>step.go\<close>): the JSON text of the cache keys, fingerprints,
    and the search for a valid cache record.

  \<^item> \<open>PF_Admin\<close> (\<open>controller/queue\<close>, \<open>grant\<close>, \<open>user\<close>): administration, with the calls to Volcano in the order of
    the code.

  \<^item> \<open>PF_Path\<close>, \<open>PF_Inode\<close>, \<open>PF_Meta\<close> (\<open>pkg/fs/client/meta\<close>, \<open>client/utils\<close>): Go's \<open>path\<close> package; the inode tree of the
    file system client, in which a node knows its parent and its children; the operations of \<open>DefaultMeta\<close>,
    which act on the storage (the parameter record \<open>ufs_ops\<close>, several of them with links) and on the tree, and the machine
    of all their calls. The walk from a node to the root has the number of nodes as fuel, which is enough
    because every node has a depth (\<open>tree_ok\<close>).

  \<^item> \<open>PF_BlockCache\<close> (\<open>pkg/fs/client/cache\<close>, \<open>vfs/reader.go\<close>): the block cache and the read loop. The goroutines that
    store and delete blocks are lists of tasks, and each iteration of them is a step, as are evictions and
    the removals of files. The read loop has two more fuel than the bytes asked for.

  \<^item> \<open>PF_Vfs\<close> (\<open>pkg/fs/client/vfs\<close>): the calls of the FUSE server. The state joins the metadata layer, the block cache and
    the table of open handles; the descriptors of the storage are numbered, and \<open>VfLive\<close> are those not yet released. Calls
    are atomic; the goroutines of the cache are steps between them.

  \<^item> \<open>PF_JobSync\<close> (\<open>pkg/job/controller\<close>): the informers' filters and handlers, the work queue with its retries and the garbage
    collector, over the job table of \<open>PF_JobConf\<close>; each handler call, each work item and each deletion is a step.

  \<^item> \<open>PF_FsTables\<close>, \<open>PF_FsServer\<close> (\<open>pkg/fs/server\<close>, \<open>models/pfs.go\<close>, \<open>models/link.go\<close>, \<open>handler/fs_handler.go\<close>): the file system
    service. A request is atomic and has a fault for every call it makes; whether a storage can be reached and what
    its directories hold are answers of the environment. The file with the links is written here and read by \<open>PF_Meta\<close>.

  \<^item> \<open>PF_Pipeline\<close> (\<open>controller/pipeline\<close>, \<open>router/v1/pipeline.go\<close>): stored pipelines, which are checked by building the workflow of
    \<open>PF_Workflow\<close> and from which the runs of \<open>PF_RunCtl\<close> start.

  \<^item> \<open>PF_ImageHandler\<close> (\<open>handler/image_handler.go\<close>): the pool that loads the images of runs. Each goroutine is a program counter, and
    a step takes one of them to its next access of the queue, the map of images under way or a channel. A multiset that
    every step keeps, of the tasks that wait, are held or were called back, carries the properties.

  \<^bold>\<open>What the theorems show.\<close> The engine starts a step only after its dependencies, never exceeds the
  parallelism of the workflow, and keeps a final status; the order of the steps is topological exactly when
  the dependencies are acyclic; construction terminates and yields well-formed workflows; a reference resolves
  only along declared dependencies. The services keep their tables well formed in every reachable state, keep
  users apart, and list every row once. Some theorems state what the code does against its purpose: the lost
  slot, the lost wake-up and the late status of the engine, the races of Stop, the status pending written
  late, the queue stranded by a panic, the grants that outlive a user.
  The inode tree and the block cache of the file client are correct under the protocol their callers should keep: paths
  and inodes correspond, and reads refine a plain store of files. Other properties show what happens outside it:
  an open unlinked file becomes the root, a cached block reaches another file, a read behind the end panics, a write
  through a handle of a renamed file leaves old blocks in the cache. Handles own their descriptors and give them back.
  Final job statuses survive every order of events and failures. The file system service keeps its tables consistent, the
  links it writes are those its clients read, and stored pipelines always build. The image pool calls back every task once and
  builds no image twice at a time - and, with the pointers its channels are, panics before it builds one.

  \<^bold>\<open>Not modelled.\<close> Logging and the texts of most messages; HTTP routing and token checks; what Docker
  does for the image handler; the reachability checks of storages; the back ends of the file system client (S3, HDFS, SFTP,
  FUSE), which are I/O; the Kubernetes CSI plugin; generated types.
\<close>

end
